(* ===== verification/Prelude.thy ===== *)
theory Prelude
  imports Main "HOL-Library.Word"
begin

text \<open>
  Shared vocabulary of the development: the machine integers of the C code, the ways a C
  operation can go wrong as values, byte-range copies on arrays, and the generic list lemmas the
  component theories use.  An operation that can run into undefined behaviour returns a value of
  type \<open>'a res\<close>: \<open>Inl f\<close> names what went wrong, \<open>Inr x\<close> is the normal result.
\<close>

section \<open>Types\<close>

type_synonym byte = "8 word"
type_synonym u16 = "16 word"
type_synonym u32 = "32 word"
type_synonym u64 = "64 word"
type_synonym u128 = "128 word"
type_synonym ptr = nat

datatype fault =
    OutOfBounds      \<comment> \<open>a read or write outside the object\<close>
  | NullDeref        \<comment> \<open>a dereference of NULL\<close>
  | DivByZero        \<comment> \<open>an integer division by zero\<close>
  | BadShift         \<comment> \<open>a shift by the width of the type or more\<close>
  | BadFree          \<comment> \<open>a free of, or an access through, a block that is not allocated\<close>
  | Uninit           \<comment> \<open>a read of an uninitialised variable\<close>
  | Overflow         \<comment> \<open>a signed overflow\<close>
  | Aborted          \<comment> \<open>assert or abort\<close>
  | Overlap          \<comment> \<open>a \<open>memcpy\<close> between overlapping ranges\<close>
  | BadCast          \<comment> \<open>a read of a union through a member that was not written\<close>
  | Diverges         \<comment> \<open>a loop that outlasts every terminating run\<close>

type_synonym 'a res = "fault + 'a"

definition bindE :: "'e + 'a \<Rightarrow> ('a \<Rightarrow> 'e + 'b) \<Rightarrow> 'e + 'b" where
  "bindE m f = (case m of Inl e \<Rightarrow> Inl e | Inr x \<Rightarrow> f x)"

definition guardE :: "bool \<Rightarrow> 'e \<Rightarrow> 'e + unit" where
  "guardE b e = (if b then Inr () else Inl e)"

named_theorems res_simps
named_theorems blit_simps

lemma bindE_simps [simp, res_simps]:
  "bindE (Inl e) f = Inl e"
  "bindE (Inr x) f = f x"
  by (simp_all add: bindE_def)

lemma bindE_eq_Inr [res_simps]: "bindE m f = Inr y \<longleftrightarrow> (\<exists>x. m = Inr x \<and> f x = Inr y)"
  by (simp add: bindE_def split: sum.splits)

lemma guardE_simps [simp, res_simps]:
  "guardE True e = Inr ()"
  "guardE False e = Inl e"
  by (simp_all add: guardE_def)

lemma guardE_eq_Inr [res_simps]: "guardE b e = Inr u \<longleftrightarrow> b"
  by (simp add: guardE_def)

lemma guardE_eq_Inl [res_simps]: "guardE b e = Inl f \<longleftrightarrow> \<not> b \<and> f = e"
  by (auto simp: guardE_def)

section \<open>Copies between arrays\<close>

text \<open>\<open>memcpy\<close> into a list at an offset, and the bytes of a range.\<close>

definition blit :: "'a list \<Rightarrow> nat \<Rightarrow> 'a list \<Rightarrow> 'a list" where
  "blit dst i src = take i dst @ src @ drop (i + length src) dst"

definition chunk :: "'a list \<Rightarrow> nat \<Rightarrow> nat \<Rightarrow> 'a list" where
  "chunk xs i n = take n (drop i xs)"

definition blitE :: "'a list \<Rightarrow> nat \<Rightarrow> 'a list \<Rightarrow> ('a list) res" where
  "blitE dst i src = (if i + length src \<le> length dst then Inr (blit dst i src) else Inl OutOfBounds)"

definition chunkE :: "'a list \<Rightarrow> nat \<Rightarrow> nat \<Rightarrow> ('a list) res" where
  "chunkE xs i n = (if i + n \<le> length xs then Inr (chunk xs i n) else Inl OutOfBounds)"

lemma length_blit [simp, blit_simps]:
  "i + length src \<le> length dst \<Longrightarrow> length (blit dst i src) = length dst"
  by (simp add: blit_def)

lemma length_chunk [simp, blit_simps]: "i + n \<le> length xs \<Longrightarrow> length (chunk xs i n) = n"
  by (simp add: chunk_def)

lemma nth_blit [blit_simps]:
  assumes "i + length src \<le> length dst" "k < length dst"
  shows "blit dst i src ! k = (if i \<le> k \<and> k < i + length src then src ! (k - i) else dst ! k)"
  using assms by (auto simp: blit_def nth_append min_def)

lemma nth_chunk [simp]: "i + n \<le> length xs \<Longrightarrow> k < n \<Longrightarrow> chunk xs i n ! k = xs ! (i + k)"
  by (simp add: chunk_def)

lemma blit_Nil [simp, blit_simps]: "blit dst i [] = dst"
  by (simp add: blit_def)

lemma chunk_blit_same [simp, blit_simps]:
  "i + length src \<le> length dst \<Longrightarrow> chunk (blit dst i src) i (length src) = src"
  by (simp add: chunk_def blit_def)

lemma blitE_Inr [simp, blit_simps]:
  "i + length src \<le> length dst \<Longrightarrow> blitE dst i src = Inr (blit dst i src)"
  by (simp add: blitE_def)

lemma chunkE_Inr [simp, blit_simps]: "i + n \<le> length xs \<Longrightarrow> chunkE xs i n = Inr (chunk xs i n)"
  by (simp add: chunkE_def)

lemma blitE_eq_Inr [res_simps]:
  "blitE dst i src = Inr ys \<longleftrightarrow> i + length src \<le> length dst \<and> ys = blit dst i src"
  by (auto simp: blitE_def)

lemma chunkE_eq_Inr [res_simps]:
  "chunkE xs i n = Inr ys \<longleftrightarrow> i + n \<le> length xs \<and> ys = chunk xs i n"
  by (auto simp: chunkE_def)

lemma chunk_append: "chunk xs i m @ chunk xs (i + m) n = chunk xs i (m + n)"
  by (simp add: chunk_def take_add add.commute)

lemma chunk_0_all [simp]: "n = length xs \<Longrightarrow> chunk xs 0 n = xs"
  by (simp add: chunk_def)

lemma chunk_0_take: "chunk xs 0 n = take n xs"
  by (simp add: chunk_def)

lemma chunk_len_0 [simp]: "chunk xs i 0 = []"
  by (simp add: chunk_def)

text \<open>Two adjacent copies are one.\<close>

lemma blit_adjacent:
  assumes "i + length x + length y \<le> length xs"
  shows "blit (blit xs i x) (i + length x) y = blit xs i (x @ y)"
  using assms by (simp add: blit_def add.commute add.left_commute)

lemma blit_prefix:
  assumes "length pre = i"
  shows "blit (pre @ rest) i x = pre @ x @ drop (length x) rest"
  using assms by (simp add: blit_def)

section \<open>The last elements of a list\<close>

definition lastn :: "nat \<Rightarrow> 'a list \<Rightarrow> 'a list" where
  "lastn n xs = drop (length xs - n) xs"

lemma lastn_all [simp]: "length xs \<le> n \<Longrightarrow> lastn n xs = xs"
  by (simp add: lastn_def)

lemma length_lastn [simp]: "length (lastn n xs) = min n (length xs)"
  by (simp add: lastn_def min_def)

lemma nth_lastn: "i < min n (length xs) \<Longrightarrow> lastn n xs ! i = xs ! (length xs - n + i)"
  by (simp add: lastn_def)

lemma lastn_append_long: "n \<le> length ys \<Longrightarrow> lastn n (xs @ ys) = lastn n ys"
  by (simp add: lastn_def)

lemma lastn_append_short:
  "length ys \<le> n \<Longrightarrow> lastn n (xs @ ys) = lastn (n - length ys) xs @ ys"
  by (simp add: lastn_def)

lemma lastn_append_lastn: "lastn n (xs @ lastn n ys) = lastn n (xs @ ys)"
proof (cases "length ys \<le> n")
  case False
  then show ?thesis by (simp add: lastn_append_long)
qed simp

lemma lastn_lastn_append: "lastn n (lastn n xs @ ys) = lastn n (xs @ ys)"
proof (cases "length ys \<le> n")
  case True
  then show ?thesis
    by (cases "length xs \<le> n") (simp_all add: lastn_append_short, simp add: lastn_def add.commute)
qed (simp add: lastn_append_long)

section \<open>Words\<close>

lemma unat_add_small:
  fixes a b :: "'w::len word"
  shows "unat a + unat b < 2 ^ LENGTH('w) \<Longrightarrow> unat (a + b) = unat a + unat b"
  by (simp add: unat_word_ariths)

lemma unat_sub_small:
  fixes a b :: "'w::len word"
  shows "b \<le> a \<Longrightarrow> unat (a - b) = unat a - unat b"
  by (simp add: unat_sub)

lemma unat_add_64:
  fixes a b :: u64
  shows "unat a + unat b < 18446744073709551616 \<Longrightarrow> unat (a + b) = unat a + unat b"
  using unat_add_small [of a b] by simp

text \<open>The union of a low part and of a number that has no low part is their sum.\<close>

unbundle bit_operations_syntax

lemma or_disjoint_nat: "r < 2 ^ k \<Longrightarrow> take_bit k c = 0 \<Longrightarrow> r OR c = r + (c :: nat)"
proof -
  assume r: "r < 2 ^ k" and c: "take_bit k c = 0"
  have "\<not> (bit r n \<and> bit c n)" for n
  proof
    assume b: "bit r n \<and> bit c n"
    have "take_bit k r = r" using r by (rule take_bit_nat_eq_self)
    then have "n < k" using b by (metis bit_take_bit_iff)
    then have "bit (take_bit k c) n" using b by (simp add: bit_take_bit_iff)
    with c show False by simp
  qed
  then have "r AND c = 0" by (intro bit_eqI) (auto simp: bit_and_iff)
  then show "r OR c = r + c" by (simp add: disjunctive_add_eq_or)
qed

end
