(* ===== verification/Simulation.thy ===== *)
theory Simulation
  imports Prelude
begin

text \<open>
  The interface of a component that is driven by a sequence of operations: \<open>rep\<close> relates a
  concrete state to the abstract value it stands for, \<open>step\<close> is the code of one operation (which
  may fault), \<open>spec\<close> what the operation does to the abstract value and \<open>pre\<close> when it may be called.
  The law is the forward simulation of one operation; the client gets it for every sequence of
  operations each of which may be called when its turn comes.
\<close>

fun steps :: "('o \<Rightarrow> 's \<Rightarrow> 's res) \<Rightarrow> 'o list \<Rightarrow> 's \<Rightarrow> 's res" where
  "steps step [] s = Inr s"
| "steps step (x # xs) s = bindE (step x s) (steps step xs)"

lemma steps_append: "steps step (xs @ ys) s = bindE (steps step xs s) (steps step ys)"
  by (induction xs arbitrary: s) (auto simp: bindE_def split: sum.splits)

fun admissible :: "('o \<Rightarrow> 'a \<Rightarrow> bool) \<Rightarrow> ('o \<Rightarrow> 'a \<Rightarrow> 'a) \<Rightarrow> 'o list \<Rightarrow> 'a \<Rightarrow> bool" where
  "admissible pre spec [] a \<longleftrightarrow> True"
| "admissible pre spec (x # xs) a \<longleftrightarrow> pre x a \<and> admissible pre spec xs (spec x a)"

lemma admissible_True [simp]: "admissible (\<lambda>x a. True) spec xs a"
  by (induction xs arbitrary: a) auto

locale simulation =
  fixes rep :: "'s \<Rightarrow> 'a \<Rightarrow> bool"
    and step :: "'o \<Rightarrow> 's \<Rightarrow> 's res"
    and spec :: "'o \<Rightarrow> 'a \<Rightarrow> 'a"
    and pre :: "'o \<Rightarrow> 'a \<Rightarrow> bool"
  assumes step_rep: "rep s a \<Longrightarrow> pre x a \<Longrightarrow> \<exists>s'. step x s = Inr s' \<and> rep s' (spec x a)"
begin

lemma run_rep: "rep s a \<Longrightarrow> admissible pre spec xs a \<Longrightarrow> \<exists>s'. steps step xs s = Inr s' \<and> rep s' (fold spec xs a)"
proof (induction xs arbitrary: s a)
  case (Cons x xs)
  from step_rep [OF Cons.prems(1), of x] Cons.prems(2) obtain s1 where "step x s = Inr s1" "rep s1 (spec x a)" by auto
  with Cons.IH [of s1 "spec x a"] Cons.prems(2) show ?case by simp
qed simp

lemma run_total: "rep s a \<Longrightarrow> admissible pre spec xs a \<Longrightarrow> steps step xs s \<noteq> Inl e"
  using run_rep [of s a xs] by auto

end

end
