(* ===== verification/CBuf.thy ===== *)
theory CBuf
  imports Prelude
begin

text \<open>
  The circular byte buffer of \<open>modules/core/src/dap_cbuf.c\<close>.  The structure keeps its four
  \<open>size_t\<close> fields as 64-bit words, because the code uses the wrap-around value \<open>(size_t)-1\<close> for
  "empty" and lets \<open>offset_tail + 1\<close> wrap to 0.  The contract is a queue of bytes that keeps at
  most \<open>data_size_max\<close> of the youngest bytes: \<open>cbuf_abs\<close> reads the queue off the structure,
  \<open>cbuf_inv\<close> is the representation invariant, and the locale \<open>byte_queue\<close> states the contract.
\<close>

unbundle bit_operations_syntax

section \<open>State and operations\<close>

record cbuf =
  data_size_max :: u64
  data_size :: u64
  offset_tail :: u64
  offset_head :: u64
  buffer :: "byte list"

definition dap_cbuf_reset :: "cbuf \<Rightarrow> cbuf" where
  "dap_cbuf_reset c = c\<lparr>offset_head := -1, offset_tail := -1, data_size := 0\<rparr>"

text \<open>\<open>garbage\<close> is what \<open>malloc\<close> leaves in the block; allocation succeeds.\<close>

definition dap_cbuf_create :: "byte list \<Rightarrow> cbuf" where
  "dap_cbuf_create garbage =
     dap_cbuf_reset \<lparr>data_size_max = word_of_nat (length garbage), data_size = 0,
       offset_tail = 0, offset_head = 0, buffer = garbage\<rparr>"

definition dap_cbuf_get_size_max :: "cbuf \<Rightarrow> u64" where
  "dap_cbuf_get_size_max c = data_size_max c"

definition dap_cbuf_get_size :: "cbuf \<Rightarrow> u64" where
  "dap_cbuf_get_size c = data_size c"

text \<open>The end of \<open>dap_cbuf_push\<close>: the head is moved and the size is computed again.\<close>

definition cbuf_push_finish :: "cbuf \<Rightarrow> bool \<Rightarrow> cbuf" where
  "cbuf_push_finish c resetHead =
     (let h = (if offset_head c = -1 then 0 else offset_head c);
          t = offset_tail c;
          m = data_size_max c
      in if resetHead
         then c\<lparr>offset_head := (if t + 1 < m then t + 1 else 0), data_size := m\<rparr>
         else c\<lparr>offset_head := h,
                data_size := (if h \<le> t then t - h + 1 else m - (h - t - 1))\<rparr>)"

definition dap_cbuf_push :: "cbuf \<Rightarrow> byte list \<Rightarrow> cbuf res" where
  "dap_cbuf_push c src =
     (if src = [] then Inr c
      else let len = (word_of_nat (length src) :: u64);
               m = data_size_max c; t = offset_tail c; h = offset_head c;
               writable = (if m < len then m else len);
               pSrc = (if m < len then drop (unat (len - m)) src else src)
           in if t + writable < m
              then bindE (chunkE pSrc 0 (unat writable)) (\<lambda>d.
                   bindE (blitE (buffer c) (unat (t + 1)) d) (\<lambda>b.
                   Inr (cbuf_push_finish (c\<lparr>buffer := b, offset_tail := t + writable\<rparr>)
                          (t < h \<and> h \<le> t + writable))))
              else let remain = m - t - 1; cover = writable - remain
                   in bindE (chunkE pSrc 0 (unat remain)) (\<lambda>d1.
                      bindE (blitE (buffer c) (unat (t + 1)) d1) (\<lambda>b1.
                      bindE (chunkE pSrc (unat remain) (unat cover)) (\<lambda>d2.
                      bindE (blitE b1 0 d2) (\<lambda>b2.
                      Inr (cbuf_push_finish (c\<lparr>buffer := b2, offset_tail := cover - 1\<rparr>)
                             (if t < h then True else h < cover)))))))"

text \<open>
  \<open>inter_circularBuffer_read\<close>: \<open>out\<close> says whether \<open>dataOut\<close> is non-NULL.  The result is the
  number of bytes read, the bytes stored at \<open>dataOut\<close> and the structure.
\<close>

definition cbuf_empty_if :: "bool \<Rightarrow> cbuf \<Rightarrow> cbuf" where
  "cbuf_empty_if b c = (if b then c\<lparr>offset_head := -1, offset_tail := -1\<rparr> else c)"

definition inter_circularBuffer_read :: "cbuf \<Rightarrow> u64 \<Rightarrow> bool \<Rightarrow> bool \<Rightarrow> (u64 \<times> byte list \<times> cbuf) res" where
  "inter_circularBuffer_read c len out resetHead =
     (if data_size c = 0 \<or> len = 0 then Inr (0, [], c)
      else let rd = (if data_size c < len then data_size c else len);
               m = data_size_max c; t = offset_tail c; h = offset_head c;
               shrink = (\<lambda>c'. if resetHead then c'\<lparr>data_size := data_size c' - rd\<rparr> else c')
           in if h \<le> t
              then bindE (if out then chunkE (buffer c) (unat h) (unat rd) else Inr []) (\<lambda>d.
                   let c' = (if resetHead
                             then cbuf_empty_if (t < h + rd) (c\<lparr>offset_head := h + rd\<rparr>) else c)
                   in Inr (rd, d, shrink c'))
              else if h + rd \<le> m
              then bindE (if out then chunkE (buffer c) (unat h) (unat rd) else Inr []) (\<lambda>d.
                   let c' = (if resetHead
                             then c\<lparr>offset_head := (if h + rd = m then 0 else h + rd)\<rparr> else c)
                   in Inr (rd, d, shrink c'))
              else let frg1 = m - h; frg2 = rd - frg1
                   in bindE (if out then chunkE (buffer c) (unat h) (unat frg1) else Inr []) (\<lambda>d1.
                      bindE (if out then chunkE (buffer c) 0 (unat frg2) else Inr []) (\<lambda>d2.
                      let c' = (if resetHead
                                then cbuf_empty_if (t < frg2) (c\<lparr>offset_head := frg2\<rparr>) else c)
                      in Inr (rd, d1 @ d2, shrink c'))))"

definition dap_cbuf_pop :: "cbuf \<Rightarrow> u64 \<Rightarrow> bool \<Rightarrow> (u64 \<times> byte list \<times> cbuf) res" where
  "dap_cbuf_pop c len out = inter_circularBuffer_read c len out True"

definition dap_cbuf_read :: "cbuf \<Rightarrow> u64 \<Rightarrow> bool \<Rightarrow> (u64 \<times> byte list \<times> cbuf) res" where
  "dap_cbuf_read c len out = inter_circularBuffer_read c len out False"

section \<open>Abstraction and invariant\<close>

definition cbuf_abs :: "cbuf \<Rightarrow> byte list" where
  "cbuf_abs c = (if data_size c = 0 then []
     else take (unat (data_size c))
            (drop (unat (offset_head c)) (buffer c) @ take (unat (offset_head c)) (buffer c)))"

definition cbuf_inv :: "cbuf \<Rightarrow> bool" where
  "cbuf_inv c \<longleftrightarrow>
     (let m = unat (data_size_max c); n = unat (data_size c);
          h = unat (offset_head c); t = unat (offset_tail c)
      in length (buffer c) = m \<and> 0 < m \<and> m < 2 ^ 63 \<and>
         (if n = 0 then offset_head c = -1 \<and> offset_tail c = -1
          else h < m \<and> t < m \<and> n = (if h \<le> t then t + 1 - h else m - (h - t - 1))))"

text \<open>The queue as a run of \<open>n\<close> cells from cell \<open>h\<close> of an array used as a ring.\<close>

definition ring :: "byte list \<Rightarrow> nat \<Rightarrow> nat \<Rightarrow> byte list" where
  "ring b h n = map (\<lambda>i. b ! (if h + i < length b then h + i else h + i - length b)) [0..<n]"

lemma length_ring [simp]: "length (ring b h n) = n"
  by (simp add: ring_def)

lemma nth_ring:
  "i < n \<Longrightarrow> ring b h n ! i = b ! (if h + i < length b then h + i else h + i - length b)"
  by (simp add: ring_def)

lemma ring_take_drop:
  assumes "h < length b" "n \<le> length b"
  shows "take n (drop h b @ take h b) = ring b h n"
  using assms by (intro nth_equalityI) (auto simp: nth_ring nth_append less_diff_conv add.commute)

lemma drop_ring:
  assumes "h < length b" "n \<le> length b" "k \<le> n"
  shows "drop k (ring b h n) = ring b (if h + k < length b then h + k else h + k - length b) (n - k)"
  using assms by (intro nth_equalityI) (auto simp: nth_ring add.assoc)

lemma take_ring: "k \<le> n \<Longrightarrow> take k (ring b h n) = ring b h k"
  by (intro nth_equalityI) (auto simp: nth_ring)

lemma ring_contiguous: "h + n \<le> length b \<Longrightarrow> ring b h n = chunk b h n"
  by (intro nth_equalityI) (auto simp: nth_ring)

lemma ring_wrapped:
  assumes "h < length b" "n \<le> length b" "length b < h + n"
  shows "ring b h n = chunk b h (length b - h) @ chunk b 0 (n - (length b - h))"
  using assms by (intro nth_equalityI) (auto simp: nth_ring nth_append less_diff_conv add.commute)

text \<open>
  \<open>ring_written b e p b'\<close>: \<open>b'\<close> is \<open>b\<close> with \<open>p\<close> stored from cell \<open>e\<close> on, going round the end.
\<close>

definition ring_written :: "byte list \<Rightarrow> nat \<Rightarrow> byte list \<Rightarrow> byte list \<Rightarrow> bool" where
  "ring_written b e p b' \<longleftrightarrow> length b' = length b \<and>
     (\<forall>k < length b. b' ! k =
       (if e \<le> k \<and> k < e + length p then p ! (k - e)
        else if k + length b < e + length p then p ! (k + length b - e) else b ! k))"

lemma wrap_old:
  fixes h n m w i :: nat
  assumes "h < m" "n \<le> m" "w \<le> m" "n + w \<le> m" "i < n"
    and e: "e = (if h + n < m then h + n else h + n - m)"
    and k: "k = (if h + i < m then h + i else h + i - m)"
  shows "\<not> (e \<le> k \<and> k < e + w) \<and> \<not> k + m < e + w"
  using assms by (cases "h + n < m"; cases "h + i < m"; simp; linarith?)

lemma wrap_new:
  fixes h n m w i :: nat
  assumes "h < m" "n \<le> m" "w \<le> m" "n + w \<le> m" "n \<le> i" "i < n + w"
    and e: "e = (if h + n < m then h + n else h + n - m)"
    and k: "k = (if h + i < m then h + i else h + i - m)"
  shows "(e \<le> k \<and> k < e + w \<and> k - e = i - n) \<or>
       (\<not> (e \<le> k \<and> k < e + w) \<and> k + m < e + w \<and> k + m - e = i - n)"
  using assms by (cases "h + n < m"; cases "h + i < m"; simp; linarith?)

text \<open>Writing right after a run that leaves enough room appends to it.\<close>

lemma ring_append:
  assumes h: "h < length b" and n: "n + length p \<le> length b"
    and e: "e = (if h + n < length b then h + n else h + n - length b)"
    and wr: "ring_written b e p b'"
  shows "ring b' h (n + length p) = ring b h n @ p"
proof (rule nth_equalityI)
  fix i assume "i < length (ring b' h (n + length p))"
  then have i: "i < n + length p" by simp
  define k where "k = (if h + i < length b then h + i else h + i - length b)"
  have km: "k < length b" using h n i by (auto simp: k_def)
  have lb: "length b' = length b" using wr by (simp add: ring_written_def)
  have L: "ring b' h (n + length p) ! i = b' ! k"
    using i lb by (simp add: nth_ring k_def)
  have b': "b' ! k = (if e \<le> k \<and> k < e + length p then p ! (k - e)
        else if k + length b < e + length p then p ! (k + length b - e) else b ! k)"
    using wr km by (simp add: ring_written_def)
  show "ring b' h (n + length p) ! i = (ring b h n @ p) ! i"
  proof (cases "i < n")
    case True
    have "\<not> (e \<le> k \<and> k < e + length p)" "\<not> k + length b < e + length p"
      using wrap_old [OF h _ _ n True e k_def] n by auto
    then have "b' ! k = b ! k" by (simp only: b' if_False)
    moreover have "(ring b h n @ p) ! i = b ! k"
      using True by (simp add: nth_append nth_ring k_def)
    ultimately show ?thesis using L by simp
  next
    case False
    then have "(e \<le> k \<and> k < e + length p \<and> k - e = i - n) \<or>
       (\<not> (e \<le> k \<and> k < e + length p) \<and> k + length b < e + length p \<and> k + length b - e = i - n)"
      using wrap_new [OF h _ _ n _ i e k_def] n by linarith
    then have "b' ! k = p ! (i - n)"
      by (elim disjE conjE) (simp_all only: b' if_True if_False simp_thms)
    then show ?thesis using L False by (simp add: nth_append)
  qed
qed simp

text \<open>In general the oldest bytes make room: the run keeps the last \<open>length b\<close> bytes.\<close>

lemma ring_write:
  assumes h: "h < length b" and n: "n \<le> length b" and w: "length p \<le> length b"
    and e: "e = (if h + n < length b then h + n else h + n - length b)"
    and wr: "ring_written b e p b'"
    and h': "h' = (if n + length p \<le> length b then h
                   else if e + length p < length b then e + length p else e + length p - length b)"
  shows "ring b' h' (min (length b) (n + length p)) = lastn (length b) (ring b h n @ p)"
proof (cases "n + length p \<le> length b")
  case True
  with ring_append [OF h True e wr] h' show ?thesis by simp
next
  case False
  define d where "d = n + length p - length b"
  define h1 where "h1 = (if h + d < length b then h + d else h + d - length b)"
  have d: "d \<le> n" using w by (simp add: d_def)
  have h1: "h1 < length b" using h n d by (auto simp: h1_def)
  have n1: "n - d + length p = length b" using False n w by (simp add: d_def)
  have e1: "e = (if h1 + (n - d) < length b then h1 + (n - d) else h1 + (n - d) - length b)"
    using e d h n by (auto simp: h1_def)
  have "h' = h1"
    unfolding h'
    using False e1 n1 h1 w by (cases "h1 + (n - d) < length b"; cases "e + length p < length b"; simp; linarith?)
  moreover have "drop d (ring b h n) = ring b h1 (n - d)"
    using drop_ring [OF h n d] by (simp add: h1_def)
  moreover have "lastn (length b) (ring b h n @ p) = drop d (ring b h n) @ p"
    using False w by (simp add: lastn_def d_def)
  ultimately show ?thesis
    using ring_append [OF h1 _ e1 wr] n1 False by simp
qed

lemma cbuf_abs_ring:
  assumes "cbuf_inv c"
  shows "cbuf_abs c = ring (buffer c) (unat (offset_head c)) (unat (data_size c))"
proof (cases "data_size c = 0")
  case True
  then show ?thesis by (simp add: cbuf_abs_def ring_def)
next
  case False
  then have "unat (data_size c) \<noteq> 0" by (simp add: unat_eq_0)
  with assms have "unat (offset_head c) < length (buffer c)"
    "unat (data_size c) \<le> length (buffer c)"
    by (auto simp: cbuf_inv_def Let_def split: if_splits)
  with False show ?thesis by (simp add: cbuf_abs_def ring_take_drop del: take_append)
qed

lemma length_cbuf_abs: "cbuf_inv c \<Longrightarrow> length (cbuf_abs c) = unat (data_size c)"
  by (simp add: cbuf_abs_ring)

text \<open>The write position: the cell after the tail, which wraps to 0 in an empty buffer.\<close>

definition cbuf_wpos :: "cbuf \<Rightarrow> nat" where
  "cbuf_wpos c = (if data_size c = 0 then 0
     else if unat (offset_tail c) + 1 < unat (data_size_max c) then unat (offset_tail c) + 1 else 0)"

lemma unat_eq_if_less:
  "k < 2 ^ 63 \<Longrightarrow> unat (word_of_nat k :: u64) = k"
  by (simp add: unat_of_nat take_bit_nat_eq_self_iff)

lemma unat_m1_64: "unat (- 1 :: u64) = 18446744073709551615"
  using unat_minus_one [of "0 :: u64"] by (simp add: unat_word_ariths unsigned_minus_1_eq_mask mask_eq_exp_minus_1)

lemma cbuf_inv_cases:
  assumes "cbuf_inv c"
  obtains (empty) "data_size c = 0" "offset_head c = -1" "offset_tail c = -1"
  | (nonempty) "data_size c \<noteq> 0" "unat (offset_head c) < unat (data_size_max c)"
      "unat (offset_tail c) < unat (data_size_max c)"
      "unat (data_size c) = (if unat (offset_head c) \<le> unat (offset_tail c)
         then unat (offset_tail c) + 1 - unat (offset_head c)
         else unat (data_size_max c) - (unat (offset_head c) - unat (offset_tail c) - 1))"
  using assms by (auto simp: cbuf_inv_def Let_def unat_eq_0 split: if_splits)

lemma cbuf_invD:
  assumes "cbuf_inv c"
  shows "length (buffer c) = unat (data_size_max c)" "0 < unat (data_size_max c)"
    "unat (data_size_max c) < 2 ^ 63" "unat (data_size c) \<le> unat (data_size_max c)"
  using assms by (auto simp: cbuf_inv_def Let_def split: if_splits)


lemma ring_written_contig:
  "e + length p \<le> length b \<Longrightarrow> ring_written b e p (blit b e p)"
  by (auto simp: ring_written_def nth_blit)

lemma ring_written_wrap:
  assumes "e \<le> length b" "length p \<le> length b" "length b \<le> e + length p"
  shows "ring_written b e p
    (blit (blit b e (take (length b - e) p)) 0 (drop (length b - e) p))"
proof -
  define b1 where "b1 = blit b e (take (length b - e) p)"
  have l1: "length b1 = length b" and t: "length (take (length b - e) p) = length b - e"
    using assms by (simp_all add: b1_def)
  have n1: "b1 ! k = (if e \<le> k then p ! (k - e) else b ! k)" if "k < length b" for k
    using that assms by (auto simp: b1_def nth_blit t)
  have n2: "blit b1 0 (drop (length b - e) p) ! k =
      (if k + length b < e + length p then p ! (k + length b - e) else b1 ! k)" if "k < length b" for k
  proof -
    have "k < length (drop (length b - e) p) \<longleftrightarrow> k + length b < e + length p" using assms by auto
    moreover have "drop (length b - e) p ! k = p ! (k + length b - e)" if "k + length b < e + length p"
      using that assms by (simp add: add.commute)
    ultimately show ?thesis using that assms l1 by (simp add: nth_blit)
  qed
  show ?thesis
    unfolding ring_written_def b1_def [symmetric]
  proof (intro conjI allI impI)
    show "length (blit b1 0 (drop (length b - e) p)) = length b" using assms l1 by simp
    fix k assume "k < length b"
    then show "blit b1 0 (drop (length b - e) p) ! k = (if e \<le> k \<and> k < e + length p then p ! (k - e)
        else if k + length b < e + length p then p ! (k + length b - e) else b ! k)"
      using n1 n2 assms by (cases "k + length b < e + length p"; cases "e \<le> k"; simp)
  qed
qed

lemma ring_written_wrap0:
  "length p \<le> length b \<Longrightarrow> ring_written b 0 p (blit b 0 p)"
  by (rule ring_written_contig) simp

lemma cbuf_wpos_less: "cbuf_inv c \<Longrightarrow> cbuf_wpos c < unat (data_size_max c)"
  by (auto simp: cbuf_wpos_def dest: cbuf_invD)

text \<open>The write position is the cell after the run of the queue.\<close>

lemma cbuf_wpos_ring:
  assumes "cbuf_inv c" "data_size c \<noteq> 0"
  shows "cbuf_wpos c = (if unat (offset_head c) + unat (data_size c) < unat (data_size_max c)
     then unat (offset_head c) + unat (data_size c)
     else unat (offset_head c) + unat (data_size c) - unat (data_size_max c))"
  using assms(1)
proof (cases rule: cbuf_inv_cases)
  case nonempty
  then show ?thesis
    using assms(2)
    by (cases "unat (offset_head c) \<le> unat (offset_tail c)") (auto simp: cbuf_wpos_def)
qed (use assms in simp)

lemma word_add_nat_64:
  fixes a :: u64
  assumes "unat a + k < 2 ^ 64"
  shows "unat (a + word_of_nat k) = unat a + k"
proof -
  have "unat (word_of_nat k :: u64) = k"
    using assms by (simp add: unat_of_nat take_bit_nat_eq_self_iff)
  then show ?thesis using assms unat_add_64 [of a "word_of_nat k"] by simp
qed

lemma word_of_nat_unat64: "word_of_nat (unat a) = (a :: u64)"
  by simp

text \<open>What \<open>dap_cbuf_push\<close> has done when it comes to its end.\<close>

lemma push_body_empty:
  assumes inv: "cbuf_inv c" and src: "src \<noteq> []" "length src < 2 ^ 63" and e: "data_size c = 0"
  defines "p \<equiv> lastn (unat (data_size_max c)) src"
  shows "dap_cbuf_push c src = Inr (cbuf_push_finish
     (c\<lparr>buffer := blit (buffer c) 0 p, offset_tail := word_of_nat (length p - 1)\<rparr>) False)"
proof -
  define m where "m = unat (data_size_max c)"
  define len where "len = (word_of_nat (length src) :: u64)"
  have ul: "unat len = length src" using src by (simp add: len_def unat_eq_if_less)
  have ht: "offset_head c = -1" "offset_tail c = -1"
    using inv e by (auto simp: cbuf_inv_def Let_def)
  have m: "0 < m" "m < 2 ^ 63" "length (buffer c) = m" using cbuf_invD [OF inv] by (simp_all add: m_def)
  have lp: "length p = min m (length src)" by (simp add: p_def m_def)
  have w: "unat (if data_size_max c < len then data_size_max c else len) = length p"
    by (simp add: lp ul m_def word_less_nat_alt min_def)
  have ps: "(if data_size_max c < len then drop (unat (len - data_size_max c)) src else src) = p"
    by (auto simp: p_def lastn_def ul m_def word_less_nat_alt unat_sub_small word_le_nat_alt)
  define wr where "wr = (if data_size_max c < len then data_size_max c else len)"
  have uw: "unat wr = length p" using w by (simp add: wr_def)
  have wpos: "0 < length p" using lp m src by (simp add: length_greater_0_conv)
  then have "unat (- 1 + wr) = length p - 1"
    using uw unat_sub_small [of 1 wr] by (simp add: word_le_nat_alt Suc_le_eq)
  moreover have "length p - 1 < m" using wpos lp by linarith
  ultimately have "- 1 + wr < data_size_max c" unfolding word_less_nat_alt m_def by simp
  moreover have "- 1 + wr = word_of_nat (length p - 1)"
    by (simp only: \<open>unat (- 1 + wr) = length p - 1\<close> [symmetric] word_of_nat_unat64)
  moreover have "chunkE p 0 (length p) = Inr p" by (simp add: chunkE_def chunk_def)
  moreover have "blitE (buffer c) (unat (- 1 + 1 :: u64)) p = Inr (blit (buffer c) 0 p)"
    using lp m by (simp add: blitE_def)
  moreover have "(- 1 < (- 1 :: u64) \<and> - 1 \<le> - 1 + wr) = False" by simp
  ultimately show ?thesis
    using src(1)
    by (simp only: dap_cbuf_push_def Let_def ht ps uw if_True if_False bindE_simps
        flip: len_def wr_def)
qed

lemma push_body_nonempty:
  assumes inv: "cbuf_inv c" and src: "src \<noteq> []" "length src < 2 ^ 63" and ne: "data_size c \<noteq> 0"
  defines "p \<equiv> lastn (unat (data_size_max c)) src"
  shows "\<exists>b' t' R. dap_cbuf_push c src = Inr (cbuf_push_finish (c\<lparr>buffer := b', offset_tail := t'\<rparr>) R) \<and>
     ring_written (buffer c) (cbuf_wpos c) p b' \<and>
     unat t' = (if cbuf_wpos c + length p \<le> unat (data_size_max c)
       then cbuf_wpos c + length p - 1 else cbuf_wpos c + length p - 1 - unat (data_size_max c)) \<and>
     (R \<longleftrightarrow> unat (data_size_max c) < unat (data_size c) + length p)"
proof -
  define m where "m = unat (data_size_max c)"
  define h where "h = unat (offset_head c)"
  define t where "t = unat (offset_tail c)"
  define n where "n = unat (data_size c)"
  define len where "len = (word_of_nat (length src) :: u64)"
  have ul: "unat len = length src" using src by (simp add: len_def unat_eq_if_less)
  have m: "0 < m" "m < 2 ^ 63" "length (buffer c) = m" using cbuf_invD [OF inv] by (simp_all add: m_def)
  have lay: "h < m" "t < m" "n = (if h \<le> t then t + 1 - h else m - (h - t - 1))"
    using inv ne by (auto simp: cbuf_inv_def Let_def unat_eq_0 h_def t_def m_def n_def)
  have lp: "length p = min m (length src)" by (simp add: p_def m_def)
  define wr where "wr = (if data_size_max c < len then data_size_max c else len)"
  have uw: "unat wr = length p"
    by (simp add: wr_def lp ul m_def word_less_nat_alt min_def)
  have ps: "(if data_size_max c < len then drop (unat (len - data_size_max c)) src else src) = p"
    by (auto simp: p_def lastn_def ul m_def word_less_nat_alt unat_sub_small word_le_nat_alt)
  have wpos: "0 < length p" using lp m src by simp
  have wle: "length p \<le> m" using lp by simp
  have utw: "unat (offset_tail c + wr) = t + length p"
    using lay m wle uw unat_add_64 [of "offset_tail c" wr] by (simp add: t_def)
  have ut1: "unat (offset_tail c + 1) = t + 1"
    using lay m unat_add_64 [of "offset_tail c" 1] by (simp add: t_def)
  have e: "cbuf_wpos c = (if t + 1 < m then t + 1 else 0)"
    using ne by (simp add: cbuf_wpos_def t_def m_def)
  show ?thesis
  proof (cases "t + length p < m")
    case True
    then have g: "offset_tail c + wr < data_size_max c" by (simp add: word_less_nat_alt utw m_def)
    have "t + 1 < m" using True wpos by linarith
    then have e1: "cbuf_wpos c = t + 1" using e by simp
    have "dap_cbuf_push c src = Inr (cbuf_push_finish
       (c\<lparr>buffer := blit (buffer c) (t + 1) p, offset_tail := offset_tail c + wr\<rparr>)
       (offset_tail c < offset_head c \<and> offset_head c \<le> offset_tail c + wr))"
      using src g uw True m
      by (simp add: dap_cbuf_push_def Let_def ps ut1 chunk_def flip: len_def wr_def)
    moreover have "ring_written (buffer c) (cbuf_wpos c) p (blit (buffer c) (t + 1) p)"
      unfolding e1 using True m by (intro ring_written_contig) simp
    moreover have "(offset_tail c < offset_head c \<and> offset_head c \<le> offset_tail c + wr) \<longleftrightarrow>
        m < n + length p"
      unfolding word_less_nat_alt word_le_nat_alt utw h_def [symmetric] t_def [symmetric]
      using lay True by (cases "h \<le> t"; simp; linarith?)
    moreover have "unat (offset_tail c + wr) = (if cbuf_wpos c + length p \<le> m
       then cbuf_wpos c + length p - 1 else cbuf_wpos c + length p - 1 - m)"
      using True e1 wpos utw by simp
    ultimately show ?thesis unfolding m_def [symmetric] n_def [symmetric] by blast
  next
    case False
    then have g: "\<not> offset_tail c + wr < data_size_max c" by (simp add: word_less_nat_alt utw m_def)
    define rem where "rem = data_size_max c - offset_tail c - 1"
    have ur: "unat rem = m - (t + 1)"
    proof -
      have "rem = data_size_max c - (offset_tail c + 1)" by (simp add: rem_def)
      then show ?thesis using ut1 lay unat_sub_small [of "offset_tail c + 1" "data_size_max c"]
        by (simp add: word_le_nat_alt m_def)
    qed
    have rw: "m - (t + 1) < length p" using False lay by linarith
    have uc: "unat (wr - rem) = length p - (m - (t + 1))"
      using unat_sub_small [of rem wr] ur uw rw by (simp add: word_le_nat_alt)
    have uc1: "unat (wr - rem - 1) = length p - (m - (t + 1)) - 1"
      using unat_sub_small [of 1 "wr - rem"] uc rw by (simp add: word_le_nat_alt)
    define b1 where "b1 = blit (buffer c) (t + 1) (take (m - (t + 1)) p)"
    define b2 where "b2 = blit b1 0 (drop (m - (t + 1)) p)"
    have l1: "length b1 = m" using m lay by (simp add: b1_def)
    define R where "R = (if offset_tail c < offset_head c then True else offset_head c < wr - rem)"
    have ch: "chunk p 0 (m - (t + 1)) = take (m - (t + 1)) p"
      "chunk p (m - (t + 1)) (length p - (m - (t + 1))) = drop (m - (t + 1)) p"
      by (simp_all add: chunk_def)
    have bl: "blitE (buffer c) (t + 1) (take (m - (t + 1)) p) = Inr b1"
      using m lay by (simp add: b1_def blitE_def)
    have bl2: "blitE b1 0 (drop (m - (t + 1)) p) = Inr b2"
      using l1 wle by (simp add: b2_def blitE_def)
    have ce: "chunkE p 0 (m - (t + 1)) = Inr (take (m - (t + 1)) p)"
      "chunkE p (m - (t + 1)) (length p - (m - (t + 1))) = Inr (drop (m - (t + 1)) p)"
      using rw by (simp_all only: chunkE_def ch) simp_all
    have "dap_cbuf_push c src = Inr (cbuf_push_finish
       (c\<lparr>buffer := b2, offset_tail := wr - rem - 1\<rparr>) R)"
      using src g
      by (simp only: dap_cbuf_push_def Let_def ps ut1 ur uc ce bl bl2 bindE_simps R_def if_False
          flip: len_def wr_def rem_def)
    moreover have "ring_written (buffer c) (cbuf_wpos c) p b2"
    proof (cases "t + 1 < m")
      case True
      then show ?thesis
        using ring_written_wrap [of "t + 1" "buffer c" p] m wle rw e by (simp add: b2_def b1_def)
    next
      case False
      then have "b2 = blit (buffer c) 0 p" using lay by (simp add: b2_def b1_def)
      then show ?thesis using ring_written_wrap0 wle m e False by simp
    qed
    moreover have "R \<longleftrightarrow> m < n + length p"
      unfolding R_def word_less_nat_alt uc h_def [symmetric] t_def [symmetric]
      using lay False rw by (cases "h \<le> t"; simp; linarith?)
    moreover have "unat (wr - rem - 1) = (if cbuf_wpos c + length p \<le> m
       then cbuf_wpos c + length p - 1 else cbuf_wpos c + length p - 1 - m)"
      using False e wpos uc1 lay wle by (cases "t + 1 < m"; simp; linarith?)
    ultimately show ?thesis unfolding m_def [symmetric] n_def [symmetric] by blast
  qed
qed

text \<open>What the end of \<open>dap_cbuf_push\<close> makes of it: head and size of the ring.\<close>

lemma push_finish_nat:
  fixes c :: cbuf and R :: bool and m h n w e :: nat
  assumes m: "unat (data_size_max c) = m" "m < 2 ^ 63"
    and h: "h < m" "unat (if offset_head c = -1 then 0 else offset_head c) = h"
    and n: "n \<le> m" and w: "0 < w" "w \<le> m"
    and e: "e = (if h + n < m then h + n else h + n - m)"
    and t: "unat (offset_tail c) = (if e + w \<le> m then e + w - 1 else e + w - 1 - m)"
    and R: "R \<longleftrightarrow> m < n + w"
  shows "unat (offset_head (cbuf_push_finish c R)) = (if n + w \<le> m then h
            else if e + w < m then e + w else e + w - m)"
    and "unat (data_size (cbuf_push_finish c R)) = min m (n + w)"
    and "offset_tail (cbuf_push_finish c R) = offset_tail c"
    and "buffer (cbuf_push_finish c R) = buffer c"
    and "data_size_max (cbuf_push_finish c R) = data_size_max c"
    and "min m (n + w) = (if unat (offset_head (cbuf_push_finish c R)) \<le> unat (offset_tail c)
            then unat (offset_tail c) + 1 - unat (offset_head (cbuf_push_finish c R))
            else m - (unat (offset_head (cbuf_push_finish c R)) - unat (offset_tail c) - 1))"
proof -
  define H where "H = (if offset_head c = -1 then 0 else offset_head c)"
  have uH: "unat H = h" using h by (simp add: H_def)
  have em: "e < m" using e h n by (cases "h + n < m"; simp)
  have tm: "unat (offset_tail c) < m" unfolding t using em w by (cases "e + w \<le> m"; simp; linarith?)
  have ut1: "unat (offset_tail c + 1) = unat (offset_tail c) + 1"
    using tm m unat_add_64 [of "offset_tail c" 1] by simp
  show hd: "unat (offset_head (cbuf_push_finish c R)) = (if n + w \<le> m then h
            else if e + w < m then e + w else e + w - m)"
  proof (cases R)
    case True
    then have "\<not> n + w \<le> m" using R by simp
    moreover have "unat (offset_tail c) + 1 < m \<longleftrightarrow> e + w \<noteq> m"
      unfolding t using em w tm by (cases "e + w \<le> m"; simp; linarith?)
    ultimately show ?thesis using True ut1 m t w
      by (cases "e + w \<le> m") (simp_all add: cbuf_push_finish_def word_less_nat_alt)
  next
    case False
    then show ?thesis using R uH by (simp add: cbuf_push_finish_def H_def Let_def)
  qed
  show sz: "unat (data_size (cbuf_push_finish c R)) = min m (n + w)"
  proof (cases R)
    case True
    then show ?thesis using R m by (simp add: cbuf_push_finish_def Let_def)
  next
    case False
    then have nw: "n + w \<le> m" using R by simp
    show ?thesis
    proof (cases "h \<le> unat (offset_tail c)")
      case True
      then have hl: "H \<le> offset_tail c" by (simp add: word_le_nat_alt uH)
      then have "unat (offset_tail c - H + 1) = unat (offset_tail c) - h + 1"
        using tm m uH by (subst unat_add_64) (simp_all add: unat_sub_small)
      moreover have "unat (offset_tail c) - h + 1 = n + w"
        using nw t e True em w h n by (cases "e + w \<le> m"; cases "h + n < m"; simp; linarith?)
      ultimately show ?thesis using False hl nw
        by (simp add: cbuf_push_finish_def Let_def flip: H_def)
    next
      case C: False
      then have hl: "\<not> H \<le> offset_tail c" by (simp add: word_le_nat_alt uH)
      then have "unat (data_size_max c - (H - offset_tail c - 1)) = m - (h - unat (offset_tail c) - 1)"
        using uH m h C by (simp add: unat_sub_small word_le_nat_alt)
      moreover have "m - (h - unat (offset_tail c) - 1) = n + w"
        using nw t e C em w h n by (cases "e + w \<le> m"; cases "h + n < m"; simp; linarith?)
      ultimately show ?thesis using False hl nw
        by (simp add: cbuf_push_finish_def Let_def flip: H_def)
    qed
  qed
  show "offset_tail (cbuf_push_finish c R) = offset_tail c"
    "buffer (cbuf_push_finish c R) = buffer c"
    "data_size_max (cbuf_push_finish c R) = data_size_max c"
    by (simp_all add: cbuf_push_finish_def Let_def)
  show "min m (n + w) = (if unat (offset_head (cbuf_push_finish c R)) \<le> unat (offset_tail c)
            then unat (offset_tail c) + 1 - unat (offset_head (cbuf_push_finish c R))
            else m - (unat (offset_head (cbuf_push_finish c R)) - unat (offset_tail c) - 1))"
  proof (cases "n + w \<le> m")
    case True
    then show ?thesis unfolding hd t
      using e em w h n by (cases "e + w \<le> m"; cases "h + n < m"; simp; linarith?)
  next
    case False
    then show ?thesis unfolding hd t
      using e em w h n by (cases "e + w < m"; cases "e + w = m"; simp; linarith?)
  qed
qed

lemma cbuf_invI:
  assumes "length (buffer c) = unat (data_size_max c)" "0 < unat (data_size_max c)"
    "unat (data_size_max c) < 2 ^ 63" "0 < unat (data_size c)"
    "unat (offset_head c) < unat (data_size_max c)" "unat (offset_tail c) < unat (data_size_max c)"
    "unat (data_size c) = (if unat (offset_head c) \<le> unat (offset_tail c)
         then unat (offset_tail c) + 1 - unat (offset_head c)
         else unat (data_size_max c) - (unat (offset_head c) - unat (offset_tail c) - 1))"
  shows "cbuf_inv c"
  using assms unfolding cbuf_inv_def Let_def by simp

text \<open>The queue and the invariant after the common end of both branches.\<close>

lemma push_finish_spec:
  fixes c :: cbuf and b' p and t' :: u64 and R :: bool and h n :: nat
  defines "m \<equiv> unat (data_size_max c)"
  defines "e \<equiv> (if h + n < m then h + n else h + n - m)"
  assumes m: "m < 2 ^ 63" "length (buffer c) = m"
    and h: "h < m" "unat (if offset_head c = -1 then 0 else offset_head c) = h"
    and n: "n \<le> m" and w: "0 < length p" "length p \<le> m"
    and wr: "ring_written (buffer c) e p b'"
    and t: "unat t' = (if e + length p \<le> m then e + length p - 1 else e + length p - 1 - m)"
    and R: "R \<longleftrightarrow> m < n + length p"
  defines "c' \<equiv> cbuf_push_finish (c\<lparr>buffer := b', offset_tail := t'\<rparr>) R"
  shows "cbuf_inv c' \<and> data_size_max c' = data_size_max c \<and>
     cbuf_abs c' = lastn m (ring (buffer c) h n @ p)"
proof -
  let ?c = "c\<lparr>buffer := b', offset_tail := t'\<rparr>"
  have pre: "unat (data_size_max ?c) = m"
    "unat (if offset_head ?c = -1 then 0 else offset_head ?c) = h"
    "unat (offset_tail ?c) = (if e + length p \<le> m then e + length p - 1 else e + length p - 1 - m)"
    using h t by (simp_all add: m_def split: if_splits)
  have e': "e = (if h + n < m then h + n else h + n - m)" by (simp add: e_def)
  note f0 = push_finish_nat [OF pre(1) m(1) h(1) pre(2) n w e' pre(3) R, folded c'_def]
  have f: "unat (offset_head c') = (if n + length p \<le> m then h
            else if e + length p < m then e + length p else e + length p - m)"
    "unat (data_size c') = min m (n + length p)" "offset_tail c' = t'" "buffer c' = b'"
    "data_size_max c' = data_size_max c"
    "min m (n + length p) = (if unat (offset_head c') \<le> unat t'
            then unat t' + 1 - unat (offset_head c')
            else m - (unat (offset_head c') - unat t' - 1))"
    using f0(1) f0(2) f0(3) f0(4) f0(5) f0(6) by simp_all
  have lb: "length b' = m" using wr m by (simp add: ring_written_def)
  have em: "e < m" using h n by (cases "h + n < m") (simp_all add: e_def)
  have hd: "unat (offset_head c') < m"
    unfolding f(1) using h em w by (cases "n + length p \<le> m"; cases "e + length p < m"; simp)
  have inv: "cbuf_inv c'"
  proof (rule cbuf_invI)
    show "unat (offset_tail c') < unat (data_size_max c')"
      unfolding f(3) f(5) m_def [symmetric] t using em w by (cases "e + length p \<le> m"; simp; linarith?)
    show "unat (data_size c') = (if unat (offset_head c') \<le> unat (offset_tail c')
         then unat (offset_tail c') + 1 - unat (offset_head c')
         else unat (data_size_max c') - (unat (offset_head c') - unat (offset_tail c') - 1))"
      unfolding f(2) f(3) f(5) m_def [symmetric] using f(6) by simp
    show "0 < unat (data_size c')" unfolding f(2) using w h by simp
  qed (use lb f hd m h in \<open>simp_all add: m_def\<close>)
  have "cbuf_abs c' = ring b' (unat (offset_head c')) (min m (n + length p))"
    using cbuf_abs_ring [OF inv] f by simp
  also have "\<dots> = lastn m (ring (buffer c) h n @ p)"
    by (rule ring_write [of h "buffer c" n p e b' "unat (offset_head c')", unfolded m(2),
          OF h(1) n w(2) e' wr f(1)])
  finally show ?thesis using inv f by simp
qed

lemma push_keeps_youngest:
  assumes inv: "cbuf_inv c" and len: "length src < 2 ^ 63"
  shows "\<exists>c'. dap_cbuf_push c src = Inr c' \<and> cbuf_inv c' \<and> data_size_max c' = data_size_max c \<and>
     cbuf_abs c' = lastn (unat (data_size_max c)) (cbuf_abs c @ src)"
proof (cases "src = []")
  case True
  then show ?thesis
    using inv cbuf_invD(4) [OF inv] by (simp add: dap_cbuf_push_def length_cbuf_abs)
next
  case ne: False
  define m where "m = unat (data_size_max c)"
  define p where "p = lastn m src"
  have m: "0 < m" "m < 2 ^ 63" "length (buffer c) = m" "unat (data_size c) \<le> m"
    using cbuf_invD [OF inv] by (simp_all add: m_def)
  have p: "0 < length p" "length p \<le> m" using ne m by (simp_all add: p_def)
  show ?thesis
  proof (cases "data_size c = 0")
    case True
    then have hd: "offset_head c = -1" using inv by (auto simp: cbuf_inv_def Let_def)
    have "unat (word_of_nat (length p - 1) :: u64) = length p - 1"
      using p m by (intro unat_eq_if_less) simp
    then show ?thesis
      using push_finish_spec [of c 0 0 p "blit (buffer c) 0 p" "word_of_nat (length p - 1)" False]
        push_body_empty [OF inv ne len True] m p hd True
        ring_written_wrap0 [of p "buffer c"] lastn_append_lastn [of m "[]" src]
      by (simp add: cbuf_abs_def ring_def flip: m_def p_def)
  next
    case False
    from push_body_nonempty [OF inv ne len False] obtain b' t' R where
      eq: "dap_cbuf_push c src = Inr (cbuf_push_finish (c\<lparr>buffer := b', offset_tail := t'\<rparr>) R)" and
      x: "ring_written (buffer c) (cbuf_wpos c) p b'"
        "unat t' = (if cbuf_wpos c + length p \<le> m
           then cbuf_wpos c + length p - 1 else cbuf_wpos c + length p - 1 - m)"
        "R \<longleftrightarrow> m < unat (data_size c) + length p"
      unfolding p_def m_def by blast
    have hm: "unat (offset_head c) < m"
      using inv False by (auto simp: cbuf_inv_def Let_def unat_eq_0 m_def)
    have "offset_head c \<noteq> -1"
    proof
      assume "offset_head c = -1"
      with hm m unat_m1_64 show False by simp
    qed
    then show ?thesis
      using push_finish_spec [of c "unat (offset_head c)" "unat (data_size c)" p b' t' R] x eq m p hm
        lastn_append_lastn [of m "cbuf_abs c" src] cbuf_wpos_ring [OF inv False]
      by (simp add: cbuf_abs_ring [OF inv] flip: m_def p_def)
  qed
qed

section \<open>Reading and popping\<close>

text \<open>The cells of the ring that one call reads, in one or two pieces.\<close>

lemma cbuf_read_layout:
  assumes inv: "cbuf_inv c" and ne: "data_size c \<noteq> 0"
  defines "m \<equiv> unat (data_size_max c)"
  defines "h \<equiv> unat (offset_head c)" and "t \<equiv> unat (offset_tail c)" and "n \<equiv> unat (data_size c)"
  shows "h < m" "t < m" "0 < n" "n \<le> m" "length (buffer c) = m" "m < 2 ^ 63"
    "h \<le> t \<Longrightarrow> n = t + 1 - h" "t < h \<Longrightarrow> n + h = m + t + 1"
  using inv ne by (auto simp: cbuf_inv_def Let_def unat_eq_0 m_def h_def t_def n_def split: if_splits)

definition cbuf_popped :: "cbuf \<Rightarrow> nat \<Rightarrow> cbuf" where
  "cbuf_popped c k = (let h = unat (offset_head c); m = unat (data_size_max c)
     in if k = unat (data_size c)
        then c\<lparr>offset_head := -1, offset_tail := -1, data_size := 0\<rparr>
        else c\<lparr>offset_head := word_of_nat (if h + k < m then h + k else h + k - m),
               data_size := word_of_nat (unat (data_size c) - k)\<rparr>)"

lemma cbuf_popped_spec:
  assumes inv: "cbuf_inv c" and ne: "data_size c \<noteq> 0" and k: "k \<le> unat (data_size c)"
  shows "cbuf_inv (cbuf_popped c k) \<and> data_size_max (cbuf_popped c k) = data_size_max c \<and>
     cbuf_abs (cbuf_popped c k) = drop k (cbuf_abs c)"
proof -
  define m where "m = unat (data_size_max c)"
  define h where "h = unat (offset_head c)"
  define t where "t = unat (offset_tail c)"
  define n where "n = unat (data_size c)"
  note lay = cbuf_read_layout [OF inv ne, folded m_def h_def t_def n_def]
  have kn: "k \<le> n" using k by (simp add: n_def)
  show ?thesis
  proof (cases "k = n")
    case True
    then show ?thesis
      using lay length_cbuf_abs [OF inv]
      by (simp add: cbuf_popped_def cbuf_inv_def cbuf_abs_def Let_def n_def m_def)
  next
    case False
    define h' where "h' = (if h + k < m then h + k else h + k - m)"
    have h'm: "h' < m" unfolding h'_def using lay(1,4) kn by (cases "h + k < m"; simp; linarith)
    have uh: "unat (word_of_nat h' :: u64) = h'" using h'm lay by (intro unat_eq_if_less) simp
    have un: "unat (word_of_nat (n - k) :: u64) = n - k" using lay by (intro unat_eq_if_less) simp
    define c' where "c' = c\<lparr>offset_head := word_of_nat h', data_size := word_of_nat (n - k)\<rparr>"
    have c': "cbuf_popped c k = c'"
      using False by (simp add: cbuf_popped_def c'_def h'_def Let_def m_def h_def n_def)
    have sz: "n - k = (if h' \<le> t then t + 1 - h' else m - (h' - t - 1))"
      using lay(1,2,4,7,8) kn False
      by (cases "h \<le> t"; cases "h + k < m"; simp add: h'_def; linarith?)
    have inv': "cbuf_inv c'"
    proof (rule cbuf_invI)
      show "unat (data_size c') = (if unat (offset_head c') \<le> unat (offset_tail c')
         then unat (offset_tail c') + 1 - unat (offset_head c')
         else unat (data_size_max c') - (unat (offset_head c') - unat (offset_tail c') - 1))"
        using sz uh un by (simp add: c'_def flip: m_def t_def)
    qed (use lay h'm uh un kn False in \<open>simp_all add: c'_def flip: m_def t_def\<close>)
    have "cbuf_abs c' = ring (buffer c) h' (n - k)"
      using cbuf_abs_ring [OF inv'] uh un by (simp add: c'_def)
    also have "\<dots> = drop k (cbuf_abs c)"
      using drop_ring [of h "buffer c" n k] lay kn
      by (simp add: cbuf_abs_ring [OF inv] h'_def flip: h_def n_def)
    finally show ?thesis using inv' c' by (simp add: c'_def)
  qed
qed

lemma data_size_cbuf_empty_if [simp]: "data_size (cbuf_empty_if b c) = data_size c"
  by (simp add: cbuf_empty_if_def)

lemma data_size_upd_head: "data_size (c\<lparr>offset_head := x\<rparr>) = data_size c"
  by simp

lemma read_step:
  assumes inv: "cbuf_inv c" and ne: "data_size c \<noteq> 0" "len \<noteq> 0"
  defines "k \<equiv> min (unat len) (unat (data_size c))"
  shows "inter_circularBuffer_read c len out reset =
     Inr (word_of_nat k, if out then take k (cbuf_abs c) else [],
          if reset then cbuf_popped c k else c)"
proof -
  define m where "m = unat (data_size_max c)"
  define h where "h = unat (offset_head c)"
  define t where "t = unat (offset_tail c)"
  define n where "n = unat (data_size c)"
  note lay = cbuf_read_layout [OF inv ne(1), folded m_def h_def t_def n_def]
  define rd where "rd = (if data_size c < len then data_size c else len)"
  have urd: "unat rd = k" by (simp add: rd_def k_def word_less_nat_alt min_def)
  have k: "0 < k" "k \<le> n" using ne lay by (simp_all add: k_def n_def unat_gt_0 unat_eq_0 word_neq_0_conv)
  have rdk: "word_of_nat k = rd" by (simp only: urd [symmetric] word_of_nat_unat64)
  have abs: "take k (cbuf_abs c) = ring (buffer c) h k"
    using k by (simp add: cbuf_abs_ring [OF inv] take_ring flip: h_def n_def)
  have hrd: "unat (offset_head c + rd) = h + k"
    using unat_add_64 [of "offset_head c" rd] lay k urd by (simp add: h_def)
  have sz: "data_size c - rd = word_of_nat (n - k)"
  proof -
    have "unat (data_size c - rd) = n - k"
      using urd k unat_sub_small [of rd "data_size c"] by (simp add: word_le_nat_alt n_def)
    then show ?thesis by (metis word_of_nat_unat64)
  qed
  have whk: "offset_head c + rd = word_of_nat (h + k)" by (simp only: hrd [symmetric] word_of_nat_unat64)
  have g0: "\<not> (data_size c = 0 \<or> len = 0)" using ne by simp
  show ?thesis
  proof (cases "h \<le> t")
    case True
    then have g1: "(offset_head c \<le> offset_tail c) = True" by (simp add: word_le_nat_alt h_def t_def)
    have b: "h + k \<le> m" using lay True k by simp
    then have ce: "chunkE (buffer c) h k = Inr (ring (buffer c) h k)"
      using lay by (simp add: ring_contiguous)
    have g2: "offset_tail c < offset_head c + rd \<longleftrightarrow> k = n"
      using lay(7) [OF True] k True by (simp only: word_less_nat_alt hrd t_def [symmetric]) linarith
    have pop: "(cbuf_empty_if (k = n) (c\<lparr>offset_head := offset_head c + rd\<rparr>))
        \<lparr>data_size := word_of_nat (n - k)\<rparr> = cbuf_popped c k"
      using b k lay(2,7) True
      by (simp add: cbuf_popped_def cbuf_empty_if_def whk Let_def flip: h_def m_def n_def)
    have "inter_circularBuffer_read c len out reset =
        bindE (if out then Inr (ring (buffer c) h k) else Inr []) (\<lambda>d. Inr (rd, d,
          if reset then (cbuf_empty_if (k = n) (c\<lparr>offset_head := offset_head c + rd\<rparr>))
            \<lparr>data_size := word_of_nat (n - k)\<rparr> else c))"
      unfolding inter_circularBuffer_read_def Let_def rd_def [symmetric] urd h_def [symmetric]
      by (cases reset) (simp_all only: g0 g1 g2 ce sz if_True if_False data_size_cbuf_empty_if
          data_size_upd_head)
    then show ?thesis using pop rdk abs by simp
  next
    case False
    then have g1: "(offset_head c \<le> offset_tail c) = False" by (simp add: word_le_nat_alt h_def t_def)
    have wrap: "n + h = m + t + 1" using lay False by simp
    show ?thesis
    proof (cases "h + k \<le> m")
      case True
      then have ce: "chunkE (buffer c) h k = Inr (ring (buffer c) h k)"
        using lay by (simp add: ring_contiguous)
      have g2: "(offset_head c + rd \<le> data_size_max c) = True"
        using True by (simp add: word_le_nat_alt hrd m_def)
      have g3: "offset_head c + rd = data_size_max c \<longleftrightarrow> h + k = m"
        by (simp only: word_unat_eq_iff hrd m_def)
      have kn: "k \<noteq> n" using wrap True by linarith
      have pop: "c\<lparr>offset_head := (if h + k = m then 0 else offset_head c + rd),
          data_size := word_of_nat (n - k)\<rparr> = cbuf_popped c k"
        using True kn
        by (auto simp add: cbuf_popped_def whk Let_def simp flip: h_def m_def n_def)
      have "inter_circularBuffer_read c len out reset =
          bindE (if out then Inr (ring (buffer c) h k) else Inr []) (\<lambda>d. Inr (rd, d,
            if reset then c\<lparr>offset_head := (if h + k = m then 0 else offset_head c + rd),
              data_size := word_of_nat (n - k)\<rparr> else c))"
        unfolding inter_circularBuffer_read_def Let_def rd_def [symmetric] urd h_def [symmetric]
        by (cases reset) (simp_all only: g0 g1 g2 g3 ce sz if_True if_False data_size_upd_head)
      then show ?thesis using pop rdk abs by simp
    next
      case F: False
      have g2: "(offset_head c + rd \<le> data_size_max c) = False"
        using F by (simp add: word_le_nat_alt hrd m_def)
      have u1: "unat (data_size_max c - offset_head c) = m - h"
        using unat_sub_small [of "offset_head c" "data_size_max c"] lay
        by (simp add: word_le_nat_alt m_def h_def)
      have u2: "unat (rd - (data_size_max c - offset_head c)) = k - (m - h)"
        using unat_sub_small [of "data_size_max c - offset_head c" rd] F u1 urd
        by (simp add: word_le_nat_alt)
      have w2: "rd - (data_size_max c - offset_head c) = word_of_nat (k - (m - h))"
        by (simp only: u2 [symmetric] word_of_nat_unat64)
      have g3: "offset_tail c < rd - (data_size_max c - offset_head c) \<longleftrightarrow> k = n"
        using wrap k lay(1,2) F by (simp only: word_less_nat_alt u2 t_def [symmetric]) linarith
      have ce: "chunkE (buffer c) h (m - h) = Inr (chunk (buffer c) h (m - h))"
        "chunkE (buffer c) 0 (k - (m - h)) = Inr (chunk (buffer c) 0 (k - (m - h)))"
        using lay k by simp_all
      have rg: "chunk (buffer c) h (m - h) @ chunk (buffer c) 0 (k - (m - h)) = ring (buffer c) h k"
        using ring_wrapped [of h "buffer c" k] lay k F by simp
      have pop: "(cbuf_empty_if (k = n) (c\<lparr>offset_head := rd - (data_size_max c - offset_head c)\<rparr>))
          \<lparr>data_size := word_of_nat (n - k)\<rparr> = cbuf_popped c k"
        using F lay(1)
        by (simp add: cbuf_popped_def cbuf_empty_if_def w2 Let_def add.commute flip: h_def m_def n_def)
      have "inter_circularBuffer_read c len out reset =
          bindE (if out then Inr (chunk (buffer c) h (m - h)) else Inr []) (\<lambda>d1.
          bindE (if out then Inr (chunk (buffer c) 0 (k - (m - h))) else Inr []) (\<lambda>d2.
          Inr (rd, d1 @ d2,
            if reset then (cbuf_empty_if (k = n)
              (c\<lparr>offset_head := rd - (data_size_max c - offset_head c)\<rparr>))
              \<lparr>data_size := word_of_nat (n - k)\<rparr> else c)))"
        unfolding inter_circularBuffer_read_def Let_def rd_def [symmetric] u1 u2 h_def [symmetric]
        by (cases reset) (simp_all only: g0 g1 g2 g3 ce sz if_True if_False data_size_cbuf_empty_if
            data_size_upd_head)
      then show ?thesis using pop rdk abs rg by simp
    qed
  qed
qed

lemma pop_takes_oldest:
  assumes inv: "cbuf_inv c"
  shows "\<exists>c'. inter_circularBuffer_read c len out True =
       Inr (word_of_nat (min (unat len) (length (cbuf_abs c))),
            if out then take (unat len) (cbuf_abs c) else [], c') \<and>
     cbuf_inv c' \<and> data_size_max c' = data_size_max c \<and>
     cbuf_abs c' = drop (unat len) (cbuf_abs c)"
proof (cases "data_size c = 0 \<or> len = 0")
  case True
  then show ?thesis
    using inv by (auto simp: inter_circularBuffer_read_def cbuf_abs_def)
next
  case False
  define k where "k = min (unat len) (unat (data_size c))"
  have "take k (cbuf_abs c) = take (unat len) (cbuf_abs c)"
    "drop k (cbuf_abs c) = drop (unat len) (cbuf_abs c)"
    by (simp_all add: k_def length_cbuf_abs [OF inv] min_def)
  then show ?thesis
    using read_step [OF inv, of len out True] cbuf_popped_spec [OF inv, of k] False
    by (simp add: length_cbuf_abs [OF inv] flip: k_def) (simp add: k_def)
qed

lemma read_peeks_oldest:
  assumes inv: "cbuf_inv c"
  shows "inter_circularBuffer_read c len out False =
     Inr (word_of_nat (min (unat len) (length (cbuf_abs c))),
          if out then take (unat len) (cbuf_abs c) else [], c)"
proof (cases "data_size c = 0 \<or> len = 0")
  case True
  then show ?thesis
    by (auto simp: inter_circularBuffer_read_def cbuf_abs_def)
next
  case False
  then show ?thesis
    using read_step [OF inv, of len out False] by (simp add: length_cbuf_abs [OF inv] min_def)
qed

lemma reset_spec:
  assumes "cbuf_inv c"
  shows "cbuf_inv (dap_cbuf_reset c) \<and> cbuf_abs (dap_cbuf_reset c) = [] \<and>
    data_size_max (dap_cbuf_reset c) = data_size_max c"
  using cbuf_invD [OF assms] by (simp add: dap_cbuf_reset_def cbuf_inv_def cbuf_abs_def)

lemma create_spec:
  assumes "0 < length g" "length g < 2 ^ 63"
  shows "cbuf_inv (dap_cbuf_create g) \<and> cbuf_abs (dap_cbuf_create g) = [] \<and>
    unat (data_size_max (dap_cbuf_create g)) = length g"
  using assms unat_eq_if_less [of "length g"]
  by (simp add: dap_cbuf_create_def dap_cbuf_reset_def cbuf_inv_def cbuf_abs_def)

section \<open>The contract and its clients\<close>

datatype queue_op = Push "byte list" | Pop nat

text \<open>The bounded queue: a list that keeps its youngest \<open>cap\<close> bytes.\<close>

fun ref_run :: "nat \<Rightarrow> byte list \<Rightarrow> queue_op list \<Rightarrow> byte list list \<times> byte list" where
  "ref_run cap q [] = ([], q)"
| "ref_run cap q (Push xs # ops) = ref_run cap (lastn cap (q @ xs)) ops"
| "ref_run cap q (Pop n # ops) =
     (let (outs, q') = ref_run cap (drop n q) ops in (take n q # outs, q'))"

fun run_ops :: "('q \<Rightarrow> byte list \<Rightarrow> 'q res) \<Rightarrow> ('q \<Rightarrow> nat \<Rightarrow> (byte list \<times> 'q) res) \<Rightarrow> 'q \<Rightarrow> queue_op list
    \<Rightarrow> (byte list list \<times> 'q) res" where
  "run_ops psh pp q [] = Inr ([], q)"
| "run_ops psh pp q (Push xs # ops) = bindE (psh q xs) (\<lambda>q'. run_ops psh pp q' ops)"
| "run_ops psh pp q (Pop n # ops) = bindE (pp q n) (\<lambda>(d, q').
     bindE (run_ops psh pp q' ops) (\<lambda>(outs, q''). Inr (d # outs, q'')))"

fun small_op :: "queue_op \<Rightarrow> bool" where
  "small_op (Push xs) \<longleftrightarrow> length xs < 2 ^ 63"
| "small_op (Pop n) \<longleftrightarrow> n < 2 ^ 63"

locale byte_queue =
  fixes inv :: "'q \<Rightarrow> bool"
    and abs :: "'q \<Rightarrow> byte list"
    and cap :: "'q \<Rightarrow> nat"
    and psh :: "'q \<Rightarrow> byte list \<Rightarrow> 'q res"
    and pp :: "'q \<Rightarrow> nat \<Rightarrow> (byte list \<times> 'q) res"
  assumes push_law: "inv q \<Longrightarrow> length xs < 2 ^ 63 \<Longrightarrow>
      \<exists>q'. psh q xs = Inr q' \<and> inv q' \<and> cap q' = cap q \<and> abs q' = lastn (cap q) (abs q @ xs)"
    and pop_law: "inv q \<Longrightarrow> n < 2 ^ 63 \<Longrightarrow>
      \<exists>q'. pp q n = Inr (take n (abs q), q') \<and> inv q' \<and> cap q' = cap q \<and> abs q' = drop n (abs q)"
    and cap_law: "inv q \<Longrightarrow> length (abs q) \<le> cap q"
begin

lemma run_refines:
  assumes "inv q" "list_all small_op ops"
  shows "\<exists>q'. run_ops psh pp q ops = Inr (fst (ref_run (cap q) (abs q) ops), q') \<and> inv q' \<and>
     cap q' = cap q \<and> abs q' = snd (ref_run (cap q) (abs q) ops)"
  using assms
proof (induction ops arbitrary: q)
  case Nil
  then show ?case by simp
next
  case (Cons op ops)
  show ?case
  proof (cases op)
    case (Push xs)
    with push_law [of q xs] Cons.prems obtain q' where
      q': "psh q xs = Inr q'" "inv q'" "cap q' = cap q" "abs q' = lastn (cap q) (abs q @ xs)" by auto
    with Cons.IH [of q'] Cons.prems Push show ?thesis by simp
  next
    case (Pop n)
    with pop_law [of q n] Cons.prems obtain q' where
      q': "pp q n = Inr (take n (abs q), q')" "inv q'" "cap q' = cap q" "abs q' = drop n (abs q)" by auto
    with Cons.IH [of q'] Cons.prems Pop show ?thesis
      by (auto simp: split_beta)
  qed
qed

lemma push_pop_fifo:
  assumes "inv q" "length (abs q) + length xs \<le> cap q" "length xs < 2 ^ 63" "length (abs q) < 2 ^ 63"
  shows "\<exists>q' q''. run_ops psh pp q [Push xs, Pop (length (abs q)), Pop (length xs)] =
     Inr ([abs q, xs], q'') \<and> inv q'' \<and> abs q'' = []"
  using run_refines [OF assms(1), of "[Push xs, Pop (length (abs q)), Pop (length xs)]"] assms
  by auto

end

definition cbuf_pop_bytes :: "cbuf \<Rightarrow> nat \<Rightarrow> (byte list \<times> cbuf) res" where
  "cbuf_pop_bytes c n = bindE (dap_cbuf_pop c (word_of_nat n) True) (\<lambda>(_, d, c'). Inr (d, c'))"

interpretation cb: byte_queue cbuf_inv cbuf_abs "\<lambda>c. unat (data_size_max c)" dap_cbuf_push cbuf_pop_bytes
proof (unfold_locales, goal_cases)
  case (1 q xs)
  then show ?case using push_keeps_youngest [of q xs] by auto
next
  case (2 q n)
  then show ?case
    using pop_takes_oldest [of q "word_of_nat n" True] unat_eq_if_less [of n]
    by (auto simp: cbuf_pop_bytes_def dap_cbuf_pop_def)
next
  case (3 q)
  then show ?case using cbuf_invD(4) [of q] by (simp add: length_cbuf_abs)
qed

end
