(* ===== verification/CBufIO.thy ===== *)
theory CBufIO
  imports CBuf
begin

text \<open>
  The two operations of \<open>dap_cbuf.c\<close> that hand the queue to the outside: sending it to a socket,
  with the results of the \<open>send\<close> calls as parameters, and printing it.
\<close>

section \<open>Writing to a socket\<close>

text \<open>
  \<open>dap_cbuf_write_in_socket\<close>: \<open>snd1\<close> and \<open>snd2\<close> are what the first and the second \<open>send\<close> return
  for the bytes they are given.  The result is the return value, the bytes handed to the socket
  and the structure.
\<close>

definition dap_cbuf_write_in_socket ::
  "(byte list \<Rightarrow> int) \<Rightarrow> (byte list \<Rightarrow> int) \<Rightarrow> cbuf \<Rightarrow> (int \<times> byte list \<times> cbuf) res" where
  "dap_cbuf_write_in_socket snd1 snd2 c =
     (let n = data_size c; m = data_size_max c; t = offset_tail c; h = offset_head c
      in if n = 0 then Inr (0, [], c)
         else if h \<le> t
         then bindE (chunkE (buffer c) (unat h) (unat n)) (\<lambda>d.
              let r = snd1 d in
              if r < 0 then Inr (-1, [], c)
              else let c1 = c\<lparr>offset_head := h + word_of_int r\<rparr>;
                       c2 = cbuf_empty_if (t < offset_head c1) c1
                   in Inr (r, take (nat r) d, c2\<lparr>data_size := n - word_of_int r\<rparr>))
         else if h + n \<le> m
         then bindE (chunkE (buffer c) (unat h) (unat n)) (\<lambda>d.
              let r = snd1 d in
              if r < 0 then Inr (-1, [], c)
              else let h' = h + word_of_int r
                   in Inr (r, take (nat r) d, c\<lparr>offset_head := (if h' = m then 0 else h')\<rparr>))
         else let cnt = m - h
              in bindE (chunkE (buffer c) (unat h) (unat cnt)) (\<lambda>d1.
                 let r = snd1 d1 in
                 if r < 0 then Inr (-1, [], c)
                 else if r < sint cnt
                 then bindE (dap_cbuf_pop c (word_of_int r) False) (\<lambda>(_, _, c').
                      Inr (r, take (nat r) d1, c'))
                 else let n' = n - cnt;
                          c1 = c\<lparr>data_size := n', offset_head := 0, offset_tail := n' - 1\<rparr>
                      in bindE (chunkE (buffer c) 0 (unat n')) (\<lambda>d2.
                         let r2 = snd2 d2 in
                         if r2 < 0 then Inr (r, d1, c1)
                         else let c2 = c1\<lparr>offset_head := word_of_int r2\<rparr>
                              in Inr (uint cnt + r2, d1 @ take (nat r2) d2,
                                      if offset_tail c2 < offset_head c2
                                      then c2\<lparr>offset_head := -1, offset_tail := -1, data_size := 0\<rparr>
                                      else c2))))"

definition send_ok :: "(byte list \<Rightarrow> int) \<Rightarrow> bool" where
  "send_ok sd \<longleftrightarrow> (\<forall>d. - 1 \<le> sd d \<and> sd d \<le> int (length d))"

lemma unat_of_int_small:
  "0 \<le> r \<Longrightarrow> r < 2 ^ 63 \<Longrightarrow> unat (word_of_int r :: u64) = nat r"
  by (simp add: unsigned_of_int take_bit_int_eq_self)

lemma word_of_int_nat: "0 \<le> r \<Longrightarrow> (word_of_int r :: u64) = word_of_nat (nat r)"
  by simp

text \<open>
  The first \<open>send\<close> fails, or takes everything it is given, or the queue does not wrap: the queue
  loses exactly the bytes the socket took.
\<close>

lemma write_straight:
  assumes inv: "cbuf_inv c" and ne: "data_size c \<noteq> 0" and ht: "offset_head c \<le> offset_tail c"
    and snd: "send_ok snd1"
  shows "\<exists>r. snd1 (cbuf_abs c) = r \<and>
     dap_cbuf_write_in_socket snd1 snd2 c =
       (if r < 0 then Inr (-1, [], c) else Inr (r, take (nat r) (cbuf_abs c), cbuf_popped c (nat r)))"
proof -
  define m where "m = unat (data_size_max c)"
  define h where "h = unat (offset_head c)"
  define t where "t = unat (offset_tail c)"
  define n where "n = unat (data_size c)"
  define r where "r = snd1 (cbuf_abs c)"
  note lay = cbuf_read_layout [OF inv ne, folded m_def h_def t_def n_def]
  have "h \<le> t" using ht by (simp add: word_le_nat_alt h_def t_def)
  with lay have n: "n = t + 1 - h" by simp
  have abs: "cbuf_abs c = chunk (buffer c) h n"
    using cbuf_abs_ring [OF inv] ring_contiguous [of h n "buffer c"] lay n \<open>h \<le> t\<close>
    by (simp add: h_def n_def)
  have ce: "chunkE (buffer c) h n = Inr (cbuf_abs c)" using lay n \<open>h \<le> t\<close> by (simp add: abs)
  have rb: "r \<le> int n" using snd length_cbuf_abs [OF inv] unfolding send_ok_def r_def n_def by metis
  show ?thesis
  proof (cases "r < 0")
    case True
    then show ?thesis
      using ne ht by (simp add: dap_cbuf_write_in_socket_def Let_def ce r_def flip: h_def n_def)
  next
    case False
    have ur: "unat (word_of_int r :: u64) = nat r"
      using False rb lay by (intro unat_of_int_small) simp_all
    have rn: "nat r \<le> n" using rb by simp
    have hr: "unat (offset_head c + word_of_int r) = h + nat r"
      using unat_add_64 [of "offset_head c" "word_of_int r"] ur rn lay by (simp add: h_def)
    have g: "offset_tail c < offset_head c + word_of_int r \<longleftrightarrow> nat r = n"
      using rn n \<open>h \<le> t\<close> by (simp only: word_less_nat_alt hr t_def [symmetric]) linarith
    have w: "offset_head c + word_of_int r = word_of_nat (h + nat r)"
      by (simp only: hr [symmetric] word_of_nat_unat64)
    have sz: "data_size c - word_of_int r = word_of_nat (n - nat r)"
    proof -
      have "unat (data_size c - word_of_int r) = n - nat r"
        using ur rn unat_sub_small [of "word_of_int r" "data_size c"]
        by (simp add: word_le_nat_alt n_def)
      then show ?thesis by (metis word_of_nat_unat64)
    qed
    have pop: "(cbuf_empty_if (nat r = n) (c\<lparr>offset_head := offset_head c + word_of_int r\<rparr>))
        \<lparr>data_size := word_of_nat (n - nat r)\<rparr> = cbuf_popped c (nat r)"
      using n lay(2) rn
      by (simp add: cbuf_popped_def cbuf_empty_if_def w Let_def flip: h_def m_def n_def)
    have "dap_cbuf_write_in_socket snd1 snd2 c = Inr (r, take (nat r) (cbuf_abs c),
        (cbuf_empty_if (nat r = n) (c\<lparr>offset_head := offset_head c + word_of_int r\<rparr>))
        \<lparr>data_size := word_of_nat (n - nat r)\<rparr>)"
      unfolding dap_cbuf_write_in_socket_def Let_def h_def [symmetric] n_def [symmetric]
      using ne ht False
      by (simp only: ce bindE_simps if_True if_False g sz cbuf.simps flip: r_def)
        (simp add: g)
    then show ?thesis using pop False r_def by simp
  qed
qed

text \<open>The queue goes round the end: two pieces, two calls of \<open>send\<close>.\<close>

lemma write_wrapped:
  assumes inv: "cbuf_inv c" and ne: "data_size c \<noteq> 0" and th: "offset_tail c < offset_head c"
    and snd: "send_ok snd1"
  defines "m \<equiv> unat (data_size_max c)" and "h \<equiv> unat (offset_head c)"
    and "t \<equiv> unat (offset_tail c)"
  defines "d1 \<equiv> chunk (buffer c) h (m - h)" and "d2 \<equiv> chunk (buffer c) 0 (t + 1)"
  defines "c1 \<equiv> c\<lparr>data_size := word_of_nat (t + 1), offset_head := 0, offset_tail := word_of_nat t\<rparr>"
  shows "cbuf_abs c = d1 @ d2" "length d1 = m - h" "length d2 = t + 1" "0 < m - h"
    and "cbuf_inv c1" "cbuf_abs c1 = d2"
    and "dap_cbuf_write_in_socket snd1 snd2 c =
      (let r = snd1 d1 in
       if r < 0 then Inr (-1, [], c)
       else if r < int (m - h)
       then bindE (dap_cbuf_pop c (word_of_int r) False) (\<lambda>(_, _, c'). Inr (r, take (nat r) d1, c'))
       else let r2 = snd2 d2 in
            if r2 < 0 then Inr (r, d1, c1)
            else let c2 = c1\<lparr>offset_head := word_of_int r2\<rparr>
                 in Inr (int (m - h) + r2, d1 @ take (nat r2) d2,
                         if offset_tail c2 < offset_head c2
                         then c2\<lparr>offset_head := -1, offset_tail := -1, data_size := 0\<rparr> else c2))"
proof -
  define n where "n = unat (data_size c)"
  note lay = cbuf_read_layout [OF inv ne, folded m_def h_def t_def n_def]
  have th': "t < h" using th by (simp add: word_less_nat_alt h_def t_def)
  have n: "n + h = m + t + 1" using lay th' by simp
  show abs: "cbuf_abs c = d1 @ d2"
    using cbuf_abs_ring [OF inv] ring_wrapped [of h "buffer c" n] lay n th'
    by (simp add: d1_def d2_def flip: h_def n_def)
  show ld: "length d1 = m - h" "length d2 = t + 1" using lay th' by (simp_all add: d1_def d2_def)
  show "0 < m - h" using lay by simp
  have ut: "unat (word_of_nat (t + 1) :: u64) = t + 1" "unat (word_of_nat t :: u64) = t"
    using lay by (intro unat_eq_if_less; simp)+
  show inv1: "cbuf_inv c1"
    by (rule cbuf_invI) (use lay th' ut in \<open>simp_all add: c1_def flip: m_def\<close>)
  show "cbuf_abs c1 = d2"
    using cbuf_abs_ring [OF inv1] ut lay th' ring_contiguous [of 0 "t + 1" "buffer c"]
    by (simp add: c1_def d2_def)
  have uc: "unat (data_size_max c - offset_head c) = m - h"
    using unat_sub_small [of "offset_head c" "data_size_max c"] lay
    by (simp add: word_le_nat_alt m_def h_def)
  have sc: "sint (data_size_max c - offset_head c) = int (m - h)"
    "uint (data_size_max c - offset_head c) = int (m - h)"
    using uc lay by (simp_all add: sint_uint uint_nat signed_take_bit_int_eq_self)
  have un: "unat (data_size c - (data_size_max c - offset_head c)) = t + 1"
    using unat_sub_small [of "data_size_max c - offset_head c" "data_size c"] uc n lay
    by (simp add: word_le_nat_alt n_def)
  have wn: "data_size c - (data_size_max c - offset_head c) = word_of_nat (t + 1)"
    by (simp only: un [symmetric] word_of_nat_unat64)
  have g1: "(offset_head c \<le> offset_tail c) = False" using th by simp
  have uhn: "unat (offset_head c + data_size c) = h + n"
    using unat_add_64 [of "offset_head c" "data_size c"] lay n th' by (simp add: h_def n_def)
  have g2: "(offset_head c + data_size c \<le> data_size_max c) = False"
    unfolding word_le_nat_alt uhn using n by (simp add: m_def)
  have wt: "(word_of_nat (t + 1) :: u64) - 1 = word_of_nat t" by simp
  have ce: "chunkE (buffer c) h (m - h) = Inr d1" "chunkE (buffer c) 0 (t + 1) = Inr d2"
    using lay th' by (simp_all add: d1_def d2_def)
  show "dap_cbuf_write_in_socket snd1 snd2 c =
      (let r = snd1 d1 in
       if r < 0 then Inr (-1, [], c)
       else if r < int (m - h)
       then bindE (dap_cbuf_pop c (word_of_int r) False) (\<lambda>(_, _, c'). Inr (r, take (nat r) d1, c'))
       else let r2 = snd2 d2 in
            if r2 < 0 then Inr (r, d1, c1)
            else let c2 = c1\<lparr>offset_head := word_of_int r2\<rparr>
                 in Inr (int (m - h) + r2, d1 @ take (nat r2) d2,
                         if offset_tail c2 < offset_head c2
                         then c2\<lparr>offset_head := -1, offset_tail := -1, data_size := 0\<rparr> else c2))"
    unfolding dap_cbuf_write_in_socket_def Let_def h_def [symmetric]
    by (simp only: ne g1 g2 uc sc wn wt ut ce bindE_simps if_False if_True c1_def)
qed

lemma socket_send_wrapped:
  assumes inv: "cbuf_inv c" and ne: "data_size c \<noteq> 0" and th: "offset_tail c < offset_head c"
    and snd: "send_ok snd1" "send_ok snd2"
    and full: "\<And>d. snd2 d < 0 \<or> snd2 d = int (length d)"
  shows "\<exists>r out c'. dap_cbuf_write_in_socket snd1 snd2 c = Inr (r, out, c') \<and> cbuf_inv c' \<and>
     data_size_max c' = data_size_max c \<and> cbuf_abs c = out @ cbuf_abs c' \<and>
     (if r < 0 then r = -1 \<and> out = [] else r = int (length out))"
proof -
  define m where "m = unat (data_size_max c)"
  define h where "h = unat (offset_head c)"
  define t where "t = unat (offset_tail c)"
  define d1 where "d1 = chunk (buffer c) h (m - h)"
  define d2 where "d2 = chunk (buffer c) 0 (t + 1)"
  define c1 where "c1 = c\<lparr>data_size := word_of_nat (t + 1), offset_head := 0, offset_tail := word_of_nat t\<rparr>"
  note W = write_wrapped [OF inv ne th snd(1), folded m_def h_def t_def,
      folded d1_def d2_def c1_def]
  note lay = cbuf_read_layout [OF inv ne, folded m_def h_def t_def]
  define r where "r = snd1 d1"
  have r: "- 1 \<le> r" "r \<le> int (m - h)"
    using snd(1) unfolding send_ok_def r_def W(2) [symmetric] by blast+
  consider "r < 0" | "0 \<le> r" "r < int (m - h)" | "r = int (m - h)" using r by linarith
  then show ?thesis
  proof cases
    case 1
    then show ?thesis using W(7) inv by (simp add: r_def)
  next
    case 2
    have ur: "unat (word_of_int r :: u64) = nat r" using 2 lay by (intro unat_of_int_small) simp_all
    from pop_takes_oldest [OF inv, of "word_of_int r" False] ur obtain c' w where
      c': "dap_cbuf_pop c (word_of_int r) False = Inr (w, [], c')" "cbuf_inv c'"
        "data_size_max c' = data_size_max c" "cbuf_abs c' = drop (nat r) (cbuf_abs c)"
      by (auto simp: dap_cbuf_pop_def)
    have "take (nat r) (cbuf_abs c) = take (nat r) d1" using W(1,2) 2 by simp
    then have "cbuf_abs c = take (nat r) d1 @ cbuf_abs c'"
      using c'(4) append_take_drop_id [of "nat r" "cbuf_abs c"] by simp
    moreover have "int (length (take (nat r) d1)) = r" using 2 W(2) by simp
    moreover have "dap_cbuf_write_in_socket snd1 snd2 c = Inr (r, take (nat r) d1, c')"
      unfolding W(7) Let_def r_def [symmetric] using 2 c'(1) by (simp del: of_nat_diff)
    ultimately show ?thesis using c'(2,3) 2
      by (intro exI [of _ r] exI [of _ "take (nat r) d1"] exI [of _ c']) simp
  next
    case 3
    show ?thesis
    proof (cases "snd2 d2 < 0")
      case True
      then have "dap_cbuf_write_in_socket snd1 snd2 c = Inr (int (m - h), d1, c1)"
        unfolding W(7) Let_def r_def [symmetric] 3 by simp
      then show ?thesis using W(1,2,5,6)
        by (intro exI [of _ "int (m - h)"] exI [of _ d1] exI [of _ c1]) (simp add: c1_def)
    next
      case False
      then have r2: "snd2 d2 = int (t + 1)" using full [of d2] W(3) by simp
      have "unat (word_of_nat t :: u64) = t" "unat (word_of_nat (t + 1) :: u64) = t + 1"
        using lay by (intro unat_eq_if_less; simp)+
      then have g: "(word_of_nat t :: u64) < word_of_nat (t + 1)" by (simp only: word_less_nat_alt)
      have w: "(word_of_int (int (t + 1)) :: u64) = word_of_nat (t + 1)" by simp
      define c2 where "c2 = c1\<lparr>offset_head := -1, offset_tail := -1, data_size := 0\<rparr>"
      have "cbuf_inv c2" "cbuf_abs c2 = []" "data_size_max c2 = data_size_max c"
        using lay by (simp_all add: c2_def c1_def cbuf_inv_def cbuf_abs_def flip: m_def)
      moreover have "dap_cbuf_write_in_socket snd1 snd2 c =
          Inr (int (m - h) + int (t + 1), d1 @ d2, c2)"
        unfolding W(7) r_def [symmetric] 3 r2 w Let_def
        using g W(2,3) by (simp add: c2_def c1_def)
      moreover have "int (m - h) + int (t + 1) = int (length (d1 @ d2))" using W(2,3) by simp
      ultimately show ?thesis using W(1)
        by (intro exI [of _ "int (m - h) + int (t + 1)"] exI [of _ "d1 @ d2"] exI [of _ c2]) simp
    qed
  qed
qed

lemma socket_send_spec:
  assumes inv: "cbuf_inv c" and snd: "send_ok snd1" "send_ok snd2"
    and full: "\<And>d. snd2 d < 0 \<or> snd2 d = int (length d)"
  shows "\<exists>r out c'. dap_cbuf_write_in_socket snd1 snd2 c = Inr (r, out, c') \<and> cbuf_inv c' \<and>
     data_size_max c' = data_size_max c \<and> cbuf_abs c = out @ cbuf_abs c' \<and>
     (if r < 0 then r = -1 \<and> out = [] else r = int (length out))"
proof (cases "data_size c = 0")
  case True
  then show ?thesis using inv by (simp add: dap_cbuf_write_in_socket_def)
next
  case ne: False
  show ?thesis
  proof (cases "offset_head c \<le> offset_tail c")
    case True
    define r where "r = snd1 (cbuf_abs c)"
    have r: "r \<le> int (length (cbuf_abs c))" using snd(1) by (simp add: send_ok_def r_def)
    from write_straight [OF inv ne True snd(1), of snd2]
    have w: "dap_cbuf_write_in_socket snd1 snd2 c =
       (if r < 0 then Inr (-1, [], c) else Inr (r, take (nat r) (cbuf_abs c), cbuf_popped c (nat r)))"
      by (simp add: r_def)
    show ?thesis
    proof (cases "r < 0")
      case True
      then show ?thesis using w inv by simp
    next
      case False
      have k: "nat r \<le> unat (data_size c)" using r length_cbuf_abs [OF inv] by linarith
      then have "int (length (take (nat r) (cbuf_abs c))) = r"
        using False length_cbuf_abs [OF inv] by simp
      then show ?thesis
        using w False cbuf_popped_spec [OF inv ne k] by simp
    qed
  next
    case False
    then show ?thesis using socket_send_wrapped [OF inv ne _ snd full] by simp
  qed
qed

text \<open>
  A second \<open>send\<close> that takes only part of its piece leaves \<open>data_size\<close> as it was before that call:
  the size still counts the bytes that have left.
\<close>

lemma socket_partial_second_send_stale_size:
  assumes inv: "cbuf_inv c" and ne: "data_size c \<noteq> 0" and th: "offset_tail c < offset_head c"
    and snd: "send_ok snd1" and full1: "\<And>d. snd1 d = int (length d)"
    and part: "\<And>d. 0 < length d \<Longrightarrow> snd2 d = 1" and t: "0 < offset_tail c"
  shows "\<exists>r out c'. dap_cbuf_write_in_socket snd1 snd2 c = Inr (r, out, c') \<and>
     r = int (length out) \<and> out = take (length out) (cbuf_abs c) \<and>
     unat (data_size c') = length (cbuf_abs c) - length out + 1 \<and> \<not> cbuf_inv c'"
proof -
  define m where "m = unat (data_size_max c)"
  define h where "h = unat (offset_head c)"
  define t where "t = unat (offset_tail c)"
  define d1 where "d1 = chunk (buffer c) h (m - h)"
  define d2 where "d2 = chunk (buffer c) 0 (t + 1)"
  define c1 where "c1 = c\<lparr>data_size := word_of_nat (t + 1), offset_head := 0, offset_tail := word_of_nat t\<rparr>"
  note W = write_wrapped [OF inv ne th snd, folded m_def h_def t_def,
      folded d1_def d2_def c1_def]
  note lay = cbuf_read_layout [OF inv ne, folded m_def h_def t_def]
  have r1: "snd1 d1 = int (m - h)" using full1 [of d1] W(2) by simp
  have r2: "snd2 d2 = 1" using part [of d2] W(3) by simp
  have ut: "unat (word_of_nat (t + 1) :: u64) = t + 1" "unat (word_of_nat t :: u64) = t"
    using lay by (intro unat_eq_if_less; simp)+
  have t0: "0 < t" using t by (simp add: t_def word_less_nat_alt)
  then have g: "\<not> (word_of_nat t :: u64) < 1" using ut(2) by (simp only: word_less_nat_alt) simp
  define c2 where "c2 = c1\<lparr>offset_head := 1\<rparr>"
  have "dap_cbuf_write_in_socket snd1 snd2 c = Inr (int (m - h) + 1, d1 @ take 1 d2, c2)"
    unfolding W(7) r1 r2 Let_def using g by (simp add: c2_def c1_def)
  moreover have "\<not> cbuf_inv c2"
    using ut t0 by (simp add: c2_def c1_def cbuf_inv_def Let_def)
  moreover have "unat (data_size c2) = t + 1" using ut by (simp add: c2_def c1_def)
  ultimately show ?thesis using W(1-3) lay by (intro exI [of _ "int (m - h) + 1"] exI [of _ "d1 @ take 1 d2"] exI [of _ c2]) simp
qed

section \<open>Printing\<close>

text \<open>
  \<open>dap_cbuf_print\<close> formats cell by cell into a block of \<open>2 * cSize + 1\<close> bytes, the terminating
  NUL of each \<open>sprintf\<close> included.  \<open>str\<close> is the block as \<open>malloc\<close> returns it; the result is the
  block that is printed with \<open>%s\<close>.  With no cell formatted, \<open>%s\<close> reads a block nobody wrote.
\<close>

definition cbuf_print_char :: "cbuf \<Rightarrow> nat \<Rightarrow> byte" where
  "cbuf_print_char c i =
     (if data_size c = 0 then 0x5F
      else if offset_tail c < offset_head c
      then (if unat (offset_tail c) < i \<and> i < unat (offset_head c) then 0x5F else buffer c ! i)
      else (if unat (offset_tail c) < i \<or> i < unat (offset_head c) then 0x5F else buffer c ! i))"

definition hex_upper :: "byte \<Rightarrow> byte" where
  "hex_upper d = (if d < 10 then 0x30 + d else 0x37 + d)"

text \<open>\<open>char\<close> is signed here, so \<open>%02X\<close> prints the promoted \<open>int\<close> of a byte above 127.\<close>

definition sprintf_02X :: "byte \<Rightarrow> byte list" where
  "sprintf_02X x = (if x < 0x80 then [] else replicate 6 0x46) @
     [hex_upper (drop_bit 4 x), hex_upper (x AND 0xF), 0x7C]"

definition cbuf_print_cell :: "bool \<Rightarrow> byte \<Rightarrow> byte list" where
  "cbuf_print_cell hex x = (if hex then sprintf_02X x else [x, 0x7C])"

fun cbuf_print_loop :: "cbuf \<Rightarrow> bool \<Rightarrow> nat \<Rightarrow> nat \<Rightarrow> byte list \<Rightarrow> (byte list) res" where
  "cbuf_print_loop c hex i 0 str = Inr str"
| "cbuf_print_loop c hex i (Suc k) str =
     bindE (blitE str (i * 2) (cbuf_print_cell hex (cbuf_print_char c i) @ [0])) (\<lambda>str'.
     cbuf_print_loop c hex (i + 1) k str')"

definition dap_cbuf_print :: "cbuf \<Rightarrow> bool \<Rightarrow> byte list \<Rightarrow> (byte list) res" where
  "dap_cbuf_print c hex str =
     (if data_size c = 0 then Inl Uninit
      else cbuf_print_loop c hex 0 (unat (data_size c)) str)"

lemma print_loop_hex_overflows:
  "length str \<le> 2 * (i + Suc k) + 1 \<Longrightarrow> cbuf_print_loop c True i (Suc k) str = Inl OutOfBounds"
proof (induction k arbitrary: i str)
  case 0
  then show ?case by (simp add: cbuf_print_cell_def sprintf_02X_def blitE_def)
next
  case (Suc k)
  show ?case
  proof (cases "blitE str (i * 2) (cbuf_print_cell True (cbuf_print_char c i) @ [0])")
    case (Inl e)
    then show ?thesis by (simp add: blitE_def split: if_splits)
  next
    case (Inr str')
    then have "length str' = length str" by (auto simp: blitE_def split: if_splits)
    then have "cbuf_print_loop c True (i + 1) (Suc k) str' = Inl OutOfBounds"
      using Suc.prems by (intro Suc.IH) simp
    then show ?thesis using Inr by simp
  qed
qed

lemma print_loop_text:
  assumes "length str = 2 * (i + k) + 1"
  shows "\<exists>str'. cbuf_print_loop c False i k str = Inr str' \<and> length str' = length str \<and>
    take (2 * i) str' = take (2 * i) str \<and>
    drop (2 * i) str' = (if k = 0 then drop (2 * i) str else
      concat (map (\<lambda>j. [cbuf_print_char c j, 0x7C]) [i..<i + k]) @ [0])"
  using assms
proof (induction k arbitrary: i str)
  case 0
  then show ?case by simp
next
  case (Suc k)
  define cell where "cell = [cbuf_print_char c i, 0x7C, 0]"
  define s1 where "s1 = blit str (2 * i) cell"
  have l1: "length s1 = length str" using Suc.prems by (simp add: s1_def cell_def)
  have b: "blitE str (2 * i) cell = Inr s1" using Suc.prems by (simp add: s1_def cell_def)
  have "length s1 = 2 * (i + 1 + k) + 1" using l1 Suc.prems by simp
  from Suc.IH [OF this] obtain s2 where
    s2: "cbuf_print_loop c False (i + 1) k s1 = Inr s2" "length s2 = length s1"
      "take (2 * (i + 1)) s2 = take (2 * (i + 1)) s1"
      "drop (2 * (i + 1)) s2 = (if k = 0 then drop (2 * (i + 1)) s1 else
         concat (map (\<lambda>j. [cbuf_print_char c j, 0x7C]) [i + 1..<i + 1 + k]) @ [0])" by blast
  have t1: "take (2 * (i + 1)) s1 = take (2 * i) str @ [cbuf_print_char c i, 0x7C]"
    using Suc.prems by (simp add: s1_def cell_def blit_def)
  have d1: "drop (2 * (i + 1)) s1 = 0 # drop (2 * i + 3) str"
    using Suc.prems by (simp add: s1_def cell_def blit_def eval_nat_numeral)
  have s2': "s2 = take (2 * i) str @ [cbuf_print_char c i, 0x7C] @ drop (2 * (i + 1)) s2"
    using append_take_drop_id [of "2 * (i + 1)" s2] unfolding s2(3) t1 by (simp only: append_assoc)
  have "take (2 * i) s2 = take (2 * i) str" using Suc.prems by (subst s2') simp
  moreover have "drop (2 * i) s2 = [cbuf_print_char c i, 0x7C] @ drop (2 * (i + 1)) s2"
    using Suc.prems by (subst s2') simp
  moreover have "drop (2 * i + 3) str = []" if "k = 0" using that Suc.prems by simp
  ultimately show ?case
    using b s2(1,2,4) l1 d1 
    by (intro exI [of _ s2]) (simp add: cbuf_print_cell_def cell_def mult.commute upt_conv_Cons)
qed

section \<open>Properties\<close>

text \<open>
  C27: every sequence of pushes and pops on a freshly created buffer, whatever \<open>malloc\<close> left in it,
  returns exactly what a list that keeps its youngest \<open>size\<close> bytes returns, never touches memory
  outside the buffer, and ends in a well-formed structure that stands for the list's contents.
\<close>

theorem cbuf_runs_as_bounded_queue:
  assumes "0 < length garbage" "length garbage < 2 ^ 63" "list_all small_op ops"
  shows "\<exists>c. run_ops dap_cbuf_push cbuf_pop_bytes (dap_cbuf_create garbage) ops =
      Inr (fst (ref_run (length garbage) [] ops), c) \<and> cbuf_inv c \<and>
    cbuf_abs c = snd (ref_run (length garbage) [] ops)"
  using cb.run_refines [of "dap_cbuf_create garbage" ops] create_spec [of garbage] assms by auto

theorem cbuf_runs_as_bounded_queue_witness:
  "\<exists>c. run_ops dap_cbuf_push cbuf_pop_bytes (dap_cbuf_create [7, 7, 7])
      [Push [1, 2], Pop 1, Push [3, 4, 5], Pop 2] = Inr ([[1], [3, 4]], c) \<and> cbuf_abs c = [5]"
  using cbuf_runs_as_bounded_queue [of "[7, 7, 7]" "[Push [1, 2], Pop 1, Push [3, 4, 5], Pop 2]"]
  by (auto simp: lastn_def)

text \<open>
  pushing onto any well-formed buffer succeeds, keeps it well formed with the same capacity,
  and leaves the youngest \<open>data_size_max\<close> bytes of the old contents followed by the new bytes,
  whichever of the wrap-around and overflow branches runs.
\<close>

theorem cbuf_push_youngest:
  assumes "cbuf_inv c" "length src < 2 ^ 63"
  shows "\<exists>c'. dap_cbuf_push c src = Inr c' \<and> cbuf_inv c' \<and> data_size_max c' = data_size_max c \<and>
     cbuf_abs c' = lastn (unat (data_size_max c)) (cbuf_abs c @ src) \<and>
     unat (dap_cbuf_get_size c') = min (unat (data_size_max c)) (length (cbuf_abs c) + length src)"
  using push_keeps_youngest [OF assms] length_cbuf_abs
  by (metis dap_cbuf_get_size_def length_append length_lastn)

definition cbuf_example :: cbuf where
  "cbuf_example = \<lparr>data_size_max = 4, data_size = 3, offset_tail = 1, offset_head = 3,
     buffer = [20, 30, 99, 10]\<rparr>"

lemma cbuf_example_inv: "cbuf_inv cbuf_example" "cbuf_abs cbuf_example = [10, 20, 30]"
  by (simp_all add: cbuf_example_def cbuf_inv_def cbuf_abs_def)

theorem cbuf_push_youngest_witness:
  "\<exists>c'. dap_cbuf_push cbuf_example [40, 50] = Inr c' \<and> cbuf_inv c' \<and>
     cbuf_abs c' = [20, 30, 40, 50]"
  using cbuf_push_youngest [of cbuf_example "[40, 50]"] cbuf_example_inv
  by (auto simp: cbuf_example_def lastn_def)

text \<open>
  \<open>dap_cbuf_write_in_socket\<close> drops from the queue exactly the bytes the socket took and returns
  their number, or -1 and an unchanged queue when the first \<open>send\<close> fails, as long as the second
  \<open>send\<close> of a wrapped queue fails or takes all of its piece.
\<close>

theorem cbuf_socket_sends_prefix:
  assumes "cbuf_inv c" "send_ok snd1" "send_ok snd2"
    and "\<And>d. snd2 d < 0 \<or> snd2 d = int (length d)"
  shows "\<exists>r out c'. dap_cbuf_write_in_socket snd1 snd2 c = Inr (r, out, c') \<and> cbuf_inv c' \<and>
     data_size_max c' = data_size_max c \<and> cbuf_abs c = out @ cbuf_abs c' \<and>
     (if r < 0 then r = -1 \<and> out = [] else r = int (length out))"
  using socket_send_spec assms by blast

theorem cbuf_socket_sends_prefix_witness:
  "\<exists>r out c'. dap_cbuf_write_in_socket (\<lambda>d. int (length d)) (\<lambda>d. int (length d)) cbuf_example =
     Inr (r, out, c') \<and> cbuf_inv c' \<and> [10, 20, 30] = out @ cbuf_abs c'"
  using cbuf_socket_sends_prefix [of cbuf_example "\<lambda>d. int (length d)" "\<lambda>d. int (length d)"]
    cbuf_example_inv
  by (auto simp: send_ok_def)

text \<open>
  when the second \<open>send\<close> of a wrapped queue takes one byte out of several, the return value
  counts it but \<open>data_size\<close> does not: it is one more than the bytes that are left, and the
  structure is no longer well formed.
\<close>

theorem cbuf_socket_partial_send_stale_size:
  assumes "cbuf_inv c" "data_size c \<noteq> 0" "offset_tail c < offset_head c" "0 < offset_tail c"
    and "send_ok snd1" "\<And>d. snd1 d = int (length d)" "\<And>d. 0 < length d \<Longrightarrow> snd2 d = 1"
  shows "\<exists>r out c'. dap_cbuf_write_in_socket snd1 snd2 c = Inr (r, out, c') \<and>
     r = int (length out) \<and> out = take (length out) (cbuf_abs c) \<and>
     unat (data_size c') = length (cbuf_abs c) - length out + 1 \<and> \<not> cbuf_inv c'"
  using socket_partial_second_send_stale_size [OF assms(1-3,5,6,7,4)] .

theorem cbuf_socket_partial_send_stale_size_witness:
  "\<exists>r out c'. dap_cbuf_write_in_socket (\<lambda>d. int (length d)) (\<lambda>d. 1) cbuf_example = Inr (r, out, c') \<and>
     unat (data_size c') = 3 - length out + 1 \<and> \<not> cbuf_inv c'"
  using cbuf_socket_partial_send_stale_size [of cbuf_example "\<lambda>d. int (length d)" "\<lambda>d. 1"]
    cbuf_example_inv
  by (auto simp: send_ok_def cbuf_example_def)

text \<open>
  \<open>dap_cbuf_print\<close> in hex mode writes past the block it allocates for every buffer that is not
  empty (three characters and a NUL where two bytes per cell are reserved), while the character
  mode stays inside the block and prints each cell followed by a bar.
\<close>

theorem cbuf_print_hex_overflows:
  assumes "data_size c \<noteq> 0" "length str = 2 * unat (dap_cbuf_get_size c) + 1"
  shows "dap_cbuf_print c True str = Inl OutOfBounds \<and>
    dap_cbuf_print c False str =
      Inr (concat (map (\<lambda>j. [cbuf_print_char c j, 0x7C]) [0..<unat (data_size c)]) @ [0])"
proof -
  obtain k where k: "unat (data_size c) = Suc k"
    using assms(1) by (metis not0_implies_Suc unat_eq_0)
  have "cbuf_print_loop c True 0 (Suc k) str = Inl OutOfBounds"
    using assms k by (intro print_loop_hex_overflows) (simp add: dap_cbuf_get_size_def)
  moreover have "cbuf_print_loop c False 0 (Suc k) str =
      Inr (concat (map (\<lambda>j. [cbuf_print_char c j, 0x7C]) [0..<Suc k]) @ [0])"
    using print_loop_text [of str 0 "Suc k" c] assms k
    by (auto simp: dap_cbuf_get_size_def simp del: upt_Suc cbuf_print_loop.simps)
  ultimately show ?thesis using assms(1) k by (simp add: dap_cbuf_print_def)
qed

theorem cbuf_print_hex_overflows_witness:
  "dap_cbuf_print cbuf_example True (replicate 7 0) = Inl OutOfBounds"
  using cbuf_print_hex_overflows [of cbuf_example "replicate 7 0"]
  by (simp add: cbuf_example_def dap_cbuf_get_size_def)

end
