(* ===== verification/Bytes.thy ===== *)
theory Bytes
  imports Prelude
begin

text \<open>
  Little-endian views of memory, as the server uses them when it reads its request buffer through
  a \<open>uint32_t\<close> pointer and hands arrays of 16-bit, 32-bit and 64-bit cells to \<open>send\<close> as bytes.
\<close>

fun le_bytes :: "nat \<Rightarrow> nat \<Rightarrow> byte list" where
  "le_bytes 0 v = []"
| "le_bytes (Suc k) v = word_of_nat (v mod 256) # le_bytes k (v div 256)"

fun le_val :: "byte list \<Rightarrow> nat" where
  "le_val [] = 0"
| "le_val (b # bs) = unat b + 256 * le_val bs"

lemma length_le_bytes [simp]: "length (le_bytes k v) = k"
  by (induction k arbitrary: v) simp_all

lemma unat_byte: "v < 256 \<Longrightarrow> unat (word_of_nat v :: byte) = v"
  by (simp add: unat_of_nat take_bit_nat_eq_self_iff)

lemma unat_byte_less: "unat (b :: byte) < 256"
  using unsigned_less [of b] by simp

lemma le_val_le_bytes: "le_val (le_bytes k v) = v mod 256 ^ k"
proof (induction k arbitrary: v)
  case 0
  then show ?case by simp
next
  case (Suc k)
  then show ?case
    by (simp add: unat_byte mod_mult2_eq)
qed

lemma le_val_less: "le_val bs < 256 ^ length bs"
proof (induction bs)
  case Nil
  then show ?case by simp
next
  case (Cons b bs)
  then show ?case using unat_byte_less [of b] by simp
qed

lemma le_bytes_le_val: "le_bytes (length bs) (le_val bs) = bs"
  by (induction bs) (use unat_byte_less in \<open>simp_all add: div_add1_eq\<close>)

definition cells16 :: "u16 list \<Rightarrow> byte list" where
  "cells16 xs = concat (map (\<lambda>w. le_bytes 2 (unat w)) xs)"

definition cells32 :: "u32 list \<Rightarrow> byte list" where
  "cells32 xs = concat (map (\<lambda>w. le_bytes 4 (unat w)) xs)"

text \<open>A \<open>double\<close> is its 64-bit pattern; \<open>memcpy\<close> of doubles into 16-bit cells splits it in four.\<close>

definition double_cells :: "u64 list \<Rightarrow> u16 list" where
  "double_cells ds = concat (map (\<lambda>d. [ucast d, ucast (drop_bit 16 d), ucast (drop_bit 32 d),
     ucast (drop_bit 48 d)]) ds)"

lemma length_concat_map_const:
  "(\<And>x. x \<in> set xs \<Longrightarrow> length (f x) = k) \<Longrightarrow> length (concat (map f xs)) = k * length xs"
  by (induction xs) simp_all

lemma length_cells16 [simp]: "length (cells16 xs) = 2 * length xs"
  unfolding cells16_def by (rule length_concat_map_const) simp

lemma length_cells32 [simp]: "length (cells32 xs) = 4 * length xs"
  unfolding cells32_def by (rule length_concat_map_const) simp

lemma length_double_cells [simp]: "length (double_cells ds) = 4 * length ds"
  unfolding double_cells_def by (rule length_concat_map_const) simp

definition u32_at :: "byte list \<Rightarrow> nat \<Rightarrow> u32" where
  "u32_at bs i = word_of_nat (le_val (chunk bs (4 * i) 4))"

lemma unat_u32_less: "unat (w :: u32) < 4294967296"
  using unsigned_less [of w] by simp

lemma u32_at_le_bytes:
  "chunk bs (4 * i) 4 = le_bytes 4 (unat w) \<Longrightarrow> u32_at bs i = w"
  using unat_u32_less [of w] by (simp add: u32_at_def le_val_le_bytes)

lemma u32_at_append: "4 * i + 4 \<le> length xs \<Longrightarrow> u32_at (xs @ ys) i = u32_at xs i"
  by (simp add: u32_at_def chunk_def)

end
