(* ===== verification/EthSrv.thy ===== *)
theory EthSrv
  imports Bytes
begin

text \<open>
  The acquisition server of \<open>sources/eth_srv.c\<close>: one TCP client at a time sends a request of up to
  128 bytes into \<open>buf_in\<close>; the first 32-bit word selects the command, the others are its
  arguments; most commands end with one \<open>send\<close>.  The board (registers, memory maps, calibration
  routines) is code of the git submodule \<open>sources/drs\<close>, so its functions are the fields of
  \<open>drs_api\<close>, acting on an abstract hardware state; the server's static buffers and the locals of
  \<open>eth_srv_loop\<close> are the record \<open>srv\<close>.
\<close>

unbundle bit_operations_syntax

section \<open>Sizes\<close>

definition SIZE_BUF_IN :: nat where "SIZE_BUF_IN = 128"
definition mas_cells :: nat where "mas_cells = 0x4000"
definition tmas_cells :: nat where "tmas_cells = 0x800000 * 8 * 2 + 8192 * 2"
definition SIZE_FAST :: nat where "SIZE_FAST = 1000 * 1024 * 8 * 8"
definition shift_cells :: nat where "shift_cells = 1024"
definition ddata_cells :: nat where "ddata_cells = 8192"

lemmas size_defs = SIZE_BUF_IN_def mas_cells_def tmas_cells_def SIZE_FAST_def shift_cells_def
  ddata_cells_def

section \<open>The board and the socket, as parameters\<close>

text \<open>
  \<open>'hw\<close> is the state of the board, the socket and the file system, \<open>'k\<close> the calibration
  coefficients (\<open>coefficients\<close>).  \<open>map_len b\<close> and \<open>map_cell b\<close> are the number and the contents of the
  16-bit cells mapped at \<open>data_map_drs1/2\<close>, \<open>shift_map b\<close> is the word at \<open>data_map_shift_drs1/2\<close>.  A
  routine that fills \<open>tmasFast\<close>, \<open>shift\<close>, \<open>ddata\<close> or \<open>ini\<close> maps the old contents to what it writes from
  the beginning of the array on (\<open>refill\<close>); a routine that is given a pointer into \<open>buf_in\<close> or
  \<open>tmasFast\<close> gets the rest of the array from there.  \<open>parameter_t\<close> is its \<open>ini_size\<close> bytes; \<open>size_bits\<close> is the
  width of \<open>size_t\<close>, 32 on the board.  \<open>ini_reads\<close> holds what the successive \<open>read\<close> calls on the ini
  file return before the one that returns 0 (None is -1).
\<close>

record ('hw, 'k) drs_api =
  ini_size :: nat
  size_bits :: nat
  map_len :: "bool \<Rightarrow> nat"
  map_cell :: "bool \<Rightarrow> 'hw \<Rightarrow> nat \<Rightarrow> u16"
  rd_reg :: "u32 \<Rightarrow> 'hw \<Rightarrow> u32 \<times> 'hw"
  wr_reg :: "u32 \<Rightarrow> u32 \<Rightarrow> 'hw \<Rightarrow> 'hw"
  shift_map :: "bool \<Rightarrow> 'hw \<Rightarrow> u64"
  net_send :: "byte list \<Rightarrow> 'hw \<Rightarrow> int \<times> 'hw"
  ini_open :: "'hw \<Rightarrow> bool"
  ini_reads :: "'hw \<Rightarrow> byte list option list"
  set_num_pages :: "u32 \<Rightarrow> 'hw \<Rightarrow> 'hw"
  set_size_samples :: "u32 \<Rightarrow> 'hw \<Rightarrow> 'hw"
  once_get :: "u16 list \<Rightarrow> u32 list \<Rightarrow> 'hw \<Rightarrow> u16 list \<times> u32 list \<times> 'hw"
  read_n_pages :: "u16 list \<Rightarrow> u32 list \<Rightarrow> u32 \<Rightarrow> u32 \<Rightarrow> 'hw \<Rightarrow> u16 list \<times> u32 list \<times> 'hw"
  do_calibrate :: "u16 list \<Rightarrow> u64 list \<Rightarrow> u32 \<Rightarrow> 'k \<Rightarrow> nat \<Rightarrow> nat \<Rightarrow> u32 \<Rightarrow> byte list \<Rightarrow> u64 list"
  get_x_array :: "u64 list \<Rightarrow> u32 \<Rightarrow> 'k \<Rightarrow> u32 \<Rightarrow> u64 list"
  calibrate_amplitude :: "'k \<Rightarrow> byte list \<Rightarrow> u32 \<Rightarrow> byte list \<Rightarrow> byte list \<Rightarrow> u32 \<Rightarrow> 'hw \<Rightarrow>
    u32 \<times> 'k \<times> byte list \<times> 'hw"
  time_calibration :: "u32 \<Rightarrow> 'k \<Rightarrow> byte list \<Rightarrow> 'hw \<Rightarrow> u32 \<times> 'k \<times> byte list \<times> 'hw"
  global_time_calibration :: "u32 \<Rightarrow> 'k \<Rightarrow> byte list \<Rightarrow> 'hw \<Rightarrow> u32 \<times> 'k \<times> byte list \<times> 'hw"
  set_shift_all_dac :: "byte list \<Rightarrow> byte list \<Rightarrow> 'hw \<Rightarrow> 'hw"
  set_dac :: "u32 \<Rightarrow> 'hw \<Rightarrow> 'hw"
  ini_load :: "'hw \<Rightarrow> byte list \<Rightarrow> byte list \<times> 'hw"
  init_mem :: "'hw \<Rightarrow> int \<times> 'hw"
  memw :: "u32 \<Rightarrow> u32 \<Rightarrow> 'hw \<Rightarrow> 'hw"
  drs_init :: "byte list \<Rightarrow> 'hw \<Rightarrow> byte list \<times> 'hw"
  deinit_mem :: "'hw \<Rightarrow> 'hw"

definition data_map :: "('hw, 'k) drs_api \<Rightarrow> bool \<Rightarrow> 'hw \<Rightarrow> u16 list" where
  "data_map api b h = map (map_cell api b h) [0..<map_len api b]"

text \<open>An array after a routine has written into it; it keeps its size whatever the routine returns.\<close>

definition refill :: "'a list \<Rightarrow> 'a list \<Rightarrow> 'a list" where
  "refill old new = take (length old) new @ drop (length new) old"

section \<open>The server's state\<close>

text \<open>
  \<open>shift_arr\<close>, \<open>ddata\<close> and \<open>coeff\<close> are locals that nothing initialises: an initial state has any contents
  in them, and what is shown of every state holds for all of these.  \<open>ret\<close> is None until it is first
  assigned, and reading it before is a fault; \<open>sent\<close> records what was handed to \<open>send\<close>;
  \<open>open_fds\<close> counts the descriptors \<open>send_ini_file\<close> has opened and not closed.
\<close>

record ('hw, 'k) srv =
  hw :: 'hw
  buf_in :: "byte list"
  mas :: "u16 list"
  tmas :: "u16 list"
  tmas_fast :: "u16 list"
  shift_arr :: "u32 list"
  ddata :: "u64 list"
  coeff :: 'k
  ini :: "byte list"
  ret :: "int option"
  sent :: "byte list list"
  open_fds :: nat
  disconnect :: bool

definition cmd_data :: "('hw, 'k) srv \<Rightarrow> nat \<Rightarrow> u32" where
  "cmd_data st i = u32_at (buf_in st) i"

definition set_cmd_data :: "nat \<Rightarrow> u32 \<Rightarrow> ('hw, 'k) srv \<Rightarrow> ('hw, 'k) srv" where
  "set_cmd_data i v st = st\<lparr>buf_in := blit (buf_in st) (4 * i) (le_bytes 4 (unat v))\<rparr>"

definition upd_hw :: "('hw \<Rightarrow> 'hw) \<Rightarrow> ('hw, 'k) srv \<Rightarrow> ('hw, 'k) srv" where
  "upd_hw f st = st\<lparr>hw := f (hw st)\<rparr>"

definition do_send :: "('hw, 'k) drs_api \<Rightarrow> byte list \<Rightarrow> ('hw, 'k) srv \<Rightarrow> ('hw, 'k) srv" where
  "do_send api d st = (let (r, h) = net_send api d (hw st)
     in st\<lparr>hw := h, ret := Some r, sent := sent st @ [d]\<rparr>)"

definition send_val :: "('hw, 'k) drs_api \<Rightarrow> u32 \<Rightarrow> ('hw, 'k) srv \<Rightarrow> ('hw, 'k) srv" where
  "send_val api v st = do_send api (le_bytes 4 (unat v)) st"

section \<open>Commands\<close>

text \<open>Cases 1 and 2: write and read a register.\<close>

definition cmd_write :: "('hw, 'k) drs_api \<Rightarrow> ('hw, 'k) srv \<Rightarrow> ('hw, 'k) srv res" where
  "cmd_write api st =
     Inr (send_val api 0 (upd_hw (wr_reg api (cmd_data st 1) (cmd_data st 2)) st))"

definition cmd_read :: "('hw, 'k) drs_api \<Rightarrow> ('hw, 'k) srv \<Rightarrow> ('hw, 'k) srv res" where
  "cmd_read api st = (let (v, h) = rd_reg api (cmd_data st 1) (hw st)
     in Inr (send_val api v (st\<lparr>hw := h\<rparr>)))"

text \<open>Cases 3 and 103: one page (0x4000 bytes) of a board's memory; the message printed before
  reads its first eight cells.\<close>

definition cmd_read_drs :: "bool \<Rightarrow> ('hw, 'k) drs_api \<Rightarrow> ('hw, 'k) srv \<Rightarrow> ('hw, 'k) srv res" where
  "cmd_read_drs b api st =
     bindE (chunkE (data_map api b (hw st)) 0 8) (\<lambda>_.
     bindE (chunkE (data_map api b (hw st)) 0 0x2000) (\<lambda>d.
     bindE (blitE (mas st) 0 d) (\<lambda>m.
     Inr (do_send api (cells16 (chunk m 0 0x2000)) (st\<lparr>mas := m\<rparr>)))))"

text \<open>Cases 4 and 104: the low 16 bits of a board's shift.\<close>

definition cmd_read_shift :: "bool \<Rightarrow> ('hw, 'k) drs_api \<Rightarrow> ('hw, 'k) srv \<Rightarrow> ('hw, 'k) srv res" where
  "cmd_read_shift b api st =
     Inr (do_send api (le_bytes 2 (unat (ucast (shift_map api b (hw st)) :: u16))) st)"

text \<open>Case 6 sends the parameters; cases 7 and 9 overwrite them from the request buffer.\<close>

definition cmd_read_ini :: "('hw, 'k) drs_api \<Rightarrow> ('hw, 'k) srv \<Rightarrow> ('hw, 'k) srv res" where
  "cmd_read_ini api st = Inr (do_send api (ini st) st)"

definition cmd_write_ini :: "('hw, 'k) drs_api \<Rightarrow> ('hw, 'k) srv \<Rightarrow> ('hw, 'k) srv res" where
  "cmd_write_ini api st =
     bindE (chunkE (buf_in st) 0 (ini_size api)) (\<lambda>d. Inr (send_val api 0 (st\<lparr>ini := d\<rparr>)))"

text \<open>Case 8, \<open>send_ini_file\<close>: the result is printed, \<open>ret\<close> keeps its value.\<close>

fun send_ini_loop :: "('hw, 'k) drs_api \<Rightarrow> byte list option list \<Rightarrow> ('hw, 'k) srv \<Rightarrow> int \<times> ('hw, 'k) srv" where
  "send_ini_loop api [] st = (0, st)"
| "send_ini_loop api (None # rs) st = (-2, st)"
| "send_ini_loop api (Some d # rs) st =
     (if d = [] then (0, st)
      else let (r, h) = net_send api d (hw st); st' = st\<lparr>hw := h, sent := sent st @ [d]\<rparr>
           in if r = -1 then (-3, st') else send_ini_loop api rs st')"

definition send_ini_file :: "('hw, 'k) drs_api \<Rightarrow> ('hw, 'k) srv \<Rightarrow> int \<times> ('hw, 'k) srv" where
  "send_ini_file api st =
     (if \<not> ini_open api (hw st) then (-1, st)
      else send_ini_loop api (ini_reads api (hw st)) (st\<lparr>open_fds := open_fds st + 1\<rparr>))"

definition cmd_read_ini_file :: "('hw, 'k) drs_api \<Rightarrow> ('hw, 'k) srv \<Rightarrow> ('hw, 'k) srv res" where
  "cmd_read_ini_file api st = Inr (snd (send_ini_file api st))"

text \<open>
  Cases 0xA and 110: copy \<open>cmd_data[1]\<close> pages to \<open>tmas\<close>, print eight cells of the last page, and
  send the pages.  The indices and the byte count are \<open>unsigned int\<close> expressions.
\<close>

definition cell_index :: "u32 \<Rightarrow> u32 \<Rightarrow> nat" where
  "cell_index t k = unat (t * k)"

fun copy_pages :: "u16 list \<Rightarrow> nat \<Rightarrow> nat \<Rightarrow> u16 list \<Rightarrow> (u16 list) res" where
  "copy_pages mp t 0 tm = Inr tm"
| "copy_pages mp t (Suc k) tm =
     bindE (chunkE mp (cell_index (word_of_nat t) 8192) 0x2000) (\<lambda>d.
     bindE (blitE tm (cell_index (word_of_nat t) 8192) d) (\<lambda>tm'.
     copy_pages mp (t + 1) k tm'))"

definition cmd_read_pages :: "bool \<Rightarrow> ('hw, 'k) drs_api \<Rightarrow> ('hw, 'k) srv \<Rightarrow> ('hw, 'k) srv res" where
  "cmd_read_pages b api st =
     (let n = cmd_data st 1; mp = data_map api b (hw st); last = (if 0 < n then n - 1 else n)
      in bindE (copy_pages mp 0 (unat n) (tmas st)) (\<lambda>tm.
         bindE (chunkE mp (cell_index last 8192) 8) (\<lambda>_.
         bindE (chunkE tm 0 (unat (n * 0x4000) div 2)) (\<lambda>d.
         Inr (do_send api (cells16 d) (st\<lparr>tmas := tm\<rparr>))))))"

text \<open>Case 0xB: the calibrations selected by the bits of \<open>cmd_data[1]\<close>.\<close>

definition cmd_calibrate :: "('hw, 'k) drs_api \<Rightarrow> ('hw, 'k) srv \<Rightarrow> ('hw, 'k) srv res" where
  "cmd_calibrate api st =
     (let calibLvl = drop 24 (buf_in st); shiftDAC = drop 40 (buf_in st);
          st0 = upd_hw (set_num_pages api 1) st;
          (val1, st1) =
            (if cmd_data st 1 AND 1 = 1
             then let (r, k, i, h) = calibrate_amplitude api (coeff st0) calibLvl (cmd_data st 2)
                        shiftDAC (ini st0) (cmd_data st 5 + 2) (hw st0)
                  in (r AND 1, st0\<lparr>coeff := k, ini := refill (ini st0) i, hw := h\<rparr>)
             else (0, st0));
          (val2, st2) =
            (if cmd_data st 1 AND 2 = 2
             then let (r, k, i, h) = time_calibration api (cmd_data st 3) (coeff st1) (ini st1) (hw st1)
                  in (val1 OR (push_bit 1 r AND 2), st1\<lparr>coeff := k, ini := refill (ini st1) i, hw := h\<rparr>)
             else (val1, st1));
          (val3, st3) =
            (if cmd_data st 1 AND 4 = 4
             then let (r, k, i, h) = global_time_calibration api (cmd_data st 4) (coeff st2) (ini st2)
                        (hw st2)
                  in (val2 OR (push_bit 2 r AND 4), st2\<lparr>coeff := k, ini := refill (ini st2) i, hw := h\<rparr>)
             else (val2, st2))
      in Inr (send_val api val3 st3))"

text \<open>
  Cases 0xC and 0x13: acquire and calibrate pages in place in \<open>tmasFast\<close>.  Each page has a slot of
  \<open>8192 * val\<close> cells (\<open>val\<close> is 4, or 8 when the X values are asked for); the calibrated doubles
  replace the raw cells, the X values follow them.
\<close>

definition page_val :: "u32 \<Rightarrow> u32" where
  "page_val flags = (if flags AND 24 \<noteq> 0 then 8 else 4)"

definition calib_page :: "('hw, 'k) drs_api \<Rightarrow> nat \<Rightarrow> u32 \<Rightarrow> u32 \<Rightarrow> u32 \<Rightarrow> ('hw, 'k) srv \<Rightarrow> ('hw, 'k) srv res" where
  "calib_page api chans flags v t st =
     (let i = cell_index (t * 8192) v in
      bindE (guardE (i \<le> length (tmas_fast st) \<and> unat t < length (shift_arr st)) OutOfBounds) (\<lambda>_.
      let dd = refill (ddata st) (do_calibrate api (drop i (tmas_fast st)) (ddata st) (shift_arr st ! unat t)
                 (coeff st) 1024 chans flags (ini st)) in
      bindE (chunkE dd 0 8192) (\<lambda>d.
      bindE (blitE (tmas_fast st) i (double_cells d)) (\<lambda>tf.
      let st' = st\<lparr>ddata := dd, tmas_fast := tf\<rparr> in
      if v = 8
      then let xx = refill dd (get_x_array api dd (shift_arr st ! unat t) (coeff st) flags) in
           bindE (chunkE xx 0 8192) (\<lambda>x.
           bindE (blitE tf (cell_index (t * v + 4) 8192) (double_cells x)) (\<lambda>tf'.
           Inr (st'\<lparr>ddata := xx, tmas_fast := tf'\<rparr>)))
      else Inr st'))))"

fun calib_pages :: "('hw, 'k) drs_api \<Rightarrow> nat \<Rightarrow> u32 \<Rightarrow> u32 \<Rightarrow> nat \<Rightarrow> nat \<Rightarrow> ('hw, 'k) srv \<Rightarrow> ('hw, 'k) srv res" where
  "calib_pages api chans flags v t 0 st = Inr st"
| "calib_pages api chans flags v t (Suc k) st =
     bindE (calib_page api chans flags v (word_of_nat t) st) (\<lambda>st'.
     calib_pages api chans flags v (t + 1) k st')"

definition acquire :: "bool \<Rightarrow> ('hw, 'k) drs_api \<Rightarrow> u32 \<Rightarrow> ('hw, 'k) srv \<Rightarrow> ('hw, 'k) srv" where
  "acquire set_size api v st =
     (if cmd_data st 2 AND 1 = 1
      then let st1 = upd_hw (set_num_pages api 1) st;
               st2 = (if set_size then upd_hw (set_size_samples api 1024) st1 else st1);
               (tf, sh, h) = once_get api (tmas_fast st2) (shift_arr st2) (hw st2)
           in st2\<lparr>tmas_fast := refill (tmas_fast st2) tf, shift_arr := refill (shift_arr st2) sh, hw := h\<rparr>
      else let (tf, sh, h) = read_n_pages api (tmas_fast st) (shift_arr st) (cmd_data st 1) (v * 16384) (hw st)
           in st\<lparr>tmas_fast := refill (tmas_fast st) tf, shift_arr := refill (shift_arr st) sh, hw := h\<rparr>)"

definition cmd_read_calibrated :: "bool \<Rightarrow> nat \<Rightarrow> ('hw, 'k) drs_api \<Rightarrow> ('hw, 'k) srv \<Rightarrow> ('hw, 'k) srv res" where
  "cmd_read_calibrated set_size chans api st =
     (let v = page_val (cmd_data st 3); n = cmd_data st 1
      in bindE (calib_pages api chans (cmd_data st 3) v 0 (unat n) (acquire set_size api v st)) (\<lambda>st'.
         bindE (chunkE (tmas_fast st') 0 (unat (2 * 8192 * n * v) div 2)) (\<lambda>d.
         Inr (do_send api (cells16 d) st'))))"

text \<open>Cases 0xD, 0xE and 0xF: set the DACs, answer 15, send the shifts.\<close>

definition cmd_set_dac :: "('hw, 'k) drs_api \<Rightarrow> ('hw, 'k) srv \<Rightarrow> ('hw, 'k) srv res" where
  "cmd_set_dac api st =
     Inr (send_val api 1 (upd_hw (set_dac api 1 \<circ> set_shift_all_dac api (drop 4 (buf_in st)) (ini st)) st))"

definition cmd_ff :: "('hw, 'k) drs_api \<Rightarrow> ('hw, 'k) srv \<Rightarrow> ('hw, 'k) srv res" where
  "cmd_ff api st = Inr (send_val api 15 st)"

text \<open>The byte count is a product of type \<open>size_t\<close>, and the count comes from the client.\<close>

definition cmd_read_shifts :: "('hw, 'k) drs_api \<Rightarrow> ('hw, 'k) srv \<Rightarrow> ('hw, 'k) srv res" where
  "cmd_read_shifts api st =
     bindE (chunkE (cells32 (shift_arr st)) 0 (4 * unat (cmd_data st 1) mod 2 ^ size_bits api)) (\<lambda>d.
     Inr (do_send api d st))"

text \<open>Case 0x10: the start mode.  \<open>usleep\<close> has no effect on the state.\<close>

definition cmd_start :: "('hw, 'k) drs_api \<Rightarrow> ('hw, 'k) srv \<Rightarrow> ('hw, 'k) srv res" where
  "cmd_start api st =
     (let md = cmd_data st 1; n = cmd_data st 2;
          h1 = (if md = 0
                then wr_reg api 0x27 1 \<circ> wr_reg api 0x15 2 \<circ> set_size_samples api (n * 1024) \<circ>
                       set_num_pages api n
                else if md = 1 then wr_reg api 0x27 0 \<circ> wr_reg api 0x15 0
                else if md = 4
                then wr_reg api 0x27 1 \<circ> wr_reg api 0x15 2 \<circ> set_size_samples api 1024 \<circ>
                       set_num_pages api 1
                else id)
      in Inr (send_val api 0 (upd_hw h1 st)))"

text \<open>Case 0x12: three status registers, read into the request buffer and sent from there.\<close>

definition cmd_status :: "('hw, 'k) drs_api \<Rightarrow> ('hw, 'k) srv \<Rightarrow> ('hw, 'k) srv res" where
  "cmd_status api st =
     (let (a, h1) = rd_reg api 0x31 (hw st);
          st1 = set_cmd_data 0 a (st\<lparr>hw := h1\<rparr>);
          (b, h2) = rd_reg api 0x3D (hw st1);
          st2 = set_cmd_data 1 b (st1\<lparr>hw := h2\<rparr>);
          (c, h3) = rd_reg api 0x39 (hw st2);
          st3 = set_cmd_data 2 c (st2\<lparr>hw := h3\<rparr>)
      in Inr (do_send api (chunk (buf_in st3) 0 12) st3))"

section \<open>Dispatch, sessions, start\<close>

definition eth_dispatch :: "('hw, 'k) drs_api \<Rightarrow> ('hw, 'k) srv \<Rightarrow> ('hw, 'k) srv res" where
  "eth_dispatch api st =
     (let c = cmd_data st 0 in
      if c = 1 then cmd_write api st
      else if c = 2 then cmd_read api st
      else if c = 3 then cmd_read_drs False api st
      else if c = 103 then cmd_read_drs True api st
      else if c = 4 then cmd_read_shift False api st
      else if c = 104 then cmd_read_shift True api st
      else if c = 6 then cmd_read_ini api st
      else if c = 7 then cmd_write_ini api st
      else if c = 8 then cmd_read_ini_file api st
      else if c = 9 then cmd_write_ini api st
      else if c = 0xA then cmd_read_pages False api st
      else if c = 110 then cmd_read_pages True api st
      else if c = 0xB then cmd_calibrate api st
      else if c = 0xC then cmd_read_calibrated False 8 api st
      else if c = 0xD then cmd_set_dac api st
      else if c = 0xE then cmd_ff api st
      else if c = 0xF then cmd_read_shifts api st
      else if c = 0x10 then cmd_start api st
      else if c = 0x12 then cmd_status api st
      else if c = 0x13 then cmd_read_calibrated True 4 api st
      else Inr st)"

text \<open>After the switch \<open>ret\<close> is tested, which reads it.\<close>

definition eth_handle :: "('hw, 'k) drs_api \<Rightarrow> ('hw, 'k) srv \<Rightarrow> ('hw, 'k) srv res" where
  "eth_handle api st =
     bindE (eth_dispatch api st) (\<lambda>st'. bindE (guardE (ret st' \<noteq> None) Uninit) (\<lambda>_. Inr st'))"

text \<open>What \<open>recv\<close> does: it fails, or stores up to 128 bytes (none when the client is gone).\<close>

datatype recv_ev = RecvError | RecvBytes "byte list"

definition eth_recv :: "('hw, 'k) drs_api \<Rightarrow> recv_ev \<Rightarrow> ('hw, 'k) srv \<Rightarrow> ('hw, 'k) srv res" where
  "eth_recv api ev st = (case ev of
       RecvError \<Rightarrow> Inr st
     | RecvBytes d \<Rightarrow>
         if d = [] then Inr (st\<lparr>disconnect := True\<rparr>)
         else bindE (blitE (buf_in st) 0 d) (\<lambda>b. eth_handle api (st\<lparr>buf_in := b\<rparr>)))"

text \<open>One client: the events \<open>recv\<close> delivers, up to the disconnection.\<close>

fun eth_session :: "('hw, 'k) drs_api \<Rightarrow> recv_ev list \<Rightarrow> ('hw, 'k) srv \<Rightarrow> ('hw, 'k) srv res" where
  "eth_session api [] st = Inr st"
| "eth_session api (ev # evs) st =
     (if disconnect st then Inr st else bindE (eth_recv api ev st) (\<lambda>st'. eth_session api evs st'))"

text \<open>\<open>eth_srv_loop\<close> serves one client after the other; \<open>accept\<close> failing ends the process.\<close>

datatype accept_ev = AcceptError | Client "recv_ev list"

datatype ('hw, 'k) loop_end = Serving "('hw, 'k) srv" | Exit1 "('hw, 'k) srv"

fun eth_srv_loop :: "('hw, 'k) drs_api \<Rightarrow> accept_ev list \<Rightarrow> ('hw, 'k) srv \<Rightarrow> ('hw, 'k) loop_end res" where
  "eth_srv_loop api [] st = Inr (Serving st)"
| "eth_srv_loop api (AcceptError # cs) st = Inr (Exit1 st)"
| "eth_srv_loop api (Client evs # cs) st =
     bindE (eth_session api evs (st\<lparr>disconnect := False\<rparr>)) (\<lambda>st'.
     if disconnect st' then eth_srv_loop api cs st' else Inr (Serving st'))"

text \<open>\<open>eth_srv_init\<close>: the parameters, the memory maps and the registers of the board.\<close>

definition eth_srv_init :: "('hw, 'k) drs_api \<Rightarrow> ('hw, 'k) srv \<Rightarrow> int \<times> ('hw, 'k) srv" where
  "eth_srv_init api st =
     (let zeros = replicate (ini_size api) 0; (i0, h0) = ini_load api (hw st) zeros; i = refill zeros i0;
          (r, h1) = init_mem api h0;
          st1 = st\<lparr>ini := i, hw := h1\<rparr>
      in if r \<noteq> 0 then (-1, st1)
         else let h2 = (wr_reg api 29 0xFF40000 \<circ> wr_reg api 28 0xBF40000 \<circ> wr_reg api 26 0x4000 \<circ>
                        wr_reg api 24 0xC000000 \<circ> wr_reg api 25 0x4000 \<circ> wr_reg api 23 0x8000000 \<circ>
                        memw api 0xFFC25080 0x3fff) h1;
                  (i', h3) = drs_init api i h2
              in (0, st1\<lparr>ini := refill i i', hw := h3\<rparr>))"

text \<open>\<open>eth_srv_start\<close>: the results of the four socket calls decide how it ends.\<close>

datatype start_end = Returned int | Exited int

definition eth_srv_start :: "int \<Rightarrow> int \<Rightarrow> int \<Rightarrow> int \<Rightarrow> start_end" where
  "eth_srv_start socket_r setsockopt_r bind_r listen_r =
     (if socket_r < 0 then Returned (-1)
      else if setsockopt_r = -1 then Exited 1
      else if bind_r < 0 then Exited 1
      else if listen_r < 0 then Exited 1
      else Returned 0)"

definition eth_srv_deinit :: "('hw, 'k) drs_api \<Rightarrow> ('hw, 'k) srv \<Rightarrow> ('hw, 'k) srv" where
  "eth_srv_deinit api st = upd_hw (deinit_mem api) st"

end
