(* ===== verification/EthSafe.thy ===== *)
theory EthSafe
  imports EthSrv
begin

text \<open>
  The server stays inside its buffers: the shape of its state, the requests that fit, and the page loops of the commands 0xA, 110, 0xC and 0x13.
\<close>

section \<open>Shape of the state\<close>

definition srv_ok :: "('hw, 'k) drs_api \<Rightarrow> ('hw, 'k) srv \<Rightarrow> bool" where
  "srv_ok api st \<longleftrightarrow> length (buf_in st) = SIZE_BUF_IN \<and> length (mas st) = mas_cells \<and>
     length (tmas st) = tmas_cells \<and> length (tmas_fast st) = SIZE_FAST \<and>
     length (shift_arr st) = shift_cells \<and> length (ddata st) = ddata_cells \<and>
     length (ini st) = ini_size api"

lemma length_refill [simp]: "length (refill old new) = length old"
  by (simp add: refill_def min_def)

lemma length_data_map [simp]: "length (data_map api b h) = map_len api b"
  by (simp add: data_map_def)

text \<open>
  The requests that stay inside the buffers, the memory maps and the parameters: \<open>c\<close> is the command, \<open>n\<close> and
  \<open>flags\<close> are its first and third argument.
\<close>

definition max_pages :: "u32 \<Rightarrow> nat" where
  "max_pages flags = (if page_val flags = 8 then 1000 else 1024)"

definition request_fits :: "('hw, 'k) drs_api \<Rightarrow> u32 \<Rightarrow> u32 \<Rightarrow> u32 \<Rightarrow> bool" where
  "request_fits api c n flags \<longleftrightarrow>
     (if c = 3 \<or> c = 103 then 0x2000 \<le> map_len api (c = 103)
      else if c = 7 \<or> c = 9 then ini_size api \<le> SIZE_BUF_IN
      else if c = 0xA \<or> c = 110 then unat n \<le> 16386 \<and> max 8 (unat n * 8192) \<le> map_len api (c = 110)
      else if c = 0xC \<or> c = 0x13 then unat n \<le> max_pages flags
      else if c = 0xF then 4 * unat n mod 2 ^ size_bits api \<le> 4096 else True)"

text \<open>The requests that assign \<open>ret\<close>.\<close>

definition answers :: "u32 \<Rightarrow> bool" where
  "answers c \<longleftrightarrow> c \<in> {1, 2, 3, 103, 4, 104, 6, 7, 9, 0xA, 110, 0xB, 0xC, 0xD, 0xE, 0xF, 0x10, 0x12, 0x13}"

section \<open>Copying pages\<close>

lemma cell_index_small:
  assumes "t * k < 2 ^ 32" "t < 2 ^ 32" "k < 2 ^ 32"
  shows "cell_index (word_of_nat t) (word_of_nat k) = t * k"
proof -
  have "(word_of_nat t :: u32) * word_of_nat k = word_of_nat (t * k)" by simp
  moreover have "unat (word_of_nat (t * k) :: u32) = t * k"
    using assms by (simp only: unat_of_nat take_bit_nat_eq_self_iff) simp
  ultimately show ?thesis by (simp only: cell_index_def)
qed

lemma cell_index_page: "t \<le> 16386 \<Longrightarrow> cell_index (word_of_nat t) 8192 = t * 8192"
  using cell_index_small [of t 8192] by simp

text \<open>The loop stops at the first page that is not in the memory map or not in \<open>tmas\<close>.\<close>

lemma copy_pages_spec:
  assumes "t \<le> 16386" "length tm = tmas_cells"
  shows "copy_pages mp t k tm =
    (if k = 0 \<or> t + k \<le> 16386 \<and> (t + k) * 8192 \<le> length mp
     then Inr (blit tm (t * 8192) (chunk mp (t * 8192) (k * 8192))) else Inl OutOfBounds)"
  using assms
proof (induction k arbitrary: t tm)
  case 0
  then show ?case by simp
next
  case (Suc k)
  define d where "d = chunk mp (t * 8192) 8192"
  show ?case
  proof (cases "t < 16386 \<and> (t + 1) * 8192 \<le> length mp")
    case True
    then have ld: "length d = 8192" by (simp add: d_def)
    have le: "t * 8192 + length d \<le> length tm" using True Suc.prems ld by (simp add: tmas_cells_def)
    have s: "copy_pages mp t (Suc k) tm = copy_pages mp (t + 1) k (blit tm (t * 8192) d)"
      using True Suc.prems ld le by (simp add: cell_index_page d_def [symmetric])
    have l: "length (blit tm (t * 8192) d) = tmas_cells" using le Suc.prems by simp
    have t1: "t + 1 \<le> 16386" using True by simp
    note IH = Suc.IH [OF t1 l]
    show ?thesis
    proof (cases "k = 0 \<or> t + 1 + k \<le> 16386 \<and> (t + 1 + k) * 8192 \<le> length mp")
      case fit: True
      have "length (chunk mp ((t + 1) * 8192) (k * 8192)) = k * 8192" using fit by auto
      then have "t * 8192 + length d + length (chunk mp ((t + 1) * 8192) (k * 8192)) \<le> length tm"
        using fit True Suc.prems ld by (auto simp: tmas_cells_def)
      then have "blit (blit tm (t * 8192) d) ((t + 1) * 8192) (chunk mp ((t + 1) * 8192) (k * 8192)) =
          blit tm (t * 8192) (d @ chunk mp ((t + 1) * 8192) (k * 8192))"
        using blit_adjacent [of "t * 8192" d "chunk mp ((t + 1) * 8192) (k * 8192)" tm] ld
        by (simp add: add.commute)
      also have "d @ chunk mp ((t + 1) * 8192) (k * 8192) = chunk mp (t * 8192) (Suc k * 8192)"
        using chunk_append [of mp "t * 8192" 8192 "k * 8192"] by (simp add: d_def add.commute)
      finally have "copy_pages mp t (Suc k) tm = Inr (blit tm (t * 8192) (chunk mp (t * 8192) (Suc k * 8192)))"
        unfolding s IH using fit by simp
      then show ?thesis using fit True by auto
    next
      case False
      then show ?thesis unfolding s IH using True by auto
    qed
  next
    case False
    have "bindE (chunkE mp (cell_index (word_of_nat t) 8192) 0x2000)
        (\<lambda>d. blitE tm (cell_index (word_of_nat t) 8192) d) = Inl OutOfBounds"
      using False Suc.prems by (auto simp: cell_index_page chunkE_def blitE_def tmas_cells_def)
    then have "copy_pages mp t (Suc k) tm = Inl OutOfBounds"
      by (cases "chunkE mp (cell_index (word_of_nat t) 8192) 0x2000") auto
    moreover have "\<not> (t + Suc k \<le> 16386 \<and> (t + Suc k) * 8192 \<le> length mp)" using False by auto
    ultimately show ?thesis by simp
  qed
qed

section \<open>Calibrating pages\<close>

text \<open>
  What one page becomes: the calibrated values, and the X values when they are asked for.  \<open>dd\<close> is what the page
  before left in the array \<open>ddata\<close>, \<open>page_scratch\<close> is what this one leaves there.
\<close>

definition page_calib :: "('hw, 'k) drs_api \<Rightarrow> nat \<Rightarrow> u32 \<Rightarrow> u16 list \<Rightarrow> u64 list \<Rightarrow> u32 \<Rightarrow> 'k \<Rightarrow> byte list \<Rightarrow> u64 list" where
  "page_calib api chans flags raw dd sh k i = refill dd (do_calibrate api raw dd sh k 1024 chans flags i)"

definition page_x :: "('hw, 'k) drs_api \<Rightarrow> u32 \<Rightarrow> u64 list \<Rightarrow> u32 \<Rightarrow> 'k \<Rightarrow> u64 list" where
  "page_x api flags d sh k = refill d (get_x_array api d sh k flags)"

definition page_cells :: "('hw, 'k) drs_api \<Rightarrow> nat \<Rightarrow> u32 \<Rightarrow> u16 list \<Rightarrow> u64 list \<Rightarrow> u32 \<Rightarrow> 'k \<Rightarrow> byte list \<Rightarrow> u16 list" where
  "page_cells api chans flags raw dd sh k i =
     (let d = page_calib api chans flags raw dd sh k i
      in double_cells d @ (if page_val flags = 8 then double_cells (page_x api flags d sh k) else []))"

definition page_scratch :: "('hw, 'k) drs_api \<Rightarrow> nat \<Rightarrow> u32 \<Rightarrow> u16 list \<Rightarrow> u64 list \<Rightarrow> u32 \<Rightarrow> 'k \<Rightarrow> byte list \<Rightarrow> u64 list" where
  "page_scratch api chans flags raw dd sh k i =
     (let d = page_calib api chans flags raw dd sh k i in if page_val flags = 8 then page_x api flags d sh k else d)"

definition page_slot :: "u32 \<Rightarrow> nat" where
  "page_slot flags = (if page_val flags = 8 then 65536 else 32768)"

text \<open>The cells of \<open>n\<close> pages from page \<open>t\<close> on, each computed from the array \<open>tf\<close> as it was acquired.\<close>

fun pages_out :: "('hw, 'k) drs_api \<Rightarrow> nat \<Rightarrow> u32 \<Rightarrow> u16 list \<Rightarrow> u32 list \<Rightarrow> 'k \<Rightarrow> byte list \<Rightarrow> nat \<Rightarrow> nat \<Rightarrow> u64 list \<Rightarrow> u16 list" where
  "pages_out api chans flags tf sh k i t 0 dd = []"
| "pages_out api chans flags tf sh k i t (Suc n) dd =
     (let raw = drop (t * page_slot flags) tf
      in page_cells api chans flags raw dd (sh ! t) k i @
         pages_out api chans flags tf sh k i (t + 1) n (page_scratch api chans flags raw dd (sh ! t) k i))"

lemma page_val_cases: "page_val flags = 8 \<or> page_val flags = 4"
  by (simp add: page_val_def)

lemma length_page_calib [simp]: "length (page_calib api chans flags raw dd sh k i) = length dd"
  "length (page_x api flags d sh k) = length d" "length (page_scratch api chans flags raw dd sh k i) = length dd"
  by (simp_all add: page_calib_def page_x_def page_scratch_def Let_def)

lemma length_page_cells:
  "length dd = 8192 \<Longrightarrow> length (page_cells api chans flags raw dd sh k i) = page_slot flags"
  by (simp add: page_cells_def page_slot_def Let_def)

lemma length_pages_out:
  "length dd = 8192 \<Longrightarrow> length (pages_out api chans flags tf sh k i t n dd) = n * page_slot flags"
  by (induction n arbitrary: t dd) (simp_all add: length_page_cells Let_def)

lemma cell_index_slot:
  assumes "t < 1024"
  shows "cell_index (word_of_nat t * 8192) (page_val flags) = t * page_slot flags"
proof -
  have w: "(word_of_nat t :: u32) * 8192 * page_val flags = word_of_nat (t * page_slot flags)"
    using page_val_cases [of flags] by (auto simp: page_slot_def)
  have "t * page_slot flags < 2 ^ 32" using assms by (simp add: page_slot_def)
  then have "unat (word_of_nat (t * page_slot flags) :: u32) = t * page_slot flags"
    by (simp only: unat_of_nat take_bit_nat_eq_self_iff) simp
  then show ?thesis by (simp only: cell_index_def w)
qed

lemma cell_index_x:
  assumes "t < 1024"
  shows "cell_index (word_of_nat t * 8 + 4) 8192 = t * 65536 + 32768"
proof -
  have w: "((word_of_nat t :: u32) * 8 + 4) * 8192 = word_of_nat (t * 65536 + 32768)"
    by (simp add: algebra_simps)
  have "t * 65536 + 32768 < 2 ^ 32" using assms by simp
  then have "unat (word_of_nat (t * 65536 + 32768) :: u32) = t * 65536 + 32768"
    by (simp only: unat_of_nat take_bit_nat_eq_self_iff) simp
  then show ?thesis by (simp only: cell_index_def w)
qed

lemma unat_word_of_nat_u32: "t < 2 ^ 32 \<Longrightarrow> unat (word_of_nat t :: u32) = t"
  by (simp only: unat_of_nat take_bit_nat_eq_self_iff) simp

definition calib_frame :: "('hw, 'k) srv \<Rightarrow> ('hw, 'k) srv \<Rightarrow> bool" where
  "calib_frame st st' \<longleftrightarrow> st' = st\<lparr>ddata := ddata st', tmas_fast := tmas_fast st'\<rparr> \<and>
     length (ddata st') = 8192 \<and> length (tmas_fast st') = length (tmas_fast st)"

lemma calib_page_step:
  assumes t: "t < max_pages flags"
    and dd: "length (ddata st) = 8192" and sh: "length (shift_arr st) = 1024"
    and tf: "tmas_fast st = pre @ raw" "length pre = t * page_slot flags" "page_slot flags \<le> length raw"
  shows "\<exists>st'. calib_page api chans flags (page_val flags) (word_of_nat t) st = Inr st' \<and>
     calib_frame st st' \<and>
     tmas_fast st' = pre @ page_cells api chans flags raw (ddata st) (shift_arr st ! t) (coeff st) (ini st)
        @ drop (page_slot flags) raw \<and>
     ddata st' = page_scratch api chans flags raw (ddata st) (shift_arr st ! t) (coeff st) (ini st)"
proof -
  have t2: "t < 1024" using t by (simp add: max_pages_def split: if_splits)
  define d where "d = page_calib api chans flags raw (ddata st) (shift_arr st ! t) (coeff st) (ini st)"
  have ld: "length d = 8192" using dd by (simp add: d_def)
  note df = d_def [unfolded page_calib_def, symmetric]
  have i: "cell_index (word_of_nat t * 8192) (page_val flags) = length pre"
    using cell_index_slot [OF t2] tf by simp
  have ut: "unat (word_of_nat t :: u32) = t" using t2 by (intro unat_word_of_nat_u32) simp
  have slot: "32768 \<le> length raw" using tf(3) by (simp add: page_slot_def split: if_splits)
  have b1: "blitE (pre @ raw) (length pre) (double_cells d) = Inr (pre @ double_cells d @ drop 32768 raw)"
    using slot ld by (simp add: blit_prefix)
  show ?thesis
  proof (cases "page_val flags = 8")
    case False
    then have v: "page_val flags = 4" using page_val_cases [of flags] by simp
    have "calib_page api chans flags (page_val flags) (word_of_nat t) st =
        Inr (st\<lparr>ddata := d, tmas_fast := pre @ double_cells d @ drop 32768 raw\<rparr>)"
      using t2 sh ld b1 tf i
      by (simp add: calib_page_def Let_def ut v df)
    then show ?thesis
      using ld slot tf by (simp add: calib_frame_def page_cells_def page_scratch_def page_slot_def v flip: d_def)
  next
    case True
    define x where "x = page_x api flags d (shift_arr st ! t) (coeff st)"
    have lx: "length x = 8192" using ld by (simp add: x_def)
    note xf = x_def [unfolded page_x_def, symmetric]
    have slot2: "65536 \<le> length raw" using tf(3) True by (simp add: page_slot_def)
    have ix: "cell_index (word_of_nat t * 8 + 4) 8192 = length (pre @ double_cells d)"
      using cell_index_x [OF t2] tf True ld by (simp add: page_slot_def)
    have b2: "blitE (pre @ double_cells d @ drop 32768 raw) (length (pre @ double_cells d)) (double_cells x) =
        Inr (pre @ double_cells d @ double_cells x @ drop 65536 raw)"
      using slot2 ld lx blit_prefix [of "pre @ double_cells d" "length (pre @ double_cells d)" "drop 32768 raw"
          "double_cells x"]
      by (simp add: blitE_def)
    have "calib_page api chans flags (page_val flags) (word_of_nat t) st =
        Inr (st\<lparr>ddata := x, tmas_fast := pre @ double_cells d @ double_cells x @ drop 65536 raw\<rparr>)"
      using t2 sh ld lx b1 b2 tf i ix
      by (simp add: calib_page_def Let_def ut True df xf)
    then show ?thesis
      using ld lx slot2 tf
      by (simp add: calib_frame_def page_cells_def page_scratch_def page_slot_def True flip: d_def x_def)
  qed
qed

lemma calib_frame_refl: "length (ddata st) = 8192 \<Longrightarrow> calib_frame st st"
  by (simp add: calib_frame_def)

lemma calib_frame_trans: "calib_frame st st1 \<Longrightarrow> calib_frame st1 st2 \<Longrightarrow> calib_frame st st2"
  unfolding calib_frame_def
  by (cases st; cases st1; cases st2; simp)

lemma calib_frame_fields:
  "calib_frame st st' \<Longrightarrow> shift_arr st' = shift_arr st \<and> coeff st' = coeff st \<and> ini st' = ini st \<and>
     length (ddata st') = 8192"
  unfolding calib_frame_def by (cases st; cases st'; simp)

text \<open>
  The loop turns the acquired pages into the calibrated ones, one after the other: no page's result overwrites a page
  that is still to be read.
\<close>

lemma calib_pages_ok:
  assumes n: "t + k \<le> max_pages flags"
    and st0: "length (shift_arr st0) = 1024" "(t + k) * page_slot flags \<le> length (tmas_fast st0)"
    and st: "calib_frame st0 st" "length pre = t * page_slot flags"
      "tmas_fast st = pre @ drop (t * page_slot flags) (tmas_fast st0)"
  shows "\<exists>st'. calib_pages api chans flags (page_val flags) t k st = Inr st' \<and> calib_frame st0 st' \<and>
    tmas_fast st' = pre @ pages_out api chans flags (tmas_fast st0) (shift_arr st0) (coeff st0) (ini st0) t k (ddata st)
      @ drop ((t + k) * page_slot flags) (tmas_fast st0)"
  using n st0(2) st
proof (induction k arbitrary: t st pre)
  case 0
  then show ?case by simp
next
  case (Suc k)
  let ?P = "page_slot flags"
  let ?raw = "drop (t * ?P) (tmas_fast st0)"
  let ?c = "page_cells api chans flags ?raw (ddata st) (shift_arr st0 ! t) (coeff st0) (ini st0)"
  have fr: "shift_arr st = shift_arr st0" "coeff st = coeff st0" "ini st = ini st0"
    "length (ddata st) = 8192"
    using calib_frame_fields [OF Suc.prems(3)] by simp_all
  have "(t + Suc k) * ?P = t * ?P + ?P + k * ?P" by (simp add: algebra_simps)
  then have raw: "?P \<le> length ?raw" using Suc.prems(2) by simp
  from calib_page_step [of t flags st pre ?raw api chans] obtain st1 where
    st1: "calib_page api chans flags (page_val flags) (word_of_nat t) st = Inr st1" "calib_frame st st1"
      "tmas_fast st1 = pre @ ?c @ drop ?P ?raw"
      "ddata st1 = page_scratch api chans flags ?raw (ddata st) (shift_arr st0 ! t) (coeff st0) (ini st0)"
    using Suc.prems(1,4,5) fr st0(1) raw by (auto simp: fr)
  have "tmas_fast st1 = (pre @ ?c) @ drop ((t + 1) * ?P) (tmas_fast st0)"
    using st1(3) by (simp add: algebra_simps)
  moreover have "length (pre @ ?c) = (t + 1) * ?P"
    using Suc.prems(4) length_page_cells [OF fr(4)] by simp
  ultimately show ?case
    using Suc.IH [of "t + 1" st1 "pre @ ?c"] Suc.prems(1,2) st1(1,4)
      calib_frame_trans [OF Suc.prems(3) st1(2)] by (simp add: Let_def)
qed

text \<open>A page outside \<open>tmasFast\<close> or \<open>shift\<close> faults.\<close>

lemma calib_page_fault:
  assumes t: "t = max_pages flags"
    and sh: "length (shift_arr st) = 1024" and tf: "length (tmas_fast st) = SIZE_FAST"
    and dd: "length (ddata st) = 8192"
  shows "calib_page api chans flags (page_val flags) (word_of_nat t) st = Inl OutOfBounds"
proof (cases "page_val flags = 8")
  case True
  then have t': "t = 1000" using t by (simp add: max_pages_def)
  have i: "cell_index (word_of_nat t * 8192) (page_val flags) = 65536000"
    using cell_index_slot [of t flags] t' True by (simp add: page_slot_def)
  have "length (take 8192 (refill (ddata st) r)) = 8192" for r using dd by simp
  then show ?thesis
    using i tf sh t' dd
    by (simp add: calib_page_def Let_def SIZE_FAST_def blitE_def chunkE_def True)
next
  case False
  then have t': "t = 1024" using t by (simp add: max_pages_def)
  then show ?thesis using sh by (simp add: calib_page_def Let_def)
qed

end
