(* ===== verification/EthProps.thy ===== *)
theory EthProps
  imports EthSafe
begin

text \<open>
  What the server answers: every request that fits is handled without a fault, keeps the shape of
  the state and is answered once; the exact replies of the page commands; sessions; and the
  requests and events on which the code misbehaves.
\<close>

section \<open>The page commands\<close>

lemma calib_pages_add:
  "calib_pages api chans flags v t (j + k) st =
     bindE (calib_pages api chans flags v t j st) (calib_pages api chans flags v (t + j) k)"
proof (induction j arbitrary: t st)
  case 0
  then show ?case by simp
next
  case (Suc j)
  then show ?case
    by (cases "calib_page api chans flags v (word_of_nat t) st") (simp_all add: add.commute)
qed

text \<open>The board in the state in which the loop over the pages starts.\<close>

lemma acquire_shape:
  assumes "srv_ok api st"
  shows "srv_ok api (acquire b api v st)" "sent (acquire b api v st) = sent st"
    "ini (acquire b api v st) = ini st" "coeff (acquire b api v st) = coeff st"
    "buf_in (acquire b api v st) = buf_in st" "disconnect (acquire b api v st) = disconnect st"
  using assms
  by (auto simp: acquire_def srv_ok_def upd_hw_def Let_def split_beta)

lemma srv_ok_calib_frame: "srv_ok api st \<Longrightarrow> calib_frame st st' \<Longrightarrow> srv_ok api st'"
  unfolding calib_frame_def srv_ok_def ddata_cells_def by (cases st; cases st'; simp)

lemma calib_frame_keeps:
  "calib_frame st st' \<Longrightarrow> sent st' = sent st \<and> hw st' = hw st \<and> ret st' = ret st \<and> buf_in st' = buf_in st \<and>
     disconnect st' = disconnect st"
  unfolding calib_frame_def by (cases st; cases st'; simp)

definition calib_reply :: "('hw, 'k) drs_api \<Rightarrow> bool \<Rightarrow> nat \<Rightarrow> ('hw, 'k) srv \<Rightarrow> byte list" where
  "calib_reply api set_size chans st =
     (let flags = cmd_data st 3; st0 = acquire set_size api (page_val flags) st
      in cells16 (pages_out api chans flags (tmas_fast st0) (shift_arr st0) (coeff st0) (ini st0) 0
           (unat (cmd_data st 1)) (ddata st)))"

lemma ddata_acquire [simp]: "ddata (acquire b api v st) = ddata st"
  by (simp add: acquire_def upd_hw_def Let_def split_beta)

lemma read_calibrated_ok:
  assumes st: "srv_ok api st" and n: "unat (cmd_data st 1) \<le> max_pages (cmd_data st 3)"
  shows "\<exists>st'. cmd_read_calibrated set_size chans api st = Inr (do_send api (calib_reply api set_size chans st) st')
     \<and> srv_ok api st' \<and> sent st' = sent st \<and> disconnect st' = disconnect st"
proof -
  define flags where "flags = cmd_data st 3"
  define m where "m = unat (cmd_data st 1)"
  define st0 where "st0 = acquire set_size api (page_val flags) st"
  define out where "out = pages_out api chans flags (tmas_fast st0) (shift_arr st0) (coeff st0) (ini st0) 0 m (ddata st)"
  have ok0: "srv_ok api st0" using acquire_shape [OF st] by (simp add: st0_def)
  have n': "0 + m \<le> max_pages flags" using n by (simp add: m_def flags_def)
  have cap: "(0 + m) * page_slot flags \<le> length (tmas_fast st0)"
    using n' ok0 by (simp add: srv_ok_def SIZE_FAST_def max_pages_def page_slot_def split: if_splits)
  have dd: "ddata st0 = ddata st" "length (ddata st) = 8192"
    using st by (simp_all add: st0_def srv_ok_def ddata_cells_def)
  from calib_pages_ok [OF n' _ cap, of st0 "[]" api chans] ok0 dd obtain st' where
    st': "calib_pages api chans flags (page_val flags) 0 m st0 = Inr st'" "calib_frame st0 st'"
      "tmas_fast st' = out @ drop (m * page_slot flags) (tmas_fast st0)"
    by (auto simp: srv_ok_def shift_cells_def ddata_cells_def calib_frame_refl out_def)
  have sz: "unat (2 * 8192 * cmd_data st 1 * page_val flags) div 2 = m * page_slot flags"
  proof -
    have w: "2 * 8192 * cmd_data st 1 * page_val flags = (word_of_nat (2 * (m * page_slot flags)) :: u32)"
      using page_val_cases [of flags] by (auto simp: page_slot_def m_def)
    have "2 * (m * page_slot flags) < 2 ^ 32"
      using n' by (simp add: max_pages_def page_slot_def split: if_splits)
    then show ?thesis unfolding w by (simp only: unat_word_of_nat_u32)
  qed
  have ce: "chunkE (tmas_fast st') 0 (m * page_slot flags) = Inr out"
    using st'(3) by (simp add: chunkE_def chunk_0_take out_def length_pages_out [OF dd(2)])
  have "cmd_read_calibrated set_size chans api st = Inr (do_send api (cells16 out) st')"
    unfolding cmd_read_calibrated_def Let_def flags_def [symmetric] m_def [symmetric] sz st0_def [symmetric]
    by (simp add: st'(1) ce)
  moreover have "srv_ok api st'" using srv_ok_calib_frame [OF ok0 st'(2)] .
  moreover have "sent st' = sent st" "disconnect st' = disconnect st"
    using calib_frame_keeps [OF st'(2)] acquire_shape(2,6) [OF st] by (simp_all add: st0_def)
  ultimately show ?thesis
    by (intro exI [of _ st']) (simp add: calib_reply_def flags_def m_def st0_def out_def Let_def)
qed

lemma read_calibrated_fault:
  assumes st: "srv_ok api st" and n: "max_pages (cmd_data st 3) < unat (cmd_data st 1)"
  shows "cmd_read_calibrated set_size chans api st = Inl OutOfBounds"
proof -
  define flags where "flags = cmd_data st 3"
  define m where "m = max_pages flags"
  define st0 where "st0 = acquire set_size api (page_val flags) st"
  have ok0: "srv_ok api st0" using acquire_shape [OF st] by (simp add: st0_def)
  have cap: "(0 + m) * page_slot flags \<le> length (tmas_fast st0)"
    using ok0 by (simp add: m_def srv_ok_def SIZE_FAST_def max_pages_def page_slot_def)
  have m': "0 + m \<le> max_pages flags" by (simp add: m_def)
  from calib_pages_ok [OF m' _ cap, of st0 "[]" api chans] ok0 obtain st' where
    st': "calib_pages api chans flags (page_val flags) 0 m st0 = Inr st'" "calib_frame st0 st'"
    by (auto simp: m_def srv_ok_def shift_cells_def ddata_cells_def calib_frame_refl)
  have ok': "srv_ok api st'" using srv_ok_calib_frame [OF ok0 st'(2)] .
  obtain k where k: "unat (cmd_data st 1) = m + Suc k"
    using n by (metis add_Suc_right less_imp_Suc_add m_def flags_def)
  have "calib_page api chans flags (page_val flags) (word_of_nat m) st' = Inl OutOfBounds"
    using ok' by (intro calib_page_fault) (simp_all add: m_def srv_ok_def shift_cells_def ddata_cells_def)
  then have "calib_pages api chans flags (page_val flags) 0 (m + Suc k) st0 = Inl OutOfBounds"
    by (subst calib_pages_add) (simp add: st'(1))
  then show ?thesis
    unfolding cmd_read_calibrated_def Let_def flags_def [symmetric] st0_def [symmetric] k by simp
qed

lemma read_pages_ok:
  assumes st: "srv_ok api st"
    and n: "unat (cmd_data st 1) \<le> 16386" "max 8 (unat (cmd_data st 1) * 8192) \<le> map_len api b"
  shows "\<exists>st'. cmd_read_pages b api st = Inr (do_send api
      (cells16 (take (unat (cmd_data st 1) * 8192) (data_map api b (hw st)))) st')
     \<and> srv_ok api st' \<and> sent st' = sent st \<and> disconnect st' = disconnect st"
proof -
  define m where "m = unat (cmd_data st 1)"
  define mp where "mp = data_map api b (hw st)"
  have lm: "8 \<le> length mp" "m * 8192 \<le> length mp" using n by (simp_all add: mp_def m_def)
  have lt: "length (tmas st) = tmas_cells" using st by (simp add: srv_ok_def)
  define tm where "tm = blit (tmas st) 0 (chunk mp 0 (m * 8192))"
  have lc: "length (chunk mp 0 (m * 8192)) = m * 8192" using lm by simp
  have cp: "copy_pages mp 0 m (tmas st) = Inr tm"
    using copy_pages_spec [of 0 "tmas st" mp m] n lm lt by (simp add: m_def tm_def)
  have ltm: "length tm = tmas_cells" using lt lc n by (simp add: tm_def tmas_cells_def m_def)
  have sz: "unat (cmd_data st 1 * 0x4000) div 2 = m * 8192"
  proof -
    have w: "cmd_data st 1 * 0x4000 = (word_of_nat (m * 16384) :: u32)" by (simp add: m_def)
    have "m * 16384 < 2 ^ 32" using n by (simp add: m_def)
    then show ?thesis unfolding w by (simp only: unat_word_of_nat_u32)
  qed
  define last where "last = (if 0 < cmd_data st 1 then cmd_data st 1 - 1 else cmd_data st 1)"
  have ul: "unat last = m - 1"
    using unat_sub_small [of 1 "cmd_data st 1"]
    by (auto simp: last_def m_def word_le_nat_alt word_less_nat_alt unat_eq_0 not_less)
  have "unat last \<le> 16386" using ul n by (simp add: m_def)
  then have "cell_index last 8192 = unat last * 8192"
    using cell_index_page [of "unat last"] by simp
  then have "\<exists>d. chunkE mp (cell_index last 8192) 8 = Inr d"
    using ul lm by (cases "m = 0") (auto simp: chunkE_def)
  moreover have "chunkE tm 0 (m * 8192) = Inr (take (m * 8192) mp)"
    using n ltm lc lm by (simp add: chunkE_def chunk_0_take tm_def blit_def tmas_cells_def m_def)
  ultimately have "cmd_read_pages b api st =
      Inr (do_send api (cells16 (take (m * 8192) mp)) (st\<lparr>tmas := tm\<rparr>))"
    unfolding cmd_read_pages_def Let_def m_def [symmetric] mp_def [symmetric] sz last_def [symmetric]
    using cp by auto
  then show ?thesis
    using st ltm unfolding m_def [symmetric] mp_def [symmetric]
    by (intro exI [of _ "st\<lparr>tmas := tm\<rparr>"]) (simp add: srv_ok_def)
qed

lemma read_pages_fault:
  assumes "srv_ok api st"
    and "\<not> (unat (cmd_data st 1) \<le> 16386 \<and> max 8 (unat (cmd_data st 1) * 8192) \<le> map_len api b)"
  shows "cmd_read_pages b api st = Inl OutOfBounds"
proof (cases "unat (cmd_data st 1) = 0")
  case True
  then have "cmd_data st 1 = 0" by (simp add: unat_eq_0)
  then show ?thesis using assms by (simp add: cmd_read_pages_def Let_def cell_index_def chunkE_def)
next
  case False
  then have "8 \<le> unat (cmd_data st 1) * 8192" by simp
  then have "\<not> (unat (cmd_data st 1) \<le> 16386 \<and> unat (cmd_data st 1) * 8192 \<le> map_len api b)" using assms(2) by auto
  then show ?thesis using False assms(1) copy_pages_spec [of 0 "tmas st" "data_map api b (hw st)" "unat (cmd_data st 1)"]
    by (auto simp: cmd_read_pages_def Let_def srv_ok_def)
qed

section \<open>Every command\<close>

text \<open>A command answers: it ends with one \<open>send\<close>, from a state of the right shape.\<close>

definition answered :: "('hw, 'k) drs_api \<Rightarrow> ('hw, 'k) srv \<Rightarrow> ('hw, 'k) srv res \<Rightarrow> bool" where
  "answered api st r \<longleftrightarrow> (\<exists>reply st1. r = Inr (do_send api reply st1) \<and> srv_ok api st1 \<and>
     sent st1 = sent st \<and> disconnect st1 = disconnect st)"

lemma answeredI:
  "r = Inr (do_send api reply st1) \<Longrightarrow> srv_ok api st1 \<Longrightarrow> sent st1 = sent st \<Longrightarrow>
     disconnect st1 = disconnect st \<Longrightarrow> answered api st r"
  by (auto simp: answered_def)

lemma srv_ok_upd [simp]:
  "srv_ok api (st\<lparr>hw := h\<rparr>) = srv_ok api st"
  "srv_ok api (upd_hw f st) = srv_ok api st"
  "srv_ok api (st\<lparr>disconnect := b\<rparr>) = srv_ok api st"
  "srv_ok api (st\<lparr>coeff := k\<rparr>) = srv_ok api st"
  "srv_ok api (st\<lparr>open_fds := n\<rparr>) = srv_ok api st"
  "srv_ok api (st\<lparr>ret := r\<rparr>) = srv_ok api st"
  "srv_ok api (st\<lparr>sent := s\<rparr>) = srv_ok api st"
  by (simp_all add: srv_ok_def upd_hw_def)

lemma srv_ok_do_send [simp]: "srv_ok api (do_send api d st) = srv_ok api st"
  by (simp add: do_send_def split_beta srv_ok_def Let_def)

lemma sent_do_send [simp]: "sent (do_send api d st) = sent st @ [d]"
  by (simp add: do_send_def split_beta Let_def)

lemma ret_do_send [simp]: "\<exists>r. ret (do_send api d st) = Some r"
  by (simp add: do_send_def split_beta Let_def)

lemma sent_upd_hw [simp]: "sent (upd_hw f st) = sent st" "disconnect (upd_hw f st) = disconnect st"
  by (simp_all add: upd_hw_def)

lemma disconnect_do_send [simp]: "disconnect (do_send api d st) = disconnect st"
  by (simp add: do_send_def split_beta Let_def)

lemma answered_send: "srv_ok api st1 \<Longrightarrow> sent st1 = sent st \<Longrightarrow> disconnect st1 = disconnect st \<Longrightarrow>
    answered api st (Inr (do_send api reply st1))"
  by (auto simp: answered_def)

lemma srv_ok_ini: "srv_ok api st \<Longrightarrow> length i = ini_size api \<Longrightarrow> srv_ok api (st\<lparr>ini := i\<rparr>)"
  by (simp add: srv_ok_def)

lemma srv_ok_iniD: "srv_ok api st \<Longrightarrow> length (ini st) = ini_size api"
  by (simp add: srv_ok_def)

lemma cmd_write_answered: "srv_ok api st \<Longrightarrow> answered api st (cmd_write api st)"
  by (simp add: cmd_write_def send_val_def split_beta answered_send)

lemma cmd_read_answered: "srv_ok api st \<Longrightarrow> answered api st (cmd_read api st)"
  by (simp add: cmd_read_def send_val_def split_beta answered_send)

lemma cmd_read_drs_ok:
  assumes "srv_ok api st" "0x2000 \<le> map_len api b"
  shows "cmd_read_drs b api st = Inr (do_send api (cells16 (take 0x2000 (data_map api b (hw st))))
     (st\<lparr>mas := blit (mas st) 0 (take 0x2000 (data_map api b (hw st)))\<rparr>))"
  using assms
  by (simp add: cmd_read_drs_def srv_ok_def mas_cells_def chunkE_def blitE_def chunk_0_take blit_def)

lemma cmd_read_drs_answered:
  assumes "srv_ok api st" "0x2000 \<le> map_len api b"
  shows "answered api st (cmd_read_drs b api st)"
  by (rule answeredI [OF cmd_read_drs_ok [OF assms]])
    (use assms in \<open>simp_all add: srv_ok_def mas_cells_def\<close>)

lemma cmd_read_shift_answered: "srv_ok api st \<Longrightarrow> answered api st (cmd_read_shift b api st)"
  by (simp add: cmd_read_shift_def send_val_def split_beta answered_send)

lemma cmd_read_ini_answered: "srv_ok api st \<Longrightarrow> answered api st (cmd_read_ini api st)"
  by (simp add: cmd_read_ini_def send_val_def split_beta answered_send)

lemma cmd_write_ini_ok:
  assumes "srv_ok api st" "ini_size api \<le> SIZE_BUF_IN"
  shows "cmd_write_ini api st = Inr (send_val api 0 (st\<lparr>ini := take (ini_size api) (buf_in st)\<rparr>))"
  using assms
  by (simp add: cmd_write_ini_def srv_ok_def SIZE_BUF_IN_def chunkE_def chunk_0_take)

lemma cmd_write_ini_answered:
  assumes "srv_ok api st" "ini_size api \<le> SIZE_BUF_IN"
  shows "answered api st (cmd_write_ini api st)"
  by (rule answeredI [OF cmd_write_ini_ok [OF assms, unfolded send_val_def]])
    (use assms in \<open>simp_all add: srv_ok_def SIZE_BUF_IN_def\<close>)

lemma cmd_read_pages_answered:
  assumes "srv_ok api st" "unat (cmd_data st 1) \<le> 16386" "max 8 (unat (cmd_data st 1) * 8192) \<le> map_len api b"
  shows "answered api st (cmd_read_pages b api st)"
  using read_pages_ok [OF assms] unfolding answered_def by blast

lemma cmd_read_calibrated_answered:
  assumes "srv_ok api st" "unat (cmd_data st 1) \<le> max_pages (cmd_data st 3)"
  shows "answered api st (cmd_read_calibrated b ch api st)"
  using read_calibrated_ok [OF assms, of b ch] unfolding answered_def by blast

lemma cmd_calibrate_answered:
  assumes "srv_ok api st"
  shows "answered api st (cmd_calibrate api st)"
proof -
  show ?thesis
    unfolding cmd_calibrate_def Let_def send_val_def
    by (cases "cmd_data st 1 AND 1 = 1"; cases "cmd_data st 1 AND 2 = 2"; cases "cmd_data st 1 AND 4 = 4")
      (simp_all add: split_beta answered_send srv_ok_ini srv_ok_iniD [OF assms] assms upd_hw_def)
qed

lemma cmd_set_dac_answered: "srv_ok api st \<Longrightarrow> answered api st (cmd_set_dac api st)"
  by (simp add: cmd_set_dac_def send_val_def split_beta answered_send)

lemma cmd_ff_answered: "srv_ok api st \<Longrightarrow> answered api st (cmd_ff api st)"
  by (simp add: cmd_ff_def send_val_def split_beta answered_send)

lemma cmd_read_shifts_answered:
  "srv_ok api st \<Longrightarrow> 4 * unat (cmd_data st 1) mod 2 ^ size_bits api \<le> 4096 \<Longrightarrow> answered api st (cmd_read_shifts api st)"
  by (simp add: cmd_read_shifts_def answered_send srv_ok_def shift_cells_def chunkE_def)

lemma cmd_start_answered: "srv_ok api st \<Longrightarrow> answered api st (cmd_start api st)"
  unfolding cmd_start_def Let_def send_val_def by (rule answered_send) simp_all

lemma srv_ok_set_cmd_data: "srv_ok api st \<Longrightarrow> i < 32 \<Longrightarrow> srv_ok api (set_cmd_data i v st)"
  by (simp add: set_cmd_data_def srv_ok_def SIZE_BUF_IN_def)

lemma sent_set_cmd_data: "sent (set_cmd_data i v st) = sent st" "disconnect (set_cmd_data i v st) = disconnect st"
  by (simp_all add: set_cmd_data_def)

lemma cmd_status_answered: "srv_ok api st \<Longrightarrow> answered api st (cmd_status api st)"
  unfolding cmd_status_def Let_def split_beta
  by (rule answered_send) (simp_all add: srv_ok_set_cmd_data sent_set_cmd_data)

lemma send_ini_loop_ok:
  "srv_ok api st \<Longrightarrow> srv_ok api (snd (send_ini_loop api rs st)) \<and> ret (snd (send_ini_loop api rs st)) = ret st \<and>
     disconnect (snd (send_ini_loop api rs st)) = disconnect st"
proof (induction rs arbitrary: st)
  case Nil
  then show ?case by simp
next
  case (Cons r rs)
  then show ?case
    using Cons.IH [of "st\<lparr>hw := h, sent := sent'\<rparr>" for h sent']
    by (cases r) (auto simp: split_beta Let_def)
qed

lemma send_ini_file_ok:
  "srv_ok api st \<Longrightarrow> srv_ok api (snd (send_ini_file api st)) \<and> ret (snd (send_ini_file api st)) = ret st"
  using send_ini_loop_ok [of api "st\<lparr>open_fds := open_fds st + 1\<rparr>"] by (simp add: send_ini_file_def)

lemma dispatch_answered:
  assumes st: "srv_ok api st"
    and fits: "request_fits api (cmd_data st 0) (cmd_data st 1) (cmd_data st 3)"
    and ans: "answers (cmd_data st 0)"
  shows "answered api st (eth_dispatch api st)"
proof -
  note ok = cmd_write_answered [OF st] cmd_read_answered [OF st]
    cmd_read_shift_answered [OF st] cmd_read_ini_answered [OF st]
    cmd_calibrate_answered [OF st] cmd_set_dac_answered [OF st] cmd_ff_answered [OF st]
    cmd_start_answered [OF st] cmd_status_answered [OF st]
  note r = cmd_read_drs_answered [OF st] cmd_write_ini_answered [OF st] cmd_read_pages_answered [OF st]
    cmd_read_calibrated_answered [OF st] cmd_read_shifts_answered [OF st]
  define c where "c = cmd_data st 0"
  consider "c = 3 \<or> c = 103" | "c = 7 \<or> c = 9" | "c = 0xA \<or> c = 110" | "c = 0xC \<or> c = 0x13" | "c = 0xF"
    | "c \<in> {1, 2, 4, 104, 6, 0xB, 0xD, 0xE, 0x10, 0x12}"
    using ans by (auto simp: answers_def c_def)
  then show ?thesis
  proof cases
    case 6
    then show ?thesis
      using ok by (auto simp: eth_dispatch_def Let_def simp flip: c_def)
  qed (use fits r in \<open>auto simp: request_fits_def eth_dispatch_def Let_def simp flip: c_def\<close>)
qed

section \<open>Requests\<close>

lemma handle_answered:
  assumes "answered api st (eth_dispatch api st)"
  shows "\<exists>st' reply. eth_handle api st = Inr st' \<and> srv_ok api st' \<and> ret st' \<noteq> None \<and>
    sent st' = sent st @ [reply] \<and> disconnect st' = disconnect st"
  using assms by (auto simp: answered_def eth_handle_def)

lemma dispatch_silent:
  assumes "\<not> answers (cmd_data st 0)" "srv_ok api st"
  shows "\<exists>st'. eth_dispatch api st = Inr st' \<and> srv_ok api st' \<and> ret st' = ret st"
  using assms send_ini_file_ok [OF assms(2)]
  by (auto simp: answers_def eth_dispatch_def Let_def cmd_read_ini_file_def)

lemma request_ok:
  assumes "srv_ok api st"
    and "request_fits api (cmd_data st 0) (cmd_data st 1) (cmd_data st 3)"
    and "answers (cmd_data st 0) \<or> ret st \<noteq> None"
  shows "\<exists>st'. eth_handle api st = Inr st' \<and> srv_ok api st' \<and> ret st' \<noteq> None \<and>
    (if answers (cmd_data st 0) then \<exists>reply. sent st' = sent st @ [reply] else ret st' = ret st)"
proof (cases "answers (cmd_data st 0)")
  case True
  then show ?thesis using handle_answered [OF dispatch_answered [OF assms(1,2)]] by auto
next
  case False
  with dispatch_silent [OF False assms(1)] assms(3) show ?thesis
    by (auto simp: eth_handle_def)
qed

lemma request_fault:
  assumes "srv_ok api st"
    and "\<not> request_fits api (cmd_data st 0) (cmd_data st 1) (cmd_data st 3)"
  shows "eth_handle api st = Inl OutOfBounds"
proof -
  have drs: "cmd_read_drs b api st = Inl OutOfBounds" if "\<not> 0x2000 \<le> map_len api b" for b
    using that by (simp add: cmd_read_drs_def chunkE_def)
  have ini: "cmd_write_ini api st = Inl OutOfBounds" if "\<not> ini_size api \<le> SIZE_BUF_IN"
    using that assms(1) by (simp add: cmd_write_ini_def chunkE_def srv_ok_def)
  have sh: "cmd_read_shifts api st = Inl OutOfBounds" if "\<not> 4 * unat (cmd_data st 1) mod 2 ^ size_bits api \<le> 4096"
    using that assms(1) by (simp add: cmd_read_shifts_def chunkE_def srv_ok_def shift_cells_def)
  have "eth_dispatch api st = Inl OutOfBounds"
    using assms(2) drs ini sh read_pages_fault [OF assms(1)] read_calibrated_fault [OF assms(1)]
    by (auto simp: request_fits_def eth_dispatch_def Let_def not_le split: if_splits)
  then show ?thesis by (simp add: eth_handle_def)
qed

section \<open>Sessions\<close>

text \<open>A request of at least four words overwrites every argument the page commands read.\<close>

definition frame_ok :: "('hw, 'k) drs_api \<Rightarrow> byte list \<Rightarrow> bool" where
  "frame_ok api d \<longleftrightarrow> 16 \<le> length d \<and> length d \<le> 128 \<and>
     request_fits api (u32_at d 0) (u32_at d 1) (u32_at d 3) \<and> answers (u32_at d 0)"

lemma cmd_data_blit:
  assumes "length d \<le> length (buf_in st)" "4 * i + 4 \<le> length d"
  shows "cmd_data (st\<lparr>buf_in := blit (buf_in st) 0 d\<rparr>) i = u32_at d i"
  using assms u32_at_append [of i d "drop (length d) (buf_in st)"]
  by (simp add: cmd_data_def blit_def)

lemma recv_frame:
  assumes st: "srv_ok api st" and d: "frame_ok api d"
  shows "\<exists>st' reply. eth_recv api (RecvBytes d) st = Inr st' \<and> srv_ok api st' \<and> ret st' \<noteq> None \<and>
    sent st' = sent st @ [reply] \<and> disconnect st' = disconnect st"
proof -
  let ?st = "st\<lparr>buf_in := blit (buf_in st) 0 d\<rparr>"
  have len: "length d \<le> length (buf_in st)" "16 \<le> length d"
    using st d by (simp_all add: srv_ok_def SIZE_BUF_IN_def frame_ok_def)
  have c: "cmd_data ?st 0 = u32_at d 0" "cmd_data ?st 1 = u32_at d 1" "cmd_data ?st 3 = u32_at d 3"
    using cmd_data_blit [of d st 0] cmd_data_blit [of d st 1] cmd_data_blit [of d st 3] len by simp_all
  have st1: "srv_ok api ?st" using st len by (simp add: srv_ok_def)
  have f: "request_fits api (cmd_data ?st 0) (cmd_data ?st 1) (cmd_data ?st 3)" "answers (cmd_data ?st 0)"
    using d unfolding c frame_ok_def by simp_all
  have "d \<noteq> []" using len by auto
  then have "eth_recv api (RecvBytes d) st = eth_handle api ?st" using len by (simp add: eth_recv_def)
  with handle_answered [OF dispatch_answered [OF st1 f]] show ?thesis by simp
qed

text \<open>A client that only sends such requests gets one answer for each, in order.\<close>

lemma eth_session_disconnected: "disconnect st \<Longrightarrow> eth_session api evs st = Inr st"
  by (cases evs) simp_all

lemma session_answers:
  "srv_ok api st \<Longrightarrow> \<not> disconnect st \<Longrightarrow> list_all (frame_ok api) ds \<Longrightarrow>
    \<exists>st' replies. eth_session api (map RecvBytes ds) st = Inr st' \<and> srv_ok api st' \<and>
      sent st' = sent st @ replies \<and> length replies = length ds \<and> \<not> disconnect st'"
proof (induction ds arbitrary: st)
  case Nil
  then show ?case by simp
next
  case (Cons d ds)
  then have d: "frame_ok api d" by simp
  from recv_frame [OF Cons.prems(1) d] obtain st1 reply where
    st1: "eth_recv api (RecvBytes d) st = Inr st1" "srv_ok api st1" "sent st1 = sent st @ [reply]"
      "disconnect st1 = disconnect st" by blast
  from Cons.IH [of st1] st1 Cons.prems obtain st' replies where
    "eth_session api (map RecvBytes ds) st1 = Inr st'" "srv_ok api st'" "sent st' = sent st1 @ replies"
      "length replies = length ds" "\<not> disconnect st'" by auto
  then show ?case using st1 Cons.prems(2)
    by (intro exI [of _ st'] exI [of _ "reply # replies"]) simp
qed

lemma session_append:
  "eth_session api (evs @ evs') st = bindE (eth_session api evs st) (eth_session api evs')"
proof (induction evs arbitrary: st)
  case Nil
  then show ?case by simp
next
  case (Cons ev evs)
  then show ?case
    by (cases "eth_recv api ev st") (simp_all add: eth_session_disconnected)
qed

lemma session_recv_error: "eth_session api (replicate n RecvError) st = Inr st"
  by (induction n) (simp_all add: eth_recv_def)

end
