(* ===== verification/EthClaims.thy ===== *)
theory EthClaims
  imports EthProps
begin

text \<open>
  The properties of the acquisition server, and a concrete board on which each of them applies: a
  register file, memory maps of constant cells, calibration routines of constant results, a 32-bit \<open>size_t\<close> and
  parameters of the size of the packed \<open>parameter_t\<close> of \<open>tests/ethernet_test.h\<close>.
\<close>

section \<open>A concrete board\<close>

type_synonym demo_hw = "u32 \<Rightarrow> u32"

definition demo_api :: "(demo_hw, unit) drs_api" where
  "demo_api = \<lparr>ini_size = 200, size_bits = 32,
     map_len = (\<lambda>b. tmas_cells), map_cell = (\<lambda>b h i. if b then 2 else 1),
     rd_reg = (\<lambda>a h. (h a, h)), wr_reg = (\<lambda>a v h. h(a := v)),
     shift_map = (\<lambda>b h. 5),
     net_send = (\<lambda>d h. (int (length d), h)),
     ini_open = (\<lambda>h. True), ini_reads = (\<lambda>h. [Some [91, 97, 93]]),
     set_num_pages = (\<lambda>n h. h), set_size_samples = (\<lambda>n h. h),
     once_get = (\<lambda>tf sh h. (tf, sh, h)), read_n_pages = (\<lambda>tf sh n s h. (tf, sh, h)),
     do_calibrate = (\<lambda>b d s k m c f i. replicate (length d) 7),
     get_x_array = (\<lambda>d s k f. replicate (length d) 9),
     calibrate_amplitude = (\<lambda>k l n s i c h. (1, k, i, h)),
     time_calibration = (\<lambda>n k i h. (1, k, i, h)), global_time_calibration = (\<lambda>n k i h. (1, k, i, h)),
     set_shift_all_dac = (\<lambda>s i h. h), set_dac = (\<lambda>n h. h),
     ini_load = (\<lambda>h i. (i, h)), init_mem = (\<lambda>h. (0, h)), memw = (\<lambda>a v h. h),
     drs_init = (\<lambda>i h. (i, h)), deinit_mem = (\<lambda>h. h)\<rparr>"

definition demo_srv :: "(demo_hw, unit) srv" where
  "demo_srv = \<lparr>hw = (\<lambda>a. 0), buf_in = replicate 128 0, mas = replicate mas_cells 0,
     tmas = replicate tmas_cells 0, tmas_fast = replicate SIZE_FAST 0,
     shift_arr = replicate shift_cells 0, ddata = replicate ddata_cells 0, coeff = (),
     ini = replicate 200 0, ret = None, sent = [], open_fds = 0, disconnect = False\<rparr>"

text \<open>A request: the words, as the client sends them.\<close>

definition request :: "u32 list \<Rightarrow> byte list" where
  "request ws = cells32 ws"

lemma demo_ok: "srv_ok demo_api demo_srv"
  by (simp add: srv_ok_def demo_srv_def demo_api_def SIZE_BUF_IN_def)

lemma demo_sizes [simp]: "ini_size demo_api = 200" "size_bits demo_api = 32" "map_len demo_api b = tmas_cells"
  by (simp_all add: demo_api_def)

lemma u32_at_request: "i < length ws \<Longrightarrow> u32_at (request ws) i = ws ! i"
proof (induction ws arbitrary: i)
  case Nil
  then show ?case by simp
next
  case (Cons w ws)
  show ?case
  proof (cases i)
    case 0
    then show ?thesis
      by (intro u32_at_le_bytes) (simp add: request_def cells32_def chunk_def)
  next
    case (Suc j)
    then have "u32_at (request (w # ws)) i = u32_at (request ws) j"
      by (simp add: u32_at_def request_def cells32_def chunk_def)
    then show ?thesis using Cons Suc by simp
  qed
qed

lemma length_request [simp]: "length (request ws) = 4 * length ws"
  by (simp add: request_def)

definition with_request :: "u32 list \<Rightarrow> ('hw, 'k) srv \<Rightarrow> ('hw, 'k) srv" where
  "with_request ws st = st\<lparr>buf_in := blit (buf_in st) 0 (request ws)\<rparr>"

lemma cmd_data_with_request:
  "4 * length ws \<le> length (buf_in st) \<Longrightarrow> i < length ws \<Longrightarrow> cmd_data (with_request ws st) i = ws ! i"
  using cmd_data_blit [of "request ws" st i] by (simp add: with_request_def u32_at_request)

lemma srv_ok_with_request:
  "srv_ok api st \<Longrightarrow> length ws \<le> 32 \<Longrightarrow> srv_ok api (with_request ws st)"
  by (simp add: with_request_def srv_ok_def SIZE_BUF_IN_def)

lemma recv_request:
  assumes "ws \<noteq> []" "4 * length ws \<le> length (buf_in st)"
  shows "eth_recv api (RecvBytes (request ws)) st = eth_handle api (with_request ws st)"
proof -
  have "request ws \<noteq> []" using assms(1) length_request [of ws] by (metis length_0_conv mult_is_0 zero_neq_numeral)
  then show ?thesis using assms(2) by (simp add: eth_recv_def with_request_def)
qed

lemma handle_write:
  "cmd_data st 0 = 1 \<Longrightarrow>
     eth_handle api st = Inr (send_val api 0 (upd_hw (wr_reg api (cmd_data st 1) (cmd_data st 2)) st))"
  by (simp add: eth_handle_def eth_dispatch_def cmd_write_def send_val_def)

lemma handle_read:
  "cmd_data st 0 = 2 \<Longrightarrow>
     eth_handle api st = Inr (send_val api (fst (rd_reg api (cmd_data st 1) (hw st)))
       (st\<lparr>hw := snd (rd_reg api (cmd_data st 1) (hw st))\<rparr>))"
  by (simp add: eth_handle_def eth_dispatch_def cmd_read_def send_val_def split_beta)

lemma demo_with_request:
  "length ws \<le> 32 \<Longrightarrow> srv_ok demo_api (with_request ws demo_srv)"
  "length ws \<le> 32 \<Longrightarrow> i < length ws \<Longrightarrow> cmd_data (with_request ws demo_srv) i = ws ! i"
  using srv_ok_with_request [OF demo_ok] cmd_data_with_request [of ws demo_srv i]
  by (simp_all add: demo_srv_def)

section \<open>Properties\<close>

text \<open>
  C1: a request that fits (its page or shift count, the memory map and the parameters stay inside the buffers of the
  command) is handled without any out-of-bounds access, on any board, and leaves every buffer of the server at its size.
  A command that answers hands exactly one reply to \<open>send\<close>; command 8 and an unknown one leave \<open>ret\<close> as it is, which an
  earlier request must have assigned.
\<close>

theorem eth_request_safe:
  assumes "srv_ok api st"
    and "request_fits api (cmd_data st 0) (cmd_data st 1) (cmd_data st 3)"
    and "answers (cmd_data st 0) \<or> ret st \<noteq> None"
  shows "\<exists>st'. eth_handle api st = Inr st' \<and> srv_ok api st' \<and> ret st' \<noteq> None \<and>
    (if answers (cmd_data st 0) then \<exists>reply. sent st' = sent st @ [reply] else ret st' = ret st)"
  using request_ok [OF assms] .

theorem eth_request_safe_witness:
  "\<exists>st'. eth_handle demo_api (with_request [0xC, 1000, 0, 24] demo_srv) = Inr st' \<and> srv_ok demo_api st' \<and>
     ret st' \<noteq> None \<and> (\<exists>reply. sent st' = [reply])"
proof -
  let ?st = "with_request [0xC, 1000, 0, 24] demo_srv"
  have c: "cmd_data ?st 0 = 0xC" "cmd_data ?st 1 = 1000" "cmd_data ?st 3 = 24"
    using demo_with_request(2) [of "[0xC, 1000, 0, 24]"] by simp_all
  have f: "request_fits demo_api (0xC :: u32) 1000 24" "answers 0xC"
    by (simp_all add: request_fits_def max_pages_def page_val_def answers_def)
  have "sent ?st = []" by (simp add: with_request_def demo_srv_def)
  then show ?thesis
    using eth_request_safe [OF demo_with_request(1), of "[0xC, 1000, 0, 24]"] f
    unfolding c by simp
qed

text \<open>
  C3: the bounds are exact, on any board: an answering request runs out of a buffer if and only if it reads a page (3, 103)
  from a shorter memory map, stores parameters (7, 9) of more than the 128 bytes of the request buffer, asks for more than
  16386 pages (0xA, 110) or for pages outside the memory map, for more than 1024 or, with X values, 1000 calibrated pages
  (0xC, 0x13), or for a number of shifts (0xF) whose size in bytes, a \<open>size_t\<close> that wraps, exceeds the array's.
\<close>

theorem eth_request_fault_iff:
  assumes "srv_ok api st" "answers (cmd_data st 0)"
  shows "eth_handle api st = Inl OutOfBounds \<longleftrightarrow>
    \<not> (let c = cmd_data st 0; n = unat (cmd_data st 1) in
        if c \<in> {3, 103} then 0x2000 \<le> map_len api (c = 103)
        else if c \<in> {7, 9} then ini_size api \<le> 128
        else if c \<in> {0xA, 110} then n \<le> 16386 \<and> max 8 (n * 8192) \<le> map_len api (c = 110)
        else if c \<in> {0xC, 0x13} then n \<le> (if cmd_data st 3 AND 24 \<noteq> 0 then 1000 else 1024)
        else if c = 0xF then 4 * n mod 2 ^ size_bits api \<le> 4096 else True)"
proof -
  have "eth_handle api st = Inl OutOfBounds \<longleftrightarrow> \<not> request_fits api (cmd_data st 0) (cmd_data st 1) (cmd_data st 3)"
    using request_fault [OF assms(1)] request_ok [OF assms(1)] assms(2) by force
  then show ?thesis by (simp add: request_fits_def max_pages_def page_val_def SIZE_BUF_IN_def Let_def)
qed

theorem eth_request_fault_iff_witness:
  "eth_handle demo_api (with_request [0xA, 16387] demo_srv) = Inl OutOfBounds \<and>
   eth_handle demo_api (with_request [7] demo_srv) = Inl OutOfBounds \<and>
   eth_handle demo_api (with_request [0xF, 0x40000001] demo_srv) \<noteq> Inl OutOfBounds"
proof -
  have c: "cmd_data (with_request [0xA, 16387] demo_srv) 0 = 0xA" "cmd_data (with_request [0xA, 16387] demo_srv) 1 = 16387"
    "cmd_data (with_request [7] demo_srv) 0 = 7"
    "cmd_data (with_request [0xF, 0x40000001] demo_srv) 0 = 0xF"
    "cmd_data (with_request [0xF, 0x40000001] demo_srv) 1 = 0x40000001"
    using demo_with_request(2) [of "[0xA, 16387]"] demo_with_request(2) [of "[7]"]
      demo_with_request(2) [of "[0xF, 0x40000001]"] by simp_all
  have a: "answers 0xA" "answers 7" "answers 0xF" by (simp_all add: answers_def)
  note f = eth_request_fault_iff [OF demo_with_request(1)]
  show ?thesis
    using f [of "[0xA, 16387]"] f [of "[7]"] f [of "[0xF, 0x40000001]"] a
    by (simp add: c c [unfolded One_nat_def] Let_def)
qed

text \<open>
  C5: a session in which the client sends requests of at least four words that fit and are
  answered, and then closes the connection, ends without a fault with the connection closed and
  with one reply for every request, in order.
\<close>

theorem eth_session_one_reply_each:
  assumes "srv_ok api st" "\<not> disconnect st" "list_all (frame_ok api) ds"
  shows "\<exists>st' replies. eth_session api (map RecvBytes ds @ [RecvBytes []]) st = Inr st' \<and>
    srv_ok api st' \<and> disconnect st' \<and> sent st' = sent st @ replies \<and> length replies = length ds"
proof -
  from session_answers [OF assms] obtain st1 replies where
    s: "eth_session api (map RecvBytes ds) st = Inr st1" "srv_ok api st1" "sent st1 = sent st @ replies"
      "length replies = length ds" "\<not> disconnect st1" by blast
  then show ?thesis
    by (intro exI [of _ "st1\<lparr>disconnect := True\<rparr>"] exI [of _ replies]) (simp add: session_append eth_recv_def)
qed

lemma frame_ok_request:
  assumes "4 \<le> length ws" "length ws \<le> 32" "request_fits api (ws ! 0) (ws ! 1) (ws ! 3)" "answers (ws ! 0)"
  shows "frame_ok api (request ws)"
proof -
  have "u32_at (request ws) i = ws ! i" if "i < 4" for i
    using that assms(1) by (intro u32_at_request) simp
  then show ?thesis using assms by (simp add: frame_ok_def)
qed

theorem eth_session_one_reply_each_witness:
  "\<exists>st' replies. eth_session demo_api (map RecvBytes [request [1, 5, 6, 0], request [0xF, 1024, 0, 0]] @
     [RecvBytes []]) demo_srv = Inr st' \<and> disconnect st' \<and> sent st' = replies \<and> length replies = 2"
proof -
  have "frame_ok demo_api (request [1, 5, 6, 0])" "frame_ok demo_api (request [0xF, 1024, 0, 0])"
    by (rule frame_ok_request; simp add: request_fits_def answers_def)+
  moreover have "\<not> disconnect demo_srv" "sent demo_srv = []" by (simp_all add: demo_srv_def)
  ultimately show ?thesis
    using eth_session_one_reply_each [OF demo_ok, of "[request [1, 5, 6, 0], request [0xF, 1024, 0, 0]]"]
    by (auto simp del: eth_session.simps)
qed

text \<open>
  C7: the commands 0xA and 110 send back exactly the first \<open>cmd_data[1]\<close> pages (of 8192 16-bit
  cells, little-endian) of the board's memory map, when \<open>tmas\<close> and the map hold as many.
\<close>

theorem eth_read_pages_reply:
  assumes "srv_ok api st" "cmd_data st 0 = (if b then 110 else 0xA)"
    and "unat (cmd_data st 1) \<le> 16386" "max 8 (unat (cmd_data st 1) * 8192) \<le> map_len api b"
  shows "\<exists>st'. eth_handle api st = Inr st' \<and> srv_ok api st' \<and>
    sent st' = sent st @ [cells16 (map (map_cell api b (hw st)) [0..<unat (cmd_data st 1) * 8192])]"
proof -
  have "eth_dispatch api st = cmd_read_pages b api st"
    using assms(2) by (cases b) (simp_all add: eth_dispatch_def Let_def)
  moreover have "take (unat (cmd_data st 1) * 8192) (data_map api b (hw st)) =
      map (map_cell api b (hw st)) [0..<unat (cmd_data st 1) * 8192]"
    using assms(4) by (simp add: data_map_def take_map)
  ultimately show ?thesis
    using read_pages_ok [OF assms(1,3,4)] by (auto simp: eth_handle_def)
qed

theorem eth_read_pages_reply_witness:
  "\<exists>st'. eth_handle demo_api (with_request [110, 2] demo_srv) = Inr st' \<and>
     sent st' = [cells16 (replicate 16384 2)]"
proof -
  let ?st = "with_request [110, 2] demo_srv"
  have c: "cmd_data ?st 0 = 110" "cmd_data ?st 1 = 2"
    using demo_with_request(2) [of "[110, 2]"] by simp_all
  have "map (map_cell demo_api True (hw ?st)) [0..<16384] = replicate 16384 2" "sent ?st = []"
    by (simp_all add: demo_api_def with_request_def demo_srv_def map_replicate_const del: upt_rec_numeral)
  then show ?thesis
    using eth_read_pages_reply [OF demo_with_request(1), of "[110, 2]" True] c
    by (auto simp: tmas_cells_def simp del: upt_rec_numeral)
qed

text \<open>
  C2: the commands 0xC and 0x13 send, for every page in order, the calibrated doubles of that page
  and, when asked for, its X values, each computed from the data as they were acquired (\<open>tmas_fast st0\<close>): calibrating
  the pages in place in \<open>tmasFast\<close> never overwrites a page that is still to be read.  The array \<open>ddata\<close> reaches
  each page as the page before left it.
\<close>

theorem eth_read_calibrated_reply:
  assumes "srv_ok api st" "cmd_data st 0 = (if b then 0x13 else 0xC)"
    and "unat (cmd_data st 1) \<le> max_pages (cmd_data st 3)"
  defines "st0 \<equiv> acquire b api (page_val (cmd_data st 3)) st"
  shows "\<exists>st'. eth_handle api st = Inr st' \<and> srv_ok api st' \<and>
    sent st' = sent st @ [cells16 (pages_out api (if b then 4 else 8) (cmd_data st 3) (tmas_fast st0) (shift_arr st0)
      (coeff st0) (ini st0) 0 (unat (cmd_data st 1)) (ddata st))]"
proof -
  have "eth_dispatch api st = cmd_read_calibrated b (if b then 4 else 8) api st"
    using assms(2) by (cases b) (simp_all add: eth_dispatch_def Let_def)
  then show ?thesis
    using read_calibrated_ok [OF assms(1,3), of b "if b then 4 else 8"]
    by (auto simp: eth_handle_def calib_reply_def st0_def Let_def)
qed

theorem eth_read_calibrated_reply_witness:
  "\<exists>st'. eth_handle demo_api (with_request [0x13, 2, 1, 8] demo_srv) = Inr st' \<and>
     sent st' = [cells16 (concat (replicate 2 (double_cells (replicate 8192 7) @ double_cells (replicate 8192 9))))]"
proof -
  let ?st = "with_request [0x13, 2, 1, 8] demo_srv"
  have c: "cmd_data ?st 0 = 0x13" "cmd_data ?st 1 = 2" "cmd_data ?st 3 = 8"
    using demo_with_request(2) [of "[0x13, 2, 1, 8]"] by simp_all
  have v: "page_val (8 :: u32) = 8" by (simp add: page_val_def)
  have p: "page_cells demo_api 4 8 raw dd sh k i =
      double_cells (replicate 8192 7) @ double_cells (replicate 8192 9)" if "length dd = 8192" for raw dd sh k i
    using that by (simp add: page_cells_def page_calib_def page_x_def refill_def v demo_api_def Let_def)
  have l: "length (ddata ?st) = 8192" "sent ?st = []" by (simp_all add: with_request_def demo_srv_def ddata_cells_def)
  have "pages_out demo_api 4 8 tf sh k i 0 2 (ddata ?st) =
      concat (replicate 2 (double_cells (replicate 8192 7) @ double_cells (replicate 8192 9)))" for tf sh k i
    using l by (simp add: numeral_2_eq_2 Let_def p)
  then show ?thesis
    using eth_read_calibrated_reply [OF demo_with_request(1), of "[0x13, 2, 1, 8]" True] c l
    by (auto simp: max_pages_def v)
qed

text \<open>
  the commands 7 ("write ini") and 9 ("write ini file") store the request from its first byte
  on, so the parameters begin with the command word itself, and neither touches the board or a
  file: apart from the \<open>send\<close> of the answer the outside is as before.
\<close>

theorem eth_write_ini_keeps_command_word:
  assumes "srv_ok api st" "ini_size api \<le> SIZE_BUF_IN" "cmd_data st 0 = 7 \<or> cmd_data st 0 = 9" "4 \<le> ini_size api"
  shows "\<exists>st'. eth_handle api st = Inr st' \<and> ini st' = take (ini_size api) (buf_in st) \<and>
    u32_at (ini st') 0 = cmd_data st 0 \<and> hw st' = snd (net_send api (le_bytes 4 0) (hw st)) \<and>
    sent st' = sent st @ [le_bytes 4 0]"
proof -
  have d: "eth_dispatch api st = Inr (send_val api 0 (st\<lparr>ini := take (ini_size api) (buf_in st)\<rparr>))"
    using assms(3) cmd_write_ini_ok [OF assms(1,2)] by (auto simp: eth_dispatch_def Let_def)
  then have e: "eth_handle api st = Inr (send_val api 0 (st\<lparr>ini := take (ini_size api) (buf_in st)\<rparr>))"
    by (simp add: eth_handle_def send_val_def)
  have "u32_at (take (ini_size api) (buf_in st)) 0 = cmd_data st 0"
    unfolding u32_at_def cmd_data_def chunk_def mult_0_right drop_0 take_take
    by (simp only: min_absorb1 [OF assms(4)])
  moreover have "ini (send_val api 0 s) = ini s" "hw (send_val api 0 s) = snd (net_send api (le_bytes 4 0) (hw s))"
    "sent (send_val api 0 s) = sent s @ [le_bytes 4 0]" for s :: "('a, 'b) srv"
    unfolding send_val_def do_send_def by (simp_all add: Let_def split_beta)
  ultimately show ?thesis unfolding e by simp
qed

theorem eth_write_ini_keeps_command_word_witness:
  "\<exists>st'. eth_handle (demo_api\<lparr>ini_size := 64\<rparr>) (with_request [9, 100] (demo_srv\<lparr>ini := replicate 64 0\<rparr>)) = Inr st' \<and>
     u32_at (ini st') 0 = 9"
proof -
  let ?st = "with_request [9, 100] (demo_srv\<lparr>ini := replicate 64 0\<rparr>)"
  have "cmd_data ?st 0 = 9"
    using cmd_data_with_request [of "[9, 100]" "demo_srv\<lparr>ini := replicate 64 0\<rparr>" 0] by (simp add: demo_srv_def)
  moreover have "srv_ok (demo_api\<lparr>ini_size := 64\<rparr>) ?st"
    by (rule srv_ok_with_request) (simp_all add: srv_ok_def demo_srv_def SIZE_BUF_IN_def)
  ultimately show ?thesis
    using eth_write_ini_keeps_command_word [of "demo_api\<lparr>ini_size := 64\<rparr>" ?st] by (auto simp: SIZE_BUF_IN_def)
qed

text \<open>
  a request shorter than its arguments is executed with the arguments the previous request left
  in the buffer: the single word 2 reads the register that the last request named.
\<close>

theorem eth_short_request_reuses_arguments:
  assumes "srv_ok api st"
  shows "\<exists>st'. eth_recv api (RecvBytes (request [2])) st = Inr st' \<and>
    sent st' = sent st @ [le_bytes 4 (unat (fst (rd_reg api (cmd_data st 1) (hw st))))]"
proof -
  let ?s = "with_request [2] st"
  have lb: "length (buf_in st) = 128" using assms by (simp add: srv_ok_def SIZE_BUF_IN_def)
  have c0: "cmd_data ?s 0 = 2" using cmd_data_with_request [of "[2]" st 0] lb by simp
  have c1: "cmd_data ?s 1 = cmd_data st 1"
    using lb by (simp add: cmd_data_def u32_at_def with_request_def chunk_def blit_def)
  have "hw ?s = hw st" "sent ?s = sent st" by (simp_all add: with_request_def)
  then show ?thesis
    using recv_request [of "[2]" st] lb handle_read [OF c0] c1 by (simp add: send_val_def)
qed

theorem eth_short_request_reuses_arguments_witness:
  "\<exists>st'. eth_recv demo_api (RecvBytes (request [2])) (with_request [1, 3, 4] demo_srv) = Inr st' \<and>
     sent st' = [le_bytes 4 0]"
proof -
  have "sent (with_request [1, 3, 4] demo_srv) = []" "rd_reg demo_api a (hw (with_request [1, 3, 4] demo_srv)) =
      (0, hw demo_srv)" for a
    by (simp_all add: with_request_def demo_srv_def demo_api_def)
  then show ?thesis
    using eth_short_request_reuses_arguments [OF demo_with_request(1), of "[1, 3, 4]"] by simp
qed

text \<open>
  a connection on which \<open>recv\<close> fails is never closed: after any number of failures the loop is
  in the state it was in, still connected, and goes on with the events that follow.
\<close>

theorem eth_recv_error_never_disconnects:
  "eth_session api (replicate n RecvError @ evs) st = eth_session api evs st \<and>
   eth_session api (replicate n RecvError) (st\<lparr>disconnect := False\<rparr>) = Inr (st\<lparr>disconnect := False\<rparr>)"
  by (simp add: session_append session_recv_error)

text \<open>
  a client whose first request is one that sends no \<open>ret\<close>-assigning answer (the ini file, or an
  unknown command) makes the server test the uninitialised \<open>ret\<close>.
\<close>

theorem eth_first_silent_request_reads_uninit:
  assumes "srv_ok api st" "ret st = None" "\<not> answers (cmd_data st 0)"
  shows "eth_handle api st = Inl Uninit"
  using dispatch_silent [OF assms(3,1)] assms(2) by (auto simp: eth_handle_def)

theorem eth_first_silent_request_reads_uninit_witness:
  "eth_handle demo_api (with_request [8] demo_srv) = Inl Uninit"
proof -
  have "cmd_data (with_request [8] demo_srv) 0 = 8" "ret (with_request [8] demo_srv) = None"
    using demo_with_request(2) [of "[8]"] by (simp_all add: with_request_def demo_srv_def)
  then show ?thesis
    using eth_first_silent_request_reads_uninit [OF demo_with_request(1), of "[8]"]
    by (simp add: answers_def)
qed

end
