(* ===== verification/Codec.thy ===== *)
theory Codec
  imports Prelude
begin

text \<open>
  The contract of a text encoding: a decoder that may refuse its input recovers every encoded
  value.  The clients are the functions that store or send encoded values and compare them as
  text; what they rely on is proved here once, for every encoding of the library.
\<close>

locale codec =
  fixes enc :: "'v \<Rightarrow> 't"
    and dec :: "'t \<Rightarrow> 'v option"
    and valid :: "'v \<Rightarrow> bool"
  assumes dec_enc: "valid v \<Longrightarrow> dec (enc v) = Some v"
begin

lemma enc_eq_iff: "valid v \<Longrightarrow> valid w \<Longrightarrow> enc v = enc w \<longleftrightarrow> v = w"
  by (metis dec_enc option.inject)

lemma decode_list:
  "list_all valid vs \<Longrightarrow> map dec (map enc vs) = map Some vs"
  by (induction vs) (simp_all add: dec_enc)

text \<open>Looking a value up by its text finds the value stored under it.\<close>

lemma map_of_enc:
  assumes "list_all valid (map fst kvs)" "valid k"
  shows "map_of (map (\<lambda>(k, x). (enc k, x)) kvs) (enc k) = map_of kvs k"
  using assms
proof (induction kvs)
  case (Cons kv kvs)
  obtain k' x where kv: "kv = (k', x)" by (cases kv) auto
  then show ?case using Cons enc_eq_iff [of k' k] by auto
qed simp

end

end
