(* ===== verification/CString.thy ===== *)
theory CString
  imports Prelude "HOL-Library.List_Lexorder"
begin

text \<open>
  The functions of \<open>string.h\<close>, \<open>ctype.h\<close> and \<open>stdlib.h\<close> the components call, on C strings given as
  the list of their bytes before the terminating NUL (so no byte of a string is 0).  Characters
  are classified as in the C locale.
\<close>

type_synonym cstr = "byte list"

definition ascii :: "string \<Rightarrow> cstr" where
  "ascii s = map of_char s"

definition cstr_ok :: "cstr \<Rightarrow> bool" where
  "cstr_ok s \<longleftrightarrow> 0 \<notin> set s"

text \<open>The string that starts a range of bytes.\<close>

definition buf_text :: "byte list \<Rightarrow> cstr" where
  "buf_text b = takeWhile (\<lambda>c. c \<noteq> 0) b"

text \<open>\<open>strcmp\<close> compares as \<open>unsigned char\<close>; the shorter string ends with NUL, which is least.\<close>

fun strcmp :: "cstr \<Rightarrow> cstr \<Rightarrow> int" where
  "strcmp [] [] = 0"
| "strcmp [] (b # bs) = - uint b"
| "strcmp (a # as) [] = uint a"
| "strcmp (a # as) (b # bs) = (if a = b then strcmp as bs else uint a - uint b)"

lemma uint_pos: "(b :: byte) \<noteq> 0 \<Longrightarrow> 0 < uint b"
  using uint_0_iff [of b] by (simp add: order.not_eq_order_implies_strict)

lemma strcmp_less: "cstr_ok a \<Longrightarrow> cstr_ok b \<Longrightarrow> strcmp a b < 0 \<longleftrightarrow> a < b"
  by (induction a b rule: strcmp.induct)
    (auto simp: cstr_ok_def uint_pos word_less_def not_less intro: less_imp_le)

lemma strcmp_eq: "cstr_ok a \<Longrightarrow> cstr_ok b \<Longrightarrow> strcmp a b = 0 \<longleftrightarrow> a = b"
  by (induction a b rule: strcmp.induct)
    (use uint_pos in \<open>force simp: cstr_ok_def word_uint_eq_iff\<close>)+

lemma strcmp_greater: "cstr_ok a \<Longrightarrow> cstr_ok b \<Longrightarrow> 0 < strcmp a b \<longleftrightarrow> b < a"
  using strcmp_less strcmp_eq by (metis linorder_neqE not_less_iff_gr_or_eq less_irrefl)

text \<open>\<open>ctype.h\<close>.\<close>

definition isupper :: "byte \<Rightarrow> bool" where
  "isupper c \<longleftrightarrow> 0x41 \<le> c \<and> c \<le> 0x5a"

definition islower :: "byte \<Rightarrow> bool" where
  "islower c \<longleftrightarrow> 0x61 \<le> c \<and> c \<le> 0x7a"

definition isdigit :: "byte \<Rightarrow> bool" where
  "isdigit c \<longleftrightarrow> 0x30 \<le> c \<and> c \<le> 0x39"

definition isalpha :: "byte \<Rightarrow> bool" where
  "isalpha c \<longleftrightarrow> isupper c \<or> islower c"

definition isspace :: "byte \<Rightarrow> bool" where
  "isspace c \<longleftrightarrow> c = 0x20 \<or> 0x09 \<le> c \<and> c \<le> 0x0d"

definition isxdigit :: "byte \<Rightarrow> bool" where
  "isxdigit c \<longleftrightarrow> isdigit c \<or> 0x41 \<le> c \<and> c \<le> 0x46 \<or> 0x61 \<le> c \<and> c \<le> 0x66"

definition tolower :: "byte \<Rightarrow> byte" where
  "tolower c = (if isupper c then c + 0x20 else c)"

definition toupper :: "byte \<Rightarrow> byte" where
  "toupper c = (if islower c then c - 0x20 else c)"

definition isalnum :: "byte \<Rightarrow> bool" where
  "isalnum c \<longleftrightarrow> isalpha c \<or> isdigit c"

text \<open>\<open>strstr\<close>: the offset of the first occurrence.\<close>

fun strstr :: "cstr \<Rightarrow> cstr \<Rightarrow> nat option" where
  "strstr [] needle = (if needle = [] then Some 0 else None)"
| "strstr (c # s) needle =
     (if take (length needle) (c # s) = needle then Some 0 else map_option Suc (strstr s needle))"

lemma strstr_Some:
  "strstr s d = Some k \<Longrightarrow> k + length d \<le> length s \<and> s = take k s @ d @ drop (k + length d) s"
proof (induction s arbitrary: k)
  case (Cons c s)
  show ?case
  proof (cases "take (length d) (c # s) = d")
    case True
    then have "length d \<le> length (c # s)" by (metis length_take min.absorb_iff2 min.cobounded1)
    with True Cons.prems show ?thesis using append_take_drop_id [of "length d" "c # s"] by simp
  next
    case False
    with Cons show ?thesis by (auto split: if_splits)
  qed
qed (auto split: if_splits)

text \<open>
  \<open>atoi\<close>, \<open>atoll\<close> and the \<open>%u\<close> conversion of \<open>sscanf\<close>: white space, a sign, digits.  The C standard
  leaves a value out of range open; the GNU C library, which the program is built with, reads it with
  \<open>strtol\<close> (\<open>strtoul\<close> for \<open>%u\<close>), so it is clamped to the 64-bit range, and a caller's type then takes it
  modulo its width.
\<close>

fun dec_value :: "int \<Rightarrow> cstr \<Rightarrow> int" where
  "dec_value v [] = v"
| "dec_value v (c # s) = (if isdigit c then dec_value (10 * v + (uint c - 0x30)) s else v)"

fun skip_white :: "cstr \<Rightarrow> cstr" where
  "skip_white [] = []"
| "skip_white (c # s) = (if isspace c then skip_white s else c # s)"

definition signed_digits :: "cstr \<Rightarrow> int \<times> cstr" where
  "signed_digits s =
     (case skip_white s of
        [] \<Rightarrow> (1, [])
      | c # t \<Rightarrow> if c = 0x2d then (-1, t) else if c = 0x2b then (1, t) else (1, c # t))"

definition atoi :: "cstr \<Rightarrow> int" where
  "atoi s = (case signed_digits s of (sg, t) \<Rightarrow> max (- (2 ^ 63)) (min (2 ^ 63 - 1) (sg * dec_value 0 t)))"

definition scan_u :: "cstr \<Rightarrow> u32 option" where
  "scan_u s = (case signed_digits s of (sg, t) \<Rightarrow>
     (case t of [] \<Rightarrow> None | c # _ \<Rightarrow> if isdigit c then Some (of_int (if dec_value 0 t < 2 ^ 64 then sg * dec_value 0 t else 2 ^ 64 - 1)) else None))"

text \<open>\<open>strtok_r\<close> with a one-character separator: the non-empty fields.\<close>

fun fields :: "byte \<Rightarrow> cstr \<Rightarrow> cstr \<Rightarrow> cstr list" where
  "fields sep acc [] = [acc]"
| "fields sep acc (c # s) = (if c = sep then acc # fields sep [] s else fields sep (acc @ [c]) s)"

definition strtok_all :: "byte \<Rightarrow> cstr \<Rightarrow> cstr list" where
  "strtok_all sep s = filter (\<lambda>t. t \<noteq> []) (fields sep [] s)"

definition strchr :: "cstr \<Rightarrow> byte \<Rightarrow> cstr option" where
  "strchr s c = (if c \<in> set s then Some (dropWhile (\<lambda>x. x \<noteq> c) s) else None)"

definition strncasecmp_eq :: "cstr \<Rightarrow> cstr \<Rightarrow> nat \<Rightarrow> bool" where
  "strncasecmp_eq a b n \<longleftrightarrow> map tolower (take n a) = map tolower (take n b)"

end
