(* ===== verification/Base64.thy ===== *)
theory Base64
  imports Codec CString
begin

text \<open>
  The two base64 codecs of \<open>modules/crypto/src/dap_enc_base64.c\<close>: the table-driven
  \<open>dap_enc_base64_encode/decode\<close> with the standard and the URL-safe table, and the arithmetic
  \<open>B64_Encode/B64_Decode\<close>.  The output buffer of an operation is the list it returns.
\<close>

unbundle bit_operations_syntax

section \<open>Tables\<close>

datatype enc_data_type = DAP_ENC_DATA_TYPE_RAW | DAP_ENC_DATA_TYPE_B64 | DAP_ENC_DATA_TYPE_B64_URLSAFE

definition b64_standart_table :: "byte list" where
  "b64_standart_table = ascii ''ABCDEFGHIJKLMNOPQRSTUVWXYZabcdefghijklmnopqrstuvwxyz0123456789+/''"

definition b64_table_url_safe :: "byte list" where
  "b64_table_url_safe = ascii ''ABCDEFGHIJKLMNOPQRSTUVWXYZabcdefghijklmnopqrstuvwxyz0123456789-_''"

definition b64_table_by_standard :: "enc_data_type \<Rightarrow> (byte list) res" where
  "b64_table_by_standard standard = (case standard of
       DAP_ENC_DATA_TYPE_B64 \<Rightarrow> Inr b64_standart_table
     | DAP_ENC_DATA_TYPE_B64_URLSAFE \<Rightarrow> Inr b64_table_url_safe
     | _ \<Rightarrow> Inl Aborted)"

section \<open>Decoding\<close>

definition ascii_alnum :: "byte \<Rightarrow> bool" where
  "ascii_alnum c \<longleftrightarrow> (0x30 \<le> c \<and> c \<le> 0x39) \<or> (0x41 \<le> c \<and> c \<le> 0x5A) \<or> (0x61 \<le> c \<and> c \<le> 0x7A)"

definition b64_char :: "byte list \<Rightarrow> byte \<Rightarrow> bool" where
  "b64_char tbl c \<longleftrightarrow> c \<noteq> 0x3D \<and> (ascii_alnum c \<or> c = tbl ! 62 \<or> c = tbl ! 63)"

text \<open>The search loop: the index of the first match, or the character itself.\<close>

fun b64_find :: "byte list \<Rightarrow> nat \<Rightarrow> byte \<Rightarrow> byte" where
  "b64_find [] l c = c"
| "b64_find (t # ts) l c = (if c = t then word_of_nat l else b64_find ts (l + 1) c)"

definition b64_dec_group :: "byte list \<Rightarrow> byte list" where
  "b64_dec_group tmp =
     [push_bit 2 (tmp ! 0) + drop_bit 4 (tmp ! 1 AND 0x30),
      push_bit 4 (tmp ! 1 AND 0xf) + drop_bit 2 (tmp ! 2 AND 0x3c),
      push_bit 6 (tmp ! 2 AND 0x3) + tmp ! 3]"

text \<open>The characters read so far are \<open>tmp\<close>; the result is the bytes written and what is left in it.\<close>

fun b64_dec_loop :: "byte list \<Rightarrow> byte list \<Rightarrow> byte list \<Rightarrow> byte list \<times> byte list" where
  "b64_dec_loop tbl tmp [] = ([], tmp)"
| "b64_dec_loop tbl tmp (c # cs) =
     (if \<not> b64_char tbl c then ([], tmp)
      else let tmp' = tmp @ [c] in
           if length tmp' = 4
           then let (out, rest) = b64_dec_loop tbl [] cs
                in (b64_dec_group (map (b64_find tbl 0) tmp') @ out, rest)
           else b64_dec_loop tbl tmp' cs)"

definition b64_decode_tbl :: "byte list \<Rightarrow> byte list \<Rightarrow> byte list" where
  "b64_decode_tbl tbl cs =
     (let (out, tmp) = b64_dec_loop tbl [] cs
      in if tmp = [] then out
         else out @ take (length tmp - 1)
                (b64_dec_group (map (b64_find tbl 0) (tmp @ replicate (4 - length tmp) 0))))"

text \<open>The index of the character to read is an \<open>int\<close>: it is incremented once for every character that is taken.\<close>

definition dap_enc_base64_decode :: "byte list \<Rightarrow> enc_data_type \<Rightarrow> (byte list) res" where
  "dap_enc_base64_decode cs standard =
     bindE (b64_table_by_standard standard) (\<lambda>tbl.
     bindE (guardE (length (takeWhile (b64_char tbl) cs) < 2 ^ 31) Overflow) (\<lambda>_.
     Inr (b64_decode_tbl tbl cs)))"

section \<open>Encoding\<close>

definition b64_enc_group :: "byte list \<Rightarrow> byte list \<Rightarrow> byte list" where
  "b64_enc_group tbl tmp = map (\<lambda>v. tbl ! unat v)
     [drop_bit 2 (tmp ! 0 AND 0xfc),
      push_bit 4 (tmp ! 0 AND 0x03) + drop_bit 4 (tmp ! 1 AND 0xf0),
      push_bit 2 (tmp ! 1 AND 0x0f) + drop_bit 6 (tmp ! 2 AND 0xc0),
      tmp ! 2 AND 0x3f]"

fun b64_enc_loop :: "byte list \<Rightarrow> byte list \<Rightarrow> byte list \<Rightarrow> byte list \<times> byte list" where
  "b64_enc_loop tbl tmp [] = ([], tmp)"
| "b64_enc_loop tbl tmp (x # xs) =
     (let tmp' = tmp @ [x] in
      if length tmp' = 3
      then let (out, rest) = b64_enc_loop tbl [] xs in (b64_enc_group tbl tmp' @ out, rest)
      else b64_enc_loop tbl tmp' xs)"

definition b64_encode_tbl :: "byte list \<Rightarrow> byte list \<Rightarrow> byte list" where
  "b64_encode_tbl tbl xs =
     (let (out, tmp) = b64_enc_loop tbl [] xs
      in if tmp = [] then out
         else out @ take (length tmp + 1) (b64_enc_group tbl (tmp @ replicate (3 - length tmp) 0))
              @ replicate (3 - length tmp) 0x3D)"

definition dap_enc_base64_encode :: "byte list \<Rightarrow> enc_data_type \<Rightarrow> (byte list) res" where
  "dap_enc_base64_encode xs standard =
     bindE (b64_table_by_standard standard) (\<lambda>tbl. Inr (b64_encode_tbl tbl xs))"

text \<open>The size is computed in 64 bits.\<close>

definition DAP_ENC_BASE64_ENCODE_SIZE :: "u64 \<Rightarrow> u64" where
  "DAP_ENC_BASE64_ENCODE_SIZE in_size = (4 * in_size div 3 + 3) AND NOT 3"

text \<open>Strings are the bytes before the terminating NUL; NULL is None.\<close>

definition c_string :: "byte list \<Rightarrow> byte list" where
  "c_string bs = takeWhile (\<lambda>b. b \<noteq> 0) bs"

definition dap_enc_strdup_to_base64 :: "byte list \<Rightarrow> (byte list) res" where
  "dap_enc_strdup_to_base64 s =
     bindE (dap_enc_base64_encode s DAP_ENC_DATA_TYPE_B64) (\<lambda>out.
     bindE (blitE (replicate (unat (DAP_ENC_BASE64_ENCODE_SIZE (word_of_nat (length s)) + 1)) 0) 0 (out @ [0])) (\<lambda>b.
     Inr (c_string b)))"

definition dap_enc_strdup_from_base64 :: "byte list option \<Rightarrow> (byte list option) res" where
  "dap_enc_strdup_from_base64 a_string = (case a_string of
       None \<Rightarrow> Inr None
     | Some s \<Rightarrow>
         if s = [] then Inr None
         else bindE (dap_enc_base64_decode s DAP_ENC_DATA_TYPE_B64_URLSAFE) (\<lambda>out.
              if out = [] then Inr None
              else bindE (blitE (replicate (length s * 2) 0) 0 out) (\<lambda>b. Inr (Some (c_string b)))))"

section \<open>The arithmetic codec\<close>

definition B64_EncodeByte :: "byte \<Rightarrow> byte" where
  "B64_EncodeByte b0 =
     (let b = b0 AND 0x3f in
      if b \<le> 25 then b + 0x41
      else if b \<le> 51 then b - 26 + 0x61
      else if b \<le> 61 then b - 52 + 0x30
      else if b = 62 then 0x2D
      else 0x5F)"

definition B64_DecodeByte :: "byte \<Rightarrow> byte" where
  "B64_DecodeByte b =
     (if b = 0x2B \<or> b = 0x2D then 62
      else if b = 0x2F \<or> b = 0x5F then 63
      else if b \<le> 0x39 then b - 0x30 + 52
      else if b \<le> 0x5A then b - 0x41
      else b - 0x61 + 26)"

text \<open>
  The quotients in \<open>double\<close> are rounded up; a value or a sum that is not an \<open>int\<close> is a fault.  A negative size leaves
  no remainder above 0.
\<close>

definition as_int :: "int \<Rightarrow> int res" where
  "as_int n = (if - (2 ^ 31) \<le> n \<and> n < 2 ^ 31 then Inr n else Inl Overflow)"

definition B64_GetSize :: "int \<Rightarrow> bool \<Rightarrow> int res" where
  "B64_GetSize sz isEncode =
     (if isEncode
      then bindE (as_int (- ((- sz) div 3) * 4)) (\<lambda>n.
        if 0 \<le> sz \<and> sz mod 3 = 1 then as_int (n + 2) else if 0 \<le> sz \<and> sz mod 3 = 2 then as_int (n + 3) else Inr n)
      else bindE (as_int (- ((- sz) div 4) * 3)) (\<lambda>n.
        if 0 \<le> sz \<and> sz mod 4 = 2 then as_int (n + 1) else if 0 \<le> sz \<and> sz mod 4 = 3 then as_int (n + 2) else Inr n))"

text \<open>The lengths given to the codec are of type \<open>int\<close>, and so is the index of the character that is written next.\<close>

fun B64_enc_groups :: "byte list \<Rightarrow> byte list" where
  "B64_enc_groups (b1 # b2 # b3 # src) =
     [B64_EncodeByte (drop_bit 2 b1), B64_EncodeByte (push_bit 4 b1 OR drop_bit 4 b2),
      B64_EncodeByte (push_bit 2 b2 OR drop_bit 6 b3), B64_EncodeByte b3] @ B64_enc_groups src"
| "B64_enc_groups [b1, b2] =
     [B64_EncodeByte (drop_bit 2 b1), B64_EncodeByte (push_bit 4 b1 OR drop_bit 4 b2),
      B64_EncodeByte (push_bit 2 b2)]"
| "B64_enc_groups [b1] =
     [B64_EncodeByte (drop_bit 2 b1), B64_EncodeByte (push_bit 4 b1 OR drop_bit 4 0)]"
| "B64_enc_groups [] = []"

definition B64_Encode :: "byte list \<Rightarrow> (byte list) res" where
  "B64_Encode srcBytes =
     (let destBytes = B64_enc_groups srcBytes
      in if 2 ^ 31 \<le> length destBytes then Inl Overflow else Inr destBytes)"

fun B64_Decode :: "byte list \<Rightarrow> byte list" where
  "B64_Decode (c1 # c2 # c3 # c4 # src) =
     (let b1 = B64_DecodeByte c1; b2 = B64_DecodeByte c2; b3 = B64_DecodeByte c3; b4 = B64_DecodeByte c4
      in [push_bit 2 b1 OR drop_bit 4 b2, push_bit 4 b2 OR drop_bit 2 b3, push_bit 6 b3 OR b4]
         @ B64_Decode src)"
| "B64_Decode [c1, c2, c3] =
     (let b1 = B64_DecodeByte c1; b2 = B64_DecodeByte c2; b3 = B64_DecodeByte c3
      in [push_bit 2 b1 OR drop_bit 4 b2, push_bit 4 b2 OR drop_bit 2 b3])"
| "B64_Decode [c1, c2] =
     (let b1 = B64_DecodeByte c1; b2 = B64_DecodeByte c2 in [push_bit 2 b1 OR drop_bit 4 b2])"
| "B64_Decode [c1] = [push_bit 2 (B64_DecodeByte c1) OR drop_bit 4 0]"
| "B64_Decode [] = []"

section \<open>Bits of a byte\<close>

lemma byte_eqI:
  assumes "bit a 0 = bit b 0" "bit a 1 = bit b 1" "bit a 2 = bit b 2" "bit a 3 = bit b 3"
    "bit a 4 = bit b 4" "bit a 5 = bit b 5" "bit a 6 = bit b 6" "bit a 7 = bit b 7"
  shows "a = (b :: byte)"
proof (rule bit_word_eqI)
  fix n assume "n < LENGTH(8)"
  then have "n = 0 \<or> n = 1 \<or> n = 2 \<or> n = 3 \<or> n = 4 \<or> n = 5 \<or> n = 6 \<or> n = 7" by auto
  with assms show "bit a n = bit b n" by (elim disjE) simp_all
qed

lemma plus_or: "(x AND y :: byte) = 0 \<Longrightarrow> x + y = x OR y"
  by (rule disjunctive_add_eq_or)

text \<open>The four 6-bit values of three bytes, with the additions of disjoint bits as \<open>OR\<close>.\<close>

lemma enc_plus:
  "push_bit 4 (a AND 0x03) + drop_bit 4 (b AND 0xf0) = push_bit 4 (a AND 0x03) OR drop_bit 4 (b AND 0xf0 :: byte)"
  "push_bit 2 (b AND 0x0f) + drop_bit 6 (c AND 0xc0) = push_bit 2 (b AND 0x0f) OR drop_bit 6 (c AND 0xc0 :: byte)"
  by (rule plus_or, rule byte_eqI; simp add: bit_simps)+

lemma enc_values_less:
  "unat (drop_bit 2 (a AND 0xfc :: byte)) < 64"
  "unat (push_bit 4 (a AND 0x03) OR drop_bit 4 (b AND 0xf0 :: byte)) < 64"
  "unat (push_bit 2 (b AND 0x0f) OR drop_bit 6 (c AND 0xc0 :: byte)) < 64"
  "unat (c AND 0x3f :: byte) < 64"
proof -
  have less: "unat x < 64" if "x = x AND 0x3f" for x :: byte
  proof -
    have "take_bit 6 x = x" using that by (simp add: take_bit_eq_mask mask_eq_exp_minus_1)
    then have "unat x = unat (take_bit 6 x)" by simp
    also have "\<dots> = take_bit 6 (unat x)" by (rule unsigned_take_bit_eq)
    finally show ?thesis using take_bit_nat_less_exp [of 6 "unat x"] by simp
  qed
  show "unat (drop_bit 2 (a AND 0xfc :: byte)) < 64"
    "unat (push_bit 4 (a AND 0x03) OR drop_bit 4 (b AND 0xf0 :: byte)) < 64"
    "unat (push_bit 2 (b AND 0x0f) OR drop_bit 6 (c AND 0xc0 :: byte)) < 64"
    "unat (c AND 0x3f :: byte) < 64"
    by (rule less, rule byte_eqI; simp add: bit_simps)+
qed

lemma dec_enc_bits:
  fixes a b c :: byte
  defines "w \<equiv> drop_bit 2 (a AND 0xfc)" and "x \<equiv> push_bit 4 (a AND 0x03) OR drop_bit 4 (b AND 0xf0)"
    and "y \<equiv> push_bit 2 (b AND 0x0f) OR drop_bit 6 (c AND 0xc0)" and "z \<equiv> c AND 0x3f"
  shows "push_bit 2 w + drop_bit 4 (x AND 0x30) = a"
    "push_bit 4 (x AND 0xf) + drop_bit 2 (y AND 0x3c) = b"
    "push_bit 6 (y AND 0x3) + z = c"
proof -
  have "push_bit 2 w + drop_bit 4 (x AND 0x30) = push_bit 2 w OR drop_bit 4 (x AND 0x30)"
    by (rule plus_or, rule byte_eqI; simp add: bit_simps w_def x_def)
  also have "\<dots> = a" by (rule byte_eqI; simp add: bit_simps w_def x_def)
  finally show "push_bit 2 w + drop_bit 4 (x AND 0x30) = a" .
  have "push_bit 4 (x AND 0xf) + drop_bit 2 (y AND 0x3c) = push_bit 4 (x AND 0xf) OR drop_bit 2 (y AND 0x3c)"
    by (rule plus_or, rule byte_eqI; simp add: bit_simps x_def y_def)
  also have "\<dots> = b" by (rule byte_eqI; simp add: bit_simps x_def y_def)
  finally show "push_bit 4 (x AND 0xf) + drop_bit 2 (y AND 0x3c) = b" .
  have "push_bit 6 (y AND 0x3) + z = push_bit 6 (y AND 0x3) OR z"
    by (rule plus_or, rule byte_eqI; simp add: bit_simps y_def z_def)
  also have "\<dots> = c" by (rule byte_eqI; simp add: bit_simps y_def z_def)
  finally show "push_bit 6 (y AND 0x3) + z = c" .
qed

section \<open>A table that can be read back\<close>

lemma b64_standart_table_list:
  "b64_standart_table = [65, 66, 67, 68, 69, 70, 71, 72, 73, 74, 75, 76, 77, 78, 79, 80, 81, 82, 83, 84,
     85, 86, 87, 88, 89, 90, 97, 98, 99, 100, 101, 102, 103, 104, 105, 106, 107, 108, 109, 110, 111, 112,
     113, 114, 115, 116, 117, 118, 119, 120, 121, 122, 48, 49, 50, 51, 52, 53, 54, 55, 56, 57] @ [43, 47]"
  by (simp add: b64_standart_table_def ascii_def)

lemma b64_table_url_safe_list:
  "b64_table_url_safe = [65, 66, 67, 68, 69, 70, 71, 72, 73, 74, 75, 76, 77, 78, 79, 80, 81, 82, 83, 84,
     85, 86, 87, 88, 89, 90, 97, 98, 99, 100, 101, 102, 103, 104, 105, 106, 107, 108, 109, 110, 111, 112,
     113, 114, 115, 116, 117, 118, 119, 120, 121, 122, 48, 49, 50, 51, 52, 53, 54, 55, 56, 57] @ [45, 95]"
  by (simp add: b64_table_url_safe_def ascii_def)

definition b64_table_ok :: "byte list \<Rightarrow> bool" where
  "b64_table_ok tbl \<longleftrightarrow> length tbl = 64 \<and> distinct tbl \<and> 0 \<notin> set tbl \<and>
     (\<forall>c \<in> set tbl. b64_char tbl c)"

lemma b64_tables_ok: "b64_table_ok b64_standart_table" "b64_table_ok b64_table_url_safe"
  unfolding b64_table_ok_def b64_standart_table_list b64_table_url_safe_list
  by (simp_all add: b64_char_def ascii_alnum_def)

lemma b64_find_nth:
  "distinct tbl \<Longrightarrow> i < length tbl \<Longrightarrow> b64_find tbl l (tbl ! i) = word_of_nat (l + i)"
proof (induction tbl arbitrary: l i)
  case (Cons t ts)
  then show ?case by (cases i) (auto simp: nth_mem)
qed simp

lemma b64_find_notin: "c \<notin> set tbl \<Longrightarrow> b64_find tbl l c = c"
  by (induction tbl arbitrary: l) simp_all

lemma b64_table_okD:
  assumes "b64_table_ok tbl" "unat v < 64"
  shows "b64_char tbl (tbl ! unat v)" "b64_find tbl 0 (tbl ! unat v) = v"
  using assms b64_find_nth [of tbl "unat v" 0] by (auto simp: b64_table_ok_def)

section \<open>Round trips\<close>

lemma b64_encode_simps:
  "b64_encode_tbl tbl (a # b # c # xs) = b64_enc_group tbl [a, b, c] @ b64_encode_tbl tbl xs"
  "b64_encode_tbl tbl [a, b] = take 3 (b64_enc_group tbl [a, b, 0]) @ [0x3D]"
  "b64_encode_tbl tbl [a] = take 2 (b64_enc_group tbl [a, 0, 0]) @ [0x3D, 0x3D]"
  "b64_encode_tbl tbl [] = []"
  by (simp_all add: b64_encode_tbl_def split_beta numeral_2_eq_2 numeral_3_eq_3 Let_def)

lemma b64_decode_simps:
  "list_all (b64_char tbl) [w, x, y, z] \<Longrightarrow> b64_decode_tbl tbl (w # x # y # z # cs) =
     b64_dec_group (map (b64_find tbl 0) [w, x, y, z]) @ b64_decode_tbl tbl cs"
  "list_all (b64_char tbl) [w, x, y] \<Longrightarrow> b64_decode_tbl tbl [w, x, y, 0x3D] =
     take 2 (b64_dec_group (map (b64_find tbl 0) [w, x, y, 0]))"
  "list_all (b64_char tbl) [w, x] \<Longrightarrow> b64_decode_tbl tbl [w, x, 0x3D, 0x3D] =
     take 1 (b64_dec_group (map (b64_find tbl 0) [w, x, 0, 0]))"
  "b64_decode_tbl tbl [] = []"
  by (simp_all add: b64_decode_tbl_def split_beta Let_def numeral_2_eq_2)
    (simp_all add: b64_char_def)

lemmas no_distrib = push_bit_and drop_bit_and push_bit_or drop_bit_or

lemma enc_group_chars:
  assumes "b64_table_ok tbl"
  shows "list_all (b64_char tbl) (b64_enc_group tbl [a, b, c])"
  using b64_table_okD(1) [OF assms] enc_values_less
  by (simp add: b64_enc_group_def enc_plus del: no_distrib)

lemma dec_enc_group:
  assumes "b64_table_ok tbl"
  shows "b64_dec_group (map (b64_find tbl 0) (b64_enc_group tbl [a, b, c])) = [a, b, c]"
  using b64_table_okD(2) [OF assms] enc_values_less
  by (simp add: b64_dec_group_def b64_enc_group_def enc_plus dec_enc_bits del: no_distrib)

text \<open>Without the last one or two characters the bytes before are still recovered.\<close>

lemma b64_find_0: "b64_table_ok tbl \<Longrightarrow> b64_find tbl 0 0 = 0"
  by (rule b64_find_notin) (simp add: b64_table_ok_def)

lemma b64_enc_group_4:
  "b64_enc_group tbl [a, b, c] = [tbl ! unat (drop_bit 2 (a AND 0xfc)),
     tbl ! unat (push_bit 4 (a AND 0x03) OR drop_bit 4 (b AND 0xf0)),
     tbl ! unat (push_bit 2 (b AND 0x0f) OR drop_bit 6 (c AND 0xc0)), tbl ! unat (c AND 0x3f)]"
  by (simp add: b64_enc_group_def enc_plus del: no_distrib)

lemma decode_encode_tbl:
  assumes "b64_table_ok tbl"
  shows "b64_decode_tbl tbl (b64_encode_tbl tbl xs) = xs"
proof (induction xs rule: B64_enc_groups.induct)
  case (1 b1 b2 b3 src)
  then show ?case
    using enc_group_chars [OF assms, of b1 b2 b3] dec_enc_group [OF assms, of b1 b2 b3]
    by (simp add: b64_encode_simps b64_enc_group_4 b64_decode_simps del: no_distrib)
next
  case (2 b1 b2)
  show ?case
    using enc_group_chars [OF assms, of b1 b2 0] dec_enc_group [OF assms, of b1 b2 0]
    by (simp add: b64_encode_simps b64_enc_group_4 b64_decode_simps b64_dec_group_def b64_find_0 [OF assms]
        numeral_3_eq_3 numeral_2_eq_2 del: no_distrib)
next
  case (3 b1)
  show ?case
    using enc_group_chars [OF assms, of b1 0 0] dec_enc_group [OF assms, of b1 0 0]
    by (simp add: b64_encode_simps b64_enc_group_4 b64_decode_simps b64_dec_group_def b64_find_0 [OF assms]
        numeral_2_eq_2 del: no_distrib)
next
  case 4
  show ?case by (simp add: b64_encode_simps b64_decode_simps)
qed

lemma length_b64_enc_group [simp]: "length (b64_enc_group tbl tmp) = 4"
  by (simp add: b64_enc_group_def)

lemma length_encode_tbl: "length (b64_encode_tbl tbl xs) = (length xs + 2) div 3 * 4"
  by (induction xs rule: B64_enc_groups.induct) (simp_all add: b64_encode_simps, presburger)

lemma round_down_4: "unat (x AND NOT 3 :: u64) = unat x div 4 * 4"
proof -
  have m: "(3 :: u64) = mask 2" by (simp add: mask_eq_exp_minus_1)
  have "x AND NOT 3 = push_bit 2 (drop_bit 2 x)"
    unfolding m
  proof (rule bit_word_eqI)
    fix k assume "k < LENGTH(64)"
    show "bit (x AND NOT (mask 2)) k \<longleftrightarrow> bit (push_bit 2 (drop_bit 2 x)) k"
    proof (cases "2 \<le> k")
      case True
      then have "Suc (Suc (k - 2)) = k" by simp
      then show ?thesis using True by (auto simp: bit_simps)
    qed (auto simp: bit_simps)
  qed
  then have "unat (x AND NOT 3) = unat x div 4 * 4 mod 2 ^ 64"
    by (simp add: drop_bit_eq_div push_bit_eq_mult unat_div unat_word_ariths)
  moreover have "unat x div 4 * 4 < 2 ^ 64"
  proof -
    have "unat x < 2 ^ LENGTH(64)" by (rule unsigned_less)
    then show ?thesis using div_times_less_eq_dividend [of "unat x" 4] by simp
  qed
  ultimately show ?thesis by (simp only: mod_less)
qed

lemma encode_size_eq:
  assumes "n < 2 ^ 62"
  shows "unat (DAP_ENC_BASE64_ENCODE_SIZE (word_of_nat n)) = (n + 2) div 3 * 4"
proof -
  have small: "unat (word_of_nat k :: u64) = k" if "k < 2 ^ 64" for k
    using that by (simp add: unat_of_nat take_bit_nat_eq_self_iff)
  have w: "(4 * word_of_nat n :: u64) = word_of_nat (4 * n)" by simp
  have u: "unat (4 * word_of_nat n :: u64) = 4 * n" unfolding w by (rule small) (use assms in simp)
  have q: "unat (4 * word_of_nat n div 3 :: u64) = 4 * n div 3"
    unfolding unat_div u by simp
  have "4 * n div 3 \<le> 4 * n" by (rule div_le_dividend)
  moreover have "4 * n + 3 < 2 ^ 64" using assms by simp
  ultimately have "4 * n div 3 + 3 < 2 ^ 64" by (rule le_less_trans [OF add_right_mono])
  then have "unat (4 * word_of_nat n div 3 :: u64) + unat (3 :: u64) < 2 ^ LENGTH(64)" unfolding q by simp
  from unat_add_small [OF this] have "unat (4 * word_of_nat n div 3 + 3 :: u64) = 4 * n div 3 + 3"
    unfolding q by simp
  then have "unat (DAP_ENC_BASE64_ENCODE_SIZE (word_of_nat n)) = (4 * n div 3 + 3) div 4 * 4"
    by (simp only: DAP_ENC_BASE64_ENCODE_SIZE_def round_down_4)
  moreover have "(4 * n div 3 + 3) div 4 = (n + 2) div 3"
  proof -
    have "4 * n div 3 + 3 = (4 * n + 9) div 3" by presburger
    then have "(4 * n div 3 + 3) div 4 = (4 * n + 9) div 4 div 3"
      by (simp only: div_mult2_eq [symmetric] mult.commute [of 3 4])
    moreover have "(4 * n + 9) div 4 = n + 2" by presburger
    ultimately show ?thesis by simp
  qed
  ultimately show ?thesis by simp
qed

section \<open>The arithmetic codec reads back\<close>

lemma unat_enc_dec:
  fixes v :: byte
  assumes "unat v < 64"
  shows "B64_DecodeByte (if v \<le> 25 then v + 0x41 else if v \<le> 51 then v - 26 + 0x61
      else if v \<le> 61 then v - 52 + 0x30 else if v = 62 then 0x2D else 0x5F) = v"
proof -
  have eq: "a = b \<longleftrightarrow> unat a = unat b" for a b :: byte by (rule word_unat_eq_iff)
  consider "unat v \<le> 25" | "25 < unat v" "unat v \<le> 51" | "51 < unat v" "unat v \<le> 61" | "unat v = 62"
    | "unat v = 63" using assms by linarith
  then show ?thesis
  proof cases
    case 1
    have "unat (v + 0x41) = unat v + 65" using 1 by (subst unat_add_small) simp_all
    then show ?thesis using 1
      by (simp add: B64_DecodeByte_def eq word_le_nat_alt)
  next
    case 2
    have s: "unat (v - 26) = unat v - 26" using 2 by (subst unat_sub_small) (simp_all add: word_le_nat_alt)
    have "unat (v - 26 + 0x61) = unat v - 26 + 97" using 2 s by (subst unat_add_small) simp_all
    then show ?thesis using 2 by (simp add: B64_DecodeByte_def eq word_le_nat_alt)
  next
    case 3
    have s: "unat (v - 52) = unat v - 52" using 3 by (subst unat_sub_small) (simp_all add: word_le_nat_alt)
    have "unat (v - 52 + 0x30) = unat v - 52 + 48" using 3 s by (subst unat_add_small) simp_all
    then show ?thesis using 3 by (auto simp: B64_DecodeByte_def eq word_le_nat_alt)
  next
    case 4
    then show ?thesis by (simp add: B64_DecodeByte_def eq word_le_nat_alt)
  next
    case 5
    then show ?thesis by (simp add: B64_DecodeByte_def eq word_le_nat_alt)
  qed
qed

lemma decode_encode_byte: "B64_DecodeByte (B64_EncodeByte b) = b AND 0x3f"
  using unat_enc_dec [OF enc_values_less(4), of b] by (simp add: B64_EncodeByte_def Let_def)

lemma arith_bits:
  fixes a b c :: byte
  shows "push_bit 2 (drop_bit 2 a AND 0x3f) OR drop_bit 4 ((push_bit 4 a OR drop_bit 4 b) AND 0x3f) = a"
    "push_bit 4 ((push_bit 4 a OR drop_bit 4 b) AND 0x3f) OR drop_bit 2 ((push_bit 2 b OR drop_bit 6 c) AND 0x3f) = b"
    "push_bit 6 ((push_bit 2 b OR drop_bit 6 c) AND 0x3f) OR (c AND 0x3f) = c"
    "push_bit 4 ((push_bit 4 a OR drop_bit 4 b) AND 0x3f) OR drop_bit 2 (push_bit 2 b AND 0x3f) = b"
    "push_bit 2 (drop_bit 2 a AND 0x3f) OR drop_bit 4 (push_bit 4 a AND 0x3f) = a"
  by (rule byte_eqI; simp add: bit_simps)+

lemma B64_decode_encode: "B64_Decode (B64_enc_groups xs) = xs"
  by (induction xs rule: B64_enc_groups.induct) (simp_all add: decode_encode_byte arith_bits Let_def del: no_distrib)

lemma length_enc_groups: "length (B64_enc_groups xs) = (4 * length xs + 2) div 3"
  by (induction xs rule: B64_enc_groups.induct) (simp_all, presburger?)

lemma GetSize_encode:
  assumes "n < 2 ^ 30"
  shows "B64_GetSize (int n) True = Inr (int ((n + 2) div 3 * 4 + (if n mod 3 = 1 then 2 else if n mod 3 = 2 then 3 else 0)))"
proof -
  have c: "- ((- int n) div 3) = int ((n + 2) div 3)" by presburger
  have m: "int n mod 3 = int (n mod 3)" by (simp add: zmod_int)
  have "as_int k = Inr k" if "0 \<le> k" "k < 2 ^ 31" for k using that by (simp add: as_int_def)
  moreover have "int ((n + 2) div 3) * 4 + 3 < 2 ^ 31" using assms by simp
  ultimately show ?thesis unfolding B64_GetSize_def c m by simp
qed

section \<open>The contract\<close>

interpretation b64: codec "b64_encode_tbl b64_standart_table" "Some \<circ> b64_decode_tbl b64_standart_table"
  "\<lambda>_. True"
  by unfold_locales (simp add: decode_encode_tbl b64_tables_ok)

interpretation b64url: codec "b64_encode_tbl b64_table_url_safe" "Some \<circ> b64_decode_tbl b64_table_url_safe"
  "\<lambda>_. True"
  by unfold_locales (simp add: decode_encode_tbl b64_tables_ok)

interpretation b64a: codec B64_enc_groups "Some \<circ> B64_Decode" "\<lambda>_. True"
  by unfold_locales (simp add: B64_decode_encode)

section \<open>Where decoding stops\<close>

lemma dec_loop_prefix:
  "b64_dec_loop tbl tmp cs = b64_dec_loop tbl tmp (takeWhile (b64_char tbl) cs)"
  by (induction cs arbitrary: tmp) (simp_all add: Let_def)

lemma length_dec_loop:
  "list_all (b64_char tbl) cs \<Longrightarrow> length tmp < 4 \<Longrightarrow>
     length (snd (b64_dec_loop tbl tmp cs)) = (length tmp + length cs) mod 4 \<and>
     length (fst (b64_dec_loop tbl tmp cs)) = (length tmp + length cs) div 4 * 3"
proof (induction cs arbitrary: tmp)
  case Nil
  then show ?case by simp
next
  case (Cons c cs)
  show ?case
  proof (cases "length tmp = 3")
    case True
    have "(3 + Suc (length cs)) mod 4 = length cs mod 4" "(3 + Suc (length cs)) div 4 = Suc (length cs div 4)"
      by presburger+
    then show ?thesis
      using Cons.IH [of "[]"] Cons.prems True by (simp add: split_beta Let_def b64_dec_group_def)
  next
    case False
    then show ?thesis using Cons.IH [of "tmp @ [c]"] Cons.prems by (simp add: Let_def)
  qed
qed

lemma length_decode_tbl:
  "length (b64_decode_tbl tbl cs) = length (takeWhile (b64_char tbl) cs) * 3 div 4"
proof -
  define k where "k = length (takeWhile (b64_char tbl) cs)"
  define r where "r = b64_dec_loop tbl [] cs"
  have l: "length (snd r) = k mod 4" "length (fst r) = k div 4 * 3"
    using length_dec_loop [of tbl "takeWhile (b64_char tbl) cs" "[]"]
    by (simp_all add: r_def k_def dec_loop_prefix [of tbl "[]" cs] list_all_iff)
      (metis set_takeWhileD)+
  have "length (b64_decode_tbl tbl cs) = length (fst r) + (length (snd r) - 1)"
    by (cases "snd r = []") (simp_all add: b64_decode_tbl_def r_def [symmetric] split_beta
        b64_dec_group_def min_absorb2 l(1))
  also have "\<dots> = k * 3 div 4" unfolding l by presburger
  finally show ?thesis by (simp add: k_def)
qed

text \<open>Both tables agree on the characters other than the last two of the standard one.\<close>

definition b64_special :: "byte \<Rightarrow> bool" where
  "b64_special c \<longleftrightarrow> c = 0x2B \<or> c = 0x2F"

lemma b64_find_append:
  "b64_find (xs @ ys) l c = (if c \<in> set xs then b64_find xs l c else b64_find ys (l + length xs) c)"
  by (induction xs arbitrary: l) simp_all

lemma tables_tail:
  "b64_table_url_safe = take 62 b64_standart_table @ [0x2D, 0x5F]"
  "b64_standart_table = take 62 b64_standart_table @ [0x2B, 0x2F]"
  "b64_standart_table ! 62 = 0x2B" "b64_standart_table ! 63 = 0x2F"
  "b64_table_url_safe ! 62 = 0x2D" "b64_table_url_safe ! 63 = 0x5F"
  unfolding b64_standart_table_list b64_table_url_safe_list by simp_all

lemma tables_agree:
  assumes "\<not> b64_special c" "b64_char b64_standart_table c"
  shows "b64_char b64_table_url_safe c \<and> b64_find b64_table_url_safe 0 c = b64_find b64_standart_table 0 c"
proof -
  have a: "ascii_alnum c" "c \<noteq> 0x2B" "c \<noteq> 0x2F" "c \<noteq> 0x3D"
    using assms by (auto simp: b64_char_def b64_special_def tables_tail(3-6))
  then have "c \<noteq> 0x2D" "c \<noteq> 0x5F" by (auto simp: ascii_alnum_def)
  then have "b64_find b64_table_url_safe 0 c = b64_find b64_standart_table 0 c"
    using a by (subst tables_tail(1), subst (2) tables_tail(2)) (simp add: b64_find_append)
  then show ?thesis using a by (simp add: b64_char_def)
qed

lemma special_not_url:
  "b64_special c \<Longrightarrow> b64_char b64_standart_table c \<and> \<not> b64_char b64_table_url_safe c"
  by (auto simp: b64_special_def b64_char_def tables_tail(3-6) ascii_alnum_def)

lemma pad_not_char: "\<not> b64_char tbl 0x3D"
  by (simp add: b64_char_def)

lemma dec_loop_agree:
  assumes "\<forall>c \<in> set cs. \<not> b64_special c"
    and "\<forall>c \<in> set cs. b64_char b64_table_url_safe c \<longrightarrow> b64_char b64_standart_table c"
    and "map (b64_find b64_table_url_safe 0) tmp = map (b64_find b64_standart_table 0) tmp"
  shows "b64_dec_loop b64_table_url_safe tmp cs = b64_dec_loop b64_standart_table tmp cs \<and>
     (let r = snd (b64_dec_loop b64_standart_table tmp cs) in
      map (b64_find b64_table_url_safe 0) r = map (b64_find b64_standart_table 0) r)"
  using assms
proof (induction cs arbitrary: tmp)
  case Nil
  then show ?case by simp
next
  case (Cons c cs)
  show ?case
  proof (cases "b64_char b64_standart_table c")
    case True
    then have u: "b64_char b64_table_url_safe c"
      "b64_find b64_table_url_safe 0 c = b64_find b64_standart_table 0 c"
      using tables_agree Cons.prems(1) by auto
    show ?thesis
      using Cons.IH [of "[]"] Cons.IH [of "tmp @ [c]"] Cons.prems True u
      by (simp add: Let_def split_beta del: map_eq_conv)
  next
    case False
    then have "\<not> b64_char b64_table_url_safe c" using Cons.prems(2) by auto
    then show ?thesis using False Cons.prems by simp
  qed
qed

lemma encoded_chars:
  assumes "b64_table_ok tbl"
  shows "\<exists>n. list_all (b64_char tbl) (take n (b64_encode_tbl tbl xs)) \<and>
    drop n (b64_encode_tbl tbl xs) = replicate (length (b64_encode_tbl tbl xs) - n) 0x3D \<and>
    n = (4 * length xs + 2) div 3"
proof (induction xs rule: B64_enc_groups.induct)
  case (1 b1 b2 b3 src)
  then obtain n where n: "list_all (b64_char tbl) (take n (b64_encode_tbl tbl src))"
    "drop n (b64_encode_tbl tbl src) = replicate (length (b64_encode_tbl tbl src) - n) 0x3D"
    "n = (4 * length src + 2) div 3" by blast
  have e: "4 + n = (4 * length (b1 # b2 # b3 # src) + 2) div 3" unfolding n(3) by simp
  define g where "g = b64_enc_group tbl [b1, b2, b3]"
  define r where "r = b64_encode_tbl tbl src"
  have g: "list_all (b64_char tbl) g" "length g = 4"
    using enc_group_chars [OF assms, of b1 b2 b3] by (simp_all add: g_def)
  have "b64_encode_tbl tbl (b1 # b2 # b3 # src) = g @ r" by (simp add: b64_encode_simps g_def r_def)
  moreover have "list_all (b64_char tbl) (take (4 + n) (g @ r))"
    "drop (4 + n) (g @ r) = replicate (length (g @ r) - (4 + n)) 0x3D"
    using g n(1,2) by (simp_all add: r_def)
  ultimately show ?case using e by metis
next
  case (2 b1 b2)
  then show ?case using enc_group_chars [OF assms, of b1 b2 0]
    by (intro exI [of _ 3]) (simp add: b64_encode_simps b64_enc_group_4 del: no_distrib)
next
  case (3 b1)
  then show ?case using enc_group_chars [OF assms, of b1 0 0]
    by (intro exI [of _ 2]) (simp add: b64_encode_simps b64_enc_group_4 del: no_distrib)
next
  case 4
  then show ?case by (simp add: b64_encode_simps)
qed

lemma decode_url_agrees:
  assumes "\<forall>c \<in> set t. \<not> b64_special c" "\<forall>c \<in> set t. b64_char b64_standart_table c \<or> c = 0x3D"
  shows "b64_decode_tbl b64_table_url_safe t = b64_decode_tbl b64_standart_table t"
proof -
  have z: "b64_find b64_table_url_safe 0 0 = b64_find b64_standart_table 0 0"
    using b64_find_0 [OF b64_tables_ok(1)] b64_find_0 [OF b64_tables_ok(2)] by simp
  have "\<forall>c \<in> set t. b64_char b64_table_url_safe c \<longrightarrow> b64_char b64_standart_table c"
    using assms(2) pad_not_char by auto
  from dec_loop_agree [OF assms(1) this, of "[]"] show ?thesis
    by (simp add: b64_decode_tbl_def split_beta Let_def z del: map_eq_conv)
qed

lemma encoded_set:
  "\<forall>c \<in> set (b64_encode_tbl b64_standart_table s). b64_char b64_standart_table c \<or> c = 0x3D"
proof -
  let ?t = "b64_encode_tbl b64_standart_table s"
  from encoded_chars [OF b64_tables_ok(1), of s] obtain n where
    n: "list_all (b64_char b64_standart_table) (take n ?t)" "drop n ?t = replicate (length ?t - n) 0x3D" by blast
  have "set ?t = set (take n ?t) \<union> set (drop n ?t)" by (metis append_take_drop_id set_append)
  then show ?thesis using n by (auto simp: list_all_iff)
qed

text \<open>A special character shortens what the URL-safe decoder reads.\<close>

lemma decode_url_shorter:
  assumes "\<exists>c \<in> set (b64_encode_tbl b64_standart_table s). b64_special c"
  shows "length (b64_decode_tbl b64_table_url_safe (b64_encode_tbl b64_standart_table s)) < length s"
proof -
  let ?t = "b64_encode_tbl b64_standart_table s"
  from encoded_chars [OF b64_tables_ok(1), of s] obtain n where
    n: "drop n ?t = replicate (length ?t - n) 0x3D" "n = (4 * length s + 2) div 3" by blast
  from assms obtain i where i: "i < length ?t" "b64_special (?t ! i)" by (auto simp: in_set_conv_nth)
  have "i < n"
  proof (rule ccontr)
    assume "\<not> i < n"
    then have "?t ! i = drop n ?t ! (i - n)" using i by simp
    also have "\<dots> = 0x3D" unfolding n(1) using i \<open>\<not> i < n\<close> by simp
    finally show False using i(2) by (simp add: b64_special_def)
  qed
  define k where "k = length (takeWhile (b64_char b64_table_url_safe) ?t)"
  have "k \<le> i"
  proof (rule ccontr)
    assume "\<not> k \<le> i"
    then have "b64_char b64_table_url_safe (?t ! i)"
      using nth_length_takeWhile [of "b64_char b64_table_url_safe" ?t]
        set_takeWhileD [of "takeWhile (b64_char b64_table_url_safe) ?t ! i" "b64_char b64_table_url_safe" ?t]
        takeWhile_nth [of i "b64_char b64_table_url_safe" ?t] nth_mem [of i "takeWhile (b64_char b64_table_url_safe) ?t"]
      by (auto simp: k_def)
    then show False using special_not_url i(2) by blast
  qed
  then have "k * 3 div 4 < length s" using \<open>i < n\<close> n(2) by linarith
  then show ?thesis by (simp add: length_decode_tbl k_def)
qed

lemma encoded_no_nul: "0 \<notin> set (b64_encode_tbl b64_standart_table s)"
  using encoded_set [of s] by (auto simp: b64_char_def ascii_alnum_def tables_tail(3-6))

lemma c_string_append_nul: "0 \<notin> set xs \<Longrightarrow> c_string (xs @ 0 # ys) = xs"
  by (simp add: c_string_def takeWhile_append)

lemma strdup_to_base64:
  assumes "length s < 2 ^ 62"
  shows "dap_enc_strdup_to_base64 s = Inr (b64_encode_tbl b64_standart_table s)"
proof -
  have "unat (DAP_ENC_BASE64_ENCODE_SIZE (word_of_nat (length s)) + 1) = (length s + 2) div 3 * 4 + 1"
    using encode_size_eq [OF assms] assms by (subst unat_add_small) simp_all
  then show ?thesis using encoded_no_nul [of s]
    by (simp add: dap_enc_strdup_to_base64_def dap_enc_base64_encode_def b64_table_by_standard_def
      length_encode_tbl blit_def c_string_append_nul)
qed

lemma strdup_from_base64:
  assumes "t \<noteq> []" "length t < 2 ^ 31"
  defines "d \<equiv> b64_decode_tbl b64_table_url_safe t"
  shows "dap_enc_strdup_from_base64 (Some t) = Inr (if d = [] then None else Some (c_string d))"
proof -
  define k where "k = length (takeWhile (b64_char b64_table_url_safe) t)"
  have "k \<le> length t" by (simp add: k_def length_takeWhile_le)
  moreover have "length d = k * 3 div 4" by (simp add: d_def k_def length_decode_tbl)
  moreover have "0 < length t" using assms(1) by simp
  ultimately have l: "length d < length t * 2" by linarith
  obtain m where m: "length t * 2 - length d = Suc m" using l by (metis Suc_diff_Suc)
  have "blit (replicate (length t * 2) 0) 0 d = d @ 0 # replicate m 0"
    using l m by (simp add: blit_def drop_replicate)
  moreover have "c_string (d @ 0 # ys) = c_string d" for ys
    by (induction d) (simp_all add: c_string_def)
  ultimately show ?thesis
    using assms(1,2) l order_le_less_trans [OF length_takeWhile_le assms(2)]
    by (simp add: dap_enc_strdup_from_base64_def dap_enc_base64_decode_def b64_table_by_standard_def
        flip: d_def)
qed

section \<open>Properties\<close>

text \<open>
  C30: with either table, decoding what \<open>dap_enc_base64_encode\<close> wrote gives the bytes back, and the text of fewer than
  2^62 bytes has exactly the length \<open>DAP_ENC_BASE64_ENCODE_SIZE\<close> reserves, unless the decoder counts past the end of its
  \<open>int\<close>, which is when the text has 2^31 characters without the padding.  The arithmetic codec is inverted by its
  decoder, too, and for fewer than 2^30 bytes its text, which has four characters for three bytes and no padding, is at most as
  long as \<open>B64_GetSize\<close> says.
\<close>

theorem base64_roundtrip:
  assumes "length xs < 2 ^ 62"
  shows "\<exists>t u. dap_enc_base64_encode xs DAP_ENC_DATA_TYPE_B64 = Inr t \<and>
     dap_enc_base64_encode xs DAP_ENC_DATA_TYPE_B64_URLSAFE = Inr u \<and>
     length t = unat (DAP_ENC_BASE64_ENCODE_SIZE (word_of_nat (length xs))) \<and> length u = length t \<and>
     (let back = if (4 * length xs + 2) div 3 < 2 ^ 31 then Inr xs else Inl Overflow in
       dap_enc_base64_decode t DAP_ENC_DATA_TYPE_B64 = back \<and> dap_enc_base64_decode u DAP_ENC_DATA_TYPE_B64_URLSAFE = back) \<and>
     (length xs < 2 ^ 30 \<longrightarrow> (\<exists>v n. B64_Encode xs = Inr v \<and> B64_Decode v = xs \<and>
       length v = (4 * length xs + 2) div 3 \<and> B64_GetSize (int (length xs)) True = Inr n \<and> int (length v) \<le> n))"
proof -
  have taken: "length (takeWhile (b64_char tbl) (b64_encode_tbl tbl xs)) = (4 * length xs + 2) div 3" if ok: "b64_table_ok tbl" for tbl
  proof -
    let ?t = "b64_encode_tbl tbl xs"
    obtain n where n: "list_all (b64_char tbl) (take n ?t)" "drop n ?t = replicate (length ?t - n) 0x3D" "n = (4 * length xs + 2) div 3"
      using encoded_chars [OF ok, of xs] by blast
    have "takeWhile (b64_char tbl) (take n ?t @ drop n ?t) = take n ?t @ takeWhile (b64_char tbl) (replicate (length ?t - n) 0x3D)"
      unfolding n(2) using n(1) by (intro takeWhile_append2) (simp add: list_all_iff)
    moreover have "takeWhile (b64_char tbl) (replicate (length ?t - n) 0x3D) = []" using pad_not_char by (cases "length ?t - n") simp_all
    ultimately have "takeWhile (b64_char tbl) ?t = take n ?t" by simp
    moreover have "n \<le> length ?t" unfolding n(3) length_encode_tbl by presburger
    ultimately show ?thesis using n(3) by simp
  qed
  have v: "\<exists>v n. B64_Encode xs = Inr v \<and> B64_Decode v = xs \<and> length v = (4 * length xs + 2) div 3 \<and> B64_GetSize (int (length xs)) True = Inr n \<and> int (length v) \<le> n"
    if "length xs < 2 ^ 30"
  proof -
    have "(4 * length xs + 2) div 3 < 2 ^ 31" using that by simp
    moreover have "(4 * length xs + 2) div 3 \<le> (length xs + 2) div 3 * 4" by presburger
    ultimately show ?thesis
      using GetSize_encode [OF that] B64_decode_encode [of xs]
      by (simp add: B64_Encode_def length_enc_groups Let_def)
  qed
  show ?thesis
    using taken [OF b64_tables_ok(1)] taken [OF b64_tables_ok(2)] v
    by (simp add: dap_enc_base64_encode_def dap_enc_base64_decode_def b64_table_by_standard_def
      decode_encode_tbl b64_tables_ok encode_size_eq [OF assms] length_encode_tbl Let_def)
qed

theorem base64_roundtrip_witness:
  "\<exists>t v. dap_enc_base64_encode [1, 2, 255, 0] DAP_ENC_DATA_TYPE_B64 = Inr t \<and> length t = 8 \<and>
     dap_enc_base64_decode t DAP_ENC_DATA_TYPE_B64 = Inr [1, 2, 255, 0] \<and>
     B64_Encode [1, 2, 255, 0] = Inr v \<and> B64_Decode v = [1, 2, 255, 0]"
proof -
  have "unat (DAP_ENC_BASE64_ENCODE_SIZE 4) = 8" by (simp add: DAP_ENC_BASE64_ENCODE_SIZE_def)
  then show ?thesis using base64_roundtrip [of "[1, 2, 255, 0]"] by (auto simp: Let_def)
qed

text \<open>
  \<open>dap_enc_strdup_from_base64\<close> inverts \<open>dap_enc_strdup_to_base64\<close> exactly on the strings whose
  encoding has neither '+' nor '/': it decodes with the URL-safe table and stops at the first of
  them.
\<close>

theorem base64_strdup_roundtrip_iff:
  assumes "s \<noteq> []" "0 \<notin> set s" "length s < 2 ^ 30"
  shows "\<exists>t. dap_enc_strdup_to_base64 s = Inr t \<and>
    (dap_enc_strdup_from_base64 (Some t) = Inr (Some s) \<longleftrightarrow> (\<forall>c \<in> set t. c \<noteq> 0x2B \<and> c \<noteq> 0x2F))"
proof -
  let ?t = "b64_encode_tbl b64_standart_table s"
  let ?d = "b64_decode_tbl b64_table_url_safe ?t"
  have "?t \<noteq> []" using assms(1) length_encode_tbl [of b64_standart_table s] by (cases s) auto
  moreover have "length ?t < 2 ^ 31" using assms(3) by (simp add: length_encode_tbl)
  ultimately have f: "dap_enc_strdup_from_base64 (Some ?t) = Inr (if ?d = [] then None else Some (c_string ?d))"
    by (rule strdup_from_base64)
  have cs: "c_string s = s" using assms(2) by (auto simp: c_string_def takeWhile_eq_all_conv)
  have sp: "(\<forall>c \<in> set ?t. c \<noteq> 0x2B \<and> c \<noteq> 0x2F) \<longleftrightarrow> (\<forall>c \<in> set ?t. \<not> b64_special c)"
    by (auto simp: b64_special_def)
  have "dap_enc_strdup_from_base64 (Some ?t) = Inr (Some s) \<longleftrightarrow> (\<forall>c \<in> set ?t. \<not> b64_special c)"
  proof
    assume "\<forall>c \<in> set ?t. \<not> b64_special c"
    then have "?d = s" using decode_url_agrees encoded_set decode_encode_tbl [OF b64_tables_ok(1)] by metis
    then show "dap_enc_strdup_from_base64 (Some ?t) = Inr (Some s)" using f assms(1) cs by simp
  next
    assume e: "dap_enc_strdup_from_base64 (Some ?t) = Inr (Some s)"
    then have "c_string ?d = s" unfolding f by (auto split: if_splits)
    then have "length s \<le> length ?d" using length_takeWhile_le [of "\<lambda>b. b \<noteq> 0" ?d] by (auto simp: c_string_def)
    then show "\<forall>c \<in> set ?t. \<not> b64_special c" using decode_url_shorter [of s] by fastforce
  qed
  then show ?thesis using strdup_to_base64 [of s] assms(3) sp by auto
qed

theorem base64_strdup_roundtrip_iff_witness:
  "\<exists>t. dap_enc_strdup_to_base64 [0x7E, 0x7E, 0x7E] = Inr t \<and>
     dap_enc_strdup_from_base64 (Some t) \<noteq> Inr (Some [0x7E, 0x7E, 0x7E])"
proof -
  have "b64_encode_tbl b64_standart_table [0x7E, 0x7E, 0x7E] = [0x66, 0x6E, 0x35, 0x2B]"
    by (simp add: b64_encode_simps b64_enc_group_4 b64_standart_table_list)
  then show ?thesis
    using base64_strdup_roundtrip_iff [of "[0x7E, 0x7E, 0x7E]"] strdup_to_base64 [of "[0x7E, 0x7E, 0x7E]"]
    by auto
qed

end
