(* ===== verification/BinTree.thy ===== *)
theory BinTree
  imports CString
begin

text \<open>
  The binary search tree of \<open>modules/core/src/dap_binary_tree.c\<close>: keys are C strings compared with
  \<open>strcmp\<close>, data are pointers (0 is NULL) which the tree frees when it deletes an element.  The
  contract is a finite map from keys to pointers (locale \<open>key_map\<close>).
\<close>

datatype dap_binary_tree =
    Nil_tree
  | Elm (elm_key: cstr) (elm_data: ptr) (elm_left: dap_binary_tree) (elm_right: dap_binary_tree)

definition KEY_LS :: "cstr \<Rightarrow> cstr \<Rightarrow> bool" where "KEY_LS a b \<longleftrightarrow> strcmp a b < 0"
definition KEY_GT :: "cstr \<Rightarrow> cstr \<Rightarrow> bool" where "KEY_GT a b \<longleftrightarrow> 0 < strcmp a b"
definition KEY_EQ :: "cstr \<Rightarrow> cstr \<Rightarrow> bool" where "KEY_EQ a b \<longleftrightarrow> strcmp a b = 0"

fun s_tree_search :: "dap_binary_tree \<Rightarrow> cstr \<Rightarrow> dap_binary_tree" where
  "s_tree_search Nil_tree k = Nil_tree"
| "s_tree_search (Elm key d l r) k =
     (if KEY_EQ k key then Elm key d l r
      else if KEY_LS k key then s_tree_search l k else s_tree_search r k)"

definition dap_binary_tree_search :: "dap_binary_tree \<Rightarrow> cstr \<Rightarrow> ptr" where
  "dap_binary_tree_search t k = (case s_tree_search t k of Nil_tree \<Rightarrow> 0 | Elm _ d _ _ \<Rightarrow> d)"

text \<open>The extreme elements; an empty tree is dereferenced.\<close>

fun s_tree_minimum :: "dap_binary_tree \<Rightarrow> (cstr \<times> ptr) res" where
  "s_tree_minimum Nil_tree = Inl NullDeref"
| "s_tree_minimum (Elm key d Nil_tree r) = Inr (key, d)"
| "s_tree_minimum (Elm key d (Elm key' d' l' r') r) = s_tree_minimum (Elm key' d' l' r')"

fun s_tree_maximum :: "dap_binary_tree \<Rightarrow> (cstr \<times> ptr) res" where
  "s_tree_maximum Nil_tree = Inl NullDeref"
| "s_tree_maximum (Elm key d l Nil_tree) = Inr (key, d)"
| "s_tree_maximum (Elm key d l (Elm key' d' l' r')) = s_tree_maximum (Elm key' d' l' r')"

definition dap_binary_tree_minimum :: "dap_binary_tree \<Rightarrow> ptr res" where
  "dap_binary_tree_minimum t = bindE (s_tree_minimum t) (\<lambda>(_, d). Inr d)"

definition dap_binary_tree_maximum :: "dap_binary_tree \<Rightarrow> ptr res" where
  "dap_binary_tree_maximum t = bindE (s_tree_maximum t) (\<lambda>(_, d). Inr d)"

fun s_tree_insert :: "dap_binary_tree \<Rightarrow> cstr \<Rightarrow> ptr \<Rightarrow> dap_binary_tree" where
  "s_tree_insert Nil_tree k x = Elm k x Nil_tree Nil_tree"
| "s_tree_insert (Elm key d l r) k x =
     (if KEY_LS k key then Elm key d (s_tree_insert l k x) r
      else if KEY_GT k key then Elm key d l (s_tree_insert r k x)
      else Elm key x l r)"

definition dap_binary_tree_insert :: "dap_binary_tree \<Rightarrow> cstr \<Rightarrow> ptr \<Rightarrow> dap_binary_tree" where
  "dap_binary_tree_insert t k x = s_tree_insert t k x"

text \<open>
  \<open>free\<close> with the set of the data that were released before: NULL is passed over, a second release is a fault.
\<close>

definition free_data :: "ptr set \<Rightarrow> ptr \<Rightarrow> ptr set res" where
  "free_data F d = (if d = 0 then Inr F else if d \<in> F then Inl BadFree else Inr (insert d F))"

text \<open>The second result is the set of released data afterwards.\<close>

fun s_tree_delete :: "ptr set \<Rightarrow> dap_binary_tree \<Rightarrow> cstr \<Rightarrow> (dap_binary_tree \<times> ptr set) res" where
  "s_tree_delete F Nil_tree k = Inr (Nil_tree, F)"
| "s_tree_delete F (Elm key d l r) k =
     (if KEY_LS k key then bindE (s_tree_delete F l k) (\<lambda>(l', F'). Inr (Elm key d l' r, F'))
      else if KEY_GT k key then bindE (s_tree_delete F r k) (\<lambda>(r', F'). Inr (Elm key d l r', F'))
      else if l \<noteq> Nil_tree \<and> r \<noteq> Nil_tree
      then bindE (s_tree_minimum r) (\<lambda>(mk, md).
           bindE (s_tree_delete F r mk) (\<lambda>(r', F'). Inr (Elm mk md l r', F')))
      else if l \<noteq> Nil_tree then bindE (free_data F d) (\<lambda>F'. Inr (l, F'))
      else if r \<noteq> Nil_tree then bindE (free_data F d) (\<lambda>F'. Inr (r, F'))
      else bindE (free_data F d) (\<lambda>F'. Inr (Nil_tree, F')))"

definition dap_binary_tree_delete :: "ptr set \<Rightarrow> dap_binary_tree \<Rightarrow> cstr \<Rightarrow> (dap_binary_tree \<times> ptr set) res" where
  "dap_binary_tree_delete F t k = s_tree_delete F t k"

fun s_tree_count :: "dap_binary_tree \<Rightarrow> nat \<Rightarrow> nat" where
  "s_tree_count Nil_tree n = n"
| "s_tree_count (Elm key d l r) n = s_tree_count r (s_tree_count l n + 1)"

definition dap_binary_tree_count :: "dap_binary_tree \<Rightarrow> nat" where
  "dap_binary_tree_count t = s_tree_count t 0"

text \<open>Children first, then the element.\<close>

fun s_tree_clear :: "ptr set \<Rightarrow> dap_binary_tree \<Rightarrow> ptr set res" where
  "s_tree_clear F Nil_tree = Inr F"
| "s_tree_clear F (Elm key d l r) =
     bindE (if l \<noteq> Nil_tree then s_tree_clear F l else Inr F) (\<lambda>F.
     bindE (if r \<noteq> Nil_tree then s_tree_clear F r else Inr F) (\<lambda>F. free_data F d))"

definition dap_binary_tree_clear :: "ptr set \<Rightarrow> dap_binary_tree \<Rightarrow> ptr set res" where
  "dap_binary_tree_clear F t = s_tree_clear F t"

text \<open>The list that is appended to, in order.\<close>

fun s_list_construct :: "ptr list \<Rightarrow> dap_binary_tree \<Rightarrow> ptr list" where
  "s_list_construct xs Nil_tree = xs"
| "s_list_construct xs (Elm key d l r) = s_list_construct (s_list_construct xs l @ [d]) r"

definition dap_binary_tree_inorder_list :: "dap_binary_tree \<Rightarrow> ptr list" where
  "dap_binary_tree_inorder_list t = (if t = Nil_tree then [] else s_list_construct [] t)"

section \<open>Abstraction: a map, and the elements in order\<close>

fun elements :: "dap_binary_tree \<Rightarrow> (cstr \<times> ptr) list" where
  "elements Nil_tree = []"
| "elements (Elm key d l r) = elements l @ (key, d) # elements r"

definition keys :: "dap_binary_tree \<Rightarrow> cstr set" where
  "keys t = fst ` set (elements t)"

fun bst :: "dap_binary_tree \<Rightarrow> bool" where
  "bst Nil_tree \<longleftrightarrow> True"
| "bst (Elm key d l r) \<longleftrightarrow> cstr_ok key \<and> bst l \<and> bst r \<and> (\<forall>k \<in> keys l. k < key) \<and> (\<forall>k \<in> keys r. key < k)"

definition tree_map :: "dap_binary_tree \<Rightarrow> cstr \<Rightarrow> ptr option" where
  "tree_map t k = map_of (elements t) k"

lemma keys_simps [simp]:
  "keys Nil_tree = {}"
  "keys (Elm key d l r) = keys l \<union> {key} \<union> keys r"
  by (auto simp: keys_def)

lemma bst_keys_ok: "bst t \<Longrightarrow> k \<in> keys t \<Longrightarrow> cstr_ok k"
  by (induction t) auto

lemma key_cmp:
  assumes "cstr_ok a" "cstr_ok b"
  shows "KEY_LS a b \<longleftrightarrow> a < b" "KEY_GT a b \<longleftrightarrow> b < a" "KEY_EQ a b \<longleftrightarrow> a = b"
  using strcmp_less [OF assms] strcmp_greater [OF assms] strcmp_eq [OF assms]
  by (simp_all add: KEY_LS_def KEY_GT_def KEY_EQ_def)

lemma tree_map_simps [simp]:
  "tree_map Nil_tree k = None"
  by (simp add: tree_map_def)

lemma tree_map_None: "k \<notin> keys t \<Longrightarrow> tree_map t k = None"
  by (simp add: tree_map_def keys_def map_of_eq_None_iff)

lemma tree_map_Elm:
  assumes "bst (Elm key d l r)"
  shows "tree_map (Elm key d l r) k =
     (if k = key then Some d else if k < key then tree_map l k else tree_map r k)"
proof -
  have "k \<notin> keys l" if "key \<le> k" using assms that by auto
  moreover have "k \<notin> keys r" if "k \<le> key" using assms that by auto
  ultimately show ?thesis
    using tree_map_None [of k l] tree_map_None [of k r]
    by (auto simp: tree_map_def map_add_def split: option.split)
qed

section \<open>Functional correctness\<close>

lemma search_spec:
  "bst t \<Longrightarrow> cstr_ok k \<Longrightarrow> dap_binary_tree_search t k = (case tree_map t k of None \<Rightarrow> 0 | Some d \<Rightarrow> d)"
proof (induction t)
  case (Elm key d l r)
  then show ?case
    using key_cmp [of k key] by (simp add: dap_binary_tree_search_def tree_map_Elm)
qed (simp add: dap_binary_tree_search_def)

lemma keys_insert: "bst t \<Longrightarrow> cstr_ok k \<Longrightarrow> keys (s_tree_insert t k x) = insert k (keys t)"
proof (induction t)
  case (Elm key d l r)
  then show ?case using key_cmp [of k key] by (auto simp: not_less)
qed simp

lemma bst_insert: "bst t \<Longrightarrow> cstr_ok k \<Longrightarrow> bst (s_tree_insert t k x)"
proof (induction t)
  case (Elm key d l r)
  then show ?case using key_cmp [of k key] by (auto simp: keys_insert)
qed simp

lemma insert_spec:
  "bst t \<Longrightarrow> cstr_ok k \<Longrightarrow> tree_map (s_tree_insert t k x) = (tree_map t)(k \<mapsto> x)"
proof (induction t)
  case Nil_tree
  then show ?case by (auto simp: tree_map_def)
next
  case (Elm key d l r)
  have "bst (s_tree_insert (Elm key d l r) k x)" using Elm.prems by (rule bst_insert)
  then show ?case
    using Elm key_cmp [of k key]
    by (auto simp: fun_eq_iff tree_map_Elm [OF Elm.prems(1)] tree_map_Elm not_less split: if_splits)
qed

lemma minimum_hd:
  "t \<noteq> Nil_tree \<Longrightarrow> \<exists>k d rest. s_tree_minimum t = Inr (k, d) \<and> elements t = (k, d) # rest"
proof (induction t rule: s_tree_minimum.induct)
  case (3 key d key' d' l' r' r)
  then obtain k e rest where "s_tree_minimum (Elm key' d' l' r') = Inr (k, e)"
    "elements (Elm key' d' l' r') = (k, e) # rest" by auto
  then show ?case by (simp only: s_tree_minimum.simps elements.simps(2) [of key] append_Cons) blast
qed simp_all

lemma maximum_last:
  "t \<noteq> Nil_tree \<Longrightarrow> \<exists>k d rest. s_tree_maximum t = Inr (k, d) \<and> elements t = rest @ [(k, d)]"
  by (induction t rule: s_tree_maximum.induct) auto

lemma bst_sorted: "bst t \<Longrightarrow> sorted_wrt (<) (map fst (elements t))"
proof (induction t)
  case (Elm key d l r)
  have k: "fst ` set (elements t') = keys t'" for t' by (simp add: keys_def)
  have "x < y" if "x \<in> keys l" "y \<in> keys r" for x y
    using that Elm.prems by (meson bst.simps(2) order.strict_trans)
  then show ?case using Elm by (auto simp: sorted_wrt_append k)
qed simp

lemma minimum_least:
  assumes "bst t" "s_tree_minimum t = Inr (k, d)"
  shows "k \<in> keys t" "\<And>k'. k' \<in> keys t \<Longrightarrow> k' \<noteq> k \<Longrightarrow> k < k'"
proof -
  have "t \<noteq> Nil_tree" using assms(2) by auto
  with minimum_hd [of t] assms(2) obtain rest where e: "elements t = (k, d) # rest" by auto
  then show "k \<in> keys t" by (simp add: keys_def)
  show "k < k'" if "k' \<in> keys t" "k' \<noteq> k" for k'
    using that e bst_sorted [OF assms(1)] by (auto simp: keys_def)
qed

lemma minimum_head: "s_tree_minimum t = Inr (k, d) \<Longrightarrow> \<exists>rest. elements t = (k, d) # rest"
  using minimum_hd [of t] by (cases "t = Nil_tree") auto

lemma filter_other:
  "k \<notin> keys t \<Longrightarrow> filter (\<lambda>(k', d). k' \<noteq> k) (elements t) = elements t"
  by (auto simp: filter_id_conv keys_def image_iff)

text \<open>What a deletion leaves, when it does not release twice.\<close>

lemma delete_spec:
  "bst t \<Longrightarrow> cstr_ok k \<Longrightarrow> s_tree_delete F t k = Inr (t', F') \<Longrightarrow>
     bst t' \<and> elements t' = filter (\<lambda>(k', d). k' \<noteq> k) (elements t)"
proof (induction t arbitrary: k t' F')
  case Nil_tree
  then show ?case by simp
next
  case (Elm key d l r)
  have ok: "cstr_ok key" "bst l" "bst r" using Elm.prems by simp_all
  note cmp = key_cmp [OF Elm.prems(2) ok(1)]
  have sub: "keys t' \<subseteq> keys u" if "elements t' = filter P (elements u)" for t' u P
    using that by (auto simp: keys_def)
  consider "k < key" | "key < k" | "k = key" by fastforce
  then show ?case
  proof cases
    case 1
    then obtain l' where l': "s_tree_delete F l k = Inr (l', F')" "t' = Elm key d l' r"
      using Elm.prems(3) cmp by (auto simp: bindE_eq_Inr)
    note d = Elm.IH(1) [OF ok(2) Elm.prems(2) l'(1)]
    have "k \<notin> keys r" using 1 Elm.prems(1) by auto
    then show ?thesis using l' d 1 Elm.prems(1) sub [OF conjunct2 [OF d]] filter_other [of k r] by auto
  next
    case 2
    then obtain r' where r': "s_tree_delete F r k = Inr (r', F')" "t' = Elm key d l r'"
      using Elm.prems(3) cmp by (auto simp: bindE_eq_Inr)
    note d = Elm.IH(2) [OF ok(3) Elm.prems(2) r'(1)]
    have "k \<notin> keys l" using 2 Elm.prems(1) by auto
    then show ?thesis using r' d 2 Elm.prems(1) sub [OF conjunct2 [OF d]] filter_other [of k l] by auto
  next
    case 3
    have nl: "k \<notin> keys l" "k \<notin> keys r" using 3 Elm.prems(1) by auto
    show ?thesis
    proof (cases "l \<noteq> Nil_tree \<and> r \<noteq> Nil_tree")
      case False
      then show ?thesis
        using 3 cmp ok nl Elm.prems(3) filter_other [of k l] filter_other [of k r]
        by (auto simp: bindE_eq_Inr split: if_splits)
    next
      case True
      with minimum_hd [of r] obtain mk md rest where m:
        "s_tree_minimum r = Inr (mk, md)" "elements r = (mk, md) # rest" by auto
      note least = minimum_least [OF ok(3) m(1)]
      have mok: "cstr_ok mk" using least(1) bst_keys_ok [OF ok(3)] by blast
      obtain r' where r': "s_tree_delete F r mk = Inr (r', F')" "t' = Elm mk md l r'"
        using Elm.prems(3) 3 cmp True m(1) by (auto simp: bindE_eq_Inr)
      have er: "bst r'" "elements r' = filter (\<lambda>(k', d). k' \<noteq> mk) (elements r)"
        using Elm.IH(2) [OF ok(3) mok r'(1)] by simp_all
      have dist: "mk \<notin> fst ` set rest" using bst_sorted [OF ok(3)] m(2) by auto
      then have "filter (\<lambda>(k', d). k' \<noteq> mk) rest = rest"
        by (auto simp: filter_id_conv image_iff)
      then have rest: "elements r' = rest" using er(2) m(2) by simp
      have "key < mk" using least(1) Elm.prems(1) by simp
      then have "k' < mk" if "k' \<in> keys l" for k'
        using that Elm.prems(1) by (meson bst.simps(2) order.strict_trans)
      moreover have "mk < k'" if "k' \<in> keys r'" for k'
      proof (rule least(2))
        show "k' \<in> keys r" using that sub [OF er(2)] by blast
        show "k' \<noteq> mk" using that dist rest by (auto simp: keys_def)
      qed
      ultimately have "bst (Elm mk md l r')" using ok(2) er(1) mok by simp
      moreover have "elements (Elm mk md l r') = elements l @ elements r" using rest m(2) by simp
      ultimately show ?thesis
        using 3 r'(2) nl filter_other [of k l] filter_other [of k r] by simp
    qed
  qed
qed

text \<open>The element of a key has at most one child; or it has two, and then the next greater element is given up instead.\<close>

definition one_child :: "dap_binary_tree \<Rightarrow> cstr \<Rightarrow> bool" where
  "one_child t k \<longleftrightarrow> (case s_tree_search t k of Nil_tree \<Rightarrow> True | Elm _ _ l r \<Rightarrow> l = Nil_tree \<or> r = Nil_tree)"

definition free_opt :: "ptr set \<Rightarrow> ptr option \<Rightarrow> ptr set res" where
  "free_opt F x = (case x of None \<Rightarrow> Inr F | Some d \<Rightarrow> free_data F d)"

lemma one_child_Elm:
  assumes "bst (Elm key d l r)" "cstr_ok k"
  shows "one_child (Elm key d l r) k \<longleftrightarrow>
    (if k = key then l = Nil_tree \<or> r = Nil_tree else if k < key then one_child l k else one_child r k)"
  using assms key_cmp [of k key] by (simp add: one_child_def)

lemma delete_one_child:
  "bst t \<Longrightarrow> cstr_ok k \<Longrightarrow> one_child t k \<Longrightarrow>
     \<exists>t'. s_tree_delete F t k = bindE (free_opt F (tree_map t k)) (\<lambda>F'. Inr (t', F'))"
proof (induction t)
  case Nil_tree
  then show ?case by (simp add: free_opt_def)
next
  case (Elm key d l r)
  have ok: "cstr_ok key" "bst l" "bst r" using Elm.prems by simp_all
  note cmp = key_cmp [OF Elm.prems(2) ok(1)]
  note sub = one_child_Elm [OF Elm.prems(1,2)] tree_map_Elm [OF Elm.prems(1), of k]
  have bind: "bindE (bindE m (\<lambda>F'. Inr (t', F'))) (\<lambda>(u, F'). Inr (g u, F')) = bindE m (\<lambda>F'. Inr (g t', F'))"
    for m :: "ptr set res" and t' g by (cases m) simp_all
  consider "k < key" | "key < k" | "k = key" by fastforce
  then show ?case
  proof cases
    case 1
    then show ?thesis using Elm.IH(1) [OF ok(2) Elm.prems(2)] Elm.prems(3) cmp sub bind [of _ _ "\<lambda>l. Elm key d l r"] by auto
  next
    case 2
    then show ?thesis using Elm.IH(2) [OF ok(3) Elm.prems(2)] Elm.prems(3) cmp sub bind [of _ _ "Elm key d l"] by auto
  next
    case 3
    then show ?thesis using Elm.prems(3) cmp sub by (auto simp: free_opt_def)
  qed
qed

lemma map_of_filter_other:
  "map_of (filter (\<lambda>(k', d). k' \<noteq> k) xs) = (map_of xs)(k := None)"
  by (induction xs) (auto simp: fun_eq_iff)

lemma delete_map:
  assumes "bst t" "cstr_ok k" "dap_binary_tree_delete F t k = Inr (t', F')"
  shows "bst t' \<and> tree_map t' = (tree_map t)(k := None)"
  using delete_spec [OF assms(1,2)] assms(3) map_of_filter_other [of k "elements t"]
  by (auto simp: dap_binary_tree_delete_def tree_map_def [abs_def])

lemma delete_fault: "bst t \<Longrightarrow> cstr_ok k \<Longrightarrow> s_tree_delete F t k = Inl e \<Longrightarrow> e = BadFree"
proof (induction t arbitrary: k)
  case (Elm key d l r)
  have ok: "cstr_ok key" "bst l" "bst r" using Elm.prems by simp_all
  note cmp = key_cmp [OF Elm.prems(2) ok(1)]
  have f: "free_data F d = Inl e \<Longrightarrow> e = BadFree" by (simp add: free_data_def split: if_splits)
  show ?case
  proof (cases "k = key \<and> l \<noteq> Nil_tree \<and> r \<noteq> Nil_tree")
    case True
    with minimum_hd [of r] obtain mk md rest where m:
      "s_tree_minimum r = Inr (mk, md)" "elements r = (mk, md) # rest" by auto
    have "cstr_ok mk" using bst_keys_ok [OF ok(3)] minimum_least(1) [OF ok(3) m(1)] by blast
    then show ?thesis using Elm.IH(2) [OF ok(3)] Elm.prems(3) True cmp m(1)
      by (auto simp: bindE_def split: sum.splits)
  next
    case False
    then show ?thesis using Elm.IH(1) [OF ok(2) Elm.prems(2)] Elm.IH(2) [OF ok(3) Elm.prems(2)] Elm.prems(3) cmp f
      by (auto simp: bindE_def split: sum.splits if_splits)
  qed
qed simp

lemma count_spec: "s_tree_count t n = n + length (elements t)"
  by (induction t arbitrary: n) simp_all

lemma construct_spec: "s_list_construct xs t = xs @ map snd (elements t)"
  by (induction t arbitrary: xs) simp_all



lemma clear_Elm: "s_tree_clear F (Elm key d l r) =
    bindE (s_tree_clear F l) (\<lambda>F. bindE (s_tree_clear F r) (\<lambda>F. free_data F d))"
  by (cases "l = Nil_tree"; cases "r = Nil_tree") simp_all




lemma clear_owned:
  "distinct (map snd (elements t)) \<Longrightarrow> 0 \<notin> snd ` set (elements t) \<Longrightarrow> F \<inter> snd ` set (elements t) = {} \<Longrightarrow>
     s_tree_clear F t = Inr (F \<union> snd ` set (elements t))"
proof (induction t arbitrary: F)
  case (Elm key d l r)
  have "s_tree_clear F l = Inr (F \<union> snd ` set (elements l))" using Elm.prems by (intro Elm.IH(1)) auto
  moreover have "s_tree_clear (F \<union> snd ` set (elements l)) r = Inr (F \<union> snd ` set (elements l) \<union> snd ` set (elements r))"
    using Elm.prems by (intro Elm.IH(2)) auto
  ultimately show ?case using Elm.prems by (auto simp: clear_Elm free_data_def simp del: s_tree_clear.simps)
qed simp



section \<open>The contract and its clients\<close>

text \<open>Data that are put in are newly allocated, so they are not released any more.\<close>

datatype map_op = Put cstr ptr | Del cstr

fun run_map :: "('m \<Rightarrow> cstr \<Rightarrow> ptr \<Rightarrow> 'm) \<Rightarrow> (ptr set \<Rightarrow> 'm \<Rightarrow> cstr \<Rightarrow> ('m \<times> ptr set) res) \<Rightarrow> ptr set \<Rightarrow> 'm \<Rightarrow>
    map_op list \<Rightarrow> ('m \<times> ptr set) res" where
  "run_map ins del F m [] = Inr (m, F)"
| "run_map ins del F m (Put k x # ops) = run_map ins del (F - {x}) (ins m k x) ops"
| "run_map ins del F m (Del k # ops) = bindE (del F m k) (\<lambda>(m', F'). run_map ins del F' m' ops)"

text \<open>The map the operations build, and the data they release: those of the keys deleted.\<close>

fun ref_map :: "(cstr \<rightharpoonup> ptr) \<Rightarrow> map_op list \<Rightarrow> (cstr \<rightharpoonup> ptr)" where
  "ref_map m [] = m"
| "ref_map m (Put k x # ops) = ref_map (m(k \<mapsto> x)) ops"
| "ref_map m (Del k # ops) = ref_map (m(k := None)) ops"

fun ref_freed :: "(cstr \<rightharpoonup> ptr) \<Rightarrow> ptr set \<Rightarrow> map_op list \<Rightarrow> ptr set" where
  "ref_freed m F [] = F"
| "ref_freed m F (Put k x # ops) = ref_freed (m(k \<mapsto> x)) (F - {x}) ops"
| "ref_freed m F (Del k # ops) = ref_freed (m(k := None)) (case m k of None \<Rightarrow> F | Some d \<Rightarrow> insert d F) ops"

fun op_key :: "map_op \<Rightarrow> cstr" where
  "op_key (Put k x) = k"
| "op_key (Del k) = k"

locale key_map =
  fixes inv :: "'m \<Rightarrow> bool"
    and abs :: "'m \<Rightarrow> cstr \<Rightarrow> ptr option"
    and ins :: "'m \<Rightarrow> cstr \<Rightarrow> ptr \<Rightarrow> 'm"
    and del :: "ptr set \<Rightarrow> 'm \<Rightarrow> cstr \<Rightarrow> ('m \<times> ptr set) res"
    and search :: "'m \<Rightarrow> cstr \<Rightarrow> ptr"
  assumes ins_law: "inv m \<Longrightarrow> cstr_ok k \<Longrightarrow> inv (ins m k x) \<and> abs (ins m k x) = (abs m)(k \<mapsto> x)"
    and del_law: "inv m \<Longrightarrow> cstr_ok k \<Longrightarrow> del F m k = Inr (m', F') \<Longrightarrow> inv m' \<and> abs m' = (abs m)(k := None)"
    and del_fault: "inv m \<Longrightarrow> cstr_ok k \<Longrightarrow> del F m k = Inl e \<Longrightarrow> e = BadFree"
    and search_law: "inv m \<Longrightarrow> cstr_ok k \<Longrightarrow> search m k = (case abs m k of None \<Rightarrow> 0 | Some d \<Rightarrow> d)"
begin

lemma run_refines:
  assumes "inv m" "list_all (\<lambda>op. cstr_ok (op_key op)) ops"
  shows "case run_map ins del F m ops of Inl e \<Rightarrow> e = BadFree
    | Inr (m', F') \<Rightarrow> inv m' \<and> abs m' = ref_map (abs m) ops"
  using assms
proof (induction ops arbitrary: m F)
  case (Cons op ops)
  show ?case
  proof (cases op)
    case (Put k x)
    then have "inv (ins m k x)" "abs (ins m k x) = (abs m)(k \<mapsto> x)" "list_all (\<lambda>op. cstr_ok (op_key op)) ops"
      using Cons.prems ins_law [of m k x] by simp_all
    then have "case run_map ins del (F - {x}) (ins m k x) ops of Inl e \<Rightarrow> e = BadFree
      | Inr (m', F') \<Rightarrow> inv m' \<and> abs m' = ref_map ((abs m)(k \<mapsto> x)) ops"
      using Cons.IH [of "ins m k x" "F - {x}"] by (simp only:)
    then show ?thesis unfolding Put by (simp only: run_map.simps ref_map.simps)
  next
    case (Del k)
    have k: "cstr_ok k" "list_all (\<lambda>op. cstr_ok (op_key op)) ops" using Del Cons.prems(2) by simp_all
    show ?thesis
    proof (cases "del F m k")
      case (Inl e)
      then show ?thesis using del_fault [OF Cons.prems(1) k(1) Inl] unfolding Del by simp
    next
      case (Inr z)
      obtain m' F' where z: "z = (m', F')" by (cases z)
      have l: "inv m'" "abs m' = (abs m)(k := None)" using Inr z del_law [OF Cons.prems(1) k(1), of F m' F'] by simp_all
      show ?thesis using Cons.IH [OF l(1) k(2), of F'] unfolding Del run_map.simps ref_map.simps Inr z l(2) bindE_simps prod.case .
    qed
  qed
qed simp

lemma search_after_put:
  assumes "inv m" "cstr_ok k" "cstr_ok k'"
  shows "search (ins m k x) k' = (if k' = k then x else search m k')"
  using assms ins_law [OF assms(1,2), of x] search_law by simp

end

interpretation bt: key_map bst tree_map dap_binary_tree_insert dap_binary_tree_delete dap_binary_tree_search
proof (unfold_locales, goal_cases)
  case (1 m k x)
  then show ?case by (simp add: dap_binary_tree_insert_def bst_insert insert_spec)
next
  case (2 m k F m' F')
  then show ?case by (rule delete_map)
next
  case (3 m k F e)
  then show ?case by (auto simp: dap_binary_tree_delete_def dest: delete_fault)
next
  case (4 m k)
  then show ?case by (rule search_spec)
qed

section \<open>Ownership of the data\<close>

definition tree_data :: "dap_binary_tree \<Rightarrow> ptr set" where
  "tree_data t = snd ` set (elements t)"

text \<open>No datum is NULL, released, or held twice.\<close>

definition owned :: "ptr set \<Rightarrow> dap_binary_tree \<Rightarrow> bool" where
  "owned F t \<longleftrightarrow> distinct (map snd (elements t)) \<and> 0 \<notin> tree_data t \<and> F \<inter> tree_data t = {}"

text \<open>Each datum is new, and no element that has two children is deleted.\<close>

fun ops_owned :: "ptr set \<Rightarrow> dap_binary_tree \<Rightarrow> map_op list \<Rightarrow> bool" where
  "ops_owned F t [] \<longleftrightarrow> True"
| "ops_owned F t (Put k x # ops) \<longleftrightarrow> x \<noteq> 0 \<and> x \<notin> tree_data t \<and> ops_owned (F - {x}) (dap_binary_tree_insert t k x) ops"
| "ops_owned F t (Del k # ops) \<longleftrightarrow> one_child t k \<and>
     (case dap_binary_tree_delete F t k of Inl e \<Rightarrow> True | Inr (t', F') \<Rightarrow> ops_owned F' t' ops)"

lemma bst_distinct: "bst t \<Longrightarrow> distinct (map fst (elements t))"
  using bst_sorted strict_sorted_iff by blast

lemma tree_data_ran: "bst t \<Longrightarrow> tree_data t = ran (tree_map t)"
  using ran_distinct [OF bst_distinct] by (simp add: tree_data_def tree_map_def [abs_def])

lemma owned_map: "bst t \<Longrightarrow> owned F t \<longleftrightarrow> inj_on (tree_map t) (dom (tree_map t)) \<and> 0 \<notin> ran (tree_map t) \<and> F \<inter> ran (tree_map t) = {}"
proof -
  assume t: "bst t"
  note d = bst_distinct [OF t]
  have dm: "dom (tree_map t) = fst ` set (elements t)" by (simp add: tree_map_def [abs_def] dom_map_of_conv_image_fst)
  have at: "tree_map t (fst e) = Some (snd e)" if "e \<in> set (elements t)" for e
    using that d by (simp add: tree_map_def)
  have "distinct (map snd (elements t)) \<longleftrightarrow> inj_on snd (set (elements t))"
    using d by (simp add: distinct_map)
  also have "\<dots> \<longleftrightarrow> inj_on (tree_map t) (dom (tree_map t))"
  proof
    assume "inj_on snd (set (elements t))"
    then show "inj_on (tree_map t) (dom (tree_map t))" unfolding dm by (auto simp: inj_on_def at)
  next
    assume i: "inj_on (tree_map t) (dom (tree_map t))"
    show "inj_on snd (set (elements t))"
    proof (rule inj_onI)
      fix e f assume e: "e \<in> set (elements t)" "f \<in> set (elements t)" "snd e = snd f"
      then have "tree_map t (fst e) = tree_map t (fst f)" by (simp add: at)
      then have "fst e = fst f" using i e unfolding dm by (auto simp: inj_on_def)
      then show "e = f" using e(3) by (simp add: prod_eq_iff)
    qed
  qed
  finally show ?thesis unfolding owned_def tree_data_ran [OF t] by simp
qed

lemma run_owned:
  "bst t \<Longrightarrow> owned F t \<Longrightarrow> list_all (\<lambda>op. cstr_ok (op_key op)) ops \<Longrightarrow> ops_owned F t ops \<Longrightarrow>
     \<exists>t' F'. run_map dap_binary_tree_insert dap_binary_tree_delete F t ops = Inr (t', F') \<and> bst t' \<and> owned F' t' \<and>
       F' = ref_freed (tree_map t) F ops"
proof (induction ops arbitrary: F t)
  case (Cons op ops)
  note o = Cons.prems(2) [unfolded owned_map [OF Cons.prems(1)]]
  show ?case
  proof (cases op)
    case (Put k x)
    let ?t = "dap_binary_tree_insert t k x"
    have k: "cstr_ok k" "x \<noteq> 0" "x \<notin> ran (tree_map t)" "ops_owned (F - {x}) ?t ops" "list_all (\<lambda>op. cstr_ok (op_key op)) ops"
      using Cons.prems Put tree_data_ran [OF Cons.prems(1)] by simp_all
    have t: "bst ?t" "tree_map ?t = (tree_map t)(k \<mapsto> x)" using bt.ins_law [OF Cons.prems(1) k(1)] by blast+
    have r: "ran ((tree_map t)(k \<mapsto> x)) \<subseteq> insert x (ran (tree_map t))" by (auto simp: ran_def)
    have "inj_on ((tree_map t)(k \<mapsto> x)) (dom ((tree_map t)(k \<mapsto> x)))"
      using o k(3) by (auto simp: inj_on_def ran_def dom_def)
    then have "owned (F - {x}) ?t" unfolding owned_map [OF t(1)] t(2) using o k(2) r by blast
    then show ?thesis using Cons.IH [OF t(1) _ k(5) k(4)] t(2) Put by (simp del: fun_upd_apply)
  next
    case (Del k)
    have k: "cstr_ok k" "one_child t k" "list_all (\<lambda>op. cstr_ok (op_key op)) ops" using Cons.prems Del by simp_all
    let ?F = "case tree_map t k of None \<Rightarrow> F | Some d \<Rightarrow> insert d F"
    have fr: "free_opt F (tree_map t k) = Inr ?F"
      using o by (auto simp: free_opt_def free_data_def ran_def split: option.splits)
    obtain t' where d: "dap_binary_tree_delete F t k = Inr (t', ?F)"
      using delete_one_child [OF Cons.prems(1) k(1,2), of F] fr by (auto simp: dap_binary_tree_delete_def)
    have t: "bst t'" "tree_map t' = (tree_map t)(k := None)" using bt.del_law [OF Cons.prems(1) k(1) d] by blast+
    have "ran ((tree_map t)(k := None)) \<subseteq> ran (tree_map t)" by (auto simp: ran_def)
    moreover have "inj_on ((tree_map t)(k := None)) (dom ((tree_map t)(k := None)))"
      using o by (auto simp: inj_on_def)
    moreover have "?F \<inter> ran ((tree_map t)(k := None)) = {}"
      using o by (auto simp: ran_def inj_on_def dom_def split: option.splits if_splits)
    ultimately have "owned ?F t'" unfolding owned_map [OF t(1)] t(2) using o by blast
    moreover have "ops_owned ?F t' ops" using Cons.prems(4) Del d by simp
    ultimately show ?thesis using Cons.IH [OF t(1) _ k(3)] t(2) Del d by (simp del: fun_upd_apply)
  qed
qed simp

section \<open>Properties\<close>

text \<open>
  C32: a sequence of insertions and deletions on an empty tree runs to the end or releases a datum twice; at the end
  the tree is a search tree that stands for the map the same operations build: a search returns the data last stored
  under the key (or NULL), the in-order list is the data sorted by key, and the count is the number of keys.  When each
  datum put in is new and no element with two children is deleted, the sequence does run to the end, what was released
  are the data of the deleted keys, none of them is in the tree, and the tree can be cleared.
\<close>

theorem tree_runs_as_map:
  assumes "list_all (\<lambda>op. cstr_ok (op_key op)) ops" "cstr_ok k"
  shows "case run_map dap_binary_tree_insert dap_binary_tree_delete {} Nil_tree ops of
      Inl e \<Rightarrow> e = BadFree \<and> \<not> ops_owned {} Nil_tree ops
    | Inr (t, F) \<Rightarrow> bst t \<and>
        dap_binary_tree_search t k = (case ref_map (\<lambda>_. None) ops k of None \<Rightarrow> 0 | Some d \<Rightarrow> d) \<and>
        sorted_wrt (<) (map fst (elements t)) \<and> dap_binary_tree_inorder_list t = map snd (elements t) \<and>
        dap_binary_tree_count t = length (elements t) \<and>
        (ops_owned {} Nil_tree ops \<longrightarrow> F = ref_freed (\<lambda>_. None) {} ops \<and> F \<inter> tree_data t = {} \<and>
          dap_binary_tree_clear F t = Inr (F \<union> tree_data t))"
proof -
  let ?run = "run_map dap_binary_tree_insert dap_binary_tree_delete {} Nil_tree ops"
  have n: "tree_map Nil_tree = (\<lambda>_. None)" "bst Nil_tree" by (simp_all add: fun_eq_iff)
  note r = bt.run_refines [OF n(2) assms(1), of "{}", unfolded n(1)]
  have own: "\<exists>t F. ?run = Inr (t, F) \<and> owned F t \<and> F = ref_freed (\<lambda>_. None) {} ops" if "ops_owned {} Nil_tree ops"
    using run_owned [OF n(2) _ assms(1) that] n(1) by (auto simp: owned_def tree_data_def)
  show ?thesis
  proof (cases ?run)
    case (Inl e)
    then show ?thesis using r own by auto
  next
    case (Inr z)
    obtain t F where z: "z = (t, F)" by (cases z)
    have t: "bst t" "tree_map t = ref_map (\<lambda>_. None) ops" using r Inr z by simp_all
    have "F = ref_freed (\<lambda>_. None) {} ops \<and> F \<inter> tree_data t = {} \<and> dap_binary_tree_clear F t = Inr (F \<union> tree_data t)"
      if "ops_owned {} Nil_tree ops"
    proof -
      have "owned F t" "F = ref_freed (\<lambda>_. None) {} ops" using own [OF that] Inr z by auto
      then show ?thesis using clear_owned [of t F] unfolding owned_def tree_data_def dap_binary_tree_clear_def by blast
    qed
    then have "ops_owned {} Nil_tree ops \<longrightarrow> F = ref_freed (\<lambda>_. None) {} ops \<and> F \<inter> tree_data t = {} \<and>
        dap_binary_tree_clear F t = Inr (F \<union> tree_data t)" by blast
    moreover have "dap_binary_tree_inorder_list t = map snd (elements t)" "dap_binary_tree_count t = length (elements t)"
      by (simp_all add: dap_binary_tree_inorder_list_def construct_spec dap_binary_tree_count_def count_spec)
    ultimately show ?thesis
      unfolding Inr z sum.case prod.case search_spec [OF t(1) assms(2)] t(2) using bst_sorted [OF t(1)] t(1) by blast
  qed
qed

theorem tree_runs_as_map_witness:
  "\<exists>t F. run_map dap_binary_tree_insert dap_binary_tree_delete {} Nil_tree
      [Put [98] 1, Put [97] 2, Put [99] 3, Del [97], Del [98], Put [97] 4] = Inr (t, F) \<and> bst t \<and>
    dap_binary_tree_search t [97] = 4 \<and> F = {1, 2} \<and> dap_binary_tree_clear F t = Inr ({1, 2} \<union> tree_data t)"
proof -
  let ?ops = "[Put [98] 1, Put [97] 2, Put [99] 3, Del [97], Del [98], Put [97 :: byte] (4 :: nat)]"
  have "ops_owned {} Nil_tree ?ops" by code_simp
  moreover have "ref_freed (\<lambda>_. None) {} ?ops = {1, 2}" by auto
  ultimately show ?thesis using tree_runs_as_map [of ?ops "[97]"]
    by (auto simp: cstr_ok_def split: sum.splits)
qed



end
