(* ===== verification/DList.thy ===== *)
theory DList
  imports Simulation "HOL-Library.Multiset"
begin

text \<open>
  The doubly-linked list of \<open>modules/core/src/dap_list.c\<close> over an explicit heap of cells: an address
  is a natural number, 0 is NULL, and every read or write of a cell that is not allocated is a
  fault.  A traversal is given as many steps as addresses were ever handed out, which no walk over
  distinct allocated cells can use up; a loop that does use them up goes round a cycle.
\<close>

section \<open>The heap\<close>

record node =
  ndata :: ptr
  nprev :: ptr
  nnext :: ptr

record heap =
  cells :: "ptr \<Rightarrow> node option"
  fresh :: ptr

definition rd :: "heap \<Rightarrow> ptr \<Rightarrow> node res" where
  "rd h p = (case cells h p of Some nd \<Rightarrow> Inr nd | None \<Rightarrow> Inl (if p = 0 then NullDeref else BadFree))"

definition upd :: "(node \<Rightarrow> node) \<Rightarrow> ptr \<Rightarrow> heap \<Rightarrow> heap res" where
  "upd f p h = bindE (rd h p) (\<lambda>nd. Inr (h\<lparr>cells := (cells h)(p \<mapsto> f nd)\<rparr>))"

definition set_data :: "ptr \<Rightarrow> ptr \<Rightarrow> heap \<Rightarrow> heap res" where
  "set_data p d = upd (\<lambda>nd. nd\<lparr>ndata := d\<rparr>) p"

definition set_prev :: "ptr \<Rightarrow> ptr \<Rightarrow> heap \<Rightarrow> heap res" where
  "set_prev p q = upd (\<lambda>nd. nd\<lparr>nprev := q\<rparr>) p"

definition set_next :: "ptr \<Rightarrow> ptr \<Rightarrow> heap \<Rightarrow> heap res" where
  "set_next p q = upd (\<lambda>nd. nd\<lparr>nnext := q\<rparr>) p"

definition dap_list_alloc_no_z :: "node \<Rightarrow> heap \<Rightarrow> ptr \<times> heap" where
  "dap_list_alloc_no_z garbage h = (fresh h, h\<lparr>cells := (cells h)(fresh h \<mapsto> garbage), fresh := fresh h + 1\<rparr>)"

definition dap_list_alloc :: "heap \<Rightarrow> ptr \<times> heap" where
  "dap_list_alloc h = (fresh h, h\<lparr>cells := (cells h)(fresh h \<mapsto> \<lparr>ndata = 0, nprev = 0, nnext = 0\<rparr>),
     fresh := fresh h + 1\<rparr>)"

definition dap_list_free1 :: "ptr \<Rightarrow> heap \<Rightarrow> heap res" where
  "dap_list_free1 p h =
     (if p = 0 then Inr h else bindE (rd h p) (\<lambda>_. Inr (h\<lparr>cells := (cells h)(p := None)\<rparr>)))"

section \<open>Traversals\<close>

fun free_loop :: "nat \<Rightarrow> ptr \<Rightarrow> heap \<Rightarrow> heap res" where
  "free_loop 0 p h = (if p = 0 then Inr h else Inl Diverges)"
| "free_loop (Suc n) p h =
     (if p = 0 then Inr h
      else bindE (rd h p) (\<lambda>nd. bindE (dap_list_free1 p h) (\<lambda>h'. free_loop n (nnext nd) h')))"

definition dap_list_free :: "ptr \<Rightarrow> heap \<Rightarrow> heap res" where
  "dap_list_free list h = free_loop (fresh h) list h"

text \<open>A walk along \<open>next\<close> that collects what \<open>f\<close> makes of each cell.\<close>

fun walk :: "nat \<Rightarrow> heap \<Rightarrow> ptr \<Rightarrow> (ptr \<Rightarrow> node \<Rightarrow> 'a) \<Rightarrow> ('a list) res" where
  "walk 0 h p f = (if p = 0 then Inr [] else Inl Diverges)"
| "walk (Suc n) h p f =
     (if p = 0 then Inr []
      else bindE (rd h p) (\<lambda>nd. bindE (walk n h (nnext nd) f) (\<lambda>rest. Inr (f p nd # rest))))"

text \<open>\<open>dap_list_foreach\<close> and \<open>dap_list_free_full\<close> hand the data of the cells to their callback in order.\<close>

definition dap_list_foreach :: "ptr \<Rightarrow> heap \<Rightarrow> (ptr list) res" where
  "dap_list_foreach list h = walk (fresh h) h list (\<lambda>p nd. ndata nd)"

definition dap_list_free_full :: "ptr \<Rightarrow> heap \<Rightarrow> (ptr list \<times> heap) res" where
  "dap_list_free_full list h =
     bindE (walk (fresh h) h list (\<lambda>p nd. ndata nd)) (\<lambda>ds.
     bindE (dap_list_free list h) (\<lambda>h'. Inr (ds, h')))"

fun last_loop :: "nat \<Rightarrow> heap \<Rightarrow> ptr \<Rightarrow> ptr res" where
  "last_loop 0 h p = Inl Diverges"
| "last_loop (Suc n) h p = bindE (rd h p) (\<lambda>nd. if nnext nd = 0 then Inr p else last_loop n h (nnext nd))"

definition dap_list_last :: "ptr \<Rightarrow> heap \<Rightarrow> ptr res" where
  "dap_list_last list h = (if list = 0 then Inr 0 else last_loop (fresh h) h list)"

fun first_loop :: "nat \<Rightarrow> heap \<Rightarrow> ptr \<Rightarrow> ptr res" where
  "first_loop 0 h p = Inl Diverges"
| "first_loop (Suc n) h p = bindE (rd h p) (\<lambda>nd. if nprev nd = 0 then Inr p else first_loop n h (nprev nd))"

definition dap_list_first :: "ptr \<Rightarrow> heap \<Rightarrow> ptr res" where
  "dap_list_first list h = (if list = 0 then Inr 0 else first_loop (fresh h) h list)"

fun dap_list_nth :: "ptr \<Rightarrow> nat \<Rightarrow> heap \<Rightarrow> ptr res" where
  "dap_list_nth list 0 h = Inr list"
| "dap_list_nth list (Suc n) h =
     (if list = 0 then Inr 0 else bindE (rd h list) (\<lambda>nd. dap_list_nth (nnext nd) n h))"

fun dap_list_nth_prev :: "ptr \<Rightarrow> nat \<Rightarrow> heap \<Rightarrow> ptr res" where
  "dap_list_nth_prev list 0 h = Inr list"
| "dap_list_nth_prev list (Suc n) h =
     (if list = 0 then Inr 0 else bindE (rd h list) (\<lambda>nd. dap_list_nth_prev (nprev nd) n h))"

definition dap_list_nth_data :: "ptr \<Rightarrow> nat \<Rightarrow> heap \<Rightarrow> ptr res" where
  "dap_list_nth_data list n h =
     bindE (dap_list_nth list n h) (\<lambda>p. if p = 0 then Inr 0 else bindE (rd h p) (\<lambda>nd. Inr (ndata nd)))"

text \<open>The searches stop at the first cell that satisfies their test; \<open>i\<close> counts the cells passed.\<close>

fun find_loop :: "nat \<Rightarrow> heap \<Rightarrow> ptr \<Rightarrow> int \<Rightarrow> (ptr \<Rightarrow> node \<Rightarrow> bool) \<Rightarrow> (ptr \<times> int) res" where
  "find_loop 0 h p i P = (if p = 0 then Inr (0, -1) else Inl Diverges)"
| "find_loop (Suc n) h p i P =
     (if p = 0 then Inr (0, -1)
      else bindE (rd h p) (\<lambda>nd. if P p nd then Inr (p, i) else find_loop n h (nnext nd) (i + 1) P))"

definition dap_list_find :: "ptr \<Rightarrow> ptr \<Rightarrow> heap \<Rightarrow> ptr res" where
  "dap_list_find list d h = bindE (find_loop (fresh h) h list 0 (\<lambda>p nd. ndata nd = d)) (\<lambda>(p, i). Inr p)"

definition dap_list_find_custom :: "ptr \<Rightarrow> ptr \<Rightarrow> (ptr \<Rightarrow> ptr \<Rightarrow> int) \<Rightarrow> heap \<Rightarrow> ptr res" where
  "dap_list_find_custom list d func h =
     bindE (find_loop (fresh h) h list 0 (\<lambda>p nd. func (ndata nd) d = 0)) (\<lambda>(p, i). Inr p)"

definition dap_list_position :: "ptr \<Rightarrow> ptr \<Rightarrow> heap \<Rightarrow> int res" where
  "dap_list_position list llink h = bindE (find_loop (fresh h) h list 0 (\<lambda>p nd. p = llink)) (\<lambda>(p, i). Inr i)"

definition dap_list_index :: "ptr \<Rightarrow> ptr \<Rightarrow> heap \<Rightarrow> int res" where
  "dap_list_index list d h = bindE (find_loop (fresh h) h list 0 (\<lambda>p nd. ndata nd = d)) (\<lambda>(p, i). Inr i)"

text \<open>The counter is an \<open>unsigned int\<close>.\<close>

definition dap_list_length :: "ptr \<Rightarrow> heap \<Rightarrow> u32 res" where
  "dap_list_length list h = bindE (walk (fresh h) h list (\<lambda>p nd. ())) (\<lambda>us. Inr (word_of_nat (length us)))"

section \<open>Insertions\<close>

definition dap_list_append :: "ptr \<Rightarrow> ptr \<Rightarrow> heap \<Rightarrow> (ptr \<times> heap) res" where
  "dap_list_append list data h =
     (let (new_list, h1) = dap_list_alloc h in
      bindE (set_data new_list data h1) (\<lambda>h2.
      bindE (set_next new_list 0 h2) (\<lambda>h3.
      if list \<noteq> 0
      then bindE (dap_list_last list h3) (\<lambda>lst.
           bindE (set_next lst new_list h3) (\<lambda>h4.
           bindE (set_prev new_list lst h4) (\<lambda>h5. Inr (list, h5))))
      else bindE (set_prev new_list 0 h3) (\<lambda>h4. Inr (new_list, h4)))))"

definition dap_list_prepend :: "ptr \<Rightarrow> ptr \<Rightarrow> heap \<Rightarrow> (ptr \<times> heap) res" where
  "dap_list_prepend list data h =
     (let (new_list, h1) = dap_list_alloc h in
      bindE (set_data new_list data h1) (\<lambda>h2.
      bindE (set_next new_list list h2) (\<lambda>h3.
      if list \<noteq> 0
      then bindE (rd h3 list) (\<lambda>nd.
           bindE (set_prev new_list (nprev nd) h3) (\<lambda>h4.
           bindE (if nprev nd \<noteq> 0 then set_next (nprev nd) new_list h4 else Inr h4) (\<lambda>h5.
           bindE (set_prev list new_list h5) (\<lambda>h6. Inr (new_list, h6)))))
      else bindE (set_prev new_list 0 h3) (\<lambda>h4. Inr (new_list, h4)))))"

definition dap_list_insert :: "ptr \<Rightarrow> ptr \<Rightarrow> int \<Rightarrow> heap \<Rightarrow> (ptr \<times> heap) res" where
  "dap_list_insert list data position h =
     (if position < 0 then dap_list_append list data h
      else if position = 0 then dap_list_prepend list data h
      else bindE (dap_list_nth list (nat position) h) (\<lambda>tmp_list.
           if tmp_list = 0 then dap_list_append list data h
           else let (new_list, h1) = dap_list_alloc h in
                bindE (set_data new_list data h1) (\<lambda>h2.
                bindE (rd h2 tmp_list) (\<lambda>nd.
                bindE (set_prev new_list (nprev nd) h2) (\<lambda>h3.
                bindE (set_next (nprev nd) new_list h3) (\<lambda>h4.
                bindE (set_next new_list tmp_list h4) (\<lambda>h5.
                bindE (set_prev tmp_list new_list h5) (\<lambda>h6. Inr (list, h6)))))))))"

text \<open>\<open>dap_return_val_if_fail\<close> returns its second argument when the condition fails.\<close>

definition dap_list_insert_before :: "ptr \<Rightarrow> ptr \<Rightarrow> ptr \<Rightarrow> heap \<Rightarrow> (ptr \<times> heap) res" where
  "dap_list_insert_before list sibling data h =
     (if list = 0
      then let (l, h1) = dap_list_alloc h in bindE (set_data l data h1) (\<lambda>h2. Inr (l, h2))
      else if sibling \<noteq> 0
      then let (nd, h1) = dap_list_alloc h in
           bindE (set_data nd data h1) (\<lambda>h2.
           bindE (rd h2 sibling) (\<lambda>sb.
           bindE (set_prev nd (nprev sb) h2) (\<lambda>h3.
           bindE (set_next nd sibling h3) (\<lambda>h4.
           bindE (set_prev sibling nd h4) (\<lambda>h5.
           if nprev sb \<noteq> 0 then bindE (set_next (nprev sb) nd h5) (\<lambda>h6. Inr (list, h6))
           else Inr (nd, h5))))))
      else bindE (last_loop (fresh h) h list) (\<lambda>lst.
           let (nd, h1) = dap_list_alloc h in
           bindE (set_next lst nd h1) (\<lambda>h2.
           bindE (set_data nd data h2) (\<lambda>h3.
           bindE (set_prev nd lst h3) (\<lambda>h4.
           bindE (set_next nd 0 h4) (\<lambda>h5. Inr (list, h5)))))))"

definition dap_list_concat :: "ptr \<Rightarrow> ptr \<Rightarrow> heap \<Rightarrow> (ptr \<times> heap) res" where
  "dap_list_concat list1 list2 h =
     (if list2 \<noteq> 0
      then bindE (dap_list_last list1 h) (\<lambda>tmp_list.
           bindE (if tmp_list \<noteq> 0 then set_next tmp_list list2 h else Inr h) (\<lambda>h1.
           bindE (set_prev list2 tmp_list h1) (\<lambda>h2.
           Inr (if tmp_list \<noteq> 0 then list1 else list2, h2))))
      else Inr (list1, h))"

section \<open>Removals\<close>

definition dap_list_remove_link :: "ptr \<Rightarrow> ptr \<Rightarrow> heap \<Rightarrow> (ptr \<times> heap) res" where
  "dap_list_remove_link list link h =
     (if link = 0 then Inr (list, h)
      else bindE (rd h link) (\<lambda>lk.
           bindE (if nprev lk \<noteq> 0
                  then bindE (rd h (nprev lk)) (\<lambda>pn.
                       if nnext pn = link then set_next (nprev lk) (nnext lk) h else Inr h)
                  else Inr h) (\<lambda>h1.
           bindE (rd h1 link) (\<lambda>lk1.
           bindE (if nnext lk1 \<noteq> 0
                  then bindE (rd h1 (nnext lk1)) (\<lambda>nn.
                       if nprev nn = link then set_prev (nnext lk1) (nprev lk1) h1 else Inr h1)
                  else Inr h1) (\<lambda>h2.
           bindE (if link = list then bindE (rd h2 list) (\<lambda>ln. Inr (nnext ln)) else Inr list) (\<lambda>list'.
           bindE (set_next link 0 h2) (\<lambda>h3.
           bindE (set_prev link 0 h3) (\<lambda>h4. Inr (list', h4)))))))))"

definition dap_list_delete_link :: "ptr \<Rightarrow> ptr \<Rightarrow> heap \<Rightarrow> (ptr \<times> heap) res" where
  "dap_list_delete_link list link h =
     bindE (dap_list_remove_link list link h) (\<lambda>(list', h1).
     bindE (dap_list_free1 link h1) (\<lambda>h2. Inr (list', h2)))"

fun remove_loop :: "nat \<Rightarrow> ptr \<Rightarrow> ptr \<Rightarrow> ptr \<Rightarrow> heap \<Rightarrow> (ptr \<times> heap) res" where
  "remove_loop 0 list tmp data h = (if tmp = 0 then Inr (list, h) else Inl Diverges)"
| "remove_loop (Suc n) list tmp data h =
     (if tmp = 0 then Inr (list, h)
      else bindE (rd h tmp) (\<lambda>nd.
           if ndata nd \<noteq> data then remove_loop n list (nnext nd) data h
           else bindE (dap_list_remove_link list tmp h) (\<lambda>(list', h1).
                bindE (dap_list_free1 tmp h1) (\<lambda>h2. Inr (list', h2)))))"

definition dap_list_remove :: "ptr \<Rightarrow> ptr \<Rightarrow> heap \<Rightarrow> (ptr \<times> heap) res" where
  "dap_list_remove list data h = remove_loop (fresh h) list list data h"

fun remove_all_loop :: "nat \<Rightarrow> ptr \<Rightarrow> ptr \<Rightarrow> ptr \<Rightarrow> heap \<Rightarrow> (ptr \<times> heap) res" where
  "remove_all_loop 0 list tmp data h = (if tmp = 0 then Inr (list, h) else Inl Diverges)"
| "remove_all_loop (Suc n) list tmp data h =
     (if tmp = 0 then Inr (list, h)
      else bindE (rd h tmp) (\<lambda>nd.
           if ndata nd \<noteq> data then remove_all_loop n list (nnext nd) data h
           else let nxt = nnext nd in
                bindE (if nprev nd \<noteq> 0 then set_next (nprev nd) nxt h else Inr h) (\<lambda>h1.
                let list1 = (if nprev nd \<noteq> 0 then list else nxt) in
                bindE (rd h1 tmp) (\<lambda>nd1.
                bindE (if nxt \<noteq> 0 then set_prev nxt (nprev nd1) h1 else Inr h1) (\<lambda>h2.
                let list2 = (if tmp = list1 then 0 else list1) in
                bindE (dap_list_free1 tmp h2) (\<lambda>h3. remove_all_loop n list2 nxt data h3))))))"

definition dap_list_remove_all :: "ptr \<Rightarrow> ptr \<Rightarrow> heap \<Rightarrow> (ptr \<times> heap) res" where
  "dap_list_remove_all list data h = remove_all_loop (fresh h) list list data h"

section \<open>Copy and reverse\<close>

text \<open>\<open>func\<close> is the copy callback (with its user data applied), None when NULL is passed.\<close>

definition copy_data :: "(ptr \<Rightarrow> ptr) option \<Rightarrow> ptr \<Rightarrow> ptr" where
  "copy_data func d = (case func of None \<Rightarrow> d | Some f \<Rightarrow> f d)"

fun copy_loop :: "nat \<Rightarrow> ptr \<Rightarrow> ptr \<Rightarrow> (ptr \<Rightarrow> ptr) option \<Rightarrow> heap \<Rightarrow> heap res" where
  "copy_loop 0 lst list func h = (if list = 0 then set_next lst 0 h else Inl Diverges)"
| "copy_loop (Suc n) lst list func h =
     (if list = 0 then set_next lst 0 h
      else let (nw, h1) = dap_list_alloc h in
           bindE (set_next lst nw h1) (\<lambda>h2.
           bindE (set_prev nw lst h2) (\<lambda>h3.
           bindE (rd h3 list) (\<lambda>nd.
           bindE (set_data nw (copy_data func (ndata nd)) h3) (\<lambda>h4.
           copy_loop n nw (nnext nd) func h4)))))"

definition dap_list_copy_deep :: "ptr \<Rightarrow> (ptr \<Rightarrow> ptr) option \<Rightarrow> heap \<Rightarrow> (ptr \<times> heap) res" where
  "dap_list_copy_deep list func h =
     (if list = 0 then Inr (0, h)
      else let (nw, h1) = dap_list_alloc h in
           bindE (rd h1 list) (\<lambda>nd.
           bindE (set_data nw (copy_data func (ndata nd)) h1) (\<lambda>h2.
           bindE (set_prev nw 0 h2) (\<lambda>h3.
           bindE (copy_loop (fresh h) nw (nnext nd) func h3) (\<lambda>h4. Inr (nw, h4))))))"

definition dap_list_copy :: "ptr \<Rightarrow> heap \<Rightarrow> (ptr \<times> heap) res" where
  "dap_list_copy list h = dap_list_copy_deep list None h"

fun reverse_loop :: "nat \<Rightarrow> ptr \<Rightarrow> ptr \<Rightarrow> heap \<Rightarrow> (ptr \<times> heap) res" where
  "reverse_loop 0 lst list h = (if list = 0 then Inr (lst, h) else Inl Diverges)"
| "reverse_loop (Suc n) lst list h =
     (if list = 0 then Inr (lst, h)
      else bindE (rd h list) (\<lambda>nd.
           bindE (set_next list (nprev nd) h) (\<lambda>h1.
           bindE (set_prev list (nnext nd) h1) (\<lambda>h2.
           reverse_loop n list (nnext nd) h2))))"

definition dap_list_reverse :: "ptr \<Rightarrow> heap \<Rightarrow> (ptr \<times> heap) res" where
  "dap_list_reverse list h = reverse_loop (fresh h) 0 list h"

section \<open>Sorted insertion and merge sort\<close>

fun insert_pos_loop :: "nat \<Rightarrow> ptr \<Rightarrow> ptr \<Rightarrow> (ptr \<Rightarrow> ptr \<Rightarrow> int) \<Rightarrow> int \<Rightarrow> heap \<Rightarrow> (ptr \<times> int) res" where
  "insert_pos_loop 0 tmp data func c h = Inl Diverges"
| "insert_pos_loop (Suc n) tmp data func c h =
     bindE (rd h tmp) (\<lambda>nd.
     if nnext nd \<noteq> 0 \<and> 0 < c
     then bindE (rd h (nnext nd)) (\<lambda>nn. insert_pos_loop n (nnext nd) data func (func data (ndata nn)) h)
     else Inr (tmp, c))"

definition dap_list_insert_sorted_real :: "ptr \<Rightarrow> ptr \<Rightarrow> (ptr \<Rightarrow> ptr \<Rightarrow> int) \<Rightarrow> heap \<Rightarrow> (ptr \<times> heap) res" where
  "dap_list_insert_sorted_real list data func h =
     (if list = 0
      then let (nw, h1) = dap_list_alloc h in bindE (set_data nw data h1) (\<lambda>h2. Inr (nw, h2))
      else bindE (rd h list) (\<lambda>hn.
           bindE (insert_pos_loop (fresh h) list data func (func data (ndata hn)) h) (\<lambda>(tmp, c).
           let (nw, h1) = dap_list_alloc h in
           bindE (set_data nw data h1) (\<lambda>h2.
           bindE (rd h2 tmp) (\<lambda>td.
           if nnext td = 0 \<and> 0 < c
           then bindE (set_next tmp nw h2) (\<lambda>h3. bindE (set_prev nw tmp h3) (\<lambda>h4. Inr (list, h4)))
           else bindE (if nprev td \<noteq> 0
                       then bindE (set_next (nprev td) nw h2) (set_prev nw (nprev td))
                       else Inr h2) (\<lambda>h3.
                bindE (set_next nw tmp h3) (\<lambda>h4.
                bindE (set_prev tmp nw h4) (\<lambda>h5.
                Inr (if tmp = list then nw else list, h5)))))))))"

text \<open>The comparison callback takes the two data and the user data.\<close>

definition dap_list_insert_sorted :: "ptr \<Rightarrow> ptr \<Rightarrow> (ptr \<Rightarrow> ptr \<Rightarrow> ptr \<Rightarrow> int) \<Rightarrow> heap \<Rightarrow> (ptr \<times> heap) res" where
  "dap_list_insert_sorted list data func h = dap_list_insert_sorted_real list data (\<lambda>a b. func a b 0) h"

definition dap_list_insert_sorted_with_data ::
  "ptr \<Rightarrow> ptr \<Rightarrow> (ptr \<Rightarrow> ptr \<Rightarrow> ptr \<Rightarrow> int) \<Rightarrow> ptr \<Rightarrow> heap \<Rightarrow> (ptr \<times> heap) res" where
  "dap_list_insert_sorted_with_data list data func user_data h =
     dap_list_insert_sorted_real list data (\<lambda>a b. func a b user_data) h"

text \<open>
  \<open>dap_list_sort_merge\<close>: \<open>l = 0\<close> stands for the local head \<open>list\<close>, whose \<open>next\<close> is \<open>first\<close>.  After
  the loop one list is left; were both empty its NULL would be dereferenced, and were one empty
  from the start the address of the local head would stay in the heap.
\<close>

fun merge_loop :: "nat \<Rightarrow> ptr \<Rightarrow> ptr \<Rightarrow> ptr \<Rightarrow> ptr \<Rightarrow> (ptr \<Rightarrow> ptr \<Rightarrow> int) \<Rightarrow> heap \<Rightarrow> (ptr \<times> heap) res" where
  "merge_loop 0 l1 l2 l first func h = Inl Diverges"
| "merge_loop (Suc n) l1 l2 l first func h =
     (if l1 \<noteq> 0 \<and> l2 \<noteq> 0
      then bindE (rd h l1) (\<lambda>n1. bindE (rd h l2) (\<lambda>n2.
           let left = func (ndata n1) (ndata n2) \<le> 0; x = (if left then l1 else l2) in
           bindE (if l = 0 then Inr h else set_next l x h) (\<lambda>h1.
           let first' = (if l = 0 then x else first) in
           bindE (rd h1 x) (\<lambda>xn.
           bindE (set_prev x l h1) (\<lambda>h2.
           if left then merge_loop n (nnext xn) l2 x first' func h2
           else merge_loop n l1 (nnext xn) x first' func h2)))))
      else let x = (if l1 \<noteq> 0 then l1 else l2) in
           if l = 0 then Inl (if x = 0 then NullDeref else BadFree)
           else bindE (set_next l x h) (\<lambda>h1. bindE (set_prev x l h1) (\<lambda>h2. Inr (first, h2))))"

definition dap_list_sort_merge :: "ptr \<Rightarrow> ptr \<Rightarrow> (ptr \<Rightarrow> ptr \<Rightarrow> int) \<Rightarrow> heap \<Rightarrow> (ptr \<times> heap) res" where
  "dap_list_sort_merge l1 l2 func h = merge_loop (fresh h) l1 l2 0 0 func h"

text \<open>The loop that finds the middle: \<open>l2\<close> goes two cells ahead for each cell of \<open>l1\<close>.\<close>

fun middle_loop :: "nat \<Rightarrow> ptr \<Rightarrow> ptr \<Rightarrow> heap \<Rightarrow> ptr res" where
  "middle_loop 0 l1 l2 h = Inl Diverges"
| "middle_loop (Suc n) l1 l2 h =
     bindE (rd h l2) (\<lambda>n2.
     if nnext n2 = 0 then Inr l1
     else bindE (rd h (nnext n2)) (\<lambda>n3.
          if nnext n3 = 0 then Inr l1
          else bindE (rd h l1) (\<lambda>n1. middle_loop n (nnext n1) (nnext n3) h)))"

fun sort_loop :: "nat \<Rightarrow> ptr \<Rightarrow> (ptr \<Rightarrow> ptr \<Rightarrow> int) \<Rightarrow> heap \<Rightarrow> (ptr \<times> heap) res" where
  "sort_loop 0 list func h = Inl Diverges"
| "sort_loop (Suc n) list func h =
     (if list = 0 then Inr (0, h)
      else bindE (rd h list) (\<lambda>nd.
           if nnext nd = 0 then Inr (list, h)
           else bindE (middle_loop (fresh h) list (nnext nd) h) (\<lambda>l1.
                bindE (rd h l1) (\<lambda>n1.
                bindE (set_next l1 0 h) (\<lambda>h1.
                bindE (sort_loop n list func h1) (\<lambda>(a, h2).
                bindE (sort_loop n (nnext n1) func h2) (\<lambda>(b, h3).
                dap_list_sort_merge a b func h3)))))))"

definition dap_list_sort_real :: "ptr \<Rightarrow> (ptr \<Rightarrow> ptr \<Rightarrow> int) \<Rightarrow> heap \<Rightarrow> (ptr \<times> heap) res" where
  "dap_list_sort_real list func h = sort_loop (fresh h) list func h"

definition dap_list_sort :: "ptr \<Rightarrow> (ptr \<Rightarrow> ptr \<Rightarrow> ptr \<Rightarrow> int) \<Rightarrow> heap \<Rightarrow> (ptr \<times> heap) res" where
  "dap_list_sort list func h = dap_list_sort_real list (\<lambda>a b. func a b 0) h"

definition dap_list_sort_with_data ::
  "ptr \<Rightarrow> (ptr \<Rightarrow> ptr \<Rightarrow> ptr \<Rightarrow> int) \<Rightarrow> ptr \<Rightarrow> heap \<Rightarrow> (ptr \<times> heap) res" where
  "dap_list_sort_with_data list func user_data h = dap_list_sort_real list (\<lambda>a b. func a b user_data) h"

end
