(* ===== verification/DListOps.thy ===== *)
theory DListOps
  imports DList
begin

text \<open>
  The list operations on well-formed heaps: \<open>lst h p xs\<close> says that \<open>p\<close> is the head of a
  doubly-linked list whose cells, in order, are at the addresses \<open>map fst xs\<close> with the data
  \<open>map snd xs\<close>.  Every operation of the C file is shown to be its counterpart on \<open>xs\<close>.
\<close>

section \<open>Segments\<close>

primrec hdaddr :: "ptr \<Rightarrow> (ptr \<times> ptr) list \<Rightarrow> ptr" where
  "hdaddr e [] = e"
| "hdaddr e (x # xs) = fst x"

primrec lastaddr :: "ptr \<Rightarrow> (ptr \<times> ptr) list \<Rightarrow> ptr" where
  "lastaddr pv [] = pv"
| "lastaddr pv (x # xs) = lastaddr (fst x) xs"

primrec seg :: "(ptr \<Rightarrow> node option) \<Rightarrow> ptr \<Rightarrow> (ptr \<times> ptr) list \<Rightarrow> ptr \<Rightarrow> bool" where
  "seg c pv [] e \<longleftrightarrow> True"
| "seg c pv (x # xs) e \<longleftrightarrow>
     fst x \<noteq> 0 \<and> c (fst x) = Some \<lparr>ndata = snd x, nprev = pv, nnext = hdaddr e xs\<rparr> \<and> seg c (fst x) xs e"

definition heap_ok :: "heap \<Rightarrow> bool" where
  "heap_ok h \<longleftrightarrow> 0 < fresh h \<and> cells h 0 = None \<and> (\<forall>a \<ge> fresh h. cells h a = None)"

definition lst :: "heap \<Rightarrow> ptr \<Rightarrow> (ptr \<times> ptr) list \<Rightarrow> bool" where
  "lst h p xs \<longleftrightarrow> heap_ok h \<and> p = hdaddr 0 xs \<and> seg (cells h) 0 xs 0 \<and> distinct (map fst xs)"

named_theorems heap_simps

lemma hdaddr_append [simp]: "hdaddr e (xs @ ys) = hdaddr (hdaddr e ys) xs"
  by (cases xs) auto

lemma lastaddr_append [simp]: "lastaddr pv (xs @ ys) = lastaddr (lastaddr pv xs) ys"
  by (induction xs arbitrary: pv) auto

lemma seg_append [simp]: "seg c pv (xs @ ys) e \<longleftrightarrow> seg c pv xs (hdaddr e ys) \<and> seg c (lastaddr pv xs) ys e"
  by (induction xs arbitrary: pv) auto

lemma seg_frame: "(\<And>a. a \<in> fst ` set xs \<Longrightarrow> c' a = c a) \<Longrightarrow> seg c' pv xs e = seg c pv xs e"
  by (induction xs arbitrary: pv) auto

lemma seg_upd [simp]: "a \<notin> fst ` set xs \<Longrightarrow> seg (c(a := v)) pv xs e = seg c pv xs e"
  by (rule seg_frame) auto

lemma seg_alloc: "seg c pv xs e \<Longrightarrow> a \<in> fst ` set xs \<Longrightarrow> a \<noteq> 0 \<and> c a \<noteq> None"
  by (induction xs arbitrary: pv) auto

lemma hdaddr_mem: "xs \<noteq> [] \<Longrightarrow> hdaddr e xs \<in> fst ` set xs"
  by (cases xs) auto

lemma hdaddr_neq: "a \<notin> fst ` set xs \<Longrightarrow> a \<noteq> e \<Longrightarrow> hdaddr e xs \<noteq> a"
  by (cases xs) auto

lemma hdaddr_0: "seg c pv xs 0 \<Longrightarrow> hdaddr 0 xs = 0 \<longleftrightarrow> xs = []"
  by (cases xs) auto

lemma lastaddr_snoc: "xs \<noteq> [] \<Longrightarrow> lastaddr pv xs = fst (List.last xs)"
  by (induction xs arbitrary: pv) auto

lemma rd_Some [heap_simps]: "cells h p = Some nd \<Longrightarrow> rd h p = Inr nd"
  by (simp add: rd_def)

lemma upd_Some [heap_simps]: "cells h p = Some nd \<Longrightarrow> upd f p h = Inr (h\<lparr>cells := (cells h)(p \<mapsto> f nd)\<rparr>)"
  by (simp add: upd_def rd_def)

lemmas set_simps = set_data_def set_prev_def set_next_def

declare image_Un [heap_simps] set_simps [heap_simps] dap_list_alloc_def [heap_simps] dap_list_free1_def [heap_simps]

lemma lst_fresh: "lst h p xs \<Longrightarrow> length xs < fresh h"
proof -
  assume l: "lst h p xs"
  have "set (map fst xs) \<subseteq> {1..<fresh h}"
  proof
    fix a assume "a \<in> set (map fst xs)"
    with l seg_alloc [of "cells h" 0 xs 0 a] have "a \<noteq> 0" "cells h a \<noteq> None" by (auto simp: lst_def)
    moreover have "a < fresh h" using l calculation by (cases "a < fresh h") (auto simp: lst_def heap_ok_def)
    ultimately show "a \<in> {1..<fresh h}" by simp
  qed
  then have "card (set (map fst xs)) \<le> card {1..<fresh h}" by (rule card_mono [rotated]) simp
  moreover have "card (set (map fst xs)) = length xs" using l distinct_card [of "map fst xs"] by (simp add: lst_def)
  moreover have "0 < fresh h" using l by (simp add: lst_def heap_ok_def)
  ultimately show ?thesis by simp
qed

lemma fresh_notin: "heap_ok h \<Longrightarrow> seg (cells h) pv xs e \<Longrightarrow> fresh h \<notin> fst ` set xs"
  using seg_alloc [of "cells h" pv xs e "fresh h"] by (auto simp: heap_ok_def)

lemma heap_ok_upd: "heap_ok h \<Longrightarrow> cells h a \<noteq> None \<Longrightarrow> heap_ok (h\<lparr>cells := (cells h)(a := v)\<rparr>)"
  by (auto simp: heap_ok_def)

section \<open>Traversals\<close>

lemma walk_seg:
  "seg (cells h) pv xs 0 \<Longrightarrow> length xs \<le> n \<Longrightarrow> (\<And>p d a b. f p \<lparr>ndata = d, nprev = a, nnext = b\<rparr> = g (p, d)) \<Longrightarrow>
   walk n h (hdaddr 0 xs) f = Inr (map g xs)"
proof (induction xs arbitrary: pv n)
  case Nil then show ?case by (cases n) auto
next
  case (Cons x xs)
  then obtain m where n: "n = Suc m" by (cases n) auto
  from Cons.prems Cons.IH [of "fst x" m] n show ?case by (simp add: heap_simps)
qed

lemma foreach_lst: "lst h p xs \<Longrightarrow> dap_list_foreach p h = Inr (map snd xs)"
  using walk_seg [of h 0 xs "fresh h" "\<lambda>p nd. ndata nd" snd] lst_fresh [of h p xs]
  by (simp add: dap_list_foreach_def lst_def)

lemma length_lst: "lst h p xs \<Longrightarrow> dap_list_length p h = Inr (word_of_nat (length xs))"
  using walk_seg [of h 0 xs "fresh h" "\<lambda>p nd. ()" "\<lambda>x. ()"] lst_fresh [of h p xs]
  by (simp add: dap_list_length_def lst_def)

lemma last_loop_seg:
  "seg (cells h) pv xs 0 \<Longrightarrow> xs \<noteq> [] \<Longrightarrow> length xs \<le> n \<Longrightarrow> last_loop n h (hdaddr 0 xs) = Inr (lastaddr 0 xs)"
proof (induction xs arbitrary: pv n)
  case (Cons x xs)
  then obtain m where n: "n = Suc m" by (cases n) auto
  show ?case
  proof (cases xs)
    case Nil with Cons.prems n show ?thesis by (simp add: heap_simps)
  next
    case (Cons y ys)
    with Cons.prems Cons.IH [of "fst x" m] n show ?thesis by (auto simp: heap_simps)
  qed
qed simp

lemma last_lst: "lst h p xs \<Longrightarrow> dap_list_last p h = Inr (lastaddr 0 xs)"
  using last_loop_seg [of h 0 xs "fresh h"] lst_fresh [of h p xs] hdaddr_0 [of "cells h" 0 xs]
  by (cases "xs = []") (auto simp: dap_list_last_def lst_def)

lemma nth_seg: "seg (cells h) pv xs 0 \<Longrightarrow> dap_list_nth (hdaddr 0 xs) n h = Inr (hdaddr 0 (drop n xs))"
proof (induction n arbitrary: pv xs)
  case (Suc n)
  show ?case
  proof (cases xs)
    case Nil then show ?thesis by simp
  next
    case (Cons x ys)
    with Suc.prems Suc.IH [of "fst x" ys] show ?thesis by (simp add: heap_simps)
  qed
qed simp

lemma nth_data_lst: "lst h p xs \<Longrightarrow> dap_list_nth_data p n h = Inr (if n < length xs then snd (xs ! n) else 0)"
proof -
  assume l: "lst h p xs"
  then have nth: "dap_list_nth p n h = Inr (hdaddr 0 (drop n xs))" using nth_seg [of h 0 xs n] by (simp add: lst_def)
  show ?thesis
  proof (cases "n < length xs")
    case True
    then have d: "drop n xs = xs ! n # drop (Suc n) xs" by (simp add: Cons_nth_drop_Suc)
    have "seg (cells h) 0 (take n xs @ xs ! n # drop (Suc n) xs) 0" using l True by (simp add: lst_def id_take_nth_drop [symmetric])
    then show ?thesis using True nth d by (simp add: dap_list_nth_data_def heap_simps)
  next
    case False
    then show ?thesis using nth by (simp add: dap_list_nth_data_def)
  qed
qed

fun findp :: "((ptr \<times> ptr) \<Rightarrow> bool) \<Rightarrow> int \<Rightarrow> (ptr \<times> ptr) list \<Rightarrow> ptr \<times> int" where
  "findp P i [] = (0, -1)"
| "findp P i (x # xs) = (if P x then (fst x, i) else findp P (i + 1) xs)"

lemma find_loop_seg:
  "seg (cells h) pv xs 0 \<Longrightarrow> length xs \<le> n \<Longrightarrow> (\<And>p d a b. P p \<lparr>ndata = d, nprev = a, nnext = b\<rparr> = Q (p, d)) \<Longrightarrow>
   find_loop n h (hdaddr 0 xs) i P = Inr (findp Q i xs)"
proof (induction xs arbitrary: pv n i)
  case Nil then show ?case by (cases n) auto
next
  case (Cons x xs)
  then obtain m where n: "n = Suc m" by (cases n) auto
  from Cons.prems Cons.IH [of "fst x" m "i + 1"] n show ?case by (simp add: heap_simps)
qed

lemma index_lst: "lst h p xs \<Longrightarrow> dap_list_index p d h = Inr (snd (findp (\<lambda>x. snd x = d) 0 xs))"
  using find_loop_seg [of h 0 xs "fresh h" "\<lambda>p nd. ndata nd = d" "\<lambda>x. snd x = d" 0] lst_fresh [of h p xs]
  by (simp add: dap_list_index_def lst_def split_beta)

lemma find_lst: "lst h p xs \<Longrightarrow> dap_list_find p d h = Inr (fst (findp (\<lambda>x. snd x = d) 0 xs))"
  using find_loop_seg [of h 0 xs "fresh h" "\<lambda>p nd. ndata nd = d" "\<lambda>x. snd x = d" 0] lst_fresh [of h p xs]
  by (simp add: dap_list_find_def lst_def split_beta)

section \<open>Insertions\<close>

lemma heap_cases: obtains c n where "h = \<lparr>cells = c, fresh = n\<rparr>"
  by (cases h) blast

lemma lst_parts:
  assumes "lst \<lparr>cells = c, fresh = n\<rparr> p xs"
  shows "p = hdaddr 0 xs" "seg c 0 xs 0" "distinct (map fst xs)" "0 < n" "c 0 = None" "n \<notin> fst ` set xs"
    "length xs < n" "p = 0 \<longleftrightarrow> xs = []" "\<And>a. n \<le> a \<Longrightarrow> c a = None"
  using assms fresh_notin [of "\<lparr>cells = c, fresh = n\<rparr>" 0 xs 0] lst_fresh [OF assms] hdaddr_0 [of c 0 xs]
  by (auto simp: lst_def heap_ok_def)

lemma lst_snoc_neq:
  assumes "lst \<lparr>cells = c, fresh = n\<rparr> p xs" "x \<in> set xs"
  shows "fst x \<noteq> 0" "fst x \<noteq> n" "fst x < n" "c (fst x) \<noteq> None"
  using lst_parts [OF assms(1)] seg_alloc [of c 0 xs 0 "fst x"] assms(2)
  by (auto simp: not_le_imp_less)

lemma append_lst:
  assumes l: "lst h p xs"
  shows "\<exists>p' h'. dap_list_append p d h = Inr (p', h') \<and> lst h' p' (xs @ [(fresh h, d)])"
proof (cases xs rule: rev_cases)
  case Nil
  with l show ?thesis by (auto simp: lst_def heap_ok_def dap_list_append_def heap_simps)
next
  case (snoc us x)
  obtain c n where h: "h = \<lparr>cells = c, fresh = n\<rparr>" by (rule heap_cases)
  note L = lst_parts [OF l [unfolded h]] and X = lst_snoc_neq [OF l [unfolded h], of x]
  let ?h = "\<lparr>cells = c(n \<mapsto> \<lparr>ndata = d, nprev = 0, nnext = 0\<rparr>), fresh = Suc n\<rparr>"
  have last: "dap_list_last p ?h = Inr (fst x)"
    using last_loop_seg [of ?h 0 xs "Suc n"] L snoc by (auto simp: dap_list_last_def)
  show ?thesis using L X snoc last
    by (auto simp: h lst_def heap_ok_def dap_list_append_def heap_simps)
qed

lemma prepend_lst:
  assumes l: "lst h p xs"
  shows "\<exists>p' h'. dap_list_prepend p d h = Inr (p', h') \<and> lst h' p' ((fresh h, d) # xs)"
proof (cases xs)
  case Nil
  with l show ?thesis by (auto simp: lst_def heap_ok_def dap_list_prepend_def heap_simps)
next
  case (Cons x us)
  obtain c n where h: "h = \<lparr>cells = c, fresh = n\<rparr>" by (rule heap_cases)
  note L = lst_parts [OF l [unfolded h]] and X = lst_snoc_neq [OF l [unfolded h], of x]
  show ?thesis using L X Cons
    by (auto simp: h lst_def heap_ok_def dap_list_prepend_def heap_simps)
qed

definition insert_at :: "int \<Rightarrow> 'a \<Rightarrow> 'a list \<Rightarrow> 'a list" where
  "insert_at i x xs = (if i < 0 then xs @ [x] else take (nat i) xs @ x # drop (nat i) xs)"

lemma insert_lst:
  assumes l: "lst h p xs"
  shows "\<exists>p' h'. dap_list_insert p d i h = Inr (p', h') \<and> lst h' p' (insert_at i (fresh h, d) xs)"
proof -
  obtain c n where h: "h = \<lparr>cells = c, fresh = n\<rparr>" by (rule heap_cases)
  note L = lst_parts [OF l [unfolded h]]
  have nth: "dap_list_nth (hdaddr 0 xs) (nat i) h = Inr (hdaddr 0 (drop (nat i) xs))"
    using nth_seg [of h 0 xs "nat i"] l by (simp add: lst_def)
  note nth_p = nth [folded L(1)]
  consider "i < 0" | "i = 0" | "0 < i" "length xs \<le> nat i" | "0 < i" "nat i < length xs" by linarith
  then show ?thesis
  proof cases
    case 1 then show ?thesis using append_lst [OF l, of d] by (simp add: dap_list_insert_def insert_at_def)
  next
    case 2 then show ?thesis using prepend_lst [OF l, of d] by (simp add: dap_list_insert_def insert_at_def)
  next
    case 3 then show ?thesis using append_lst [OF l, of d] nth_p by (simp add: dap_list_insert_def insert_at_def)
  next
    case 4
    obtain us y where u: "take (nat i) xs = us @ [y]" using 4 by (cases "take (nat i) xs" rule: rev_cases) auto
    obtain x vs where v: "drop (nat i) xs = x # vs" using 4 by (cases "drop (nat i) xs") auto
    have xs: "xs = us @ y # x # vs" using append_take_drop_id [of "nat i" xs] u v by simp
    note X = lst_snoc_neq [OF l [unfolded h], of x] and Y = lst_snoc_neq [OF l [unfolded h], of y]
    have "dap_list_nth (hdaddr (fst y) us) (nat i) \<lparr>cells = c, fresh = n\<rparr> = Inr (fst x)"
      using nth unfolding v h by (simp add: xs)
    then show ?thesis using L X Y xs 4 u v
      by (auto simp: h lst_def heap_ok_def dap_list_insert_def insert_at_def heap_simps)
  qed
qed

section \<open>Removals\<close>

lemma remove_link_lst:
  assumes l: "lst h p (us @ x # vs)"
  shows "\<exists>p' h'. dap_list_remove_link p (fst x) h = Inr (p', h') \<and> lst h' p' (us @ vs) \<and>
    cells h' (fst x) = Some \<lparr>ndata = snd x, nprev = 0, nnext = 0\<rparr> \<and> fresh h' = fresh h"
proof -
  obtain c n where h: "h = \<lparr>cells = c, fresh = n\<rparr>" by (rule heap_cases)
  note L = lst_parts [OF l [unfolded h]] and X = lst_snoc_neq [OF l [unfolded h], of x]
  show ?thesis
  proof (cases us rule: rev_cases)
    case Nil
    show ?thesis
    proof (cases vs)
      case vs: Nil
      show ?thesis using L X Nil vs by (auto simp: h lst_def heap_ok_def dap_list_remove_link_def heap_simps)
    next
      case (Cons z zs)
      note Z = lst_snoc_neq [OF l [unfolded h], of z]
      show ?thesis using L X Z Nil Cons by (auto simp: h lst_def heap_ok_def dap_list_remove_link_def heap_simps)
    qed
  next
    case (snoc ws y)
    have Y: "hdaddr (fst y) ws \<noteq> fst x" using L(3) snoc by (intro hdaddr_neq) auto
    show ?thesis
    proof (cases vs)
      case Nil
      show ?thesis using L X Y lst_snoc_neq [OF l [unfolded h], of y] Nil snoc by (auto simp: h lst_def heap_ok_def dap_list_remove_link_def heap_simps)
    next
      case (Cons z zs)
      note Z = lst_snoc_neq [OF l [unfolded h], of z]
      show ?thesis using L X Y Z lst_snoc_neq [OF l [unfolded h], of y] snoc Cons by (auto simp: h lst_def heap_ok_def dap_list_remove_link_def heap_simps)
    qed
  qed
qed

lemma free1_lst:
  assumes l: "lst h p xs" and a: "a \<notin> fst ` set xs" "cells h a \<noteq> None"
  shows "\<exists>h'. dap_list_free1 a h = Inr h' \<and> lst h' p xs \<and> fresh h' = fresh h \<and> cells h' = (cells h)(a := None)"
proof -
  obtain c n where h: "h = \<lparr>cells = c, fresh = n\<rparr>" by (rule heap_cases)
  show ?thesis using l a by (auto simp: h lst_def heap_ok_def heap_simps)
qed

lemma delete_link_lst:
  assumes l: "lst h p (us @ x # vs)"
  shows "\<exists>p' h'. dap_list_delete_link p (fst x) h = Inr (p', h') \<and> lst h' p' (us @ vs)"
proof -
  from remove_link_lst [OF l] obtain p' h' where r: "dap_list_remove_link p (fst x) h = Inr (p', h')"
    "lst h' p' (us @ vs)" "cells h' (fst x) \<noteq> None" by auto
  moreover have "fst x \<notin> fst ` set (us @ vs)" using l by (auto simp: lst_def)
  ultimately show ?thesis using free1_lst [OF r(2)] by (fastforce simp: dap_list_delete_link_def)
qed

fun remove_data :: "'d \<Rightarrow> ('a \<times> 'd) list \<Rightarrow> ('a \<times> 'd) list" where
  "remove_data d [] = []"
| "remove_data d (x # xs) = (if snd x = d then xs else x # remove_data d xs)"

lemma map_snd_remove_data: "map snd (remove_data d xs) = remove1 d (map snd xs)"
  by (induction xs) auto

lemma remove_loop_lst:
  "lst h p (us @ vs) \<Longrightarrow> length vs \<le> n \<Longrightarrow>
   \<exists>p' h'. remove_loop n p (hdaddr 0 vs) d h = Inr (p', h') \<and> lst h' p' (us @ remove_data d vs)"
proof (induction vs arbitrary: us n)
  case Nil then show ?case by (cases n) auto
next
  case (Cons x vs)
  then obtain m where n: "n = Suc m" by (cases n) auto
  have x: "cells h (fst x) = Some \<lparr>ndata = snd x, nprev = lastaddr 0 us, nnext = hdaddr 0 vs\<rparr>" "fst x \<noteq> 0"
    using Cons.prems(1) by (auto simp: lst_def)
  show ?case
  proof (cases "snd x = d")
    case True
    from delete_link_lst [OF Cons.prems(1)] x True show ?thesis
      by (auto simp: n heap_simps dap_list_delete_link_def)
  next
    case False
    with Cons.IH [of "us @ [x]" m] Cons.prems x show ?thesis by (simp add: n heap_simps)
  qed
qed

lemma remove_lst: "lst h p xs \<Longrightarrow> \<exists>p' h'. dap_list_remove p d h = Inr (p', h') \<and> lst h' p' (remove_data d xs)"
  using remove_loop_lst [of h p "[]" xs "fresh h" d] lst_fresh [of h p xs]
  by (simp add: dap_list_remove_def lst_def)

lemma remove_all_step:
  assumes l: "lst h p (us @ x # vs)" and d: "snd x = d"
  shows "\<exists>p' h'. remove_all_loop (Suc m) p (fst x) d h = remove_all_loop m p' (hdaddr 0 vs) d h' \<and> lst h' p' (us @ vs)"
proof -
  obtain c n where h: "h = \<lparr>cells = c, fresh = n\<rparr>" by (rule heap_cases)
  note L = lst_parts [OF l [unfolded h]] and X = lst_snoc_neq [OF l [unfolded h], of x]
  show ?thesis
  proof (cases us rule: rev_cases)
    case Nil
    show ?thesis
    proof (cases vs)
      case vs: Nil
      show ?thesis using L X Nil vs d
        by (intro exI [of _ 0] exI [of _ "\<lparr>cells = c(fst x := None), fresh = n\<rparr>"]) (auto simp: h lst_def heap_ok_def Let_def heap_simps)
    next
      case (Cons z zs)
      note Z = lst_snoc_neq [OF l [unfolded h], of z]
      show ?thesis using L X Z Nil Cons d
        by (intro exI [of _ "fst z"] exI [of _ "\<lparr>cells = c(fst z \<mapsto> \<lparr>ndata = snd z, nprev = 0, nnext = hdaddr 0 zs\<rparr>,
          fst x := None), fresh = n\<rparr>"]) (auto simp: h lst_def heap_ok_def Let_def heap_simps)
    qed
  next
    case (snoc ws y)
    have Y: "hdaddr (fst y) ws \<noteq> fst x" using L(3) snoc by (intro hdaddr_neq) auto
    note Y = Y lst_snoc_neq [OF l [unfolded h], of y]
    show ?thesis
    proof (cases vs)
      case Nil
      show ?thesis using L X Y Nil snoc d
        by (intro exI [of _ p] exI [of _ "\<lparr>cells = c(fst y \<mapsto> \<lparr>ndata = snd y, nprev = lastaddr 0 ws, nnext = 0\<rparr>,
          fst x := None), fresh = n\<rparr>"]) (auto simp: h lst_def heap_ok_def Let_def heap_simps)
    next
      case (Cons z zs)
      note Z = lst_snoc_neq [OF l [unfolded h], of z]
      show ?thesis using L X Y Z snoc Cons d
        by (intro exI [of _ p] exI [of _ "\<lparr>cells = c(fst y \<mapsto> \<lparr>ndata = snd y, nprev = lastaddr 0 ws, nnext = fst z\<rparr>,
          fst z \<mapsto> \<lparr>ndata = snd z, nprev = fst y, nnext = hdaddr 0 zs\<rparr>, fst x := None), fresh = n\<rparr>"])
          (auto simp: h lst_def heap_ok_def Let_def heap_simps)
    qed
  qed
qed

lemma remove_all_loop_lst:
  "lst h p (us @ vs) \<Longrightarrow> length vs \<le> n \<Longrightarrow>
   \<exists>p' h'. remove_all_loop n p (hdaddr 0 vs) d h = Inr (p', h') \<and> lst h' p' (us @ filter (\<lambda>x. snd x \<noteq> d) vs)"
proof (induction vs arbitrary: us n p h)
  case Nil then show ?case by (cases n) auto
next
  case (Cons x vs)
  then obtain m where n: "n = Suc m" by (cases n) auto
  show ?case
  proof (cases "snd x = d")
    case True
    from remove_all_step [OF Cons.prems(1) True, of m] obtain p' h' where
      s: "remove_all_loop (Suc m) p (fst x) d h = remove_all_loop m p' (hdaddr 0 vs) d h'" and l: "lst h' p' (us @ vs)" by blast
    from Cons.IH [OF l, of m] Cons.prems(2) n True s show ?thesis by simp
  next
    case False
    have x: "cells h (fst x) = Some \<lparr>ndata = snd x, nprev = lastaddr 0 us, nnext = hdaddr 0 vs\<rparr>" "fst x \<noteq> 0"
      using Cons.prems(1) by (auto simp: lst_def)
    from Cons.IH [of h p "us @ [x]" m] Cons.prems False x show ?thesis by (simp add: n heap_simps)
  qed
qed

lemma remove_all_lst:
  "lst h p xs \<Longrightarrow> \<exists>p' h'. dap_list_remove_all p d h = Inr (p', h') \<and> lst h' p' (filter (\<lambda>x. snd x \<noteq> d) xs)"
  using remove_all_loop_lst [of h p "[]" xs "fresh h" d] lst_fresh [of h p xs]
  by (simp add: dap_list_remove_all_def lst_def)

end
