(* ===== verification/DListSort.thy ===== *)
theory DListSort
  imports DListOps
begin

text \<open>
  Reversal, concatenation, copies, sorted insertion and the merge sort of the linked list on
  well-formed heaps.
\<close>

section \<open>Reversal and concatenation\<close>

definition swap_links :: "node \<Rightarrow> node" where
  "swap_links nd = \<lparr>ndata = ndata nd, nprev = nnext nd, nnext = nprev nd\<rparr>"

lemma swap_links_node [simp]: "swap_links \<lparr>ndata = d, nprev = a, nnext = b\<rparr> = \<lparr>ndata = d, nprev = b, nnext = a\<rparr>"
  by (simp add: swap_links_def)

lemma lastaddr_rev [simp]: "lastaddr e (rev xs) = hdaddr e xs"
  by (cases xs) auto

lemma hdaddr_rev [simp]: "hdaddr e (rev xs) = lastaddr e xs"
  by (induction xs arbitrary: e) auto

lemma seg_swap:
  "seg c pv xs e \<Longrightarrow> (\<And>a. a \<in> fst ` set xs \<Longrightarrow> c' a = map_option swap_links (c a)) \<Longrightarrow> seg c' e (rev xs) pv"
  by (induction xs arbitrary: pv) auto

lemma reverse_loop_seg:
  "seg c pv vs 0 \<Longrightarrow> length vs \<le> m \<Longrightarrow> distinct (map fst vs) \<Longrightarrow>
   \<exists>c'. reverse_loop m l (hdaddr 0 vs) \<lparr>cells = c, fresh = n\<rparr> = Inr (lastaddr l vs, \<lparr>cells = c', fresh = n\<rparr>) \<and>
     (\<forall>a. c' a = (if a \<in> fst ` set vs then map_option swap_links (c a) else c a))"
proof (induction vs arbitrary: pv m l c)
  case Nil then show ?case by (cases m) auto
next
  case (Cons x vs)
  then obtain k where m: "m = Suc k" by (cases m) auto
  let ?c = "c(fst x \<mapsto> swap_links \<lparr>ndata = snd x, nprev = pv, nnext = hdaddr 0 vs\<rparr>)"
  from Cons.prems have "seg ?c (fst x) vs 0" "distinct (map fst vs)" "length vs \<le> k" by (auto simp: m)
  from Cons.IH [OF this(1,3,2), of "fst x"] obtain c' where
    c': "reverse_loop k (fst x) (hdaddr 0 vs) \<lparr>cells = ?c, fresh = n\<rparr> = Inr (lastaddr (fst x) vs, \<lparr>cells = c', fresh = n\<rparr>)"
    "\<forall>a. c' a = (if a \<in> fst ` set vs then map_option swap_links (?c a) else ?c a)" by blast
  have "reverse_loop m l (hdaddr 0 (x # vs)) \<lparr>cells = c, fresh = n\<rparr> = reverse_loop k (fst x) (hdaddr 0 vs) \<lparr>cells = ?c, fresh = n\<rparr>"
    using Cons.prems by (simp add: m heap_simps)
  with c' Cons.prems show ?case by (intro exI [of _ c']) auto
qed

lemma reverse_lst:
  assumes l: "lst h p xs"
  shows "\<exists>p' h'. dap_list_reverse p h = Inr (p', h') \<and> lst h' p' (rev xs)"
proof -
  obtain c n where h: "h = \<lparr>cells = c, fresh = n\<rparr>" by (rule heap_cases)
  note L = lst_parts [OF l [unfolded h]]
  from reverse_loop_seg [OF L(2), of n 0 n] L obtain c' where
    r: "dap_list_reverse p h = Inr (lastaddr 0 xs, \<lparr>cells = c', fresh = n\<rparr>)"
    and c': "\<And>a. c' a = (if a \<in> fst ` set xs then map_option swap_links (c a) else c a)"
    by (auto simp: dap_list_reverse_def h)
  have "seg c' 0 (rev xs) 0" using L(2) by (rule seg_swap) (simp add: c')
  moreover have "heap_ok \<lparr>cells = c', fresh = n\<rparr>" using L by (auto simp: heap_ok_def c')
  ultimately show ?thesis using r L(3) by (simp add: lst_def rev_map [symmetric])
qed

lemma concat_lst:
  assumes l1: "lst h p xs" and l2: "lst h q ys" and dj: "fst ` set xs \<inter> fst ` set ys = {}"
  shows "\<exists>p' h'. dap_list_concat p q h = Inr (p', h') \<and> lst h' p' (xs @ ys)"
proof (cases ys)
  case Nil then show ?thesis using l1 l2 by (auto simp: dap_list_concat_def lst_def)
next
  case ys: (Cons y zs)
  obtain c n where h: "h = \<lparr>cells = c, fresh = n\<rparr>" by (rule heap_cases)
  note L = lst_parts [OF l1 [unfolded h]] and M = lst_parts [OF l2 [unfolded h]]
  note Y = lst_snoc_neq [OF l2 [unfolded h], of y] and last = last_lst [OF l1]
  show ?thesis
  proof (cases xs rule: rev_cases)
    case Nil
    then show ?thesis using L M Y ys last by (auto simp: dap_list_concat_def lst_def h heap_simps heap_ok_def)
  next
    case (snoc us x)
    note X = lst_snoc_neq [OF l1 [unfolded h], of x]
    show ?thesis using L M Y X ys snoc last dj
      by (auto simp: dap_list_concat_def lst_def h heap_simps heap_ok_def)
  qed
qed

section \<open>Copies\<close>

lemma copy_loop_lst:
  "lst h q ws \<Longrightarrow> ws \<noteq> [] \<Longrightarrow> seg (cells h) pv vs 0 \<Longrightarrow> fst ` set ws \<inter> fst ` set vs = {} \<Longrightarrow> length vs \<le> m \<Longrightarrow>
   \<exists>h' news. copy_loop m (lastaddr 0 ws) (hdaddr 0 vs) f h = Inr h' \<and> lst h' q (ws @ news) \<and>
     map snd news = map (copy_data f \<circ> snd) vs \<and>
     (\<forall>a < fresh h. a \<noteq> lastaddr 0 ws \<longrightarrow> cells h' a = cells h a) \<and> (\<forall>a \<in> fst ` set news. fresh h \<le> a)"
proof (induction vs arbitrary: ws m h pv)
  case Nil
  then obtain us w where ws: "ws = us @ [w]" by (cases ws rule: rev_cases) auto
  obtain c n where h: "h = \<lparr>cells = c, fresh = n\<rparr>" by (rule heap_cases)
  have "c(fst w \<mapsto> \<lparr>ndata = snd w, nprev = lastaddr 0 us, nnext = 0\<rparr>) = c"
    using Nil ws h by (intro ext) (auto simp: lst_def)
  with Nil show ?case by (cases m) (auto simp: ws h heap_simps lst_def)
next
  case (Cons x vs)
  then obtain k where m: "m = Suc k" by (cases m) auto
  from Cons.prems obtain us w where ws: "ws = us @ [w]" by (cases ws rule: rev_cases) auto
  obtain c n where h: "h = \<lparr>cells = c, fresh = n\<rparr>" by (rule heap_cases)
  note L = lst_parts [OF Cons.prems(1) [unfolded h]] and W = lst_snoc_neq [OF Cons.prems(1) [unfolded h], of w]
  let ?d = "copy_data f (snd x)"
  let ?c = "c(n \<mapsto> \<lparr>ndata = ?d, nprev = fst w, nnext = 0\<rparr>, fst w \<mapsto> \<lparr>ndata = snd w, nprev = lastaddr 0 us, nnext = n\<rparr>)"
  let ?h = "\<lparr>cells = ?c, fresh = Suc n\<rparr>"
  have x: "fst x \<noteq> n" "c (fst x) = Some \<lparr>ndata = snd x, nprev = pv, nnext = hdaddr 0 vs\<rparr>" "fst x \<noteq> fst w"
    using Cons.prems L(9) [of "fst x"] by (auto simp: h ws)
  have nvs: "n \<notin> fst ` set vs"
    using seg_alloc [of c "fst x" vs 0 n] L(9) [of n] Cons.prems(3) by (auto simp: h)
  have wvs: "fst w \<notin> fst ` set vs" using Cons.prems(4) by (auto simp: ws)
  have step: "copy_loop (Suc k) (lastaddr 0 ws) (hdaddr 0 (x # vs)) f h = copy_loop k (lastaddr 0 (ws @ [(n, ?d)])) (hdaddr 0 vs) f ?h"
    using L W x Cons.prems by (auto simp: h ws heap_simps lst_def fun_upd_twist)
  have l: "lst ?h q (ws @ [(n, ?d)])"
    using L W Cons.prems(1) by (auto simp: h ws lst_def heap_ok_def heap_simps)
  have sv: "seg (cells ?h) (fst x) vs 0" using Cons.prems(3) nvs wvs by (simp add: h)
  have dj: "fst ` set (ws @ [(n, ?d)]) \<inter> fst ` set vs = {}" using Cons.prems(4) nvs by auto
  from Cons.IH [OF l _ sv dj, of k] Cons.prems(5) obtain h' news where IH:
    "copy_loop k (lastaddr 0 (ws @ [(n, ?d)])) (hdaddr 0 vs) f ?h = Inr h'" "lst h' q ((ws @ [(n, ?d)]) @ news)"
    "map snd news = map (copy_data f \<circ> snd) vs" "\<forall>a \<in> fst ` set news. fresh ?h \<le> a"
    "\<forall>a < fresh ?h. a \<noteq> lastaddr 0 (ws @ [(n, ?d)]) \<longrightarrow> cells h' a = cells ?h a" by (auto simp: m)
  show ?case
  proof (intro exI [of _ h'] exI [of _ "(n, ?d) # news"] conjI)
    show "copy_loop m (lastaddr 0 ws) (hdaddr 0 (x # vs)) f h = Inr h'" using step IH(1) m by simp
    show "\<forall>a < fresh h. a \<noteq> lastaddr 0 ws \<longrightarrow> cells h' a = cells h a" using IH(5) by (auto simp: h ws)
    show "\<forall>a \<in> fst ` set ((n, ?d) # news). fresh h \<le> a" using IH(4) by (auto simp: h)
  qed (use IH in auto)
qed

lemma copy_deep_lst:
  assumes l: "lst h p xs"
  shows "\<exists>q h' ys. dap_list_copy_deep p f h = Inr (q, h') \<and> lst h' q ys \<and> lst h' p xs \<and>
    map snd ys = map (copy_data f \<circ> snd) xs \<and> fst ` set xs \<inter> fst ` set ys = {}"
proof (cases xs)
  case Nil then show ?thesis using l by (auto simp: dap_list_copy_deep_def lst_def)
next
  case (Cons x vs)
  obtain c n where h: "h = \<lparr>cells = c, fresh = n\<rparr>" by (rule heap_cases)
  note L = lst_parts [OF l [unfolded h]] and X = lst_snoc_neq [OF l [unfolded h], of x]
  let ?d = "copy_data f (snd x)"
  let ?h = "\<lparr>cells = c(n \<mapsto> \<lparr>ndata = ?d, nprev = 0, nnext = 0\<rparr>), fresh = Suc n\<rparr>"
  have "lst ?h n [(n, ?d)]" "seg (cells ?h) (fst x) vs 0" "fst ` set [(n, ?d)] \<inter> fst ` set vs = {}" "length vs \<le> n"
    using L Cons by (auto simp: lst_def heap_ok_def)
  from copy_loop_lst [OF this(1) _ this(2-4), of f] obtain h' news where
    c: "copy_loop n n (hdaddr 0 vs) f ?h = Inr h'" "lst h' n ((n, ?d) # news)"
      "map snd news = map (copy_data f \<circ> snd) vs" "\<forall>a < Suc n. a \<noteq> n \<longrightarrow> cells h' a = cells ?h a"
      "\<forall>a \<in> fst ` set news. Suc n \<le> a" by auto
  have lt: "a < n" if "a \<in> fst ` set xs" for a using that lst_snoc_neq(3) [OF l [unfolded h]] by auto
  have "cells h' a = c a" if "a \<in> fst ` set xs" for a
    using c(4) [rule_format, of a] lt [OF that] by simp
  then have l': "lst h' p xs" using l c(2) seg_frame [of xs "cells h'" c 0 0] by (simp add: lst_def h)
  have dj: "fst ` set xs \<inter> fst ` set ((n, ?d) # news) = {}"
  proof -
    have "a \<notin> fst ` set ((n, ?d) # news)" if "a \<in> fst ` set xs" for a using c(5) lt [OF that] by fastforce
    then show ?thesis by blast
  qed
  have "dap_list_copy_deep p f h = Inr (n, h')"
    using c(1) L X Cons by (auto simp: dap_list_copy_deep_def h heap_simps)
  with c(2,3) l' dj Cons show ?thesis by (intro exI [of _ n] exI [of _ h'] exI [of _ "(n, ?d) # news"]) simp
qed

section \<open>Sorted insertion\<close>

definition insert_before_first :: "('a \<Rightarrow> bool) \<Rightarrow> 'a \<Rightarrow> 'a list \<Rightarrow> 'a list" where
  "insert_before_first P x xs = takeWhile (\<lambda>y. \<not> P y) xs @ x # dropWhile (\<lambda>y. \<not> P y) xs"

text \<open>The loop stops at the first cell that is not before the new data, or at the last cell.\<close>

lemma insert_pos_seg:
  "seg (cells h) pv (x # xs) 0 \<Longrightarrow> length xs < n \<Longrightarrow>
   \<exists>us y vs. x # xs = us @ y # vs \<and>
     insert_pos_loop n (fst x) d f (f d (snd x)) h = Inr (fst y, f d (snd y)) \<and>
     (\<forall>z \<in> set us. 0 < f d (snd z)) \<and> (0 < f d (snd y) \<longrightarrow> vs = [])"
proof (induction xs arbitrary: x pv n)
  case Nil
  then obtain k where n: "n = Suc k" by (cases n) auto
  show ?case using Nil by (intro exI [of _ "[]"] exI [of _ x]) (auto simp: n heap_simps)
next
  case (Cons y ys)
  then obtain k where n: "n = Suc k" by (cases n) auto
  show ?case
  proof (cases "0 < f d (snd x)")
    case True
    from Cons.IH [of "fst x" y k] Cons.prems obtain us z vs where
      *: "y # ys = us @ z # vs" "insert_pos_loop k (fst y) d f (f d (snd y)) h = Inr (fst z, f d (snd z))"
      "\<forall>z \<in> set us. 0 < f d (snd z)" "0 < f d (snd z) \<longrightarrow> vs = []" by (auto simp: n)
    have "insert_pos_loop n (fst x) d f (f d (snd x)) h = Inr (fst z, f d (snd z))"
      using Cons.prems * (2) True by (simp add: n heap_simps)
    then show ?thesis using * True by (intro exI [of _ "x # us"] exI [of _ z] exI [of _ vs]) simp
  next
    case False
    then show ?thesis using Cons.prems
      by (intro exI [of _ "[]"] exI [of _ x] exI [of _ "y # ys"]) (simp add: n heap_simps)
  qed
qed

lemma insert_before_first_split:
  "\<forall>z \<in> set us. \<not> P z \<Longrightarrow> P y \<Longrightarrow> insert_before_first P x (us @ y # vs) = us @ x # y # vs"
  by (simp add: insert_before_first_def)

lemma insert_before_first_none: "\<forall>z \<in> set us. \<not> P z \<Longrightarrow> insert_before_first P x us = us @ [x]"
  by (simp add: insert_before_first_def)

lemma insert_sorted_lst:
  assumes l: "lst h p xs"
  shows "\<exists>p' h'. dap_list_insert_sorted_real p d f h = Inr (p', h') \<and>
    lst h' p' (insert_before_first (\<lambda>x. f d (snd x) \<le> 0) (fresh h, d) xs)"
proof (cases xs)
  case Nil
  then show ?thesis using l
    by (auto simp: lst_def heap_ok_def dap_list_insert_sorted_real_def insert_before_first_def heap_simps)
next
  case (Cons x ws)
  obtain c n where h: "h = \<lparr>cells = c, fresh = n\<rparr>" by (rule heap_cases)
  note L = lst_parts [OF l [unfolded h]] and X = lst_snoc_neq [OF l [unfolded h], of x]
  from insert_pos_seg [of h 0 x ws n d f] L Cons obtain us y vs where
    xs: "xs = us @ y # vs" and pos: "insert_pos_loop n (fst x) d f (f d (snd x)) h = Inr (fst y, f d (snd y))"
    and us: "\<forall>z \<in> set us. \<not> f d (snd z) \<le> 0" and y: "0 < f d (snd y) \<longrightarrow> vs = []"
    by (auto simp: h not_le)
  note Y = lst_snoc_neq [OF l [unfolded h], of y]
  have px: "p = fst x" "c (fst x) = Some \<lparr>ndata = snd x, nprev = 0, nnext = hdaddr 0 ws\<rparr>" using L Cons by auto
  note pos' = pos [unfolded h]
  have px0: "p \<noteq> 0" using px(1) X(1) Cons by simp
  let ?c = "c(n \<mapsto> \<lparr>ndata = d, nprev = 0, nnext = 0\<rparr>)"
  let ?k = "\<lambda>td. if nnext td = 0 \<and> 0 < f d (snd y)
     then bindE (set_next (fst y) n \<lparr>cells = ?c, fresh = Suc n\<rparr>) (\<lambda>h3. bindE (set_prev n (fst y) h3) (\<lambda>h4. Inr (p, h4)))
     else bindE (if nprev td \<noteq> 0
                 then bindE (set_next (nprev td) n \<lparr>cells = ?c, fresh = Suc n\<rparr>) (set_prev n (nprev td))
                 else Inr \<lparr>cells = ?c, fresh = Suc n\<rparr>) (\<lambda>h3.
          bindE (set_next n (fst y) h3) (\<lambda>h4. bindE (set_prev (fst y) n h4) (\<lambda>h5. Inr (if fst y = p then n else p, h5))))"
  have cy: "c (fst y) = Some \<lparr>ndata = snd y, nprev = lastaddr 0 us, nnext = hdaddr 0 vs\<rparr>" using L(2) xs by simp
  have run: "dap_list_insert_sorted_real p d f h = ?k \<lparr>ndata = snd y, nprev = lastaddr 0 us, nnext = hdaddr 0 vs\<rparr>"
  proof -
    have "rd \<lparr>cells = ?c, fresh = Suc n\<rparr> (fst y) = Inr \<lparr>ndata = snd y, nprev = lastaddr 0 us, nnext = hdaddr 0 vs\<rparr>"
      using cy Y xs by (simp add: rd_def)
    then show ?thesis
      using px px0 pos' L(4) by (simp add: h dap_list_insert_sorted_real_def heap_simps)
  qed
  show ?thesis
  proof (cases "f d (snd y) \<le> 0")
    case True
    then have i: "insert_before_first (\<lambda>x. f d (snd x) \<le> 0) (n, d) xs = us @ (n, d) # y # vs"
      using us unfolding xs by (intro insert_before_first_split) auto
    show ?thesis
    proof (cases us rule: rev_cases)
      case Nil
      show ?thesis using L Y run True Nil i xs
        by (auto simp: h lst_def heap_ok_def heap_simps)
    next
      case (snoc ts u)
      note U = lst_snoc_neq [OF l [unfolded h], of u]
      have "hdaddr (fst u) ts \<noteq> fst y" using L(3) xs snoc by (intro hdaddr_neq) auto
      then show ?thesis using L Y U run True snoc i xs
        by (auto simp: h lst_def heap_ok_def heap_simps)
    qed
  next
    case False
    then have vs: "vs = []" using y by simp
    have i: "insert_before_first (\<lambda>x. f d (snd x) \<le> 0) (n, d) xs = us @ [y, (n, d)]"
      using us False unfolding xs vs by (subst insert_before_first_none) auto
    show ?thesis using L Y run False i xs vs
      by (auto simp: h lst_def heap_ok_def heap_simps)
  qed
qed

section \<open>Merge sort\<close>

fun mergel :: "('d \<Rightarrow> 'd \<Rightarrow> bool) \<Rightarrow> ('a \<times> 'd) list \<Rightarrow> ('a \<times> 'd) list \<Rightarrow> ('a \<times> 'd) list" where
  "mergel le [] ys = ys"
| "mergel le xs [] = xs"
| "mergel le (x # xs) (y # ys) =
     (if le (snd x) (snd y) then x # mergel le xs (y # ys) else y # mergel le (x # xs) ys)"

lemma mergel_Nil2 [simp]: "mergel le xs [] = xs"
  by (cases xs) auto

lemma mset_mergel [simp]: "mset (mergel le xs ys) = mset xs + mset ys"
  by (induction le xs ys rule: mergel.induct) auto

lemma set_mergel [simp]: "set (mergel le xs ys) = set xs \<union> set ys"
  using mset_mergel [of le xs ys] by (metis set_mset_mset set_mset_union)

lemma length_mergel [simp]: "length (mergel le xs ys) = length xs + length ys"
  using mset_mergel [of le xs ys] by (metis size_mset size_union)

definition total_order :: "('d \<Rightarrow> 'd \<Rightarrow> bool) \<Rightarrow> bool" where
  "total_order le \<longleftrightarrow> (\<forall>a b. le a b \<or> le b a) \<and> (\<forall>a b c. le a b \<longrightarrow> le b c \<longrightarrow> le a c)"

abbreviation sorted_data :: "('d \<Rightarrow> 'd \<Rightarrow> bool) \<Rightarrow> ('a \<times> 'd) list \<Rightarrow> bool" where
  "sorted_data le xs \<equiv> sorted_wrt (\<lambda>x y. le (snd x) (snd y)) xs"

lemma sorted_mergel:
  "total_order le \<Longrightarrow> sorted_data le xs \<Longrightarrow> sorted_data le ys \<Longrightarrow> sorted_data le (mergel le xs ys)"
proof (induction le xs ys rule: mergel.induct)
  case (3 le x xs y ys)
  have t: "le a c" if "le a b" "le b c" for a b c using 3(3) that unfolding total_order_def by blast
  show ?case
  proof (cases "le (snd x) (snd y)")
    case True
    then have "le (snd x) (snd z)" if "z \<in> set ys" for z using t [of "snd x" "snd y"] 3(5) that by simp
    with 3 True show ?thesis by auto
  next
    case False
    then have yx: "le (snd y) (snd x)" using 3(3) unfolding total_order_def by blast
    then have "le (snd y) (snd z)" if "z \<in> set xs" for z using t [of "snd y" "snd x"] 3(4) that by simp
    with 3 False yx show ?thesis by auto
  qed
qed auto

lemma stable_mergel:
  "total_order le \<Longrightarrow> sorted_data le xs \<Longrightarrow> sorted_data le ys \<Longrightarrow>
   (\<And>x. P x \<longleftrightarrow> le (snd x) k \<and> le k (snd x)) \<Longrightarrow> filter P (mergel le xs ys) = filter P xs @ filter P ys"
proof (induction le xs ys rule: mergel.induct)
  case (3 le x xs y ys)
  have t: "le a c" if "le a b" "le b c" for a b c using 3(3) that unfolding total_order_def by blast
  have r: "le a a" for a using 3(3) unfolding total_order_def by blast
  show ?case
  proof (cases "le (snd x) (snd y)")
    case True with 3 show ?thesis by simp
  next
    case False
    have "\<not> P z" if y: "P y" and z: "z \<in> set (x # xs)" for z
    proof
      assume "P z"
      then have "le (snd z) k" unfolding 3(6) by simp
      moreover have "le (snd x) (snd z)" using z 3(4) r by auto
      moreover have "le k (snd y)" using y unfolding 3(6) by simp
      ultimately have "le (snd x) (snd y)" using t by blast
      with False show False by simp
    qed
    then have e: "P y \<Longrightarrow> filter P (x # xs) = []" by (simp add: filter_empty_conv)
    have "filter P (mergel le (x # xs) (y # ys)) = filter P [y] @ filter P (mergel le (x # xs) ys)" using False by simp
    also have "\<dots> = filter P [y] @ filter P (x # xs) @ filter P ys"
      using 3(2) [OF False 3(3,4) _ 3(6)] 3(5) by simp
    also have "\<dots> = filter P (x # xs) @ filter P (y # ys)" using e by (cases "P y") simp_all
    finally show ?thesis .
  qed
qed auto

function msortl :: "('d \<Rightarrow> 'd \<Rightarrow> bool) \<Rightarrow> ('a \<times> 'd) list \<Rightarrow> ('a \<times> 'd) list" where
  "msortl le xs =
     (if length xs < 2 then xs
      else mergel le (msortl le (take (length xs div 2) xs)) (msortl le (drop (length xs div 2) xs)))"
  by pat_completeness auto
termination by (relation "measure (\<lambda>(le, xs). length xs)") auto

declare msortl.simps [simp del]

lemma mset_msortl [simp]: "mset (msortl le xs) = mset xs"
proof (induction le xs rule: msortl.induct)
  case (1 le xs)
  then show ?case
    by (subst msortl.simps) (simp add: mset_append [symmetric] del: mset_append)
qed

lemma set_msortl [simp]: "set (msortl le xs) = set xs"
  using mset_msortl [of le xs] by (metis set_mset_mset)

lemma length_msortl [simp]: "length (msortl le xs) = length xs"
  using mset_msortl [of le xs] by (metis size_mset)

lemma distinct_msortl: "distinct (map fst (msortl le xs)) \<longleftrightarrow> distinct (map fst xs)"
  by (rule mset_eq_imp_distinct_iff) simp

lemma sorted_msortl: "total_order le \<Longrightarrow> sorted_data le (msortl le xs)"
proof (induction le xs rule: msortl.induct)
  case (1 le xs)
  show ?case
  proof (cases "length xs < 2")
    case True
    then show ?thesis by (cases xs) (auto simp: msortl.simps)
  next
    case False
    with 1 show ?thesis by (subst msortl.simps) (simp add: sorted_mergel)
  qed
qed

lemma stable_msortl:
  "total_order le \<Longrightarrow> (\<And>x. P x \<longleftrightarrow> le (snd x) k \<and> le k (snd x)) \<Longrightarrow> filter P (msortl le xs) = filter P xs"
proof (induction le xs rule: msortl.induct)
  case (1 le xs)
  show ?case
  proof (cases "length xs < 2")
    case True then show ?thesis by (simp add: msortl.simps)
  next
    case False
    let ?a = "take (length xs div 2) xs" and ?b = "drop (length xs div 2) xs"
    have "filter P (msortl le xs) = filter P (msortl le ?a) @ filter P (msortl le ?b)"
      using False 1(3,4) by (subst msortl.simps) (simp add: stable_mergel [of le _ _ P k] sorted_msortl)
    moreover have "filter P (msortl le ?a) = filter P ?a" "filter P (msortl le ?b) = filter P ?b"
      using False 1(3,4) by (blast intro: 1(1,2))+
    ultimately show ?thesis using filter_append [of P ?a ?b] by simp
  qed
qed

text \<open>One step of the merge: the cell \<open>x\<close> is linked behind the merged cells \<open>zs\<close>.\<close>

definition relink :: "(ptr \<Rightarrow> node option) \<Rightarrow> (ptr \<times> ptr) list \<Rightarrow> ptr \<times> ptr \<Rightarrow> ptr \<Rightarrow> ptr \<Rightarrow> node option" where
  "relink c zs x nx = c(lastaddr 0 zs \<mapsto> \<lparr>ndata = snd (List.last zs), nprev = lastaddr 0 (butlast zs), nnext = fst x\<rparr>,
     fst x \<mapsto> \<lparr>ndata = snd x, nprev = lastaddr 0 zs, nnext = nx\<rparr>)"

lemma relink_run:
  assumes "seg c 0 zs e" "zs \<noteq> []" "seg c pv (x # xs) 0" "distinct (map fst (zs @ x # xs))"
  shows "bindE (set_next (lastaddr 0 zs) (fst x) \<lparr>cells = c, fresh = n\<rparr>) (\<lambda>h1. bindE (rd h1 (fst x)) (\<lambda>xn.
    bindE (set_prev (fst x) (lastaddr 0 zs) h1) (k xn))) = k \<lparr>ndata = snd x, nprev = pv, nnext = hdaddr 0 xs\<rparr>
      \<lparr>cells = relink c zs x (hdaddr 0 xs), fresh = n\<rparr>"
    "bindE (set_next (lastaddr 0 zs) (fst x) \<lparr>cells = c, fresh = n\<rparr>) (\<lambda>h1.
    bindE (set_prev (fst x) (lastaddr 0 zs) h1) k') = k' \<lparr>cells = relink c zs x (hdaddr 0 xs), fresh = n\<rparr>"
proof -
  obtain us w where zs: "zs = us @ [w]" using assms(2) by (cases zs rule: rev_cases) auto
  show "bindE (set_next (lastaddr 0 zs) (fst x) \<lparr>cells = c, fresh = n\<rparr>) (\<lambda>h1. bindE (rd h1 (fst x)) (\<lambda>xn.
    bindE (set_prev (fst x) (lastaddr 0 zs) h1) (k xn))) = k \<lparr>ndata = snd x, nprev = pv, nnext = hdaddr 0 xs\<rparr>
      \<lparr>cells = relink c zs x (hdaddr 0 xs), fresh = n\<rparr>"
    using assms zs by (auto simp: heap_simps relink_def)
  show "bindE (set_next (lastaddr 0 zs) (fst x) \<lparr>cells = c, fresh = n\<rparr>) (\<lambda>h1.
    bindE (set_prev (fst x) (lastaddr 0 zs) h1) k') = k' \<lparr>cells = relink c zs x (hdaddr 0 xs), fresh = n\<rparr>"
    using assms zs by (auto simp: heap_simps relink_def)
qed

lemma relink_seg:
  assumes "seg c 0 zs e" "zs \<noteq> []" "seg c pv (x # xs) 0" "distinct (map fst (zs @ x # xs))"
  shows "seg (relink c zs x (hdaddr 0 xs)) 0 (zs @ [x]) (hdaddr 0 xs)" "seg (relink c zs x (hdaddr 0 xs)) (fst x) xs 0"
proof -
  obtain us w where zs: "zs = us @ [w]" using assms(2) by (cases zs rule: rev_cases) auto
  show "seg (relink c zs x (hdaddr 0 xs)) 0 (zs @ [x]) (hdaddr 0 xs)" "seg (relink c zs x (hdaddr 0 xs)) (fst x) xs 0"
    using assms zs by (auto simp: relink_def)
qed

lemma relink_frame: "zs \<noteq> [] \<Longrightarrow> a \<notin> fst ` set zs \<Longrightarrow> a \<noteq> fst x \<Longrightarrow> relink c zs x nx a = c a"
  by (auto simp: relink_def lastaddr_snoc)

lemma relink_other: "zs \<noteq> [] \<Longrightarrow> fst ` set ys \<inter> (insert (fst x) (fst ` set zs)) = {} \<Longrightarrow> seg (relink c zs x nx) pv ys e = seg c pv ys e"
  by (rule seg_frame, rule relink_frame) blast+

text \<open>The state of the merge loop: the cells \<open>zs\<close> are merged, the last one at \<open>l\<close>, its \<open>next\<close> still to be set.\<close>

lemma merge_loop_seg:
  "seg c 0 zs e \<Longrightarrow> zs \<noteq> [] \<Longrightarrow> seg c pv1 xs 0 \<Longrightarrow> seg c pv2 ys 0 \<Longrightarrow> distinct (map fst (zs @ xs @ ys)) \<Longrightarrow>
   xs \<noteq> [] \<or> ys \<noteq> [] \<Longrightarrow> length xs + length ys < m \<Longrightarrow>
   \<exists>c'. merge_loop m (hdaddr 0 xs) (hdaddr 0 ys) (lastaddr 0 zs) (hdaddr 0 zs) f \<lparr>cells = c, fresh = n\<rparr>
         = Inr (hdaddr 0 zs, \<lparr>cells = c', fresh = n\<rparr>) \<and>
     seg c' 0 (zs @ mergel (\<lambda>a b. f a b \<le> 0) xs ys) 0 \<and>
     (\<forall>a. a \<notin> fst ` set (zs @ xs @ ys) \<longrightarrow> c' a = c a)"
proof (induction m arbitrary: zs e pv1 pv2 xs ys c)
  case (Suc m)
  have l0: "0 < lastaddr 0 zs"
    using seg_alloc [OF Suc.prems(1), of "lastaddr 0 zs"] Suc.prems(2) by (simp add: lastaddr_snoc)
  have hz: "hdaddr (fst x) zs = hdaddr 0 zs" for x :: "ptr \<times> ptr" using Suc.prems(2) by (cases zs) auto
  consider x xs' y ys' where "xs = x # xs'" "ys = y # ys'" | x xs' where "xs = x # xs'" "ys = []"
    | y ys' where "xs = []" "ys = y # ys'" using Suc.prems(6) by (cases xs; cases ys) auto
  then show ?case
  proof cases
    case xy: 1
    have c: "0 < fst x" "0 < fst y" "c (fst x) = Some \<lparr>ndata = snd x, nprev = pv1, nnext = hdaddr 0 xs'\<rparr>"
      "c (fst y) = Some \<lparr>ndata = snd y, nprev = pv2, nnext = hdaddr 0 ys'\<rparr>" using Suc.prems xy by auto
    have cx: "rd \<lparr>cells = c, fresh = n\<rparr> (fst x) = Inr \<lparr>ndata = snd x, nprev = pv1, nnext = hdaddr 0 xs'\<rparr>"
      "rd \<lparr>cells = c, fresh = n\<rparr> (fst y) = Inr \<lparr>ndata = snd y, nprev = pv2, nnext = hdaddr 0 ys'\<rparr>"
      using c by (simp_all add: rd_def)
    have dx: "distinct (map fst (zs @ x # xs'))" and dy: "distinct (map fst (zs @ y # ys'))"
      and dx': "fst ` set ys \<inter> insert (fst x) (fst ` set zs) = {}"
      and dy': "fst ` set xs \<inter> insert (fst y) (fst ` set zs) = {}"
      using Suc.prems(5) xy by auto
    show ?thesis
    proof (cases "f (snd x) (snd y) \<le> 0")
      case True
      let ?c = "relink c zs x (hdaddr 0 xs')"
      note R = Suc.prems(1,2) Suc.prems(3) [unfolded xy(1)] dx
      have sy: "seg ?c pv2 ys 0" using Suc.prems(2,4) dx' by (simp add: relink_other)
      have st: "merge_loop (Suc m) (hdaddr 0 xs) (hdaddr 0 ys) (lastaddr 0 zs) (hdaddr 0 zs) f \<lparr>cells = c, fresh = n\<rparr> =
        merge_loop m (hdaddr 0 xs') (hdaddr 0 ys) (lastaddr 0 (zs @ [x])) (hdaddr 0 (zs @ [x])) f \<lparr>cells = ?c, fresh = n\<rparr>"
        using c l0 True xy by (simp add: Let_def cx relink_run(1) [OF R] hz)
      from Suc.IH [OF relink_seg(1) [OF R] _ relink_seg(2) [OF R] sy] Suc.prems(5,7) xy obtain c' where
        "merge_loop m (hdaddr 0 xs') (hdaddr 0 ys) (lastaddr 0 (zs @ [x])) (hdaddr 0 (zs @ [x])) f \<lparr>cells = ?c, fresh = n\<rparr>
          = Inr (hdaddr 0 (zs @ [x]), \<lparr>cells = c', fresh = n\<rparr>)"
        "seg c' 0 ((zs @ [x]) @ mergel (\<lambda>a b. f a b \<le> 0) xs' ys) 0"
        "\<forall>a. a \<notin> fst ` set ((zs @ [x]) @ xs' @ ys) \<longrightarrow> c' a = ?c a" by auto
      then show ?thesis unfolding st using Suc.prems(2) True xy
        by (intro exI [of _ c']) (simp add: relink_frame hz image_Un del: seg_append)
    next
      case False
      let ?c = "relink c zs y (hdaddr 0 ys')"
      note R = Suc.prems(1,2) Suc.prems(4) [unfolded xy(2)] dy
      have sx: "seg ?c pv1 xs 0" using Suc.prems(2,3) dy' by (simp add: relink_other)
      have st: "merge_loop (Suc m) (hdaddr 0 xs) (hdaddr 0 ys) (lastaddr 0 zs) (hdaddr 0 zs) f \<lparr>cells = c, fresh = n\<rparr> =
        merge_loop m (hdaddr 0 xs) (hdaddr 0 ys') (lastaddr 0 (zs @ [y])) (hdaddr 0 (zs @ [y])) f \<lparr>cells = ?c, fresh = n\<rparr>"
        using c l0 False xy by (simp add: Let_def cx relink_run(1) [OF R] hz)
      from Suc.IH [OF relink_seg(1) [OF R] _ sx relink_seg(2) [OF R]] Suc.prems(5,7) xy obtain c' where
        "merge_loop m (hdaddr 0 xs) (hdaddr 0 ys') (lastaddr 0 (zs @ [y])) (hdaddr 0 (zs @ [y])) f \<lparr>cells = ?c, fresh = n\<rparr>
          = Inr (hdaddr 0 (zs @ [y]), \<lparr>cells = c', fresh = n\<rparr>)"
        "seg c' 0 ((zs @ [y]) @ mergel (\<lambda>a b. f a b \<le> 0) xs ys') 0"
        "\<forall>a. a \<notin> fst ` set ((zs @ [y]) @ xs @ ys') \<longrightarrow> c' a = ?c a" by auto
      then show ?thesis unfolding st using Suc.prems(2) False xy
        by (intro exI [of _ c']) (simp add: relink_frame hz image_Un del: seg_append)
    qed
  next
    case xy: 2
    have dx: "distinct (map fst (zs @ x # xs'))" using Suc.prems(5) xy by auto
    note R = Suc.prems(1,2) Suc.prems(3) [unfolded xy(1)] dx
    have "0 < fst x" using Suc.prems xy by auto
    then show ?thesis using l0 xy Suc.prems(2) relink_seg [OF R]
      by (intro exI [of _ "relink c zs x (hdaddr 0 xs')"]) (simp add: Let_def relink_run(2) [OF R] relink_frame image_Un)
  next
    case xy: 3
    have dx: "distinct (map fst (zs @ y # ys'))" using Suc.prems(5) xy by auto
    note R = Suc.prems(1,2) Suc.prems(4) [unfolded xy(2)] dx
    have "0 < fst y" using Suc.prems xy by auto
    then show ?thesis using l0 xy Suc.prems(2) relink_seg [OF R]
      by (intro exI [of _ "relink c zs y (hdaddr 0 ys')"]) (simp add: Let_def relink_run(2) [OF R] relink_frame image_Un)
  qed
qed simp

lemma sort_merge_seg:
  assumes sx: "seg c pv1 (x # xs) 0" and sy: "seg c pv2 (y # ys) 0"
    and d: "distinct (map fst ((x # xs) @ (y # ys)))" and n: "length (x # xs) + length (y # ys) < n"
  shows "\<exists>c'. dap_list_sort_merge (fst x) (fst y) f \<lparr>cells = c, fresh = n\<rparr>
      = Inr (hdaddr 0 (mergel (\<lambda>a b. f a b \<le> 0) (x # xs) (y # ys)), \<lparr>cells = c', fresh = n\<rparr>) \<and>
    seg c' 0 (mergel (\<lambda>a b. f a b \<le> 0) (x # xs) (y # ys)) 0 \<and>
    (\<forall>a. a \<notin> fst ` set ((x # xs) @ (y # ys)) \<longrightarrow> c' a = c a)"
proof -
  obtain m where m: "n = Suc m" using n by (cases n) auto
  have cx: "rd \<lparr>cells = c, fresh = Suc m\<rparr> (fst x) = Inr \<lparr>ndata = snd x, nprev = pv1, nnext = hdaddr 0 xs\<rparr>"
    "rd \<lparr>cells = c, fresh = Suc m\<rparr> (fst y) = Inr \<lparr>ndata = snd y, nprev = pv2, nnext = hdaddr 0 ys\<rparr>"
    and c0: "0 < fst x" "0 < fst y" using sx sy by (auto simp: rd_def)
  show ?thesis
  proof (cases "f (snd x) (snd y) \<le> 0")
    case True
    let ?c = "c(fst x \<mapsto> \<lparr>ndata = snd x, nprev = 0, nnext = hdaddr 0 xs\<rparr>)"
    have "seg ?c 0 [x] (hdaddr 0 xs)" "seg ?c (fst x) xs 0" "seg ?c pv2 (y # ys) 0"
      using sx sy d by (auto simp del: fun_upd_apply) (auto simp: image_iff)
    from merge_loop_seg [OF this(1) _ this(2,3), of m f n] d n m obtain c' where
      "merge_loop m (hdaddr 0 xs) (fst y) (fst x) (fst x) f \<lparr>cells = ?c, fresh = n\<rparr> = Inr (fst x, \<lparr>cells = c', fresh = n\<rparr>)"
      "seg c' 0 (x # mergel (\<lambda>a b. f a b \<le> 0) xs (y # ys)) 0"
      "\<forall>a. a \<notin> fst ` set (x # xs @ y # ys) \<longrightarrow> c' a = ?c a" by auto
    then show ?thesis using True c0 cx sx
      by (intro exI [of _ c']) (simp add: dap_list_sort_merge_def m Let_def heap_simps)
  next
    case False
    let ?c = "c(fst y \<mapsto> \<lparr>ndata = snd y, nprev = 0, nnext = hdaddr 0 ys\<rparr>)"
    have "seg ?c 0 [y] (hdaddr 0 ys)" "seg ?c (fst y) ys 0" "seg ?c pv1 (x # xs) 0"
      using sx sy d by (auto simp del: fun_upd_apply) (auto simp: image_iff)
    from merge_loop_seg [OF this(1) _ this(3,2), of m f n] d n m obtain c' where
      "merge_loop m (fst x) (hdaddr 0 ys) (fst y) (fst y) f \<lparr>cells = ?c, fresh = n\<rparr> = Inr (fst y, \<lparr>cells = c', fresh = n\<rparr>)"
      "seg c' 0 (y # mergel (\<lambda>a b. f a b \<le> 0) (x # xs) ys) 0"
      "\<forall>a. a \<notin> fst ` set (y # (x # xs) @ ys) \<longrightarrow> c' a = ?c a" by auto
    then show ?thesis using False c0 cx sy
      by (intro exI [of _ c']) (simp add: dap_list_sort_merge_def m Let_def heap_simps)
  qed
qed

lemma middle_loop_seg:
  "seg c pv1 us 0 \<Longrightarrow> seg c pv2 vs 0 \<Longrightarrow> vs \<noteq> [] \<Longrightarrow> (length vs - 1) div 2 < length us \<Longrightarrow> length vs < 2 * m \<Longrightarrow>
   middle_loop m (hdaddr 0 us) (hdaddr 0 vs) \<lparr>cells = c, fresh = n\<rparr> = Inr (fst (us ! ((length vs - 1) div 2)))"
proof (induction m arbitrary: us vs pv1 pv2)
  case (Suc m)
  obtain u us' where us: "us = u # us'" using Suc.prems(4) by (cases us) auto
  consider v where "vs = [v]" | v v2 where "vs = [v, v2]" | v v2 v3 ws where "vs = v # v2 # v3 # ws"
    using Suc.prems(3) by (metis list.exhaust)
  then show ?case
  proof cases
    case 1 with Suc.prems us show ?thesis by (simp add: heap_simps)
  next
    case 2 with Suc.prems us show ?thesis by (simp add: heap_simps)
  next
    case 3
    have "seg c (fst u) us' 0" "seg c (fst v2) (v3 # ws) 0" using Suc.prems us 3 by auto
    moreover have "(length (v3 # ws) - 1) div 2 < length us'" using Suc.prems(4) us 3 by simp
    ultimately have "middle_loop m (hdaddr 0 us') (fst v3) \<lparr>cells = c, fresh = n\<rparr> = Inr (fst (us' ! (length ws div 2)))"
      using Suc.IH [of "fst u" us' "fst v2" "v3 # ws"] Suc.prems(5) 3 by simp
    then show ?thesis using Suc.prems us 3 by (simp add: heap_simps)
  qed
qed simp

lemma sort_loop_seg:
  "seg c pv xs 0 \<Longrightarrow> distinct (map fst xs) \<Longrightarrow> length xs \<le> m \<Longrightarrow> 0 < m \<Longrightarrow> length xs < n \<Longrightarrow>
   \<exists>c'. sort_loop m (hdaddr 0 xs) f \<lparr>cells = c, fresh = n\<rparr>
       = Inr (hdaddr 0 (msortl (\<lambda>a b. f a b \<le> 0) xs), \<lparr>cells = c', fresh = n\<rparr>) \<and>
     (\<exists>pv'. seg c' pv' (msortl (\<lambda>a b. f a b \<le> 0) xs) 0 \<and> (pv = 0 \<longrightarrow> pv' = 0)) \<and>
     (\<forall>a. a \<notin> fst ` set xs \<longrightarrow> c' a = c a)"
proof (induction m arbitrary: pv xs c)
  case (Suc m)
  let ?le = "\<lambda>a b. f a b \<le> 0"
  show ?case
  proof (cases "length xs < 2")
    case True
    then have s: "msortl ?le xs = xs" by (subst msortl.simps) simp
    from True have "xs = [] \<or> (\<exists>x. xs = [x])" by (cases xs) auto
    with Suc.prems s show ?thesis by (intro exI [of _ c]) (auto simp: heap_simps)
  next
    case False
    define k where "k = length xs div 2"
    have k: "0 < k" "k < length xs" using False by (auto simp: k_def)
    obtain us w where uw: "take k xs = us @ [w]" using k by (cases "take k xs" rule: rev_cases) auto
    obtain y ys where y: "drop k xs = y # ys" using k by (cases "drop k xs") auto
    have xs: "xs = us @ w # y # ys" using append_take_drop_id [of k xs] uw y by simp
    have lu: "k = Suc (length us)" using arg_cong [OF uw, of length] k by simp
    obtain x1 x2 xr where x12: "xs = x1 # x2 # xr" using False by (cases xs; cases "tl xs") auto
    have mid: "middle_loop n (hdaddr 0 xs) (hdaddr 0 (x2 # xr)) \<lparr>cells = c, fresh = n\<rparr> = Inr (fst w)"
    proof -
      have "(length (x2 # xr) - 1) div 2 = length us" using lu k_def x12 by simp
      moreover have "xs ! length us = w" by (simp add: xs)
      moreover have "seg c (fst x1) (x2 # xr) 0" using Suc.prems(1) x12 by simp
      moreover have "length us < length xs" by (simp add: xs)
      moreover have "length (x2 # xr) < 2 * n" using Suc.prems(5) x12 by simp
      ultimately show ?thesis
        using middle_loop_seg [OF Suc.prems(1), of "fst x1" "x2 # xr" n n] by simp
    qed
    let ?c1 = "c(fst w \<mapsto> \<lparr>ndata = snd w, nprev = lastaddr pv us, nnext = 0\<rparr>)"
    have s1: "seg ?c1 pv (us @ [w]) 0" "seg ?c1 (fst w) (y # ys) 0"
      using Suc.prems(1,2) by (auto simp: xs)
    have lt: "length (us @ [w]) \<le> m" "length (y # ys) \<le> m" "0 < m" using Suc.prems(3) by (auto simp: xs)
    have lnn: "length (us @ [w]) < n" "length (y # ys) < n" using Suc.prems(5) by (auto simp: xs)
    have d: "distinct (map fst (us @ [w]))" "distinct (map fst (y # ys))" "fst ` set (us @ [w]) \<inter> fst ` set (y # ys) = {}"
      using Suc.prems(2) by (auto simp: xs)
    let ?A = "msortl ?le (us @ [w])" and ?B = "msortl ?le (y # ys)"
    obtain c2 pa where A: "sort_loop m (hdaddr 0 (us @ [w])) f \<lparr>cells = ?c1, fresh = n\<rparr> = Inr (hdaddr 0 ?A, \<lparr>cells = c2, fresh = n\<rparr>)"
      "seg c2 pa ?A 0" "\<forall>a. a \<notin> fst ` set (us @ [w]) \<longrightarrow> c2 a = ?c1 a"
      using Suc.IH [OF s1(1) d(1) lt(1,3) lnn(1)] by blast
    have "seg c2 (fst w) (y # ys) 0" using s1(2) seg_frame [of "y # ys" c2 ?c1 "fst w" 0] A(3) d(3) by blast
    from Suc.IH [OF this d(2) lt(2,3) lnn(2)] obtain c3 pb where
      B: "sort_loop m (hdaddr 0 (y # ys)) f \<lparr>cells = c2, fresh = n\<rparr> = Inr (hdaddr 0 ?B, \<lparr>cells = c3, fresh = n\<rparr>)"
      "seg c3 pb ?B 0" "\<forall>a. a \<notin> fst ` set (y # ys) \<longrightarrow> c3 a = c2 a" by blast
    have "c3 z = c2 z" if "z \<in> fst ` set ?A" for z using that B(3) d(3) set_msortl [of ?le "us @ [w]"] by blast
    then have A3: "seg c3 pa ?A 0" using A(2) seg_frame [of ?A c3 c2 pa 0] by blast
    have ms: "msortl ?le xs = mergel ?le ?A ?B"
      using False uw y by (subst msortl.simps) (simp add: k_def)
    obtain a as where a: "?A = a # as" using set_msortl [of ?le "us @ [w]"] by (cases ?A) auto
    obtain b bs where b: "?B = b # bs" using set_msortl [of ?le "y # ys"] by (cases ?B) auto
    have dd: "distinct (map fst ((a # as) @ (b # bs)))"
    proof -
      have "distinct (map fst (?A @ ?B))"
        using d by (simp only: map_append distinct_append distinct_msortl set_map set_msortl)
      then show ?thesis by (simp only: a b)
    qed
    have ln: "length (a # as) + length (b # bs) < n"
      using arg_cong [OF a, of length] arg_cong [OF b, of length] Suc.prems(5) xs by simp
    from sort_merge_seg [OF A3 [unfolded a] B(2) [unfolded b] dd ln, of f] obtain c' where
      C: "dap_list_sort_merge (fst a) (fst b) f \<lparr>cells = c3, fresh = n\<rparr> = Inr (hdaddr 0 (msortl ?le xs), \<lparr>cells = c', fresh = n\<rparr>)"
      "seg c' 0 (msortl ?le xs) 0" "\<forall>z. z \<notin> fst ` set ((a # as) @ (b # bs)) \<longrightarrow> c' z = c3 z"
      unfolding ms a b by blast
    have run: "sort_loop (Suc m) (hdaddr 0 xs) f \<lparr>cells = c, fresh = n\<rparr> = Inr (hdaddr 0 (msortl ?le xs), \<lparr>cells = c', fresh = n\<rparr>)"
    proof -
      have h0: "hdaddr 0 xs \<noteq> 0" using hdaddr_0 [OF Suc.prems(1)] xs by simp
      have r1: "rd \<lparr>cells = c, fresh = n\<rparr> (hdaddr 0 xs) = Inr \<lparr>ndata = snd x1, nprev = pv, nnext = fst x2\<rparr>"
        using Suc.prems(1) x12 by (simp add: rd_def)
      have x2: "fst x2 \<noteq> 0" using Suc.prems(1) x12 by simp
      have cw: "c (fst w) = Some \<lparr>ndata = snd w, nprev = lastaddr pv us, nnext = fst y\<rparr>"
        using Suc.prems(1) xs by simp
      have mid': "middle_loop n (hdaddr 0 xs) (fst x2) \<lparr>cells = c, fresh = n\<rparr> = Inr (fst w)" using mid by simp
      have A': "sort_loop m (hdaddr 0 xs) f \<lparr>cells = ?c1, fresh = n\<rparr> = Inr (fst a, \<lparr>cells = c2, fresh = n\<rparr>)"
        using A(1) unfolding a by (simp add: xs)
      have B': "sort_loop m (fst y) f \<lparr>cells = c2, fresh = n\<rparr> = Inr (fst b, \<lparr>cells = c3, fresh = n\<rparr>)"
        using B(1) unfolding b by simp
      have w1: "rd \<lparr>cells = c, fresh = n\<rparr> (fst w) = Inr \<lparr>ndata = snd w, nprev = lastaddr pv us, nnext = fst y\<rparr>"
        "set_next (fst w) 0 \<lparr>cells = c, fresh = n\<rparr> = Inr \<lparr>cells = ?c1, fresh = n\<rparr>"
        using cw by (simp_all add: heap_simps)
      show ?thesis using C(1) h0 r1 x2 by (simp add: mid' A' B' w1)
    qed
    have fr: "\<forall>z. z \<notin> fst ` set xs \<longrightarrow> c' z = c z"
    proof (intro allI impI)
      fix z assume z: "z \<notin> fst ` set xs"
      have "z \<notin> fst ` set ?A" "z \<notin> fst ` set ?B" using z by (auto simp: xs)
      then have "c' z = c3 z" using C(3) unfolding a b by (auto simp: image_Un)
      also have "\<dots> = ?c1 z" using A(3) B(3) z by (simp add: xs image_Un)
      also have "\<dots> = c z" using z by (simp add: xs)
      finally show "c' z = c z" .
    qed
    show ?thesis using run C(2) fr by blast
  qed
qed simp

lemma sort_lst:
  assumes l: "lst h p xs"
  shows "\<exists>p' h'. dap_list_sort_real p f h = Inr (p', h') \<and> lst h' p' (msortl (\<lambda>a b. f a b \<le> 0) xs)"
proof -
  obtain c n where h: "h = \<lparr>cells = c, fresh = n\<rparr>" by (rule heap_cases)
  note L = lst_parts [OF l [unfolded h]]
  from sort_loop_seg [OF L(2,3), of n n f] L obtain c' where
    s: "sort_loop n p f \<lparr>cells = c, fresh = n\<rparr> = Inr (hdaddr 0 (msortl (\<lambda>a b. f a b \<le> 0) xs), \<lparr>cells = c', fresh = n\<rparr>)"
    "seg c' 0 (msortl (\<lambda>a b. f a b \<le> 0) xs) 0" "\<forall>a. a \<notin> fst ` set xs \<longrightarrow> c' a = c a" by auto
  have "heap_ok \<lparr>cells = c', fresh = n\<rparr>"
  proof -
    have "0 \<notin> fst ` set xs" using seg_alloc [OF L(2), of 0] by blast
    moreover have "a \<notin> fst ` set xs" if "n \<le> a" for a using that lst_snoc_neq(3) [OF l [unfolded h]] by fastforce
    ultimately show ?thesis using L(4,5,9) s(3) by (auto simp: heap_ok_def)
  qed
  with s(1,2) L(3) show ?thesis by (simp add: h dap_list_sort_real_def lst_def distinct_msortl)
qed

end
