(* ===== verification/DListClaims.thy ===== *)
theory DListClaims
  imports DListSort
begin

text \<open>
  The linked list as a sequence of data: every run of the list operations on a well-formed heap is
  the run of the same operations on a HOL list, by the simulation of one operation.
\<close>

section \<open>Operations as one step function\<close>

datatype list_op =
    Append ptr | Prepend ptr | Insert ptr int | Remove ptr | RemoveAll ptr | Reverse
  | InsertSorted ptr "ptr \<Rightarrow> ptr \<Rightarrow> ptr \<Rightarrow> int" | Sort "ptr \<Rightarrow> ptr \<Rightarrow> ptr \<Rightarrow> int"

fun list_step :: "list_op \<Rightarrow> ptr \<times> heap \<Rightarrow> (ptr \<times> heap) res" where
  "list_step (Append d) (p, h) = dap_list_append p d h"
| "list_step (Prepend d) (p, h) = dap_list_prepend p d h"
| "list_step (Insert d i) (p, h) = dap_list_insert p d i h"
| "list_step (Remove d) (p, h) = dap_list_remove p d h"
| "list_step (RemoveAll d) (p, h) = dap_list_remove_all p d h"
| "list_step Reverse (p, h) = dap_list_reverse p h"
| "list_step (InsertSorted d f) (p, h) = dap_list_insert_sorted p d f h"
| "list_step (Sort f) (p, h) = dap_list_sort p f h"

text \<open>The same on the sequence of data; the sort is \<open>sort_data\<close>, the data of \<open>msortl\<close>.\<close>

definition sort_data :: "(ptr \<Rightarrow> ptr \<Rightarrow> ptr \<Rightarrow> int) \<Rightarrow> ptr list \<Rightarrow> ptr list" where
  "sort_data f ds = map snd (msortl (\<lambda>a b. f a b 0 \<le> 0) (map (Pair ()) ds))"

fun list_spec :: "list_op \<Rightarrow> ptr list \<Rightarrow> ptr list" where
  "list_spec (Append d) ds = ds @ [d]"
| "list_spec (Prepend d) ds = d # ds"
| "list_spec (Insert d i) ds = insert_at i d ds"
| "list_spec (Remove d) ds = remove1 d ds"
| "list_spec (RemoveAll d) ds = removeAll d ds"
| "list_spec Reverse ds = rev ds"
| "list_spec (InsertSorted d f) ds = insert_before_first (\<lambda>e. f d e 0 \<le> 0) d ds"
| "list_spec (Sort f) ds = sort_data f ds"

definition lrep :: "ptr \<times> heap \<Rightarrow> ptr list \<Rightarrow> bool" where
  "lrep s ds \<longleftrightarrow> (\<exists>xs. lst (snd s) (fst s) xs \<and> map snd xs = ds)"

lemma map_snd_insert_at: "map snd (insert_at i x xs) = insert_at i (snd x) (map snd xs)"
  by (simp add: insert_at_def take_map drop_map)

lemma map_snd_insert_before_first:
  "map snd (insert_before_first (\<lambda>x. P (snd x)) x xs) = insert_before_first P (snd x) (map snd xs)"
  by (simp add: insert_before_first_def takeWhile_map dropWhile_map comp_def)

lemma map_snd_filter: "map snd (filter (\<lambda>x. snd x \<noteq> d) xs) = removeAll d (map snd xs)"
  by (induction xs) auto

lemma map_snd_mergel: "map snd xs = map snd xs' \<Longrightarrow> map snd ys = map snd ys' \<Longrightarrow>
   map snd (mergel le xs ys) = map snd (mergel le xs' ys')"
proof (induction le xs ys arbitrary: xs' ys' rule: mergel.induct)
  case (1 le ys) then show ?case by simp
next
  case (2 le x xs) then show ?case by simp
next
  case (3 le x xs y ys)
  from 3(3,4) obtain a as b bs where "xs' = a # as" "ys' = b # bs" "snd a = snd x" "snd b = snd y"
    "map snd xs = map snd as" "map snd ys = map snd bs" by (cases xs'; cases ys') auto
  then show ?case using 3(1) [of as ys'] 3(2) [of xs' bs] 3(3,4) by simp
qed

lemma map_snd_msortl: "map snd xs = map snd ys \<Longrightarrow> map snd (msortl le xs) = map snd (msortl le ys)"
proof (induction le xs arbitrary: ys rule: msortl.induct)
  case (1 le xs)
  have len: "length ys = length xs" using arg_cong [OF 1(3), of length] by simp
  show ?case
  proof (cases "length xs < 2")
    case True then show ?thesis using 1(3) len by (simp add: msortl.simps)
  next
    case False
    let ?k = "length xs div 2"
    have "map snd (msortl le (take ?k xs)) = map snd (msortl le (take ?k ys))"
      by (rule 1(1) [OF False]) (simp add: take_map [symmetric] 1(3))
    moreover have "map snd (msortl le (drop ?k xs)) = map snd (msortl le (drop ?k ys))"
      by (rule 1(2) [OF False]) (simp add: drop_map [symmetric] 1(3))
    ultimately have "map snd (mergel le (msortl le (take ?k xs)) (msortl le (drop ?k xs))) =
        map snd (mergel le (msortl le (take ?k ys)) (msortl le (drop ?k ys)))" by (rule map_snd_mergel)
    then show ?thesis using False len by (simp add: msortl.simps [of le xs] msortl.simps [of le ys])
  qed
qed

lemma list_step_rep:
  assumes "lrep s ds" shows "\<exists>s'. list_step x s = Inr s' \<and> lrep s' (list_spec x ds)"
proof -
  obtain p h where s: "s = (p, h)" by (cases s)
  from assms obtain xs where l: "lst h p xs" and ds: "ds = map snd xs" by (auto simp: lrep_def s)
  have go: "\<exists>s'. list_step x s = Inr s' \<and> lrep s' (list_spec x ds)"
    if "\<exists>p' h'. list_step x s = Inr (p', h') \<and> lst h' p' ys" "map snd ys = list_spec x ds" for ys
    using that by (fastforce simp: lrep_def)
  show ?thesis
  proof (cases x)
    case (Append d) then show ?thesis using append_lst [OF l, of d] by (intro go) (auto simp: s ds)
  next
    case (Prepend d) then show ?thesis using prepend_lst [OF l, of d] by (intro go) (auto simp: s ds)
  next
    case (Insert d i) then show ?thesis using insert_lst [OF l, of d i] by (intro go) (auto simp: s ds map_snd_insert_at)
  next
    case (Remove d) then show ?thesis using remove_lst [OF l, of d] by (intro go) (auto simp: s ds map_snd_remove_data)
  next
    case (RemoveAll d) then show ?thesis using remove_all_lst [OF l, of d] by (intro go) (auto simp: s ds map_snd_filter)
  next
    case Reverse then show ?thesis using reverse_lst [OF l] by (intro go) (auto simp: s ds rev_map)
  next
    case (InsertSorted d f)
    then show ?thesis using insert_sorted_lst [OF l, of d "\<lambda>a b. f a b 0"]
      by (intro go) (auto simp: s ds dap_list_insert_sorted_def map_snd_insert_before_first [of "\<lambda>e. f d e 0 \<le> 0"])
  next
    case (Sort f)
    have "map snd (msortl (\<lambda>a b. f a b 0 \<le> 0) xs) = sort_data f ds"
      unfolding sort_data_def ds by (rule map_snd_msortl) (simp add: comp_def)
    then show ?thesis using Sort sort_lst [OF l, of "\<lambda>a b. f a b 0"]
      by (intro go) (auto simp: s dap_list_sort_def)
  qed
qed

interpretation dlist: simulation lrep list_step list_spec "\<lambda>x ds. True"
  by unfold_locales (rule list_step_rep)

definition empty_heap :: heap where
  "empty_heap = \<lparr>cells = \<lambda>_. None, fresh = 1\<rparr>"

lemma lst_empty [simp]: "lst empty_heap 0 []"
  by (simp add: lst_def heap_ok_def empty_heap_def)

lemma lrep_empty [simp]: "lrep (0, empty_heap) []"
  by (simp add: lrep_def)

section \<open>Properties\<close>

text \<open>
  C28: every sequence of appends, prepends, insertions at a position, removals, reversals, sorted
  insertions and sorts, on a heap that holds the list of data ds, runs without a fault and without
  going round a cycle, and the list it leaves holds what the same operations make of ds: walking it
  from the head gives those data, its length (an \<open>unsigned int\<close>) is theirs modulo 2^32, and its n-th
  datum is theirs.
\<close>

theorem list_runs_as_sequence:
  assumes "lrep (p, h) ds"
  shows "\<exists>p' h'. steps list_step ops (p, h) = Inr (p', h') \<and> lrep (p', h') (fold list_spec ops ds) \<and>
    dap_list_foreach p' h' = Inr (fold list_spec ops ds) \<and>
    (\<exists>n. dap_list_length p' h' = Inr n \<and> unat n = length (fold list_spec ops ds) mod 2 ^ 32) \<and>
    (\<forall>n. dap_list_nth_data p' n h' = Inr (if n < length (fold list_spec ops ds) then fold list_spec ops ds ! n else 0))"
proof -
  from dlist.run_rep [OF assms admissible_True, of ops] obtain p' h' where
    r: "steps list_step ops (p, h) = Inr (p', h')" "lrep (p', h') (fold list_spec ops ds)" by auto
  then obtain xs where x: "lst h' p' xs" "map snd xs = fold list_spec ops ds" by (auto simp: lrep_def)
  have "length xs = length (fold list_spec ops ds)" using arg_cong [OF x(2), of length] by simp
  then have "snd (xs ! n) = fold list_spec ops ds ! n" if "n < length (fold list_spec ops ds)" for n
    using that x(2) by (metis nth_map)
  then show ?thesis using \<open>length xs = _\<close> r foreach_lst [OF x(1)] length_lst [OF x(1)] nth_data_lst [OF x(1)] x(2)
    by (auto simp: unat_of_nat)
qed

theorem list_runs_as_sequence_witness:
  "\<exists>p' h'. steps list_step [Append 7, Prepend 5, Insert 9 1, RemoveAll 7, Reverse] (0, empty_heap) = Inr (p', h') \<and>
    dap_list_foreach p' h' = Inr [9, 5]"
  using list_runs_as_sequence [OF lrep_empty, of "[Append 7, Prepend 5, Insert 9 1, RemoveAll 7, Reverse]"]
  by (auto simp: insert_at_def)

text \<open>
  C29: sorting with a comparison that is a total preorder relinks the same cells, so the data are a
  permutation of what they were, in order, and cells that compare equal keep their order.
\<close>

theorem list_sort_stable:
  assumes "lst h p xs" and "total_order (\<lambda>a b. f a b 0 \<le> 0)"
  shows "\<exists>p' h' ys. dap_list_sort p f h = Inr (p', h') \<and> lst h' p' ys \<and> mset ys = mset xs \<and>
    sorted_data (\<lambda>a b. f a b 0 \<le> 0) ys \<and>
    (\<forall>k. filter (\<lambda>x. f (snd x) k 0 \<le> 0 \<and> f k (snd x) 0 \<le> 0) ys = filter (\<lambda>x. f (snd x) k 0 \<le> 0 \<and> f k (snd x) 0 \<le> 0) xs)"
proof -
  from sort_lst [OF assms(1), of "\<lambda>a b. f a b 0"] obtain p' h' where
    "dap_list_sort p f h = Inr (p', h')" "lst h' p' (msortl (\<lambda>a b. f a b 0 \<le> 0) xs)"
    by (auto simp: dap_list_sort_def)
  moreover have "filter (\<lambda>x. f (snd x) k 0 \<le> 0 \<and> f k (snd x) 0 \<le> 0) (msortl (\<lambda>a b. f a b 0 \<le> 0) xs) =
      filter (\<lambda>x. f (snd x) k 0 \<le> 0 \<and> f k (snd x) 0 \<le> 0) xs" for k
    by (rule stable_msortl [OF assms(2)]) simp
  ultimately show ?thesis using sorted_msortl [OF assms(2)] mset_msortl by blast
qed

definition two_cells :: heap where
  "two_cells = \<lparr>cells = (\<lambda>_. None)(1 \<mapsto> \<lparr>ndata = 9, nprev = 0, nnext = 2\<rparr>, 2 \<mapsto> \<lparr>ndata = 4, nprev = 1, nnext = 0\<rparr>), fresh = 3\<rparr>"

lemma lst_two_cells: "lst two_cells 1 [(1, 9), (2, 4)]"
  by (auto simp: lst_def heap_ok_def two_cells_def)

theorem list_sort_stable_witness:
  "\<exists>p' h' ys. dap_list_sort 1 (\<lambda>a b u. int a - int b) two_cells = Inr (p', h') \<and> lst h' p' ys \<and>
    mset ys = {#(1, 9), (2, 4)#} \<and> sorted_data (\<lambda>a b. a \<le> b) ys"
proof -
  have "total_order (\<lambda>a b. int a - int b \<le> 0)" by (auto simp: total_order_def)
  from list_sort_stable [OF lst_two_cells, of "\<lambda>a b u. int a - int b", OF this] show ?thesis by auto
qed

text \<open>
  a deep copy of a list allocates cells of its own and leaves the original as it was: the copy
  holds the copied data in the same order, shares no cell with the original, and both are
  well-formed afterwards.
\<close>

theorem list_copy_independent:
  assumes "lst h p xs"
  shows "\<exists>q h' ys. dap_list_copy_deep p func h = Inr (q, h') \<and> lst h' q ys \<and> lst h' p xs \<and>
    map snd ys = map (\<lambda>x. copy_data func (snd x)) xs \<and> fst ` set xs \<inter> fst ` set ys = {}"
  using copy_deep_lst [OF assms, of func] by (simp add: comp_def)

theorem list_copy_independent_witness:
  "\<exists>q h' ys. dap_list_copy_deep 1 (Some (\<lambda>d. d + 100)) two_cells = Inr (q, h') \<and> lst h' q ys \<and>
    lst h' 1 [(1, 9), (2, 4)] \<and> map snd ys = [109, 104]"
  using list_copy_independent [OF lst_two_cells, of "Some (\<lambda>d. d + 100)"] by (fastforce simp: copy_data_def)

lemma free_loop_seg:
  "seg c pv xs 0 \<Longrightarrow> length xs \<le> m \<Longrightarrow> distinct (map fst xs) \<Longrightarrow>
   free_loop m (hdaddr 0 xs) \<lparr>cells = c, fresh = n\<rparr> = Inr \<lparr>cells = (\<lambda>a. if a \<in> fst ` set xs then None else c a), fresh = n\<rparr>"
proof (induction xs arbitrary: pv m c)
  case Nil then show ?case by (cases m) auto
next
  case (Cons x xs)
  then obtain k where m: "m = Suc k" by (cases m) auto
  have "seg (c(fst x := None)) (fst x) xs 0" "length xs \<le> k" "distinct (map fst xs)" using Cons.prems m by auto
  note IH = Cons.IH [OF this]
  have "(\<lambda>a. if a \<in> fst ` set xs then None else (c(fst x := None)) a) = (\<lambda>a. if a \<in> fst ` set (x # xs) then None else c a)"
    by (auto simp: fun_eq_iff)
  with IH have "free_loop k (hdaddr 0 xs) \<lparr>cells = c(fst x := None), fresh = n\<rparr> =
    Inr \<lparr>cells = (\<lambda>a. if a \<in> fst ` set (x # xs) then None else c a), fresh = n\<rparr>" by (simp only:)
  then show ?case using Cons.prems by (simp add: m heap_simps)
qed

text \<open>
  freeing a list releases every cell of it exactly once and no other cell: no cell is freed
  twice, none is read after it was freed, and none is left.
\<close>

theorem list_free_exact:
  assumes "lst h p xs"
  shows "dap_list_free p h = Inr \<lparr>cells = (\<lambda>a. if a \<in> fst ` set xs then None else cells h a), fresh = fresh h\<rparr>"
proof -
  obtain c n where h: "h = \<lparr>cells = c, fresh = n\<rparr>" by (rule heap_cases)
  note L = lst_parts [OF assms [unfolded h]]
  show ?thesis using free_loop_seg [OF L(2), of n n] L(3,7) unfolding L(1) by (simp add: dap_list_free_def h cong: if_cong)
qed

theorem list_free_exact_witness:
  "dap_list_free 1 two_cells = Inr \<lparr>cells = (\<lambda>a. None), fresh = 3\<rparr>"
  using list_free_exact [OF lst_two_cells] by (simp add: two_cells_def fun_eq_iff)

end
