(* ===== verification/DString.thy ===== *)
theory DString
  imports CString Simulation
begin

text \<open>
  The growing string of \<open>modules/core/src/dap_string.c\<close>.  The allocated area is the list \<open>buf\<close>, so
  \<open>allocated_len\<close> is its length; an area that could not be allocated (\<open>str = NULL\<close>) is the empty
  list.  The allocator is a parameter: which sizes \<open>realloc\<close> grants, and what fresh memory holds.
  The string object itself is never NULL here.
\<close>

unbundle bit_operations_syntax

section \<open>State\<close>

record dap_string =
  buf :: "byte list"
  slen :: nat

record alloc_env =
  realloc_ok :: "nat \<Rightarrow> bool"
  junk :: "nat \<Rightarrow> byte"

text \<open>A \<open>char *\<close> argument: NULL, memory outside the string (up to the end of its object), or the string's own area.\<close>

datatype cptr = Null | Ext "byte list" | Own nat

definition str_new :: dap_string where
  "str_new = \<lparr>buf = [], slen = 0\<rparr>"

section \<open>Growth\<close>

function pow_loop :: "nat \<Rightarrow> nat \<Rightarrow> nat" where
  "pow_loop l_n a_num = (if 0 < l_n \<and> l_n < a_num then pow_loop (l_n * 2) a_num else l_n)"
  by pat_completeness auto
termination by (relation "measure (\<lambda>(l_n, a_num). a_num - l_n)") auto

declare pow_loop.simps [simp del]

text \<open>\<open>MY_MAXSIZE\<close> is the largest \<open>size_t\<close>.\<close>

definition MY_MAXSIZE :: nat where
  "MY_MAXSIZE = 2 ^ 64 - 1"

definition nearest_power :: "nat \<Rightarrow> nat \<Rightarrow> nat" where
  "nearest_power a_base a_num = (if MY_MAXSIZE div 2 < a_num then MY_MAXSIZE else pow_loop a_base a_num)"

text \<open>Sums of \<open>size_t\<close> wrap.\<close>

definition size_sum :: "nat \<Rightarrow> nat \<Rightarrow> nat" where
  "size_sum a b = unat (word_of_nat a + word_of_nat b :: u64)"

definition dap_string_maybe_expand :: "alloc_env \<Rightarrow> nat \<Rightarrow> dap_string \<Rightarrow> dap_string" where
  "dap_string_maybe_expand E a_len s =
     (if size_sum (slen s) a_len < length (buf s) then s
      else let l_len = nearest_power 1 (size_sum (size_sum (slen s) a_len) 1) in
           if realloc_ok E l_len
           then s\<lparr>buf := take l_len (buf s) @ map (junk E) [length (buf s)..<l_len]\<rparr>
           else s)"

text \<open>Single bytes and overlapping moves in the area.\<close>

definition poke :: "nat \<Rightarrow> byte \<Rightarrow> dap_string \<Rightarrow> dap_string res" where
  "poke i b s = bindE (blitE (buf s) i [b]) (\<lambda>bs. Inr (s\<lparr>buf := bs\<rparr>))"

definition move :: "nat \<Rightarrow> nat \<Rightarrow> nat \<Rightarrow> dap_string \<Rightarrow> dap_string res" where
  "move dst src n s = bindE (chunkE (buf s) src n) (\<lambda>bs. bindE (blitE (buf s) dst bs) (\<lambda>bs'. Inr (s\<lparr>buf := bs'\<rparr>)))"

definition put :: "nat \<Rightarrow> byte list \<Rightarrow> dap_string \<Rightarrow> dap_string res" where
  "put i bs s = bindE (blitE (buf s) i bs) (\<lambda>bs'. Inr (s\<lparr>buf := bs'\<rparr>))"

text \<open>\<open>strlen\<close> of memory that ends with its object.\<close>

definition strlen_mem :: "byte list \<Rightarrow> nat res" where
  "strlen_mem bs = (if 0 \<in> set bs then Inr (length (takeWhile (\<lambda>b. b \<noteq> 0) bs)) else Inl OutOfBounds)"

definition strlen_ptr :: "dap_string \<Rightarrow> cptr \<Rightarrow> nat res" where
  "strlen_ptr s val = (case val of Null \<Rightarrow> Inl NullDeref | Ext bs \<Rightarrow> strlen_mem bs | Own off \<Rightarrow> strlen_mem (drop off (buf s)))"

section \<open>Construction\<close>

definition dap_string_sized_new :: "alloc_env \<Rightarrow> nat \<Rightarrow> dap_string res" where
  "dap_string_sized_new E a_dfl_size =
     (let s = dap_string_maybe_expand E (max a_dfl_size 2) str_new in
      if buf s \<noteq> [] then poke 0 0 s else Inr s)"

definition terminate :: "dap_string \<Rightarrow> dap_string res" where
  "terminate s = poke (slen s) 0 s"

section \<open>Insertion\<close>

definition open_gap :: "nat \<Rightarrow> nat \<Rightarrow> dap_string \<Rightarrow> dap_string res" where
  "open_gap pos len s = (if pos < slen s then move (pos + len) pos (slen s - pos) s else Inr s)"

text \<open>
  The copy into the gap.  A value inside the string's text (\<open>off \<le> slen\<close>) is copied in the two parts
  that the gap split it into; other memory is copied as it is: memory of the string's own area
  behind the text, if the area was not moved, must not overlap the gap.
\<close>

definition copy_own :: "nat \<Rightarrow> nat \<Rightarrow> nat \<Rightarrow> dap_string \<Rightarrow> dap_string res" where
  "copy_own pos offset len s =
     (let precount = (if offset < pos then min len (pos - offset) else 0) in
      bindE (if offset < pos then move pos offset precount s else Inr s) (\<lambda>s1.
      if precount < len then move (pos + precount) (offset + precount + len) (len - precount) s1 else Inr s1))"

definition dap_string_insert_len :: "alloc_env \<Rightarrow> int \<Rightarrow> cptr \<Rightarrow> int \<Rightarrow> dap_string \<Rightarrow> dap_string res" where
  "dap_string_insert_len E pos val len s =
     (if len \<noteq> 0 \<and> val = Null then Inr s
      else if len = 0 then Inr s
      else bindE (if len < 0 then strlen_ptr s val else Inr (nat len)) (\<lambda>n.
      if 0 \<le> pos \<and> slen s < nat pos then Inr s
      else let p = (if pos < 0 then slen s else nat pos); s1 = dap_string_maybe_expand E n s in
      bindE (open_gap p n s1) (\<lambda>s2.
      bindE (case val of
               Null \<Rightarrow> Inl NullDeref
             | Ext bs \<Rightarrow> bindE (chunkE bs 0 n) (\<lambda>v. put p v s2)
             | Own offset \<Rightarrow>
                 if offset \<le> slen s then copy_own p offset n s2
                 else if s1 \<noteq> s then Inl BadFree
                 else if n \<noteq> 1 \<and> p < offset + n \<and> offset < p + n then Inl Overlap
                 else move p offset n s2) (\<lambda>s3.
      terminate (s3\<lparr>slen := slen s3 + n\<rparr>)))))"

definition dap_string_append :: "alloc_env \<Rightarrow> cptr \<Rightarrow> dap_string \<Rightarrow> dap_string res" where
  "dap_string_append E val s = dap_string_insert_len E (-1) val (-1) s"

definition dap_string_append_len :: "alloc_env \<Rightarrow> cptr \<Rightarrow> int \<Rightarrow> dap_string \<Rightarrow> dap_string res" where
  "dap_string_append_len E val len s = dap_string_insert_len E (-1) val len s"

definition dap_string_prepend :: "alloc_env \<Rightarrow> cptr \<Rightarrow> dap_string \<Rightarrow> dap_string res" where
  "dap_string_prepend E val s = dap_string_insert_len E 0 val (-1) s"

definition dap_string_prepend_len :: "alloc_env \<Rightarrow> cptr \<Rightarrow> int \<Rightarrow> dap_string \<Rightarrow> dap_string res" where
  "dap_string_prepend_len E val len s = dap_string_insert_len E 0 val len s"

definition dap_string_insert :: "alloc_env \<Rightarrow> int \<Rightarrow> cptr \<Rightarrow> dap_string \<Rightarrow> dap_string res" where
  "dap_string_insert E pos val s = dap_string_insert_len E pos val (-1) s"

definition dap_string_insert_c :: "alloc_env \<Rightarrow> int \<Rightarrow> byte \<Rightarrow> dap_string \<Rightarrow> dap_string res" where
  "dap_string_insert_c E pos c s =
     (let s1 = dap_string_maybe_expand E 1 s in
      if 0 \<le> pos \<and> slen s1 < nat pos then Inr s1
      else let p = (if pos < 0 then slen s1 else nat pos) in
      bindE (open_gap p 1 s1) (\<lambda>s2.
      bindE (poke p c s2) (\<lambda>s3. terminate (s3\<lparr>slen := slen s3 + 1\<rparr>))))"

definition dap_string_append_c :: "alloc_env \<Rightarrow> byte \<Rightarrow> dap_string \<Rightarrow> dap_string res" where
  "dap_string_append_c E c s = dap_string_insert_c E (-1) c s"

definition dap_string_prepend_c :: "alloc_env \<Rightarrow> byte \<Rightarrow> dap_string \<Rightarrow> dap_string res" where
  "dap_string_prepend_c E c s = dap_string_insert_c E 0 c s"

text \<open>The bytes of a code point: the lead byte carries what is left after the continuation bytes took six bits each.\<close>

definition unichar_first :: "u32 \<Rightarrow> u32 \<times> nat" where
  "unichar_first wc =
     (if wc < 0x80 then (0, 1) else if wc < 0x800 then (0xc0, 2) else if wc < 0x10000 then (0xe0, 3)
      else if wc < 0x200000 then (0xf0, 4) else if wc < 0x4000000 then (0xf8, 5) else (0xfc, 6))"

fun unichar_tail :: "nat \<Rightarrow> u32 \<Rightarrow> byte list \<Rightarrow> u32 \<times> byte list" where
  "unichar_tail 0 wc acc = (wc, acc)"
| "unichar_tail (Suc i) wc acc = unichar_tail i (drop_bit 6 wc) (ucast ((wc AND 0x3f) OR 0x80) # acc)"

definition unichar_bytes :: "u32 \<Rightarrow> byte list" where
  "unichar_bytes wc =
     (let (first, charlen) = unichar_first wc; (rest, tl) = unichar_tail (charlen - 1) wc [] in
      ucast (rest OR first) # tl)"

definition dap_string_insert_unichar :: "alloc_env \<Rightarrow> int \<Rightarrow> u32 \<Rightarrow> dap_string \<Rightarrow> dap_string res" where
  "dap_string_insert_unichar E pos wc s =
     (let charlen = snd (unichar_first wc); s1 = dap_string_maybe_expand E charlen s in
      if 0 \<le> pos \<and> slen s1 < nat pos then Inr s1
      else let p = (if pos < 0 then slen s1 else nat pos) in
      bindE (open_gap p charlen s1) (\<lambda>s2.
      bindE (put p (unichar_bytes wc) s2) (\<lambda>s3. terminate (s3\<lparr>slen := slen s3 + charlen\<rparr>))))"

definition dap_string_append_unichar :: "alloc_env \<Rightarrow> u32 \<Rightarrow> dap_string \<Rightarrow> dap_string res" where
  "dap_string_append_unichar E wc s = dap_string_insert_unichar E (-1) wc s"

definition dap_string_prepend_unichar :: "alloc_env \<Rightarrow> u32 \<Rightarrow> dap_string \<Rightarrow> dap_string res" where
  "dap_string_prepend_unichar E wc s = dap_string_insert_unichar E 0 wc s"

text \<open>
  The length found by \<open>strlen\<close> is stored in an \<open>int\<close>: its low 32 bits, read as a signed number.
  \<open>len + 2\<close> is an addition of ints that can overflow, and its value is converted to \<open>size_t\<close>; a
  negative length makes \<open>dap_string_append_len\<close> look for the end of the text again.
\<close>

definition int_len :: "nat \<Rightarrow> int" where
  "int_len n = sint (word_of_nat n :: u32)"

definition dap_string_new :: "alloc_env \<Rightarrow> cptr \<Rightarrow> dap_string res" where
  "dap_string_new E a_init =
     (case a_init of
        Ext bs \<Rightarrow>
          bindE (strlen_mem bs) (\<lambda>n.
          if n = 0 then dap_string_sized_new E 2
          else let len = int_len n in
            if 2 ^ 31 \<le> len + 2 then Inl Overflow
            else bindE (dap_string_sized_new E (unat (word_of_int (len + 2) :: u64))) (dap_string_append_len E a_init len))
      | _ \<Rightarrow> dap_string_sized_new E 2)"

definition dap_string_new_len :: "alloc_env \<Rightarrow> cptr \<Rightarrow> int \<Rightarrow> dap_string res" where
  "dap_string_new_len E a_init a_len =
     (if a_len < 0 then dap_string_new E a_init
      else bindE (dap_string_sized_new E (nat a_len)) (\<lambda>s.
           if a_init \<noteq> Null then dap_string_append_len E a_init a_len s else Inr s))"

text \<open>\<open>dap_string_free\<close> hands the area to the caller when it does not free it.\<close>

definition dap_string_free :: "bool \<Rightarrow> dap_string \<Rightarrow> byte list option" where
  "dap_string_free a_free_segment s = (if a_free_segment then None else Some (buf s))"

section \<open>Other edits\<close>

definition dap_string_truncate :: "nat \<Rightarrow> dap_string \<Rightarrow> dap_string res" where
  "dap_string_truncate len s = terminate (s\<lparr>slen := min len (slen s)\<rparr>)"

definition dap_string_set_size :: "alloc_env \<Rightarrow> nat \<Rightarrow> dap_string \<Rightarrow> dap_string res" where
  "dap_string_set_size E len s =
     (let s1 = (if length (buf s) \<le> len then dap_string_maybe_expand E (len - slen s) s else s) in
      terminate (s1\<lparr>slen := len\<rparr>))"

definition dap_string_assign :: "alloc_env \<Rightarrow> cptr \<Rightarrow> dap_string \<Rightarrow> dap_string res" where
  "dap_string_assign E a_rval s =
     (if a_rval = Null \<or> a_rval = Own 0 then Inr s
      else bindE (dap_string_truncate 0 s) (dap_string_append E a_rval))"

definition dap_string_overwrite_len :: "alloc_env \<Rightarrow> nat \<Rightarrow> cptr \<Rightarrow> int \<Rightarrow> dap_string \<Rightarrow> dap_string res" where
  "dap_string_overwrite_len E pos val len s =
     (if len = 0 \<or> val = Null \<or> slen s < pos then Inr s
      else bindE (if len < 0 then strlen_ptr s val else Inr (nat len)) (\<lambda>n.
      let s1 = (if slen s < pos + n then dap_string_maybe_expand E (pos + n - slen s) s else s) in
      bindE (case val of
               Null \<Rightarrow> Inl NullDeref
             | Ext bs \<Rightarrow> bindE (chunkE bs 0 n) (\<lambda>v. put pos v s1)
             | Own offset \<Rightarrow>
                 if s1 \<noteq> s then Inl BadFree
                 else if 0 < n \<and> pos < offset + n \<and> offset < pos + n then Inl Overlap
                 else move pos offset n s1) (\<lambda>s2.
      if slen s2 < pos + n then bindE (poke (pos + n) 0 s2) (\<lambda>s3. Inr (s3\<lparr>slen := pos + n\<rparr>)) else Inr s2)))"

definition dap_string_overwrite :: "alloc_env \<Rightarrow> nat \<Rightarrow> cptr \<Rightarrow> dap_string \<Rightarrow> dap_string res" where
  "dap_string_overwrite E pos val s =
     (if val = Null then Inr s
      else bindE (strlen_ptr s val) (\<lambda>n. dap_string_overwrite_len E pos val (int n) s))"

definition dap_string_erase :: "int \<Rightarrow> int \<Rightarrow> dap_string \<Rightarrow> dap_string res" where
  "dap_string_erase pos len s =
     (if pos < 0 \<or> slen s < nat pos then Inr s
      else if len < 0 then terminate (s\<lparr>slen := nat pos\<rparr>)
      else if 2 ^ 63 \<le> pos + len then Inl Overflow
      else if slen s < nat (pos + len) then Inr s
      else bindE (if nat (pos + len) < slen s
                  then move (nat pos) (nat (pos + len)) (slen s - nat (pos + len)) s else Inr s) (\<lambda>s1.
           terminate (s1\<lparr>slen := slen s1 - nat len\<rparr>)))"

section \<open>Comparison, hash and case\<close>

text \<open>The comparison reads both areas only while the lengths agree.\<close>

fun equal_loop :: "nat \<Rightarrow> byte list \<Rightarrow> byte list \<Rightarrow> bool res" where
  "equal_loop 0 p q = Inr True"
| "equal_loop (Suc i) (a # p) (b # q) = (if a \<noteq> b then Inr False else equal_loop i p q)"
| "equal_loop (Suc i) p q = Inl OutOfBounds"

definition dap_string_equal :: "dap_string \<Rightarrow> dap_string \<Rightarrow> bool res" where
  "dap_string_equal a_v a_v2 =
     (if slen a_v \<noteq> slen a_v2 then Inr False else equal_loop (slen a_v) (buf a_v) (buf a_v2))"

text \<open>\<open>*p\<close> is a signed \<open>char\<close>, extended to \<open>unsigned int\<close>.\<close>

fun hash_loop :: "nat \<Rightarrow> byte list \<Rightarrow> u32 \<Rightarrow> u32 res" where
  "hash_loop 0 p h = Inr h"
| "hash_loop (Suc n) (c # p) h = hash_loop n p (push_bit 5 h - h + scast c)"
| "hash_loop (Suc n) [] h = Inl OutOfBounds"

definition dap_string_hash :: "dap_string \<Rightarrow> u32 res" where
  "dap_string_hash a_str = hash_loop (slen a_str) (buf a_str) 0"

definition dap_string_down :: "dap_string \<Rightarrow> dap_string res" where
  "dap_string_down s =
     bindE (chunkE (buf s) 0 (slen s)) (\<lambda>t. put 0 (map (\<lambda>c. if isupper c then tolower c else c) t) s)"

definition dap_string_up :: "dap_string \<Rightarrow> dap_string res" where
  "dap_string_up s =
     bindE (chunkE (buf s) 0 (slen s)) (\<lambda>t. put 0 (map (\<lambda>c. if islower c then toupper c else c) t) s)"

section \<open>Formatted output\<close>

text \<open>
  The formatted text is what \<open>dap_vasprintf\<close> made of the format and its arguments: None when it
  failed, otherwise the bytes before the terminating NUL.  When the text is empty and the string has
  no area, the code points \<open>str\<close> at a message without counting it in \<open>len\<close> or \<open>allocated_len\<close>; the
  model, which knows the area by its counted length, leaves the string as it is.
\<close>

definition dap_string_append_vprintf :: "alloc_env \<Rightarrow> byte list option \<Rightarrow> dap_string \<Rightarrow> dap_string res" where
  "dap_string_append_vprintf E out s =
     (case out of
        None \<Rightarrow> Inr s
      | Some t \<Rightarrow>
          let s1 = dap_string_maybe_expand E (length t) s in
          if length (buf s1) - slen s1 < length t then Inr s1
          else if buf s1 \<noteq> [] then bindE (put (slen s1) (t @ [0]) s1) (\<lambda>s2. Inr (s2\<lparr>slen := slen s2 + length t\<rparr>))
          else Inr s1)"

definition dap_string_prepend_vprintf :: "alloc_env \<Rightarrow> byte list option \<Rightarrow> dap_string \<Rightarrow> dap_string res" where
  "dap_string_prepend_vprintf E out s =
     (case out of None \<Rightarrow> Inr s | Some t \<Rightarrow> dap_string_prepend E (Ext (t @ [0])) s)"

definition dap_string_vprintf :: "alloc_env \<Rightarrow> byte list option \<Rightarrow> dap_string \<Rightarrow> dap_string res" where
  "dap_string_vprintf E out s = bindE (dap_string_truncate 0 s) (dap_string_append_vprintf E out)"

definition dap_string_printf :: "alloc_env \<Rightarrow> byte list option \<Rightarrow> dap_string \<Rightarrow> dap_string res" where
  "dap_string_printf E out s = bindE (dap_string_truncate 0 s) (dap_string_append_vprintf E out)"

definition dap_string_append_printf :: "alloc_env \<Rightarrow> byte list option \<Rightarrow> dap_string \<Rightarrow> dap_string res" where
  "dap_string_append_printf E out s = dap_string_append_vprintf E out s"

definition dap_string_prepend_printf :: "alloc_env \<Rightarrow> byte list option \<Rightarrow> dap_string \<Rightarrow> dap_string res" where
  "dap_string_prepend_printf E out s = dap_string_prepend_vprintf E out s"

section \<open>Lengths of encodings\<close>

lemma length_unichar_tail: "length (snd (unichar_tail i wc acc)) = i + length acc"
  by (induction i wc acc rule: unichar_tail.induct) auto

lemma unichar_first_pos: "0 < snd (unichar_first wc)"
  by (simp add: unichar_first_def)

lemma length_unichar_bytes: "length (unichar_bytes wc) = snd (unichar_first wc)"
  using unichar_first_pos [of wc] length_unichar_tail [of "snd (unichar_first wc) - 1" wc "[]"]
  by (simp add: unichar_bytes_def split_beta Let_def)

end
