(* ===== verification/DStringClaims.thy ===== *)
theory DStringClaims
  imports DString
begin

text \<open>
  The growing string as the text it holds: while memory is granted every edit is the edit of the
  byte list \<open>content s\<close>, values taken from the string itself included; what happens when memory is
  not granted; and the UTF-8 encoding of code points.
\<close>

section \<open>Invariant and growth\<close>

definition dstr_ok :: "dap_string \<Rightarrow> bool" where
  "dstr_ok s \<longleftrightarrow> slen s < length (buf s) \<and> buf s ! slen s = 0"

definition content :: "dap_string \<Rightarrow> byte list" where
  "content s = take (slen s) (buf s)"

lemma length_content: "dstr_ok s \<Longrightarrow> length (content s) = slen s"
  by (simp add: dstr_ok_def content_def)

lemma pow_loop_ge: "0 < l \<Longrightarrow> n \<le> pow_loop l n"
  by (induction l n rule: pow_loop.induct) (subst pow_loop.simps, auto)

lemma pow_loop_less: "0 < l \<Longrightarrow> l < 2 * n \<Longrightarrow> pow_loop l n < 2 * n"
  by (induction l n rule: pow_loop.induct) (subst pow_loop.simps, auto)

lemma pow_loop_pow: "\<exists>k. pow_loop l n = l * 2 ^ k"
proof (induction l n rule: pow_loop.induct)
  case (1 l n)
  show ?case
  proof (cases "0 < l \<and> l < n")
    case True
    then obtain k where "pow_loop (l * 2) n = l * 2 * 2 ^ k" using 1 by auto
    with True have "pow_loop l n = l * 2 ^ Suc k" by (subst pow_loop.simps) simp
    then show ?thesis by blast
  next
    case False
    then have "pow_loop l n = l * 2 ^ 0" by (subst pow_loop.simps) auto
    then show ?thesis by blast
  qed
qed

text \<open>Memory is granted up to half of the address space, and \<open>n\<close> bytes are far from it.\<close>

definition room :: "alloc_env \<Rightarrow> nat \<Rightarrow> bool" where
  "room E n \<longleftrightarrow> (\<forall>m < 2 ^ 63. realloc_ok E m) \<and> n < 2 ^ 62"

lemma size_sum_small: "a + b < 2 ^ 64 \<Longrightarrow> size_sum a b = a + b"
  by (simp add: size_sum_def unsigned_of_nat take_bit_nat_eq_self_iff flip: of_nat_add)

lemma expand_ok:
  assumes "room E (slen s + n)"
  obtains r where "dap_string_maybe_expand E n s = s\<lparr>buf := buf s @ r\<rparr>" "slen s + n < length (buf s @ r)"
proof (cases "slen s + n < length (buf s)")
  case True
  moreover have "size_sum (slen s) n = slen s + n" using assms by (simp add: room_def size_sum_small)
  ultimately show thesis by (intro that [of "[]"]) (simp_all add: dap_string_maybe_expand_def)
next
  case False
  let ?l = "nearest_power 1 (slen s + n + 1)"
  have z: "size_sum (slen s) n = slen s + n" "size_sum (slen s + n) 1 = slen s + n + 1"
    using assms by (simp_all add: room_def size_sum_small)
  have l: "slen s + n + 1 \<le> ?l" "?l < 2 ^ 63"
    using assms pow_loop_ge [of 1 "slen s + n + 1"] pow_loop_less [of 1 "slen s + n + 1"]
    by (auto simp: nearest_power_def room_def MY_MAXSIZE_def)
  show thesis
  proof (rule that [of "map (junk E) [length (buf s)..<?l]"])
    show "dap_string_maybe_expand E n s = s\<lparr>buf := buf s @ map (junk E) [length (buf s)..<?l]\<rparr>"
      using False l assms unfolding dap_string_maybe_expand_def z by (simp add: room_def Let_def)
    show "slen s + n < length (buf s @ map (junk E) [length (buf s)..<?l])" using l False by simp
  qed
qed

section \<open>Insertions\<close>

lemma open_gap_ok:
  assumes "p \<le> slen s" "slen s + n \<le> length (buf s)"
  shows "\<exists>g. open_gap p n s = Inr (s\<lparr>buf := take p (content s) @ g @ drop p (content s) @ drop (slen s + n) (buf s)\<rparr>) \<and> length g = n"
proof (cases "p < slen s")
  case True
  have "blit (buf s) (p + n) (chunk (buf s) p (slen s - p)) =
      take p (content s) @ chunk (buf s) p n @ drop p (content s) @ drop (slen s + n) (buf s)"
    using True by (simp add: blit_def chunk_def content_def take_add drop_take min_def add.commute [of n])
  moreover have "length (chunk (buf s) p n) = n" using assms by simp
  ultimately show ?thesis using True assms
    by (intro exI [of _ "chunk (buf s) p n"]) (simp add: open_gap_def move_def)
next
  case False
  then have p: "p = slen s" using assms(1) by simp
  have "buf s = take p (buf s) @ take n (drop p (buf s)) @ drop (p + n) (buf s)"
    by (metis append_take_drop_id add.commute drop_drop)
  then have "s = s\<lparr>buf := take p (content s) @ chunk (buf s) p n @ drop p (content s) @ drop (slen s + n) (buf s)\<rparr>"
    using p by (cases s) (simp add: content_def chunk_def)
  then show ?thesis using False assms p
    by (intro exI [of _ "chunk (buf s) p n"]) (simp add: open_gap_def)
qed

lemma terminate_ok:
  assumes "buf s = c @ r" "length c = slen s" "r \<noteq> []"
  shows "\<exists>s'. terminate s = Inr s' \<and> dstr_ok s' \<and> content s' = c"
  using assms by (cases r) (auto simp: terminate_def poke_def dstr_ok_def content_def blit_def nth_append)

text \<open>The last steps of every insertion: the value is in the gap, the length is counted, NUL is written.\<close>

lemma finish_ok:
  assumes "dstr_ok s" "p \<le> slen s" "length v = n" "slen s + n < length (buf s)"
  shows "\<exists>s'. terminate (s\<lparr>buf := take p (content s) @ v @ drop p (content s) @ drop (slen s + n) (buf s), slen := slen s + n\<rparr>) = Inr s'
    \<and> dstr_ok s' \<and> content s' = take p (content s) @ v @ drop p (content s)"
  by (rule terminate_ok [of _ _ "drop (slen s + n) (buf s)"]) (use assms in \<open>auto simp: length_content\<close>)

lemma put_gap: "length g = length v \<Longrightarrow> p = length a \<Longrightarrow> put p v (s\<lparr>buf := a @ g @ b\<rparr>) = Inr (s\<lparr>buf := a @ v @ b\<rparr>)"
  by (simp add: put_def blit_def)

definition ins_text :: "int \<Rightarrow> byte list \<Rightarrow> byte list \<Rightarrow> byte list" where
  "ins_text pos v c =
     (if 0 \<le> pos \<and> length c < nat pos then c
      else let p = (if pos < 0 then length c else nat pos) in take p c @ v @ drop p c)"

lemma gap_put:
  assumes ok: "dstr_ok s" and room: "room E (slen s + length v)" and p: "p \<le> slen s"
  shows "\<exists>s2 s3 s4. open_gap p (length v) (dap_string_maybe_expand E (length v) s) = Inr s2 \<and> put p v s2 = Inr s3 \<and>
    slen s3 = slen s \<and> terminate (s3\<lparr>slen := slen s + length v\<rparr>) = Inr s4 \<and> dstr_ok s4 \<and>
    content s4 = take p (content s) @ v @ drop p (content s)"
proof -
  obtain r where e: "dap_string_maybe_expand E (length v) s = s\<lparr>buf := buf s @ r\<rparr>" "slen s + length v < length (buf s @ r)"
    using room by (rule expand_ok)
  let ?s = "s\<lparr>buf := buf s @ r\<rparr>"
  have c: "content ?s = content s" and ok': "dstr_ok ?s" using ok by (auto simp: content_def dstr_ok_def nth_append)
  from open_gap_ok [of p ?s "length v"] p e(2) obtain g where g: "length g = length v"
    "open_gap p (length v) ?s = Inr (?s\<lparr>buf := take p (content s) @ g @ drop p (content s) @ drop (slen s + length v) (buf s @ r)\<rparr>)"
    unfolding c by auto
  have "put p v (?s\<lparr>buf := take p (content s) @ g @ drop p (content s) @ drop (slen s + length v) (buf s @ r)\<rparr>) =
      Inr (?s\<lparr>buf := take p (content s) @ v @ drop p (content s) @ drop (slen s + length v) (buf s @ r)\<rparr>)"
    using g(1) p length_content [OF ok] by (intro put_gap) auto
  moreover have "\<exists>s'. terminate (?s\<lparr>buf := take p (content ?s) @ v @ drop p (content ?s) @ drop (slen ?s + length v) (buf ?s),
      slen := slen ?s + length v\<rparr>) = Inr s' \<and> dstr_ok s' \<and> content s' = take p (content ?s) @ v @ drop p (content ?s)"
    by (rule finish_ok [OF ok']) (use p e(2) in auto)
  ultimately show ?thesis using g(2) unfolding c e(1) by auto
qed

lemma strlen_mem_text: "cstr_ok v \<Longrightarrow> strlen_mem (v @ 0 # w) = Inr (length v)"
proof -
  have "0 \<notin> set v \<Longrightarrow> takeWhile (\<lambda>b. b \<noteq> 0) (v @ 0 # w) = v" by (induction v) auto
  then show "cstr_ok v \<Longrightarrow> strlen_mem (v @ 0 # w) = Inr (length v)" by (simp add: strlen_mem_def cstr_ok_def)
qed

lemma insert_ext_ok:
  assumes ok: "dstr_ok s" and room: "room E (slen s + length v)" and v: "v \<noteq> []"
    and n: "len = int (length v) \<or> len < 0 \<and> cstr_ok v \<and> (\<exists>r. w = 0 # r)"
  shows "\<exists>s'. dap_string_insert_len E pos (Ext (v @ w)) len s = Inr s' \<and> dstr_ok s' \<and> content s' = ins_text pos v (content s)"
proof (cases "0 \<le> pos \<and> slen s < nat pos")
  case True
  have "(if len < 0 then strlen_ptr s (Ext (v @ w)) else Inr (nat len)) = Inr (length v)"
    using n by (auto simp: strlen_ptr_def strlen_mem_text)
  then show ?thesis using True ok n v length_content [OF ok] by (auto simp: dap_string_insert_len_def ins_text_def)
next
  case False
  define p where "p = (if pos < 0 then slen s else nat pos)"
  have p: "p \<le> slen s" using False by (auto simp: p_def)
  have i: "ins_text pos v (content s) = take p (content s) @ v @ drop p (content s)"
    using False length_content [OF ok] by (auto simp: ins_text_def p_def Let_def)
  have l: "(if len < 0 then strlen_ptr s (Ext (v @ w)) else Inr (nat len)) = Inr (length v)"
    using n by (auto simp: strlen_ptr_def strlen_mem_text)
  have "len \<noteq> 0" using n v by auto
  moreover obtain s2 s3 s4 where "open_gap p (length v) (dap_string_maybe_expand E (length v) s) = Inr s2"
    "put p v s2 = Inr s3" "slen s3 = slen s" "terminate (s3\<lparr>slen := slen s + length v\<rparr>) = Inr s4" "dstr_ok s4"
    "content s4 = take p (content s) @ v @ drop p (content s)" using gap_put [OF ok room p] by blast
  ultimately show ?thesis using False i l
    by (auto simp: dap_string_insert_len_def p_def [symmetric] Let_def chunk_def)
qed

lemma insert_nothing:
  "dstr_ok s \<Longrightarrow> room E (slen s) \<Longrightarrow> \<exists>s'. dap_string_insert_len E pos (Ext (0 # w)) (-1) s = Inr s' \<and> dstr_ok s' \<and> content s' = content s"
proof -
  assume ok: "dstr_ok s" and room: "room E (slen s)"
  show ?thesis
  proof (cases "0 \<le> pos \<and> slen s < nat pos")
    case True
    then show ?thesis using ok by (simp add: dap_string_insert_len_def strlen_ptr_def strlen_mem_def)
  next
    case False
    define p where "p = (if pos < 0 then slen s else nat pos)"
    have p: "p \<le> slen s" using False by (auto simp: p_def)
    obtain s2 s3 s4 where "open_gap p 0 (dap_string_maybe_expand E 0 s) = Inr s2"
      "put p [] s2 = Inr s3" "slen s3 = slen s" "terminate (s3\<lparr>slen := slen s\<rparr>) = Inr s4" "dstr_ok s4"
      "content s4 = content s" using gap_put [OF ok _ p, of E "[]"] room by auto
    moreover have "s3\<lparr>slen := slen s\<rparr> = s3" using \<open>slen s3 = slen s\<close> by (cases s3) simp
    ultimately show ?thesis using False
      by (auto simp: dap_string_insert_len_def p_def [symmetric] Let_def strlen_ptr_def strlen_mem_def)
  qed
qed

lemma insert_text_ok:
  assumes "dstr_ok s" "room E (slen s + length v)" "cstr_ok v"
  shows "\<exists>s'. dap_string_insert_len E pos (Ext (v @ [0])) (-1) s = Inr s' \<and> dstr_ok s' \<and> content s' = ins_text pos v (content s)"
proof (cases "v = []")
  case True
  then show ?thesis using insert_nothing [of s E pos "[]"] assms by (simp add: ins_text_def)
next
  case False
  then show ?thesis using insert_ext_ok [of s E v "-1" "[0]" pos] assms by simp
qed

lemma poke_put: "poke i b = put i [b]"
  by (simp add: poke_def put_def fun_eq_iff)

lemma insert_c_ok:
  assumes ok: "dstr_ok s" and room: "room E (slen s + 1)"
  shows "\<exists>s'. dap_string_insert_c E pos c s = Inr s' \<and> dstr_ok s' \<and> content s' = ins_text pos [c] (content s)"
proof -
  obtain r where e: "dap_string_maybe_expand E 1 s = s\<lparr>buf := buf s @ r\<rparr>" using room by (rule expand_ok)
  show ?thesis
  proof (cases "0 \<le> pos \<and> slen s < nat pos")
    case True
    then show ?thesis using ok e length_content [OF ok]
      by (auto simp: dap_string_insert_c_def ins_text_def dstr_ok_def content_def nth_append)
  next
    case False
    define p where "p = (if pos < 0 then slen s else nat pos)"
    have p: "p \<le> slen s" using False by (auto simp: p_def)
    have i: "ins_text pos [c] (content s) = take p (content s) @ [c] @ drop p (content s)"
      using False length_content [OF ok] by (auto simp: ins_text_def p_def Let_def)
    obtain s2 s3 s4 where "open_gap p 1 (dap_string_maybe_expand E 1 s) = Inr s2"
      "put p [c] s2 = Inr s3" "slen s3 = slen s" "terminate (s3\<lparr>slen := slen s + 1\<rparr>) = Inr s4" "dstr_ok s4"
      "content s4 = take p (content s) @ [c] @ drop p (content s)" using gap_put [OF ok _ p, of E "[c]"] room by auto
    then show ?thesis using False i e
      by (cases "pos < 0") (simp_all add: dap_string_insert_c_def p_def Let_def poke_put)
  qed
qed

lemma insert_unichar_ok:
  assumes ok: "dstr_ok s" and room: "room E (slen s + length (unichar_bytes wc))"
  shows "\<exists>s'. dap_string_insert_unichar E pos wc s = Inr s' \<and> dstr_ok s' \<and> content s' = ins_text pos (unichar_bytes wc) (content s)"
proof -
  let ?v = "unichar_bytes wc"
  obtain r where e: "dap_string_maybe_expand E (length ?v) s = s\<lparr>buf := buf s @ r\<rparr>" using room by (rule expand_ok)
  show ?thesis
  proof (cases "0 \<le> pos \<and> slen s < nat pos")
    case True
    then show ?thesis using ok e length_content [OF ok]
      by (auto simp: dap_string_insert_unichar_def ins_text_def dstr_ok_def content_def nth_append length_unichar_bytes)
  next
    case False
    define p where "p = (if pos < 0 then slen s else nat pos)"
    have p: "p \<le> slen s" using False by (auto simp: p_def)
    have i: "ins_text pos ?v (content s) = take p (content s) @ ?v @ drop p (content s)"
      using False length_content [OF ok] by (auto simp: ins_text_def p_def Let_def)
    obtain s2 s3 s4 where "open_gap p (length ?v) (dap_string_maybe_expand E (length ?v) s) = Inr s2"
      "put p ?v s2 = Inr s3" "slen s3 = slen s" "terminate (s3\<lparr>slen := slen s + length ?v\<rparr>) = Inr s4" "dstr_ok s4"
      "content s4 = take p (content s) @ ?v @ drop p (content s)" using gap_put [OF ok room p] by blast
    then show ?thesis using False i e
      by (cases "pos < 0") (simp_all add: dap_string_insert_unichar_def p_def Let_def length_unichar_bytes)
  qed
qed

section \<open>Inserting a part of the string into itself\<close>

lemma chunk_nth_append: "i + n \<le> length a \<Longrightarrow> chunk (a @ b) i n = chunk a i n"
  by (simp add: chunk_def)

lemma chunk_skip: "length a \<le> i \<Longrightarrow> chunk (a @ b) i n = chunk b (i - length a) n"
  by (simp add: chunk_def)

lemma copy_own_ok:
  assumes b: "buf s = take p c @ g @ drop p c @ r" and g: "length g = n" and p: "p \<le> length c"
    and o: "offset + n \<le> length c"
  shows "copy_own p offset n s = Inr (s\<lparr>buf := take p c @ chunk c offset n @ drop p c @ r\<rparr>)"
proof -
  have Lp: "length (take p c) = p" using p by simp
  consider "n = 0" | "0 < n" "offset + n \<le> p" | "offset < p" "p < offset + n" | "p \<le> offset" by linarith
  then show ?thesis
  proof cases
    case 1
    have "s\<lparr>buf := take p c @ drop p c @ r\<rparr> = s" using b g 1 by (cases s) simp
    then show ?thesis using 1 g p o by (auto simp: copy_own_def move_def Let_def chunkE_def blitE_def b)
  next
    case 2
    have v: "chunk (buf s) offset n = chunk c offset n"
      using 2 p o by (simp add: b chunk_nth_append) (simp add: chunk_def take_drop min_def)
    have "blit (buf s) p (chunk c offset n) = take p c @ chunk c offset n @ drop p c @ r"
      using Lp g o by (simp add: b blit_def)
    moreover have "offset + n \<le> length (buf s)" "p + n \<le> length (buf s)" using 2 p o g by (auto simp: b)
    ultimately have "move p offset n s = Inr (s\<lparr>buf := take p c @ chunk c offset n @ drop p c @ r\<rparr>)"
      using v p o by (simp add: move_def chunkE_def blitE_def)
    moreover have "min n (p - offset) = n" using 2 by simp
    ultimately show ?thesis using 2 by (simp add: copy_own_def Let_def)
  next
    case 3
    define k where "k = p - offset"
    have k: "k < n" "offset + k = p" using 3 by (auto simp: k_def)
    have v1: "chunk (buf s) offset k = chunk c offset k"
      using k p o by (simp add: b chunk_nth_append) (simp add: chunk_def take_drop min_def)
    obtain g1 g2 where gg: "g = g1 @ g2" "length g1 = k" "length g2 = n - k"
      using g k(1) by (metis append_take_drop_id length_drop length_take less_imp_le min.absorb2)
    let ?b1 = "take p c @ chunk c offset k @ g2 @ drop p c @ r"
    have b1: "blit (buf s) p (chunk c offset k) = ?b1"
      using Lp gg k o by (simp add: b blit_def)
    have lck: "length (chunk c offset k) = k" using k o by simp
    have v2: "chunk ?b1 (offset + k + n) (n - k) = chunk c p (n - k)"
    proof -
      have "length (take p c @ chunk c offset k @ g2) = p + n" using Lp lck gg k by simp
      then have "chunk ((take p c @ chunk c offset k @ g2) @ drop p c @ r) (p + n) (n - k) = chunk (drop p c @ r) 0 (n - k)"
        by (subst chunk_skip) auto
      also have "\<dots> = chunk c p (n - k)" using k o by (simp add: chunk_def)
      finally show ?thesis using k by simp
    qed
    have b2: "blit ?b1 (p + k) (chunk c p (n - k)) = take p c @ chunk c offset n @ drop p c @ r"
    proof -
      have l1: "length (take p c @ chunk c offset k) = p + k" using Lp lck by simp
      have l2: "length (chunk c p (n - k)) = n - k" using k o by simp
      have "blit ((take p c @ chunk c offset k) @ g2 @ drop p c @ r) (p + k) (chunk c p (n - k)) =
        (take p c @ chunk c offset k) @ chunk c p (n - k) @ drop (n - k) (g2 @ drop p c @ r)"
        using blit_prefix [OF l1] l2 by simp
      moreover have "chunk c offset k @ chunk c p (n - k) = chunk c offset n"
        using chunk_append [of c offset k "n - k"] k by simp
      ultimately show ?thesis using gg(3) by simp
    qed
    have bounds: "offset + k \<le> length (buf s)" "p + k \<le> length (buf s)"
      "offset + k + n + (n - k) \<le> length ?b1" "p + k + (n - k) \<le> length ?b1"
      using k o p Lp lck gg by (auto simp: b)
    have m1: "move p offset k s = Inr (s\<lparr>buf := ?b1\<rparr>)"
      using bounds(1,2) lck b1 v1 by (simp add: move_def chunkE_def blitE_def)
    have m2: "move (p + k) (offset + k + n) (n - k) (s\<lparr>buf := ?b1\<rparr>) = Inr (s\<lparr>buf := take p c @ chunk c offset n @ drop p c @ r\<rparr>)"
      using bounds(3,4) v2 b2 k o by (simp add: move_def chunkE_def blitE_def del: append_assoc)
    have pre: "min n (p - offset) = k" using k 3 by (simp add: k_def)
    show ?thesis using 3 k m1 m2 by (simp add: copy_own_def Let_def pre)
  next
    case 4
    have v: "chunk (buf s) (offset + n) n = chunk c offset n"
    proof -
      have "chunk ((take p c @ g) @ drop p c @ r) (offset + n) n = chunk (drop p c @ r) (offset - p) n"
        using 4 Lp g by (subst chunk_skip) auto
      also have "\<dots> = chunk c offset n" using 4 o by (simp add: chunk_def)
      finally show ?thesis by (simp add: b)
    qed
    have "blit (buf s) p (chunk c offset n) = take p c @ chunk c offset n @ drop p c @ r"
      using Lp g o by (simp add: b blit_def)
    moreover have "offset + n + n \<le> length (buf s)" "p + n \<le> length (buf s)" using 4 p o g by (auto simp: b)
    ultimately have "move p (offset + n) n s = Inr (s\<lparr>buf := take p c @ chunk c offset n @ drop p c @ r\<rparr>)"
      using v p o by (simp add: move_def chunkE_def blitE_def)
    moreover have "s\<lparr>buf := take p c @ drop p c @ r\<rparr> = s" if "n = 0" using b g that by (cases s) simp
    ultimately show ?thesis using 4 by (cases "n = 0") (simp_all add: copy_own_def Let_def)
  qed
qed

lemma insert_own_ok:
  assumes ok: "dstr_ok s" and n: "0 < n" "offset + n \<le> slen s" and room: "room E (slen s + n)"
  shows "\<exists>s'. dap_string_insert_len E pos (Own offset) (int n) s = Inr s' \<and> dstr_ok s' \<and>
    content s' = ins_text pos (chunk (content s) offset n) (content s)"
proof (cases "0 \<le> pos \<and> slen s < nat pos")
  case True
  then show ?thesis using ok n length_content [OF ok] by (auto simp: dap_string_insert_len_def ins_text_def)
next
  case False
  let ?v = "chunk (content s) offset n"
  define p where "p = (if pos < 0 then slen s else nat pos)"
  have p: "p \<le> slen s" using False by (auto simp: p_def)
  have i: "ins_text pos ?v (content s) = take p (content s) @ ?v @ drop p (content s)"
    using False length_content [OF ok] by (auto simp: ins_text_def p_def Let_def)
  obtain r where e: "dap_string_maybe_expand E n s = s\<lparr>buf := buf s @ r\<rparr>" "slen s + n < length (buf s @ r)"
    using room by (rule expand_ok)
  let ?s = "s\<lparr>buf := buf s @ r\<rparr>"
  have c: "content ?s = content s" and ok': "dstr_ok ?s" using ok by (auto simp: content_def dstr_ok_def nth_append)
  from open_gap_ok [of p ?s n] p e(2) obtain g where g: "length g = n"
    "open_gap p n ?s = Inr (?s\<lparr>buf := take p (content s) @ g @ drop p (content s) @ drop (slen s + n) (buf s @ r)\<rparr>)"
    unfolding c by auto
  have lv: "length ?v = n" using n length_content [OF ok] by simp
  have cp: "copy_own p offset n (?s\<lparr>buf := take p (content s) @ g @ drop p (content s) @ drop (slen s + n) (buf s @ r)\<rparr>) =
      Inr (?s\<lparr>buf := take p (content s) @ ?v @ drop p (content s) @ drop (slen s + n) (buf s @ r)\<rparr>)"
    using copy_own_ok [of "?s\<lparr>buf := take p (content s) @ g @ drop p (content s) @ drop (slen s + n) (buf s @ r)\<rparr>"
      p "content s" g "drop (slen s + n) (buf s @ r)" n offset] g(1) p n length_content [OF ok] by simp
  have t: "\<exists>s'. terminate (?s\<lparr>buf := take p (content ?s) @ ?v @ drop p (content ?s) @ drop (slen ?s + n) (buf ?s),
      slen := slen ?s + n\<rparr>) = Inr s' \<and> dstr_ok s' \<and> content s' = take p (content ?s) @ ?v @ drop p (content ?s)"
    by (rule finish_ok [OF ok']) (use p e(2) lv in auto)
  show ?thesis
    using n False t g(2) cp unfolding i unfolding c e(1) p_def
    by (cases "pos < 0") (auto simp: dap_string_insert_len_def Let_def e(1))
qed

section \<open>Other edits\<close>

definition erase_text :: "int \<Rightarrow> int \<Rightarrow> byte list \<Rightarrow> byte list" where
  "erase_text pos len c =
     (if pos < 0 \<or> length c < nat pos then c
      else if len < 0 then take (nat pos) c
      else if length c < nat (pos + len) then c
      else take (nat pos) c @ drop (nat (pos + len)) c)"

definition overwrite_text :: "nat \<Rightarrow> byte list \<Rightarrow> byte list \<Rightarrow> byte list" where
  "overwrite_text pos v c = (if length c < pos then c else take pos c @ v @ drop (pos + length v) c)"

lemma truncate_ok:
  assumes ok: "dstr_ok s"
  shows "\<exists>s'. dap_string_truncate n s = Inr s' \<and> dstr_ok s' \<and> content s' = take n (content s) \<and> slen s' = min n (slen s)"
proof -
  have "\<exists>s'. terminate (s\<lparr>slen := min n (slen s)\<rparr>) = Inr s' \<and> dstr_ok s' \<and> content s' = take n (content s)"
    by (rule terminate_ok [of _ _ "drop (min n (slen s)) (buf s)"])
      (use ok in \<open>auto simp: dstr_ok_def content_def min_def take_drop\<close>)
  then show ?thesis using length_content [of s] ok length_content by (fastforce simp: dap_string_truncate_def)
qed

lemma erase_ok:
  assumes ok: "dstr_ok s" and sum: "pos + len < 2 ^ 63"
  shows "\<exists>s'. dap_string_erase pos len s = Inr s' \<and> dstr_ok s' \<and> content s' = erase_text pos len (content s)"
proof -
  note L = length_content [OF ok]
  consider "pos < 0 \<or> slen s < nat pos" | "0 \<le> pos" "nat pos \<le> slen s" "len < 0"
    | "0 \<le> pos" "nat pos \<le> slen s" "0 \<le> len" "slen s < nat (pos + len)"
    | "0 \<le> pos" "nat pos \<le> slen s" "0 \<le> len" "nat (pos + len) \<le> slen s" by linarith
  then show ?thesis
  proof cases
    case 1 then show ?thesis using ok L by (auto simp: dap_string_erase_def erase_text_def)
  next
    case 2
    have "\<exists>s'. terminate (s\<lparr>slen := nat pos\<rparr>) = Inr s' \<and> dstr_ok s' \<and> content s' = take (nat pos) (content s)"
      by (rule terminate_ok [of _ _ "drop (nat pos) (buf s)"]) (use ok 2 in \<open>auto simp: dstr_ok_def content_def min_def\<close>)
    then show ?thesis using 2 L by (simp add: dap_string_erase_def erase_text_def)
  next
    case 3 then show ?thesis using ok L sum by (auto simp: dap_string_erase_def erase_text_def)
  next
    case 4
    define p n where "p = nat pos" and "n = nat len"
    have pn: "nat (pos + len) = p + n" "p + n \<le> slen s" using 4 by (auto simp: p_def n_def nat_add_distrib)
    have e: "erase_text pos len (content s) = take p (content s) @ drop (p + n) (content s)"
      using 4 L pn by (simp add: erase_text_def p_def)
    have lb: "slen s < length (buf s)" using ok by (simp add: dstr_ok_def)
    have mv: "\<exists>r. (if p + n < slen s then move p (p + n) (slen s - (p + n)) s else Inr s) =
        Inr (s\<lparr>buf := (take p (content s) @ drop (p + n) (content s)) @ r\<rparr>) \<and> length r = length (buf s) - (slen s - n)"
    proof (cases "p + n < slen s")
      case True
      have "blit (buf s) p (chunk (buf s) (p + n) (slen s - (p + n))) = take p (buf s) @ drop (p + n) (content s) @ drop (slen s - n) (buf s)"
        using True lb by (simp add: blit_def chunk_def content_def drop_take)
      moreover have "take p (buf s) = take p (content s)" using pn by (simp add: content_def min_def)
      ultimately show ?thesis using True lb
        by (intro exI [of _ "drop (slen s - n) (buf s)"]) (simp add: move_def chunkE_def blitE_def)
    next
      case False
      then have "p + n = slen s" using pn by simp
      then show ?thesis using lb False
        by (intro exI [of _ "drop p (buf s)"]) (cases s, simp add: content_def min_def)
    qed
    then obtain r where r: "(if p + n < slen s then move p (p + n) (slen s - (p + n)) s else Inr s) =
        Inr (s\<lparr>buf := (take p (content s) @ drop (p + n) (content s)) @ r\<rparr>)" "length r = length (buf s) - (slen s - n)" by blast
    have "\<exists>s'. terminate (s\<lparr>buf := (take p (content s) @ drop (p + n) (content s)) @ r, slen := slen s - n\<rparr>) = Inr s' \<and>
        dstr_ok s' \<and> content s' = take p (content s) @ drop (p + n) (content s)"
      by (rule terminate_ok [of _ _ r]) (use r(2) lb pn L in auto)
    moreover have "dap_string_erase pos len s = bindE (if p + n < slen s then move p (p + n) (slen s - (p + n)) s else Inr s)
        (\<lambda>s1. terminate (s1\<lparr>slen := slen s1 - n\<rparr>))"
      using 4 pn(2) sum unfolding dap_string_erase_def pn(1) p_def [symmetric] n_def [symmetric] by (auto simp: p_def)
    ultimately show ?thesis unfolding e r(1) by simp
  qed
qed

lemma overwrite_len_ok:
  assumes ok: "dstr_ok s" and v: "v \<noteq> []" and room: "room E (slen s + length v)"
  shows "\<exists>s'. dap_string_overwrite_len E pos (Ext (v @ w)) (int (length v)) s = Inr s' \<and> dstr_ok s' \<and>
    content s' = overwrite_text pos v (content s)"
proof (cases "slen s < pos")
  case True then show ?thesis using ok length_content [OF ok] by (simp add: dap_string_overwrite_len_def overwrite_text_def)
next
  case False
  note L = length_content [OF ok]
  have o: "overwrite_text pos v (content s) = take pos (content s) @ v @ drop (pos + length v) (content s)"
    using False L by (simp add: overwrite_text_def)
  have lb: "slen s < length (buf s)" using ok by (simp add: dstr_ok_def)
  have tp: "take pos (buf s) = take pos (content s)" using False by (simp add: content_def min_def)
  show ?thesis
  proof (cases "slen s < pos + length v")
    case True
    have "room E (slen s + (pos + length v - slen s))" using room False True by (auto simp: room_def)
    then obtain r where r: "dap_string_maybe_expand E (pos + length v - slen s) s = s\<lparr>buf := buf s @ r\<rparr>"
      "slen s + (pos + length v - slen s) < length (buf s @ r)" by (rule expand_ok)
    define B where "B = buf s @ r"
    have e: "dap_string_maybe_expand E (pos + length v - slen s) s = s\<lparr>buf := B\<rparr>" "pos + length v < length B"
      using r True by (simp_all add: B_def)
    have "take pos B = take pos (content s)" using False lb tp by (simp add: B_def)
    then have "blit (blit B pos v) (pos + length v) [0] = take pos (content s) @ v @ 0 # drop (pos + length v + 1) B"
      using e(2) by (simp add: blit_adjacent) (simp add: blit_def)
    then have "dap_string_overwrite_len E pos (Ext (v @ w)) (int (length v)) s =
        Inr (s\<lparr>buf := take pos (content s) @ v @ 0 # drop (pos + length v + 1) B, slen := pos + length v\<rparr>)"
      using False True e v by (simp add: dap_string_overwrite_len_def put_def poke_def chunk_def blitE_def)
    then show ?thesis using False True L unfolding o by (simp add: dstr_ok_def content_def nth_append)
  next
    case False2: False
    have "blit (buf s) pos v = take pos (content s) @ v @ drop (pos + length v) (buf s)"
      using tp by (simp add: blit_def)
    then show ?thesis using False False2 lb ok v unfolding o
      by (auto simp: dap_string_overwrite_len_def put_def poke_def chunk_def blitE_def dstr_ok_def content_def nth_append drop_take)
  qed
qed

lemma map_text_ok:
  assumes ok: "dstr_ok s"
  shows "\<exists>s'. bindE (chunkE (buf s) 0 (slen s)) (\<lambda>t. put 0 (map f t) s) = Inr s' \<and> dstr_ok s' \<and> content s' = map f (content s)"
  using ok by (auto simp: put_def blitE_def blit_def chunk_def dstr_ok_def content_def nth_append)

lemma append_vprintf_ok:
  assumes ok: "dstr_ok s" and room: "room E (slen s + length t)"
  shows "\<exists>s'. dap_string_append_vprintf E (Some t) s = Inr s' \<and> dstr_ok s' \<and> content s' = content s @ t"
proof -
  obtain r where r: "dap_string_maybe_expand E (length t) s = s\<lparr>buf := buf s @ r\<rparr>" "slen s + length t < length (buf s @ r)"
    using room by (rule expand_ok)
  have lb: "slen s < length (buf s)" using ok by (simp add: dstr_ok_def)
  define B where "B = buf s @ r"
  have e: "dap_string_maybe_expand E (length t) s = s\<lparr>buf := B\<rparr>" "slen s + length t < length B" "take (slen s) B = content s"
    using r lb by (simp_all add: B_def content_def)
  then have b: "blit B (slen s) (t @ [0]) = content s @ t @ 0 # drop (slen s + length t + 1) B" by (simp add: blit_def)
  have "B \<noteq> []" using e(2) by auto
  then have "dap_string_append_vprintf E (Some t) s = Inr (s\<lparr>buf := content s @ t @ 0 # drop (slen s + length t + 1) B, slen := slen s + length t\<rparr>)"
    using e b by (simp add: dap_string_append_vprintf_def put_def blitE_def Let_def)
  then show ?thesis using length_content [OF ok] by (simp add: dstr_ok_def content_def nth_append)
qed

section \<open>UTF-8\<close>

text \<open>
  The UTF-8 form of a number by the ranges and bit fields of the standard (RFC 3629, and the five and
  six byte forms of the original definition): a lead byte with the most significant part, then
  bytes 10xxxxxx with six bits each.
\<close>

definition utf8_of :: "nat \<Rightarrow> byte list" where
  "utf8_of n = map of_nat
     (if n < 0x80 then [n]
      else if n < 0x800 then [0xC0 + n div 64, 0x80 + n mod 64]
      else if n < 0x10000 then [0xE0 + n div 4096, 0x80 + n div 64 mod 64, 0x80 + n mod 64]
      else if n < 0x200000 then [0xF0 + n div 262144, 0x80 + n div 4096 mod 64, 0x80 + n div 64 mod 64, 0x80 + n mod 64]
      else if n < 0x4000000 then
        [0xF8 + n div 16777216, 0x80 + n div 262144 mod 64, 0x80 + n div 4096 mod 64, 0x80 + n div 64 mod 64, 0x80 + n mod 64]
      else
        [0xFC + n div 1073741824, 0x80 + n div 16777216 mod 64, 0x80 + n div 262144 mod 64, 0x80 + n div 4096 mod 64,
         0x80 + n div 64 mod 64, 0x80 + n mod 64])"

lemma unat_cont_byte: "unat (ucast ((wc AND 0x3f) OR 0x80 :: u32) :: byte) = 128 + unat wc mod 64"
proof -
  have a: "unat (wc AND 0x3f) = unat wc mod 64"
    using take_bit_eq_mask [of 6 "unat wc"] by (simp add: unsigned_and_eq mask_eq_exp_minus_1 take_bit_eq_mod)
  have "unat ((wc AND 0x3f) OR 0x80) = unat wc mod 64 + 128"
    unfolding unsigned_or_eq a using or_disjoint_nat [of "unat wc mod 64" 6 128] by (simp add: take_bit_eq_mod)
  then show ?thesis by (simp add: unsigned_ucast_eq take_bit_eq_mod)
qed

lemma unat_lead_byte:
  fixes r c :: u32
  assumes "unat r < 2 ^ k" "take_bit k (unat c) = 0" "unat r + unat c < 256"
  shows "unat (ucast (r OR c) :: byte) = unat r + unat c"
  using assms or_disjoint_nat [of "unat r" k "unat c"] by (simp add: unsigned_ucast_eq take_bit_eq_mod unsigned_or_eq)

lemma unat_drop: "unat (drop_bit k (wc :: u32)) = unat wc div 2 ^ k"
  unfolding unat_drop_bit_eq by (rule drop_bit_eq_div)

lemma unichar_tail_steps:
  "unichar_tail (numeral k) wc acc = unichar_tail (numeral k - 1) (drop_bit 6 wc) (ucast ((wc AND 0x3f) OR 0x80) # acc)"
  "unichar_tail 1 wc acc = unichar_tail 0 (drop_bit 6 wc) (ucast ((wc AND 0x3f) OR 0x80) # acc)"
  by (simp_all add: numeral_eq_Suc)

lemma byte_of_unat: "unat b = k \<Longrightarrow> b = of_nat k" for b :: byte
  by auto

lemma cont_byte: "ucast ((wc AND 0x3f) OR 0x80 :: u32) = (of_nat (128 + unat wc mod 64) :: byte)"
  by (rule byte_of_unat) (rule unat_cont_byte)

lemma lead_byte:
  fixes r c :: u32
  assumes "unat r < 2 ^ k" "take_bit k (unat c) = 0" "unat r + unat c < 256"
  shows "ucast (r OR c) = (of_nat (unat c + unat r) :: byte)"
  by (rule byte_of_unat) (use unat_lead_byte [OF assms] in simp)

lemma unichar_utf8: "unichar_bytes wc = utf8_of (unat wc)"
proof -
  define n where "n = unat wc"
  have n: "n < 4294967296" using unsigned_less [of wc] by (simp add: n_def)
  have lt: "wc < 0x80 \<longleftrightarrow> n < 128" "wc < 0x800 \<longleftrightarrow> n < 2048" "wc < 0x10000 \<longleftrightarrow> n < 65536" "wc < 0x200000 \<longleftrightarrow> n < 2097152"
    "wc < 0x4000000 \<longleftrightarrow> n < 67108864" by (simp_all add: word_less_nat_alt n_def)
  note U = unichar_bytes_def unichar_first_def utf8_of_def lt Let_def unichar_tail_steps cont_byte unat_drop n_def [symmetric]
  consider "n < 128" | "128 \<le> n" "n < 2048" | "2048 \<le> n" "n < 65536" | "65536 \<le> n" "n < 2097152"
    | "2097152 \<le> n" "n < 67108864" | "67108864 \<le> n" by linarith
  then show ?thesis
  proof cases
    case 1
    then have "(ucast wc :: byte) = of_nat n" by (simp add: word_unat_eq_iff unsigned_ucast_eq take_bit_eq_mod n_def unat_of_nat)
    then show ?thesis using 1 by (simp add: U)
  next
    case 2
    then have "ucast (drop_bit 6 wc OR 0xc0) = (of_nat (192 + n div 64) :: byte)"
      using lead_byte [of "drop_bit 6 wc" 5 "0xc0"] by (simp add: unat_drop n_def [symmetric] take_bit_eq_mod)
    then show ?thesis using 2 by (simp add: U)
  next
    case 3
    have "n div 4096 < 16" using 3 by linarith
    then have "ucast (drop_bit 12 wc OR 0xe0) = (of_nat (224 + n div 4096) :: byte)"
      using lead_byte [of "drop_bit 12 wc" 4 "0xe0"] by (simp add: unat_drop n_def [symmetric] take_bit_eq_mod)
    then show ?thesis using 3 by (simp add: U)
  next
    case 4
    have "n div 262144 < 8" using 4 by linarith
    then have "ucast (drop_bit 18 wc OR 0xf0) = (of_nat (240 + n div 262144) :: byte)"
      using lead_byte [of "drop_bit 18 wc" 3 "0xf0"] by (simp add: unat_drop n_def [symmetric] take_bit_eq_mod)
    then show ?thesis using 4 by (simp add: U)
  next
    case 5
    have "n div 16777216 < 4" using 5 by linarith
    then have "ucast (drop_bit 24 wc OR 0xf8) = (of_nat (248 + n div 16777216) :: byte)"
      using lead_byte [of "drop_bit 24 wc" 2 "0xf8"] by (simp add: unat_drop n_def [symmetric] take_bit_eq_mod)
    then show ?thesis using 5 by (simp add: U)
  next
    case 6
    have "n div 1073741824 < 4" using n by linarith
    then have "ucast (drop_bit 30 wc OR 0xfc) = (of_nat (252 + n div 1073741824) :: byte)"
      using lead_byte [of "drop_bit 30 wc" 2 "0xfc"] by (simp add: unat_drop n_def [symmetric] take_bit_eq_mod)
    then show ?thesis using 6 by (simp add: U)
  qed
qed

section \<open>Edits as one step function\<close>

datatype str_op =
    Insert int cstr | InsertLen int "byte list" | InsertC int byte | InsertUnichar int u32
  | InsertSelf int nat nat | Overwrite nat "byte list" | Erase int int | Truncate nat | Assign cstr
  | Down | Up | Printf "byte list" | AppendPrintf "byte list"

fun str_step :: "alloc_env \<Rightarrow> str_op \<Rightarrow> dap_string \<Rightarrow> dap_string res" where
  "str_step E (Insert pos v) s = dap_string_insert E pos (Ext (v @ [0])) s"
| "str_step E (InsertLen pos v) s = dap_string_insert_len E pos (Ext v) (int (length v)) s"
| "str_step E (InsertC pos c) s = dap_string_insert_c E pos c s"
| "str_step E (InsertUnichar pos wc) s = dap_string_insert_unichar E pos wc s"
| "str_step E (InsertSelf pos offset n) s = dap_string_insert_len E pos (Own offset) (int n) s"
| "str_step E (Overwrite pos v) s = dap_string_overwrite_len E pos (Ext v) (int (length v)) s"
| "str_step E (Erase pos len) s = dap_string_erase pos len s"
| "str_step E (Truncate len) s = dap_string_truncate len s"
| "str_step E (Assign v) s = dap_string_assign E (Ext (v @ [0])) s"
| "str_step E Down s = dap_string_down s"
| "str_step E Up s = dap_string_up s"
| "str_step E (Printf t) s = dap_string_printf E (Some t) s"
| "str_step E (AppendPrintf t) s = dap_string_append_printf E (Some t) s"

fun str_spec :: "str_op \<Rightarrow> byte list \<Rightarrow> byte list" where
  "str_spec (Insert pos v) c = ins_text pos v c"
| "str_spec (InsertLen pos v) c = ins_text pos v c"
| "str_spec (InsertC pos b) c = ins_text pos [b] c"
| "str_spec (InsertUnichar pos wc) c = ins_text pos (utf8_of (unat wc)) c"
| "str_spec (InsertSelf pos offset n) c = ins_text pos (chunk c offset n) c"
| "str_spec (Overwrite pos v) c = overwrite_text pos v c"
| "str_spec (Erase pos len) c = erase_text pos len c"
| "str_spec (Truncate len) c = take len c"
| "str_spec (Assign v) c = v"
| "str_spec Down c = map tolower c"
| "str_spec Up c = map toupper c"
| "str_spec (Printf t) c = t"
| "str_spec (AppendPrintf t) c = c @ t"

text \<open>An edit may be called when memory is granted, the result stays below 2^62 bytes, a C string
  holds no NUL, a part of the string itself lies within it, and the end of an erased part is a
  number of \<open>ssize_t\<close>.\<close>

fun str_pre :: "alloc_env \<Rightarrow> str_op \<Rightarrow> byte list \<Rightarrow> bool" where
  "str_pre E (Insert pos v) c \<longleftrightarrow> room E (length c + length v) \<and> cstr_ok v"
| "str_pre E (InsertLen pos v) c \<longleftrightarrow> room E (length c + length v)"
| "str_pre E (InsertC pos b) c \<longleftrightarrow> room E (length c + 1)"
| "str_pre E (InsertUnichar pos wc) c \<longleftrightarrow> room E (length c + length (utf8_of (unat wc)))"
| "str_pre E (InsertSelf pos offset n) c \<longleftrightarrow> room E (length c + n) \<and> offset + n \<le> length c"
| "str_pre E (Overwrite pos v) c \<longleftrightarrow> room E (length c + length v)"
| "str_pre E (Assign v) c \<longleftrightarrow> room E (length v) \<and> cstr_ok v"
| "str_pre E (Printf t) c \<longleftrightarrow> room E (length t)"
| "str_pre E (AppendPrintf t) c \<longleftrightarrow> room E (length c + length t)"
| "str_pre E (Erase pos len) c \<longleftrightarrow> pos + len < 2 ^ 63"
| "str_pre E _ c \<longleftrightarrow> True"

definition dstr_rep :: "dap_string \<Rightarrow> byte list \<Rightarrow> bool" where
  "dstr_rep s c \<longleftrightarrow> dstr_ok s \<and> content s = c"

lemma ins_text_Nil: "ins_text pos [] c = c"
  by (simp add: ins_text_def Let_def)

lemma case_fun: "(\<lambda>c. if isupper c then tolower c else c) = tolower" "(\<lambda>c. if islower c then toupper c else c) = toupper"
  by (auto simp: fun_eq_iff tolower_def toupper_def)

lemma str_step_rep:
  assumes r: "dstr_rep s c" and p: "str_pre E x c"
  shows "\<exists>s'. str_step E x s = Inr s' \<and> dstr_rep s' (str_spec x c)"
proof -
  have ok: "dstr_ok s" and c: "content s = c" and L: "slen s = length c"
    using r length_content [of s] by (auto simp: dstr_rep_def)
  show ?thesis
  proof (cases x)
    case (Insert pos v)
    then show ?thesis using insert_text_ok [OF ok, of E v pos] p c L by (auto simp: dstr_rep_def dap_string_insert_def)
  next
    case (InsertLen pos v)
    show ?thesis
    proof (cases "v = []")
      case True then show ?thesis using InsertLen r by (simp add: dap_string_insert_len_def ins_text_Nil)
    next
      case False then show ?thesis using InsertLen insert_ext_ok [OF ok, of E v "int (length v)" "[]" pos] p c L by (auto simp: dstr_rep_def)
    qed
  next
    case (InsertC pos b) then show ?thesis using insert_c_ok [OF ok, of E pos b] p c L by (auto simp: dstr_rep_def)
  next
    case (InsertUnichar pos wc) then show ?thesis using insert_unichar_ok [OF ok, of E wc pos] p c L by (auto simp: dstr_rep_def unichar_utf8)
  next
    case (InsertSelf pos offset n)
    show ?thesis
    proof (cases "n = 0")
      case True then show ?thesis using InsertSelf r by (simp add: dap_string_insert_len_def ins_text_Nil)
    next
      case False then show ?thesis using InsertSelf insert_own_ok [OF ok, of n offset E pos] p c L by (auto simp: dstr_rep_def)
    qed
  next
    case (Overwrite pos v)
    show ?thesis
    proof (cases "v = []")
      case True then show ?thesis using Overwrite r by (simp add: dap_string_overwrite_len_def overwrite_text_def)
    next
      case False then show ?thesis using Overwrite overwrite_len_ok [OF ok, of v E pos "[]"] p c L by (auto simp: dstr_rep_def)
    qed
  next
    case (Erase pos len) then show ?thesis using erase_ok [OF ok, of pos len] p c by (auto simp: dstr_rep_def)
  next
    case (Truncate len) then show ?thesis using truncate_ok [OF ok, of len] c by (auto simp: dstr_rep_def)
  next
    case (Assign v)
    from truncate_ok [OF ok, of 0] obtain s1 where "dap_string_truncate 0 s = Inr s1" "dstr_ok s1" "content s1 = []" "slen s1 = 0" by auto
    then show ?thesis using Assign insert_text_ok [of s1 E v "-1"] p
      by (auto simp: dstr_rep_def dap_string_assign_def dap_string_append_def ins_text_def)
  next
    case Down then show ?thesis using map_text_ok [OF ok, of tolower] c by (auto simp: dstr_rep_def dap_string_down_def case_fun)
  next
    case Up then show ?thesis using map_text_ok [OF ok, of toupper] c by (auto simp: dstr_rep_def dap_string_up_def case_fun)
  next
    case (Printf t)
    from truncate_ok [OF ok, of 0] obtain s1 where "dap_string_truncate 0 s = Inr s1" "dstr_ok s1" "content s1 = []" "slen s1 = 0" by auto
    then show ?thesis using Printf append_vprintf_ok [of s1 E t] p by (auto simp: dstr_rep_def dap_string_printf_def)
  next
    case (AppendPrintf t)
    then show ?thesis using append_vprintf_ok [OF ok, of E t] p c L by (auto simp: dstr_rep_def dap_string_append_printf_def)
  qed
qed

interpretation dstr: simulation dstr_rep "str_step E" str_spec "str_pre E" for E
  by unfold_locales (rule str_step_rep)

lemma sized_new_ok:
  assumes "room E n"
  shows "\<exists>s. dap_string_sized_new E n = Inr s \<and> dstr_rep s []"
proof -
  have "room E (slen str_new + max n 2)" using assms by (simp add: room_def str_new_def)
  then obtain r where r: "dap_string_maybe_expand E (max n 2) str_new = str_new\<lparr>buf := buf str_new @ r\<rparr>"
    "slen str_new + max n 2 < length (buf str_new @ r)" by (rule expand_ok)
  then have "r \<noteq> []" by (auto simp: str_new_def)
  then show ?thesis using r
    by (cases r) (auto simp: dap_string_sized_new_def Let_def str_new_def poke_def blitE_def blit_def dstr_rep_def dstr_ok_def content_def)
qed

text \<open>
  The text that \<open>dap_string_new\<close> takes from a C string: all of it below 2^31 bytes; beyond, as many
  bytes as the length cut to an \<open>int\<close> says, or all of it again when that is negative.
\<close>

definition init_text :: "byte list \<Rightarrow> byte list" where
  "init_text t = (if int_len (length t) < 0 then t else take (nat (int_len (length t))) t)"

lemma int_len_mod: "int_len n = (if n mod 2 ^ 32 < 2 ^ 31 then int (n mod 2 ^ 32) else int (n mod 2 ^ 32) - 2 ^ 32)"
proof -
  define r where "r = int (n mod 2 ^ 32)"
  have r: "0 \<le> r" "r < 2 ^ 32" by (simp_all add: r_def)
  have "(int n + 2 ^ 31) mod 2 ^ 32 = (int n mod 2 ^ 32 + 2 ^ 31) mod 2 ^ 32" by (rule mod_add_left_eq [symmetric])
  also have "int n mod 2 ^ 32 = r" by (simp add: r_def zmod_int)
  also have "(r + 2 ^ 31) mod 2 ^ 32 = (if r < 2 ^ 31 then r + 2 ^ 31 else r - 2 ^ 31)"
  proof (cases "r < 2 ^ 31")
    case False
    have "(r + 2 ^ 31) mod 2 ^ 32 = (r - 2 ^ 31 + 2 ^ 32) mod 2 ^ 32" by (simp add: add.commute)
    also have "\<dots> = (r - 2 ^ 31) mod 2 ^ 32" by (rule mod_add_self2)
    also have "\<dots> = r - 2 ^ 31" using False r by (intro mod_pos_pos_trivial) simp_all
    finally show ?thesis using False by simp
  next
    case True
    then have "(r + 2 ^ 31) mod 2 ^ 32 = r + 2 ^ 31" using r by (intro mod_pos_pos_trivial) simp_all
    then show ?thesis using True by simp
  qed
  finally have m: "(int n + 2 ^ 31) mod 2 ^ 32 = (if r < 2 ^ 31 then r + 2 ^ 31 else r - 2 ^ 31)" .
  have "int_len n = (int n + 2 ^ 31) mod 2 ^ 32 - 2 ^ 31"
    by (simp add: int_len_def signed_of_nat signed_take_bit_eq_take_bit_shift take_bit_eq_mod)
  then have i: "int_len n = (if r < 2 ^ 31 then r else r - 2 ^ 32)" unfolding m by simp
  have "r < 2 ^ 31 \<longleftrightarrow> n mod 2 ^ 32 < 2 ^ 31" unfolding r_def by simp
  then show ?thesis unfolding i by (simp add: r_def)
qed

lemma int_len_le: "int_len n \<le> int n"
proof -
  have "n mod 2 ^ 32 \<le> n" by (rule mod_less_eq_dividend)
  then have "int (n mod 2 ^ 32) \<le> int n" by (rule of_nat_mono)
  then show ?thesis unfolding int_len_mod by (auto split: if_split)
qed

lemma init_text_short: "length t < 2 ^ 31 \<Longrightarrow> init_text t = t"
  by (simp add: init_text_def int_len_mod)

lemma sized_new_slen: "\<exists>s. dap_string_sized_new E n = Inr s \<and> slen s = 0"
  by (auto simp: dap_string_sized_new_def Let_def dap_string_maybe_expand_def str_new_def poke_def blitE_def)

text \<open>Appending to a string without text, whether or not an area was granted for it.\<close>

lemma append_fresh:
  assumes s: "slen s = 0" and room: "room E (length v)" and v: "v \<noteq> []"
    and n: "len = int (length v) \<or> len < 0 \<and> cstr_ok v \<and> (\<exists>r. w = 0 # r)"
  shows "\<exists>s'. dap_string_append_len E (Ext (v @ w)) len s = Inr s' \<and> dstr_rep s' v"
proof -
  have l: "(if len < 0 then strlen_ptr s (Ext (v @ w)) else Inr (nat len)) = Inr (length v)"
    using n by (auto simp: strlen_ptr_def strlen_mem_text)
  have l0: "len \<noteq> 0" using n v by auto
  obtain r where e: "dap_string_maybe_expand E (length v) s = s\<lparr>buf := buf s @ r\<rparr>" "length v < length (buf s @ r)"
    using expand_ok [of E s "length v"] room s by auto
  define B where "B = buf s @ r"
  have B: "dap_string_maybe_expand E (length v) s = s\<lparr>buf := B\<rparr>" "length v < length B" using e by (simp_all add: B_def)
  have p: "put 0 v (s\<lparr>buf := B\<rparr>) = Inr (s\<lparr>buf := v @ drop (length v) B\<rparr>)" using B(2) by (simp add: put_def blitE_def blit_def)
  have "\<exists>s'. terminate (s\<lparr>buf := v @ drop (length v) B, slen := length v\<rparr>) = Inr s' \<and> dstr_ok s' \<and> content s' = v"
    by (rule terminate_ok [of _ _ "drop (length v) B"]) (use B(2) in auto)
  then show ?thesis using s l l0 B(1) p
    by (auto simp: dap_string_append_len_def dap_string_insert_len_def Let_def open_gap_def chunk_def dstr_rep_def)
qed

lemma new_ok:
  assumes "room E (length t + 2)" "cstr_ok t" "int_len (length t) + 2 < 2 ^ 31"
  shows "\<exists>s. dap_string_new E (Ext (t @ [0])) = Inr s \<and> dstr_rep s (init_text t)"
proof (cases "length t = 0")
  case True
  have "room E 2" using assms(1) by (simp add: room_def)
  from sized_new_ok [OF this] show ?thesis using True by (simp add: dap_string_new_def strlen_mem_def init_text_def)
next
  case t: False
  let ?k = "int_len (length t)"
  have d: "dap_string_new E (Ext (t @ [0])) =
      bindE (dap_string_sized_new E (unat (word_of_int (?k + 2) :: u64))) (dap_string_append_len E (Ext (t @ [0])) ?k)"
    using assms(2,3) t by (simp add: dap_string_new_def strlen_mem_text Let_def)
  from sized_new_slen [of E "unat (word_of_int (?k + 2) :: u64)"] obtain s where
    s: "dap_string_sized_new E (unat (word_of_int (?k + 2) :: u64)) = Inr s" "slen s = 0" by blast
  consider "?k < 0" | "?k = 0" | "0 < ?k" by linarith
  then show ?thesis
  proof cases
    case 1
    have "room E (length t)" using assms(1) by (simp add: room_def)
    from append_fresh [OF s(2) this _ disjI2, of ?k "[0]"] show ?thesis using 1 t assms(2) unfolding d s(1) by (simp add: init_text_def)
  next
    case 2
    have "room E 2" using assms(1) by (simp add: room_def)
    from sized_new_ok [OF this] obtain s2 where "dap_string_sized_new E 2 = Inr s2" "dstr_rep s2 []" by blast
    then show ?thesis unfolding d init_text_def 2 by (simp add: dap_string_append_len_def dap_string_insert_len_def)
  next
    case 3
    define v w where "v = take (nat ?k) t" and "w = drop (nat ?k) t @ [0]"
    have vw: "t @ [0] = v @ w" by (simp add: v_def w_def)
    have lv: "int (length v) = ?k" using int_len_le [of "length t"] 3 by (simp add: v_def)
    have "length v \<le> length t" by (simp add: v_def)
    then have "room E (length v)" using assms(1) by (simp add: room_def)
    moreover have "v \<noteq> []" using lv 3 by auto
    ultimately have a: "\<exists>s'. dap_string_append_len E (Ext (v @ w)) ?k s = Inr s' \<and> dstr_rep s' v"
      using lv by (intro append_fresh [OF s(2)]) auto
    have i: "init_text t = v" using 3 by (simp add: init_text_def v_def)
    show ?thesis unfolding d i s(1) using a unfolding vw by simp
  qed
qed

section \<open>Properties\<close>

text \<open>
  C33: a string made from a C string and edited by any sequence of insertions (of other memory, of
  characters, of code points, of a part of the string itself), overwrites, erasures, truncations,
  assignments, case changes and formatted output, memory being granted, never faults, keeps its
  text NUL-terminated inside its area, and holds the text that the same edits make of the byte list.
  The first text is the C string when it has fewer than 2^31 - 2 bytes; of a longer one, unless the
  \<open>int\<close> that holds its length overflows, it is what that \<open>int\<close> makes of it.
\<close>

theorem str_runs_as_text:
  assumes "room E (length t + 2)" "cstr_ok t" "int_len (length t) + 2 < 2 ^ 31" "admissible (str_pre E) str_spec ops (init_text t)"
  shows "\<exists>s0 s. dap_string_new E (Ext (t @ [0])) = Inr s0 \<and> steps (str_step E) ops s0 = Inr s \<and>
    content s = fold str_spec ops (init_text t) \<and> slen s < length (buf s) \<and> buf s ! slen s = 0 \<and>
    (length t < 2 ^ 31 \<longrightarrow> init_text t = t) \<and> (length t = 2 ^ 32 + 5 \<longrightarrow> init_text t = take 5 t)"
proof -
  have "\<exists>s. dap_string_new E (Ext (t @ [0])) = Inr s \<and> dstr_rep s (init_text t)" using assms(1-3) by (rule new_ok)
  then obtain s0 where "dap_string_new E (Ext (t @ [0])) = Inr s0" "dstr_rep s0 (init_text t)" by blast
  moreover have "length t = 2 ^ 32 + 5 \<longrightarrow> init_text t = take 5 t" by (simp add: init_text_def int_len_mod)
  ultimately show ?thesis using dstr.run_rep [OF _ assms(4)] init_text_short by (auto simp: dstr_rep_def dstr_ok_def)
qed

definition all_granted :: alloc_env where
  "all_granted = \<lparr>realloc_ok = \<lambda>_. True, junk = \<lambda>_. 0xAA\<rparr>"

theorem str_runs_as_text_witness:
  "\<exists>s0 s. dap_string_new all_granted (Ext ([0x61, 0x62] @ [0])) = Inr s0 \<and>
    steps (str_step all_granted) [InsertSelf 1 0 2, Erase 0 1, Up] s0 = Inr s \<and> content s = [0x41, 0x42, 0x42]"
proof -
  have a: "admissible (str_pre all_granted) str_spec [InsertSelf 1 0 2, Erase 0 1, Up] [0x61, 0x62]"
    by (simp add: all_granted_def room_def)
  have f: "fold str_spec [InsertSelf 1 0 2, Erase 0 1, Up] [0x61, 0x62] = [0x41, 0x42, 0x42]"
    by (simp add: ins_text_def chunk_def erase_text_def toupper_def islower_def)
  have i: "init_text [0x61, 0x62] = [0x61, 0x62]" by (rule init_text_short) simp
  have "room all_granted (length [0x61 :: byte, 0x62] + 2)" "cstr_ok [0x61, 0x62]" "int_len (length [0x61 :: byte, 0x62]) + 2 < 2 ^ 31"
    by (simp_all add: all_granted_def room_def cstr_ok_def int_len_mod)
  from str_runs_as_text [OF this, unfolded i, OF a] show ?thesis unfolding f by blast
qed

text \<open>
  a growing area gets the least power of two that holds what is asked for, less than twice of
  it, as long as that is at most half of the address space.
\<close>

theorem nearest_power_bounds:
  assumes "0 < n" "n < 2 ^ 63"
  shows "n \<le> nearest_power 1 n \<and> nearest_power 1 n < 2 * n \<and> (\<exists>k. nearest_power 1 n = 2 ^ k)"
  using assms pow_loop_ge [of 1 n] pow_loop_less [of 1 n] pow_loop_pow [of 1 n]
  by (simp add: nearest_power_def MY_MAXSIZE_def)

theorem nearest_power_bounds_witness: "100 \<le> nearest_power 1 100 \<and> nearest_power 1 100 < 200"
  using nearest_power_bounds [of 100] by simp

text \<open>
  the edits do not look at whether the area could grow.  When memory is refused, appending what
  does not fit writes beyond the area; and formatted output, which does check that the text fits,
  forgets its terminating NUL, so a text that fills the area exactly is written one byte too far.
\<close>

theorem str_refused_overflow:
  assumes "dstr_ok s" "\<And>m. \<not> realloc_ok E m"
  shows "(0 < length v \<and> length (buf s) \<le> slen s + length v \<longrightarrow>
      dap_string_append_len E (Ext v) (int (length v)) s = Inl OutOfBounds) \<and>
    (slen s + length t = length (buf s) \<longrightarrow> dap_string_append_printf E (Some t) s = Inl OutOfBounds) \<and>
    (length (buf s) < slen s + length t \<longrightarrow> dap_string_append_printf E (Some t) s = Inr s)"
proof -
  have e: "dap_string_maybe_expand E n s = s" for n using assms(2) by (simp add: dap_string_maybe_expand_def Let_def)
  have b: "buf s \<noteq> []" "slen s < length (buf s)" using assms(1) by (auto simp: dstr_ok_def)
  have "dap_string_append_len E (Ext v) (int (length v)) s = Inl OutOfBounds"
    if "0 < length v" "length (buf s) \<le> slen s + length v"
    using that by (auto simp: dap_string_append_len_def dap_string_insert_len_def Let_def e open_gap_def chunk_def put_def blitE_def
      terminate_def poke_def)
  moreover have "dap_string_append_printf E (Some t) s = Inl OutOfBounds" if "slen s + length t = length (buf s)"
    using that b(1) by (auto simp: dap_string_append_printf_def dap_string_append_vprintf_def Let_def e put_def blitE_def)
  moreover have "dap_string_append_printf E (Some t) s = Inr s" if "length (buf s) < slen s + length t"
    using that b by (auto simp: dap_string_append_printf_def dap_string_append_vprintf_def Let_def e)
  ultimately show ?thesis by blast
qed

definition full_string :: dap_string where
  "full_string = \<lparr>buf = [0x61, 0x62, 0x63, 0], slen = 3\<rparr>"

definition all_refused :: alloc_env where
  "all_refused = \<lparr>realloc_ok = \<lambda>_. False, junk = \<lambda>_. 0\<rparr>"

theorem str_refused_overflow_witness:
  "dap_string_append_len all_refused (Ext [0x64]) 1 full_string = Inl OutOfBounds \<and>
   dap_string_append_printf all_refused (Some [0x64]) full_string = Inl OutOfBounds"
  using str_refused_overflow [of full_string all_refused "[0x64]" "[0x64]"]
  by (simp add: full_string_def all_refused_def dstr_ok_def)

section \<open>Code points\<close>

text \<open>A reference decoder of one encoded code point, by the ranges of its lead byte.\<close>

fun utf8_cont :: "nat \<Rightarrow> nat \<Rightarrow> byte list \<Rightarrow> (nat \<times> byte list) option" where
  "utf8_cont 0 acc bs = Some (acc, bs)"
| "utf8_cont (Suc k) acc [] = None"
| "utf8_cont (Suc k) acc (b # bs) =
     (if 128 \<le> unat b \<and> unat b < 192 then utf8_cont k (acc * 64 + (unat b - 128)) bs else None)"

fun utf8_decode :: "byte list \<Rightarrow> (nat \<times> byte list) option" where
  "utf8_decode [] = None"
| "utf8_decode (b # bs) =
     (if unat b < 128 then Some (unat b, bs)
      else if unat b < 192 then None
      else if unat b < 224 then utf8_cont 1 (unat b - 192) bs
      else if unat b < 240 then utf8_cont 2 (unat b - 224) bs
      else if unat b < 248 then utf8_cont 3 (unat b - 240) bs
      else if unat b < 252 then utf8_cont 4 (unat b - 248) bs
      else if unat b < 254 then utf8_cont 5 (unat b - 252) bs
      else None)"

lemma utf8_cont_steps:
  "utf8_cont (numeral k) acc (b # bs) = (if 128 \<le> unat b \<and> unat b < 192 then utf8_cont (numeral k - 1) (acc * 64 + (unat b - 128)) bs else None)"
  "utf8_cont 1 acc (b # bs) = (if 128 \<le> unat b \<and> unat b < 192 then utf8_cont 0 (acc * 64 + (unat b - 128)) bs else None)"
  by (simp_all add: numeral_eq_Suc)

text \<open>
  the bytes written for a code point below 2^31 are a well-formed UTF-8 sequence (of the
  original, up to six byte form) that decodes to it, whatever follows.
\<close>

theorem unichar_roundtrip:
  assumes "wc < 0x80000000"
  shows "utf8_decode (unichar_bytes wc @ rest) = Some (unat wc, rest)"
proof -
  define n where "n = unat wc"
  have n: "n < 2147483648" using assms by (simp add: word_less_nat_alt n_def)
  have lt: "wc < 0x80 \<longleftrightarrow> n < 128" "wc < 0x800 \<longleftrightarrow> n < 2048" "wc < 0x10000 \<longleftrightarrow> n < 65536" "wc < 0x200000 \<longleftrightarrow> n < 2097152"
    "wc < 0x4000000 \<longleftrightarrow> n < 67108864" by (simp_all add: word_less_nat_alt n_def)
  have split: "a * 64 * (n div (a * 64)) + a * (n div a mod 64) = a * (n div a)" for a
    by (simp add: div_mult2_eq flip: distrib_left) (metis mult.assoc div_mult_mod_eq mult.commute distrib_left)
  have E: "4096 * (n div 4096) + 64 * (n div 64 mod 64) = 64 * (n div 64)"
    "262144 * (n div 262144) + 4096 * (n div 4096 mod 64) = 4096 * (n div 4096)"
    "16777216 * (n div 16777216) + 262144 * (n div 262144 mod 64) = 262144 * (n div 262144)"
    "1073741824 * (n div 1073741824) + 16777216 * (n div 16777216 mod 64) = 16777216 * (n div 16777216)"
    "64 * (n div 64) + n mod 64 = n"
    using split [of 64] split [of 4096] split [of 262144] split [of 16777216] by simp_all
  note U = unichar_bytes_def unichar_first_def lt Let_def
  note T = unat_cont_byte unat_drop n_def [symmetric]
  consider "n < 128" | "128 \<le> n" "n < 2048" | "2048 \<le> n" "n < 65536" | "65536 \<le> n" "n < 2097152"
    | "2097152 \<le> n" "n < 67108864" | "67108864 \<le> n" by linarith
  then show ?thesis
  proof cases
    case 1
    then have "unat (ucast wc :: byte) = n" by (simp add: unsigned_ucast_eq take_bit_eq_mod n_def)
    then show ?thesis using 1 by (simp add: U n_def)
  next
    case 2
    have "unat (ucast (drop_bit 6 wc OR 0xc0) :: byte) = n div 64 + 192"
      using 2 unat_lead_byte [of "drop_bit 6 wc" 5 "0xc0"] by (simp add: T take_bit_eq_mod)
    moreover have "n div 64 < 32" using 2 by linarith
    ultimately show ?thesis using 2 by (simp add: U T)
  next
    case 3
    have d: "n div 4096 < 16" using 3 n by linarith
    have "unat (ucast (drop_bit 12 wc OR 0xe0) :: byte) = n div 4096 + 224"
      using d unat_lead_byte [of "drop_bit 12 wc" 4 "0xe0"] by (simp add: T take_bit_eq_mod)
    then show ?thesis using 3 d by (simp add: U T utf8_cont_steps unichar_tail_steps) (use E in linarith)
  next
    case 4
    have d: "n div 262144 < 8" using 4 n by linarith
    have "unat (ucast (drop_bit 18 wc OR 0xf0) :: byte) = n div 262144 + 240"
      using d unat_lead_byte [of "drop_bit 18 wc" 3 "0xf0"] by (simp add: T take_bit_eq_mod)
    then show ?thesis using 4 d by (simp add: U T utf8_cont_steps unichar_tail_steps) (use E in linarith)
  next
    case 5
    have d: "n div 16777216 < 4" using 5 n by linarith
    have "unat (ucast (drop_bit 24 wc OR 0xf8) :: byte) = n div 16777216 + 248"
      using d unat_lead_byte [of "drop_bit 24 wc" 2 "0xf8"] by (simp add: T take_bit_eq_mod)
    then show ?thesis using 5 d by (simp add: U T utf8_cont_steps unichar_tail_steps) (use E in linarith)
  next
    case 6
    have d: "n div 1073741824 < 2" using 6 n by linarith
    have "unat (ucast (drop_bit 30 wc OR 0xfc) :: byte) = n div 1073741824 + 252"
      using d unat_lead_byte [of "drop_bit 30 wc" 1 "0xfc"] by (simp add: T take_bit_eq_mod)
    then show ?thesis using 6 d by (simp add: U T utf8_cont_steps unichar_tail_steps) (use E in linarith)
  qed
qed

theorem unichar_roundtrip_witness: "utf8_decode (unichar_bytes 0x20AC @ [0x41]) = Some (0x20AC, [0x41])"
  using unichar_roundtrip [of "0x20AC" "[0x41]"] by simp

end
