(* ===== verification/StrFuncs.thy ===== *)
theory StrFuncs
  imports CString DString
begin

text \<open>
  The string helpers of \<open>modules/core/src/dap_strfuncs.c\<close> on C strings (the bytes before NUL); a
  pointer that may be NULL is an option.  Functions that build their result in a buffer of a
  computed size write it there with bounds checks.  The character table of \<open>dap_common.h\<close> is here.
\<close>

section \<open>Characters\<close>

definition s_ascii_table_data :: "u16 list" where
  "s_ascii_table_data = [
    0x004, 0x004, 0x004, 0x004, 0x004, 0x004, 0x004, 0x004,
    0x004, 0x104, 0x104, 0x004, 0x104, 0x104, 0x004, 0x004,
    0x004, 0x004, 0x004, 0x004, 0x004, 0x004, 0x004, 0x004,
    0x004, 0x004, 0x004, 0x004, 0x004, 0x004, 0x004, 0x004,
    0x140, 0x0d0, 0x0d0, 0x0d0, 0x0d0, 0x0d0, 0x0d0, 0x0d0,
    0x0d0, 0x0d0, 0x0d0, 0x0d0, 0x0d0, 0x0d0, 0x0d0, 0x0d0,
    0x459, 0x459, 0x459, 0x459, 0x459, 0x459, 0x459, 0x459,
    0x459, 0x459, 0x0d0, 0x0d0, 0x0d0, 0x0d0, 0x0d0, 0x0d0,
    0x0d0, 0x653, 0x653, 0x653, 0x653, 0x653, 0x653, 0x253,
    0x253, 0x253, 0x253, 0x253, 0x253, 0x253, 0x253, 0x253,
    0x253, 0x253, 0x253, 0x253, 0x253, 0x253, 0x253, 0x253,
    0x253, 0x253, 0x253, 0x0d0, 0x0d0, 0x0d0, 0x0d0, 0x0d0,
    0x0d0, 0x473, 0x473, 0x473, 0x473, 0x473, 0x473, 0x073,
    0x073, 0x073, 0x073, 0x073, 0x073, 0x073, 0x073, 0x073,
    0x073, 0x073, 0x073, 0x073, 0x073, 0x073, 0x073, 0x073,
    0x073, 0x073, 0x073, 0x0d0, 0x0d0, 0x0d0, 0x0d0, 0x004] @ replicate 128 0"

definition DAP_ASCII_SPACE :: u16 where "DAP_ASCII_SPACE = push_bit 8 1"
definition DAP_ASCII_ALPHA :: u16 where "DAP_ASCII_ALPHA = push_bit 1 1"
definition DAP_ASCII_ALNUM :: u16 where "DAP_ASCII_ALNUM = push_bit 0 1"
definition DAP_ASCII_DIGIT :: u16 where "DAP_ASCII_DIGIT = push_bit 3 1"

definition dap_ascii_isspace :: "byte \<Rightarrow> bool" where
  "dap_ascii_isspace c \<longleftrightarrow> s_ascii_table_data ! unat c AND DAP_ASCII_SPACE \<noteq> 0"
definition dap_ascii_isalpha :: "byte \<Rightarrow> bool" where
  "dap_ascii_isalpha c \<longleftrightarrow> s_ascii_table_data ! unat c AND DAP_ASCII_ALPHA \<noteq> 0"
definition dap_ascii_isalnum :: "byte \<Rightarrow> bool" where
  "dap_ascii_isalnum c \<longleftrightarrow> s_ascii_table_data ! unat c AND DAP_ASCII_ALNUM \<noteq> 0"
definition dap_ascii_isdigit :: "byte \<Rightarrow> bool" where
  "dap_ascii_isdigit c \<longleftrightarrow> s_ascii_table_data ! unat c AND DAP_ASCII_DIGIT \<noteq> 0"

definition dap_isstralnum :: "cstr \<Rightarrow> bool" where
  "dap_isstralnum c = list_all (\<lambda>b. isalnum b \<or> b = 0x5f \<or> b = 0x2d) c"

section \<open>Numbers\<close>

definition s_strdigit :: "byte \<Rightarrow> int" where
  "s_strdigit c =
     (if 0x30 \<le> c \<and> c \<le> 0x39 then uint c - 0x30
      else if 0x61 \<le> c \<and> c \<le> 0x7a then uint c - 0x61 + 10
      else if 0x41 \<le> c \<and> c \<le> 0x5a then uint c - 0x41 + 10
      else 255)"

datatype errno = OK | EINVAL | ERANGE

text \<open>\<open>*p\<close> and the characters after it; the terminating NUL is read as 0.\<close>

definition at :: "cstr \<Rightarrow> nat \<Rightarrow> byte" where
  "at p i = (if i < length p then p ! i else 0)"

text \<open>
  The loop over the digits, with the value, the characters consumed and the error.  On a wrap the
  value becomes the largest one, and the loop goes on from there.
\<close>

fun strtou128_loop :: "int \<Rightarrow> cstr \<Rightarrow> u128 \<Rightarrow> nat \<Rightarrow> errno \<Rightarrow> u128 \<times> nat \<times> errno" where
  "strtou128_loop base [] v n e = (v, n, e)"
| "strtou128_loop base (c # p) v n e =
     (let digit = s_strdigit c in
      if digit < base
      then let v1 = v * of_int base + of_int digit in
           if v1 < v then strtou128_loop base p (NOT 0) (n + 1) ERANGE
           else strtou128_loop base p v1 (n + 1) e
      else (v, n, e))"

text \<open>The result: the value, where \<open>*endp\<close> is set (relative to \<open>p\<close>) if it is, and \<open>errno\<close>.\<close>

definition s_strtou128 :: "cstr \<Rightarrow> int \<Rightarrow> u128 \<times> nat option \<times> errno" where
  "s_strtou128 p0 base0 =
     (let hex = base0 = 0 \<and> at p0 0 = 0x30 \<and> (at p0 1 = 0x78 \<or> at p0 1 = 0x58) \<and> s_strdigit (at p0 2) < 16;
          base = (if base0 = 0 then (if hex then 16 else if at p0 0 = 0x30 then 8 else 10) else base0);
          k = (if hex then 2 else 0);
          p = drop k p0 in
      if base < 2 \<or> 36 < base then (0, None, EINVAL)
      else if s_strdigit (at p 0) < base
      then let (v, n, e) = strtou128_loop base (tl p) (of_int (s_strdigit (at p 0))) 1 OK in (v, Some (k + n), e)
      else (0, None, OK))"

fun skip_spaces :: "cstr \<Rightarrow> nat" where
  "skip_spaces [] = 0"
| "skip_spaces (c # p) = (if isspace c then Suc (skip_spaces p) else 0)"

text \<open>\<open>endp\<close> stays at the start of the string when no digit was read.\<close>

definition end_at :: "nat \<Rightarrow> nat option \<Rightarrow> nat" where
  "end_at k m = (case m of None \<Rightarrow> 0 | Some n \<Rightarrow> k + n)"

definition dap_strtou128 :: "cstr \<Rightarrow> int \<Rightarrow> u128 \<times> nat \<times> errno" where
  "dap_strtou128 p base =
     (let k = skip_spaces p; c = at p k in
      if c = 0x2d
      then let (v, m, e) = s_strtou128 (drop (k + 1) p) base in (- v, end_at (k + 1) m, e)
      else let k' = (if c = 0x2b then k + 1 else k); (v, m, e) = s_strtou128 (drop k' p) base in
           (v, end_at k' m, e))"

definition dap_strtoi128 :: "cstr \<Rightarrow> int \<Rightarrow> int \<times> nat \<times> errno" where
  "dap_strtoi128 p base =
     (let k = skip_spaces p; c = at p k in
      if c = 0x2d
      then let (v, m, e) = s_strtou128 (drop (k + 1) p) base in
           if push_bit 127 1 \<le> v
           then (- (2 ^ 127), end_at (k + 1) m, if push_bit 127 1 < v then ERANGE else e)
           else (- uint v, end_at (k + 1) m, e)
      else let k' = (if c = 0x2b then k + 1 else k); (v, m, e) = s_strtou128 (drop k' p) base in
           if push_bit 127 1 \<le> v then (2 ^ 127 - 1, end_at k' m, ERANGE)
           else (uint v, end_at k' m, e))"

definition dap_atoi128 :: "cstr \<Rightarrow> int" where
  "dap_atoi128 p = fst (dap_strtoi128 p 10)"

definition dap_atou128 :: "cstr \<Rightarrow> u128" where
  "dap_atou128 p = fst (dap_strtou128 p 10)"

definition digits :: cstr where
  "digits = ascii ''0123456789ABCDEFGHIJKLMNOPQRSTUVWXYZ''"

text \<open>The digits are written downwards into the 128 bytes before the NUL; \<open>room\<close> of them are left.\<close>

fun utoa128_loop :: "nat \<Rightarrow> u128 \<Rightarrow> u128 \<Rightarrow> cstr \<Rightarrow> cstr res" where
  "utoa128_loop 0 v base p = Inl OutOfBounds"
| "utoa128_loop (Suc left) v base p =
     (if base - 1 < v then utoa128_loop left (v div base) base (digits ! unat (v mod base) # p)
      else Inr (digits ! unat v # p))"

definition dap_utoa128 :: "u128 \<Rightarrow> int \<Rightarrow> cstr res" where
  "dap_utoa128 v base = (if 2 \<le> base \<and> base \<le> 36 then utoa128_loop 128 v (of_int base) [] else Inr [])"

definition dap_itoa128 :: "u128 \<Rightarrow> int \<Rightarrow> cstr res" where
  "dap_itoa128 a_value a_base =
     (if a_value <s 0 then bindE (dap_utoa128 (- a_value) a_base) (\<lambda>s. Inr (0x2d # s))
      else dap_utoa128 a_value a_base)"

section \<open>Comparison, copies and search\<close>

definition dap_strlen :: "cstr option \<Rightarrow> nat" where
  "dap_strlen a_str = (case a_str of None \<Rightarrow> 0 | Some s \<Rightarrow> length s)"

definition dap_strcmp :: "cstr option \<Rightarrow> cstr option \<Rightarrow> int" where
  "dap_strcmp a_str1 a_str2 = (case (a_str1, a_str2) of (Some a, Some b) \<Rightarrow> strcmp a b | _ \<Rightarrow> -1)"

definition dap_strncmp :: "cstr option \<Rightarrow> cstr option \<Rightarrow> nat \<Rightarrow> int" where
  "dap_strncmp a_str1 a_str2 a_n =
     (case (a_str1, a_str2) of (Some a, Some b) \<Rightarrow> strcmp (take a_n a) (take a_n b) | _ \<Rightarrow> -1)"

definition dap_strdup :: "cstr option \<Rightarrow> cstr option" where
  "dap_strdup a_str = (case a_str of None \<Rightarrow> None | Some s \<Rightarrow> Some s)"

text \<open>The copy of a string and its NUL to an offset of a buffer; the result is the offset of the NUL.\<close>

definition dap_stpcpy :: "nat \<Rightarrow> cstr \<Rightarrow> byte list \<Rightarrow> (nat \<times> byte list) res" where
  "dap_stpcpy off a_src dest = bindE (blitE dest off (a_src @ [0])) (\<lambda>d. Inr (off + length a_src, d))"

definition dap_strcat2 :: "cstr option \<Rightarrow> cstr option \<Rightarrow> cstr" where
  "dap_strcat2 s1 s2 = (case s1 of None \<Rightarrow> [] | Some a \<Rightarrow> a) @ (case s2 of None \<Rightarrow> [] | Some b \<Rightarrow> b)"

text \<open>The search within the first \<open>a_haystack_len\<close> characters; the result is an offset.\<close>

function strstr_len_loop :: "cstr \<Rightarrow> int \<Rightarrow> cstr \<Rightarrow> nat \<Rightarrow> nat option" where
  "strstr_len_loop hay l_end needle l_p =
     (if int l_p \<le> l_end \<and> l_p < length hay
      then if take (length needle) (drop l_p hay) = needle then Some l_p
           else strstr_len_loop hay l_end needle (l_p + 1)
      else None)"
  by pat_completeness auto
termination by (relation "measure (\<lambda>(hay, l_end, needle, l_p). length hay - l_p)") auto

declare strstr_len_loop.simps [simp del]

definition dap_strstr_len :: "cstr \<Rightarrow> int \<Rightarrow> cstr \<Rightarrow> nat option" where
  "dap_strstr_len a_haystack a_haystack_len a_needle =
     (if a_haystack_len < 0 then strstr a_haystack a_needle
      else if a_needle = [] then Some 0
      else if a_haystack_len < int (length a_needle) then None
      else strstr_len_loop a_haystack (a_haystack_len - int (length a_needle)) a_needle 0)"

section \<open>Joining and splitting\<close>

fun join_fill :: "cstr \<Rightarrow> cstr list \<Rightarrow> nat \<Rightarrow> byte list \<Rightarrow> (nat \<times> byte list) res" where
  "join_fill sep [] l_ptr d = Inr (l_ptr, d)"
| "join_fill sep (s # ss) l_ptr d =
     bindE (dap_stpcpy l_ptr sep d) (\<lambda>(l1, d1). bindE (dap_stpcpy l1 s d1) (\<lambda>(l2, d2). join_fill sep ss l2 d2))"

definition dap_strjoinv :: "(nat \<Rightarrow> byte) \<Rightarrow> cstr option \<Rightarrow> cstr list \<Rightarrow> cstr res" where
  "dap_strjoinv garb a_separator a_str_array =
     (let sep = (case a_separator of None \<Rightarrow> [] | Some s \<Rightarrow> s) in
      case a_str_array of
        [] \<Rightarrow> Inr []
      | s # ss \<Rightarrow>
          let l_len = 1 + length s + sum_list (map length ss) + length sep * length ss in
          bindE (dap_stpcpy 0 s (map garb [0..<l_len])) (\<lambda>(l_ptr, d).
          bindE (join_fill sep ss l_ptr d) (\<lambda>(l_ptr, d). Inr (buf_text d))))"

definition dap_strjoin :: "(nat \<Rightarrow> byte) \<Rightarrow> cstr option \<Rightarrow> cstr list \<Rightarrow> cstr res" where
  "dap_strjoin garb a_separator args =
     (let sep = (case a_separator of None \<Rightarrow> [] | Some s \<Rightarrow> s) in
      case args of
        [] \<Rightarrow> Inr []
      | s # ss \<Rightarrow>
          let l_len = 1 + length s + sum_list (map (\<lambda>t. length sep + length t) ss) in
          bindE (dap_stpcpy 0 s (map garb [0..<l_len])) (\<lambda>(l_ptr, d).
          bindE (join_fill sep ss l_ptr d) (\<lambda>(l_ptr, d). Inr (buf_text d))))"

definition INT_MAX :: int where
  "INT_MAX = 2147483647"

text \<open>
  The tokens cut off so far and what is left, after at most as many cuts as are allowed.  Both
  lengths are of type \<open>uint32_t\<close>: \<open>len\<close> bytes are copied of a token and NUL is written behind them into an
  area of \<open>len + 1\<close> bytes, which is none when that wraps.
\<close>

fun split_loop :: "cstr \<Rightarrow> nat \<Rightarrow> cstr \<Rightarrow> (cstr list \<times> cstr) res" where
  "split_loop delim 0 s = Inr ([], s)"
| "split_loop delim (Suc m) s =
     (case strstr s delim of
        None \<Rightarrow> Inr ([], s)
      | Some l_s \<Rightarrow>
          let len = word_of_nat l_s :: u32; delimiter_len = word_of_nat (length delim) :: u32 in
          if len + 1 = 0 then Inl OutOfBounds
          else bindE (split_loop delim m (drop (l_s + unat delimiter_len) s)) (\<lambda>(ts, r). Inr (take (unat len) s # ts, r)))"

definition dap_strsplit :: "cstr \<Rightarrow> cstr \<Rightarrow> int \<Rightarrow> cstr list res" where
  "dap_strsplit a_string a_delimiter a_max_tokens =
     (let mx = (if a_max_tokens < 1 then INT_MAX else a_max_tokens) in
      bindE (split_loop a_delimiter (nat mx) a_string) (\<lambda>(ts, r). Inr (ts @ [r])))"

definition dap_str_countv :: "cstr list option \<Rightarrow> nat" where
  "dap_str_countv a_str_array = (case a_str_array of None \<Rightarrow> 0 | Some xs \<Rightarrow> length xs)"

fun dap_str_symbol_count :: "cstr \<Rightarrow> byte \<Rightarrow> u32 \<Rightarrow> u32" where
  "dap_str_symbol_count [] a_sym l_count = l_count"
| "dap_str_symbol_count (c # p) a_sym l_count =
     dap_str_symbol_count p a_sym (if c = a_sym then l_count + 1 else l_count)"

definition dap_strdupv :: "cstr list option \<Rightarrow> cstr list option" where
  "dap_strdupv a_str_array = map_option (\<lambda>xs. map (\<lambda>s. the (dap_strdup (Some s))) xs) a_str_array"

section \<open>Trimming, case and reversal\<close>

fun dap_strchug :: "cstr \<Rightarrow> cstr" where
  "dap_strchug [] = []"
| "dap_strchug (c # s) = (if dap_ascii_isspace c then dap_strchug s else c # s)"

text \<open>The loop from the end writes a NUL over every space it meets.\<close>

fun chomp_loop :: "nat \<Rightarrow> cstr \<Rightarrow> cstr" where
  "chomp_loop 0 s = s"
| "chomp_loop (Suc l_len) s = (if dap_ascii_isspace (s ! l_len) then chomp_loop l_len (take l_len s) else s)"

definition dap_strchomp :: "cstr \<Rightarrow> cstr" where
  "dap_strchomp a_string = chomp_loop (length a_string) a_string"

definition dap_strstrip :: "cstr \<Rightarrow> cstr" where
  "dap_strstrip a_string = dap_strchomp (dap_strchug a_string)"

definition dap_strup :: "cstr \<Rightarrow> int \<Rightarrow> cstr" where
  "dap_strup a_str a_len = map toupper (take (if a_len < 0 then length a_str else nat a_len) a_str)"

definition dap_strdown :: "cstr \<Rightarrow> int \<Rightarrow> cstr" where
  "dap_strdown a_str a_len = map tolower (take (if a_len < 0 then length a_str else nat a_len) a_str)"

function strreverse_loop :: "nat \<Rightarrow> nat \<Rightarrow> cstr \<Rightarrow> cstr" where
  "strreverse_loop l_h l_t s = (if l_h < l_t then strreverse_loop (l_h + 1) (l_t - 1) (s[l_h := s ! l_t, l_t := s ! l_h]) else s)"
  by pat_completeness auto
termination by (relation "measure (\<lambda>(l_h, l_t, s). l_t - l_h)") auto

declare strreverse_loop.simps [simp del]

definition dap_strreverse :: "cstr \<Rightarrow> cstr" where
  "dap_strreverse a_string = (if a_string \<noteq> [] then strreverse_loop 0 (length a_string - 1) a_string else a_string)"

section \<open>UTF-16\<close>

definition SURROGATE_VALUE :: "u32 \<Rightarrow> u32 \<Rightarrow> u32" where
  "SURROGATE_VALUE h l = (h - 0xd800) * 0x400 + l - 0xdc00 + 0x10000"

definition UTF8_LENGTH :: "u32 \<Rightarrow> nat" where
  "UTF8_LENGTH c =
     (if c < 0x80 then 1 else if c < 0x800 then 2 else if c < 0x10000 then 3 else if c < 0x200000 then 4
      else if c < 0x4000000 then 5 else 6)"

text \<open>\<open>dap_unichar_to_utf8\<close> is the encoding of \<open>dap_string_insert_unichar\<close> once more.\<close>

definition dap_unichar_to_utf8 :: "u32 \<Rightarrow> nat \<times> byte list" where
  "dap_unichar_to_utf8 c = (snd (unichar_first c), unichar_bytes c)"

text \<open>
  The first pass counts bytes, in an \<open>int\<close>, and checks that surrogates pair up: \<open>Inl\<close> is the position of
  a unit in error, \<open>Inr\<close> the count, the position reached and a surrogate still open.
\<close>

definition int_sum :: "int \<Rightarrow> int \<Rightarrow> int res" where
  "int_sum a b = (if 2 ^ 31 \<le> a + b then Inl Overflow else Inr (a + b))"

fun utf16_scan :: "u16 list \<Rightarrow> u32 \<Rightarrow> int \<Rightarrow> nat \<Rightarrow> (nat + (int \<times> nat \<times> u32)) res" where
  "utf16_scan [] high n_bytes pos = Inr (Inr (n_bytes, pos, high))"
| "utf16_scan (u # us) high n_bytes pos =
     (let c = ucast u :: u32 in
      if 0xdc00 \<le> c \<and> c < 0xe000
      then (if high \<noteq> 0
            then bindE (int_sum n_bytes (int (UTF8_LENGTH (SURROGATE_VALUE high c)))) (\<lambda>n. utf16_scan us 0 n (pos + 1))
            else Inr (Inl pos))
      else if high \<noteq> 0 then Inr (Inl pos)
      else if 0xd800 \<le> c \<and> c < 0xdc00 then utf16_scan us c n_bytes (pos + 1)
      else bindE (int_sum n_bytes (int (UTF8_LENGTH c))) (\<lambda>n. utf16_scan us 0 n (pos + 1)))"

text \<open>
  The second pass writes into an area of \<open>n_bytes + 1\<close> bytes until the counted bytes are there, and
  NUL behind them; a unit beyond the string would be read out of bounds.
\<close>

definition put_char :: "nat \<Rightarrow> byte list \<Rightarrow> u32 \<Rightarrow> byte list res" where
  "put_char n_bytes out wc =
     (let bs = snd (dap_unichar_to_utf8 wc) in if n_bytes + 1 < length out + length bs then Inl OutOfBounds else Inr (out @ bs))"

fun utf16_emit :: "u16 list \<Rightarrow> u32 \<Rightarrow> nat \<Rightarrow> nat \<Rightarrow> byte list \<Rightarrow> (nat \<times> byte list) res" where
  "utf16_emit [] high n_bytes pos out = (if length out = n_bytes then Inr (pos, out) else Inl OutOfBounds)"
| "utf16_emit (u # us) high n_bytes pos out =
     (if length out < n_bytes
      then let c = ucast u :: u32 in
           if 0xdc00 \<le> c \<and> c < 0xe000
           then bindE (put_char n_bytes out (SURROGATE_VALUE high c)) (utf16_emit us 0 n_bytes (pos + 1))
           else if 0xd800 \<le> c \<and> c < 0xdc00 then utf16_emit us c n_bytes (pos + 1) out
           else bindE (put_char n_bytes out c) (utf16_emit us high n_bytes (pos + 1))
      else if length out = n_bytes then Inr (pos, out)
      else Inl OutOfBounds)"

text \<open>
  The string is given by its units before NUL; the result is the text (None for NULL) and what
  \<open>*items_read\<close> and \<open>*items_written\<close> get.  \<open>want_read\<close> is whether \<open>items_read\<close> was passed.
\<close>

definition dap_utf16_to_utf8 :: "u16 list \<Rightarrow> int \<Rightarrow> bool \<Rightarrow> (byte list option \<times> nat \<times> nat option) res" where
  "dap_utf16_to_utf8 str len want_read =
     (let us = (if len < 0 then str else take (nat len) str) in
      bindE (utf16_scan us 0 0 0) (\<lambda>r. case r of
        Inl pos \<Rightarrow> Inr (None, pos, None)
      | Inr (n_bytes, pos, high) \<Rightarrow>
          if high \<noteq> 0 \<and> \<not> want_read then Inr (None, pos, None)
          else bindE (int_sum n_bytes 1) (\<lambda>_.
               bindE (utf16_emit us 0 (nat n_bytes) 0 []) (\<lambda>(pos, out). Inr (Some out, pos, Some (length out))))))"

end
