(* ===== verification/StrFuncsClaims.thy ===== *)
theory StrFuncsClaims
  imports StrFuncs DStringClaims
begin

text \<open>
  The string helpers against their specifications: numbers in any base survive being written and
  read, splitting and joining are inverse, the in-place edits are the list functions, and UTF-16
  becomes the UTF-8 of the same code points.
\<close>

section \<open>Numbers\<close>

lemma length_digits: "length digits = 36"
  by (simp add: digits_def ascii_def)

lemma digit_cases:
  "\<forall>d < 36. s_strdigit (digits ! d) = int d \<and> \<not> isspace (digits ! d) \<and> digits ! d \<noteq> 0x2d \<and> digits ! d \<noteq> 0x2b"
proof -
  have "list_all (\<lambda>d. s_strdigit (digits ! d) = int d \<and> \<not> isspace (digits ! d) \<and> digits ! d \<noteq> 0x2d \<and> digits ! d \<noteq> 0x2b) [0..<36]"
    by code_simp
  then show ?thesis by (simp add: list_all_iff)
qed

lemma strdigit_digit [simp]: "d < 36 \<Longrightarrow> s_strdigit (digits ! d) = int d"
  using digit_cases by simp

lemma foldl_digits_ge: "0 < b \<Longrightarrow> a \<le> foldl (\<lambda>a d. a * b + d) a ds" for a b :: nat
proof (induction ds arbitrary: a)
  case (Cons d ds)
  have "a \<le> a * b + d" using Cons.prems by (cases b) auto
  also have "\<dots> \<le> foldl (\<lambda>a d. a * b + d) (a * b + d) ds" by (rule Cons.IH [OF Cons.prems])
  finally show ?case by simp
qed simp

lemma strtou128_loop_digits:
  assumes "0 < b" "b \<le> 36"
  shows "\<forall>d \<in> set ds. d < b \<Longrightarrow> foldl (\<lambda>a d. a * b + d) (unat v) ds < 2 ^ 128 \<Longrightarrow>
    strtou128_loop (int b) (map ((!) digits) ds) v n e = (of_nat (foldl (\<lambda>a d. a * b + d) (unat v) ds), n + length ds, e)"
proof (induction ds arbitrary: v n)
  case (Cons d ds)
  have d: "d < b" "d < 36" using Cons.prems(1) assms by auto
  have lt: "unat v * b + d < 2 ^ 128"
    using foldl_digits_ge [OF assms(1), of "unat v * b + d" ds] Cons.prems(2) by simp
  have eq: "v * of_int (int b) + of_int (int d) = (of_nat (unat v * b + d) :: u128)" by simp
  have u: "unat (of_nat (unat v * b + d) :: u128) = unat v * b + d" using lt by (simp only: unat_of_nat) simp
  have u1: "unat (v * of_int (int b) + of_int (int d)) = unat v * b + d" unfolding eq by (rule u)
  have nl: "\<not> v * of_int (int b) + of_int (int d) < v" using u1 assms(1) by (cases b) (simp_all add: word_less_nat_alt)
  have "foldl (\<lambda>a d. a * b + d) (unat (v * of_int (int b) + of_int (int d))) ds < 2 ^ 128"
    using Cons.prems(2) unfolding u1 by simp
  from Cons.IH [OF _ this, of "n + 1"] Cons.prems(1) show ?case
    using nl d by (simp add: Let_def u1 del: of_int_of_nat_eq)
qed simp

lemma utoa128_loop_digits:
  assumes "2 \<le> b" "b \<le> 36"
  shows "unat v < b ^ left \<Longrightarrow> 0 < left \<Longrightarrow>
    \<exists>ds. utoa128_loop left v (of_nat b) p = Inr (map ((!) digits) ds @ p) \<and> ds \<noteq> [] \<and> (\<forall>d \<in> set ds. d < b) \<and>
      foldl (\<lambda>a d. a * b + d) 0 ds = unat v \<and> length ds \<le> left"
proof (induction left arbitrary: v p)
  case (Suc left)
  have ub: "unat (of_nat b :: u128) = b" using assms by (simp add: unat_of_nat)
  have b1: "unat (of_nat b - 1 :: u128) = b - 1" using assms ub by (simp add: unat_sub word_le_nat_alt)
  show ?case
  proof (cases "of_nat b - 1 < v")
    case True
    then have vb: "b \<le> unat v" using b1 assms by (simp add: word_less_nat_alt)
    have dv: "unat (v div of_nat b) = unat v div b" "unat (v mod of_nat b) = unat v mod b"
      using ub by (simp_all add: unat_div_distrib unat_mod_distrib)
    have "0 < left"
    proof (rule ccontr)
      assume "\<not> 0 < left" with Suc.prems(1) vb show False by simp
    qed
    moreover have "unat (v div of_nat b) < b ^ left" using Suc.prems(1) assms dv by (simp add: less_mult_imp_div_less mult.commute)
    ultimately obtain ds where ds: "utoa128_loop left (v div of_nat b) (of_nat b) (digits ! unat (v mod of_nat b) # p) =
        Inr (map ((!) digits) ds @ digits ! unat (v mod of_nat b) # p)" "ds \<noteq> []" "\<forall>d \<in> set ds. d < b"
      "foldl (\<lambda>a d. a * b + d) 0 ds = unat (v div of_nat b)" "length ds \<le> left" using Suc.IH by blast
    show ?thesis using True ds dv assms by (intro exI [of _ "ds @ [unat v mod b]"]) simp
  next
    case False
    then have "unat v < b" using b1 assms by (simp add: word_less_nat_alt)
    then show ?thesis using False by (intro exI [of _ "[unat v]"]) simp
  qed
qed simp

lemma strtou128_utoa:
  assumes b: "2 \<le> b" "b \<le> 36" and ds: "ds \<noteq> []" "\<forall>d \<in> set ds. d < b" "foldl (\<lambda>a d. a * b + d) 0 ds < 2 ^ 128"
  shows "s_strtou128 (map ((!) digits) ds) (int b) = (of_nat (foldl (\<lambda>a d. a * b + d) 0 ds), Some (length ds), OK)"
proof -
  obtain d es where e: "ds = d # es" using ds(1) by (cases ds) auto
  have d: "d < b" "d < 36" using ds(2) b e by auto
  have ud: "unat (of_nat d :: u128) = d" using d(2) by (simp add: unat_of_nat)
  have "strtou128_loop (int b) (map ((!) digits) es) (of_nat d) 1 OK = (of_nat (foldl (\<lambda>a d. a * b + d) d es), 1 + length es, OK)"
    using strtou128_loop_digits [of b es "of_nat d" 1 OK] ds(2,3) b e ud by simp
  then show ?thesis using b d by (simp add: s_strtou128_def e at_def Let_def)
qed

text \<open>
  C34: writing any 128-bit value in any base from 2 to 36 stays within the function's buffer, and
  reading the text back in that base gives the value, all of the text consumed and no error.
\<close>

theorem u128_roundtrip:
  assumes "2 \<le> b" "b \<le> 36"
  shows "\<exists>s. dap_utoa128 v (int b) = Inr s \<and> length s \<le> 128 \<and> dap_strtou128 s (int b) = (v, length s, OK)"
proof -
  have "unat v < 2 ^ 128" using unsigned_less [of v] by simp
  also have "(2 :: nat) ^ 128 \<le> b ^ 128" using assms(1) by (rule power_mono) simp
  finally obtain ds where ds: "utoa128_loop 128 v (of_nat b) [] = Inr (map ((!) digits) ds)" "ds \<noteq> []" "\<forall>d \<in> set ds. d < b"
      "foldl (\<lambda>a d. a * b + d) 0 ds = unat v" "length ds \<le> 128"
    using utoa128_loop_digits [OF assms, of v 128 "[]"] by auto
  have st: "s_strtou128 (map ((!) digits) ds) (int b) = (v, Some (length ds), OK)"
    using strtou128_utoa [OF assms ds(2,3)] ds(4) unsigned_less [of v] by simp
  obtain d es where e: "ds = d # es" using ds(2) by (cases ds) auto
  have d: "d < 36" using ds(3) assms(2) e by auto
  have "dap_strtou128 (map ((!) digits) ds) (int b) = (v, length ds, OK)"
    using st digit_cases d by (simp add: dap_strtou128_def e at_def end_at_def Let_def)
  then show ?thesis using ds assms by (simp add: dap_utoa128_def)
qed

theorem u128_roundtrip_witness:
  "\<exists>s. dap_utoa128 255 16 = Inr s \<and> dap_strtou128 s 16 = (255, length s, OK)"
  using u128_roundtrip [of 16 255] by auto

lemma strtou128_loop_append:
  "(\<forall>c \<in> set xs. s_strdigit c < base) \<Longrightarrow>
   strtou128_loop base (xs @ ys) v n e = (case strtou128_loop base xs v n e of (v', n', e') \<Rightarrow> strtou128_loop base ys v' n' e')"
  by (induction xs arbitrary: v n e) (auto simp: Let_def)

lemma strtou128_loop_fix:
  "strtou128_loop 16 (replicate k 0x31) 0x11111111111111111111111111111111 n OK = (0x11111111111111111111111111111111, n + k, OK)"
proof (induction k arbitrary: n)
  case (Suc k)
  have e: "(0x11111111111111111111111111111111 :: u128) * of_int 16 + of_int 1 = 0x11111111111111111111111111111111" by simp
  have d: "s_strdigit 0x31 = 1" by (simp add: s_strdigit_def)
  show ?case using Suc by (simp only: replicate.simps strtou128_loop.simps Let_def d e) simp
qed simp

lemma foldl_ones: "foldl (\<lambda>a d. a * 16 + d) a (replicate k 1) * 15 + 1 = (a * 15 + 1) * 16 ^ k" for a :: nat
  by (induction k arbitrary: a) (simp_all add: algebra_simps)

text \<open>
  Overflow can go unnoticed: the check compares the new value with the old one, and a run of 32
  or more digits 1 in base 16 never makes it smaller, so every such text is read as 0x11...11 with
  no error.
\<close>

theorem strtou128_overflow_missed:
  "s_strtou128 (replicate (32 + k) 0x31) 16 = (0x11111111111111111111111111111111, Some (32 + k), OK)"
proof -
  have d1: "digits ! Suc 0 = 0x31" by (simp add: digits_def ascii_def)
  have "strtou128_loop (int 16) (map ((!) digits) (replicate 31 1)) 1 1 OK = (0x11111111111111111111111111111111, 1 + 31, OK)"
  proof -
    have f: "foldl (\<lambda>a d. a * 16 + d) (unat (1 :: u128)) (replicate 31 1) = 0x11111111111111111111111111111111"
      using foldl_ones [of 1 31] by simp
    have "strtou128_loop (int 16) (map ((!) digits) (replicate 31 1)) 1 1 OK =
        (of_nat (foldl (\<lambda>a d. a * 16 + d) (unat (1 :: u128)) (replicate 31 1)), 1 + length (replicate 31 (1 :: nat)), OK)"
      by (rule strtou128_loop_digits) (unfold f, auto)
    then show ?thesis unfolding f by simp
  qed
  then have a: "strtou128_loop 16 (replicate 31 0x31) 1 1 OK = (0x11111111111111111111111111111111, 32, OK)"
    by (simp add: d1 map_replicate)
  have "replicate (31 + k) (0x31 :: byte) = replicate 31 0x31 @ replicate k 0x31" by (rule replicate_add)
  then have b: "strtou128_loop 16 (replicate (31 + k) 0x31) 1 1 OK = (0x11111111111111111111111111111111, 32 + k, OK)"
    using a strtou128_loop_fix [of k 32] by (simp add: strtou128_loop_append s_strdigit_def del: replicate.simps)
  have "replicate (32 + k) (0x31 :: byte) = 0x31 # replicate (31 + k) 0x31" by (simp add: replicate_Suc [symmetric] del: replicate.simps)
  then show ?thesis using b by (simp add: s_strtou128_def at_def s_strdigit_def Let_def)
qed

section \<open>Splitting and joining\<close>






lemma join_agrees: "dap_strjoin garb sep ss = dap_strjoinv garb sep ss"
proof -
  have "sum_list (map (\<lambda>t. length (case sep of None \<Rightarrow> [] | Some s \<Rightarrow> s) + length t) xs) =
      sum_list (map length xs) + length (case sep of None \<Rightarrow> [] | Some s \<Rightarrow> s) * length xs" for xs :: "cstr list"
    by (induction xs) auto
  then show ?thesis by (cases ss) (simp_all only: dap_strjoin_def dap_strjoinv_def Let_def list.case add.assoc)
qed













section \<open>In-place edits\<close>

lemma strchug_dropWhile: "dap_strchug s = dropWhile dap_ascii_isspace s"
  by (induction s) auto

lemma chomp_loop_snoc: "chomp_loop (length s) s = rev (dropWhile dap_ascii_isspace (rev s))"
proof (induction s rule: rev_induct)
  case (snoc c s) then show ?case by (cases "dap_ascii_isspace c") simp_all
qed simp

lemma reverse_loop_inv:
  "l_h + l_t = length s - 1 \<Longrightarrow> l_t < length s \<Longrightarrow> k < length s \<Longrightarrow>
   strreverse_loop l_h l_t s ! k = (if l_h \<le> k \<and> k \<le> l_t then s ! (length s - 1 - k) else s ! k)
   \<and> length (strreverse_loop l_h l_t s) = length s"
proof (induction l_h l_t s arbitrary: k rule: strreverse_loop.induct)
  case (1 l_h l_t s)
  show ?case
  proof (cases "l_h < l_t")
    case True
    let ?s = "s[l_h := s ! l_t, l_t := s ! l_h]"
    have IH: "strreverse_loop (l_h + 1) (l_t - 1) ?s ! j = (if l_h + 1 \<le> j \<and> j \<le> l_t - 1 then ?s ! (length ?s - 1 - j) else ?s ! j)
        \<and> length (strreverse_loop (l_h + 1) (l_t - 1) ?s) = length ?s" if "j < length s" for j
      using 1(1) [OF True, of j] 1(2,3) True that by simp
    have "strreverse_loop l_h l_t s = strreverse_loop (l_h + 1) (l_t - 1) ?s" using True by (subst strreverse_loop.simps) simp
    moreover have "length s - Suc l_t = l_h" "length s - Suc l_h = l_t" using 1(2,3) True by auto
    ultimately show ?thesis using IH [OF 1(4)] 1(2-4) True by (auto simp: nth_list_update)
  next
    case False
    then have "length s - Suc k = k" if "l_h \<le> k" "k \<le> l_t" using that 1(2) 1(4) by auto
    then show ?thesis using 1(2-4) False by (subst (1 2) strreverse_loop.simps) auto
  qed
qed

lemma strreverse_rev: "dap_strreverse s = rev s"
proof (cases "s = []")
  case False
  then have l: "length (strreverse_loop 0 (length s - 1) s) = length s"
    using reverse_loop_inv [of 0 "length s - 1" s 0] by simp
  show ?thesis
    unfolding dap_strreverse_def using False l reverse_loop_inv [of 0 "length s - 1" s]
    by (auto intro!: nth_equalityI simp: rev_nth)
qed (simp add: dap_strreverse_def)

text \<open>
  the edits in place are the list functions they stand for: the two-pointer loop reverses, the
  trims drop the white space at the front and at the end and nothing else.
\<close>

theorem str_edits_in_place:
  "dap_strreverse s = rev s \<and> dap_strchug s = dropWhile dap_ascii_isspace s \<and>
   dap_strchomp s = rev (dropWhile dap_ascii_isspace (rev s)) \<and>
   dap_strstrip s = rev (dropWhile dap_ascii_isspace (rev (dropWhile dap_ascii_isspace s)))"
  by (simp add: strreverse_rev strchug_dropWhile dap_strchomp_def chomp_loop_snoc dap_strstrip_def)

section \<open>UTF-16\<close>

definition scalar :: "nat \<Rightarrow> bool" where
  "scalar cp \<longleftrightarrow> 0 < cp \<and> cp < 0x110000 \<and> \<not> (0xd800 \<le> cp \<and> cp < 0xe000)"

definition utf16_enc :: "nat \<Rightarrow> u16 list" where
  "utf16_enc cp =
     (if cp < 0x10000 then [of_nat cp]
      else [of_nat (0xd800 + (cp - 0x10000) div 1024), of_nat (0xdc00 + (cp - 0x10000) mod 1024)])"

lemma ucast_unit: "k < 65536 \<Longrightarrow> (ucast (of_nat k :: u16) :: u32) = of_nat k"
  by (simp add: word_unat_eq_iff unsigned_ucast_eq unat_of_nat take_bit_eq_mod)

lemma unit_le: "k < 4294967296 \<Longrightarrow> numeral c \<le> (of_nat k :: u32) \<longleftrightarrow> unat (numeral c :: u32) \<le> k"
  by (simp add: word_le_nat_alt unat_of_nat)

lemma unit_nonzero: "0 < k \<Longrightarrow> k < 4294967296 \<Longrightarrow> (of_nat k :: u32) \<noteq> 0"
  by (simp add: word_unat_eq_iff unat_of_nat)

lemma unit_less: "k < 4294967296 \<Longrightarrow> (of_nat k :: u32) < numeral c \<longleftrightarrow> k < unat (numeral c :: u32)"
  by (simp add: word_less_nat_alt unat_of_nat)

lemma surrogate_value:
  "SURROGATE_VALUE (of_nat (0xd800 + q)) (of_nat (0xdc00 + r)) = of_nat (q * 1024 + r + 0x10000)"
  by (simp add: SURROGATE_VALUE_def algebra_simps)

lemma length_bytes: "UTF8_LENGTH c = length (utf8_of (unat c))"
  by (simp add: utf8_of_def UTF8_LENGTH_def word_less_nat_alt)

lemma unat_scalar: "scalar cp \<Longrightarrow> unat (of_nat cp :: u32) = cp"
  by (simp add: scalar_def unat_of_nat)

lemma enc_cases:
  assumes "scalar cp"
  obtains (bmp) "cp < 0x10000" "cp < 0xd800 \<or> 0xe000 \<le> cp" "utf16_enc cp = [of_nat cp]" "(ucast (of_nat cp :: u16) :: u32) = of_nat cp"
  | (pair) q r where "q < 1024" "r < 1024" "utf16_enc cp = [of_nat (0xd800 + q), of_nat (0xdc00 + r)]"
    "cp = q * 1024 + r + 0x10000"
proof (cases "cp < 0x10000")
  case True
  then show thesis using assms ucast_unit [of cp] by (intro bmp) (auto simp: scalar_def utf16_enc_def)
next
  case False
  then show thesis using assms
    by (intro pair [of "(cp - 0x10000) div 1024" "(cp - 0x10000) mod 1024"]) (auto simp: scalar_def utf16_enc_def)
qed

lemma scan_enc:
  assumes "scalar cp"
  shows "utf16_scan (utf16_enc cp @ us) 0 n pos =
    bindE (int_sum n (int (length (utf8_of cp)))) (\<lambda>n. utf16_scan us 0 n (pos + length (utf16_enc cp)))"
  using assms
proof (cases rule: enc_cases)
  case bmp
  then show ?thesis using unat_scalar [OF assms] by (auto simp: Let_def unit_le unit_less length_bytes)
next
  case (pair q r)
  have h: "(ucast (of_nat (0xd800 + q) :: u16) :: u32) = of_nat (0xd800 + q)" "(ucast (of_nat (0xdc00 + r) :: u16) :: u32) = of_nat (0xdc00 + r)"
    by (rule ucast_unit, use pair in simp)+
  have c: "\<not> (0xdc00 :: u32) \<le> of_nat (0xd800 + q)" "(0xd800 :: u32) \<le> of_nat (0xd800 + q)" "(of_nat (0xd800 + q) :: u32) < 0xdc00"
    "(0xdc00 :: u32) \<le> of_nat (0xdc00 + r)" "(of_nat (0xdc00 + r) :: u32) < 0xe000"
    using pair by (simp_all only: unit_le unit_less) auto
  have nz: "(of_nat (0xd800 + q) :: u32) \<noteq> 0" by (rule unit_nonzero) (use pair in simp_all)
  have sv: "SURROGATE_VALUE (of_nat (0xd800 + q)) (of_nat (0xdc00 + r)) = of_nat cp" unfolding pair(4) by (rule surrogate_value)
  show ?thesis unfolding pair(3) using h c nz unat_scalar [OF assms] by (simp add: Let_def length_bytes sv del: of_nat_add)
qed

abbreviation utf8_text :: "nat list \<Rightarrow> byte list" where
  "utf8_text cps \<equiv> concat (map utf8_of cps)"

lemma scan_all:
  "list_all scalar cps \<Longrightarrow> n + int (length (utf8_text cps)) < 2 ^ 31 \<Longrightarrow>
   utf16_scan (concat (map utf16_enc cps)) 0 n pos =
    Inr (Inr (n + int (length (utf8_text cps)), pos + length (concat (map utf16_enc cps)), 0))"
proof (induction cps arbitrary: n pos)
  case (Cons cp cps)
  have "int_sum n (int (length (utf8_of cp))) = Inr (n + int (length (utf8_of cp)))"
    using Cons.prems(2) by (simp add: int_sum_def)
  moreover have "n + int (length (utf8_of cp)) + int (length (utf8_text cps)) < 2 ^ 31" using Cons.prems(2) by simp
  note Cons.IH [OF _ this]
  ultimately show ?case using Cons.prems(1) by (simp add: scan_enc)
qed simp

lemma utf8_of_nonempty: "0 < length (utf8_of n)"
  by (simp add: utf8_of_def)

lemma put_scalar:
  "scalar cp \<Longrightarrow> length out + length (utf8_of cp) \<le> n \<Longrightarrow> put_char n out (of_nat cp) = Inr (out @ utf8_of cp)"
  by (simp add: put_char_def dap_unichar_to_utf8_def unichar_utf8 unat_scalar)

lemma emit_enc:
  assumes "scalar cp" "length out + length (utf8_of cp) \<le> n"
  shows "utf16_emit (utf16_enc cp @ us) 0 n pos out =
    utf16_emit us 0 n (pos + length (utf16_enc cp)) (out @ utf8_of cp)"
proof -
  have lt: "length out < n" using assms(2) utf8_of_nonempty [of cp] by linarith
  note p = put_scalar [OF assms]
  show ?thesis
  using assms(1)
proof (cases rule: enc_cases)
  case bmp
  then show ?thesis using lt p by (auto simp: Let_def unit_le unit_less)
next
  case (pair q r)
  have h: "(ucast (of_nat (0xd800 + q) :: u16) :: u32) = of_nat (0xd800 + q)" "(ucast (of_nat (0xdc00 + r) :: u16) :: u32) = of_nat (0xdc00 + r)"
    by (rule ucast_unit, use pair in simp)+
  have c: "\<not> (0xdc00 :: u32) \<le> of_nat (0xd800 + q)" "(0xd800 :: u32) \<le> of_nat (0xd800 + q)" "(of_nat (0xd800 + q) :: u32) < 0xdc00"
    "(0xdc00 :: u32) \<le> of_nat (0xdc00 + r)" "(of_nat (0xdc00 + r) :: u32) < 0xe000"
    using pair by (simp_all only: unit_le unit_less) auto
  have sv: "SURROGATE_VALUE (of_nat (0xd800 + q)) (of_nat (0xdc00 + r)) = of_nat cp" unfolding pair(4) by (rule surrogate_value)
  show ?thesis unfolding pair(3) using h c lt p by (simp add: Let_def sv del: of_nat_add)
qed
qed

lemma emit_all:
  "list_all scalar cps \<Longrightarrow> n = length out + length (utf8_text cps) \<Longrightarrow>
   utf16_emit (concat (map utf16_enc cps)) 0 n pos out = Inr (pos + length (concat (map utf16_enc cps)), out @ utf8_text cps)"
proof (induction cps arbitrary: pos out)
  case (Cons cp cps)
  have "length out + length (utf8_of cp) \<le> n" using Cons.prems(2) by simp
  with Cons show ?case by (simp add: emit_enc)
qed simp

text \<open>
  C40: UTF-16 text of any code points (NUL and lone surrogates excepted) whose UTF-8 form is shorter
  than INT_MAX bytes becomes that UTF-8 form, as the standard defines it, of the same code points,
  all units read and all bytes counted: the two passes agree on the length.
\<close>

theorem utf16_to_utf8_code_points:
  assumes "list_all scalar cps" "length (concat (map utf8_of cps)) < 2 ^ 31 - 1"
  shows "dap_utf16_to_utf8 (concat (map utf16_enc cps)) (-1) want_read =
    Inr (Some (concat (map utf8_of cps)), length (concat (map utf16_enc cps)), Some (length (concat (map utf8_of cps))))"
proof -
  define L where "L = length (utf8_text cps)"
  have l: "L < 2147483647" unfolding L_def using assms(2) by simp
  have L: "length (utf8_text cps) = L" by (simp only: L_def)
  have "utf16_scan (concat (map utf16_enc cps)) 0 0 0 = Inr (Inr (int L, length (concat (map utf16_enc cps)), 0))"
    using scan_all [OF assms(1), of 0 0] l unfolding L_def [symmetric] by simp
  moreover have "utf16_emit (concat (map utf16_enc cps)) 0 L 0 [] = Inr (length (concat (map utf16_enc cps)), utf8_text cps)"
    using emit_all [OF assms(1), of L "[]" 0] by (simp add: L_def)
  ultimately show ?thesis using l unfolding L by (simp add: dap_utf16_to_utf8_def Let_def int_sum_def L del: length_concat)
qed

theorem utf16_to_utf8_code_points_witness:
  "dap_utf16_to_utf8 (concat (map utf16_enc [0x41, 0xE9, 0x20AC, 0x1F600])) (-1) False =
    Inr (Some [0x41, 0xC3, 0xA9, 0xE2, 0x82, 0xAC, 0xF0, 0x9F, 0x98, 0x80], 5, Some 10)"
proof -
  have u: "concat (map utf8_of [0x41, 0xE9, 0x20AC, 0x1F600]) = [0x41, 0xC3, 0xA9, 0xE2, 0x82, 0xAC, 0xF0, 0x9F, 0x98, 0x80]"
    by (simp add: utf8_of_def)
  show ?thesis using utf16_to_utf8_code_points [of "[0x41, 0xE9, 0x20AC, 0x1F600]" False, unfolded u]
    by (simp add: scalar_def utf16_enc_def)
qed

end
