(* ===== verification/Config.thy ===== *)
theory Config
  imports CString
begin

text \<open>
  The configuration reader of \<open>modules/core/src/dap_config.c\<close>: sections of named items, read from a
  text file line by line into lists that grow at the head, and the getters over them.  The file is
  given by its bytes (no NUL among them); the directory tests and \<open>atof\<close> are parameters.
\<close>

section \<open>The tree\<close>

text \<open>The union of an item: a string, or an array of strings (whose length is \<open>array_length\<close>).\<close>

datatype item_data = DataStr cstr | DataArray "cstr list"

record dap_config_item =
  iname :: cstr
  idata :: item_data

record section_item =
  sname :: cstr
  childs :: "dap_config_item list"

record dap_config =
  item_root :: "section_item list"
  cpath :: cstr

definition NAME_SIZE :: nat where "NAME_SIZE = 64"
definition VALUE_SIZE :: nat where "VALUE_SIZE = 1024"
definition MAX_CONFIG_PATH :: nat where "MAX_CONFIG_PATH = 256"

section \<open>One line\<close>

definition get_array_length :: "cstr \<Rightarrow> nat" where
  "get_array_length str = 1 + length (filter (\<lambda>c. c = 0x2c) str)"

text \<open>The line without leading blanks; empty for a comment.\<close>

fun line_text :: "cstr \<Rightarrow> cstr" where
  "line_text [] = []"
| "line_text (c # l) = (if c = 0x23 then [] else if c \<noteq> 0x20 then c # l else line_text l)"

definition is_delim :: "byte \<Rightarrow> bool" where
  "is_delim c \<longleftrightarrow> c = 0x20 \<or> c = 0x3d \<or> c = 0x09"

definition is_blank :: "byte \<Rightarrow> bool" where
  "is_blank c \<longleftrightarrow> c = 0x20 \<or> c = 0x09"

text \<open>
  The name of a parameter is the line up to its first delimiter, copied whole into 64 bytes: the
  size that the code clamps is not the one it copies with.  A line without a delimiter has no name.
\<close>

definition param_name :: "cstr \<Rightarrow> cstr res" where
  "param_name l =
     (let j = length (takeWhile (\<lambda>c. \<not> is_delim c) l) in
      if j = length l then Inr []
      else if j < NAME_SIZE then Inr (take j l) else Inl OutOfBounds)"

definition param_rest :: "cstr \<Rightarrow> cstr" where
  "param_rest l = dropWhile is_delim (dropWhile (\<lambda>c. \<not> is_delim c) l)"

definition strip_tail :: "cstr \<Rightarrow> cstr" where
  "strip_tail s = rev (dropWhile is_blank (rev s))"

text \<open>The value and its length before trailing blanks were cut off.\<close>

definition param_value :: "cstr \<Rightarrow> cstr \<times> nat" where
  "param_value l = (let v = take (VALUE_SIZE - 1) (param_rest l) in (strip_tail v, length v))"

text \<open>
  An array value: the character at the end of the (unstripped) value is cut off, the fields between
  commas lose one leading space and everything from a closing bracket on.  A value that is only the
  opening bracket is emptied.
\<close>

definition array_token :: "cstr \<Rightarrow> cstr" where
  "array_token t =
     (let t1 = (if t \<noteq> [] \<and> isspace (hd t) then tl t else t) in takeWhile (\<lambda>c. c \<noteq> 0x5d) t1)"

definition array_values :: "cstr \<Rightarrow> nat \<Rightarrow> cstr" where
  "array_values v n = (if n = 1 then [] else take (n - 2) (tl v))"

fun store_tokens :: "nat \<Rightarrow> cstr list \<Rightarrow> cstr list \<Rightarrow> (cstr list) res" where
  "store_tokens slots acc [] = Inr acc"
| "store_tokens slots acc (t # ts) =
     (if length acc < slots then store_tokens slots (acc @ [array_token t]) ts else Inl OutOfBounds)"

text \<open>A line of a section: the items of the section after it.\<close>

definition add_param :: "cstr \<Rightarrow> dap_config_item list \<Rightarrow> (dap_config_item list) res" where
  "add_param l items =
     bindE (param_name l) (\<lambda>name.
     let (v, n) = param_value l in
     if v \<noteq> [] \<and> hd v = 0x5b
     then if length v \<ge> 2 \<and> v ! 1 = 0x5d then Inr items
          else let values = array_values v n;
                   slots = get_array_length (if n = 1 then [] else hd v # values) in
               bindE (store_tokens slots [] (strtok_all 0x2c values)) (\<lambda>ts.
               Inr (\<lparr>iname = name, idata = DataArray ts\<rparr> # items))
     else Inr (\<lparr>iname = name, idata = DataStr v\<rparr> # items))"

text \<open>
  One line: a section line adds a section at the head and makes it the current one (which is
  therefore always the head); another line adds an item to the current section, or is dropped when
  there is none, though its name is copied all the same.
\<close>

definition process_line :: "cstr \<Rightarrow> section_item list \<Rightarrow> (section_item list) res" where
  "process_line line root =
     (let l = line_text line in
      if l = [] then Inr root
      else if hd l = 0x5b \<and> last l = 0x5d
      then Inr (\<lparr>sname = take (NAME_SIZE - 1) (take (length l - 2) (tl l)), childs = []\<rparr> # root)
      else case root of
             [] \<Rightarrow> bindE (param_name l) (\<lambda>_. Inr [])
           | sec # rest \<Rightarrow> bindE (add_param l (childs sec)) (\<lambda>cs. Inr (sec\<lparr>childs := cs\<rparr> # rest)))"

section \<open>The file\<close>

text \<open>
  The scan over the buffer: \<open>line\<close> holds the bytes since \<open>l_buf_pos_line_start\<close>, and a line is
  handled when its end is seen; what follows the last line end is not.
\<close>

fun scan_lines :: "byte list \<Rightarrow> bool \<Rightarrow> cstr \<Rightarrow> section_item list \<Rightarrow> (section_item list) res" where
  "scan_lines [] l_is_space_now line root = Inr root"
| "scan_lines (c # bs) l_is_space_now line root =
     (if c = 0x0d \<or> c = 0x0a
      then if \<not> l_is_space_now
           then bindE (if line \<noteq> [] then process_line line root else Inr root) (scan_lines bs True [])
           else scan_lines bs True line root
      else if l_is_space_now then scan_lines bs False [c] root
      else scan_lines bs False (line @ [c]) root)"

text \<open>
  An empty file is read in blocks of no bytes, which never reach its end.  A block of the size of
  the file is read once, and the second read, which gets nothing, ends the loop.
\<close>

definition dap_config_load :: "(cstr \<Rightarrow> byte list option) \<Rightarrow> cstr \<Rightarrow> (dap_config option) res" where
  "dap_config_load fopen a_file_path =
     (case fopen a_file_path of
        None \<Rightarrow> Inr None
      | Some bs \<Rightarrow>
          if bs = [] then Inl Diverges
          else bindE (scan_lines bs False [] []) (\<lambda>root.
               Inr (Some \<lparr>item_root = root, cpath = a_file_path\<rparr>)))"

text \<open>The configuration directory, set when it exists or can be made.\<close>

definition dap_config_init :: "(cstr \<Rightarrow> bool) \<Rightarrow> (cstr \<Rightarrow> bool) \<Rightarrow> cstr option \<Rightarrow> cstr \<Rightarrow> int \<times> cstr" where
  "dap_config_init dir_test mkdir_fails a_configs_path s_configs_path =
     (case a_configs_path of
        None \<Rightarrow> (-1, s_configs_path)
      | Some p \<Rightarrow> if dir_test p \<or> \<not> mkdir_fails p then (0, take (MAX_CONFIG_PATH - 1) p) else (-1, s_configs_path))"

definition dap_config_open :: "(cstr \<Rightarrow> byte list option) \<Rightarrow> cstr \<Rightarrow> cstr option \<Rightarrow> (dap_config option) res" where
  "dap_config_open fopen s_configs_path a_name =
     (case a_name of
        None \<Rightarrow> Inr None
      | Some name \<Rightarrow>
          let size_max = length name + 6 + length s_configs_path;
              path = take (size_max - 1) (s_configs_path @ [0x2f] @ name @ ascii ''.cfg'') in
          dap_config_load fopen path)"

text \<open>What closing releases, in order.\<close>

datatype released = RStr cstr | RArray "cstr list" | RItem cstr | RSection cstr | RPath cstr | RConfig

definition release_item :: "dap_config_item \<Rightarrow> released list" where
  "release_item it =
     (case idata it of
        DataArray ts \<Rightarrow> map RStr ts @ [RArray ts]
      | DataStr s \<Rightarrow> [RStr s]) @ [RItem (iname it)]"

definition dap_config_close :: "dap_config \<Rightarrow> released list" where
  "dap_config_close cfg =
     concat (map (\<lambda>sec. concat (map release_item (childs sec)) @ [RSection (sname sec)]) (item_root cfg)) @
     [RPath (cpath cfg), RConfig]"

section \<open>Getters\<close>

fun find_item :: "dap_config_item list \<Rightarrow> cstr \<Rightarrow> dap_config_item option" where
  "find_item [] nm = None"
| "find_item (it # its) nm = (if strcmp (iname it) nm = 0 then Some it else find_item its nm)"

fun get_item_loop :: "section_item list \<Rightarrow> cstr \<Rightarrow> cstr \<Rightarrow> dap_config_item option" where
  "get_item_loop [] sec nm = None"
| "get_item_loop (s # ss) sec nm =
     (if strcmp (sname s) sec = 0
      then case find_item (childs s) nm of Some it \<Rightarrow> Some it | None \<Rightarrow> get_item_loop ss sec nm
      else get_item_loop ss sec nm)"

definition dap_config_get_item :: "dap_config option \<Rightarrow> cstr \<Rightarrow> cstr \<Rightarrow> dap_config_item option" where
  "dap_config_get_item a_config a_section_path a_item_name =
     get_item_loop (case a_config of None \<Rightarrow> [] | Some c \<Rightarrow> item_root c) a_section_path a_item_name"

definition data_str :: "dap_config_item \<Rightarrow> cstr res" where
  "data_str it = (case idata it of DataStr s \<Rightarrow> Inr s | DataArray _ \<Rightarrow> Inl BadCast)"

definition dap_config_get_item_str :: "dap_config option \<Rightarrow> cstr \<Rightarrow> cstr \<Rightarrow> (cstr option) res" where
  "dap_config_get_item_str a_config sec nm =
     (case dap_config_get_item a_config sec nm of
        None \<Rightarrow> Inr None
      | Some it \<Rightarrow> bindE (data_str it) (\<lambda>s. Inr (Some s)))"

definition dap_config_get_item_str_default :: "dap_config option \<Rightarrow> cstr \<Rightarrow> cstr \<Rightarrow> cstr option \<Rightarrow> (cstr option) res" where
  "dap_config_get_item_str_default a_config sec nm a_value_default =
     (case get_item_loop (case a_config of None \<Rightarrow> [] | Some c \<Rightarrow> item_root c) sec nm of
        None \<Rightarrow> Inr a_value_default
      | Some it \<Rightarrow> bindE (data_str it) (\<lambda>s. Inr (Some s)))"

text \<open>The getters without a default hand the string to \<open>atoi\<close> even when there is none.\<close>

definition str_or_null :: "(cstr option) res \<Rightarrow> cstr res" where
  "str_or_null r = bindE r (\<lambda>s. case s of None \<Rightarrow> Inl NullDeref | Some t \<Rightarrow> Inr t)"

definition dap_config_get_item_int32 :: "dap_config option \<Rightarrow> cstr \<Rightarrow> cstr \<Rightarrow> u32 res" where
  "dap_config_get_item_int32 a_config sec nm =
     bindE (str_or_null (dap_config_get_item_str a_config sec nm)) (\<lambda>s. Inr (of_int (atoi s)))"

definition dap_config_get_item_int64 :: "dap_config option \<Rightarrow> cstr \<Rightarrow> cstr \<Rightarrow> u64 res" where
  "dap_config_get_item_int64 a_config sec nm =
     bindE (str_or_null (dap_config_get_item_str a_config sec nm)) (\<lambda>s. Inr (of_int (atoi s)))"

definition dap_config_get_item_uint64 :: "dap_config option \<Rightarrow> cstr \<Rightarrow> cstr \<Rightarrow> u64 res" where
  "dap_config_get_item_uint64 a_config sec nm =
     bindE (str_or_null (dap_config_get_item_str a_config sec nm)) (\<lambda>s. Inr (of_int (atoi s)))"

definition dap_config_get_item_uint16 :: "dap_config option \<Rightarrow> cstr \<Rightarrow> cstr \<Rightarrow> u16 res" where
  "dap_config_get_item_uint16 a_config sec nm =
     bindE (str_or_null (dap_config_get_item_str a_config sec nm)) (\<lambda>s. Inr (of_int (atoi s)))"

definition dap_config_get_item_int16 :: "dap_config option \<Rightarrow> cstr \<Rightarrow> cstr \<Rightarrow> u16 res" where
  "dap_config_get_item_int16 a_config sec nm =
     bindE (str_or_null (dap_config_get_item_str a_config sec nm)) (\<lambda>s. Inr (of_int (atoi s)))"

definition dap_config_get_item_uint32 :: "dap_config option \<Rightarrow> cstr \<Rightarrow> cstr \<Rightarrow> u32 res" where
  "dap_config_get_item_uint32 a_config sec nm =
     bindE (dap_config_get_item_str a_config sec nm) (\<lambda>s.
     Inr (case s of None \<Rightarrow> 0 | Some t \<Rightarrow> (case scan_u t of None \<Rightarrow> 0 | Some v \<Rightarrow> v)))"

text \<open>With a default.\<close>

definition dap_config_get_item_int32_default :: "dap_config option \<Rightarrow> cstr \<Rightarrow> cstr \<Rightarrow> u32 \<Rightarrow> u32 res" where
  "dap_config_get_item_int32_default a_config sec nm a_default =
     bindE (dap_config_get_item_str a_config sec nm) (\<lambda>s. Inr (case s of None \<Rightarrow> a_default | Some t \<Rightarrow> of_int (atoi t)))"

definition dap_config_get_item_uint32_default :: "dap_config option \<Rightarrow> cstr \<Rightarrow> cstr \<Rightarrow> u32 \<Rightarrow> u32 res" where
  "dap_config_get_item_uint32_default a_config sec nm a_default =
     bindE (dap_config_get_item_str a_config sec nm) (\<lambda>s.
     Inr (case s of None \<Rightarrow> a_default | Some t \<Rightarrow> (case scan_u t of None \<Rightarrow> a_default | Some v \<Rightarrow> v)))"

definition dap_config_get_item_uint16_default :: "dap_config option \<Rightarrow> cstr \<Rightarrow> cstr \<Rightarrow> u16 \<Rightarrow> u16 res" where
  "dap_config_get_item_uint16_default a_config sec nm a_default =
     bindE (dap_config_get_item_str a_config sec nm) (\<lambda>s. Inr (case s of None \<Rightarrow> a_default | Some t \<Rightarrow> of_int (atoi t)))"

definition dap_config_get_item_int16_default :: "dap_config option \<Rightarrow> cstr \<Rightarrow> cstr \<Rightarrow> u16 \<Rightarrow> u16 res" where
  "dap_config_get_item_int16_default a_config sec nm a_default =
     bindE (dap_config_get_item_str a_config sec nm) (\<lambda>s. Inr (case s of None \<Rightarrow> a_default | Some t \<Rightarrow> of_int (atoi t)))"

definition dap_config_get_item_int64_default :: "dap_config option \<Rightarrow> cstr \<Rightarrow> cstr \<Rightarrow> u64 \<Rightarrow> u64 res" where
  "dap_config_get_item_int64_default a_config sec nm a_default =
     bindE (dap_config_get_item_str a_config sec nm) (\<lambda>s. Inr (case s of None \<Rightarrow> a_default | Some t \<Rightarrow> of_int (atoi t)))"

definition dap_config_get_item_uint64_default :: "dap_config option \<Rightarrow> cstr \<Rightarrow> cstr \<Rightarrow> u64 \<Rightarrow> u64 res" where
  "dap_config_get_item_uint64_default a_config sec nm a_default =
     bindE (dap_config_get_item_str a_config sec nm) (\<lambda>s. Inr (case s of None \<Rightarrow> a_default | Some t \<Rightarrow> of_int (atoi t)))"

definition dap_config_get_item_path ::
  "(cstr \<Rightarrow> cstr \<Rightarrow> cstr) \<Rightarrow> (cstr \<Rightarrow> cstr) \<Rightarrow> dap_config option \<Rightarrow> cstr \<Rightarrow> cstr \<Rightarrow> (cstr option) res" where
  "dap_config_get_item_path canonicalize dirname a_config sec nm =
     bindE (dap_config_get_item_str a_config sec nm) (\<lambda>s.
     case (s, a_config) of
       (Some raw_path, Some cfg) \<Rightarrow> Inr (Some (canonicalize raw_path (dirname (cpath cfg))))
     | _ \<Rightarrow> Inr None)"

definition dap_config_get_item_path_default ::
  "(cstr \<Rightarrow> cstr \<Rightarrow> cstr) \<Rightarrow> (cstr \<Rightarrow> cstr) \<Rightarrow> dap_config option \<Rightarrow> cstr \<Rightarrow> cstr \<Rightarrow> cstr option \<Rightarrow> (cstr option) res" where
  "dap_config_get_item_path_default canonicalize dirname a_config sec nm a_value_default =
     bindE (dap_config_get_item_path canonicalize dirname a_config sec nm) (\<lambda>s.
     Inr (case s of None \<Rightarrow> a_value_default | Some r \<Rightarrow> Some r))"

text \<open>The array and what \<open>*array_length\<close> gets.\<close>

definition dap_config_get_array_str :: "dap_config option \<Rightarrow> cstr \<Rightarrow> cstr \<Rightarrow> (cstr list option \<times> nat) res" where
  "dap_config_get_array_str a_config sec nm =
     (case dap_config_get_item a_config sec nm of
        None \<Rightarrow> Inr (None, 0)
      | Some it \<Rightarrow> (case idata it of DataArray ts \<Rightarrow> Inr (Some ts, length ts) | DataStr _ \<Rightarrow> Inl BadCast))"

definition dap_config_get_item_bool :: "dap_config option \<Rightarrow> cstr \<Rightarrow> cstr \<Rightarrow> bool res" where
  "dap_config_get_item_bool a_config sec nm =
     bindE (dap_config_get_item_str a_config sec nm) (\<lambda>s.
     Inr (case s of None \<Rightarrow> False | Some t \<Rightarrow> strncasecmp_eq t (ascii ''true'') 4))"

definition dap_config_get_item_bool_default :: "dap_config option \<Rightarrow> cstr \<Rightarrow> cstr \<Rightarrow> bool \<Rightarrow> bool res" where
  "dap_config_get_item_bool_default a_config sec nm a_default =
     bindE (dap_config_get_item_str_default a_config sec nm (Some (ascii (if a_default then ''true'' else ''false'')))) (\<lambda>s.
     Inr (case s of None \<Rightarrow> a_default | Some t \<Rightarrow> strncasecmp_eq t (ascii ''true'') 4))"

definition dap_config_get_item_double :: "(cstr \<Rightarrow> 'd) \<Rightarrow> 'd \<Rightarrow> dap_config option \<Rightarrow> cstr \<Rightarrow> cstr \<Rightarrow> 'd res" where
  "dap_config_get_item_double atof zero a_config sec nm =
     bindE (dap_config_get_item_str a_config sec nm) (\<lambda>s. Inr (case s of None \<Rightarrow> zero | Some t \<Rightarrow> atof t))"

definition dap_config_get_item_double_default :: "(cstr \<Rightarrow> 'd) \<Rightarrow> dap_config option \<Rightarrow> cstr \<Rightarrow> cstr \<Rightarrow> 'd \<Rightarrow> 'd res" where
  "dap_config_get_item_double_default atof a_config sec nm a_default =
     bindE (dap_config_get_item_str a_config sec nm) (\<lambda>s. Inr (case s of None \<Rightarrow> a_default | Some t \<Rightarrow> atof t))"

end
