(* ===== verification/ConfigClaims.thy ===== *)
theory ConfigClaims
  imports Config
begin

text \<open>
  What the configuration reader reads: the last assignment of every name of a well-formed file; when
  a line writes outside its buffer; and what it does with empty files and unfinished lines.
\<close>

section \<open>Lines\<close>

definition no_eol :: "cstr \<Rightarrow> bool" where
  "no_eol s \<longleftrightarrow> 0x0d \<notin> set s \<and> 0x0a \<notin> set s"

lemma scan_chars:
  "no_eol l \<Longrightarrow> scan_lines (l @ bs) False acc root = scan_lines bs False (acc @ l) root"
  by (induction l arbitrary: acc) (auto simp: no_eol_def)

lemma scan_line:
  assumes "no_eol l" "l \<noteq> []"
  shows "scan_lines (l @ 0x0a # bs) sp [] root = bindE (process_line l root) (scan_lines bs True [])"
proof -
  obtain c l' where l: "l = c # l'" using assms(2) by (cases l) auto
  have "scan_lines (l @ 0x0a # bs) sp [] root = scan_lines (l' @ 0x0a # bs) False [c] root"
    using assms(1) by (cases sp) (auto simp: l no_eol_def)
  also have "\<dots> = scan_lines (0x0a # bs) False ([c] @ l') root" using assms(1) by (intro scan_chars) (auto simp: l no_eol_def)
  finally show ?thesis by (simp add: l)
qed

text \<open>A file of sections of assignments, as text.\<close>

type_synonym section_text = "cstr \<times> (cstr \<times> cstr) list"

definition print_item :: "cstr \<times> cstr \<Rightarrow> byte list" where
  "print_item kv = fst kv @ 0x3d # snd kv @ [0x0a]"

definition print_section :: "section_text \<Rightarrow> byte list" where
  "print_section s = 0x5b # fst s @ [0x5d, 0x0a] @ concat (map print_item (snd s))"

definition key_ok :: "cstr \<Rightarrow> bool" where
  "key_ok k \<longleftrightarrow> k \<noteq> [] \<and> length k < NAME_SIZE \<and> hd k \<noteq> 0x23 \<and> hd k \<noteq> 0x5b \<and> no_eol k \<and> cstr_ok k \<and> (\<forall>c \<in> set k. \<not> is_delim c)"

definition value_ok :: "cstr \<Rightarrow> bool" where
  "value_ok v \<longleftrightarrow> length v < VALUE_SIZE \<and> no_eol v \<and> cstr_ok v \<and> (v \<noteq> [] \<longrightarrow> hd v \<noteq> 0x5b \<and> \<not> is_delim (hd v) \<and> \<not> is_blank (last v))"

definition section_ok :: "section_text \<Rightarrow> bool" where
  "section_ok s \<longleftrightarrow> length (fst s) < NAME_SIZE \<and> no_eol (fst s) \<and> cstr_ok (fst s) \<and> (\<forall>kv \<in> set (snd s). key_ok (fst kv) \<and> value_ok (snd kv))"

definition item_of :: "cstr \<times> cstr \<Rightarrow> dap_config_item" where
  "item_of kv = \<lparr>iname = fst kv, idata = DataStr (snd kv)\<rparr>"

definition section_of :: "section_text \<Rightarrow> section_item" where
  "section_of s = \<lparr>sname = fst s, childs = rev (map item_of (snd s))\<rparr>"

lemma strip_tail_ok: "v = [] \<or> \<not> is_blank (last v) \<Longrightarrow> strip_tail v = v"
  by (cases v rule: rev_cases) (auto simp: strip_tail_def)

lemma add_param_ok:
  assumes "key_ok k" "value_ok v"
  shows "add_param (k @ 0x3d # v) items = Inr (item_of (k, v) # items)"
proof -
  have tw: "takeWhile (\<lambda>c. \<not> is_delim c) (k @ 0x3d # v) = k"
    using assms(1) by (subst takeWhile_append2) (auto simp: key_ok_def is_delim_def)
  have dw: "dropWhile (\<lambda>c. \<not> is_delim c) (k @ 0x3d # v) = 0x3d # v"
    using assms(1) by (subst dropWhile_append2) (auto simp: key_ok_def is_delim_def)
  have "dropWhile is_delim v = v" using assms(2) by (cases v) (auto simp: value_ok_def)
  then have "param_rest (k @ 0x3d # v) = v" unfolding param_rest_def dw by (simp add: is_delim_def)
  then have "param_value (k @ 0x3d # v) = (v, length v)"
    using assms(2) strip_tail_ok [of v] by (auto simp: param_value_def value_ok_def Let_def)
  moreover have "param_name (k @ 0x3d # v) = Inr k" using assms(1) by (simp add: param_name_def tw Let_def key_ok_def)
  ultimately show ?thesis using assms(2) by (auto simp: add_param_def value_ok_def item_of_def)
qed

lemma process_item:
  assumes "key_ok k" "value_ok v"
  shows "process_line (k @ 0x3d # v) (sec # rest) = Inr (sec\<lparr>childs := item_of (k, v) # childs sec\<rparr> # rest)"
proof -
  obtain c k' where k: "k = c # k'" using assms(1) by (cases k) (auto simp: key_ok_def)
  have "line_text (k @ 0x3d # v) = k @ 0x3d # v" using assms(1) by (auto simp: k key_ok_def is_delim_def)
  then show ?thesis using assms(1) add_param_ok [OF assms] by (simp add: process_line_def Let_def k key_ok_def)
qed

lemma scan_items:
  "\<forall>kv \<in> set kvs. key_ok (fst kv) \<and> value_ok (snd kv) \<Longrightarrow>
   scan_lines (concat (map print_item kvs) @ bs) True [] (sec # rest) =
     scan_lines bs True [] (sec\<lparr>childs := rev (map item_of kvs) @ childs sec\<rparr> # rest)"
proof (induction kvs arbitrary: sec)
  case (Cons kv kvs)
  have ne: "no_eol (fst kv @ 0x3d # snd kv)" using Cons.prems by (auto simp: key_ok_def value_ok_def no_eol_def)
  have "scan_lines (concat (map print_item (kv # kvs)) @ bs) True [] (sec # rest) =
      bindE (process_line (fst kv @ 0x3d # snd kv) (sec # rest)) (scan_lines (concat (map print_item kvs) @ bs) True [])"
    using scan_line [OF ne, of "concat (map print_item kvs) @ bs" True "sec # rest"] by (simp add: print_item_def)
  then show ?case using Cons process_item [of "fst kv" "snd kv" sec rest] by simp
qed simp

lemma scan_section:
  assumes "section_ok s"
  shows "scan_lines (print_section s @ bs) sp [] root = scan_lines bs True [] (section_of s # root)"
proof -
  let ?l = "0x5b # fst s @ [0x5d]"
  have ne: "no_eol ?l" using assms by (auto simp: section_ok_def no_eol_def)
  have "process_line ?l root = Inr (\<lparr>sname = fst s, childs = []\<rparr> # root)"
    using assms by (simp add: process_line_def Let_def section_ok_def NAME_SIZE_def)
  moreover have "scan_lines (print_section s @ bs) sp [] root =
      bindE (process_line ?l root) (scan_lines (concat (map print_item (snd s)) @ bs) True [])"
    using scan_line [OF ne, of "concat (map print_item (snd s)) @ bs" sp root] by (simp add: print_section_def)
  ultimately show ?thesis using assms scan_items [of "snd s" bs "\<lparr>sname = fst s, childs = []\<rparr>" root]
    by (simp add: section_ok_def section_of_def)
qed

lemma scan_sections:
  "list_all section_ok ss \<Longrightarrow>
   scan_lines (concat (map print_section ss)) sp [] root = Inr (rev (map section_of ss) @ root)"
  by (induction ss arbitrary: sp root) (simp_all add: scan_section)

section \<open>Lookups\<close>

definition assignments :: "section_text list \<Rightarrow> ((cstr \<times> cstr) \<times> cstr) list" where
  "assignments ss = concat (map (\<lambda>s. map (\<lambda>kv. ((fst s, fst kv), snd kv)) (snd s)) ss)"

lemma find_item_append: "find_item (xs @ ys) nm = (case find_item xs nm of Some it \<Rightarrow> Some it | None \<Rightarrow> find_item ys nm)"
  by (induction xs) auto

lemma get_item_loop_append:
  "get_item_loop (xs @ ys) sec nm = (case get_item_loop xs sec nm of Some it \<Rightarrow> Some it | None \<Rightarrow> get_item_loop ys sec nm)"
  by (induction xs) (auto split: option.splits)

lemma find_item_of:
  "\<forall>kv \<in> set kvs. cstr_ok (fst kv) \<Longrightarrow> cstr_ok nm \<Longrightarrow>
   find_item (map item_of kvs) nm = map_option (\<lambda>v. item_of (nm, v)) (map_of kvs nm)"
  by (induction kvs) (auto simp: strcmp_eq item_of_def)

lemma map_of_pair: "map_of (map (\<lambda>kv. ((s, fst kv), snd kv)) kvs) (sec, nm) = (if s = sec then map_of kvs nm else None)"
  by (induction kvs) auto

lemma get_item_sections:
  assumes "list_all section_ok ss" "cstr_ok sec" "cstr_ok nm"
  shows "get_item_loop (map section_of (rev ss)) sec nm =
    map_option (\<lambda>v. item_of (nm, v)) (map_of (rev (assignments ss)) (sec, nm))"
  using assms(1)
proof (induction ss)
  case (Cons s ss)
  have "find_item (rev (map item_of (snd s))) nm = map_option (\<lambda>v. item_of (nm, v)) (map_of (rev (snd s)) nm)"
    using Cons.prems assms(3) find_item_of [of "rev (snd s)" nm] by (simp add: rev_map section_ok_def key_ok_def)
  moreover have "strcmp (fst s) sec = 0 \<longleftrightarrow> fst s = sec" using Cons.prems assms(2) by (simp add: strcmp_eq section_ok_def)
  ultimately have "get_item_loop [section_of s] sec nm =
      map_option (\<lambda>v. item_of (nm, v)) (map_of (rev (map (\<lambda>kv. ((fst s, fst kv), snd kv)) (snd s))) (sec, nm))"
    using map_of_pair [of "fst s" "rev (snd s)" sec nm] by (auto simp: section_of_def rev_map split: option.splits)
  with Cons show ?case
    by (auto simp: get_item_loop_append assignments_def map_add_def split: option.splits)
qed (simp add: assignments_def)

section \<open>Properties\<close>

text \<open>
  C36: a configuration file written from a list of sections of assignments is read without a fault,
  and looking up any name in any section gives the value last assigned to it in the file, across
  sections of the same name, or nothing when there is no assignment.  Names are shorter than the
  64 bytes of their buffer and values than the 1024 of theirs, none holds NUL or a line end; the name of an
  assignment has no delimiter (blank, tab, equals sign) and does not start a comment or a section; a value does
  not start with a bracket (that is an array) or a delimiter and does not end with a blank.
\<close>

theorem config_print_load:
  assumes "list_all section_ok ss" "ss \<noteq> []" "cstr_ok sec" "cstr_ok nm"
    and "fopen path = Some (concat (map print_section ss))"
  shows "\<exists>cfg. dap_config_load fopen path = Inr (Some cfg) \<and>
    dap_config_get_item_str (Some cfg) sec nm = Inr (map_of (rev (assignments ss)) (sec, nm))"
proof -
  have ne: "concat (map print_section ss) \<noteq> []" using assms(2) by (cases ss) (auto simp: print_section_def)
  have "dap_config_load fopen path = Inr (Some \<lparr>item_root = rev (map section_of ss), cpath = path\<rparr>)"
    using assms(5) ne scan_sections [OF assms(1), of False "[]"] by (simp add: dap_config_load_def)
  moreover have "dap_config_get_item_str (Some \<lparr>item_root = rev (map section_of ss), cpath = path\<rparr>) sec nm =
      Inr (map_of (rev (assignments ss)) (sec, nm))"
    using get_item_sections [OF assms(1,3,4)]
    by (cases "map_of (rev (assignments ss)) (sec, nm)")
      (auto simp: dap_config_get_item_str_def dap_config_get_item_def rev_map data_str_def item_of_def)
  ultimately show ?thesis by blast
qed

theorem config_print_load_witness:
  "\<exists>cfg. dap_config_load (\<lambda>_. Some (concat (map print_section [([0x61], [([0x6b], [0x31]), ([0x6b], [0x32])])]))) [] = Inr (Some cfg) \<and>
    dap_config_get_item_str (Some cfg) [0x61] [0x6b] = Inr (Some [0x32])"
proof -
  have "list_all section_ok [([0x61], [([0x6b], [0x31]), ([0x6b], [0x32])])]"
    by (simp add: section_ok_def key_ok_def value_ok_def no_eol_def cstr_ok_def is_delim_def is_blank_def NAME_SIZE_def VALUE_SIZE_def)
  from config_print_load [OF this, of "[0x61]" "[0x6b]" "\<lambda>_. Some (concat (map print_section [([0x61], [([0x6b], [0x31]), ([0x6b], [0x32])])]))" "[]"]
  show ?thesis by (simp add: cstr_ok_def assignments_def)
qed

lemma length_fields: "length (CString.fields sep acc s) = 1 + length (filter (\<lambda>c. c = sep) s)"
  by (induction sep acc s rule: CString.fields.induct) auto

lemma store_tokens_ok: "length acc + length ts \<le> slots \<Longrightarrow> store_tokens slots acc ts = Inr (acc @ map array_token ts)"
  by (induction ts arbitrary: acc) auto

lemma array_fits:
  "v \<noteq> [] \<Longrightarrow> hd v = 0x5b \<Longrightarrow> \<exists>ts. store_tokens (get_array_length (if n = 1 then [] else hd v # array_values v n)) [] (strtok_all 0x2c (array_values v n)) = Inr ts"
proof -
  assume v: "v \<noteq> []" "hd v = 0x5b"
  have "length (strtok_all 0x2c (array_values v n)) \<le> length (CString.fields 0x2c [] (array_values v n))" by (simp add: strtok_all_def)
  also have "\<dots> = get_array_length (if n = 1 then [] else hd v # array_values v n)"
    using v by (simp add: length_fields get_array_length_def array_values_def)
  finally show ?thesis using store_tokens_ok [of "[]" "strtok_all 0x2c (array_values v n)"] by auto
qed

text \<open>
  handling a line goes wrong exactly when, after leading blanks, it is neither a comment nor a
  section and its first delimiter comes after 64 or more characters: then the name is copied beyond
  its buffer.  Array values always fit the slots counted for them.
\<close>

theorem config_line_fault_iff:
  "process_line line root = Inl e \<longleftrightarrow>
     e = OutOfBounds \<and> (let l = line_text line; j = length (takeWhile (\<lambda>c. \<not> is_delim c) l) in
       l \<noteq> [] \<and> \<not> (hd l = 0x5b \<and> last l = 0x5d) \<and> NAME_SIZE \<le> j \<and> j < length l)"
proof -
  define l where "l = line_text line"
  define j where "j = length (takeWhile (\<lambda>c. \<not> is_delim c) l)"
  have jl: "j \<le> length l" by (simp add: j_def length_takeWhile_le)
  have pn: "param_name l = (if j = length l then Inr [] else if j < NAME_SIZE then Inr (take j l) else Inl OutOfBounds)"
    by (simp add: param_name_def Let_def j_def)
  have ap: "add_param l items = Inl e \<longleftrightarrow> param_name l = Inl e" for items
  proof (cases "param_name l")
    case (Inr name)
    obtain v n where v: "param_value l = (v, n)" by (cases "param_value l")
    show ?thesis using array_fits [of v n] Inr v
      by (auto simp: add_param_def Let_def split del: if_split split: if_split_asm)
  qed (simp add: add_param_def)
  show ?thesis
    using pn ap jl unfolding process_line_def l_def [symmetric] j_def [symmetric] Let_def
    by (auto simp: bindE_def split: list.splits sum.splits if_splits)
qed

text \<open>
  A file of no bytes is read for ever; and what follows the last line end of a file, a final
  line that is not terminated, is ignored.
\<close>

theorem config_unfinished_line:
  assumes "no_eol tail" "bs \<noteq> []"
    and "fopen p1 = Some (bs @ tail)" "fopen p2 = Some bs" "fopen p3 = Some []"
  shows "dap_config_load fopen p3 = Inl Diverges \<and>
    (dap_config_load fopen p1 = Inl e \<longleftrightarrow> dap_config_load fopen p2 = Inl e) \<and>
    (dap_config_load fopen p1 = Inr (Some \<lparr>item_root = root, cpath = p1\<rparr>) \<longleftrightarrow>
     dap_config_load fopen p2 = Inr (Some \<lparr>item_root = root, cpath = p2\<rparr>))"
proof -
  have t: "no_eol tail \<Longrightarrow> scan_lines tail sp l root = Inr root" for sp l root
    by (induction tail arbitrary: sp l) (auto simp: no_eol_def)
  have "scan_lines (bs @ tail) sp l root = scan_lines bs sp l root" for sp l root
  proof (induction bs sp l root rule: scan_lines.induct)
    case (2 c bs sp line root)
    then show ?case by (auto simp: bindE_def split: sum.splits)
  qed (simp add: t [OF assms(1)])
  then show ?thesis using assms by (auto simp: dap_config_load_def bindE_def split: sum.splits)
qed

theorem config_unfinished_line_witness:
  "dap_config_load ((\<lambda>_. None)([1] \<mapsto> [0x5b, 0x61, 0x5d, 0x0a] @ [0x62, 0x3d, 0x31], [2] \<mapsto> [0x5b, 0x61, 0x5d, 0x0a], [3] \<mapsto> [])) [3] = Inl Diverges"
  using config_unfinished_line [of "[0x62, 0x3d, 0x31]" "[0x5b, 0x61, 0x5d, 0x0a]"
    "(\<lambda>_. None)([1] \<mapsto> [0x5b, 0x61, 0x5d, 0x0a] @ [0x62, 0x3d, 0x31], [2] \<mapsto> [0x5b, 0x61, 0x5d, 0x0a], [3] \<mapsto> [])" "[1]" "[2]" "[3]"]
  by (simp add: no_eol_def)

lemma config_missing_item:
  "dap_config_get_item c sec nm = None \<Longrightarrow>
   dap_config_get_item_int32 c sec nm = Inl NullDeref \<and> dap_config_get_item_int32_default c sec nm d = Inr d"
  by (simp add: dap_config_get_item_int32_def dap_config_get_item_int32_default_def dap_config_get_item_str_def str_or_null_def)

end
