(* ===== verification/Math256.thy ===== *)
theory Math256
  imports Prelude
begin

text \<open>
  The 256-bit arithmetic of \<open>modules/core/include/dap_math_ops.h\<close>, as built where the compiler has a
  128-bit integer (\<open>DAP_GLOBAL_IS_INT128\<close>): a 256-bit number is two 128-bit words.  Results that the
  C functions store through a pointer are returned, before the overflow flag where there is one.
  Assertions are checked.
\<close>

unbundle bit_operations_syntax

record uint256 =
  hi :: u128
  lo :: u128

record uint512 =
  hi256 :: uint256
  lo256 :: uint256

abbreviation u256 :: "u128 \<Rightarrow> u128 \<Rightarrow> uint256" where
  "u256 h l \<equiv> \<lparr>hi = h, lo = l\<rparr>"

definition uint128_0 :: u128 where "uint128_0 = 0"
definition uint256_0 :: uint256 where "uint256_0 = u256 0 0"
definition uint256_1 :: uint256 where "uint256_1 = u256 0 1"
definition uint512_0 :: uint512 where "uint512_0 = \<lparr>hi256 = uint256_0, lo256 = uint256_0\<rparr>"

definition GET_128_FROM_64 :: "u64 \<Rightarrow> u128" where
  "GET_128_FROM_64 n = ucast n"

definition GET_256_FROM_64 :: "u64 \<Rightarrow> uint256" where
  "GET_256_FROM_64 n = u256 uint128_0 (GET_128_FROM_64 n)"

definition GET_256_FROM_128 :: "u128 \<Rightarrow> uint256" where
  "GET_256_FROM_128 n = u256 uint128_0 n"

section \<open>Comparison and bits\<close>

definition EQUAL_128 :: "u128 \<Rightarrow> u128 \<Rightarrow> bool" where
  "EQUAL_128 a b \<longleftrightarrow> a = b"

definition IS_ZERO_128 :: "u128 \<Rightarrow> bool" where
  "IS_ZERO_128 a = EQUAL_128 a uint128_0"

definition EQUAL_256 :: "uint256 \<Rightarrow> uint256 \<Rightarrow> bool" where
  "EQUAL_256 a b \<longleftrightarrow> lo a = lo b \<and> hi a = hi b"

definition IS_ZERO_256 :: "uint256 \<Rightarrow> bool" where
  "IS_ZERO_256 a = EQUAL_256 a uint256_0"

definition AND_128 :: "u128 \<Rightarrow> u128 \<Rightarrow> u128" where
  "AND_128 a b = a AND b"

definition OR_128 :: "u128 \<Rightarrow> u128 \<Rightarrow> u128" where
  "OR_128 a b = a OR b"

definition AND_256 :: "uint256 \<Rightarrow> uint256 \<Rightarrow> uint256" where
  "AND_256 a b = u256 (AND_128 (hi a) (hi b)) (AND_128 (lo a) (lo b))"

definition OR_256 :: "uint256 \<Rightarrow> uint256 \<Rightarrow> uint256" where
  "OR_256 a b = u256 (OR_128 (hi a) (hi b)) (OR_128 (lo a) (lo b))"

definition compare128 :: "u128 \<Rightarrow> u128 \<Rightarrow> int" where
  "compare128 a b = (if b < a then 1 else 0) - (if a < b then 1 else 0)"

definition compare256 :: "uint256 \<Rightarrow> uint256 \<Rightarrow> int" where
  "compare256 a b =
     (if compare128 (hi a) (hi b) = 1 \<or> compare128 (hi a) (hi b) = 0 \<and> compare128 (lo a) (lo b) = 1 then 1 else 0) -
     (if compare128 (hi a) (hi b) = -1 \<or> compare128 (hi a) (hi b) = 0 \<and> compare128 (lo a) (lo b) = -1 then 1 else 0)"

section \<open>Shifts\<close>

text \<open>The assertion lets \<open>n = 128\<close> through, where the shift of a 128-bit integer is undefined.\<close>

definition LEFT_SHIFT_128 :: "u128 \<Rightarrow> nat \<Rightarrow> u128 res" where
  "LEFT_SHIFT_128 a n = (if 128 < n then Inl Aborted else if n = 128 then Inl BadShift else Inr (push_bit n a))"

definition RIGHT_SHIFT_128 :: "u128 \<Rightarrow> nat \<Rightarrow> u128 res" where
  "RIGHT_SHIFT_128 a n = (if 128 < n then Inl Aborted else if n = 128 then Inl BadShift else Inr (drop_bit n a))"

fun LEFT_SHIFT_256 :: "uint256 \<Rightarrow> nat \<Rightarrow> uint256 res" where
  "LEFT_SHIFT_256 a n =
     (if 256 < n then Inl Aborted
      else if 128 \<le> n then LEFT_SHIFT_256 (u256 (lo a) uint128_0) (n - 128)
      else if n = 0 then Inr (u256 (hi a) (lo a))
      else bindE (LEFT_SHIFT_128 (lo a) n) (\<lambda>l.
           bindE (LEFT_SHIFT_128 (hi a) n) (\<lambda>left.
           bindE (RIGHT_SHIFT_128 (lo a) (128 - n)) (\<lambda>right. Inr (u256 (OR_128 left right) l)))))"

declare LEFT_SHIFT_256.simps [simp del]

fun RIGHT_SHIFT_256 :: "uint256 \<Rightarrow> nat \<Rightarrow> uint256 res" where
  "RIGHT_SHIFT_256 a n =
     (if 256 < n then Inl Aborted
      else if 128 \<le> n then RIGHT_SHIFT_256 (u256 uint128_0 (hi a)) (n - 128)
      else if n = 0 then Inr (u256 (hi a) (lo a))
      else bindE (RIGHT_SHIFT_128 (hi a) n) (\<lambda>h.
           bindE (RIGHT_SHIFT_128 (lo a) n) (\<lambda>left.
           bindE (LEFT_SHIFT_128 (hi a) (128 - n)) (\<lambda>right. Inr (u256 h (OR_128 left right))))))"

declare RIGHT_SHIFT_256.simps [simp del]

section \<open>Addition and subtraction\<close>

definition INCR_128 :: "u128 \<Rightarrow> u128" where "INCR_128 a = a + 1"
definition DECR_128 :: "u128 \<Rightarrow> u128" where "DECR_128 a = a - 1"

definition INCR_256 :: "uint256 \<Rightarrow> uint256" where
  "INCR_256 a = (let l = lo a + 1 in u256 (if l = 0 then hi a + 1 else hi a) l)"

definition DECR_256 :: "uint256 \<Rightarrow> uint256" where
  "DECR_256 a = u256 (if lo a = 0 then hi a - 1 else hi a) (lo a - 1)"

definition SUM_64_64 :: "u64 \<Rightarrow> u64 \<Rightarrow> u64 \<times> bool" where
  "SUM_64_64 a b = (a + b, a + b < a)"

definition OVERFLOW_SUM_64_64 :: "u64 \<Rightarrow> u64 \<Rightarrow> bool" where
  "OVERFLOW_SUM_64_64 a b \<longleftrightarrow> a + b < a"

definition OVERFLOW_MULT_64_64 :: "u64 \<Rightarrow> u64 \<Rightarrow> bool res" where
  "OVERFLOW_MULT_64_64 a b = (if b = 0 then Inl DivByZero else Inr (- 1 div b < a))"

definition MULT_64_64 :: "u64 \<Rightarrow> u64 \<Rightarrow> (u64 \<times> bool) res" where
  "MULT_64_64 a b = bindE (OVERFLOW_MULT_64_64 a b) (\<lambda>f. Inr (a * b, f))"

definition ADD_64_INTO_128 :: "u64 \<Rightarrow> u128 \<Rightarrow> u128 \<times> bool" where
  "ADD_64_INTO_128 a c = (c + ucast a, c + ucast a < c)"

definition SUM_128_128 :: "u128 \<Rightarrow> u128 \<Rightarrow> u128 \<times> bool" where
  "SUM_128_128 a b = (a + b, a + b < a)"

definition SUBTRACT_128_128 :: "u128 \<Rightarrow> u128 \<Rightarrow> u128 \<times> bool" where
  "SUBTRACT_128_128 a b = (a - b, a < b)"

definition ADD_128_INTO_256 :: "u128 \<Rightarrow> uint256 \<Rightarrow> uint256 \<times> bool" where
  "ADD_128_INTO_256 a c =
     (let (l, f) = SUM_128_128 a (lo c); (h, g) = SUM_128_128 (of_bool f) (hi c) in (u256 h l, g))"

definition SUM_256_256 :: "uint256 \<Rightarrow> uint256 \<Rightarrow> uint256 \<times> bool" where
  "SUM_256_256 a b =
     (let (l, f) = SUM_128_128 (lo a) (lo b);
          (m, g) = SUM_128_128 (of_bool f) (hi a);
          (h, g') = SUM_128_128 m (hi b) in (u256 h l, g \<or> g'))"

text \<open>The flag is the borrow of the low halves.\<close>

definition SUBTRACT_256_256 :: "uint256 \<Rightarrow> uint256 \<Rightarrow> uint256 \<times> bool" where
  "SUBTRACT_256_256 a b =
     (let l = lo a - lo b;
          carry = drop_bit 127 (((l AND lo b) AND 1) + drop_bit 1 (lo b) + drop_bit 1 l) in
      (u256 (hi a - (hi b + carry)) l, carry \<noteq> 0))"

definition ADD_256_INTO_512 :: "uint256 \<Rightarrow> uint512 \<Rightarrow> uint512 \<times> bool" where
  "ADD_256_INTO_512 a c =
     (let (l, f) = SUM_256_256 a (lo256 c); (h, g) = SUM_256_256 (u256 0 (of_bool f)) (hi256 c) in
      (\<lparr>hi256 = h, lo256 = l\<rparr>, g))"

section \<open>Multiplication\<close>

definition MULT_64_128 :: "u64 \<Rightarrow> u64 \<Rightarrow> u128" where
  "MULT_64_128 a b = ucast a * ucast b"

definition ones_64 :: u128 where "ones_64 = 0xffffffffffffffff"

definition MULT_128_256 :: "u128 \<Rightarrow> u128 \<Rightarrow> uint256" where
  "MULT_128_256 a b =
     (let a_hi = a AND ones_64; b_hi = b AND ones_64;
          prod = a_hi * b_hi;
          w3 = prod AND ones_64; shift_right = drop_bit 64 prod;
          a' = drop_bit 64 a;
          prod1 = a' * b_hi + shift_right;
          shift_right1 = prod1 AND ones_64; w1 = ucast (ucast (drop_bit 64 prod1) :: u64);
          b' = drop_bit 64 b;
          prod2 = a_hi * b' + shift_right1;
          shift_right2 = drop_bit 64 prod2 in
      u256 (a' * b' + w1 + shift_right2) (push_bit 64 prod2 + w3))"

definition MULT_128_128 :: "u128 \<Rightarrow> u128 \<Rightarrow> (u128 \<times> bool) res" where
  "MULT_128_128 a b = (if b = 0 then Inl DivByZero else Inr (a * b, - 1 div b < a))"

text \<open>The carries of the three sums are dropped.\<close>

definition MULT_256_512 :: "uint256 \<Rightarrow> uint256 \<Rightarrow> uint512 res" where
  "MULT_256_512 a b =
     (let h = MULT_128_256 (hi a) (hi b); l = MULT_128_256 (lo a) (lo b);
          first = MULT_128_256 (hi a) (lo b); second = MULT_128_256 (lo a) (hi b);
          (cross_product, overflow) = SUM_256_256 first second in
      bindE (LEFT_SHIFT_256 cross_product 128) (\<lambda>shifted.
      let (l', dummy_overflow) = SUM_256_256 l shifted in
      bindE (RIGHT_SHIFT_256 cross_product 128) (\<lambda>shifted'.
      let (h', dummy_overflow') = SUM_256_256 h shifted' in
      Inr \<lparr>hi256 = h', lo256 = l'\<rparr>)))"

definition MULT_256_256 :: "uint256 \<Rightarrow> uint256 \<Rightarrow> (uint256 \<times> bool) res" where
  "MULT_256_256 a b =
     bindE (MULT_256_512 a b) (\<lambda>p. Inr (lo256 p, \<not> EQUAL_256 (hi256 p) uint256_0))"

section \<open>Leading zeros\<close>

definition nlz_step :: "nat \<Rightarrow> u64 \<Rightarrow> nat \<Rightarrow> nat \<Rightarrow> u64 \<times> nat \<Rightarrow> u64 \<times> nat" where
  "nlz_step s ones b r st =
     (let (N, C) = st;
          I = drop_bit s N + ones;
          I' = drop_bit r ((I AND push_bit b 1) XOR push_bit b 1) in
      (push_bit (unat I') N, C + unat I'))"

definition nlz64 :: "u64 \<Rightarrow> nat" where
  "nlz64 N =
     (let I = NOT N;
          C = unat (drop_bit 63 ((I XOR (I + 1)) AND I));
          s1 = nlz_step 32 0xffffffff 32 27 (N, C);
          s2 = nlz_step 48 0xffff 16 12 s1;
          s3 = nlz_step 56 0xff 8 5 s2;
          s4 = nlz_step 60 0xf 4 2 s3;
          (N', C') = nlz_step 62 3 2 1 s4 in
      C' + unat (drop_bit 63 N' XOR 1))"

definition nlz128 :: "u128 \<Rightarrow> nat" where
  "nlz128 N = (if drop_bit 64 N = 0 then nlz64 (ucast N) + 64 else nlz64 (ucast (drop_bit 64 N)))"

definition nlz256 :: "uint256 \<Rightarrow> nat" where
  "nlz256 N = (if EQUAL_128 (hi N) uint128_0 then nlz128 (lo N) + 128 else nlz128 (hi N))"

definition fls256 :: "uint256 \<Rightarrow> int" where
  "fls256 n = (if compare128 (hi n) uint128_0 \<noteq> 0 then 255 - int (nlz128 (hi n)) else 127 - int (nlz128 (lo n)))"

section \<open>Division\<close>

text \<open>The loop runs \<open>shift + 1\<close> times; the state is the dividend, the denominator and the quotient.\<close>

fun divmod_loop :: "nat \<Rightarrow> uint256 \<Rightarrow> uint256 \<Rightarrow> uint256 \<Rightarrow> (uint256 \<times> uint256) res" where
  "divmod_loop 0 dividend denominator quot = Inr (quot, dividend)"
| "divmod_loop (Suc i) dividend denominator quot =
     bindE (LEFT_SHIFT_256 quot 1) (\<lambda>q.
     let ge = 0 \<le> compare256 dividend denominator;
         dividend' = (if ge then fst (SUBTRACT_256_256 dividend denominator) else dividend);
         q' = (if ge then OR_256 q uint256_1 else q) in
     bindE (RIGHT_SHIFT_256 denominator 1) (\<lambda>den. divmod_loop i dividend' den q'))"

definition divmod_impl_256 :: "uint256 \<Rightarrow> uint256 \<Rightarrow> (uint256 \<times> uint256) res" where
  "divmod_impl_256 dividend divisor =
     (if compare256 divisor uint256_0 = 0 then Inl Aborted
      else if compare256 divisor dividend = 1 then Inr (uint256_0, dividend)
      else if compare256 divisor dividend = 0 then Inr (uint256_1, uint256_0)
      else let shift = nat (fls256 dividend - fls256 divisor) in
           bindE (LEFT_SHIFT_256 divisor shift) (\<lambda>den. divmod_loop (shift + 1) dividend den uint256_0))"

definition DIV_128 :: "u128 \<Rightarrow> u128 \<Rightarrow> u128 res" where
  "DIV_128 a b = (if b = 0 then Inl DivByZero else Inr (a div b))"

definition DIV_256 :: "uint256 \<Rightarrow> uint256 \<Rightarrow> uint256 res" where
  "DIV_256 a b = bindE (divmod_impl_256 a b) (\<lambda>(q, r). Inr q)"

section \<open>Fixed-point numbers with 18 decimals\<close>

definition MULT_256_FRAC_FRAC :: "uint256 \<Rightarrow> uint256 \<Rightarrow> (uint256 \<times> bool) res" where
  "MULT_256_FRAC_FRAC a_val a_mult = MULT_256_256 a_val a_mult"

definition MULT_256_COIN :: "uint256 \<Rightarrow> uint256 \<Rightarrow> (uint256 \<times> bool) res" where
  "MULT_256_COIN a_val b_val =
     bindE (MULT_256_256 a_val b_val) (\<lambda>(tmp, overflow).
     bindE (divmod_impl_256 tmp (GET_256_FROM_64 1000000000000000000)) (\<lambda>(tmp, rem).
     let tmp = (if 0 \<le> compare256 rem (GET_256_FROM_64 500000000000000000)
                then fst (SUM_256_256 tmp (GET_256_FROM_64 10)) else tmp) in
     Inr (tmp, overflow)))"

text \<open>
  The loop that scales the dividend up.  Every multiplication by ten doubles the power of two that
  divides the number, so after 256 of them it is 0 and stays so: a loop of more steps never ends.
\<close>

fun scale_loop :: "nat \<Rightarrow> uint256 \<Rightarrow> uint256 \<Rightarrow> nat \<Rightarrow> (uint256 \<times> nat) res" where
  "scale_loop 0 a b counter = Inl Diverges"
| "scale_loop (Suc n) a b counter =
     (if compare256 a b < 0
      then bindE (MULT_256_256 a (GET_256_FROM_64 10)) (\<lambda>(a', _). scale_loop n a' b (counter + 1))
      else Inr (a, counter))"

fun loan_loop :: "nat \<Rightarrow> uint256 \<Rightarrow> uint256 res" where
  "loan_loop 0 loan = Inr loan"
| "loan_loop (Suc counter) loan = bindE (MULT_256_256 loan (GET_256_FROM_64 10)) (\<lambda>(l, _). loan_loop counter l)"

definition DIV_256_COIN :: "uint256 \<Rightarrow> uint256 \<Rightarrow> uint256 res" where
  "DIV_256_COIN a b =
     (if compare256 a uint256_0 = 0 then Inr uint256_0
      else bindE (scale_loop 257 a b 0) (\<lambda>(a_copy, counter).
           bindE (DIV_256 a_copy b) (\<lambda>a1.
           bindE (MULT_256_256 a1 (GET_256_FROM_64 1000000000000000000)) (\<lambda>(a2, _).
           bindE (loan_loop counter (GET_256_FROM_64 1)) (\<lambda>loan. DIV_256 a2 loan)))))"

end
