(* ===== verification/Math256Claims.thy ===== *)
theory Math256Claims
  imports Math256
begin

text \<open>
  The 256-bit operations compute on the numbers their words stand for: \<open>val256\<close> reads a number,
  \<open>of256\<close> writes it, and each operation is shown equal to the operation on natural numbers, modulo
  \<open>2 ^ 256\<close>.  The division is a shift-and-subtract loop whose invariant is that the quotient found so
  far, scaled, plus what the remaining dividend still gives, is the whole quotient.
\<close>

unbundle bit_operations_syntax

section \<open>Numbers and sums\<close>

abbreviation B64 :: nat where "B64 \<equiv> 18446744073709551616"
abbreviation B128 :: nat where "B128 \<equiv> 340282366920938463463374607431768211456"
abbreviation B256 :: nat where "B256 \<equiv> 115792089237316195423570985008687907853269984665640564039457584007913129639936"

definition val256 :: "uint256 \<Rightarrow> nat" where "val256 a = unat (hi a) * B128 + unat (lo a)"

lemma W_pow: "2 ^ 128 = B128" by simp
lemma WW_pow: "2 ^ 256 = B256" by simp

lemma unat_lt_W: "unat (a :: u128) < B128"
  using unsigned_less [of a, where ?'a = nat] by simp

lemma unat_lt_D: "unat (a :: u64) < 18446744073709551616"
  using unsigned_less [of a, where ?'a = nat] by simp

lemma val256_lt: "val256 a < B256"
  using unat_lt_W [of "hi a"] unat_lt_W [of "lo a"] by (simp add: val256_def)

lemma val256_hi: "unat (hi a) = val256 a div B128" and val256_lo: "unat (lo a) = val256 a mod B128"
  using unat_lt_W [of "lo a"] by (simp_all add: val256_def)

lemma val256_inj: "val256 a = val256 b \<longleftrightarrow> a = b"
proof
  assume "val256 a = val256 b"
  then have "unat (hi a) = unat (hi b)" "unat (lo a) = unat (lo b)" by (simp_all only: val256_hi val256_lo)
  then show "a = b" by (simp add: word_unat_eq_iff)
qed simp

lemma val256_consts [simp]:
  "val256 uint256_0 = 0" "val256 uint256_1 = 1" "val256 (GET_256_FROM_128 m) = unat m"
  by (simp_all add: val256_def uint256_0_def uint256_1_def GET_256_FROM_128_def uint128_0_def)

lemma val256_64 [simp]: "val256 (GET_256_FROM_64 n) = unat n"
proof -
  have "unat (ucast n :: u128) = unat n mod 2 ^ 128" by (simp add: unsigned_ucast_eq take_bit_eq_mod)
  also have "\<dots> = unat n" using unat_lt_D [of n] by (intro mod_less) simp
  finally show ?thesis by (simp add: val256_def GET_256_FROM_64_def uint128_0_def GET_128_FROM_64_def)
qed

lemma compare128_eq: "compare128 a b = (if unat b < unat a then 1 else if unat a < unat b then -1 else 0)"
  by (simp add: compare128_def word_less_nat_alt)

lemma compare256_eq: "compare256 a b = (if val256 b < val256 a then 1 else if val256 a < val256 b then -1 else 0)"
  using unat_lt_W [of "lo a"] unat_lt_W [of "lo b"]
  by (auto simp: compare256_def compare128_eq val256_def)

lemma wrap_W: "(x :: nat) < B128 + B128 \<Longrightarrow> x mod B128 = (if x < B128 then x else x - B128)"
  by (cases "x < B128") (simp_all add: le_mod_geq)

lemma unat_add_W: "unat (a + b :: u128) = (if unat a + unat b < B128 then unat a + unat b else unat a + unat b - B128)"
proof -
  have "unat a + unat b < B128 + B128" using unat_lt_W [of a] unat_lt_W [of b] by linarith
  from wrap_W [OF this] show ?thesis by (simp add: unat_word_ariths)
qed

lemma sum128: "SUM_128_128 a b = (a + b, B128 \<le> unat a + unat b)"
  using unat_lt_W [of a] unat_lt_W [of b]
  by (auto simp: SUM_128_128_def word_less_nat_alt unat_add_W split: if_splits)

lemma unat_of_bool_W: "unat (of_bool f :: u128) = of_bool f" by simp

lemma SUM_256_val:
  assumes "SUM_256_256 a b = (c, f)"
  shows "val256 c + (if f then B256 else 0) = val256 a + val256 b"
proof -
  define p where "p = (B128 \<le> unat (lo a) + unat (lo b))"
  define m where "m = (of_bool p :: u128) + hi a"
  have c: "c = u256 (m + hi b) (lo a + lo b)"
    "f = (B128 \<le> unat (of_bool p :: u128) + unat (hi a) \<or> B128 \<le> unat m + unat (hi b))"
    using assms by (simp_all add: SUM_256_256_def sum128 p_def m_def Let_def split: prod.splits)
  have l: "unat (lo a + lo b) + of_bool p * B128 = unat (lo a) + unat (lo b)"
    by (simp add: unat_add_W p_def)
  have m: "unat m = (if of_bool p + unat (hi a) < B128 then of_bool p + unat (hi a) else of_bool p + unat (hi a) - B128)"
    by (simp only: m_def unat_add_W unat_of_bool_W)
  have "unat (m + hi b) + (if f then B128 else 0) = of_bool p + unat (hi a) + unat (hi b)"
    using unat_lt_W [of "hi a"] unat_lt_W [of "hi b"] c(2) unfolding unat_add_W [of m "hi b"] m unat_of_bool_W
    by (auto split: if_splits)
  then show ?thesis using l unfolding c(1) val256_def by (auto split: if_splits)
qed

lemma SUM_256_mod:
  assumes "SUM_256_256 a b = (c, f)"
  shows "val256 c = (val256 a + val256 b) mod B256" "f \<longleftrightarrow> B256 \<le> val256 a + val256 b"
  using SUM_256_val [OF assms] val256_lt [of c]
  by (auto split: if_splits simp flip: SUM_256_val [OF assms])

section \<open>Subtraction\<close>

lemma half_sum: "(x :: nat) div 2 + y div 2 + of_bool (odd x \<and> odd y) = (x + y) div 2"
  by (cases "even x"; cases "even y") (auto elim!: evenE oddE)

lemma unat_and_one: "unat ((l AND b) AND 1 :: u128) = of_bool (odd (unat l) \<and> odd (unat b))"
proof -
  have "unat ((l AND b) AND 1) = ((unat l AND unat b) AND 1)" by (simp only: unsigned_and_eq unsigned_1)
  then show ?thesis by (simp only: and_one_eq mod_2_eq_odd even_and_iff de_Morgan_disj not_not)
qed

lemma unat_shr: "unat (drop_bit n a :: u128) = unat a div 2 ^ n"
  by (subst unat_drop_bit_eq) (rule drop_bit_eq_div)

lemma unat_shr1: "unat (drop_bit 1 a :: u128) = unat a div 2"
  by (simp only: unat_shr power_one_right)

lemma borrow_word:
  fixes l b :: u128
  shows "unat (drop_bit 127 (((l AND b) AND 1) + drop_bit 1 b + drop_bit 1 l)) = (unat l + unat b) div B128"
proof -
  let ?o = "of_bool (odd (unat l) \<and> odd (unat b)) :: nat"
  have h: "?o + unat b div 2 + unat l div 2 = (unat l + unat b) div 2"
    using half_sum [of "unat l" "unat b"] by linarith
  have lt: "(unat l + unat b) div 2 < B128" using unat_lt_W [of l] unat_lt_W [of b] by linarith
  have "unat (((l AND b) AND 1) + drop_bit 1 b) = ?o + unat b div 2"
    using lt h by (subst unat_add_small) (simp_all only: unat_and_one unat_shr1 W_pow len_num1, auto)
  then have "unat (((l AND b) AND 1) + drop_bit 1 b + drop_bit 1 l) = (unat l + unat b) div 2"
    using lt h by (subst unat_add_small) (simp_all only: unat_shr1 h, simp_all)
  then show ?thesis
    by (simp only: unat_shr div_mult2_eq [symmetric]) simp
qed

lemma unat_sub_W: "unat (a - b :: u128) = (if unat b \<le> unat a then unat a - unat b else unat a + B128 - unat b)"
  using unat_lt_W [of a] unat_lt_W [of b] by (simp add: unat_sub_if_size word_size)

lemma SUB_256_val:
  assumes "SUBTRACT_256_256 a b = (c, f)"
  shows "f \<longleftrightarrow> unat (lo a) < unat (lo b)"
    and "val256 c = (if val256 b \<le> val256 a then val256 a - val256 b else val256 a + B256 - val256 b)"
proof -
  define l where "l = lo a - lo b"
  define k where "k = drop_bit 127 (((l AND lo b) AND 1) + drop_bit 1 (lo b) + drop_bit 1 l)"
  have c: "c = u256 (hi a - (hi b + k)) l" "f = (k \<noteq> 0)"
    using assms by (simp_all add: SUBTRACT_256_256_def Let_def l_def k_def)
  have l: "unat l = (if unat (lo b) \<le> unat (lo a) then unat (lo a) - unat (lo b) else unat (lo a) + B128 - unat (lo b))"
    by (simp only: l_def unat_sub_W)
  have k: "unat k = of_bool (unat (lo a) < unat (lo b))"
    using unat_lt_W [of "lo a"] unat_lt_W [of "lo b"] by (simp only: k_def borrow_word l) (auto simp: div_eq_0_iff le_div_geq)
  show "f \<longleftrightarrow> unat (lo a) < unat (lo b)" unfolding c(2) using k by (metis of_bool_eq_0_iff unat_eq_zero)
  have "unat (hi a - (hi b + k)) = (if unat (hi b) + unat k \<le> unat (hi a) then unat (hi a) - (unat (hi b) + unat k)
       else unat (hi a) + B128 - (unat (hi b) + unat k))"
    using unat_lt_W [of "hi a"] unat_lt_W [of "hi b"] k unfolding unat_sub_W unat_add_W by auto
  then show "val256 c = (if val256 b \<le> val256 a then val256 a - val256 b else val256 a + B256 - val256 b)"
    using unat_lt_W [of "hi a"] unat_lt_W [of "hi b"] unat_lt_W [of "lo a"] unat_lt_W [of "lo b"] l k
    by (auto simp: c(1) val256_def split: if_splits)
qed

section \<open>Shifts\<close>

lemma unat_shl: "unat (push_bit n a :: u128) = unat a * 2 ^ n mod B128"
  by (subst unsigned_push_bit_eq) (simp_all add: take_bit_eq_mod push_bit_eq_mult)

lemma or_low: "y < 2 ^ n \<Longrightarrow> (m * 2 ^ n OR y) = m * 2 ^ n + (y :: nat)"
  using or_disjoint_nat [of y n "m * 2 ^ n"] by (simp add: take_bit_eq_mod or.commute add.commute)

lemma pair_lt_WW: "x < B128 \<Longrightarrow> r < B128 \<Longrightarrow> x * B128 + r < B256"
  by linarith

lemma u256_eta [simp]: "u256 (hi a) (lo a) = a"
  by simp

lemma unat_or_128: "unat (OR_128 a b) = (unat a OR unat b)"
  by (simp add: OR_128_def unsigned_or_eq)

text \<open>A shift by less than 128 bits, at the level of numbers.\<close>

lemma split_pow: "n \<le> 128 \<Longrightarrow> B128 = 2 ^ n * 2 ^ (128 - n)"
  by (simp only: W_pow [symmetric] power_add [symmetric]) simp

lemma left_halves:
  fixes h l :: nat
  assumes "n < 128" "h < B128" "l < B128"
  shows "((h * 2 ^ n mod B128) OR l div 2 ^ (128 - n)) * B128 + l * 2 ^ n mod B128 = (h * B128 + l) * 2 ^ n mod B256"
proof -
  let ?c = "l div 2 ^ (128 - n)" and ?r = "l * 2 ^ n mod B128"
  define m where "m = h mod 2 ^ (128 - n)"
  have B128: "B128 = 2 ^ (128 - n) * 2 ^ n" using split_pow [of n] assms by (simp add: mult.commute)
  have h: "h * 2 ^ n mod B128 = m * 2 ^ n" unfolding m_def by (subst B128) (simp only: mult_mod_left)
  have c: "?c < 2 ^ n" using assms(3) B128 by (metis less_mult_imp_div_less mult.commute)
  have o: "((m * 2 ^ n) OR ?c) = m * 2 ^ n + ?c" using c by (rule or_low)
  have "m * 2 ^ n + ?c < (m + 1) * 2 ^ n" using c by simp
  also have "\<dots> \<le> B128" by (subst B128, rule mult_le_mono1) (simp add: m_def Suc_leI)
  finally have mc: "m * 2 ^ n + ?c < B128" .
  have "l * 2 ^ n div B128 = ?c" by (subst B128) simp
  then have l: "l * 2 ^ n = ?c * B128 + ?r" using div_mult_mod_eq [of "l * 2 ^ n" B128] by simp
  have hq: "h * 2 ^ n = h * 2 ^ n div B128 * B128 + m * 2 ^ n" using div_mult_mod_eq [of "h * 2 ^ n" B128] h by simp
  have "(h * B128 + l) * 2 ^ n = h * 2 ^ n * B128 + l * 2 ^ n" by (simp only: algebra_simps)
  also have "\<dots> = (h * 2 ^ n div B128) * B256 + ((m * 2 ^ n + ?c) * B128 + ?r)"
    by (subst hq, subst l) (simp add: algebra_simps)
  finally have "(h * B128 + l) * 2 ^ n mod B256 = ((m * 2 ^ n + ?c) * B128 + ?r) mod B256" by (simp only: mod_mult_self3)
  also have "\<dots> = (m * 2 ^ n + ?c) * B128 + ?r"
  proof (rule mod_less)
    have "?r < B128" by (rule mod_less_divisor) simp
    with mc show "(m * 2 ^ n + ?c) * B128 + ?r < B256" by (rule pair_lt_WW)
  qed
  finally show ?thesis by (simp only: h o)
qed

lemma right_halves:
  fixes h l :: nat
  assumes "n < 128" "h < B128" "l < B128"
  shows "h div 2 ^ n * B128 + (l div 2 ^ n OR (h * 2 ^ (128 - n) mod B128)) = (h * B128 + l) div 2 ^ n"
proof -
  have B128: "B128 = 2 ^ n * 2 ^ (128 - n)" using split_pow [of n] assms by simp
  have B128': "h div 2 ^ n * B128 = h div 2 ^ n * (2 ^ n * 2 ^ (128 - n))" by (subst B128) (rule refl)
  have m: "h * 2 ^ (128 - n) mod B128 = (h mod 2 ^ n) * 2 ^ (128 - n)" by (subst B128) (simp only: mult_mod_left)
  have "l div 2 ^ n < 2 ^ (128 - n)" using assms(3) B128 by (metis less_mult_imp_div_less mult.commute)
  then have o: "(l div 2 ^ n OR (h mod 2 ^ n) * 2 ^ (128 - n)) = (h mod 2 ^ n) * 2 ^ (128 - n) + l div 2 ^ n"
    by (subst or.commute) (rule or_low)
  have e: "h * B128 + l = (h * 2 ^ (128 - n)) * 2 ^ n + l" by (subst B128) (simp only: ac_simps)
  have "(h * B128 + l) div 2 ^ n = h * 2 ^ (128 - n) + l div 2 ^ n" unfolding e by simp
  also have "\<dots> = (h div 2 ^ n * 2 ^ n + h mod 2 ^ n) * 2 ^ (128 - n) + l div 2 ^ n"
    by (simp only: div_mult_mod_eq)
  also have "\<dots> = h div 2 ^ n * B128 + ((h mod 2 ^ n) * 2 ^ (128 - n) + l div 2 ^ n)"
    unfolding B128' by (simp only: algebra_simps)
  finally show ?thesis by (simp only: m o)
qed

lemma shl_ok: "n < 128 \<Longrightarrow> LEFT_SHIFT_128 a n = Inr (push_bit n a)"
  and shr_ok: "n < 128 \<Longrightarrow> RIGHT_SHIFT_128 a n = Inr (drop_bit n a)"
  by (simp_all add: LEFT_SHIFT_128_def RIGHT_SHIFT_128_def)

lemma left_shift_small:
  assumes "n < 128"
  shows "\<exists>c. LEFT_SHIFT_256 a n = Inr c \<and> val256 c = val256 a * 2 ^ n mod B256"
proof (cases "n = 0")
  case True
  then show ?thesis using val256_lt [of a] by (subst LEFT_SHIFT_256.simps) simp
next
  case False
  with assms have "128 - n < 128" by simp
  note k = shl_ok [OF this] shr_ok [OF this] shl_ok [OF assms] shr_ok [OF assms]
  from False assms show ?thesis
    using left_halves [OF assms unat_lt_W unat_lt_W, of "hi a" "lo a"]
    by (subst LEFT_SHIFT_256.simps)
      (simp add: k val256_def unat_or_128 unat_shl unat_shr)
qed

lemma left_shift:
  assumes "n \<le> 256"
  shows "\<exists>c. LEFT_SHIFT_256 a n = Inr c \<and> val256 c = val256 a * 2 ^ n mod B256"
proof (cases "n < 128")
  case True then show ?thesis by (rule left_shift_small)
next
  case False
  define k where "k = n - 128"
  then have n: "n = 128 + k" "k \<le> 128" using False assms by simp_all
  let ?a = "u256 (lo a) uint128_0"
  have a: "val256 ?a = unat (lo a) * B128" by (simp add: val256_def uint128_0_def)
  have s: "LEFT_SHIFT_256 a n = LEFT_SHIFT_256 ?a k"
    using n by (subst LEFT_SHIFT_256.simps) simp
  have t: "\<exists>c. LEFT_SHIFT_256 ?a k = Inr c \<and> val256 c = val256 ?a * 2 ^ k mod B256"
  proof (cases "k = 128")
    case True
    have z: "unat uint128_0 = 0" by (simp add: uint128_0_def)
    have "LEFT_SHIFT_256 ?a k = Inr (u256 0 0)"
      using True by (subst LEFT_SHIFT_256.simps, simp, subst LEFT_SHIFT_256.simps)
        (simp add: uint128_0_def)
    then show ?thesis using True by (simp add: a val256_def z)
  qed (use n left_shift_small [of k ?a] in simp)
  have "val256 a * 2 ^ n = unat (hi a) * 2 ^ k * B256 + val256 ?a * 2 ^ k"
    by (simp add: a n power_add algebra_simps) (simp add: val256_def algebra_simps)
  then have "val256 a * 2 ^ n mod B256 = val256 ?a * 2 ^ k mod B256" by (simp only: mod_mult_self3)
  with s t show ?thesis by simp
qed

lemma right_shift_small:
  assumes "n < 128"
  shows "\<exists>c. RIGHT_SHIFT_256 a n = Inr c \<and> val256 c = val256 a div 2 ^ n"
proof (cases "n = 0")
  case True
  then show ?thesis by (subst RIGHT_SHIFT_256.simps) simp
next
  case False
  with assms have "128 - n < 128" by simp
  note k = shl_ok [OF this] shr_ok [OF this] shl_ok [OF assms] shr_ok [OF assms]
  from False assms show ?thesis
    using right_halves [OF assms unat_lt_W unat_lt_W, of "hi a" "lo a"]
    by (subst RIGHT_SHIFT_256.simps)
      (simp add: k val256_def unat_or_128 unat_shl unat_shr)
qed

lemma right_shift_128: "\<exists>c. RIGHT_SHIFT_256 a 128 = Inr c \<and> val256 c = unat (hi a)"
  by (subst RIGHT_SHIFT_256.simps, simp, subst RIGHT_SHIFT_256.simps) (simp add: val256_def uint128_0_def)

section \<open>Leading zeros\<close>

lemma and_single: "x AND push_bit b 1 = (if bit x b then push_bit b 1 else (0 :: u64))"
  by (rule bit_word_eqI) (auto simp: bit_simps)

lemma unat_single: "b < 64 \<Longrightarrow> unat (push_bit b 1 :: u64) = 2 ^ b"
proof -
  assume "b < 64"
  then have "(2 :: nat) ^ b < 2 ^ 64" by (intro power_strict_increasing) simp_all
  then show ?thesis by (subst unsigned_push_bit_eq) (simp_all add: take_bit_eq_mod push_bit_eq_mult)
qed

lemma unat_shr64: "unat (drop_bit n a :: u64) = unat a div 2 ^ n"
  by (subst unat_drop_bit_eq) (rule drop_bit_eq_div)

lemma bit_unat64: "b < 64 \<Longrightarrow> bit (x :: u64) b \<longleftrightarrow> odd (unat x div 2 ^ b)"
proof -
  assume b: "b < 64"
  have "bit (unat x) b = bit x b" using b by (simp add: bit_unsigned_iff)
  then show ?thesis by (simp only: bit_iff_odd [of "unat x"])
qed

lemma nlz_step:
  assumes s: "s + b = 64" "b \<le> 32" and o: "unat ones = 2 ^ b - 1" and r: "r \<le> b" "2 ^ (b - r) = b"
  shows "nlz_step s ones b r (N, C) = (if unat N < 2 ^ s then (push_bit b N, C + b) else (N, C))"
proof -
  let ?t = "drop_bit s N" and ?I = "drop_bit s N + ones"
  have p: "(2 :: nat) ^ b * 2 ^ s = 2 ^ 64" using s by (simp flip: power_add add: add.commute)
  have t: "unat ?t = unat N div 2 ^ s" by (rule unat_shr64)
  have "unat N < 2 ^ b * 2 ^ s" unfolding p using unat_lt_D [of N] by simp
  then have lt: "unat ?t < 2 ^ b" unfolding t by (rule less_mult_imp_div_less)
  have b2: "(2 :: nat) ^ b \<le> 2 ^ 32" using s by (intro power_increasing) simp_all
  have I: "unat ?I = unat ?t + (2 ^ b - 1)"
    unfolding o [symmetric] using lt b2 o by (intro unat_add_small) simp
  have "unat ?I div 2 ^ b = (if unat ?t = 0 then 0 else 1)"
    unfolding I using lt by (auto simp: div_eq_0_iff div_nat_eqI)
  then have bit: "bit ?I b \<longleftrightarrow> unat ?t \<noteq> 0"
    using s by (simp add: bit_unat64)
  have z: "unat ?t = 0 \<longleftrightarrow> unat N < 2 ^ s" unfolding t by (simp add: div_eq_0_iff)
  have x: "(?I AND push_bit b 1) XOR push_bit b 1 = (if unat N < 2 ^ s then push_bit b 1 else 0)"
    unfolding and_single bit z by (cases "unat N < 2 ^ s") (simp_all only: if_True if_False not_True_eq_False not_False_eq_True xor_self_eq xor.left_neutral)
  have "unat (drop_bit r (push_bit b 1 :: u64)) = 2 ^ b div 2 ^ r"
    using s by (simp only: unat_shr64) (subst unat_single, simp_all)
  also have "\<dots> = b" using r by (simp add: power_diff)
  finally have d: "unat (drop_bit r (push_bit b 1 :: u64)) = b" .
  show ?thesis
    unfolding nlz_step_def prod.case Let_def x using d by (cases "unat N < 2 ^ s") simp_all
qed

definition nlz_inv :: "u64 \<Rightarrow> nat \<Rightarrow> u64 \<times> nat \<Rightarrow> bool" where
  "nlz_inv N0 l st = (unat (fst st) = unat N0 * 2 ^ snd st \<and> 2 ^ l \<le> unat (fst st))"

lemma nlz_step_inv:
  assumes "s + b = 64" "b \<le> 32" "unat ones = 2 ^ b - 1" "r \<le> b" "2 ^ (b - r) = b" "l + b = s"
    and i: "nlz_inv N0 l st"
  shows "nlz_inv N0 s (nlz_step s ones b r st)"
proof (cases st)
  case (Pair N C)
  show ?thesis
  proof (cases "unat N < 2 ^ s")
    case True
    have "unat N * 2 ^ b < 2 ^ s * 2 ^ b" using True by simp
    also have "\<dots> = 2 ^ 64" using assms(1) by (simp flip: power_add)
    finally have "unat (push_bit b N) = unat N * 2 ^ b"
      using assms(2) by (subst unsigned_push_bit_eq) (simp_all add: take_bit_eq_mod push_bit_eq_mult)
    moreover have "(2 :: nat) ^ s = 2 ^ l * 2 ^ b" using assms(6) by (simp flip: power_add)
    ultimately show ?thesis
      using True i assms(1-5) by (simp add: Pair nlz_inv_def nlz_step power_add)
  qed (use i assms(1-5) in \<open>simp add: Pair nlz_inv_def nlz_step\<close>)
qed

lemma nlz64_start: "N \<noteq> 0 \<Longrightarrow> drop_bit 63 ((NOT N XOR (NOT N + 1)) AND NOT N) = (0 :: u64)"
proof -
  assume N: "N \<noteq> 0"
  let ?I = "NOT N"
  have "NOT N \<noteq> - 1" using N by (metis bit.compl_zero bit.double_compl)
  then have "unat ?I \<noteq> unat (- 1 :: u64)" by (simp only: word_unat_eq_iff not_False_eq_True)
  moreover have "unat (- 1 :: u64) = 18446744073709551615" by (simp add: unsigned_minus_1_eq_mask mask_eq_exp_minus_1)
  ultimately have "unat ?I \<noteq> 18446744073709551615" by (simp only: not_False_eq_True)
  then have lt: "unat ?I + 1 < 18446744073709551616" using unat_lt_D [of ?I] by linarith
  have I: "unat (?I + 1) = unat ?I + 1" by (subst unat_add_64) (use lt in simp_all)
  have one: "unat x div 2 ^ 63 = (if 9223372036854775808 \<le> unat x then 1 else 0)" for x :: u64
    using unat_lt_D [of x] by (auto simp: div_eq_0_iff div_nat_eqI)
  have b: "bit x 63 \<longleftrightarrow> 9223372036854775808 \<le> unat x" for x :: u64
    using one [of x] by (simp add: bit_unat64)
  have n: "\<not> bit ((?I XOR (?I + 1)) AND ?I) 63" unfolding bit_and_iff bit_xor_iff unfolding b I by auto
  have "unat (drop_bit 63 ((?I XOR (?I + 1)) AND ?I)) = 0" using n by (simp only: unat_shr64 one b if_False)
  then show ?thesis by (simp only: unat_eq_zero)
qed

lemma nlz64_spec:
  assumes "N \<noteq> 0"
  shows "nlz64 N < 64 \<and> 2 ^ (63 - nlz64 N) \<le> unat N \<and> unat N < 2 ^ (64 - nlz64 N)"
proof -
  let ?s1 = "nlz_step 32 0xffffffff 32 27 (N, 0)"
  let ?s2 = "nlz_step 48 0xffff 16 12 ?s1"
  let ?s3 = "nlz_step 56 0xff 8 5 ?s2"
  let ?s4 = "nlz_step 60 0xf 4 2 ?s3"
  let ?s5 = "nlz_step 62 3 2 1 ?s4"
  have "nlz_inv N 0 (N, 0)" using assms by (simp add: nlz_inv_def) (metis One_nat_def Suc_leI unat_eq_zero neq0_conv)
  then have "nlz_inv N 32 ?s1" by (rule nlz_step_inv [rotated -1]) simp_all
  then have "nlz_inv N 48 ?s2" by (rule nlz_step_inv [rotated -1]) simp_all
  then have "nlz_inv N 56 ?s3" by (rule nlz_step_inv [rotated -1]) simp_all
  then have "nlz_inv N 60 ?s4" by (rule nlz_step_inv [rotated -1]) simp_all
  then have i: "nlz_inv N 62 ?s5" by (rule nlz_step_inv [rotated -1]) simp_all
  obtain M C where s5: "?s5 = (M, C)" by (cases ?s5)
  have n: "nlz64 N = C + unat (drop_bit 63 M XOR 1)"
    unfolding nlz64_def Let_def nlz64_start [OF assms] unat_0 s5 prod.case by (rule refl)
  have M: "unat M = unat N * 2 ^ C" "4611686018427387904 \<le> unat M" using i s5 by (simp_all add: nlz_inv_def)
  define E where "E = unat (drop_bit 63 M XOR 1)"
  have d: "unat (drop_bit 63 M) = (if 9223372036854775808 \<le> unat M then 1 else 0)"
    using unat_lt_D [of M] by (subst unat_shr64) (auto simp: div_eq_0_iff div_nat_eqI)
  have E: "E = (if 9223372036854775808 \<le> unat M then 0 else 1)"
  proof (cases "9223372036854775808 \<le> unat M")
    case True
    then have "drop_bit 63 M = 1" using d by (simp only: word_unat_eq_iff if_True unat_1)
    then show ?thesis using True by (simp add: E_def)
  next
    case False
    then have "drop_bit 63 M = 0" using d by (simp only: word_unat_eq_iff if_False unat_0)
    then show ?thesis using False by (simp add: E_def)
  qed
  have b: "2 ^ 63 \<le> unat N * 2 ^ (C + E)" "unat N * 2 ^ (C + E) < 2 ^ 64"
    using M unat_lt_D [of M] by (auto simp: E power_add)
  then have "2 ^ (C + E) < (2 :: nat) ^ 64"
    using assms by (metis One_nat_def le_less_trans mult.commute mult_le_mono1 nat_mult_1 Suc_leI unat_eq_zero neq0_conv)
  then have ce: "C + E < 64" by (rule power_less_imp_less_exp [rotated]) simp
  have "(2 :: nat) ^ (63 - (C + E)) * 2 ^ (C + E) = 2 ^ 63" "(2 :: nat) ^ (64 - (C + E)) * 2 ^ (C + E) = 2 ^ 64"
    using ce by (simp_all flip: power_add)
  with b have "(2 :: nat) ^ (63 - (C + E)) * 2 ^ (C + E) \<le> unat N * 2 ^ (C + E)"
    "unat N * 2 ^ (C + E) < (2 :: nat) ^ (64 - (C + E)) * 2 ^ (C + E)" by (simp_all only:)
  then show ?thesis using ce unfolding n E_def [symmetric] by simp
qed

lemma ucast_down: "unat x < 18446744073709551616 \<Longrightarrow> unat (ucast (x :: u128) :: u64) = unat x"
  by (simp add: unsigned_ucast_eq take_bit_eq_mod)

lemma ucast_up: "unat (ucast (x :: u64) :: u128) = unat x"
  using unat_lt_D [of x] by (simp only: unsigned_ucast_eq take_bit_eq_mod) simp

lemma nlz128_spec:
  assumes "N \<noteq> 0"
  shows "nlz128 N < 128 \<and> 2 ^ (127 - nlz128 N) \<le> unat N \<and> unat N < 2 ^ (128 - nlz128 N)"
proof -
  let ?h = "drop_bit 64 N"
  have h: "unat ?h = unat N div 18446744073709551616" by (subst unat_shr) simp
  have hl: "unat ?h < 18446744073709551616" unfolding h using unat_lt_W [of N] by (simp add: less_mult_imp_div_less)
  show ?thesis
  proof (cases "?h = 0")
    case True
    then have "unat N < 18446744073709551616" using h by (simp add: div_eq_0_iff)
    note u = ucast_down [OF this]
    then have "ucast N \<noteq> (0 :: u64)" using assms by (metis unat_eq_zero)
    note s = nlz64_spec [OF this]
    have n: "nlz128 N = nlz64 (ucast N) + 64" using True by (simp add: nlz128_def)
    then show ?thesis using s u by simp
  next
    case False
    note u = ucast_down [OF hl]
    have "ucast ?h \<noteq> (0 :: u64)" using False u by (metis unat_eq_zero)
    note s = nlz64_spec [OF this]
    define C where "C = nlz64 (ucast ?h)"
    have n: "nlz128 N = C" using False by (simp add: nlz128_def C_def)
    have c: "C < 64" "2 ^ (63 - C) \<le> unat ?h" "unat ?h + 1 \<le> 2 ^ (64 - C)" using s u by (simp_all add: C_def)
    have p: "(2 :: nat) ^ (127 - C) = 2 ^ (63 - C) * 18446744073709551616" "(2 :: nat) ^ (128 - C) = 2 ^ (64 - C) * 18446744073709551616"
      using c(1) power_add [of "2 :: nat" "63 - C" 64] power_add [of "2 :: nat" "64 - C" 64] by simp_all
    have d: "unat ?h * 18446744073709551616 \<le> unat N" "unat N < (unat ?h + 1) * 18446744073709551616"
      unfolding h by simp_all
    have "2 ^ (127 - C) \<le> unat N" unfolding p using c(2) d(1) by (meson le_trans mult_le_mono1)
    moreover have "unat N < 2 ^ (128 - C)" unfolding p using c(3) d(2) by (meson less_le_trans mult_le_mono1)
    ultimately show ?thesis using n c(1) by simp
  qed
qed

lemma fls256_spec:
  assumes "val256 n \<noteq> 0"
  shows "0 \<le> fls256 n \<and> fls256 n < 256 \<and> 2 ^ nat (fls256 n) \<le> val256 n \<and> val256 n < 2 ^ (nat (fls256 n) + 1)"
proof (cases "hi n = 0")
  case True
  then have "lo n \<noteq> 0" using assms by (auto simp: val256_def)
  note s = nlz128_spec [OF this]
  have f: "fls256 n = int (127 - nlz128 (lo n))" "val256 n = unat (lo n)"
    using True s by (simp_all add: fls256_def compare128_eq uint128_0_def val256_def of_nat_diff)
  have "nlz128 (lo n) < 128" using s by blast
  then have e: "127 - nlz128 (lo n) + 1 = 128 - nlz128 (lo n)" by linarith
  show ?thesis using s unfolding f nat_int e by simp
next
  case False
  note s = nlz128_spec [OF this]
  define C where "C = nlz128 (hi n)"
  have c: "C < 128" "2 ^ (127 - C) \<le> unat (hi n)" "unat (hi n) + 1 \<le> 2 ^ (128 - C)" using s by (simp_all add: C_def)
  have nz: "unat (hi n) \<noteq> 0" using False by (metis unat_eq_zero)
  have f: "fls256 n = int (255 - C)"
    using nz c by (simp add: fls256_def compare128_eq uint128_0_def C_def of_nat_diff)
  have p: "(2 :: nat) ^ (255 - C) = 2 ^ (127 - C) * B128" "(2 :: nat) ^ (255 - C + 1) = 2 ^ (128 - C) * B128"
  proof -
    have "255 - C = 127 - C + 128" "255 - C + 1 = 128 - C + 128" using c(1) by linarith+
    then show "(2 :: nat) ^ (255 - C) = 2 ^ (127 - C) * B128" "(2 :: nat) ^ (255 - C + 1) = 2 ^ (128 - C) * B128"
      by (simp_all only: power_add W_pow)
  qed
  have d: "unat (hi n) * B128 \<le> val256 n" "val256 n < (unat (hi n) + 1) * B128"
    using unat_lt_W [of "lo n"] by (simp_all add: val256_def)
  have "2 ^ (255 - C) \<le> val256 n" unfolding p using c(2) d(1) by (meson le_trans mult_le_mono1)
  moreover have "val256 n < 2 ^ (255 - C + 1)" unfolding p using c(3) d(2) by (meson less_le_trans mult_le_mono1)
  ultimately show ?thesis unfolding f by simp
qed

section \<open>Division\<close>

lemma or_256_one: "even (val256 q) \<Longrightarrow> val256 (OR_256 q uint256_1) = val256 q + 1"
proof -
  assume e: "even (val256 q)"
  then have "even (unat (lo q))" by (simp add: val256_def)
  moreover have "unat (OR_128 (lo q) 1) = (unat (lo q) OR 1)" "OR_128 (hi q) 0 = hi q"
    by (simp_all only: unat_or_128 unsigned_1) (simp add: OR_128_def)
  ultimately show ?thesis
    by (simp add: OR_256_def uint256_1_def val256_def or_Suc_0_eq)
qed

lemma divmod_loop_spec:
  assumes "0 < d" "val256 D < d * 2 ^ k" "val256 q * 2 ^ k + val256 D div d < B256"
    "k \<noteq> 0 \<Longrightarrow> val256 den = d * 2 ^ (k - 1)"
  shows "\<exists>q' r. divmod_loop k D den q = Inr (q', r) \<and> val256 q' = val256 q * 2 ^ k + val256 D div d \<and> val256 r = val256 D mod d"
  using assms
proof (induction k arbitrary: D den q)
  case 0
  then show ?case by simp
next
  case (Suc k)
  have den: "val256 den = d * 2 ^ k" using Suc.prems(4) by simp
  have "val256 q * 2 \<le> val256 q * 2 ^ Suc k" by simp
  then have q2: "val256 q * 2 < B256" using Suc.prems(3) by linarith
  obtain p where p: "LEFT_SHIFT_256 q 1 = Inr p" "val256 p = val256 q * 2"
    using left_shift_small [of 1 q] q2 by auto
  obtain h where h: "RIGHT_SHIFT_256 den 1 = Inr h" "val256 h = d * 2 ^ k div 2"
    using right_shift_small [of 1 den] den by auto
  have hk: "k \<noteq> 0 \<Longrightarrow> val256 h = d * 2 ^ (k - 1)"
    unfolding h by (cases k) simp_all
  show ?case
  proof (cases "d * 2 ^ k \<le> val256 D")
    case True
    obtain E b where E: "SUBTRACT_256_256 D den = (E, b)" by (cases "SUBTRACT_256_256 D den")
    have e: "val256 E = val256 D - d * 2 ^ k" using SUB_256_val(2) [OF E] True den by simp
    have q': "val256 (OR_256 p uint256_1) = val256 q * 2 + 1" using or_256_one [of p] p by simp
    have "val256 D = val256 E + d * 2 ^ k" using e True by simp
    then have D: "val256 D div d = val256 E div d + 2 ^ k" "val256 D mod d = val256 E mod d"
      using Suc.prems(1) by (simp_all add: add.commute)
    have s: "val256 (OR_256 p uint256_1) * 2 ^ k + val256 E div d = val256 q * 2 ^ Suc k + val256 D div d"
      by (simp add: q' D algebra_simps)
    have "\<exists>q' r. divmod_loop k E h (OR_256 p uint256_1) = Inr (q', r) \<and>
        val256 q' = val256 (OR_256 p uint256_1) * 2 ^ k + val256 E div d \<and> val256 r = val256 E mod d"
    proof (rule Suc.IH [OF Suc.prems(1) _ _ hk])
      show "val256 E < d * 2 ^ k" using e Suc.prems(2) by simp
      show "val256 (OR_256 p uint256_1) * 2 ^ k + val256 E div d < B256" using s Suc.prems(3) by simp
    qed
    moreover have "divmod_loop (Suc k) D den q = divmod_loop k E h (OR_256 p uint256_1)"
      using True by (simp add: p(1) [simplified] h(1) [simplified] compare256_eq den E Let_def)
    ultimately show ?thesis unfolding s D(2) by simp
  next
    case False
    have s: "val256 p * 2 ^ k = val256 q * 2 ^ Suc k" by (simp add: p(2))
    have "\<exists>q' r. divmod_loop k D h p = Inr (q', r) \<and>
        val256 q' = val256 p * 2 ^ k + val256 D div d \<and> val256 r = val256 D mod d"
      using False Suc.prems(3) by (intro Suc.IH [OF Suc.prems(1) _ _ hk]) (simp_all add: s)
    moreover have "divmod_loop (Suc k) D den q = divmod_loop k D h p"
      using False by (simp add: p(1) [simplified] h(1) [simplified] compare256_eq den Let_def)
    ultimately show ?thesis unfolding s by simp
  qed
qed

lemma divmod_256:
  assumes "val256 b \<noteq> 0"
  shows "\<exists>q r. divmod_impl_256 a b = Inr (q, r) \<and> val256 q = val256 a div val256 b \<and> val256 r = val256 a mod val256 b"
proof -
  consider "val256 a < val256 b" | "val256 a = val256 b" | "val256 b < val256 a" by linarith
  then show ?thesis
  proof cases
    case 3
    let ?ea = "nat (fls256 a)" and ?eb = "nat (fls256 b)"
    define k where "k = ?ea - ?eb"
    have a: "0 \<le> fls256 a" "fls256 a < 256" "val256 a < 2 ^ (?ea + 1)" using fls256_spec [of a] 3 by simp_all
    have b: "0 \<le> fls256 b" "2 ^ ?eb \<le> val256 b" "val256 b < 2 ^ (?eb + 1)" using fls256_spec [of b] assms by simp_all
    have "(2 :: nat) ^ ?eb < 2 ^ (?ea + 1)" using b(2) 3 a(3) by linarith
    then have "?eb < ?ea + 1" by (rule power_less_imp_less_exp [rotated]) simp
    then have e: "?ea = ?eb + k" by (simp add: k_def)
    have k: "nat (fls256 a - fls256 b) = k" using a(1) b(1) by (simp add: k_def nat_diff_distrib)
    have k2: "k \<le> 256" using a(2) by (simp add: k_def)
    have "val256 b * 2 ^ k < 2 ^ (?eb + 1) * 2 ^ k" using b(3) by simp
    also have "\<dots> = 2 ^ (?ea + 1)" unfolding e by (simp flip: power_add add: ac_simps)
    also have "\<dots> \<le> 2 ^ 256" using a(2) by (intro power_increasing) simp_all
    finally have bk: "val256 b * 2 ^ k < B256" by simp
    obtain den where den: "LEFT_SHIFT_256 b k = Inr den" "val256 den = val256 b * 2 ^ k"
      using left_shift [OF k2, of b] bk by auto
    have "val256 a < 2 ^ ?eb * 2 ^ (k + 1)" using a(3) unfolding e by (simp flip: power_add add: ac_simps)
    also have "\<dots> \<le> val256 b * 2 ^ (k + 1)" using b(2) by (rule mult_le_mono1)
    finally have ab: "val256 a < val256 b * 2 ^ (k + 1)" .
    have "val256 a div val256 b < B256" using val256_lt [of a] div_le_dividend le_less_trans by blast
    then have "\<exists>q' r. divmod_loop (k + 1) a den uint256_0 = Inr (q', r) \<and>
        val256 q' = val256 uint256_0 * 2 ^ (k + 1) + val256 a div val256 b \<and> val256 r = val256 a mod val256 b"
      using assms ab den(2) by (intro divmod_loop_spec) simp_all
    then show ?thesis
      using 3 assms by (simp add: divmod_impl_256_def compare256_eq k den(1) Let_def del: divmod_loop.simps)
  qed (use assms in \<open>simp_all add: divmod_impl_256_def compare256_eq\<close>)
qed

section \<open>Multiplication\<close>

definition of256 :: "nat \<Rightarrow> uint256" where
  "of256 n = u256 (word_of_nat (n div B128)) (word_of_nat n)"

lemma val_of256: "val256 (of256 n) = n mod B256"
proof -
  have "n mod B256 = B128 * (n div B128 mod B128) + n mod B128" using mod_mult2_eq [of n B128 B128] by simp
  then show ?thesis by (simp add: of256_def val256_def unat_of_nat mult.commute)
qed

lemma of256_eqI: "val256 c = n mod B256 \<Longrightarrow> c = of256 n"
  by (simp flip: val256_inj add: val_of256)

lemma mult_bound: "x < B64 \<Longrightarrow> y < B64 \<Longrightarrow> z < B64 \<Longrightarrow> x * y + z < B128" for x y z :: nat
proof -
  assume a: "x < B64" "y < B64" "z < B64"
  then have "x * y \<le> (B64 - 1) * (B64 - 1)" by (intro mult_le_mono) linarith+
  then show ?thesis using a(3) by simp
qed

lemma unat_mult_128: "unat a * unat b < B128 \<Longrightarrow> unat (a * b :: u128) = unat a * unat b"
  by (simp add: unat_word_ariths)

lemma unat_low64: "unat (a AND ones_64) = unat a mod B64"
  using take_bit_eq_mask [of 64 "unat a"]
  by (simp add: unsigned_and_eq ones_64_def mask_eq_exp_minus_1 take_bit_eq_mod)

lemma pair_high: "x * B128 + y = z \<Longrightarrow> z < B256 \<Longrightarrow> x < B128" for x y z :: nat
  by linarith

lemma carry_over:
  fixes t q r x y p :: nat
  assumes "t = q * B64 + r"
  shows "x * B128 + (y * B64 + t) * B64 + p = (x + y + q) * B128 + (r * B64 + p)"
  by (simp add: assms algebra_simps)

lemma cross_identity:
  fixes ah al bh bl :: nat
  assumes "p0 = al * bl" "t1 = ah * bl + p0 div B64" "t2 = al * bh + t1 mod B64"
  shows "(ah * bh + t1 div B64 + t2 div B64) * B128 + (t2 mod B64 * B64 + p0 mod B64) = (ah * B64 + al) * (bh * B64 + bl)"
proof -
  have p: "p0 = p0 div B64 * B64 + p0 mod B64" "t1 = t1 div B64 * B64 + t1 mod B64" "t2 = t2 div B64 * B64 + t2 mod B64" by simp_all
  have "(ah * B64 + al) * (bh * B64 + bl) = ah * bh * B128 + (ah * bl + al * bh) * B64 + p0"
    by (simp add: assms(1) algebra_simps)
  also have "\<dots> = ah * bh * B128 + (t1 + al * bh) * B64 + p0 mod B64"
    using p(1) by (simp add: assms(2) algebra_simps)
  also have "\<dots> = ah * bh * B128 + (t1 div B64 * B64 + t2) * B64 + p0 mod B64"
    using p(2) by (simp add: assms(3) algebra_simps)
  also have "\<dots> = (ah * bh + t1 div B64 + t2 div B64) * B128 + (t2 mod B64 * B64 + p0 mod B64)"
    using p(3) by (rule carry_over)
  finally show ?thesis by simp
qed

lemma mult_128_256: "val256 (MULT_128_256 a b) = unat a * unat b"
proof -
  define ah al bh bl where "ah = unat a div B64" and "al = unat a mod B64" and "bh = unat b div B64" and "bl = unat b mod B64"
  have lt: "ah < B64" "al < B64" "bh < B64" "bl < B64"
    using unat_lt_W [of a] unat_lt_W [of b]
    by (simp_all add: ah_def al_def bh_def bl_def less_mult_imp_div_less)
  define prod where "prod = (a AND ones_64) * (b AND ones_64)"
  have low: "unat (a AND ones_64) = al" "unat (b AND ones_64) = bl" by (simp_all add: unat_low64 al_def bl_def)
  have high: "unat (drop_bit 64 a) = ah" "unat (drop_bit 64 b) = bh" by (subst unat_shr, simp add: ah_def bh_def)+
  have p0: "unat prod = al * bl"
    unfolding prod_def using mult_bound [OF lt(2,4), of 0] by (subst unat_mult_128) (simp_all add: low)
  have p0D: "al * bl div B64 < B64" using mult_bound [OF lt(2,4), of 0] by (simp add: less_mult_imp_div_less)
  define prod1 where "prod1 = drop_bit 64 a * (b AND ones_64) + drop_bit 64 prod"
  define t1 where "t1 = ah * bl + al * bl div B64"
  have t1: "t1 < B128" unfolding t1_def by (rule mult_bound [OF lt(1,4) p0D])
  have p1: "unat prod1 = t1"
  proof -
    have m: "unat (drop_bit 64 a * (b AND ones_64)) = ah * bl"
      using mult_bound [OF lt(1,4), of 0] by (subst unat_mult_128) (simp_all add: low high)
    have s: "unat (drop_bit 64 prod) = al * bl div B64" by (subst unat_shr) (simp add: p0)
    show ?thesis unfolding prod1_def
      by (subst unat_add_W) (use t1 in \<open>simp add: m s t1_def\<close>)
  qed
  have t1D: "t1 div B64 < B64" using t1 by (simp add: less_mult_imp_div_less)
  define prod2 where "prod2 = (a AND ones_64) * drop_bit 64 b + (prod1 AND ones_64)"
  define t2 where "t2 = al * bh + t1 mod B64"
  have t2: "t2 < B128" unfolding t2_def by (rule mult_bound [OF lt(2,3)]) simp
  have p2: "unat prod2 = t2"
  proof -
    have m: "unat ((a AND ones_64) * drop_bit 64 b) = al * bh"
      using mult_bound [OF lt(2,3), of 0] by (subst unat_mult_128) (simp_all add: low high)
    show ?thesis unfolding prod2_def
      by (subst unat_add_W) (use t2 in \<open>simp add: m unat_low64 p1 t2_def\<close>)
  qed
  have t2D: "t2 div B64 < B64" using t2 by (simp add: less_mult_imp_div_less)
  define w1 :: u128 where "w1 = ucast (ucast (drop_bit 64 prod1) :: u64)"
  have w1: "unat w1 = t1 div B64"
  proof -
    have "unat (drop_bit 64 prod1) = t1 div B64" by (subst unat_shr) (simp add: p1)
    with t1D show ?thesis unfolding w1_def by (simp only: ucast_down ucast_up)
  qed
  let ?hi = "drop_bit 64 a * drop_bit 64 b + w1 + drop_bit 64 prod2"
  have ident: "(ah * bh + t1 div B64 + t2 div B64) * B128 + (t2 mod B64 * B64 + al * bl mod B64) = unat a * unat b"
    using cross_identity [OF refl t1_def t2_def] by (simp add: ah_def al_def bh_def bl_def)
  have "unat a * unat b < B128 * B128"
    using unat_lt_W [of a] unat_lt_W [of b] by (intro mult_strict_mono) simp_all
  then have hilt: "ah * bh + t1 div B64 + t2 div B64 < B128" using ident by (intro pair_high) simp_all
  have hi: "unat ?hi = ah * bh + t1 div B64 + t2 div B64"
  proof -
    have m: "unat (drop_bit 64 a * drop_bit 64 b) = ah * bh"
      using mult_bound [OF lt(1,3), of 0] by (subst unat_mult_128) (simp_all add: high)
    have s: "unat (drop_bit 64 prod2) = t2 div B64" by (subst unat_shr) (simp add: p2)
    have "unat (drop_bit 64 a * drop_bit 64 b + w1) = ah * bh + t1 div B64"
      by (subst unat_add_W) (use hilt in \<open>simp add: m w1\<close>)
    then show ?thesis by (subst unat_add_W) (use hilt in \<open>simp add: s\<close>)
  qed
  have lo: "unat (push_bit 64 prod2 + (prod AND ones_64)) = t2 mod B64 * B64 + al * bl mod B64"
  proof -
    have m: "unat (push_bit 64 prod2) = t2 mod B64 * B64"
      by (subst unat_shl) (use mult_mod_left [of t2 B64 B64] in \<open>simp add: p2\<close>)
    have "t2 mod B64 < B64" "al * bl mod B64 < B64" by simp_all
    then have "t2 mod B64 * B64 + al * bl mod B64 < B128" by linarith
    then show ?thesis by (subst unat_add_W) (simp add: m unat_low64 p0)
  qed
  have "MULT_128_256 a b = u256 ?hi (push_bit 64 prod2 + (prod AND ones_64))"
    by (simp only: MULT_128_256_def Let_def prod_def prod1_def prod2_def w1_def)
  then show ?thesis using ident by (simp only: val256_def uint256.select_convs hi lo)
qed

lemma mult_256_512:
  defines "X a b \<equiv> unat (hi a) * unat (lo b) + unat (lo a) * unat (hi b)"
  shows "\<exists>p. MULT_256_512 a b = Inr p \<and> val256 (lo256 p) = val256 a * val256 b mod B256 \<and>
    val256 (hi256 p) = unat (hi a) * unat (hi b) + X a b mod B256 div B128"
proof -
  let ?h = "MULT_128_256 (hi a) (hi b)" and ?l = "MULT_128_256 (lo a) (lo b)"
  obtain c f where c: "SUM_256_256 (MULT_128_256 (hi a) (lo b)) (MULT_128_256 (lo a) (hi b)) = (c, f)" by fastforce
  have cv: "val256 c = X a b mod B256" using SUM_256_mod(1) [OF c] by (simp only: mult_128_256 X_def)
  obtain s where s: "LEFT_SHIFT_256 c 128 = Inr s" "val256 s = val256 c * B128 mod B256"
    using left_shift [of 128 c] by (auto simp: W_pow)
  obtain t where t: "RIGHT_SHIFT_256 c 128 = Inr t" "val256 t = X a b mod B256 div B128"
    using right_shift_128 [of c] cv by (auto simp: val256_hi)
  obtain l f1 where l: "SUM_256_256 ?l s = (l, f1)" by fastforce
  obtain h f2 where h: "SUM_256_256 ?h t = (h, f2)" by fastforce
  have p: "MULT_256_512 a b = Inr \<lparr>hi256 = h, lo256 = l\<rparr>"
    by (simp add: MULT_256_512_def Let_def c s(1) t(1) l h)
  have "val256 l = (unat (lo a) * unat (lo b) + X a b mod B256 * B128 mod B256) mod B256"
    using SUM_256_mod(1) [OF l] by (simp only: mult_128_256 s(2) cv)
  also have "\<dots> = (unat (lo a) * unat (lo b) + X a b * B128) mod B256"
    by (simp only: mod_mult_left_eq mod_add_right_eq)
  also have "\<dots> = val256 a * val256 b mod B256"
  proof -
    have "val256 a * val256 b = unat (hi a) * unat (hi b) * B256 + (unat (lo a) * unat (lo b) + X a b * B128)"
      by (simp add: val256_def X_def algebra_simps)
    then show ?thesis by (simp only: mod_mult_self3)
  qed
  finally have lv: "val256 l = val256 a * val256 b mod B256" .
  have "unat (hi a) * unat (hi b) \<le> (B128 - 1) * (B128 - 1)"
    using unat_lt_W [of "hi a"] unat_lt_W [of "hi b"] by (intro mult_le_mono) linarith+
  moreover have "X a b mod B256 div B128 < B128" by (simp add: less_mult_imp_div_less)
  ultimately have "unat (hi a) * unat (hi b) + X a b mod B256 div B128 < B256" by simp
  then have "val256 h = unat (hi a) * unat (hi b) + X a b mod B256 div B128"
    using SUM_256_mod(1) [OF h] by (simp add: mult_128_256 t(2))
  with p lv show ?thesis by simp
qed

text \<open>The multiplication drops a carry into the upper half: the flag misses some overflows.\<close>

lemma mult_256_256:
  defines "X a b \<equiv> unat (hi a) * unat (lo b) + unat (lo a) * unat (hi b)"
  shows "MULT_256_256 a b =
    Inr (of256 (val256 a * val256 b), unat (hi a) * unat (hi b) \<noteq> 0 \<or> B128 \<le> X a b)"
proof -
  obtain p where p: "MULT_256_512 a b = Inr p" "val256 (lo256 p) = val256 a * val256 b mod B256"
    "val256 (hi256 p) = unat (hi a) * unat (hi b) + X a b mod B256 div B128"
    using mult_256_512 [of a b] unfolding X_def by blast
  have "EQUAL_256 x y \<longleftrightarrow> x = y" for x y by (simp only: EQUAL_256_def) auto
  then have "EQUAL_256 (hi256 p) uint256_0 \<longleftrightarrow> val256 (hi256 p) = 0"
    by (simp flip: val256_inj)
  moreover have "X a b < B256" if "unat (hi a) * unat (hi b) = 0"
  proof -
    have "x * y < B256" if "x < B128" "y < B128" for x y
      using mult_strict_mono [of x B128 y B128] that by simp
    then show ?thesis using that unat_lt_W by (auto simp: X_def)
  qed
  ultimately have "\<not> EQUAL_256 (hi256 p) uint256_0 \<longleftrightarrow> unat (hi a) * unat (hi b) \<noteq> 0 \<or> B128 \<le> X a b"
    unfolding p(3) by (auto simp: div_eq_0_iff)
  with p(1) of256_eqI [OF p(2)] show ?thesis by (simp add: MULT_256_256_def)
qed

section \<open>Fixed-point numbers\<close>

lemma scale_step:
  assumes "val256 a < val256 b"
  shows "scale_loop (Suc n) a b c = scale_loop n (of256 (val256 a * 10)) b (c + 1)"
  using assms by (simp add: compare256_eq mult_256_256)

lemma scale_done: "val256 b \<le> val256 a \<Longrightarrow> scale_loop (Suc n) a b c = Inr (a, c)"
  by (simp add: compare256_eq)

lemma scale_zero: "val256 a = 0 \<Longrightarrow> val256 b \<noteq> 0 \<Longrightarrow> scale_loop n a b c = Inl Diverges"
proof (induction n arbitrary: a c)
  case (Suc n)
  have "scale_loop (Suc n) a b c = scale_loop n (of256 (val256 a * 10)) b (c + 1)"
    using Suc.prems by (intro scale_step) simp
  then show ?case using Suc.IH Suc.prems by (simp add: val_of256)
qed simp

lemma scale_fuel:
  assumes "2 ^ j dvd val256 a" "j \<le> 256"
  shows "scale_loop (Suc (256 - j) + m) a b c = scale_loop (Suc (256 - j)) a b c"
  using assms
proof (induction "256 - j" arbitrary: j a c)
  case 0
  then have "val256 a = 0" using dvd_imp_le [of B256 "val256 a"] val256_lt [of a] by auto
  then show ?case
    using 0
    by (cases "val256 b = 0") (simp_all add: scale_zero scale_done del: scale_loop.simps)
next
  case (Suc k)
  show ?case
  proof (cases "val256 a < val256 b")
    case True
    let ?a = "of256 (val256 a * 10)"
    have k: "256 - j = Suc (256 - Suc j)" using Suc.hyps(2) by simp
    have "2 ^ j * 2 dvd val256 a * 10" using Suc.prems(1) by (intro mult_dvd_mono) simp_all
    moreover have "(2 :: nat) ^ Suc j dvd 2 ^ 256" using Suc.hyps(2) by (intro le_imp_power_dvd) simp
    ultimately have "2 ^ Suc j dvd val256 ?a" by (simp add: val_of256 dvd_mod mult.commute)
    then have "scale_loop (Suc (256 - Suc j) + m) ?a b (c + 1) = scale_loop (Suc (256 - Suc j)) ?a b (c + 1)"
      using Suc.hyps by (intro Suc.hyps(1)) simp_all
    then show ?thesis using True unfolding k add_Suc by (simp only: scale_step add_Suc)
  qed (simp add: scale_done not_less del: scale_loop.simps)
qed


lemma scale_enough: "257 \<le> n \<Longrightarrow> scale_loop n a b c = scale_loop 257 a b c"
  using scale_fuel [of 0 a "n - 257" b c] by (simp del: scale_loop.simps)

lemma div_lt_WW: "val256 a div n < B256" and mod_lt_WW: "val256 a mod n < B256"
  using div_le_dividend [of "val256 a" n] mod_less_eq_dividend [of "val256 a" n] val256_lt [of a] by linarith+

lemma DIV_256_spec: "val256 b \<noteq> 0 \<Longrightarrow> DIV_256 a b = Inr (of256 (val256 a div val256 b))"
proof -
  assume b: "val256 b \<noteq> 0"
  obtain q r where "divmod_impl_256 a b = Inr (q, r)" "val256 q = val256 a div val256 b"
    using divmod_256 [OF b, of a] by blast
  then show ?thesis by (simp add: DIV_256_def of256_eqI div_lt_WW)
qed

lemma coin_mult:
  defines "P a b \<equiv> val256 a * val256 b mod B256"
  shows "MULT_256_COIN a b = Inr
    (of256 (P a b div 10 ^ 18 + (if 5 * 10 ^ 17 \<le> P a b mod 10 ^ 18 then 10 else 0)), snd (projr (MULT_256_256 a b)))"
proof -
  obtain q r where d: "divmod_impl_256 (of256 (val256 a * val256 b)) (GET_256_FROM_64 1000000000000000000) = Inr (q, r)"
    "val256 q = P a b div 1000000000000000000" "val256 r = P a b mod 1000000000000000000"
    using divmod_256 [of "GET_256_FROM_64 1000000000000000000" "of256 (val256 a * val256 b)"]
    by (auto simp: val_of256 P_def)
  obtain s f where s: "SUM_256_256 q (GET_256_FROM_64 10) = (s, f)" by fastforce
  have "s = of256 (val256 q + 10)" using SUM_256_mod(1) [OF s] by (intro of256_eqI) simp
  moreover have "q = of256 (val256 q)" using val256_lt [of q] by (intro of256_eqI) simp
  ultimately show ?thesis
    by (simp add: MULT_256_COIN_def mult_256_256 d(1) compare256_eq d(3) s flip: d(2))
qed

lemma coin_div_whole:
  assumes "val256 b \<noteq> 0" "val256 b \<le> val256 a"
  shows "DIV_256_COIN a b = Inr (of256 (val256 a div val256 b * 10 ^ 18))"
proof -
  have one: "DIV_256 (of256 n) (GET_256_FROM_64 1) = Inr (of256 n)" for n
    by (subst DIV_256_spec) (simp_all add: val_of256, simp add: val_of256 flip: val256_inj)
  have v: "val256 (of256 (val256 a div val256 b)) = val256 a div val256 b"
    by (simp add: val_of256 div_lt_WW)
  have "scale_loop 257 a b 0 = Inr (a, 0)" using scale_done [OF assms(2), of 256 0] by simp
  then show ?thesis
    using assms by (simp add: DIV_256_COIN_def compare256_eq DIV_256_spec mult_256_256 v one del: scale_loop.simps)
qed

lemma scale_never:
  assumes "val256 b = B256 - 1" "val256 a < val256 b"
  shows "scale_loop n a b c = Inl Diverges"
  using assms(2)
proof (induction n arbitrary: a c)
  case (Suc n)
  let ?a = "of256 (val256 a * 10)"
  have "even (val256 ?a)" by (simp add: val_of256 dvd_mod)
  moreover have "odd (val256 b)" by (simp add: assms(1))
  ultimately have "val256 ?a \<noteq> val256 b" by metis
  then have "val256 ?a < val256 b" using val256_lt [of ?a] assms(1) by linarith
  then show ?case using Suc.IH [of ?a "c + 1"] by (simp only: scale_step [OF Suc.prems])
qed simp

text \<open>
  The fixed-point division scales a dividend smaller than the divisor up by ten, modulo \<open>2 ^ 256\<close>,
  until it reaches the divisor.  For the divisor \<open>2 ^ 256 - 1\<close> it never does, for any number of steps.
\<close>

theorem coin_div_diverges:
  assumes "val256 b = 2 ^ 256 - 1" "0 < val256 a" "val256 a < val256 b"
  shows "scale_loop n a b 0 = Inl Diverges \<and> DIV_256_COIN a b = Inl Diverges"
  using scale_never [of b a] assms by (simp add: DIV_256_COIN_def compare256_eq del: scale_loop.simps)

lemma val256_ones: "val256 (u256 (- 1) (- 1)) = 2 ^ 256 - 1"
  by (simp add: val256_def unsigned_minus_1_eq_mask mask_eq_exp_minus_1)

theorem coin_div_diverges_witness:
  "DIV_256_COIN (GET_256_FROM_64 1) (u256 (- 1) (- 1)) = Inl Diverges"
  using coin_div_diverges [of "u256 (- 1) (- 1)" "GET_256_FROM_64 1"]
  by (simp add: val256_ones)

text \<open>
  C31: The shift-and-subtract division of two 256-bit numbers returns exactly the quotient and the
  remainder of the numbers they stand for, and fails its assertion exactly for a zero divisor.
\<close>

theorem divmod_256_correct:
  "divmod_impl_256 a b =
    (if val256 b = 0 then Inl Aborted else Inr (of256 (val256 a div val256 b), of256 (val256 a mod val256 b)))"
proof (cases "val256 b = 0")
  case False
  then obtain q r where "divmod_impl_256 a b = Inr (q, r)" "val256 q = val256 a div val256 b" "val256 r = val256 a mod val256 b"
    using divmod_256 [of b a] by blast
  then show ?thesis using False by (simp add: of256_eqI div_lt_WW mod_lt_WW)
qed (simp add: divmod_impl_256_def compare256_eq)

lemma carry_in: "r < B128 \<Longrightarrow> B256 \<le> x * B128 + (q * B128 + r) \<longleftrightarrow> B128 \<le> x + q" for x q r :: nat
  by linarith

text \<open>
  C37: The 256-bit product is the product modulo \<open>2 ^ 256\<close>.  The overflow flag is set when both high
  halves are nonzero or the sum of the cross products reaches \<open>2 ^ 128\<close>; the product really overflows
  also when only the carry of the product of the low halves reaches it, so the flag misses that case.
\<close>

theorem mult_256_product:
  "MULT_256_256 a b =
     Inr (of256 (val256 a * val256 b),
       0 < unat (hi a) * unat (hi b) \<or> 2 ^ 128 \<le> unat (hi a) * unat (lo b) + unat (lo a) * unat (hi b)) \<and>
   (2 ^ 256 \<le> val256 a * val256 b \<longleftrightarrow>
      0 < unat (hi a) * unat (hi b) \<or>
      2 ^ 128 \<le> unat (hi a) * unat (lo b) + unat (lo a) * unat (hi b) + unat (lo a) * unat (lo b) div 2 ^ 128)"
proof -
  define h p c where "h = unat (hi a) * unat (hi b)" and "p = unat (lo a) * unat (lo b)"
    and "c = unat (hi a) * unat (lo b) + unat (lo a) * unat (hi b)"
  have v: "val256 a * val256 b = (h * B128 + c) * B128 + p"
    by (simp add: val256_def h_def p_def c_def algebra_simps)
  have "(h * B128 + c) * B128 + p = (h * B128 + c) * B128 + (p div B128 * B128 + p mod B128)" by simp
  then have "B256 \<le> (h * B128 + c) * B128 + p \<longleftrightarrow> B128 \<le> h * B128 + c + p div B128"
    using carry_in [of "p mod B128" "h * B128 + c" "p div B128"] by simp
  also have "\<dots> \<longleftrightarrow> h \<noteq> 0 \<or> B128 \<le> c + p div B128" by (cases h) auto
  finally have "B256 \<le> val256 a * val256 b \<longleftrightarrow> h \<noteq> 0 \<or> B128 \<le> c + p div B128" unfolding v .
  then show ?thesis
    by (simp add: mult_256_256 h_def p_def c_def flip: neq0_conv)
qed

end
