(* ===== verification/Stream.thy ===== *)
theory Stream
  imports Bytes CString
begin

text \<open>
  The stream protocol of the SDK: \<open>net/stream/stream\<close> (\<open>dap_stream.c\<close>, \<open>dap_stream_pkt.c\<close>),
  \<open>net/stream/ch\<close> (channels, their processors, channel packets), \<open>net/stream/session\<close>, and the output
  buffer of \<open>io/dap_events_socket.c\<close>.  A stream cuts the bytes of a connection into packets, deciphers
  them with the key of its session, puts fragments together and hands channel packets to the
  processor of the channel.  The state is that of one stream with the objects it reaches: its socket,
  the table of sessions, its channels (by address) and the channels of its worker.  The ciphers of
  the key and the callbacks of the processors are functions in the state, as in the C code.
\<close>

definition DAP_STREAM_PKT_FRAGMENT_SIZE :: nat where "DAP_STREAM_PKT_FRAGMENT_SIZE = 64 * 1024"
definition DAP_STREAM_PKT_SIZE_MAX :: nat where "DAP_STREAM_PKT_SIZE_MAX = 2 * 1024 * 1024"
definition DAP_EVENTS_SOCKET_BUF_LIMIT :: nat where "DAP_EVENTS_SOCKET_BUF_LIMIT = DAP_STREAM_PKT_SIZE_MAX * 4"
definition STREAM_BUF_SIZE_MAX :: nat where "STREAM_BUF_SIZE_MAX = DAP_STREAM_PKT_SIZE_MAX * 4"
definition DAP_STREAM_PKT_ENCRYPTION_OVERHEAD :: nat where "DAP_STREAM_PKT_ENCRYPTION_OVERHEAD = 200"

definition STREAM_PKT_TYPE_DATA_PACKET :: byte where "STREAM_PKT_TYPE_DATA_PACKET = 0x00"
definition STREAM_PKT_TYPE_FRAGMENT_PACKET :: byte where "STREAM_PKT_TYPE_FRAGMENT_PACKET = 0x01"
definition STREAM_PKT_TYPE_SERVICE_PACKET :: byte where "STREAM_PKT_TYPE_SERVICE_PACKET = 0xff"
definition STREAM_PKT_TYPE_KEEPALIVE :: byte where "STREAM_PKT_TYPE_KEEPALIVE = 0x11"
definition STREAM_PKT_TYPE_ALIVE :: byte where "STREAM_PKT_TYPE_ALIVE = 0x12"

section \<open>Sockets\<close>

text \<open>The flags, the input buffer and the output buffer with its capacity; memory is granted.\<close>

record dap_events_socket =
  signal_close :: bool
  ready_to_write :: bool
  ready_to_read :: bool
  buf_in :: "byte list"
  buf_out :: "byte list"
  buf_out_size_max :: nat

definition dap_events_socket_set_writable_unsafe :: "dap_events_socket \<Rightarrow> bool \<Rightarrow> dap_events_socket" where
  "dap_events_socket_set_writable_unsafe es is_ready = es\<lparr>ready_to_write := is_ready\<rparr>"

definition dap_events_socket_set_readable_unsafe :: "dap_events_socket \<Rightarrow> bool \<Rightarrow> dap_events_socket" where
  "dap_events_socket_set_readable_unsafe es is_ready = es\<lparr>ready_to_read := is_ready\<rparr>"

definition dap_events_socket_write_unsafe :: "dap_events_socket \<Rightarrow> byte list \<Rightarrow> dap_events_socket \<times> nat" where
  "dap_events_socket_write_unsafe es data =
     (let grow = buf_out_size_max es < length (buf_out es) + length data in
      if signal_close es then (es, 0)
      else if grow \<and> DAP_EVENTS_SOCKET_BUF_LIMIT < buf_out_size_max es + length data then (es, 0)
      else let new_max = (if grow then min (buf_out_size_max es * 2) DAP_EVENTS_SOCKET_BUF_LIMIT else buf_out_size_max es);
               n = (if length (buf_out es) + length data < new_max then length data
                    else new_max - length (buf_out es)) in
           (dap_events_socket_set_writable_unsafe
              (es\<lparr>buf_out := buf_out es @ take n data, buf_out_size_max := new_max\<rparr>) True, n))"

definition dap_events_socket_shrink_buf_in :: "dap_events_socket \<Rightarrow> nat \<Rightarrow> dap_events_socket" where
  "dap_events_socket_shrink_buf_in es shrink_size = es\<lparr>buf_in := drop shrink_size (buf_in es)\<rparr>"

section \<open>Keys and sessions\<close>

text \<open>
  The ciphers of a key take the input and the size of the output buffer and return what they write.
\<close>

record dap_enc_key =
  enc_na :: "(byte list \<Rightarrow> nat \<Rightarrow> byte list) option"
  dec_na :: "(byte list \<Rightarrow> nat \<Rightarrow> byte list) option"

text \<open>\<open>dap_enc_code\<close> for raw output.\<close>

definition dap_enc_code :: "dap_enc_key option \<Rightarrow> byte list \<Rightarrow> nat \<Rightarrow> byte list" where
  "dap_enc_code key input out_size_max =
     (case key of None \<Rightarrow> []
      | Some k \<Rightarrow> (case enc_na k of None \<Rightarrow> [] | Some f \<Rightarrow> f input out_size_max))"

record dap_stream_session =
  create_empty :: bool
  media_id :: u32
  open_preview :: bool
  opened :: int
  ses_key :: "dap_enc_key option"
  ses_enc_type :: byte
  active_channels :: "byte list"

type_synonym sessions = "u32 \<Rightarrow> dap_stream_session option"

text \<open>The identifiers drawn at random are given; when all are in use, drawing goes on for ever.\<close>

fun dap_stream_session_pure_new :: "sessions \<Rightarrow> u32 list \<Rightarrow> (sessions \<times> u32) res" where
  "dap_stream_session_pure_new ss [] = Inl Diverges"
| "dap_stream_session_pure_new ss (i # draws) =
     (if ss i = None
      then Inr (ss(i \<mapsto> \<lparr>create_empty = True, media_id = 0, open_preview = False, opened = 0, ses_key = None,
                  ses_enc_type = 1, active_channels = replicate 16 0\<rparr>), i)
      else dap_stream_session_pure_new ss draws)"

definition dap_stream_session_new :: "sessions \<Rightarrow> u32 list \<Rightarrow> u32 \<Rightarrow> bool \<Rightarrow> (sessions \<times> u32) res" where
  "dap_stream_session_new ss draws media preview =
     bindE (dap_stream_session_pure_new ss draws) (\<lambda>(ss', i).
     Inr (ss'(i := map_option (\<lambda>s. s\<lparr>media_id := media, open_preview := preview, create_empty := False\<rparr>) (ss' i)), i))"

definition dap_stream_session_id_mt :: "sessions \<Rightarrow> u32 \<Rightarrow> dap_stream_session option" where
  "dap_stream_session_id_mt ss i = ss i"

definition dap_stream_session_close_mt :: "sessions \<Rightarrow> u32 \<Rightarrow> sessions \<times> int" where
  "dap_stream_session_close_mt ss i = (if ss i = None then (ss, -1) else (ss(i := None), 0))"

definition dap_stream_session_open :: "dap_stream_session \<Rightarrow> dap_stream_session \<times> int" where
  "dap_stream_session_open s = (if opened s = 0 then s\<lparr>opened := 1\<rparr> else s, opened s)"

section \<open>Streams and channels\<close>

record dap_stream_ch_pkt_hdr =
  hdr_id :: byte
  hdr_enc_type :: byte
  hdr_type :: byte
  hdr_seq_id :: u64
  hdr_size :: u32

definition ch_hdr_bytes :: "dap_stream_ch_pkt_hdr \<Rightarrow> byte list" where
  "ch_hdr_bytes h = [hdr_id h, hdr_enc_type h, hdr_type h, 0] @ le_bytes 8 (unat (hdr_seq_id h)) @ le_bytes 4 (unat (hdr_size h))"

definition ch_hdr_of :: "byte list \<Rightarrow> dap_stream_ch_pkt_hdr" where
  "ch_hdr_of bs = \<lparr>hdr_id = bs ! 0, hdr_enc_type = bs ! 1, hdr_type = bs ! 2,
     hdr_seq_id = word_of_nat (le_val (chunk bs 4 8)), hdr_size = word_of_nat (le_val (chunk bs 12 4))\<rparr>"

definition CH_HDR_SIZE :: nat where "CH_HDR_SIZE = 16"

record dap_stream_ch =
  ch_proc :: byte
  ch_ready_to_write :: bool
  ch_ready_to_read :: bool
  ch_uuid :: u64
  bytes_write :: u64
  bytes_read :: u64

datatype http_state = HTTP_NONE | HTTP_START | HTTP_HEADERS | HTTP_DATA

record dap_http_client =
  in_query_string :: cstr
  reply_status_code :: nat
  state_read :: http_state
  state_write :: http_state
  out_content_ready :: bool

text \<open>
  A session is reached through its identifier, a channel through its address.  A byte of a block of
  fragments is \<open>None\<close> while nothing has been written to it.  \<open>delivered\<close> is the list of what the
  processors were given; the keep-alive timer counts its resets.
\<close>

record dap_stream =
  esocket :: dap_events_socket
  conn_http :: "dap_http_client option"
  stream_session :: "u32 option"
  stream_sessions :: sessions
  is_active :: bool
  pkt_buf_in :: "byte list option"
  buf_fragments :: "byte option list option"
  buf_fragments_size_total :: nat
  buf_fragments_size_filled :: nat
  pkt_cache :: "byte list"
  channel :: "ptr list"
  channel_count :: nat
  chs :: "ptr \<Rightarrow> dap_stream_ch option"
  next_ch :: ptr
  worker_channels :: "(u64 \<times> ptr) list"
  seq_id :: u64
  client_last_seq_id_packet :: u64
  keepalive_timer :: "nat option"
  delivered :: "(byte \<times> dap_stream_ch_pkt_hdr \<times> byte option list) list"

definition CHANNELS_MAX :: nat where "CHANNELS_MAX = 255"

text \<open>A stream of zeros with its socket; what a new HTTP, UDP or client stream sets.\<close>

definition stream_0 :: "dap_events_socket \<Rightarrow> sessions \<Rightarrow> dap_stream" where
  "stream_0 es ss = \<lparr>esocket = es, conn_http = None, stream_session = None, stream_sessions = ss, is_active = False,
     pkt_buf_in = None, buf_fragments = None, buf_fragments_size_total = 0, buf_fragments_size_filled = 0,
     pkt_cache = replicate STREAM_BUF_SIZE_MAX 0, channel = replicate CHANNELS_MAX 0, channel_count = 0, chs = (\<lambda>_. None),
     next_ch = 1, worker_channels = [], seq_id = 0, client_last_seq_id_packet = 0, keepalive_timer = None, delivered = []\<rparr>"

definition stream_new_udp :: "dap_events_socket \<Rightarrow> sessions \<Rightarrow> dap_stream" where
  "stream_new_udp es ss = stream_0 es ss"

definition s_stream_new :: "dap_http_client \<Rightarrow> dap_events_socket \<Rightarrow> sessions \<Rightarrow> dap_stream" where
  "s_stream_new http es ss =
     (stream_0 es ss)\<lparr>conn_http := Some http, client_last_seq_id_packet := - 1, keepalive_timer := Some 0\<rparr>"

definition dap_stream_new_es_client :: "dap_events_socket \<Rightarrow> sessions \<Rightarrow> dap_stream" where
  "dap_stream_new_es_client es ss = stream_0 es ss"

record stream_ch_proc =
  proc_id :: byte
  proc_enc_type :: byte
  new_callback :: "(ptr \<Rightarrow> dap_stream \<Rightarrow> dap_stream) option"
  delete_callback :: "(ptr \<Rightarrow> dap_stream \<Rightarrow> dap_stream) option"
  packet_in_callback :: "(ptr \<Rightarrow> dap_stream_ch_pkt_hdr \<Rightarrow> byte option list \<Rightarrow> dap_stream \<Rightarrow> dap_stream) option"
  packet_out_callback :: "(ptr \<Rightarrow> dap_stream \<Rightarrow> dap_stream) option"

type_synonym procs = "byte \<Rightarrow> stream_ch_proc"

definition s_proc_0 :: procs where
  "s_proc_0 = (\<lambda>_. \<lparr>proc_id = 0, proc_enc_type = 0, new_callback = None, delete_callback = None,
     packet_in_callback = None, packet_out_callback = None\<rparr>)"

definition dap_stream_ch_proc_add where
  "dap_stream_ch_proc_add s_proc i new_cb delete_cb in_cb out_cb =
     (s_proc :: procs)(i := (s_proc i)\<lparr>proc_id := i, new_callback := new_cb, delete_callback := delete_cb,
       packet_in_callback := in_cb, packet_out_callback := out_cb\<rparr>)"

definition dap_stream_ch_proc_find :: "procs \<Rightarrow> byte \<Rightarrow> stream_ch_proc" where
  "dap_stream_ch_proc_find s_proc i = s_proc i"

definition get_ch :: "dap_stream \<Rightarrow> ptr \<Rightarrow> dap_stream_ch res" where
  "get_ch st p = (if p = 0 then Inl NullDeref else case chs st p of None \<Rightarrow> Inl BadFree | Some c \<Rightarrow> Inr c)"

definition set_ch :: "dap_stream \<Rightarrow> ptr \<Rightarrow> dap_stream_ch \<Rightarrow> dap_stream" where
  "set_ch st p c = st\<lparr>chs := (chs st)(p \<mapsto> c)\<rparr>"

text \<open>The channel's identifier \<open>uuid\<close> is drawn by the caller of the model.\<close>

definition dap_stream_ch_new :: "procs \<Rightarrow> (ptr \<Rightarrow> u64) \<Rightarrow> dap_stream \<Rightarrow> byte \<Rightarrow> (dap_stream \<times> ptr) res" where
  "dap_stream_ch_new P uuid st i =
     (let p = next_ch st;
          c = \<lparr>ch_proc = i, ch_ready_to_write = False, ch_ready_to_read = True, ch_uuid = uuid p,
               bytes_write = 0, bytes_read = 0\<rparr>;
          st1 = st\<lparr>chs := (chs st)(p \<mapsto> c), next_ch := p + 1,
                   worker_channels := worker_channels st @ [(uuid p, p)]\<rparr>;
          st2 = (case new_callback (dap_stream_ch_proc_find P i) of None \<Rightarrow> st1 | Some f \<Rightarrow> f p st1) in
      if channel_count st2 < CHANNELS_MAX
      then Inr (st2\<lparr>channel := (channel st2)[channel_count st2 := p], channel_count := channel_count st2 + 1\<rparr>, p)
      else Inl OutOfBounds)"

text \<open>The slot that is cleared is the one behind the last channel, whichever channel is deleted.\<close>

definition dap_stream_ch_delete :: "procs \<Rightarrow> dap_stream \<Rightarrow> ptr \<Rightarrow> dap_stream res" where
  "dap_stream_ch_delete P st p =
     bindE (get_ch st p) (\<lambda>c.
     let st1 = st\<lparr>worker_channels := filter (\<lambda>(u, q). q \<noteq> p) (worker_channels st)\<rparr>;
         st2 = (case delete_callback (P (ch_proc c)) of None \<Rightarrow> st1 | Some f \<Rightarrow> f p st1) in
     if channel_count st2 < CHANNELS_MAX
     then Inr (st2\<lparr>channel := (channel st2)[channel_count st2 := 0],
                   channel_count := (channel_count st2 + (2 ^ 64 - 1)) mod 2 ^ 64,
                   chs := (chs st2)(p := None)\<rparr>)
     else Inl OutOfBounds)"

definition dap_stream_ch_find_by_uuid_unsafe :: "dap_stream \<Rightarrow> u64 \<Rightarrow> ptr" where
  "dap_stream_ch_find_by_uuid_unsafe st u = (case map_of (worker_channels st) u of None \<Rightarrow> 0 | Some p \<Rightarrow> p)"

definition dap_stream_ch_check_uuid :: "dap_stream \<Rightarrow> u64 \<Rightarrow> bool" where
  "dap_stream_ch_check_uuid st u \<longleftrightarrow> map_of (worker_channels st) u \<noteq> None"

definition dap_stream_ch_set_ready_to_read_unsafe :: "dap_stream \<Rightarrow> ptr \<Rightarrow> bool \<Rightarrow> dap_stream res" where
  "dap_stream_ch_set_ready_to_read_unsafe st p is_ready =
     bindE (get_ch st p) (\<lambda>c.
     if ch_ready_to_read c \<noteq> is_ready
     then Inr ((set_ch st p (c\<lparr>ch_ready_to_read := is_ready\<rparr>))
            \<lparr>esocket := dap_events_socket_set_readable_unsafe (esocket st) is_ready\<rparr>)
     else Inr st)"

definition dap_stream_ch_set_ready_to_write_unsafe :: "dap_stream \<Rightarrow> ptr \<Rightarrow> bool \<Rightarrow> dap_stream res" where
  "dap_stream_ch_set_ready_to_write_unsafe st p is_ready =
     bindE (get_ch st p) (\<lambda>c.
     if ch_ready_to_write c \<noteq> is_ready
     then Inr ((set_ch st p (c\<lparr>ch_ready_to_write := is_ready\<rparr>))
            \<lparr>conn_http := (if is_ready then map_option (\<lambda>h. h\<lparr>state_write := HTTP_DATA\<rparr>) (conn_http st) else conn_http st),
             esocket := dap_events_socket_set_writable_unsafe (esocket st) is_ready\<rparr>)
     else Inr st)"

definition dap_stream_set_ready_to_write :: "dap_stream \<Rightarrow> bool \<Rightarrow> dap_stream" where
  "dap_stream_set_ready_to_write st is_ready =
     st\<lparr>conn_http := (if is_ready then map_option (\<lambda>h. h\<lparr>state_write := HTTP_DATA\<rparr>) (conn_http st) else conn_http st),
        esocket := dap_events_socket_set_writable_unsafe (esocket st) is_ready\<rparr>"

text \<open>The channel at an index, as the loops over the channels read it.\<close>

definition nth_ch :: "dap_stream \<Rightarrow> nat \<Rightarrow> dap_stream_ch res" where
  "nth_ch st i = (if i < CHANNELS_MAX then get_ch st (channel st ! i) else Inl OutOfBounds)"

fun any_ready :: "dap_stream \<Rightarrow> nat \<Rightarrow> bool res" where
  "any_ready st 0 = Inr False"
| "any_ready st (Suc i) = bindE (any_ready st i) (\<lambda>r. bindE (nth_ch st i) (\<lambda>c. Inr (r \<or> ch_ready_to_write c)))"

definition stream_states_update :: "dap_stream \<Rightarrow> dap_stream res" where
  "stream_states_update st =
     bindE (any_ready st (channel_count st)) (\<lambda>ready.
     Inr (st\<lparr>conn_http := map_option (\<lambda>h. h\<lparr>state_write := HTTP_START, out_content_ready := True\<rparr>) (conn_http st),
             esocket := dap_events_socket_set_writable_unsafe (esocket st) ready\<rparr>))"

fun open_channels :: "procs \<Rightarrow> (ptr \<Rightarrow> u64) \<Rightarrow> dap_stream \<Rightarrow> byte list \<Rightarrow> dap_stream res" where
  "open_channels P uuid st [] = Inr st"
| "open_channels P uuid st (i # is) =
     (if i = 0 then open_channels P uuid st is
      else bindE (dap_stream_ch_new P uuid st i) (\<lambda>(st', p). open_channels P uuid st' is))"

text \<open>\<open>check_session\<close> on the socket of an HTTP client, whose stream is this one.\<close>

definition check_session :: "procs \<Rightarrow> (ptr \<Rightarrow> u64) \<Rightarrow> dap_stream \<Rightarrow> u32 \<Rightarrow> dap_stream res" where
  "check_session P uuid st i =
     (case dap_stream_session_id_mt (stream_sessions st) i of None \<Rightarrow> Inr st
      | Some s \<Rightarrow> (let (s', ret) = dap_stream_session_open s in
          if ret \<noteq> 0 then Inr st
          else bindE (open_channels P uuid (st\<lparr>stream_sessions := (stream_sessions st)(i \<mapsto> s'), stream_session := Some i\<rparr>)
                  (active_channels s')) (\<lambda>st1.
               bindE (stream_states_update st1) (\<lambda>st2.
               Inr (st2\<lparr>esocket := dap_events_socket_set_readable_unsafe (esocket st2) True\<rparr>)))))"

text \<open>
  The headers of the HTTP request that opens a stream: the query names a session, by one of two
  names, which is opened once.  The service key that may come with it is not kept.
\<close>

definition scan_session_id :: "cstr \<Rightarrow> cstr \<Rightarrow> u32 option" where
  "scan_session_id name q = (if take (length name) q = name then scan_u (drop (length name) q) else None)"

definition query_session_id :: "cstr \<Rightarrow> u32 option" where
  "query_session_id q =
     (case scan_session_id (map of_char ''session_id='') q of
        None \<Rightarrow> scan_session_id (map of_char ''fj913htmdgaq-d9hf='') q | Some i \<Rightarrow> Some i)"

definition s_http_client_headers_read ::
    "procs \<Rightarrow> (ptr \<Rightarrow> u64) \<Rightarrow> dap_http_client \<Rightarrow> dap_events_socket \<Rightarrow> sessions \<Rightarrow> (dap_http_client \<times> dap_stream option) res" where
  "s_http_client_headers_read P uuid http es ss =
     (case (if in_query_string http = [] then None else query_session_id (in_query_string http)) of
        None \<Rightarrow> Inr (http, None)
      | Some i \<Rightarrow>
          (case dap_stream_session_id_mt ss i of None \<Rightarrow> Inr (http\<lparr>reply_status_code := 404\<rparr>, None)
           | Some s \<Rightarrow> (let (s', ret) = dap_stream_session_open s in
               if ret \<noteq> 0 then Inr (http\<lparr>reply_status_code := 404\<rparr>, None)
               else if 0 \<notin> set (active_channels s') then Inl OutOfBounds
               else let http1 = http\<lparr>reply_status_code := 200\<rparr>;
                        st = (s_stream_new http1 es (ss(i \<mapsto> s')))\<lparr>stream_session := Some i\<rparr> in
                    bindE (open_channels P uuid st (takeWhile (\<lambda>c. c \<noteq> 0) (active_channels s'))) (\<lambda>st1.
                    bindE (stream_states_update st1) (\<lambda>st2.
                    let http2 = http1\<lparr>state_read := HTTP_DATA, state_write := HTTP_START, out_content_ready := True\<rparr> in
                    Inr (http2, Some (st2\<lparr>conn_http := Some http2,
                      esocket := dap_events_socket_set_writable_unsafe
                        (dap_events_socket_set_readable_unsafe (esocket st2) True) True\<rparr>)))))))"

text \<open>The loop of \<open>dap_stream_delete\<close>, followed for as many steps as there are channels.\<close>

fun delete_channels :: "procs \<Rightarrow> nat \<Rightarrow> dap_stream \<Rightarrow> dap_stream res" where
  "delete_channels P n st =
     (if channel_count st = 0 then Inr st
      else case n of 0 \<Rightarrow> Inl Diverges
      | Suc m \<Rightarrow> if channel_count st - 1 < CHANNELS_MAX
          then bindE (dap_stream_ch_delete P st (channel st ! (channel_count st - 1))) (delete_channels P m)
          else Inl OutOfBounds)"

definition dap_stream_delete :: "procs \<Rightarrow> dap_stream option \<Rightarrow> dap_stream option res" where
  "dap_stream_delete P st =
     (case st of None \<Rightarrow> Inr None
      | Some st \<Rightarrow> bindE (delete_channels P (channel_count st) st) (\<lambda>st.
          case stream_session st of None \<Rightarrow> Inr (Some st)
          | Some i \<Rightarrow> if stream_sessions st i = None then Inl BadFree
              else Inr (Some (st\<lparr>stream_sessions := fst (dap_stream_session_close_mt (stream_sessions st) i),
                               stream_session := None\<rparr>))))"

section \<open>Stream packets\<close>

definition c_dap_stream_sig :: "byte list" where
  "c_dap_stream_sig = [0xa0, 0x95, 0x96, 0xa9, 0x9e, 0x5c, 0xfb, 0xfa]"

definition PKT_HDR_SIZE :: nat where "PKT_HDR_SIZE = 37"

definition pkt_hdr_bytes :: "nat \<Rightarrow> byte \<Rightarrow> byte list" where
  "pkt_hdr_bytes n t = c_dap_stream_sig @ le_bytes 4 n @ le_bytes 8 0 @ [t] @ le_bytes 8 0 @ le_bytes 8 0"

text \<open>The size and the type of the header that starts a sequence of bytes.\<close>

definition pkt_size :: "byte list \<Rightarrow> nat" where "pkt_size bs = le_val (chunk bs 8 4)"
definition pkt_type :: "byte list \<Rightarrow> byte" where "pkt_type bs = bs ! 20"

text \<open>
  \<open>memchr\<close> is called again one byte further but with the old length: once a first byte of the
  signature has been passed over, a search that does not end earlier reads the byte behind the data.
\<close>

fun pkt_detect :: "bool \<Rightarrow> nat \<Rightarrow> byte list \<Rightarrow> nat option res" where
  "pkt_detect beyond i [] = (if beyond then Inl OutOfBounds else Inr None)"
| "pkt_detect beyond i (b # bs) =
     (if b \<noteq> c_dap_stream_sig ! 0 then pkt_detect beyond (i + 1) bs
      else if length (b # bs) < 8 then Inr None
      else if take 8 (b # bs) = c_dap_stream_sig
      then (if length (b # bs) < CH_HDR_SIZE then Inr None
            else if DAP_STREAM_PKT_SIZE_MAX < pkt_size (b # bs) then Inr None else Inr (Some i))
      else pkt_detect True (i + 1) bs)"

definition dap_stream_pkt_detect :: "byte list \<Rightarrow> nat option res" where
  "dap_stream_pkt_detect data = pkt_detect False 0 data"

definition stream_key :: "dap_stream \<Rightarrow> dap_enc_key option res" where
  "stream_key st =
     (case stream_session st of None \<Rightarrow> Inl NullDeref
      | Some i \<Rightarrow> (case stream_sessions st i of None \<Rightarrow> Inl BadFree | Some s \<Rightarrow> Inr (ses_key s)))"

definition dap_stream_pkt_read_unsafe :: "dap_stream \<Rightarrow> byte list \<Rightarrow> nat \<Rightarrow> byte list res" where
  "dap_stream_pkt_read_unsafe st pkt_data out_size =
     bindE (stream_key st) (\<lambda>key.
     case key of None \<Rightarrow> Inl NullDeref
     | Some k \<Rightarrow> (case dec_na k of None \<Rightarrow> Inl NullDeref | Some f \<Rightarrow> Inr (f pkt_data out_size)))"

definition dap_stream_pkt_write_unsafe :: "dap_stream \<Rightarrow> byte \<Rightarrow> byte list \<Rightarrow> (dap_stream \<times> nat) res" where
  "dap_stream_pkt_write_unsafe st t data =
     bindE (stream_key st) (\<lambda>key.
     let out = dap_enc_code key data (length data + DAP_STREAM_PKT_ENCRYPTION_OVERHEAD);
         n = length out mod 2 ^ 32 in
     if STREAM_BUF_SIZE_MAX < PKT_HDR_SIZE + length out then Inl OutOfBounds
     else let (es, ret) = dap_events_socket_write_unsafe (esocket st) (pkt_hdr_bytes n t @ take n out) in
          Inr (st\<lparr>is_active := True, esocket := es\<rparr>, ret))"

section \<open>Channel packets\<close>

text \<open>A fragment: its size, its place in the packet, the size of the packet, its bytes.\<close>

definition fragment_bytes :: "nat \<Rightarrow> nat \<Rightarrow> nat \<Rightarrow> byte list \<Rightarrow> byte list" where
  "fragment_bytes n shift full data = le_bytes 4 n @ le_bytes 4 shift @ le_bytes 4 full @ data"

definition FRAGMENT_HDR_SIZE :: nat where "FRAGMENT_HDR_SIZE = 12"

text \<open>
  \<open>left\<close> bytes of the packet are left, and the next fragment takes \<open>n\<close> of them.  The place of a fragment is a 32-bit
  field, and it is the field that says where the bytes are read, in the header at place 0 and else in the data.
\<close>

function write_fragments :: "dap_stream \<Rightarrow> byte list \<Rightarrow> byte list \<Rightarrow> nat \<Rightarrow> nat \<Rightarrow> nat \<Rightarrow> (dap_stream \<times> nat) res" where
  "write_fragments st hdr data left n ret =
     (if left = 0 then Inr (st, ret)
      else if n = 0 then Inl Diverges
      else let full = CH_HDR_SIZE + length data; shift = (full - left) mod 2 ^ 32 in
           bindE (if shift = 0 then chunkE hdr 0 n
                  else if shift < CH_HDR_SIZE then Inl OutOfBounds else chunkE data (shift - CH_HDR_SIZE) n) (\<lambda>bytes.
           bindE (dap_stream_pkt_write_unsafe st STREAM_PKT_TYPE_FRAGMENT_PACKET (fragment_bytes n shift full bytes)) (\<lambda>(st', k).
           write_fragments st' hdr data (left - n) (min (left - n) DAP_STREAM_PKT_FRAGMENT_SIZE) (ret + k))))"
  by pat_completeness auto
termination by (relation "measure (\<lambda>(st, hdr, data, left, n, ret). left)") auto

declare write_fragments.simps [simp del]

text \<open>The channel may be NULL.\<close>

definition dap_stream_ch_pkt_write_unsafe :: "procs \<Rightarrow> dap_stream \<Rightarrow> ptr \<Rightarrow> byte \<Rightarrow> byte list \<Rightarrow> (dap_stream \<times> nat) res" where
  "dap_stream_ch_pkt_write_unsafe P st p t data =
     (if p = 0 then Inr (st, 0)
      else bindE (get_ch st p) (\<lambda>c.
        let n = CH_HDR_SIZE + length data;
            hdr = ch_hdr_bytes \<lparr>hdr_id = proc_id (P (ch_proc c)), hdr_enc_type = proc_enc_type (P (ch_proc c)),
              hdr_type = t, hdr_seq_id = seq_id st, hdr_size = word_of_nat (length data)\<rparr>;
            st1 = st\<lparr>seq_id := seq_id st + 1\<rparr> in
        bindE (if n \<le> DAP_STREAM_PKT_FRAGMENT_SIZE
               then dap_stream_pkt_write_unsafe st1 STREAM_PKT_TYPE_DATA_PACKET (hdr @ data)
               else bindE (write_fragments st1 hdr data n CH_HDR_SIZE 0) (\<lambda>(st2, k).
                    bindE (dap_stream_ch_set_ready_to_write_unsafe st2 p True) (\<lambda>st3. Inr (st3, k)))) (\<lambda>(st4, ret).
        bindE (get_ch st4 p) (\<lambda>c.
        Inr (set_ch st4 p (c\<lparr>bytes_write := bytes_write c + word_of_nat (length data)\<rparr>), ret)))))"

text \<open>What \<open>vsnprintf\<close> left of the formatted text in a buffer of 4096 bytes.\<close>

definition dap_stream_ch_pkt_write_f_unsafe :: "procs \<Rightarrow> dap_stream \<Rightarrow> ptr \<Rightarrow> byte \<Rightarrow> cstr \<Rightarrow> (dap_stream \<times> nat) res" where
  "dap_stream_ch_pkt_write_f_unsafe P st p t text = dap_stream_ch_pkt_write_unsafe P st p t (take 4095 text)"

section \<open>Incoming packets\<close>

datatype outcome = Clean | Keep

text \<open>The bytes of a block that are initialised; reading another one is \<open>Uninit\<close>.\<close>

fun known :: "'a option list \<Rightarrow> 'a list res" where
  "known [] = Inr []"
| "known (None # xs) = Inl Uninit"
| "known (Some x # xs) = bindE (known xs) (\<lambda>ys. Inr (x # ys))"

definition s_detect_loose_packet :: "dap_stream \<Rightarrow> dap_stream \<times> bool" where
  "s_detect_loose_packet st = (st\<lparr>client_last_seq_id_packet := hdr_seq_id (ch_hdr_of (pkt_cache st))\<rparr>, False)"

text \<open>The search goes through all channels: the last one that fits is taken.\<close>

fun find_channel :: "procs \<Rightarrow> dap_stream \<Rightarrow> byte \<Rightarrow> nat \<Rightarrow> ptr res" where
  "find_channel P st i 0 = Inr 0"
| "find_channel P st i (Suc k) =
     bindE (find_channel P st i k) (\<lambda>p. bindE (nth_ch st k) (\<lambda>c.
     Inr (if proc_id (P (ch_proc c)) = i then channel st ! k else p)))"

text \<open>A whole channel packet: \<open>area\<close> is the memory it is in and \<open>dec_size\<close> its size.\<close>

definition ch_pkt_in :: "procs \<Rightarrow> dap_stream \<Rightarrow> byte option list \<Rightarrow> nat \<Rightarrow> (dap_stream \<times> bool) res" where
  "ch_pkt_in P st area dec_size =
     bindE (chunkE area 0 CH_HDR_SIZE) (\<lambda>h. bindE (known (drop 12 h)) (\<lambda>size_field.
     if dec_size \<noteq> le_val size_field + CH_HDR_SIZE then Inr (st, False)
     else bindE (known h) (\<lambda>h.
       let hdr = ch_hdr_of h; (st1, loose) = s_detect_loose_packet st in
       if loose then Inr (st1, True)
       else bindE (find_channel P st1 (hdr_id hdr) (channel_count st1)) (\<lambda>p.
         if p = 0 then Inr (st1, True)
         else bindE (get_ch st1 p) (\<lambda>c.
           let st2 = set_ch st1 p (c\<lparr>bytes_read := bytes_read c + ucast (hdr_size hdr)\<rparr>);
               payload = chunk area CH_HDR_SIZE (unat (hdr_size hdr)) in
           case packet_in_callback (P (ch_proc c)) of None \<Rightarrow> Inr (st2, True)
           | Some f \<Rightarrow> Inr (f p hdr payload (st2\<lparr>delivered := delivered st2 @ [(ch_proc c, hdr, payload)]\<rparr>), True))))))"

definition data_pkt_in :: "procs \<Rightarrow> dap_stream \<Rightarrow> byte list \<Rightarrow> (dap_stream \<times> outcome) res" where
  "data_pkt_in P st pkt_data =
     bindE (dap_stream_pkt_read_unsafe st pkt_data STREAM_BUF_SIZE_MAX) (\<lambda>out.
     bindE (blitE (pkt_cache st) 0 out) (\<lambda>cache.
     bindE (ch_pkt_in P (st\<lparr>pkt_cache := cache\<rparr>) (map Some cache) (length out)) (\<lambda>(st', good).
     Inr (st', if good then Keep else Clean))))"

definition fragment_pkt_in :: "procs \<Rightarrow> dap_stream \<Rightarrow> byte list \<Rightarrow> (dap_stream \<times> outcome) res" where
  "fragment_pkt_in P st pkt_data =
     bindE (dap_stream_pkt_read_unsafe st pkt_data STREAM_BUF_SIZE_MAX) (\<lambda>out.
     bindE (blitE (pkt_cache st) 0 out) (\<lambda>cache.
     let st1 = st\<lparr>pkt_cache := cache\<rparr>;
         n = le_val (chunk cache 0 4); shift = le_val (chunk cache 4 4); full = le_val (chunk cache 8 4) in
     if length out = 0 then Inr (st1, Clean)
     else if length out \<noteq> n + FRAGMENT_HDR_SIZE then Inr (st1, Clean)
     else if buf_fragments_size_filled st1 \<noteq> shift then Inr (st1, Clean)
     else let (frags, total) =
            (case buf_fragments st1 of None \<Rightarrow> (replicate full None, full)
             | Some fs \<Rightarrow> if buf_fragments_size_total st1 < full then (replicate full None, full)
                 else (fs, buf_fragments_size_total st1)) in
       bindE (blitE frags shift (map Some (chunk cache FRAGMENT_HDR_SIZE n))) (\<lambda>frags'.
       let st2 = st1\<lparr>buf_fragments := Some frags', buf_fragments_size_total := total,
                     buf_fragments_size_filled := shift + n\<rparr> in
       if shift + n < full then Inr (st2, Keep)
       else bindE (ch_pkt_in P st2 frags' total) (\<lambda>(st3, _). Inr (st3, Clean)))))"

definition clean_fragments :: "dap_stream \<Rightarrow> dap_stream" where
  "clean_fragments st = st\<lparr>buf_fragments := None, buf_fragments_size_total := 0, buf_fragments_size_filled := 0\<rparr>"

text \<open>\<open>rest\<close> is what the input buffer holds from the packet on.\<close>

definition s_stream_proc_pkt_in :: "procs \<Rightarrow> (ptr \<Rightarrow> u64) \<Rightarrow> dap_stream \<Rightarrow> byte list \<Rightarrow> dap_stream res" where
  "s_stream_proc_pkt_in P uuid st0 rest =
     (let st = st0\<lparr>is_active := True\<rparr>; t = pkt_type rest; pkt_data = chunk rest PKT_HDR_SIZE (pkt_size rest) in
      bindE
        (if t = STREAM_PKT_TYPE_FRAGMENT_PACKET then fragment_pkt_in P st pkt_data
         else if t = STREAM_PKT_TYPE_DATA_PACKET then data_pkt_in P st pkt_data
         else if t = STREAM_PKT_TYPE_SERVICE_PACKET then
           bindE (chunkE rest PKT_HDR_SIZE 9) (\<lambda>srv.
           bindE (check_session P uuid st (word_of_nat (le_val (chunk srv 0 4)))) (\<lambda>st'. Inr (st', Keep)))
         else if t = STREAM_PKT_TYPE_KEEPALIVE then
           Inr (st\<lparr>esocket := fst (dap_events_socket_write_unsafe (esocket st) (pkt_hdr_bytes 0 STREAM_PKT_TYPE_ALIVE)),
                   keepalive_timer := map_option Suc (keepalive_timer st)\<rparr>, Keep)
         else if t = STREAM_PKT_TYPE_ALIVE then Inr (st\<lparr>is_active := False\<rparr>, Keep)
         else Inr (st, Keep))
      (\<lambda>(st', oc). Inr (if oc = Clean then clean_fragments st' else st')))"

text \<open>The loop over the packets of the buffer; the result is what is left of it.\<close>

function read_packets :: "procs \<Rightarrow> (ptr \<Rightarrow> u64) \<Rightarrow> dap_stream \<Rightarrow> byte list \<Rightarrow> (dap_stream \<times> byte list) res" where
  "read_packets P uuid st buf =
     (if buf = [] then Inr (st, [])
      else bindE (dap_stream_pkt_detect buf) (\<lambda>found.
        case found of None \<Rightarrow> Inr (st, buf)
        | Some i \<Rightarrow>
            (let rest = drop i buf; n = pkt_size rest + PKT_HDR_SIZE in
             if n \<le> length rest
             then bindE (s_stream_proc_pkt_in P uuid st rest) (\<lambda>st'. read_packets P uuid st' (drop n rest))
             else Inr (st, rest))))"
  by pat_completeness auto
termination
  by (relation "measure (\<lambda>(P, uuid, st, buf). length buf)") (auto simp: PKT_HDR_SIZE_def)

declare read_packets.simps [simp del]

definition dap_stream_data_proc_read :: "procs \<Rightarrow> (ptr \<Rightarrow> u64) \<Rightarrow> dap_stream \<Rightarrow> (dap_stream \<times> nat) res" where
  "dap_stream_data_proc_read P uuid st =
     (let buf = (case pkt_buf_in st of None \<Rightarrow> [] | Some b \<Rightarrow> b) @ buf_in (esocket st);
          st1 = st\<lparr>pkt_buf_in := Some buf\<rparr> in
      bindE (if PKT_HDR_SIZE \<le> length buf then read_packets P uuid st1 buf else Inr (st1, buf)) (\<lambda>(st2, left).
      Inr (st2\<lparr>pkt_buf_in := (if left = [] then None else Some left)\<rparr>, length (buf_in (esocket st2)))))"

text \<open>
  One read of the connection: the bytes arrive in the input buffer, the read callback of the stream
  takes them, and the buffer is shrunk by what the callback took.
\<close>

definition stream_recv :: "procs \<Rightarrow> (ptr \<Rightarrow> u64) \<Rightarrow> dap_stream \<Rightarrow> byte list \<Rightarrow> dap_stream res" where
  "stream_recv P uuid st bytes =
     bindE (dap_stream_data_proc_read P uuid (st\<lparr>esocket := (esocket st)\<lparr>buf_in := buf_in (esocket st) @ bytes\<rparr>\<rparr>)) (\<lambda>(st', n).
     Inr (st'\<lparr>esocket := dap_events_socket_shrink_buf_in (esocket st') n\<rparr>))"

fun stream_recv_all :: "procs \<Rightarrow> (ptr \<Rightarrow> u64) \<Rightarrow> dap_stream \<Rightarrow> byte list list \<Rightarrow> dap_stream res" where
  "stream_recv_all P uuid st [] = Inr st"
| "stream_recv_all P uuid st (c # cs) = bindE (stream_recv P uuid st c) (\<lambda>st'. stream_recv_all P uuid st' cs)"

section \<open>The output side of the event loop and the keep-alive timer\<close>

fun out_channels :: "procs \<Rightarrow> nat \<Rightarrow> nat \<Rightarrow> dap_stream \<Rightarrow> bool \<Rightarrow> (dap_stream \<times> bool) res" where
  "out_channels P 0 i st ready = Inl Diverges"
| "out_channels P (Suc k) i st ready =
     (if channel_count st \<le> i then Inr (st, ready)
      else bindE (nth_ch st i) (\<lambda>c.
        if ch_ready_to_write c
        then let st' = (case packet_out_callback (P (ch_proc c)) of None \<Rightarrow> st | Some f \<Rightarrow> f (channel st ! i) st) in
             bindE (get_ch st' (channel st ! i)) (\<lambda>c'. out_channels P k (i + 1) st' (ready \<or> ch_ready_to_write c'))
        else out_channels P k (i + 1) st ready))"

text \<open>The array of channels has 255 slots, so 256 rounds are enough to leave it.\<close>

definition s_esocket_write :: "procs \<Rightarrow> dap_stream \<Rightarrow> dap_stream res" where
  "s_esocket_write P st =
     bindE (out_channels P (CHANNELS_MAX + 1) 0 st False) (\<lambda>(st', ready).
     Inr (st'\<lparr>esocket := dap_events_socket_set_writable_unsafe (esocket st') ready\<rparr>))"

text \<open>The timer of a stream; \<open>None\<close> when its socket is gone.  The result says whether it goes on.\<close>

definition s_callback_keepalive :: "dap_stream option \<Rightarrow> dap_stream option \<times> bool" where
  "s_callback_keepalive st =
     (case st of None \<Rightarrow> (None, False)
      | Some st \<Rightarrow> if is_active st then (Some (st\<lparr>is_active := False\<rparr>), True)
          else (Some (st\<lparr>esocket := fst (dap_events_socket_write_unsafe (esocket st) (pkt_hdr_bytes 0 STREAM_PKT_TYPE_KEEPALIVE))\<rparr>), True))"

text \<open>A message that another thread put into the queue of the worker.\<close>

record dap_stream_worker_msg_io =
  msg_ch_uuid :: u64
  set_read :: bool
  unset_read :: bool
  set_write :: bool
  unset_write :: bool
  msg_type :: byte
  msg_data :: "byte list"

text \<open>
  The writers of the other threads put such a message into the queue, if the queue takes it
  (\<open>sent\<close>); the worker may be missing in the first.
\<close>

definition dap_stream_ch_pkt_write_inter :: "bool \<Rightarrow> u64 \<Rightarrow> byte \<Rightarrow> byte list \<Rightarrow> dap_stream_worker_msg_io option \<times> nat" where
  "dap_stream_ch_pkt_write_inter sent u t data =
     (if sent then (Some \<lparr>msg_ch_uuid = u, set_read = False, unset_read = False, set_write = True, unset_write = False,
                    msg_type = t, msg_data = data\<rparr>, length data)
      else (None, 0))"

definition dap_stream_ch_pkt_write_mt :: "bool \<Rightarrow> bool \<Rightarrow> u64 \<Rightarrow> byte \<Rightarrow> byte list \<Rightarrow> dap_stream_worker_msg_io option \<times> nat" where
  "dap_stream_ch_pkt_write_mt worker sent u t data =
     (if worker then dap_stream_ch_pkt_write_inter sent u t data else (None, 0))"

text \<open>A packet for the queue of a socket: neither the size nor the type is put into its header.\<close>

definition dap_stream_pkt_write_mt :: "dap_enc_key option \<Rightarrow> bool \<Rightarrow> byte list \<Rightarrow> (byte list option \<times> nat) res" where
  "dap_stream_pkt_write_mt key sent data =
     (let room = 16 - length data mod 16 + length data; out = dap_enc_code key data room in
      if room < length out then Inl OutOfBounds
      else if sent then Inr (Some (pkt_hdr_bytes 0 0 @ out), length data) else Inr (None, 0))"

definition when_ok :: "bool \<Rightarrow> ('a \<Rightarrow> 'a res) \<Rightarrow> 'a \<Rightarrow> 'a res" where
  "when_ok b f x = (if b then f x else Inr x)"

definition s_ch_io_callback :: "procs \<Rightarrow> dap_stream \<Rightarrow> dap_stream_worker_msg_io \<Rightarrow> dap_stream res" where
  "s_ch_io_callback P st msg =
     (case map_of (worker_channels st) (msg_ch_uuid msg) of None \<Rightarrow> Inr st
      | Some p \<Rightarrow>
          bindE (when_ok (set_read msg) (\<lambda>st. dap_stream_ch_set_ready_to_read_unsafe st p True) st) (\<lambda>st.
          bindE (when_ok (unset_read msg) (\<lambda>st. dap_stream_ch_set_ready_to_read_unsafe st p False) st) (\<lambda>st.
          bindE (when_ok (set_write msg) (\<lambda>st. dap_stream_ch_set_ready_to_write_unsafe st p True) st) (\<lambda>st.
          bindE (when_ok (unset_write msg) (\<lambda>st. dap_stream_ch_set_ready_to_write_unsafe st p False) st) (\<lambda>st.
          when_ok (msg_data msg \<noteq> []) (\<lambda>st. bindE (dap_stream_ch_pkt_write_unsafe P st p (msg_type msg) (msg_data msg))
            (\<lambda>(st', _). Inr st')) st)))))"

end
