(* ===== verification/StreamProps.thy ===== *)
theory StreamProps
  imports Stream "HOL-Library.Sublist"
begin

text \<open>
  The receiving side of a stream.  What the handling of a packet depends on and leaves alone (\<open>ctx\<close>,
  \<open>frags\<close>, \<open>pending\<close>); packets as a peer writes them (\<open>spkt\<close>, \<open>wire\<close>); a packet does the same
  whatever follows it in the buffer (\<open>packet_in\<close>), so the pieces in which the bytes arrive do not
  matter (\<open>recv_all\<close>).
\<close>

lemmas size_consts = DAP_STREAM_PKT_FRAGMENT_SIZE_def DAP_STREAM_PKT_SIZE_MAX_def DAP_EVENTS_SOCKET_BUF_LIMIT_def
  STREAM_BUF_SIZE_MAX_def DAP_STREAM_PKT_ENCRYPTION_OVERHEAD_def PKT_HDR_SIZE_def CH_HDR_SIZE_def FRAGMENT_HDR_SIZE_def

lemmas type_consts = STREAM_PKT_TYPE_DATA_PACKET_def STREAM_PKT_TYPE_FRAGMENT_PACKET_def
  STREAM_PKT_TYPE_SERVICE_PACKET_def STREAM_PKT_TYPE_KEEPALIVE_def STREAM_PKT_TYPE_ALIVE_def

section \<open>Packet headers\<close>

lemma length_sig [simp]: "length c_dap_stream_sig = 8"
  by (simp add: c_dap_stream_sig_def)

lemma length_pkt_hdr [simp]: "length (pkt_hdr_bytes n t) = 37"
  by (simp add: pkt_hdr_bytes_def)

definition frame :: "byte \<Rightarrow> byte list \<Rightarrow> byte list" where
  "frame t out = pkt_hdr_bytes (length out) t @ out"

lemma length_frame [simp]: "length (frame t out) = 37 + length out"
  by (simp add: frame_def)

lemma chunk_append_at: "length xs = i \<Longrightarrow> chunk (xs @ ys) i n = take n ys"
  by (simp add: chunk_def)

lemma chunk_within: "i + n \<le> length xs \<Longrightarrow> chunk (xs @ ys) i n = chunk xs i n"
  by (simp add: chunk_def)

lemma pkt_size_frame: "length out < 2 ^ 32 \<Longrightarrow> pkt_size (frame t out @ z) = length out"
proof -
  assume "length out < 2 ^ 32"
  have "frame t out @ z = c_dap_stream_sig @ le_bytes 4 (length out) @ (le_bytes 8 0 @ [t] @ le_bytes 8 0 @ le_bytes 8 0 @ out @ z)"
    by (simp add: frame_def pkt_hdr_bytes_def)
  then have "chunk (frame t out @ z) 8 4 = le_bytes 4 (length out)"
    by (simp only: chunk_append_at length_sig) simp
  then show ?thesis using \<open>length out < 2 ^ 32\<close> by (simp add: pkt_size_def le_val_le_bytes)
qed

lemma pkt_type_frame: "pkt_type (frame t out @ z) = t"
  by (simp add: frame_def pkt_hdr_bytes_def pkt_type_def nth_append)

lemma pkt_data_frame: "chunk (frame t out @ z) 37 (length out) = out"
  by (simp add: frame_def chunk_def)

lemma take8_frame: "take 8 (frame t out @ z) = c_dap_stream_sig"
  by (simp add: frame_def pkt_hdr_bytes_def)

text \<open>A prefix of a frame.\<close>

lemma pkt_size_take: "12 \<le> m \<Longrightarrow> pkt_size (take m bs) = pkt_size bs"
  by (simp add: pkt_size_def chunk_def take_drop min_def)

lemma detect_signature:
  assumes "take 8 bs = c_dap_stream_sig" "16 \<le> length bs" "pkt_size bs \<le> DAP_STREAM_PKT_SIZE_MAX"
  shows "dap_stream_pkt_detect bs = Inr (Some 0)"
proof -
  obtain b bs' where b: "bs = b # bs'" using assms(2) by (cases bs) auto
  have "b = c_dap_stream_sig ! 0" using assms(1) by (simp add: b flip: assms(1))
  then show ?thesis using assms by (simp add: dap_stream_pkt_detect_def b CH_HDR_SIZE_def)
qed

lemma detect_short:
  assumes "prefix bs (frame t out)" "length bs < 16"
  shows "dap_stream_pkt_detect bs = Inr None"
proof (cases bs)
  case Nil
  then show ?thesis by (simp add: dap_stream_pkt_detect_def)
next
  case (Cons b bs')
  obtain z where f: "frame t out = bs @ z" using assms(1) by (auto elim: prefixE)
  have "b = c_dap_stream_sig ! 0"
    using take8_frame [of t out "[]"] f by (simp add: Cons c_dap_stream_sig_def)
  moreover have "8 \<le> length bs \<Longrightarrow> take 8 bs = c_dap_stream_sig"
    using take8_frame [of t out "[]"] f by simp
  ultimately show ?thesis using assms(2) by (simp add: dap_stream_pkt_detect_def Cons CH_HDR_SIZE_def)
qed

definition frame_fits :: "byte list \<Rightarrow> bool" where
  "frame_fits out \<longleftrightarrow> length out \<le> DAP_STREAM_PKT_SIZE_MAX"

lemma read_packets_prefix:
  assumes "strict_prefix bs (frame t out)" "frame_fits out"
  shows "read_packets P uuid st bs = Inr (st, bs)"
proof (cases "length bs < 16")
  case True
  then have "dap_stream_pkt_detect bs = Inr None" using assms(1) by (intro detect_short [of bs t out]) auto
  then show ?thesis by (subst read_packets.simps) simp
next
  case False
  obtain z where f: "frame t out = bs @ z" "z \<noteq> []"
    using assms(1) by (auto elim: strict_prefixE' simp: strict_prefix_def prefix_def)
  have s: "pkt_size bs = length out"
    using pkt_size_frame [of out t "[]"] pkt_size_take [of "length bs" "frame t out"] False assms(2) f
    by (simp add: frame_fits_def size_consts)
  have "take 8 bs = c_dap_stream_sig" using take8_frame [of t out "[]"] f False by simp
  then have d: "dap_stream_pkt_detect bs = Inr (Some 0)"
    using False s assms(2) by (intro detect_signature) (simp_all add: frame_fits_def)
  have "length bs + length z = 37 + length out" using arg_cong [OF f(1), of length] by simp
  then have "\<not> pkt_size bs + PKT_HDR_SIZE \<le> length bs" using f(2) s by (cases z) (simp_all add: PKT_HDR_SIZE_def)
  then show ?thesis using d False by (subst read_packets.simps) auto
qed

lemma read_packets_frame:
  assumes "frame_fits out"
  shows "read_packets P uuid st (frame t out @ z) =
    bindE (s_stream_proc_pkt_in P uuid st (frame t out @ z)) (\<lambda>st'. read_packets P uuid st' z)"
proof -
  have s: "pkt_size (frame t out @ z) = length out"
    using assms by (intro pkt_size_frame) (simp add: frame_fits_def size_consts)
  have d: "dap_stream_pkt_detect (frame t out @ z) = Inr (Some 0)"
    using assms take8_frame [of t out z] by (intro detect_signature) (simp_all add: s frame_fits_def)
  have n: "frame t out @ z \<noteq> []" by (simp add: frame_def pkt_hdr_bytes_def)
  show ?thesis
    using n by (subst read_packets.simps) (simp add: d s PKT_HDR_SIZE_def Let_def add.commute [of _ 37] del: append_is_Nil_conv cong: if_cong)
qed

section \<open>What the receiving side depends on\<close>

text \<open>
  The parts of the state that handling a data packet or a fragment reads and must find as before at
  the next packet; the processors are asked to leave these, what is delivered, the fragments and the
  input alone (they may answer, count, and set flags).
\<close>

definition ctx :: "dap_stream \<Rightarrow> _" where
  "ctx st = (stream_session st, stream_sessions st, length (pkt_cache st), channel st, channel_count st,
     (\<lambda>p. map_option ch_proc (chs st p)))"

definition frags :: "dap_stream \<Rightarrow> _" where
  "frags st = (buf_fragments st, buf_fragments_size_total st, buf_fragments_size_filled st)"

definition pending :: "dap_stream \<Rightarrow> _" where
  "pending st = (pkt_buf_in st, buf_in (esocket st))"

definition callbacks_ok :: "procs \<Rightarrow> bool" where
  "callbacks_ok P \<longleftrightarrow> (\<forall>i f p h d st. packet_in_callback (P i) = Some f \<longrightarrow>
     ctx (f p h d st) = ctx st \<and> frags (f p h d st) = frags st \<and> pending (f p h d st) = pending st \<and>
     delivered (f p h d st) = delivered st)"

text \<open>Packets for the processor \<open>i\<close> go to a channel of the kind \<open>k\<close>.\<close>

definition serves :: "procs \<Rightarrow> dap_stream \<Rightarrow> byte \<Rightarrow> byte \<Rightarrow> bool" where
  "serves P st i k \<longleftrightarrow> (\<exists>p. find_channel P st i (channel_count st) = Inr p \<and> p \<noteq> 0 \<and>
     map_option ch_proc (chs st p) = Some k \<and> packet_in_callback (P k) \<noteq> None)"

lemma find_channel_cong: "ctx st = ctx st' \<Longrightarrow> find_channel P st i n = find_channel P st' i n"
proof (induction n)
  case (Suc n)
  have c: "channel st = channel st'" and m: "map_option ch_proc (chs st p) = map_option ch_proc (chs st' p)" for p
    using Suc.prems by (auto simp: ctx_def dest: fun_cong)
  have F: "bindE (nth_ch st n) (\<lambda>c. Inr (F (ch_proc c))) = bindE (nth_ch st' n) (\<lambda>c. Inr (F (ch_proc c)))" for F :: "_ \<Rightarrow> ptr"
    using m [of "channel st' ! n"]
    by (cases "chs st (channel st' ! n)"; cases "chs st' (channel st' ! n)") (simp_all add: nth_ch_def get_ch_def c)
  note F [of "\<lambda>x. if proc_id (P x) = i then channel st' ! n else p" for p]
  then show ?case using Suc by (simp add: c cong: if_cong)
qed simp

lemma serves_cong: "ctx st = ctx st' \<Longrightarrow> serves P st i k = serves P st' i k"
proof -
  assume e: "ctx st = ctx st'"
  have "channel_count st = channel_count st'" "map_option ch_proc (chs st p) = map_option ch_proc (chs st' p)" for p
    using e by (auto simp: ctx_def dest: fun_cong)
  then show ?thesis unfolding serves_def find_channel_cong [OF e] by simp
qed

lemma known_map_Some [simp]: "known (map Some xs) = Inr xs"
  by (induction xs) simp_all

section \<open>Channel packets\<close>

lemma length_ch_hdr [simp]: "length (ch_hdr_bytes h) = 16"
  by (simp add: ch_hdr_bytes_def)

lemma ch_hdr_roundtrip: "ch_hdr_of (ch_hdr_bytes h @ d) = h"
proof -
  have "ch_hdr_bytes h @ d = [hdr_id h, hdr_enc_type h, hdr_type h, 0] @ le_bytes 8 (unat (hdr_seq_id h)) @
     (le_bytes 4 (unat (hdr_size h)) @ d)" by (simp add: ch_hdr_bytes_def)
  then have "chunk (ch_hdr_bytes h @ d) 4 8 = le_bytes 8 (unat (hdr_seq_id h))"
    by (simp only: chunk_append_at list.size) simp
  moreover have "ch_hdr_bytes h @ d = ([hdr_id h, hdr_enc_type h, hdr_type h, 0] @ le_bytes 8 (unat (hdr_seq_id h))) @
     le_bytes 4 (unat (hdr_size h)) @ d" by (simp add: ch_hdr_bytes_def)
  then have "chunk (ch_hdr_bytes h @ d) 12 4 = le_bytes 4 (unat (hdr_size h))"
    by (simp only: chunk_append_at list.size length_append length_le_bytes) simp
  ultimately show ?thesis
    using unat_u32_less [of "hdr_size h"] unsigned_less [of "hdr_seq_id h", where ?'a = nat]
    by (simp add: ch_hdr_of_def le_val_le_bytes) (simp add: ch_hdr_bytes_def)
qed

lemma size_field: "le_val (drop 12 (ch_hdr_bytes h)) = unat (hdr_size h)"
  using unat_u32_less [of "hdr_size h"] by (simp add: ch_hdr_bytes_def le_val_le_bytes)

lemma ch_pkt_in_ok:
  assumes cb: "callbacks_ok P" and sv: "serves P st (hdr_id h) k"
    and d: "unat (hdr_size h) = length d"
    and area: "area = map Some (ch_hdr_bytes h @ d) @ junk"
  shows "\<exists>st'. ch_pkt_in P st area (16 + length d) = Inr (st', True) \<and> ctx st' = ctx st \<and>
    frags st' = frags st \<and> pending st' = pending st \<and> delivered st' = delivered st @ [(k, h, map Some d)]"
proof -
  obtain p where p: "find_channel P st (hdr_id h) (channel_count st) = Inr p" "p \<noteq> 0"
    "map_option ch_proc (chs st p) = Some k" "packet_in_callback (P k) \<noteq> None"
    using sv by (auto simp: serves_def)
  obtain c where c: "chs st p = Some c" "ch_proc c = k" using p(3) by auto
  obtain f where f: "packet_in_callback (P k) = Some f" using p(4) by auto
  define st1 where "st1 = st\<lparr>client_last_seq_id_packet := hdr_seq_id (ch_hdr_of (pkt_cache st))\<rparr>"
  have ctx1: "ctx st1 = ctx st" by (simp add: st1_def ctx_def)
  define st2 where "st2 = (set_ch st1 p (c\<lparr>bytes_read := bytes_read c + ucast (hdr_size h)\<rparr>))
    \<lparr>delivered := delivered st @ [(k, h, map Some d)]\<rparr>"
  have "(\<lambda>q. map_option ch_proc (chs st2 q)) = (\<lambda>q. map_option ch_proc (chs st q))"
    using c by (auto simp: st2_def st1_def set_ch_def)
  then have ctx2: "ctx st2 = ctx st" by (simp add: ctx_def st2_def st1_def set_ch_def)
  have "frags st2 = frags st" "pending st2 = pending st"
    by (simp_all add: frags_def pending_def st2_def st1_def set_ch_def)
  moreover have "chunkE area 0 16 = Inr (map Some (ch_hdr_bytes h))"
    by (simp add: chunkE_def chunk_def area)
  moreover have "chunk area 16 (length d) = map Some d" by (simp add: chunk_def area)
  moreover have "known (drop 12 (map Some (ch_hdr_bytes h))) = Inr (drop 12 (ch_hdr_bytes h))"
    by (simp only: drop_map known_map_Some)
  moreover have "find_channel P st1 (hdr_id h) (channel_count st1) = Inr p"
    using p(1) ctx1 find_channel_cong [OF ctx1] by (simp add: st1_def)
  moreover have "get_ch st1 p = Inr c" using p(2) c by (simp add: get_ch_def st1_def)
  moreover have "s_detect_loose_packet st = (st1, False)" by (simp add: s_detect_loose_packet_def st1_def)
  moreover have "delivered (set_ch st1 p c') = delivered st" for c' by (simp add: set_ch_def st1_def)
  ultimately have "ch_pkt_in P st area (16 + length d) = Inr (f p h (map Some d) st2, True)"
    using f p(2) c(2) d ch_hdr_roundtrip [of h "[]"]
    by (simp add: ch_pkt_in_def CH_HDR_SIZE_def size_field st2_def Let_def)
  moreover have "delivered st2 = delivered st @ [(k, h, map Some d)]" by (simp add: st2_def)
  moreover note \<open>frags st2 = frags st\<close> \<open>pending st2 = pending st\<close> ctx2
  moreover have "ctx (f p h e s) = ctx s" "frags (f p h e s) = frags s" "pending (f p h e s) = pending s"
    "delivered (f p h e s) = delivered s" for e s
    using cb f by (simp_all add: callbacks_ok_def)
  ultimately show ?thesis by simp
qed

section \<open>Packets on the wire\<close>

datatype spkt = SData dap_stream_ch_pkt_hdr "byte list" | SFrag dap_stream_ch_pkt_hdr "byte list" nat "byte list"

definition whole :: "dap_stream_ch_pkt_hdr \<Rightarrow> byte list \<Rightarrow> byte list" where
  "whole h d = ch_hdr_bytes h @ d"

fun plain :: "spkt \<Rightarrow> byte list" where
  "plain (SData h d) = whole h d"
| "plain (SFrag h d s b) = fragment_bytes (length b) s (length (whole h d)) b"

fun ptype :: "spkt \<Rightarrow> byte" where
  "ptype (SData h d) = STREAM_PKT_TYPE_DATA_PACKET"
| "ptype (SFrag h d s b) = STREAM_PKT_TYPE_FRAGMENT_PACKET"

definition cipher_out :: "(byte list \<Rightarrow> nat \<Rightarrow> byte list) \<Rightarrow> byte list \<Rightarrow> byte list" where
  "cipher_out e x = e x (length x + DAP_STREAM_PKT_ENCRYPTION_OVERHEAD)"

definition wire :: "(byte list \<Rightarrow> nat \<Rightarrow> byte list) \<Rightarrow> spkt \<Rightarrow> byte list" where
  "wire e p = frame (ptype p) (cipher_out e (plain p))"

text \<open>The decipherer undoes the cipher, which adds no more than the overhead it is given.\<close>

definition cipher_ok :: "(byte list \<Rightarrow> nat \<Rightarrow> byte list) \<Rightarrow> (byte list \<Rightarrow> nat \<Rightarrow> byte list) \<Rightarrow> bool" where
  "cipher_ok e d \<longleftrightarrow> (\<forall>x. length x \<le> DAP_STREAM_PKT_FRAGMENT_SIZE + FRAGMENT_HDR_SIZE \<longrightarrow>
     d (cipher_out e x) STREAM_BUF_SIZE_MAX = x \<and>
     length (cipher_out e x) \<le> length x + DAP_STREAM_PKT_ENCRYPTION_OVERHEAD)"

definition has_decipher :: "dap_stream \<Rightarrow> (byte list \<Rightarrow> nat \<Rightarrow> byte list) \<Rightarrow> bool" where
  "has_decipher st d \<longleftrightarrow> (\<exists>k. stream_key st = Inr (Some k) \<and> dec_na k = Some d)"

lemma has_decipher_cong: "ctx st = ctx st' \<Longrightarrow> has_decipher st d = has_decipher st' d"
  by (simp add: has_decipher_def stream_key_def ctx_def cong: option.case_cong)

lemma read_unsafe_ok: "has_decipher st d \<Longrightarrow> dap_stream_pkt_read_unsafe st x n = Inr (d x n)"
  by (auto simp: has_decipher_def dap_stream_pkt_read_unsafe_def)

text \<open>The packet that is put together and how much of it has come; what the next packets may be.\<close>

type_synonym gather = "byte list \<times> nat"

fun next_gather :: "gather \<Rightarrow> spkt \<Rightarrow> gather" where
  "next_gather g (SData h d) = g"
| "next_gather g (SFrag h d s b) = (if s + length b = length (whole h d) then (whole h d, 0) else (whole h d, s + length b))"

fun fits :: "gather \<Rightarrow> spkt \<Rightarrow> bool" where
  "fits (F, n) (SData h d) \<longleftrightarrow> n = 0 \<and> unat (hdr_size h) = length d \<and> length (whole h d) \<le> DAP_STREAM_PKT_FRAGMENT_SIZE"
| "fits (F, n) (SFrag h d s b) \<longleftrightarrow> n = s \<and> (0 < n \<longrightarrow> F = whole h d) \<and> unat (hdr_size h) = length d \<and>
     length (whole h d) < 2 ^ 32 \<and> b \<noteq> [] \<and> length b \<le> DAP_STREAM_PKT_FRAGMENT_SIZE \<and> s + length b \<le> length (whole h d) \<and>
     b = chunk (whole h d) s (length b)"

fun valid :: "gather \<Rightarrow> spkt list \<Rightarrow> bool" where
  "valid g [] \<longleftrightarrow> snd g = 0"
| "valid g (p # ps) \<longleftrightarrow> fits g p \<and> valid (next_gather g p) ps"

fun gives :: "(byte \<Rightarrow> byte) \<Rightarrow> spkt \<Rightarrow> (byte \<times> dap_stream_ch_pkt_hdr \<times> byte option list) list" where
  "gives kd (SData h d) = [(kd (hdr_id h), h, map Some d)]"
| "gives kd (SFrag h d s b) = (if s + length b = length (whole h d) then [(kd (hdr_id h), h, map Some d)] else [])"

fun pkt_id :: "spkt \<Rightarrow> byte" where
  "pkt_id (SData h d) = hdr_id h" | "pkt_id (SFrag h d s b) = hdr_id h"

fun frag_state :: "gather \<Rightarrow> byte option list option \<times> nat \<times> nat" where
  "frag_state (F, n) = (if n = 0 then (None, 0, 0)
     else (Some (map Some (take n F) @ replicate (length F - n) None), length F, n))"

lemma length_whole [simp]: "length (whole h d) = 16 + length d"
  by (simp add: whole_def)

lemma length_plain: "fits g p \<Longrightarrow> length (plain p) \<le> DAP_STREAM_PKT_FRAGMENT_SIZE + FRAGMENT_HDR_SIZE"
  by (cases g; cases p) (simp_all add: fragment_bytes_def FRAGMENT_HDR_SIZE_def)

lemma fragment_fields:
  assumes "n < 2 ^ 32" "s < 2 ^ 32" "full < 2 ^ 32"
  shows "le_val (chunk (fragment_bytes n s full b @ z) 0 4) = n"
    "le_val (chunk (fragment_bytes n s full b @ z) 4 4) = s"
    "le_val (chunk (fragment_bytes n s full b @ z) 8 4) = full"
    "chunk (fragment_bytes n s full b @ z) 12 (length b) = b"
proof -
  have 0: "chunk (fragment_bytes n s full b @ z) 0 4 = le_bytes 4 n" by (simp add: fragment_bytes_def chunk_def)
  have 1: "chunk (fragment_bytes n s full b @ z) 4 4 = le_bytes 4 s" by (simp add: fragment_bytes_def chunk_def)
  have 2: "chunk (fragment_bytes n s full b @ z) 8 4 = le_bytes 4 full" by (simp add: fragment_bytes_def chunk_def)
  show "le_val (chunk (fragment_bytes n s full b @ z) 0 4) = n"
    "le_val (chunk (fragment_bytes n s full b @ z) 4 4) = s"
    "le_val (chunk (fragment_bytes n s full b @ z) 8 4) = full"
    unfolding 0 1 2 using assms by (simp_all add: le_val_le_bytes)
  show "chunk (fragment_bytes n s full b @ z) 12 (length b) = b"
    by (simp add: fragment_bytes_def chunk_def)
qed

lemma blit_0: "length src \<le> length dst \<Longrightarrow> blit dst 0 src = src @ drop (length src) dst"
  by (simp add: blit_def)

lemma blit_gather:
  assumes "s + length b \<le> length F" "b = chunk F s (length b)"
  shows "blit (map Some (take s F) @ replicate (length F - s) None) s (map Some b) =
    map Some (take (s + length b) F) @ replicate (length F - (s + length b)) None"
proof -
  have "take s F @ b = take (s + length b) F" using assms by (simp add: chunk_def take_add)
  then have "map Some (take s F) @ map Some b = map Some (take (s + length b) F)" by (simp flip: map_append)
  moreover have "length (take s F) = s" using assms(1) by simp
  ultimately show ?thesis using assms(1) by (simp add: blit_def)
qed

lemma data_in:
  assumes cb: "callbacks_ok P" and sv: "serves P st (hdr_id h) k" and dc: "has_decipher st d"
    and cache: "length (pkt_cache st) = STREAM_BUF_SIZE_MAX"
    and f: "fits g (SData h x)" and out: "d out STREAM_BUF_SIZE_MAX = whole h x"
  shows "\<exists>st'. data_pkt_in P st out = Inr (st', Keep) \<and> ctx st' = ctx st \<and> frags st' = frags st \<and>
    pending st' = pending st \<and> delivered st' = delivered st @ [(k, h, map Some x)]"
proof -
  have len: "length (whole h x) \<le> length (pkt_cache st)" and sz: "unat (hdr_size h) = length x"
    using f cache by (cases g; simp add: size_consts)+
  define cache' where "cache' = whole h x @ drop (length (whole h x)) (pkt_cache st)"
  let ?st = "st\<lparr>pkt_cache := cache'\<rparr>"
  have cx: "ctx ?st = ctx st" using len by (simp add: ctx_def cache'_def)
  obtain st' where st': "ch_pkt_in P ?st (map Some cache') (16 + length x) = Inr (st', True)" "ctx st' = ctx ?st"
    "frags st' = frags ?st" "pending st' = pending ?st" "delivered st' = delivered ?st @ [(k, h, map Some x)]"
    using ch_pkt_in_ok [OF cb _ sz, of ?st k "map Some cache'" "map Some (drop (length (whole h x)) (pkt_cache st))"]
      serves_cong [OF cx] sv by (auto simp: cache'_def whole_def)
  have "blitE (pkt_cache st) 0 (whole h x) = Inr cache'"
    using len by (simp add: blit_0 cache'_def)
  then show ?thesis
    using st' cx by (simp add: data_pkt_in_def read_unsafe_ok [OF dc] out frags_def pending_def)
qed

lemma fragment_in:
  assumes cb: "callbacks_ok P" and sv: "serves P st (hdr_id h) k" and dc: "has_decipher st d"
    and cache: "length (pkt_cache st) = STREAM_BUF_SIZE_MAX" and fr: "frags st = frag_state g"
    and f: "fits g (SFrag h x s b)" and out: "d out STREAM_BUF_SIZE_MAX = plain (SFrag h x s b)"
  shows "\<exists>st' oc. fragment_pkt_in P st out = Inr (st', oc) \<and> ctx st' = ctx st \<and>
    pending st' = pending st \<and> (if s + length b = 16 + length x
      then oc = Clean \<and> delivered st' = delivered st @ [(k, h, map Some x)]
      else oc = Keep \<and> delivered st' = delivered st \<and> frags st' = frag_state (whole h x, s + length b))"
proof -
  let ?W = "whole h x"
  obtain F n where g: "g = (F, n)" by (cases g)
  have nb: "length b \<le> DAP_STREAM_PKT_FRAGMENT_SIZE" "b \<noteq> []" "s + length b \<le> length ?W" "b = chunk ?W s (length b)"
    "length ?W < 2 ^ 32" "n = s" "0 < n \<Longrightarrow> F = ?W" and sz: "unat (hdr_size h) = length x"
    using f unfolding g fits.simps by blast+
  define p where "p = plain (SFrag h x s b)"
  have lp: "length p = 12 + length b" by (simp add: p_def fragment_bytes_def)
  have lc: "length p \<le> length (pkt_cache st)" using nb(1) cache by (simp add: lp size_consts)
  define cache' where "cache' = p @ drop (length p) (pkt_cache st)"
  define st1 where "st1 = st\<lparr>pkt_cache := cache'\<rparr>"
  have cx1: "ctx st1 = ctx st" using lc by (simp add: ctx_def st1_def cache'_def)
  have "length b < 2 ^ 32" "s < 2 ^ 32" using nb(3,5) by simp_all
  note fld = fragment_fields [OF this nb(5), of b "drop (length p) (pkt_cache st)"]
  have blit1: "blitE (pkt_cache st) 0 p = Inr cache'" using lc by (simp add: blit_0 cache'_def)
  have fl: "le_val (chunk cache' 0 4) = length b" "le_val (chunk cache' 4 4) = s" "le_val (chunk cache' 8 4) = length ?W"
    "chunk cache' 12 (length b) = b"
    using fld by (simp_all only: cache'_def p_def plain.simps)
  let ?A = "map Some (take s ?W) @ replicate (length ?W - s) None"
  have "buf_fragments_size_filled st = s" using fr by (simp add: frags_def g nb(6) split: if_splits)
  then have filled: "buf_fragments_size_filled st1 = s" by (simp add: st1_def)
  have mem: "(case buf_fragments st1 of None \<Rightarrow> (replicate (length ?W) None, length ?W)
     | Some fs \<Rightarrow> if buf_fragments_size_total st1 < length ?W then (replicate (length ?W) None, length ?W)
         else (fs, buf_fragments_size_total st1)) = (?A, length ?W)"
    using fr nb(6,7) by (cases "s = 0") (auto simp: frags_def g st1_def)
  have A: "length ?A = length ?W" using nb(3) by simp
  let ?B = "map Some (take (s + length b) ?W) @ replicate (length ?W - (s + length b)) None"
  have blit2: "blitE ?A s (map Some b) = Inr ?B"
    using blit_gather [OF nb(3,4)] nb(3) by (simp only: blitE_def A length_map if_True)
  define st2 where "st2 = st1\<lparr>buf_fragments := Some ?B, buf_fragments_size_total := length ?W,
    buf_fragments_size_filled := s + length b\<rparr>"
  have cx2: "ctx st2 = ctx st" using cx1 by (simp add: ctx_def st2_def)
  have p2: "pending st2 = pending st" "delivered st2 = delivered st" by (simp_all add: pending_def st2_def st1_def)
  have step: "fragment_pkt_in P st out = (if s + length b < length ?W then Inr (st2, Keep)
      else bindE (ch_pkt_in P st2 ?B (length ?W)) (\<lambda>(st3, _). Inr (st3, Clean)))"
  proof -
    have ne: "length p \<noteq> 0" "length p = length b + 12" using lp by simp_all
    have 0: "d out STREAM_BUF_SIZE_MAX = p" using out by (simp add: p_def)
    show ?thesis
      unfolding fragment_pkt_in_def read_unsafe_ok [OF dc] 0 bindE_simps blit1 Let_def st1_def [symmetric]
      unfolding fl FRAGMENT_HDR_SIZE_def filled
      unfolding fl mem prod.case blit2 bindE_simps st2_def [symmetric]
      using ne by simp
  qed
  show ?thesis
  proof (cases "s + length b = length ?W")
    case True
    have "serves P st2 (hdr_id h) k" using sv serves_cong [OF cx2] by simp
    moreover have "?B = map Some (ch_hdr_bytes h @ x) @ []" using True by (simp add: whole_def)
    ultimately obtain st' where "ch_pkt_in P st2 ?B (16 + length x) = Inr (st', True)" "ctx st' = ctx st2"
      "pending st' = pending st2" "delivered st' = delivered st2 @ [(k, h, map Some x)]"
      using ch_pkt_in_ok [OF cb _ sz] by metis
    then show ?thesis using True by (simp add: step cx2 p2)
  next
    case False
    then have "s + length b < length ?W" using nb(3) by simp
    then show ?thesis using nb(2) by (simp add: step cx2 p2) (simp add: st2_def frags_def)
  qed
qed

text \<open>One packet: what it does depends on the packet alone, not on what follows it in the buffer.\<close>

lemma packet_in:
  assumes cb: "callbacks_ok P" and sv: "serves P st (pkt_id p) (kd (pkt_id p))" and dc: "has_decipher st d"
    and ok: "cipher_ok e d" and cache: "length (pkt_cache st) = STREAM_BUF_SIZE_MAX" and fr: "frags st = frag_state g"
    and f: "fits g p"
  shows "\<exists>st'. s_stream_proc_pkt_in P uuid st (wire e p @ z) = Inr st' \<and> ctx st' = ctx st \<and>
    pending st' = pending st \<and> delivered st' = delivered st @ gives kd p \<and> frags st' = frag_state (next_gather g p)"
proof -
  let ?out = "cipher_out e (plain p)" and ?st = "st\<lparr>is_active := True\<rparr>"
  have out: "d ?out STREAM_BUF_SIZE_MAX = plain p" "length ?out \<le> length (plain p) + DAP_STREAM_PKT_ENCRYPTION_OVERHEAD"
    using ok length_plain [OF f] by (simp_all add: cipher_ok_def)
  have "length ?out < 2 ^ 32" using out(2) length_plain [OF f] by (simp add: size_consts)
  then have q: "pkt_type (wire e p @ z) = ptype p" "chunk (wire e p @ z) PKT_HDR_SIZE (pkt_size (wire e p @ z)) = ?out"
    by (simp_all add: wire_def pkt_type_frame pkt_size_frame pkt_data_frame PKT_HDR_SIZE_def)
  have ne: "STREAM_PKT_TYPE_DATA_PACKET \<noteq> STREAM_PKT_TYPE_FRAGMENT_PACKET" by (simp add: type_consts)
  have cx: "ctx ?st = ctx st" by (simp add: ctx_def)
  have sv': "serves P ?st (pkt_id p) (kd (pkt_id p))" and dc': "has_decipher ?st d"
    using sv dc serves_cong [OF cx] has_decipher_cong [OF cx] by simp_all
  have same: "frags ?st = frags st" "pending ?st = pending st" "delivered ?st = delivered st" "pkt_cache ?st = pkt_cache st"
    by (simp_all add: frags_def pending_def)
  show ?thesis
  proof (cases p)
    case (SData h x)
    obtain st' where "data_pkt_in P ?st ?out = Inr (st', Keep)" "ctx st' = ctx ?st" "frags st' = frags ?st"
      "pending st' = pending ?st" "delivered st' = delivered ?st @ [(kd (hdr_id h), h, map Some x)]"
      using data_in [OF cb _ dc' _ f [unfolded SData], of "kd (hdr_id h)" ?out] sv' out(1) cache by (auto simp: SData same)
    then show ?thesis using fr cx same by (simp add: s_stream_proc_pkt_in_def q [unfolded SData] SData ne Let_def)
  next
    case (SFrag h x s b)
    obtain st' oc where st': "fragment_pkt_in P ?st ?out = Inr (st', oc)" "ctx st' = ctx ?st" "pending st' = pending ?st"
      "if s + length b = 16 + length x then oc = Clean \<and> delivered st' = delivered ?st @ [(kd (hdr_id h), h, map Some x)]
       else oc = Keep \<and> delivered st' = delivered ?st \<and> frags st' = frag_state (whole h x, s + length b)"
      using fragment_in [OF cb _ dc' _ _ f [unfolded SFrag], of "kd (hdr_id h)" ?out] sv' out(1) cache fr
      by (auto simp: SFrag same)
    have "ctx (clean_fragments st') = ctx st'" "pending (clean_fragments st') = pending st'"
      "delivered (clean_fragments st') = delivered st'" "frags (clean_fragments st') = (None, 0, 0)"
      by (simp_all add: ctx_def pending_def frags_def clean_fragments_def)
    then show ?thesis using st' cx same by (simp add: s_stream_proc_pkt_in_def q [unfolded SFrag] SFrag Let_def split: if_splits)
  qed
qed

section \<open>The bytes may arrive in any pieces\<close>

lemma valid_append: "valid g (ps @ qs) \<Longrightarrow> valid (foldl next_gather g ps) qs"
  by (induction ps arbitrary: g) simp_all

lemma wire_fits:
  assumes "cipher_ok e d" "fits g p"
  shows "frame_fits (cipher_out e (plain p))"
proof -
  have "length (cipher_out e (plain p)) \<le> length (plain p) + DAP_STREAM_PKT_ENCRYPTION_OVERHEAD"
    using assms(1) length_plain [OF assms(2)] by (simp add: cipher_ok_def)
  then show ?thesis using length_plain [OF assms(2)] by (simp add: frame_fits_def size_consts)
qed

lemma read_packets_run:
  assumes cb: "callbacks_ok P" and ok: "cipher_ok e d"
    and tail: "\<And>st. read_packets P uuid st t = Inr (st, t)"
    and st: "has_decipher st d" "length (pkt_cache st) = STREAM_BUF_SIZE_MAX" "frags st = frag_state g"
      "valid g (ps @ qs)" "\<forall>p \<in> set ps. serves P st (pkt_id p) (kd (pkt_id p))"
  shows "\<exists>st'. read_packets P uuid st (concat (map (wire e) ps) @ t) = Inr (st', t) \<and> ctx st' = ctx st \<and>
    pending st' = pending st \<and> delivered st' = delivered st @ concat (map (gives kd) ps) \<and>
    frags st' = frag_state (foldl next_gather g ps)"
  using st
proof (induction ps arbitrary: st g)
  case Nil
  then show ?case using tail by simp
next
  case (Cons p ps)
  have f: "fits g p" and v: "valid (next_gather g p) (ps @ qs)" using Cons.prems(4) by simp_all
  let ?z = "concat (map (wire e) ps) @ t"
  obtain st1 where st1: "s_stream_proc_pkt_in P uuid st (wire e p @ ?z) = Inr st1" "ctx st1 = ctx st"
    "pending st1 = pending st" "delivered st1 = delivered st @ gives kd p" "frags st1 = frag_state (next_gather g p)"
    using packet_in [OF cb _ Cons.prems(1) ok Cons.prems(2,3) f, of kd uuid ?z] Cons.prems(5) by auto
  have "length (pkt_cache st1) = STREAM_BUF_SIZE_MAX" using st1(2) Cons.prems(2) by (simp add: ctx_def)
  then obtain st2 where st2: "read_packets P uuid st1 ?z = Inr (st2, t)" "ctx st2 = ctx st1" "pending st2 = pending st1"
    "delivered st2 = delivered st1 @ concat (map (gives kd) ps)" "frags st2 = frag_state (foldl next_gather (next_gather g p) ps)"
    using Cons.IH [of st1 "next_gather g p"] Cons.prems v st1 has_decipher_cong [OF st1(2)] serves_cong [OF st1(2)] by auto
  have "read_packets P uuid st (wire e p @ ?z) =
      bindE (s_stream_proc_pkt_in P uuid st (wire e p @ ?z)) (\<lambda>st'. read_packets P uuid st' ?z)"
    unfolding wire_def [of e p] by (rule read_packets_frame [OF wire_fits [OF ok f]])
  then have "read_packets P uuid st (wire e p @ ?z) = Inr (st2, t)" by (simp only: st1(1) st2(1) bindE_simps)
  then show ?case using st1 st2 by (intro exI [of _ st2]) simp
qed

lemma prefix_concat:
  assumes "prefix b (concat xs)"
  shows "\<exists>us ws t. xs = us @ ws \<and> b = concat us @ t \<and> (t = [] \<or> (\<exists>w ws'. ws = w # ws' \<and> strict_prefix t w))"
  using assms
proof (induction xs arbitrary: b)
  case Nil
  then show ?case by auto
next
  case (Cons x xs)
  show ?case
  proof (cases "strict_prefix b x")
    case True
    then show ?thesis by (intro exI [of _ "[]"] exI [of _ "x # xs"] exI [of _ b]) auto
  next
    case False
    have "prefix b x \<or> (\<exists>c. b = x @ c \<and> prefix c (concat xs))" using Cons.prems by (simp add: prefix_append)
    then obtain c where c: "b = x @ c" "prefix c (concat xs)" using False by (auto simp: strict_prefix_def)
    from Cons.IH [OF c(2)] obtain us ws t where "xs = us @ ws" "c = concat us @ t"
      "t = [] \<or> (\<exists>w ws'. ws = w # ws' \<and> strict_prefix t w)" by blast
    then show ?thesis using c(1) by (intro exI [of _ "x # us"] exI [of _ ws] exI [of _ t]) simp
  qed
qed

definition opt_bytes :: "byte list \<Rightarrow> byte list option" where
  "opt_bytes b = (if b = [] then None else Some b)"

lemma recv_step:
  assumes cb: "callbacks_ok P" and ok: "cipher_ok e d"
    and st: "has_decipher st d" "length (pkt_cache st) = STREAM_BUF_SIZE_MAX" "frags st = frag_state g"
      "valid g (ps @ qs)" "\<forall>p \<in> set ps. serves P st (pkt_id p) (kd (pkt_id p))"
    and pend: "pending st = (opt_bytes b, [])" "b @ c = concat (map (wire e) ps) @ t"
    and tail: "t = [] \<or> (\<exists>q qs'. qs = q # qs' \<and> strict_prefix t (wire e q))"
  shows "\<exists>st'. stream_recv P uuid st c = Inr st' \<and> ctx st' = ctx st \<and> pending st' = (opt_bytes t, []) \<and>
    delivered st' = delivered st @ concat (map (gives kd) ps) \<and> frags st' = frag_state (foldl next_gather g ps)"
proof -
  have t: "read_packets P uuid st t = Inr (st, t)" for st
  proof (cases "t = []")
    case False
    then obtain q qs' where q: "qs = q # qs'" "strict_prefix t (wire e q)" using tail by blast
    have "fits (foldl next_gather g ps) q" using valid_append [OF st(4)] q(1) by simp
    then show ?thesis using read_packets_prefix [OF q(2) [unfolded wire_def]] wire_fits [OF ok] by blast
  qed (simp add: read_packets.simps)
  define st1 where "st1 = st\<lparr>esocket := (esocket st)\<lparr>buf_in := c\<rparr>, pkt_buf_in := Some (b @ c)\<rparr>"
  have c1: "ctx st1 = ctx st" "frags st1 = frags st" "delivered st1 = delivered st" "pending st1 = (Some (b @ c), c)"
    "pkt_cache st1 = pkt_cache st"
    by (simp_all add: st1_def ctx_def frags_def pending_def)
  have run: "\<exists>st2. (if PKT_HDR_SIZE \<le> length (b @ c) then read_packets P uuid st1 (b @ c) else Inr (st1, b @ c)) = Inr (st2, t) \<and>
    ctx st2 = ctx st \<and> pending st2 = pending st1 \<and> delivered st2 = delivered st @ concat (map (gives kd) ps) \<and>
    frags st2 = frag_state (foldl next_gather g ps)"
  proof (cases "PKT_HDR_SIZE \<le> length (b @ c)")
    case True
    have "\<exists>st2. read_packets P uuid st1 (concat (map (wire e) ps) @ t) = Inr (st2, t) \<and> ctx st2 = ctx st1 \<and>
      pending st2 = pending st1 \<and> delivered st2 = delivered st1 @ concat (map (gives kd) ps) \<and>
      frags st2 = frag_state (foldl next_gather g ps)"
      using st c1 has_decipher_cong [OF c1(1)] serves_cong [OF c1(1)]
      by (intro read_packets_run [OF cb ok t, where qs = qs]) simp_all
    then show ?thesis using True c1 pend(2) by simp
  next
    case False
    have "ps = []"
    proof (rule ccontr)
      assume "ps \<noteq> []"
      then obtain p ps' where "ps = p # ps'" by (cases ps) auto
      then have "37 \<le> length (b @ c)" unfolding pend(2) by (simp add: wire_def)
      then show False using False by (simp add: PKT_HDR_SIZE_def)
    qed
    then show ?thesis using False c1 pend(2) st(3) by simp
  qed
  then obtain st2 where st2: "(if PKT_HDR_SIZE \<le> length (b @ c) then read_packets P uuid st1 (b @ c) else Inr (st1, b @ c)) = Inr (st2, t)"
    "ctx st2 = ctx st" "pending st2 = (Some (b @ c), c)" "delivered st2 = delivered st @ concat (map (gives kd) ps)"
    "frags st2 = frag_state (foldl next_gather g ps)"
    using c1(4) by auto
  have i: "buf_in (esocket st) = []" "pkt_buf_in st = opt_bytes b" using pend(1) by (simp_all add: pending_def)
  have b: "(case pkt_buf_in st of None \<Rightarrow> [] | Some b \<Rightarrow> b) = b" by (simp add: i opt_bytes_def)
  let ?st0 = "st\<lparr>esocket := (esocket st)\<lparr>buf_in := buf_in (esocket st) @ c\<rparr>\<rparr>"
  have s1: "pkt_buf_in ?st0 = pkt_buf_in st" "buf_in (esocket ?st0) = c" "?st0\<lparr>pkt_buf_in := Some (b @ c)\<rparr> = st1"
    by (simp_all add: st1_def i)
  have bc: "buf_in (esocket (st2\<lparr>pkt_buf_in := opt_bytes t\<rparr>)) = c" "buf_in (esocket st2) = c"
    using st2(3) by (simp_all add: pending_def)
  have "dap_stream_data_proc_read P uuid ?st0 = Inr (st2\<lparr>pkt_buf_in := opt_bytes t\<rparr>, length c)"
    by (simp only: dap_stream_data_proc_read_def Let_def s1 b st2(1) bindE_simps prod.case bc opt_bytes_def)
  then have "stream_recv P uuid st c = Inr (st2\<lparr>pkt_buf_in := opt_bytes t,
      esocket := dap_events_socket_shrink_buf_in (esocket st2) (length c)\<rparr>)"
    by (simp add: stream_recv_def)
  then show ?thesis using st2
    by (simp add: ctx_def frags_def pending_def dap_events_socket_shrink_buf_in_def bc)
qed

lemma recv_all:
  assumes cb: "callbacks_ok P" and ok: "cipher_ok e d"
    and st: "has_decipher st d" "length (pkt_cache st) = STREAM_BUF_SIZE_MAX" "frags st = frag_state g"
      "valid g ps" "\<forall>p \<in> set ps. serves P st (pkt_id p) (kd (pkt_id p))"
    and pend: "pending st = (opt_bytes b, [])" "b @ concat cs = concat (map (wire e) ps)"
      "b = [] \<or> (\<exists>p ps'. ps = p # ps' \<and> strict_prefix b (wire e p))"
  shows "\<exists>st'. stream_recv_all P uuid st cs = Inr st' \<and> ctx st' = ctx st \<and> pending st' = (None, []) \<and>
    delivered st' = delivered st @ concat (map (gives kd) ps) \<and> frags st' = (None, 0, 0)"
  using st pend
proof (induction cs arbitrary: st g ps b)
  case Nil
  have "ps = []"
  proof (rule ccontr)
    assume "ps \<noteq> []"
    then obtain p ps' where p: "ps = p # ps'" by (cases ps) auto
    then have "length (wire e p) \<le> length b" using arg_cong [OF Nil.prems(7), of length] by simp
    moreover have "strict_prefix b (wire e p) \<or> b = []" using Nil.prems(8) p by auto
    ultimately show False by (auto simp: wire_def dest: prefix_length_less)
  qed
  then show ?case using Nil.prems by (cases g) (simp add: opt_bytes_def)
next
  case (Cons c cs)
  have "prefix (b @ c) (concat (map (wire e) ps))" using Cons.prems(7) by (intro prefixI [of _ _ "concat cs"]) simp
  from prefix_concat [OF this] obtain us ws t where s: "map (wire e) ps = us @ ws" "b @ c = concat us @ t"
    "t = [] \<or> (\<exists>w ws'. ws = w # ws' \<and> strict_prefix t w)" by blast
  then obtain ps1 ps2 where ps: "ps = ps1 @ ps2" "us = map (wire e) ps1" "ws = map (wire e) ps2"
    by (auto simp: map_eq_append_conv)
  have t: "t = [] \<or> (\<exists>q qs'. ps2 = q # qs' \<and> strict_prefix t (wire e q))" using s(3) ps(3) by auto
  obtain st1 where st1: "stream_recv P uuid st c = Inr st1" "ctx st1 = ctx st" "pending st1 = (opt_bytes t, [])"
    "delivered st1 = delivered st @ concat (map (gives kd) ps1)" "frags st1 = frag_state (foldl next_gather g ps1)"
    using recv_step [OF cb ok Cons.prems(1-3) _ _ Cons.prems(6) _ t, where ps = ps1 and c = c and kd = kd and uuid = uuid] Cons.prems(4,5) s(2) ps by auto
  have "concat (map (wire e) ps1) @ t @ concat cs = concat (map (wire e) ps1) @ concat (map (wire e) ps2)"
    using Cons.prems(7) s(2) ps by (simp flip: append_assoc)
  then have "t @ concat cs = concat (map (wire e) ps2)" by simp
  moreover have "length (pkt_cache st1) = STREAM_BUF_SIZE_MAX" using st1(2) Cons.prems(2) by (simp add: ctx_def)
  ultimately obtain st2 where "stream_recv_all P uuid st1 cs = Inr st2" "ctx st2 = ctx st1" "pending st2 = (None, [])"
    "delivered st2 = delivered st1 @ concat (map (gives kd) ps2)" "frags st2 = (None, 0, 0)"
    using Cons.IH [of st1 "foldl next_gather g ps1" ps2 t] Cons.prems(1,4,5) valid_append [of g ps1 ps2] ps(1) st1 t
      has_decipher_cong [OF st1(2)] serves_cong [OF st1(2)] by auto
  then show ?case using st1 ps(1) by (intro exI [of _ st2]) simp
qed

end
