(* ===== verification/StreamSend.thy ===== *)
theory StreamSend
  imports StreamProps
begin

text \<open>
  The sending side: a channel packet becomes one data packet or a run of fragments (\<open>packets_of\<close>), and
  a write appends exactly their bytes to the output of the socket.
\<close>

section \<open>The sending side\<close>

definition has_cipher :: "dap_stream \<Rightarrow> (byte list \<Rightarrow> nat \<Rightarrow> byte list) \<Rightarrow> bool" where
  "has_cipher st e \<longleftrightarrow> (\<exists>k. stream_key st = Inr (Some k) \<and> enc_na k = Some e)"

text \<open>What a write leaves alone, and what it adds to the output.\<close>

definition sends :: "dap_stream \<Rightarrow> byte list \<Rightarrow> dap_stream \<Rightarrow> bool" where
  "sends st out st' \<longleftrightarrow> (\<exists>es. st' = st\<lparr>is_active := is_active st', esocket := es\<rparr> \<and>
     buf_out es = buf_out (esocket st) @ out \<and> \<not> signal_close es \<and> buf_out_size_max es = buf_out_size_max (esocket st))"

lemma sendsD:
  assumes "sends st out st'"
  shows "stream_session st' = stream_session st" "stream_sessions st' = stream_sessions st" "chs st' = chs st"
    "seq_id st' = seq_id st" "\<not> signal_close (esocket st')" "buf_out (esocket st') = buf_out (esocket st) @ out"
    "buf_out_size_max (esocket st') = buf_out_size_max (esocket st)"
proof -
  obtain es where e: "st' = st\<lparr>is_active := is_active st', esocket := es\<rparr>"
    and es: "buf_out es = buf_out (esocket st) @ out" "\<not> signal_close es" "buf_out_size_max es = buf_out_size_max (esocket st)"
    using assms by (auto simp: sends_def)
  show "stream_session st' = stream_session st" "stream_sessions st' = stream_sessions st" "chs st' = chs st"
    "seq_id st' = seq_id st" by (subst e, simp)+
  have "esocket st' = es" by (subst e) simp
  then show "\<not> signal_close (esocket st')" "buf_out (esocket st') = buf_out (esocket st) @ out"
    "buf_out_size_max (esocket st') = buf_out_size_max (esocket st)" using es by simp_all
qed

lemma sends_trans:
  assumes "sends st x st1" "sends st1 y st2"
  shows "sends st (x @ y) st2"
proof -
  obtain es1 where 1: "st1 = st\<lparr>is_active := is_active st1, esocket := es1\<rparr>" "buf_out es1 = buf_out (esocket st) @ x"
    "buf_out_size_max es1 = buf_out_size_max (esocket st)"
    using assms(1) by (auto simp: sends_def)
  obtain es2 where 2: "st2 = st1\<lparr>is_active := is_active st2, esocket := es2\<rparr>" "buf_out es2 = buf_out (esocket st1) @ y"
    "\<not> signal_close es2" "buf_out_size_max es2 = buf_out_size_max (esocket st1)"
    using assms(2) by (auto simp: sends_def)
  have e: "esocket st1 = es1" by (subst 1(1)) simp
  have "st2 = st\<lparr>is_active := is_active st2, esocket := es2\<rparr>" by (subst 2(1), subst 1(1)) simp
  then show ?thesis using 1 2 e by (auto simp: sends_def)
qed

lemma stream_key_cong:
  "stream_session st' = stream_session st \<Longrightarrow> stream_sessions st' = stream_sessions st \<Longrightarrow> stream_key st' = stream_key st"
  by (simp add: stream_key_def cong: option.case_cong)

definition packet_room :: "spkt \<Rightarrow> nat" where
  "packet_room p = PKT_HDR_SIZE + length (plain p) + DAP_STREAM_PKT_ENCRYPTION_OVERHEAD"

lemma wire_le_room:
  assumes "cipher_ok e d" "fits g p"
  shows "length (wire e p) \<le> packet_room p"
proof -
  have "length (cipher_out e (plain p)) \<le> length (plain p) + DAP_STREAM_PKT_ENCRYPTION_OVERHEAD"
    using assms(1) length_plain [OF assms(2)] by (simp add: cipher_ok_def)
  then show ?thesis by (simp add: wire_def packet_room_def PKT_HDR_SIZE_def)
qed

lemma pkt_write_ok:
  assumes k: "has_cipher st e" and ok: "cipher_ok e d" and f: "fits g p"
    and es: "\<not> signal_close (esocket st)" "length (buf_out (esocket st)) + packet_room p \<le> buf_out_size_max (esocket st)"
  shows "\<exists>st' n. dap_stream_pkt_write_unsafe st (ptype p) (plain p) = Inr (st', n) \<and> sends st (wire e p) st'"
proof -
  let ?x = "plain p" let ?out = "cipher_out e ?x"
  obtain key where key: "stream_key st = Inr (Some key)" "enc_na key = Some e" using k by (auto simp: has_cipher_def)
  have len: "length ?out \<le> length ?x + 200"
    using ok length_plain [OF f] by (simp add: cipher_ok_def size_consts)
  have enc: "dap_enc_code (Some key) ?x (length ?x + DAP_STREAM_PKT_ENCRYPTION_OVERHEAD) = ?out"
    by (simp add: dap_enc_code_def key(2) cipher_out_def)
  have small: "length ?out mod 2 ^ 32 = length ?out" "\<not> STREAM_BUF_SIZE_MAX < PKT_HDR_SIZE + length ?out"
    using len length_plain [OF f] by (simp_all add: size_consts)
  have room: "length (buf_out (esocket st)) + length (wire e p) \<le> buf_out_size_max (esocket st)"
    using es(2) len by (simp add: packet_room_def wire_def size_consts)
  then have w: "dap_events_socket_write_unsafe (esocket st) (wire e p) =
    (dap_events_socket_set_writable_unsafe ((esocket st)\<lparr>buf_out := buf_out (esocket st) @ wire e p\<rparr>) True, length (wire e p))"
    using es(1) by (auto simp: dap_events_socket_write_unsafe_def Let_def)
  have fr: "pkt_hdr_bytes (length ?out) (ptype p) @ take (length ?out) ?out = wire e p" by (simp add: wire_def frame_def)
  have "dap_stream_pkt_write_unsafe st (ptype p) ?x = Inr (st\<lparr>is_active := True, esocket :=
    dap_events_socket_set_writable_unsafe ((esocket st)\<lparr>buf_out := buf_out (esocket st) @ wire e p\<rparr>) True\<rparr>, length (wire e p))"
    unfolding dap_stream_pkt_write_unsafe_def key(1) bindE_simps Let_def enc small(1) fr w prod.case
    using small(2) by simp
  then show ?thesis
    using es(1) by (auto simp: sends_def dap_events_socket_set_writable_unsafe_def)
qed

text \<open>The fragments of a packet, from the place at which \<open>left\<close> bytes are left.\<close>

function fragments :: "dap_stream_ch_pkt_hdr \<Rightarrow> byte list \<Rightarrow> nat \<Rightarrow> nat \<Rightarrow> spkt list" where
  "fragments h d left n =
     (if left = 0 \<or> n = 0 then []
      else let s = length (whole h d) - left in
           SFrag h d s (chunk (whole h d) s n) # fragments h d (left - n) (min (left - n) DAP_STREAM_PKT_FRAGMENT_SIZE))"
  by pat_completeness auto
termination by (relation "measure (\<lambda>(h, d, left, n). left)") auto

declare fragments.simps [simp del]

definition packets_of :: "dap_stream_ch_pkt_hdr \<Rightarrow> byte list \<Rightarrow> spkt list" where
  "packets_of h d = (if length (whole h d) \<le> DAP_STREAM_PKT_FRAGMENT_SIZE then [SData h d]
     else fragments h d (length (whole h d)) CH_HDR_SIZE)"

text \<open>The size of the next fragment at each place.\<close>

definition next_size :: "nat \<Rightarrow> nat \<Rightarrow> nat \<Rightarrow> bool" where
  "next_size full left n \<longleftrightarrow> left \<le> full \<and> (if left = full then n = 16 \<and> 16 \<le> full
     else left + 16 \<le> full \<and> n = min left DAP_STREAM_PKT_FRAGMENT_SIZE)"

lemma next_size_step: "next_size full left n \<Longrightarrow> 0 < left \<Longrightarrow> n \<noteq> 0 \<and> n \<le> left \<and> n \<le> DAP_STREAM_PKT_FRAGMENT_SIZE \<and>
    next_size full (left - n) (min (left - n) DAP_STREAM_PKT_FRAGMENT_SIZE)"
  by (auto simp: next_size_def size_consts split: if_splits)

lemma fragments_valid:
  assumes "next_size (length (whole h d)) left n" "unat (hdr_size h) = length d" "length (whole h d) < 2 ^ 32"
    "left < length (whole h d) \<Longrightarrow> g = (whole h d, if left = 0 then 0 else length (whole h d) - left)"
    "left = length (whole h d) \<Longrightarrow> snd g = 0"
  shows "valid g (fragments h d left n) \<and> foldl next_gather g (fragments h d left n) = (whole h d, 0)
    \<and> concat (map (gives kd) (fragments h d left n)) = (if left = 0 then [] else [(kd (hdr_id h), h, map Some d)])"
  using assms
proof (induction left arbitrary: n g rule: less_induct)
  case (less left)
  let ?W = "whole h d"
  show ?case
  proof (cases "left = 0")
    case True
    then show ?thesis using less.prems(4) by (subst (1 2 3) fragments.simps) simp
  next
    case False
    note st = next_size_step [OF less.prems(1)]
    define s where "s = length ?W - left"
    have l: "left \<le> length ?W" using less.prems(1) by (simp add: next_size_def)
    have nl: "n \<le> left" using st False by blast
    have "s + n \<le> length ?W" unfolding s_def using nl l by linarith
    then have lb: "length (chunk ?W s n) = n" by (rule length_chunk)
    let ?p = "SFrag h d s (chunk ?W s n)"
    have g: "snd g = s" "0 < s \<Longrightarrow> fst g = ?W"
      using less.prems(4,5) l False by (cases "left = length ?W"; simp add: s_def)+
    have fit: "fits g ?p"
      using g st False less.prems(2,3) l lb by (cases g) (auto simp: s_def simp del: length_whole)
    have end_eq: "s + n = length ?W \<longleftrightarrow> left - n = 0" using st False l by (auto simp: s_def)
    let ?g = "next_gather g ?p"
    have "?g = (?W, if left - n = 0 then 0 else length ?W - (left - n))"
      using lb end_eq st False l by (auto simp: s_def)
    moreover have "left - n < left" using st False by auto
    ultimately have IH: "valid ?g (fragments h d (left - n) (min (left - n) DAP_STREAM_PKT_FRAGMENT_SIZE)) \<and>
       foldl next_gather ?g (fragments h d (left - n) (min (left - n) DAP_STREAM_PKT_FRAGMENT_SIZE)) = (?W, 0) \<and>
       concat (map (gives kd) (fragments h d (left - n) (min (left - n) DAP_STREAM_PKT_FRAGMENT_SIZE))) =
         (if left - n = 0 then [] else [(kd (hdr_id h), h, map Some d)])"
      using st False l less.prems(2,3) by (intro less.IH) (auto simp del: length_whole)
    have u: "fragments h d left n = ?p # fragments h d (left - n) (min (left - n) DAP_STREAM_PKT_FRAGMENT_SIZE)"
      using False st by (subst fragments.simps) (simp add: Let_def s_def)
    have "gives kd ?p = (if left - n = 0 then [(kd (hdr_id h), h, map Some d)] else [])"
      by (simp only: gives.simps lb end_eq)
    then show ?thesis using IH fit False unfolding u by simp
  qed
qed

lemma packets_of_valid:
  assumes "unat (hdr_size h) = length d" "length (whole h d) < 2 ^ 32" "snd g = 0"
  shows "valid g (packets_of h d) \<and> snd (foldl next_gather g (packets_of h d)) = 0 \<and>
    concat (map (gives kd) (packets_of h d)) = [(kd (hdr_id h), h, map Some d)]"
proof (cases "length (whole h d) \<le> DAP_STREAM_PKT_FRAGMENT_SIZE")
  case True
  then show ?thesis using assms by (cases g) (simp add: packets_of_def)
next
  case False
  have "next_size (length (whole h d)) (length (whole h d)) 16" by (simp add: next_size_def)
  from fragments_valid [OF this assms(1,2), of g kd] assms(3) False show ?thesis
    by (simp add: packets_of_def CH_HDR_SIZE_def)
qed

lemma write_fragments_ok:
  assumes k: "has_cipher st e" and ok: "cipher_ok e d'" and ns: "next_size (length (whole h d)) left n"
    and h: "unat (hdr_size h) = length d" "length (whole h d) < 2 ^ 32" and es: "\<not> signal_close (esocket st)"
    and room: "length (buf_out (esocket st)) + (\<Sum>p\<leftarrow>fragments h d left n. packet_room p) \<le> buf_out_size_max (esocket st)"
  shows "\<exists>st' r. write_fragments st (ch_hdr_bytes h) d left n ret = Inr (st', r) \<and>
    sends st (concat (map (wire e) (fragments h d left n))) st'"
  using k ns es room
proof (induction left arbitrary: st n ret rule: less_induct)
  case (less left)
  let ?W = "whole h d"
  show ?case
  proof (cases "left = 0")
    case True
    have "st = st\<lparr>is_active := is_active st, esocket := esocket st\<rparr>" by simp
    then have "sends st [] st" using less.prems(3) unfolding sends_def by (metis append_Nil2)
    then show ?thesis using True by (subst write_fragments.simps, subst fragments.simps) simp
  next
    case False
    note step = next_size_step [OF less.prems(2)]
    have l: "left \<le> length ?W" and nl: "n \<le> left" "n \<noteq> 0" "n \<le> DAP_STREAM_PKT_FRAGMENT_SIZE"
      using less.prems(2) step False by (auto simp: next_size_def)
    define s where "s = length ?W - left"
    let ?n' = "min (left - n) DAP_STREAM_PKT_FRAGMENT_SIZE"
    let ?p = "SFrag h d s (chunk ?W s n)"
    have u: "fragments h d left n = ?p # fragments h d (left - n) ?n'"
      using False nl by (subst fragments.simps) (simp add: Let_def s_def)
    have sn: "s + n \<le> length ?W" unfolding s_def using nl l by linarith
    have lb: "length (chunk ?W s n) = n" using sn by (rule length_chunk)
    have "chunk ?W s n \<noteq> []" using lb nl(2) by auto
    then have fit: "fits (?W, s) ?p" using h nl sn lb by (auto simp del: length_whole)
    have s32: "(length ?W - left) mod 2 ^ 32 = s" using h(2) by (simp add: s_def)
    have bytes: "(if s = 0 then chunkE (ch_hdr_bytes h) 0 n else if s < CH_HDR_SIZE then Inl OutOfBounds
        else chunkE d (s - CH_HDR_SIZE) n) = Inr (chunk ?W s n)"
    proof (cases "s = 0")
      case True
      then have "n = 16" using less.prems(2) l by (simp add: next_size_def s_def split: if_splits)
      then show ?thesis using True by (simp add: whole_def chunk_def chunkE_def)
    next
      case False
      then have "left \<noteq> length ?W" by (auto simp: s_def)
      then have "left + 16 \<le> length ?W" using less.prems(2) by (simp add: next_size_def del: length_whole)
      then have s16: "16 \<le> s" unfolding s_def by linarith
      then have "s - 16 + n \<le> length d" using sn by simp
      then show ?thesis using s16 by (simp add: whole_def chunk_def chunkE_def CH_HDR_SIZE_def)
    qed
    obtain st1 k1 where st1: "dap_stream_pkt_write_unsafe st STREAM_PKT_TYPE_FRAGMENT_PACKET
        (fragment_bytes n s (length ?W) (chunk ?W s n)) = Inr (st1, k1)" "sends st (wire e ?p) st1"
      using pkt_write_ok [OF less.prems(1) ok fit less.prems(3)] less.prems(4) lb by (auto simp: u simp del: length_whole)
    note sd = sendsD [OF st1(2)]
    have "has_cipher st1 e" using less.prems(1) stream_key_cong [OF sd(1,2)] by (simp add: has_cipher_def)
    moreover have "length (wire e ?p) \<le> packet_room ?p" by (rule wire_le_room [OF ok fit])
    then have "length (buf_out (esocket st1)) + (\<Sum>p\<leftarrow>fragments h d (left - n) ?n'. packet_room p) \<le> buf_out_size_max (esocket st1)"
      using less.prems(4) sd(6,7) by (simp add: u del: plain.simps)
    moreover have "left - n < left" "next_size (length ?W) (left - n) ?n'" using step False nl by auto
    ultimately obtain st2 r where st2: "write_fragments st1 (ch_hdr_bytes h) d (left - n) ?n' (ret + k1) = Inr (st2, r)"
      "sends st1 (concat (map (wire e) (fragments h d (left - n) ?n'))) st2"
      using less.IH [of "left - n" st1 ?n' "ret + k1"] sd(5) by blast
    have "write_fragments st (ch_hdr_bytes h) d left n ret = Inr (st2, r)"
    proof -
      have full: "CH_HDR_SIZE + length d = length ?W" by (simp add: CH_HDR_SIZE_def)
      show ?thesis
        using False nl(2) st1(1) st2(1)
        by (subst write_fragments.simps) (simp only: full s32 Let_def bytes if_False bindE_simps prod.case)
    qed
    then show ?thesis using sends_trans [OF st1(2) st2(2)] by (simp add: u)
  qed
qed

definition hdr_for :: "procs \<Rightarrow> byte \<Rightarrow> u64 \<Rightarrow> byte \<Rightarrow> byte list \<Rightarrow> dap_stream_ch_pkt_hdr" where
  "hdr_for P k q t x = \<lparr>hdr_id = proc_id (P k), hdr_enc_type = proc_enc_type (P k), hdr_type = t, hdr_seq_id = q,
     hdr_size = word_of_nat (length x)\<rparr>"

lemma size_hdr_for: "length x < 2 ^ 32 \<Longrightarrow> unat (hdr_size (hdr_for P k q t x)) = length x"
  by (simp add: hdr_for_def unat_of_nat)

lemma ch_pkt_write_ok:
  assumes k: "has_cipher st e" and ok: "cipher_ok e d'" and c: "get_ch st p = Inr c"
    and x: "16 + length x < 2 ^ 32" and es: "\<not> signal_close (esocket st)"
    and room: "length (buf_out (esocket st)) +
      (\<Sum>q\<leftarrow>packets_of (hdr_for P (ch_proc c) (seq_id st) t x) x. packet_room q) \<le> buf_out_size_max (esocket st)"
  shows "\<exists>st' r c'. dap_stream_ch_pkt_write_unsafe P st p t x = Inr (st', r) \<and> has_cipher st' e \<and> seq_id st' = seq_id st + 1 \<and>
    get_ch st' p = Inr c' \<and> ch_proc c' = ch_proc c \<and> \<not> signal_close (esocket st') \<and>
    buf_out_size_max (esocket st') = buf_out_size_max (esocket st) \<and>
    buf_out (esocket st') = buf_out (esocket st) @ concat (map (wire e) (packets_of (hdr_for P (ch_proc c) (seq_id st) t x) x))"
proof -
  let ?h = "hdr_for P (ch_proc c) (seq_id st) t x"
  define st1 where "st1 = st\<lparr>seq_id := seq_id st + 1\<rparr>"
  have p: "p \<noteq> 0" "chs st p = Some c" using c by (auto simp: get_ch_def split: if_splits option.splits)
  have k1: "has_cipher st1 e" using k by (simp add: has_cipher_def stream_key_def st1_def cong: option.case_cong)
  have es1: "esocket st1 = esocket st" by (simp add: st1_def)
  have sz: "unat (hdr_size ?h) = length x" using x by (intro size_hdr_for) simp
  let ?w = "if CH_HDR_SIZE + length x \<le> DAP_STREAM_PKT_FRAGMENT_SIZE
     then dap_stream_pkt_write_unsafe st1 STREAM_PKT_TYPE_DATA_PACKET (ch_hdr_bytes ?h @ x)
     else bindE (write_fragments st1 (ch_hdr_bytes ?h) x (CH_HDR_SIZE + length x) CH_HDR_SIZE 0) (\<lambda>(st2, k).
          bindE (dap_stream_ch_set_ready_to_write_unsafe st2 p True) (\<lambda>st3. Inr (st3, k)))"
  have w: "\<exists>st4 r c4. ?w = Inr (st4, r) \<and> stream_session st4 = stream_session st \<and> stream_sessions st4 = stream_sessions st \<and>
      seq_id st4 = seq_id st + 1 \<and> chs st4 p = Some c4 \<and> ch_proc c4 = ch_proc c \<and> \<not> signal_close (esocket st4) \<and>
      buf_out_size_max (esocket st4) = buf_out_size_max (esocket st) \<and>
      buf_out (esocket st4) = buf_out (esocket st) @ concat (map (wire e) (packets_of ?h x))"
  proof (cases "CH_HDR_SIZE + length x \<le> DAP_STREAM_PKT_FRAGMENT_SIZE")
    case True
    then have pk: "packets_of ?h x = [SData ?h x]" by (simp add: packets_of_def CH_HDR_SIZE_def)
    have fit: "fits ([], 0) (SData ?h x)" using True sz by (simp add: CH_HDR_SIZE_def)
    obtain st' r where st': "dap_stream_pkt_write_unsafe st1 STREAM_PKT_TYPE_DATA_PACKET (whole ?h x) = Inr (st', r)"
      "sends st1 (wire e (SData ?h x)) st'"
      using pkt_write_ok [OF k1 ok fit] es room by (auto simp: es1 pk)
    from sendsD [OF st'(2)] show ?thesis
      using True st'(1) p(2) es1 by (intro exI [of _ st'] exI [of _ r] exI [of _ c]) (simp add: pk whole_def st1_def)
  next
    case False
    then have pk: "packets_of ?h x = fragments ?h x (CH_HDR_SIZE + length x) CH_HDR_SIZE"
      by (simp add: packets_of_def CH_HDR_SIZE_def)
    have ns: "next_size (length (whole ?h x)) (CH_HDR_SIZE + length x) CH_HDR_SIZE"
      by (simp add: next_size_def CH_HDR_SIZE_def)
    obtain st2 r where st2: "write_fragments st1 (ch_hdr_bytes ?h) x (CH_HDR_SIZE + length x) CH_HDR_SIZE 0 = Inr (st2, r)"
      "sends st1 (concat (map (wire e) (packets_of ?h x))) st2"
      using write_fragments_ok [OF k1 ok ns sz, of 0] x es room by (auto simp: es1 pk)
    note sd = sendsD [OF st2(2)]
    have c2: "chs st2 p = Some c" using sd(3) p(2) by (simp add: st1_def)
    then have g2: "get_ch st2 p = Inr c" using p(1) by (simp add: get_ch_def)
    show ?thesis
      using False st2(1) sd c2 es1 p(1)
      by (cases "ch_ready_to_write c")
        (auto simp: dap_stream_ch_set_ready_to_write_unsafe_def g2 set_ch_def st1_def dap_events_socket_set_writable_unsafe_def)
  qed
  then obtain st4 r c4 where st4: "?w = Inr (st4, r)" "stream_session st4 = stream_session st" "stream_sessions st4 = stream_sessions st"
    "seq_id st4 = seq_id st + 1" "chs st4 p = Some c4" "ch_proc c4 = ch_proc c" "\<not> signal_close (esocket st4)"
    "buf_out_size_max (esocket st4) = buf_out_size_max (esocket st)"
    "buf_out (esocket st4) = buf_out (esocket st) @ concat (map (wire e) (packets_of ?h x))" by blast
  have g4: "get_ch st4 p = Inr c4" using st4(5) p(1) by (simp add: get_ch_def)
  have "dap_stream_ch_pkt_write_unsafe P st p t x =
      Inr (set_ch st4 p (c4\<lparr>bytes_write := bytes_write c4 + word_of_nat (length x)\<rparr>), r)"
    using p(1) st4(1) g4
    by (simp only: dap_stream_ch_pkt_write_unsafe_def c bindE_simps Let_def hdr_for_def [symmetric] st1_def [symmetric] if_False prod.case)
  moreover define st5 where "st5 = set_ch st4 p (c4\<lparr>bytes_write := bytes_write c4 + word_of_nat (length x)\<rparr>)"
  moreover have "stream_key st5 = stream_key st"
    using st4(2,3) by (intro stream_key_cong) (simp_all add: st5_def set_ch_def)
  then have "has_cipher st5 e" using k by (simp add: has_cipher_def)
  moreover have "seq_id st5 = seq_id st + 1" "esocket st5 = esocket st4"
    "get_ch st5 p = Inr (c4\<lparr>bytes_write := bytes_write c4 + word_of_nat (length x)\<rparr>)"
    using st4(4) p(1) by (simp_all add: st5_def set_ch_def get_ch_def)
  ultimately show ?thesis using st4(6-9) by simp
qed


section \<open>From end to end\<close>

lemma wire_room:
  assumes "cipher_ok e d" "valid g ps"
  shows "length (concat (map (wire e) ps)) \<le> (\<Sum>p\<leftarrow>ps. packet_room p)"
  using assms(2)
proof (induction ps arbitrary: g)
  case (Cons p ps)
  then have f: "fits g p" by simp
  have "length (wire e p) \<le> packet_room p" by (rule wire_le_room [OF assms(1) f])
  moreover have "length (concat (map (wire e) ps)) \<le> (\<Sum>p\<leftarrow>ps. packet_room p)" using Cons.IH [of "next_gather g p"] Cons.prems by simp
  ultimately show ?case by simp
qed simp

lemma valid_appendI: "valid g ps \<Longrightarrow> valid (foldl next_gather g ps) qs \<Longrightarrow> valid g (ps @ qs)"
  by (induction ps arbitrary: g) simp_all

lemma pkt_id_fragments: "\<forall>w \<in> set (fragments h d left n). pkt_id w = hdr_id h"
proof (induction left arbitrary: n rule: less_induct)
  case (less left)
  show ?case
    using less.IH [of "left - n" "min (left - n) DAP_STREAM_PKT_FRAGMENT_SIZE"]
    by (subst fragments.simps) (auto simp: Let_def)
qed

lemma pkt_id_packets_of: "\<forall>w \<in> set (packets_of h d). pkt_id w = hdr_id h"
  using pkt_id_fragments by (auto simp: packets_of_def)

fun ch_pkts_write :: "procs \<Rightarrow> dap_stream \<Rightarrow> ptr \<Rightarrow> (byte \<times> byte list) list \<Rightarrow> dap_stream res" where
  "ch_pkts_write P st p [] = Inr st"
| "ch_pkts_write P st p ((t, x) # ms) = bindE (dap_stream_ch_pkt_write_unsafe P st p t x) (\<lambda>(st', _). ch_pkts_write P st' p ms)"

fun headed :: "procs \<Rightarrow> byte \<Rightarrow> u64 \<Rightarrow> (byte \<times> byte list) list \<Rightarrow> (dap_stream_ch_pkt_hdr \<times> byte list) list" where
  "headed P k q [] = []"
| "headed P k q ((t, x) # ms) = (hdr_for P k q t x, x) # headed P k (q + 1) ms"

definition wire_packets :: "procs \<Rightarrow> byte \<Rightarrow> u64 \<Rightarrow> (byte \<times> byte list) list \<Rightarrow> spkt list" where
  "wire_packets P k q ms = concat (map (\<lambda>(h, x). packets_of h x) (headed P k q ms))"

lemma ch_pkts_write_ok:
  assumes "has_cipher st e" "cipher_ok e d'" "get_ch st p = Inr c" "\<forall>(t, x) \<in> set ms. 16 + length x < 2 ^ 32"
    "\<not> signal_close (esocket st)"
    "length (buf_out (esocket st)) + (\<Sum>q\<leftarrow>wire_packets P (ch_proc c) (seq_id st) ms. packet_room q) \<le> buf_out_size_max (esocket st)"
  shows "\<exists>st'. ch_pkts_write P st p ms = Inr st' \<and>
    buf_out (esocket st') = buf_out (esocket st) @ concat (map (wire e) (wire_packets P (ch_proc c) (seq_id st) ms))"
  using assms
proof (induction ms arbitrary: st c)
  case Nil
  then show ?case by (simp add: wire_packets_def)
next
  case (Cons m ms)
  obtain t x where m: "m = (t, x)" by (cases m)
  let ?pk = "packets_of (hdr_for P (ch_proc c) (seq_id st) t x) x"
  have w: "wire_packets P (ch_proc c) (seq_id st) (m # ms) = ?pk @ wire_packets P (ch_proc c) (seq_id st + 1) ms"
    by (simp add: wire_packets_def m)
  have x: "16 + length x < 2 ^ 32" using Cons.prems(4) m by simp
  have room: "length (buf_out (esocket st)) + (\<Sum>q\<leftarrow>?pk. packet_room q) \<le> buf_out_size_max (esocket st)"
    using Cons.prems(6) by (simp add: w)
  obtain st1 r c1 where st1: "dap_stream_ch_pkt_write_unsafe P st p t x = Inr (st1, r)" "has_cipher st1 e" "seq_id st1 = seq_id st + 1"
    "get_ch st1 p = Inr c1" "ch_proc c1 = ch_proc c" "\<not> signal_close (esocket st1)"
    "buf_out_size_max (esocket st1) = buf_out_size_max (esocket st)"
    "buf_out (esocket st1) = buf_out (esocket st) @ concat (map (wire e) ?pk)"
    using ch_pkt_write_ok [OF Cons.prems(1-3) x Cons.prems(5) room] by blast
  have "valid ([], 0) ?pk"
    using x packets_of_valid [of "hdr_for P (ch_proc c) (seq_id st) t x" x "([], 0)"] size_hdr_for [of x] by simp
  then have "length (concat (map (wire e) ?pk)) \<le> (\<Sum>q\<leftarrow>?pk. packet_room q)"
    by (rule wire_room [OF Cons.prems(2)])
  then have "length (buf_out (esocket st1)) + (\<Sum>q\<leftarrow>wire_packets P (ch_proc c1) (seq_id st1) ms. packet_room q) \<le>
      buf_out_size_max (esocket st1)"
    using Cons.prems(6) st1 by (simp add: w)
  then obtain st2 where "ch_pkts_write P st1 p ms = Inr st2"
    "buf_out (esocket st2) = buf_out (esocket st1) @ concat (map (wire e) (wire_packets P (ch_proc c1) (seq_id st1) ms))"
    using Cons.IH [OF st1(2) Cons.prems(2) st1(4) _ st1(6)] Cons.prems(4) by auto
  then show ?case using st1 by (simp add: m w [unfolded m])
qed

lemma headed_valid:
  assumes "\<forall>(t, x) \<in> set ms. 16 + length x < 2 ^ 32" "snd g = 0"
  shows "valid g (wire_packets P k q ms) \<and>
    concat (map (gives kd) (wire_packets P k q ms)) = map (\<lambda>(h, x). (kd (hdr_id h), h, map Some x)) (headed P k q ms) \<and>
    (\<forall>w \<in> set (wire_packets P k q ms). pkt_id w = proc_id (P k))"
  using assms
proof (induction ms arbitrary: q g)
  case Nil
  then show ?case by (simp add: wire_packets_def)
next
  case (Cons m ms)
  obtain t x where m: "m = (t, x)" by (cases m)
  let ?h = "hdr_for P k q t x"
  have w: "wire_packets P k q (m # ms) = packets_of ?h x @ wire_packets P k (q + 1) ms" by (simp add: wire_packets_def m)
  have x: "16 + length x < 2 ^ 32" using Cons.prems(1) m by simp
  then have sz: "unat (hdr_size ?h) = length x" by (intro size_hdr_for) simp
  from packets_of_valid [OF sz _ Cons.prems(2)] x
  have v: "valid g (packets_of ?h x)" "snd (foldl next_gather g (packets_of ?h x)) = 0"
    "concat (map (gives kd) (packets_of ?h x)) = [(kd (hdr_id ?h), ?h, map Some x)]" by simp_all
  have ids: "\<forall>w \<in> set (packets_of ?h x). pkt_id w = proc_id (P k)"
    using pkt_id_packets_of [of ?h x] by (simp add: hdr_for_def)
  have IH: "valid (foldl next_gather g (packets_of ?h x)) (wire_packets P k (q + 1) ms) \<and>
    concat (map (gives kd) (wire_packets P k (q + 1) ms)) = map (\<lambda>(h, x). (kd (hdr_id h), h, map Some x)) (headed P k (q + 1) ms) \<and>
    (\<forall>w \<in> set (wire_packets P k (q + 1) ms). pkt_id w = proc_id (P k))"
    using Cons.IH Cons.prems(1) v(2) by simp
  then show ?case using v(3) ids valid_appendI [OF v(1)] by (auto simp: w) (simp add: m)+
qed

end
