(* ===== verification/StreamClaims.thy ===== *)
theory StreamClaims
  imports StreamSend
begin

text \<open>
  The stream protocol as a whole: what is written to a channel of one stream is what the processor of
  a channel of the other is given; and the ways a peer can break it.
\<close>

text \<open>
  C4: Messages written to a channel, whole or in fragments, reach the other end whatever the pieces in
  which the bytes of the connection arrive: the processor of the channel gets each message once, in
  order and with its header, and the receiver ends with no pending bytes and no fragments.  The
  cipher is any pair of functions that undo each other and keep to the overhead they are given.
\<close>

theorem stream_delivers:
  assumes "cipher_ok e d"
    and "has_cipher S e" "get_ch S p = Inr c" "\<not> signal_close (esocket S)" "buf_out (esocket S) = []"
    and "\<forall>(t, x) \<in> set ms. 16 + length x < 2 ^ 32"
    and "(\<Sum>q\<leftarrow>wire_packets P (ch_proc c) (seq_id S) ms. packet_room q) \<le> buf_out_size_max (esocket S)"
    and "callbacks_ok P'" "has_decipher R d" "length (pkt_cache R) = STREAM_BUF_SIZE_MAX" "frags R = (None, 0, 0)"
      "pending R = (None, [])" "serves P' R (proc_id (P (ch_proc c))) k"
  shows "\<exists>S'. ch_pkts_write P S p ms = Inr S' \<and>
    (\<forall>cs. concat cs = buf_out (esocket S') \<longrightarrow>
      (\<exists>R'. stream_recv_all P' uuid R cs = Inr R' \<and> pending R' = (None, []) \<and> frags R' = (None, 0, 0) \<and>
        delivered R' = delivered R @ map (\<lambda>(h, x). (k, h, map Some x)) (headed P (ch_proc c) (seq_id S) ms)))"
proof -
  let ?ps = "wire_packets P (ch_proc c) (seq_id S) ms"
  obtain S' where S': "ch_pkts_write P S p ms = Inr S'" "buf_out (esocket S') = concat (map (wire e) ?ps)"
    using ch_pkts_write_ok [OF assms(2,1,3,6,4), of P] assms(5,7) by auto
  have v: "valid ([], 0) ?ps" and g: "concat (map (gives (\<lambda>_. k)) ?ps) = map (\<lambda>(h, x). (k, h, map Some x)) (headed P (ch_proc c) (seq_id S) ms)"
    and ids: "\<forall>w \<in> set ?ps. pkt_id w = proc_id (P (ch_proc c))"
    using headed_valid [OF assms(6), of "([], 0)" P "ch_proc c" "seq_id S" "\<lambda>_. k"] by simp_all
  have "\<exists>R'. stream_recv_all P' uuid R cs = Inr R' \<and> ctx R' = ctx R \<and> pending R' = (None, []) \<and>
      delivered R' = delivered R @ concat (map (gives (\<lambda>_. k)) ?ps) \<and> frags R' = (None, 0, 0)"
    if "concat cs = buf_out (esocket S')" for cs
    using that S'(2) ids assms(11,12,13)
    by (intro recv_all [OF assms(8,1,9,10) _ v, where b = "[]"]) (simp_all add: opt_bytes_def)
  then show ?thesis using S'(1) unfolding g by blast
qed

section \<open>A concrete connection\<close>

definition plain_key :: dap_enc_key where
  "plain_key = \<lparr>enc_na = Some (\<lambda>x n. x), dec_na = Some (\<lambda>x n. x)\<rparr>"

definition demo_procs :: procs where
  "demo_procs = dap_stream_ch_proc_add s_proc_0 0x41 None None (Some (\<lambda>p h d st. st)) None"

definition demo_stream :: dap_stream where
  "demo_stream = \<lparr>esocket = \<lparr>signal_close = False, ready_to_write = False, ready_to_read = True, buf_in = [], buf_out = [],
       buf_out_size_max = 100000\<rparr>,
     conn_http = None, stream_session = Some 7,
     stream_sessions = [7 \<mapsto> \<lparr>create_empty = False, media_id = 0, open_preview = False, opened = 1, ses_key = Some plain_key,
       ses_enc_type = 1, active_channels = replicate 16 0\<rparr>],
     is_active = False, pkt_buf_in = None, buf_fragments = None, buf_fragments_size_total = 0, buf_fragments_size_filled = 0,
     pkt_cache = replicate STREAM_BUF_SIZE_MAX 0, channel = 1 # replicate 254 0, channel_count = 1,
     chs = [1 \<mapsto> \<lparr>ch_proc = 0x41, ch_ready_to_write = False, ch_ready_to_read = True, ch_uuid = 0, bytes_write = 0, bytes_read = 0\<rparr>],
     next_ch = 2, worker_channels = [], seq_id = 0, client_last_seq_id_packet = - 1, keepalive_timer = None, delivered = []\<rparr>"

lemma demo_parts:
  "cipher_ok (\<lambda>x n. x) (\<lambda>x n. x)" "has_cipher demo_stream (\<lambda>x n. x)" "has_decipher demo_stream (\<lambda>x n. x)"
  "callbacks_ok demo_procs" "length (pkt_cache demo_stream) = STREAM_BUF_SIZE_MAX" "frags demo_stream = (None, 0, 0)"
  "pending demo_stream = (None, [])" "serves demo_procs demo_stream 0x41 0x41"
  by (simp_all add: cipher_ok_def cipher_out_def has_cipher_def has_decipher_def stream_key_def demo_stream_def plain_key_def
      callbacks_ok_def demo_procs_def dap_stream_ch_proc_add_def s_proc_0_def frags_def pending_def serves_def nth_ch_def get_ch_def
      CHANNELS_MAX_def)

lemma packet_room_frag: "packet_room (SFrag h d s b) = 249 + length b"
  by (simp add: packet_room_def fragment_bytes_def size_consts)

lemma demo_room:
  assumes "length d = 70000"
  shows "(\<Sum>q\<leftarrow>packets_of h d. packet_room q) = 70763"
proof -
  have l: "length (whole h d) = 70016" using assms by simp
  have c: "length (chunk (whole h d) s n) = n" if "s + n \<le> 70016" for s n
    using that l by (intro length_chunk) simp
  have "fragments h d 70016 16 = SFrag h d 0 (chunk (whole h d) 0 16) # fragments h d 70000 65536"
    "fragments h d 70000 65536 = SFrag h d 16 (chunk (whole h d) 16 65536) # fragments h d 4464 4464"
    "fragments h d 4464 4464 = [SFrag h d 65552 (chunk (whole h d) 65552 4464)]"
    by (subst fragments.simps, simp add: l size_consts Let_def fragments.simps [of h d 0] del: length_whole)+
  then show ?thesis
    by (simp add: packets_of_def l size_consts packet_room_frag c del: length_whole)
qed

theorem stream_delivers_witness:
  "\<exists>S'. ch_pkts_write demo_procs demo_stream 1 [(5, [1, 2, 3]), (6, replicate 70000 9)] = Inr S' \<and>
    (\<exists>R'. stream_recv_all demo_procs (\<lambda>_. 0) demo_stream [take 100 (buf_out (esocket S')), drop 100 (buf_out (esocket S'))] = Inr R' \<and>
      map (\<lambda>(k, h, x). (k, hdr_type h, x)) (delivered R') = [(0x41, 5, map Some [1, 2, 3]), (0x41, 6, map Some (replicate 70000 9))])"
proof -
  let ?ms = "[(5 :: byte, [1, 2, 3] :: byte list), (6, replicate 70000 9)]"
  obtain c where c: "get_ch demo_stream 1 = Inr c" "ch_proc c = 0x41" by (simp add: get_ch_def demo_stream_def)
  have i: "proc_id (demo_procs 0x41) = 0x41" by (simp add: demo_procs_def dap_stream_ch_proc_add_def)
  have es: "\<not> signal_close (esocket demo_stream)" "buf_out (esocket demo_stream) = []" "buf_out_size_max (esocket demo_stream) = 100000"
    "seq_id demo_stream = 0" "delivered demo_stream = []" by (simp_all add: demo_stream_def)
  have small: "packets_of h [1, 2, 3] = [SData h [1, 2, 3]]" for h by (simp add: packets_of_def size_consts)
  have "(\<Sum>q\<leftarrow>wire_packets demo_procs 0x41 0 ?ms. packet_room q) = 256 + 70763"
    using demo_room [of "replicate 70000 9"]
    by (simp add: wire_packets_def small) (simp add: packet_room_def size_consts)
  then have room: "(\<Sum>q\<leftarrow>wire_packets demo_procs (ch_proc c) (seq_id demo_stream) ?ms. packet_room q) \<le> buf_out_size_max (esocket demo_stream)"
    by (simp add: c(2) es)
  have sz: "\<forall>(t, x) \<in> set ?ms. 16 + length x < 2 ^ 32" by simp
  have sv: "serves demo_procs demo_stream (proc_id (demo_procs (ch_proc c))) 0x41" using demo_parts(8) by (simp add: c(2) i)
  note th = stream_delivers [OF demo_parts(1,2) c(1) es(1,2) sz room demo_parts(4,3,5-7) sv, of "\<lambda>_. 0"]
  obtain S' where S': "ch_pkts_write demo_procs demo_stream 1 ?ms = Inr S'"
    and cs: "\<forall>cs. concat cs = buf_out (esocket S') \<longrightarrow>
      (\<exists>R'. stream_recv_all demo_procs (\<lambda>_. 0) demo_stream cs = Inr R' \<and> pending R' = (None, []) \<and> frags R' = (None, 0, 0) \<and>
        delivered R' = delivered demo_stream @ map (\<lambda>(h, x). (0x41, h, map Some x)) (headed demo_procs (ch_proc c) (seq_id demo_stream) ?ms))"
    using th by blast
  have "concat [take 100 (buf_out (esocket S')), drop 100 (buf_out (esocket S'))] = buf_out (esocket S')" by simp
  then obtain R' where
    "stream_recv_all demo_procs (\<lambda>_. 0) demo_stream [take 100 (buf_out (esocket S')), drop 100 (buf_out (esocket S'))] = Inr R'"
    "delivered R' = delivered demo_stream @ map (\<lambda>(h, x). (0x41, h, map Some x)) (headed demo_procs (ch_proc c) (seq_id demo_stream) ?ms)"
    using cs by blast
  with S' show ?thesis by (simp add: hdr_for_def es(5))
qed

text \<open>
  A fragment that reaches beyond the memory its packet claims is copied all the same: whatever the
  processors are, the copy runs out of the block when place and size exceed both the size the fragment
  claims for the packet and the size of the block at hand.
\<close>

theorem stream_fragment_overflow:
  assumes "has_decipher st d" "length (pkt_cache st) = STREAM_BUF_SIZE_MAX"
    and "d pkt STREAM_BUF_SIZE_MAX = fragment_bytes (length b) s full b" "length b < 2 ^ 20" "s < 2 ^ 32" "full < 2 ^ 32"
    and "buf_fragments_size_filled st = s" "\<forall>fs. buf_fragments st = Some fs \<longrightarrow> length fs = buf_fragments_size_total st"
    and "max full (buf_fragments_size_total st) < s + length b"
  shows "fragment_pkt_in P st pkt = Inl OutOfBounds"
proof -
  define p where "p = fragment_bytes (length b) s full b"
  have lp: "length p = length b + 12" by (simp add: p_def fragment_bytes_def)
  then have lc: "length p \<le> length (pkt_cache st)" using assms(2,4) by (simp add: size_consts)
  define cache' where "cache' = p @ drop (length p) (pkt_cache st)"
  have blit1: "blitE (pkt_cache st) 0 p = Inr cache'" using lc by (simp add: blit_0 cache'_def)
  have "length b < 2 ^ 32" using assms(4) by simp
  note fl = fragment_fields [OF this assms(5,6), of b "drop (length p) (pkt_cache st)", folded p_def, folded cache'_def]
  let ?m = "case buf_fragments st of None \<Rightarrow> (replicate full None, full)
     | Some fs \<Rightarrow> if buf_fragments_size_total st < full then (replicate full None, full) else (fs, buf_fragments_size_total st)"
  have "length (fst ?m) < s + length b" using assms(8,9) by (auto split: option.splits)
  then have over: "blitE (fst ?m) s (map Some b) = Inl OutOfBounds" by (simp add: blitE_def)
  have ne: "length p \<noteq> 0" using lp by simp
  have u: "buf_fragments (st\<lparr>pkt_cache := cache'\<rparr>) = buf_fragments st"
    "buf_fragments_size_total (st\<lparr>pkt_cache := cache'\<rparr>) = buf_fragments_size_total st"
    "buf_fragments_size_filled (st\<lparr>pkt_cache := cache'\<rparr>) = s" using assms(7) by simp_all
  show ?thesis
    unfolding fragment_pkt_in_def read_unsafe_ok [OF assms(1)] assms(3) p_def [symmetric] bindE_simps blit1 Let_def FRAGMENT_HDR_SIZE_def
    unfolding fl u lp if_False
    using over by (cases ?m) simp
qed

theorem stream_fragment_overflow_witness:
  "fragment_pkt_in demo_procs demo_stream (fragment_bytes 1 0 0 [9]) = Inl OutOfBounds"
  by (rule stream_fragment_overflow [OF demo_parts(3,5), of _ "[9]" 0 0]) (simp_all add: demo_stream_def)

lemma detect_oversized:
  assumes "take 8 b = c_dap_stream_sig" "16 \<le> length b" "DAP_STREAM_PKT_SIZE_MAX < pkt_size b"
  shows "dap_stream_pkt_detect b = Inr None"
proof -
  obtain x b' where b: "b = x # b'" using assms(2) by (cases b) auto
  have "x = c_dap_stream_sig ! 0" using assms(1) by (simp add: b flip: assms(1))
  then show ?thesis using assms by (simp add: dap_stream_pkt_detect_def b CH_HDR_SIZE_def)
qed

lemma recv_oversized:
  assumes "pending st = (Some b, [])" "take 8 b = c_dap_stream_sig" "16 \<le> length b" "DAP_STREAM_PKT_SIZE_MAX < pkt_size b"
  shows "\<exists>st'. stream_recv P uuid st c = Inr st' \<and> delivered st' = delivered st \<and> pending st' = (Some (b @ c), [])"
proof -
  have "pkt_size (b @ c) = pkt_size b" using assms(3) by (simp add: pkt_size_def chunk_within)
  then have d: "dap_stream_pkt_detect (b @ c) = Inr None" using assms by (intro detect_oversized) simp_all
  have r: "read_packets P uuid s (b @ c) = Inr (s, b @ c)" for s
    by (subst read_packets.simps) (simp add: d)
  have ne: "b @ c \<noteq> []" using assms(3) by auto
  have p: "pkt_buf_in st = Some b" "buf_in (esocket st) = []" using assms(1) by (simp_all add: pending_def)
  show ?thesis
    using ne by (simp add: stream_recv_def dap_stream_data_proc_read_def p r Let_def pending_def dap_events_socket_shrink_buf_in_def)
qed

text \<open>
  C38: Once the pending input starts with a header whose size is above the limit, nothing that arrives is
  ever handled again: all of it is kept, for any sequence of reads.
\<close>

theorem stream_oversized_header_blocks:
  assumes "pending st = (Some b, [])" "take 8 b = c_dap_stream_sig" "16 \<le> length b" "DAP_STREAM_PKT_SIZE_MAX < pkt_size b"
  shows "\<exists>st'. stream_recv_all P uuid st cs = Inr st' \<and> delivered st' = delivered st \<and> pending st' = (Some (b @ concat cs), [])"
  using assms
proof (induction cs arbitrary: st b)
  case (Cons c cs)
  obtain st1 where st1: "stream_recv P uuid st c = Inr st1" "delivered st1 = delivered st" "pending st1 = (Some (b @ c), [])"
    using recv_oversized [OF Cons.prems] by blast
  have "pkt_size (b @ c) = pkt_size b" using Cons.prems(3) by (simp add: pkt_size_def chunk_within)
  then show ?case using Cons.IH [OF st1(3)] Cons.prems st1 by simp
qed simp

theorem stream_oversized_header_blocks_witness:
  "\<exists>st'. stream_recv_all demo_procs (\<lambda>_. 0) (demo_stream\<lparr>pkt_buf_in := Some (pkt_hdr_bytes 3000000 0)\<rparr>) [pkt_hdr_bytes 0 0x11, [1, 2]] = Inr st' \<and>
    delivered st' = [] \<and> pending st' = (Some (pkt_hdr_bytes 3000000 0 @ pkt_hdr_bytes 0 0x11 @ [1, 2]), [])"
proof -
  have "chunk (pkt_hdr_bytes 3000000 0) 8 4 = le_bytes 4 3000000"
    by (simp add: pkt_hdr_bytes_def chunk_def)
  then have "pkt_size (pkt_hdr_bytes 3000000 0) = 3000000" by (simp add: pkt_size_def le_val_le_bytes)
  then show ?thesis
    using stream_oversized_header_blocks [of "demo_stream\<lparr>pkt_buf_in := Some (pkt_hdr_bytes 3000000 0)\<rparr>" "pkt_hdr_bytes 3000000 0"
        demo_procs "\<lambda>_. 0" "[pkt_hdr_bytes 0 0x11, [1, 2]]"]
    by (simp add: pending_def demo_stream_def DAP_STREAM_PKT_SIZE_MAX_def) (simp add: pkt_hdr_bytes_def)
qed

text \<open>A byte that looks like the start of a signature makes the search read behind the data.\<close>

lemma detect_reads_beyond: "dap_stream_pkt_detect (0xa0 # replicate 36 0) = Inl OutOfBounds"
proof -
  have "pkt_detect True i (replicate n 0) = Inl OutOfBounds" for i n
    by (induction n arbitrary: i) (simp_all add: c_dap_stream_sig_def)
  moreover have "take 8 ((0xa0 :: byte) # replicate 36 0) ! 1 \<noteq> c_dap_stream_sig ! 1"
    by (simp add: c_dap_stream_sig_def)
  then have "take 8 ((0xa0 :: byte) # replicate 36 0) \<noteq> c_dap_stream_sig" by metis
  ultimately show ?thesis by (simp add: dap_stream_pkt_detect_def) (simp add: c_dap_stream_sig_def)
qed

end
