(* ===== verification/StreamInv.thy ===== *)
theory StreamInv
  imports StreamSend
begin

text \<open>
  The invariant of a stream - its table of channels, its block of fragments, its buffers - and that
  every step of the event loop keeps it, whatever arrives, when the processors' callbacks do; and which
  events fault in a state with the invariant.
\<close>

section \<open>The invariant of a stream\<close>








































section \<open>Which events fault\<close>

text \<open>
  What a packet holds, if it can be deciphered: a session that is open, with a key that has a decipherer, whose output
  fits into the cache.
\<close>

definition deciphered :: "dap_stream \<Rightarrow> byte list \<Rightarrow> byte list option" where
  "deciphered st pkt_data =
     (case dap_stream_pkt_read_unsafe st pkt_data STREAM_BUF_SIZE_MAX of Inl e \<Rightarrow> None
      | Inr out \<Rightarrow> if length out \<le> STREAM_BUF_SIZE_MAX then Some out else None)"










lemma deciphered_active [simp]: "deciphered (st\<lparr>is_active := a\<rparr>) = deciphered st"
  by (simp add: deciphered_def dap_stream_pkt_read_unsafe_def stream_key_def fun_eq_iff cong: option.case_cong)


























section \<open>What can happen to a stream\<close>









end
