(* ===== verification/HttpHeader.thy ===== *)
theory HttpHeader
  imports Stream
begin

text \<open>
  Headers and start lines of the HTTP server: \<open>http_client/dap_http_header.c\<close> and the parsers of
  \<open>http_client/dap_http_client.c\<close>.  A parser gets the memory from the start of its line to the end of the
  input buffer, of which the line is the first \<open>n\<close> bytes: its loops look at a byte before they
  look at what is left, so they can leave the line.
\<close>

definition CR :: byte where "CR = 0x0d"
definition LF :: byte where "LF = 0x0a"
definition CRLF :: cstr where "CRLF = [CR, LF]"

section \<open>Data\<close>

text \<open>The bytes of a name and a value; both are followed by a NUL.\<close>

record dap_http_header =
  hname :: "byte list"
  hvalue :: "byte list"

text \<open>A character array of the client is given by the string in it; only the path is kept with its length.\<close>

record http_client = dap_http_client +
  action :: cstr
  url_path :: "byte list"
  url_path_len :: nat
  keep_alive :: bool
  in_headers :: "dap_http_header list"
  in_content_type :: cstr
  in_cookie :: cstr
  in_content_length :: u64
  out_headers :: "dap_http_header list"
  out_content_type :: cstr
  out_content_length :: nat
  out_last_modified :: int
  out_connection_close :: bool
  out_cache_position :: nat
  reply_reason_phrase :: cstr
  proc :: "cstr option"

datatype ht_field = HTTP_FLD_K_CONNECTION | HTTP_FLD_K_CONTENT_TYPE | HTTP_FLD_K_CONTENT_LEN | HTTP_FLD_K_COOKIE | HTTP_FLD_NONE

definition ht_fields :: "(ht_field \<times> cstr) list" where
  "ht_fields = [(HTTP_FLD_K_CONNECTION, ascii ''Connection''), (HTTP_FLD_K_CONTENT_TYPE, ascii ''Content-Type''),
     (HTTP_FLD_K_CONTENT_LEN, ascii ''Content-Length''), (HTTP_FLD_K_COOKIE, ascii ''Cookie''), (HTTP_FLD_NONE, [])]"

text \<open>The loop stops at the entry without a name.\<close>

fun ht_find :: "(ht_field \<times> cstr) list \<Rightarrow> byte list \<Rightarrow> ht_field" where
  "ht_find [] nm = HTTP_FLD_NONE"
| "ht_find ((f, name) # fs) nm =
     (if name = [] then f else if length nm = length name \<and> nm = name then f else ht_find fs nm)"

section \<open>Scanning\<close>

text \<open>
  \<open>for (; p (*cp) && n; cp++, n--)\<close>: the byte is read first.  The result is where the loop stops
  and what is left of \<open>n\<close>.
\<close>

function skip_while :: "(byte \<Rightarrow> bool) \<Rightarrow> byte list \<Rightarrow> nat \<Rightarrow> nat \<Rightarrow> (nat \<times> nat) res" where
  "skip_while p mem i n =
     (if length mem \<le> i then Inl OutOfBounds
      else if p (mem ! i) \<and> n \<noteq> 0 then skip_while p mem (i + 1) (n - 1) else Inr (i, n))"
  by pat_completeness auto
termination by (relation "measure (\<lambda>(p, mem, i, n). length mem - i)") auto

declare skip_while.simps [simp del]

fun index_of :: "byte \<Rightarrow> byte list \<Rightarrow> nat option" where
  "index_of c [] = None"
| "index_of c (b # bs) = (if b = c then Some 0 else map_option Suc (index_of c bs))"

section \<open>Headers\<close>

definition dap_http_header_parse :: "http_client \<Rightarrow> byte list \<Rightarrow> nat \<Rightarrow> (http_client \<times> int) res" where
  "dap_http_header_parse cl_ht mem n =
     bindE (chunkE mem 0 n) (\<lambda>ht_line.
     if ht_line = CRLF then Inr (cl_ht, 1)
     else if n < 4 then Inr (cl_ht, -1)
     else case index_of 0x3a ht_line of None \<Rightarrow> Inr (cl_ht, -1)
     | Some k \<Rightarrow>
         bindE (skip_while isspace mem (k + 1) (n - (k + 1))) (\<lambda>(l_pval, l_len).
         let l_valuelen = (if 2 < l_len then l_len - 2 else 0);
             val = chunk mem l_pval l_valuelen in
         bindE (case ht_find ht_fields (take k ht_line) of
             HTTP_FLD_K_CONNECTION \<Rightarrow>
               Inr (cl_ht\<lparr>keep_alive := strncasecmp_eq (buf_text val) (ascii ''Keep-Alive'') l_valuelen\<rparr>)
           | HTTP_FLD_K_CONTENT_TYPE \<Rightarrow>
               if l_valuelen < 256 then Inr (cl_ht\<lparr>in_content_type := buf_text val\<rparr>) else Inl OutOfBounds
           | HTTP_FLD_K_CONTENT_LEN \<Rightarrow>
               Inr (cl_ht\<lparr>in_content_length := scast (word_of_int (atoi (buf_text (take 31 val))) :: u32)\<rparr>)
           | HTTP_FLD_K_COOKIE \<Rightarrow>
               if l_valuelen < 1024 then Inr (cl_ht\<lparr>in_cookie := buf_text val\<rparr>) else Inl OutOfBounds
           | HTTP_FLD_NONE \<Rightarrow> Inr cl_ht) (\<lambda>cl.
         Inr (cl\<lparr>in_headers := in_headers cl @ [\<lparr>hname = take k ht_line, hvalue = val\<rparr>]\<rparr>, 0))))"

definition dap_http_header_add :: "dap_http_header list \<Rightarrow> cstr \<Rightarrow> cstr \<Rightarrow> dap_http_header list" where
  "dap_http_header_add a_top a_name a_value = a_top @ [\<lparr>hname = a_name, hvalue = a_value\<rparr>]"

definition dap_http_out_header_add :: "http_client \<Rightarrow> cstr \<Rightarrow> cstr \<Rightarrow> http_client" where
  "dap_http_out_header_add ht a_name a_value = ht\<lparr>out_headers := dap_http_header_add (out_headers ht) a_name a_value\<rparr>"

text \<open>What formatting gave, cut to the buffer.\<close>

definition dap_http_out_header_add_f :: "http_client \<Rightarrow> cstr \<Rightarrow> cstr \<Rightarrow> http_client" where
  "dap_http_out_header_add_f ht a_name text = dap_http_out_header_add ht a_name (take 1022 text)"

text \<open>A header is named by its position in the list.\<close>

definition dap_http_header_remove :: "dap_http_header list \<Rightarrow> nat \<Rightarrow> dap_http_header list" where
  "dap_http_header_remove a_top i = take i a_top @ drop (i + 1) a_top"

fun dap_http_header_find :: "dap_http_header list \<Rightarrow> cstr \<Rightarrow> nat option" where
  "dap_http_header_find [] a_name = None"
| "dap_http_header_find (h # hs) a_name =
     (if strcmp (buf_text (hname h)) a_name = 0 then Some 0 else map_option Suc (dap_http_header_find hs a_name))"

definition dap_http_headers_dup :: "dap_http_header list \<Rightarrow> dap_http_header list" where
  "dap_http_headers_dup a_top = map (\<lambda>h. \<lparr>hname = buf_text (hname h), hvalue = buf_text (hvalue h)\<rparr>) a_top"

section \<open>Paths\<close>

fun scan_back :: "byte list \<Rightarrow> nat \<Rightarrow> nat" where
  "scan_back path 0 = 0"
| "scan_back path (Suc p) = (if path ! Suc p = 0x2f then Suc p else scan_back path p)"

definition path_len :: "byte list \<Rightarrow> nat \<Rightarrow> nat" where
  "path_len path len = (if len = 0 then length (buf_text path) else len)"

text \<open>Where the last component starts, and the length to which the path is cut (0: not cut).\<close>

definition z_basename :: "byte list \<Rightarrow> nat \<Rightarrow> nat" where
  "z_basename path len =
     (let len = path_len path len in
      if len < 2 then 0 else case scan_back path (len - 1) of 0 \<Rightarrow> 0 | Suc p \<Rightarrow> Suc p + 1)"

definition z_dirname :: "byte list \<Rightarrow> nat \<Rightarrow> nat" where
  "z_dirname path len =
     (let len = path_len path len in if len < 2 then 0 else scan_back path (len - 1))"

section \<open>Start lines\<close>

definition EINVAL :: int where "EINVAL = 22"

text \<open>The loop that looks for the path counts the rest down without looking at it, so it can wrap.\<close>

function skip_to_slash :: "byte list \<Rightarrow> nat \<Rightarrow> nat \<Rightarrow> nat \<Rightarrow> (nat \<times> nat) res" where
  "skip_to_slash mem i n l_len =
     (if length mem \<le> i then Inl OutOfBounds
      else if mem ! i \<noteq> 0x2f \<and> l_len \<noteq> 0 then skip_to_slash mem (i + 1) ((n + (2 ^ 64 - 1)) mod 2 ^ 64) l_len
      else Inr (i, n))"
  by pat_completeness auto
termination by (relation "measure (\<lambda>(mem, i, n, l). length mem - i)") auto

declare skip_to_slash.simps [simp del]

definition s_http_start_line_parse :: "http_client \<Rightarrow> byte list \<Rightarrow> nat \<Rightarrow> (http_client \<times> int) res" where
  "s_http_start_line_parse cl mem n =
     (if n = 2 \<and> take 2 mem = CRLF then Inr (cl, 1)
      else
        bindE (skip_while isspace mem 0 n) (\<lambda>(s0, b0).
        bindE (skip_while (\<lambda>c. \<not> isspace c) mem s0 b0) (\<lambda>(e0, b1).
        bindE (skip_to_slash mem e0 b1 (e0 - s0)) (\<lambda>(s1, b2).
        bindE (skip_while (\<lambda>c. c \<noteq> 0x3f \<and> \<not> isspace c) mem s1 b2) (\<lambda>(e1, b3).
        let cl1 = cl\<lparr>action := buf_text (chunk mem s0 (min (e0 - s0) 31)), url_path := chunk mem s1 (min (e1 - s1) 1023),
                     url_path_len := min (e1 - s1) 1023\<rparr> in
        bindE (if mem ! e1 = 0x3f
               then bindE (skip_while (\<lambda>c. \<not> isspace c) mem (e1 + 1) b3) (\<lambda>(e2, b4).
                 Inr (cl1\<lparr>in_query_string := buf_text (chunk mem (e1 + 1) (min (e2 - (e1 + 1)) 1023))\<rparr>, e2, b4))
               else Inr (cl1, e1, b3)) (\<lambda>(cl2, e2, b4).
        bindE (skip_while isspace mem e2 b4) (\<lambda>(s3, b5).
        bindE (chunkE mem s3 7) (\<lambda>ver.
        Inr (cl2, if ver = ascii ''HTTP/1.'' then 0 else - EINVAL)))))))))"

end
