(* ===== verification/HttpClient.thy ===== *)
theory HttpClient
  imports HttpHeader
begin

text \<open>
  A client of the HTTP server: \<open>http_client/dap_http_client.c\<close>, with the table of URL processors of
  \<open>dap_http.c\<close>, the cache of a processor of \<open>dap_http_cache.c\<close> and the reason phrases of
  \<open>http_status_code.h\<close>.  The state is that of one connection; \<open>behind\<close> is what the memory of the input
  buffer holds behind the data.  The callbacks of a processor are functions on that state which may
  fault, and \<open>inner\<close> is the object a processor hangs on the client.
\<close>

definition http_reasons :: "(nat \<times> string) list" where
  "http_reasons =
    [(100, ''Continue''), (101, ''Switching Protocols''), (102, ''Processing''),
     (103, ''Early Hints''), (200, ''OK''), (201, ''Created''),
     (202, ''Accepted''), (203, ''Non-Authoritative Information''), (204, ''No Content''),
     (205, ''Reset Content''), (206, ''Partial Content''), (207, ''Multi-Status''),
     (208, ''Already Reported''), (226, ''IM Used''), (300, ''Multiple Choices''),
     (301, ''Moved Permanently''), (302, ''Found''), (303, ''See Other''),
     (304, ''Not Modified''), (305, ''Use Proxy''), (307, ''Temporary Redirect''),
     (308, ''Permanent Redirect''), (400, ''Bad Request''), (401, ''Unauthorized''),
     (402, ''Payment Required''), (403, ''Forbidden''), (404, ''Not Found''),
     (405, ''Method Not Allowed''), (406, ''Not Acceptable''), (407, ''Proxy Authentication Required''),
     (408, ''Request Timeout''), (409, ''Conflict''), (410, ''Gone''),
     (411, ''Length Required''), (412, ''Precondition Failed''), (413, ''Payload Too Large''),
     (414, ''URI Too Long''), (415, ''Unsupported Media Type''), (416, ''Range Not Satisfiable''),
     (417, ''Expectation Failed''), (418, ''I'm a teapot''), (422, ''Unprocessable Entity''),
     (423, ''Locked''), (424, ''Failed Dependency''), (426, ''Upgrade Required''),
     (428, ''Precondition Required''), (429, ''Too Many Requests''), (431, ''Request Header Fields Too Large''),
     (451, ''Unavailable For Legal Reasons''), (500, ''Internal Server Error''), (501, ''Not Implemented''),
     (502, ''Bad Gateway''), (503, ''Service Unavailable''), (504, ''Gateway Time-out''),
     (505, ''HTTP Version Not Supported''), (506, ''Variant Also Negotiates''), (507, ''Insufficient Storage''),
     (508, ''Loop Detected''), (510, ''Not Extended''), (511, ''Network Authentication Required'')]"

definition http_status_reason_phrase :: "nat \<Rightarrow> cstr option" where
  "http_status_reason_phrase code = map_option ascii (map_of http_reasons code)"

section \<open>State\<close>

record dap_http_cache =
  body :: "byte list"
  headers :: "dap_http_header list"
  response_phrase :: "cstr option"
  response_code :: int
  ts_expire :: int

record 'a http_conn =
  cl :: http_client
  es :: dap_events_socket
  behind :: "byte list"
  cache :: "cstr \<Rightarrow> dap_http_cache option"
  inner :: 'a

type_synonym 'a callback = "('a http_conn \<Rightarrow> 'a http_conn res) option"

text \<open>
  The callback that reads data is given the number of bytes it took the last time, and the one that
  checks the access says whether it is granted.
\<close>

record 'a dap_http_url_proc =
  h_new :: "'a callback"
  h_delete :: "'a callback"
  headers_read_callback :: "'a callback"
  headers_write_callback :: "'a callback"
  data_read_callback :: "('a http_conn \<Rightarrow> nat \<Rightarrow> ('a http_conn \<times> nat) res) option"
  data_write_callback :: "'a callback"
  error_callback :: "'a callback"
  access_callback :: "('a http_conn \<Rightarrow> ('a http_conn \<times> bool) res) option"

text \<open>The server: its name, its processors by URL, and the clock with its printer.\<close>

record 'a dap_http =
  server_name :: cstr
  url_proc :: "cstr \<Rightarrow> 'a dap_http_url_proc option"
  time_now :: int
  time_to_str_rfc822 :: "int \<Rightarrow> cstr"

definition call :: "'a callback \<Rightarrow> 'a http_conn \<Rightarrow> 'a http_conn res" where
  "call cb c = (case cb of None \<Rightarrow> Inr c | Some f \<Rightarrow> f c)"

definition dap_http_new :: "cstr \<Rightarrow> int \<Rightarrow> (int \<Rightarrow> cstr) \<Rightarrow> 'a dap_http" where
  "dap_http_new a_server_name now printer =
     \<lparr>server_name = take 255 a_server_name, url_proc = (\<lambda>_. None), time_now = now, time_to_str_rfc822 = printer\<rparr>"

definition dap_http_delete :: "'a dap_http \<Rightarrow> 'a dap_http" where
  "dap_http_delete http = http\<lparr>url_proc := (\<lambda>_. None)\<rparr>"

text \<open>The processor that was added last for a URL is the one that is found.\<close>

definition dap_http_add_proc where
  "dap_http_add_proc http a_url_path new_cb delete_cb h_read h_write d_read d_write err =
     http\<lparr>url_proc := (url_proc http)(take 511 a_url_path \<mapsto>
       \<lparr>h_new = new_cb, h_delete = delete_cb, headers_read_callback = h_read, headers_write_callback = h_write,
        data_read_callback = d_read, data_write_callback = d_write, error_callback = err, access_callback = None\<rparr>)\<rparr>"

definition proc_of :: "'a dap_http \<Rightarrow> 'a http_conn \<Rightarrow> 'a dap_http_url_proc option" where
  "proc_of http c = (case proc (cl c) of None \<Rightarrow> None | Some u \<Rightarrow> url_proc http u)"

definition cache_of :: "'a http_conn \<Rightarrow> dap_http_cache option" where
  "cache_of c = (case proc (cl c) of None \<Rightarrow> None | Some u \<Rightarrow> cache c u)"

section \<open>The cache of a processor\<close>

definition without :: "dap_http_header list \<Rightarrow> cstr \<Rightarrow> dap_http_header list" where
  "without hs nm = (case dap_http_header_find hs nm of None \<Rightarrow> hs | Some i \<Rightarrow> dap_http_header_remove hs i)"

definition dap_http_cache_update ::
    "'a http_conn \<Rightarrow> cstr \<Rightarrow> byte list \<Rightarrow> dap_http_header list \<Rightarrow> cstr option \<Rightarrow> int \<Rightarrow> int \<Rightarrow> 'a http_conn" where
  "dap_http_cache_update c u a_body a_headers phrase code expire =
     c\<lparr>cache := (cache c)(u \<mapsto> \<lparr>body = a_body, headers = without (dap_http_headers_dup a_headers) (ascii ''Date''),
       response_phrase = phrase, response_code = code, ts_expire = expire\<rparr>)\<rparr>"

definition dap_http_cache_delete :: "'a http_conn \<Rightarrow> cstr \<Rightarrow> 'a http_conn" where
  "dap_http_cache_delete c u = c\<lparr>cache := (cache c)(u := None)\<rparr>"

section \<open>Input buffer\<close>

text \<open>Dropping bytes at the front moves the rest; the bytes behind it stay what they were.\<close>

definition shrink_in :: "'a http_conn \<Rightarrow> nat \<Rightarrow> 'a http_conn" where
  "shrink_in c k =
     (let n = length (buf_in (es c)); k = min k n in
      c\<lparr>es := dap_events_socket_shrink_buf_in (es c) k, behind := drop (n - k) (buf_in (es c)) @ behind c\<rparr>)"

definition clear_in :: "'a http_conn \<Rightarrow> 'a http_conn" where
  "clear_in c = c\<lparr>es := (es c)\<lparr>buf_in := []\<rparr>, behind := buf_in (es c) @ behind c\<rparr>"

definition s_report_error_and_restart :: "'a http_conn \<Rightarrow> 'a http_conn" where
  "s_report_error_and_restart c =
     (let c1 = clear_in c in
      c1\<lparr>es := dap_events_socket_set_writable_unsafe (dap_events_socket_set_readable_unsafe (es c1) False) True,
         cl := (cl c1)\<lparr>state_read := HTTP_NONE, reply_status_code := 505, reply_reason_phrase := ascii ''Error'',
                       state_write := HTTP_START\<rparr>\<rparr>)"

text \<open>The length of the line that starts the input, if it ends with CR and LF; before LF comes a byte.\<close>

definition line_length :: "byte list \<Rightarrow> nat option res" where
  "line_length buf =
     (case index_of LF buf of None \<Rightarrow> Inr None
      | Some 0 \<Rightarrow> Inl OutOfBounds
      | Some (Suc k) \<Rightarrow> Inr (if buf ! k = CR then Some (Suc k + 1) else None))"

section \<open>Output\<close>

text \<open>
  Formatted text goes behind the output.  When it does not fit, the size of the output is still advanced
  by all of it, so that it counts bytes that were not written: the model stops there.
\<close>

definition es_printf :: "dap_events_socket \<Rightarrow> cstr \<Rightarrow> dap_events_socket res" where
  "es_printf e text =
     (if length (buf_out e) + length text < buf_out_size_max e then Inr (e\<lparr>buf_out := buf_out e @ text\<rparr>)
      else Inl OutOfBounds)"

fun dec_digits :: "nat \<Rightarrow> cstr" where
  "dec_digits n = (if n < 10 then [0x30 + word_of_nat n] else dec_digits (n div 10) @ [0x30 + word_of_nat (n mod 10)])"

declare dec_digits.simps [simp del]

definition dap_http_client_out_header_generate :: "'a dap_http \<Rightarrow> http_client \<Rightarrow> http_client" where
  "dap_http_client_out_header_generate http ht =
     (let ht1 =
        (if reply_status_code ht = 200
         then let a = (if out_last_modified ht \<noteq> 0
                       then dap_http_out_header_add ht (ascii ''Last-Modified'') (time_to_str_rfc822 http (out_last_modified ht)) else ht);
                  b = (if out_content_type a \<noteq> [] then dap_http_out_header_add a (ascii ''Content-Type'') (out_content_type a) else a) in
              if out_content_length b \<noteq> 0
              then dap_http_out_header_add b (ascii ''Content-Length'') (dec_digits (out_content_length b)) else b
         else ht);
        ht2 = (if out_connection_close ht1 \<or> \<not> keep_alive ht1
               then dap_http_out_header_add ht1 (ascii ''Connection'') (ascii ''Close'') else ht1) in
      dap_http_out_header_add ht2 (ascii ''Server-Name'') (server_name http))"

definition header_line :: "dap_http_header \<Rightarrow> cstr" where
  "header_line h = buf_text (hname h) @ ascii '': '' @ buf_text (hvalue h) @ CRLF"

fun write_headers :: "dap_events_socket \<Rightarrow> dap_http_header list \<Rightarrow> dap_events_socket res" where
  "write_headers e [] = Inr e"
| "write_headers e (h # hs) = bindE (es_printf e (header_line h)) (\<lambda>e. write_headers e hs)"

definition status_line :: "http_client \<Rightarrow> cstr res" where
  "status_line ht =
     bindE (if reply_reason_phrase ht \<noteq> [] then Inr (reply_reason_phrase ht)
            else case http_status_reason_phrase (reply_status_code ht) of None \<Rightarrow> Inl NullDeref | Some t \<Rightarrow> Inr t) (\<lambda>reason.
     Inr (ascii ''HTTP/1.1 '' @ dec_digits (reply_status_code ht) @ ascii '' '' @ reason @ CRLF))"

definition write_start :: "'a dap_http \<Rightarrow> 'a http_conn \<Rightarrow> 'a http_conn res" where
  "write_start http c =
     bindE (case proc_of http c of None \<Rightarrow> Inr c
       | Some p \<Rightarrow>
           if out_headers (cl c) = [] \<and> headers_write_callback p \<noteq> None
           then bindE (call (headers_write_callback p) c) (\<lambda>c. Inr (c\<lparr>cl := dap_http_client_out_header_generate http (cl c)\<rparr>))
           else if out_headers (cl c) \<noteq> [] then Inr (c\<lparr>cl := (cl c)\<lparr>reply_status_code := 200\<rparr>\<rparr>)
           else Inr c) (\<lambda>c.
     bindE (status_line (cl c)) (\<lambda>l.
     bindE (es_printf (es c) l) (\<lambda>e.
     Inr (c\<lparr>es := e, cl := (cl c)\<lparr>state_write := HTTP_HEADERS\<rparr>\<rparr>))))"

definition write_hdrs :: "'a dap_http \<Rightarrow> 'a http_conn \<Rightarrow> 'a http_conn res" where
  "write_hdrs http c =
     bindE (write_headers (es c)
       (dap_http_header_add (out_headers (cl c)) (ascii ''Date'') (time_to_str_rfc822 http (time_now http)))) (\<lambda>e.
     Inr (c\<lparr>es := fst (dap_events_socket_write_unsafe e CRLF),
            cl := (cl c)\<lparr>out_headers := [], state_write := HTTP_DATA\<rparr>\<rparr>))"

definition close_out :: "'a http_conn \<Rightarrow> 'a http_conn" where
  "close_out c = c\<lparr>es := (es c)\<lparr>signal_close := True\<rparr>, cl := (cl c)\<lparr>state_write := HTTP_NONE\<rparr>\<rparr>"

definition write_data :: "'a dap_http \<Rightarrow> 'a http_conn \<Rightarrow> 'a http_conn res" where
  "write_data http c =
     (case proc_of http c of None \<Rightarrow> Inr (close_out c)
      | Some p \<Rightarrow> (case data_write_callback p of None \<Rightarrow> Inr (close_out c)
         | Some f \<Rightarrow> (case cache_of c of
               None \<Rightarrow> bindE (f c) (\<lambda>c. Inr (if signal_close (es c) then c\<lparr>cl := (cl c)\<lparr>state_write := HTTP_NONE\<rparr>\<rparr> else c))
             | Some ch \<Rightarrow>
                 if length (body ch) < out_cache_position (cl c) then Inl OutOfBounds
                 else (let (e, l_sent) = dap_events_socket_write_unsafe (es c) (drop (out_cache_position (cl c)) (body ch)) in
                   if l_sent = 0 \<or> length (body ch) \<le> out_cache_position (cl c) + l_sent then Inr (close_out (c\<lparr>es := e\<rparr>))
                   else Inr (c\<lparr>es := e, cl := (cl c)\<lparr>out_cache_position := out_cache_position (cl c) + l_sent\<rparr>\<rparr>)))))"

text \<open>The states fall through to the next one.\<close>

definition dap_http_client_write :: "'a dap_http \<Rightarrow> 'a http_conn \<Rightarrow> 'a http_conn res" where
  "dap_http_client_write http c =
     (case state_write (cl c) of
        HTTP_NONE \<Rightarrow> Inr c
      | HTTP_START \<Rightarrow> bindE (write_start http c) (\<lambda>c. bindE (write_hdrs http c) (write_data http))
      | HTTP_HEADERS \<Rightarrow> bindE (write_hdrs http c) (write_data http)
      | HTTP_DATA \<Rightarrow> write_data http c)"

section \<open>Input\<close>

definition dap_http_client_new :: "dap_events_socket \<Rightarrow> byte list \<Rightarrow> (cstr \<Rightarrow> dap_http_cache option) \<Rightarrow> 'a \<Rightarrow> 'a http_conn" where
  "dap_http_client_new e mem caches i =
     \<lparr>cl = \<lparr>in_query_string = [], reply_status_code = 0, state_read = HTTP_START, state_write = HTTP_NONE, out_content_ready = False,
        action = [], url_path = [], url_path_len = 0, keep_alive = False, in_headers = [], in_content_type = [], in_cookie = [],
        in_content_length = 0, out_headers = [], out_content_type = [], out_content_length = 0, out_last_modified = 0,
        out_connection_close = False, out_cache_position = 0, reply_reason_phrase = [], proc = None\<rparr>,
      es = e, behind = mem, cache = caches, inner = i\<rparr>"

text \<open>The lists are emptied before the processor is told; there may be no client at the socket.\<close>

definition dap_http_client_delete :: "'a dap_http \<Rightarrow> 'a http_conn option \<Rightarrow> 'a http_conn option res" where
  "dap_http_client_delete http c =
     (case c of None \<Rightarrow> Inr None
      | Some c \<Rightarrow>
          (let c1 = c\<lparr>cl := (cl c)\<lparr>in_headers := [], out_headers := []\<rparr>\<rparr> in
           case proc_of http c1 of None \<Rightarrow> Inr (Some c1)
           | Some p \<Rightarrow> bindE (call (h_delete p) c1) (\<lambda>c. Inr (Some c))))"

definition dap_http_client_error :: "'a dap_http \<Rightarrow> 'a http_conn option \<Rightarrow> 'a http_conn option res" where
  "dap_http_client_error http c =
     (case c of None \<Rightarrow> Inr None
      | Some c \<Rightarrow> (case proc_of http c of None \<Rightarrow> Inr (Some c)
          | Some p \<Rightarrow> bindE (call (error_callback p) c) (\<lambda>c. Inr (Some c))))"

text \<open>The processor of a path: that of the path up to its last slash.\<close>

definition proc_key :: "http_client \<Rightarrow> cstr" where
  "proc_key ht =
     (let l_ret = z_dirname (url_path ht) (url_path_len ht) in
      if l_ret \<noteq> 0 then buf_text (take l_ret (url_path ht)) else buf_text (url_path ht))"

definition base_path :: "http_client \<Rightarrow> cstr" where
  "base_path ht = buf_text (drop (z_basename (url_path ht) (url_path_len ht)) (url_path ht))"

text \<open>What a processor that was found does first: a cached reply is prepared, an old one thrown away.\<close>

definition enter_proc :: "'a dap_http \<Rightarrow> 'a dap_http_url_proc \<Rightarrow> cstr \<Rightarrow> 'a http_conn \<Rightarrow> 'a http_conn res" where
  "enter_proc http p u c =
     (case cache c u of
        Some ch \<Rightarrow>
          if ts_expire ch = 0 \<or> time_now http \<le> ts_expire ch
          then Inr (c\<lparr>cl := (cl c)\<lparr>out_headers := dap_http_headers_dup (headers ch), out_content_length := length (body ch),
                 reply_status_code := nat (response_code ch mod 2 ^ 16),
                 reply_reason_phrase := (case response_phrase ch of None \<Rightarrow> reply_reason_phrase (cl c) | Some t \<Rightarrow> take 255 t)\<rparr>\<rparr>)
          else Inr (dap_http_cache_delete c u)
      | None \<Rightarrow> call (h_new p) c)"

text \<open>The headers are over; \<open>access_callback\<close> may report an error, and all goes on.\<close>

definition headers_over :: "'a dap_http \<Rightarrow> 'a http_conn \<Rightarrow> 'a http_conn res" where
  "headers_over http c =
     (case proc_of http c of None \<Rightarrow> Inl NullDeref
      | Some p \<Rightarrow>
          bindE (case access_callback p of None \<Rightarrow> Inr c
            | Some f \<Rightarrow> bindE (f c) (\<lambda>(c, ok). Inr (if ok then c else s_report_error_and_restart c))) (\<lambda>c.
          bindE (if cache_of c = None then call (headers_read_callback p) c else Inr c) (\<lambda>c.
          if in_content_length (cl c) \<noteq> 0 then Inr (c\<lparr>cl := (cl c)\<lparr>state_read := HTTP_DATA\<rparr>\<rparr>)
          else (let c = c\<lparr>cl := (cl c)\<lparr>state_write := HTTP_START\<rparr>\<rparr> in
                if cache_of c \<noteq> None then dap_http_client_write http c else Inr c))))"

definition read_header :: "'a dap_http \<Rightarrow> 'a http_conn \<Rightarrow> 'a http_conn res" where
  "read_header http c =
     (if length (buf_in (es c)) < 2 then Inr (s_report_error_and_restart c)
      else bindE (line_length (buf_in (es c))) (\<lambda>line.
        case line of None \<Rightarrow> Inr (s_report_error_and_restart c)
        | Some l_len \<Rightarrow>
            bindE (dap_http_header_parse (cl c) (buf_in (es c) @ behind c) l_len) (\<lambda>(ht, l_ret).
            let c1 = c\<lparr>cl := ht\<rparr> in
            bindE (if l_ret = 1 then headers_over http c1 else Inr c1) (\<lambda>c2. Inr (shrink_in c2 l_len)))))"

text \<open>After the start line come the headers at once.\<close>

definition read_start :: "'a dap_http \<Rightarrow> 'a http_conn \<Rightarrow> 'a http_conn res" where
  "read_start http c =
     (if length (buf_in (es c)) < 8 then Inr (s_report_error_and_restart c)
      else bindE (line_length (buf_in (es c))) (\<lambda>line.
        case line of None \<Rightarrow> Inr (s_report_error_and_restart c)
        | Some l_len \<Rightarrow>
            bindE (s_http_start_line_parse (cl c) (buf_in (es c) @ behind c) l_len) (\<lambda>(ht, l_ret).
            let c1 = c\<lparr>cl := ht\<rparr> in
            if l_ret < 0 then Inr (s_report_error_and_restart c1)
            else let c2 = shrink_in c1 l_len; u = proc_key ht; found = url_proc http u;
                     c3 = c2\<lparr>cl := ht\<lparr>proc := (if found = None then None else Some u), url_path := base_path ht\<rparr>\<rparr> in
              case found of None \<Rightarrow> Inr (s_report_error_and_restart c3)
              | Some p \<Rightarrow> bindE (enter_proc http p u (c3\<lparr>cl := (cl c3)\<lparr>state_read := HTTP_HEADERS\<rparr>\<rparr>)) (read_header http))))"

text \<open>The number of bytes the data callback took is kept from one round to the next.\<close>

definition read_data :: "'a dap_http \<Rightarrow> 'a http_conn \<Rightarrow> nat \<Rightarrow> ('a http_conn \<times> nat) res" where
  "read_data http c read_bytes =
     (case proc_of http c of None \<Rightarrow> Inl NullDeref
      | Some p \<Rightarrow> (case (if cache_of c = None then data_read_callback p else None) of
            Some f \<Rightarrow> bindE (f c read_bytes) (\<lambda>(c, read_bytes). Inr (shrink_in c read_bytes, read_bytes))
          | None \<Rightarrow> (let c1 = clear_in c in
              bindE (dap_http_client_write http (c1\<lparr>cl := (cl c1)\<lparr>state_write := HTTP_START\<rparr>\<rparr>)) (\<lambda>c. Inr (c, read_bytes)))))"

definition read_round :: "'a dap_http \<Rightarrow> 'a http_conn \<Rightarrow> nat \<Rightarrow> ('a http_conn \<times> nat) res" where
  "read_round http c read_bytes =
     (case state_read (cl c) of
        HTTP_START \<Rightarrow> bindE (read_start http c) (\<lambda>c. Inr (c, read_bytes))
      | HTTP_HEADERS \<Rightarrow> bindE (read_header http c) (\<lambda>c. Inr (c, read_bytes))
      | HTTP_DATA \<Rightarrow> read_data http c read_bytes
      | HTTP_NONE \<Rightarrow> Inr (clear_in c, read_bytes))"

text \<open>The loop runs while there is input; a data callback that takes nothing keeps it running for ever.\<close>

fun read_loop :: "nat \<Rightarrow> 'a dap_http \<Rightarrow> 'a http_conn \<Rightarrow> nat \<Rightarrow> 'a http_conn res" where
  "read_loop 0 http c read_bytes = Inl Diverges"
| "read_loop (Suc k) http c read_bytes =
     bindE (read_round http c read_bytes) (\<lambda>(c, read_bytes).
     if buf_in (es c) = [] then Inr c else read_loop k http c read_bytes)"

definition dap_http_client_read :: "nat \<Rightarrow> 'a dap_http \<Rightarrow> 'a http_conn \<Rightarrow> 'a http_conn res" where
  "dap_http_client_read fuel http c = read_loop fuel http c 0"

text \<open>
  One read of the connection: the bytes go into the buffer's memory behind the data, and the read callback runs.
\<close>

definition http_recv :: "nat \<Rightarrow> 'a dap_http \<Rightarrow> 'a http_conn \<Rightarrow> byte list \<Rightarrow> 'a http_conn res" where
  "http_recv fuel http c bytes =
     dap_http_client_read fuel http (c\<lparr>es := (es c)\<lparr>buf_in := buf_in (es c) @ bytes\<rparr>, behind := drop (length bytes) (behind c)\<rparr>)"

fun http_recv_all :: "nat \<Rightarrow> 'a dap_http \<Rightarrow> 'a http_conn \<Rightarrow> byte list list \<Rightarrow> 'a http_conn res" where
  "http_recv_all fuel http c [] = Inr c"
| "http_recv_all fuel http c (x # xs) = bindE (http_recv fuel http c x) (\<lambda>c. http_recv_all fuel http c xs)"

end
