(* ===== verification/HttpProps.thy ===== *)
theory HttpProps
  imports HttpClient
begin

text \<open>
  The parsers of the HTTP server on well-formed text: a printed request line and printed header
  lines are taken apart into what they were printed from.
\<close>

section \<open>Scanning loops\<close>

lemma skip_while_run:
  assumes "i + k < length mem" "k \<le> n" "\<And>j. j < k \<Longrightarrow> p (mem ! (i + j))" "\<not> p (mem ! (i + k)) \<or> k = n"
  shows "skip_while p mem i n = Inr (i + k, n - k)"
  using assms
proof (induction k arbitrary: i n)
  case 0
  then show ?case by (subst skip_while.simps) auto
next
  case (Suc k)
  have "p (mem ! i)" using Suc.prems(3) [of 0] by simp
  moreover have "skip_while p mem (i + 1) (n - 1) = Inr (i + 1 + k, n - 1 - k)"
    using Suc.prems(1,2,4) Suc.prems(3) [of "Suc j" for j] by (intro Suc.IH) auto
  ultimately show ?case using Suc.prems(1,2) by (subst skip_while.simps) auto
qed

lemma skip_to_slash_run:
  assumes "i + k < length mem" "k \<le> n" "n < 2 ^ 64" "\<And>j. j < k \<Longrightarrow> mem ! (i + j) \<noteq> 0x2f" "mem ! (i + k) = 0x2f" "0 < l"
  shows "skip_to_slash mem i n l = Inr (i + k, n - k)"
  using assms
proof (induction k arbitrary: i n)
  case 0
  then show ?case by (subst skip_to_slash.simps) auto
next
  case (Suc k)
  have "mem ! i \<noteq> 0x2f" using Suc.prems(4) [of 0] by simp
  moreover have "(n + (2 ^ 64 - 1)) mod 2 ^ 64 = n - 1"
  proof -
    have "n + (2 ^ 64 - 1) = (n - 1) + 2 ^ 64" using Suc.prems(2) by simp
    then show ?thesis using Suc.prems(3) by (metis (no_types, lifting) less_imp_diff_less mod_add_self2 mod_less)
  qed
  moreover have "skip_to_slash mem (i + 1) (n - 1) l = Inr (i + 1 + k, n - 1 - k)"
    using Suc.prems(1,2,3,5,6) Suc.prems(4) [of "Suc j" for j] by (intro Suc.IH) auto
  ultimately show ?case using Suc.prems(1,2,6) by (subst skip_to_slash.simps) auto
qed

text \<open>The same on memory that is given in pieces.\<close>

lemma nth_middle: "j < length xs \<Longrightarrow> (a @ xs @ b) ! (length a + j) = xs ! j"
  by (simp add: nth_append)

lemma skip_while_append:
  assumes "\<forall>c \<in> set xs. p c" "\<not> p y \<or> length xs = n" "length xs \<le> n"
  shows "skip_while p (a @ xs @ y # b) (length a) n = Inr (length a + length xs, n - length xs)"
  using assms by (intro skip_while_run) (auto simp: nth_append)

lemma skip_to_slash_append:
  assumes "0x2f \<notin> set xs" "length xs \<le> n" "n < 2 ^ 64" "0 < l"
  shows "skip_to_slash (a @ xs @ 0x2f # b) (length a) n l = Inr (length a + length xs, n - length xs)"
  using assms by (intro skip_to_slash_run) (auto simp: nth_append in_set_conv_nth)

lemma index_of_append: "c \<notin> set xs \<Longrightarrow> index_of c (xs @ c # ys) = Some (length xs)"
  by (induction xs) auto

lemma index_of_None: "index_of c xs = None \<longleftrightarrow> c \<notin> set xs"
  by (induction xs) auto

lemma index_of_Some: "index_of c xs = Some k \<Longrightarrow> k < length xs \<and> xs ! k = c \<and> c \<notin> set (take k xs)"
  by (induction xs arbitrary: k) (auto split: if_splits)

lemma chunkE_prefix: "chunkE (xs @ ys) 0 (length xs) = Inr xs"
  by (simp add: chunkE_def chunk_def)

lemma buf_text_id: "0 \<notin> set s \<Longrightarrow> buf_text s = s"
  unfolding buf_text_def by (induction s) auto

section \<open>Header lines\<close>

definition header_ok :: "byte list \<times> byte list \<Rightarrow> bool" where
  "header_ok h \<longleftrightarrow> (case h of (nm, v) \<Rightarrow>
     nm \<noteq> [] \<and> 0x3a \<notin> set nm \<and> LF \<notin> set nm \<and> LF \<notin> set v \<and> (v \<noteq> [] \<longrightarrow> \<not> isspace (hd v)) \<and>
     (nm = ascii ''Content-Type'' \<longrightarrow> length v < 256) \<and> (nm = ascii ''Cookie'' \<longrightarrow> length v < 1024))"

definition header_text :: "byte list \<times> byte list \<Rightarrow> byte list" where
  "header_text h = fst h @ [0x3a, 0x20] @ snd h @ CRLF"

text \<open>What a header does to the client.\<close>

definition apply_header :: "byte list \<times> byte list \<Rightarrow> http_client \<Rightarrow> http_client" where
  "apply_header h ht =
     (let ht1 =
       (if fst h = ascii ''Connection'' then ht\<lparr>keep_alive := strncasecmp_eq (buf_text (snd h)) (ascii ''Keep-Alive'') (length (snd h))\<rparr>
        else if fst h = ascii ''Content-Type'' then ht\<lparr>in_content_type := buf_text (snd h)\<rparr>
        else if fst h = ascii ''Content-Length'' then ht\<lparr>in_content_length := scast (word_of_int (atoi (buf_text (take 31 (snd h)))) :: u32)\<rparr>
        else if fst h = ascii ''Cookie'' then ht\<lparr>in_cookie := buf_text (snd h)\<rparr> else ht) in
      ht1\<lparr>in_headers := in_headers ht1 @ [\<lparr>hname = fst h, hvalue = snd h\<rparr>]\<rparr>)"

lemma ht_find_fields:
  "nm \<noteq> [] \<Longrightarrow> ht_find ht_fields nm =
     (if nm = ascii ''Connection'' then HTTP_FLD_K_CONNECTION else if nm = ascii ''Content-Type'' then HTTP_FLD_K_CONTENT_TYPE
      else if nm = ascii ''Content-Length'' then HTTP_FLD_K_CONTENT_LEN else if nm = ascii ''Cookie'' then HTTP_FLD_K_COOKIE
      else HTTP_FLD_NONE)"
  by (simp add: ht_fields_def ascii_def)

lemma isspace_consts [simp]: "isspace 0x20" "isspace CR" "isspace LF" "\<not> isspace 0x3a" "\<not> isspace 0x2f" "\<not> isspace 0x3f"
  by (simp_all add: isspace_def CR_def LF_def)

lemma CRLF_simps [simp]: "length CRLF = 2" "set CRLF = {CR, LF}" by (simp_all add: CRLF_def)

lemma header_value_scan:
  assumes "v \<noteq> [] \<longrightarrow> \<not> isspace (hd v)"
  shows "\<exists>i l. skip_while isspace (nm @ 0x3a # 0x20 # v @ CRLF @ y # r) (length nm + 1) (length v + 3) = Inr (i, l) \<and>
    (if 2 < l then l - 2 else 0) = length v \<and> chunk (nm @ 0x3a # 0x20 # v @ CRLF @ y # r) i (length v) = v"
proof (cases v)
  case Nil
  have "skip_while isspace ((nm @ [0x3a]) @ [0x20, CR, LF] @ y # r) (length (nm @ [0x3a])) 3 = Inr (length (nm @ [0x3a]) + length [0x20, CR, LF], 3 - length [0x20, CR, LF])"
    by (rule skip_while_append) auto
  then show ?thesis using Nil by (simp add: CRLF_def)
next
  case (Cons x xs)
  have "skip_while isspace ((nm @ [0x3a]) @ [0x20] @ x # xs @ CRLF @ y # r) (length (nm @ [0x3a])) (length v + 3) =
      Inr (length (nm @ [0x3a]) + length [0x20 :: byte], length v + 3 - length [0x20 :: byte])"
    using assms Cons by (intro skip_while_append) auto
  then show ?thesis using Cons by (simp add: chunk_def)
qed

lemma header_parse_printed:
  assumes "header_ok (nm, v)"
  shows "dap_http_header_parse ht (header_text (nm, v) @ y # r) (length (header_text (nm, v))) = Inr (apply_header (nm, v) ht, 0)"
proof -
  let ?mem = "nm @ 0x3a # 0x20 # v @ CRLF @ y # r" and ?line = "nm @ 0x3a # 0x20 # v @ CRLF"
  have ok: "nm \<noteq> []" "0x3a \<notin> set nm" "v \<noteq> [] \<longrightarrow> \<not> isspace (hd v)" "nm = ascii ''Content-Type'' \<longrightarrow> length v < 256"
    "nm = ascii ''Cookie'' \<longrightarrow> length v < 1024" using assms by (simp_all add: header_ok_def)
  obtain i l where s: "skip_while isspace ?mem (length nm + 1) (length v + 3) = Inr (i, l)"
    "(if 2 < l then l - 2 else 0) = length v" "chunk ?mem i (length v) = v"
    using header_value_scan [OF ok(3)] by blast
  have line: "chunkE ?mem 0 (length ?line) = Inr ?line"
    using chunkE_prefix [of ?line "y # r"] by (simp only: append_assoc append_Cons)
  have ne: "?line \<noteq> CRLF" "\<not> length ?line < 4" using ok(1) by (cases nm, simp_all add: CRLF_def)+
  have k: "index_of 0x3a ?line = Some (length nm)" by (rule index_of_append [OF ok(2)])
  have len: "length ?line - (length nm + 1) = length v + 3" by simp
  have t: "take (length nm) ?line = nm" by simp
  show ?thesis
    unfolding header_text_def fst_conv snd_conv append_assoc append_Cons append_Nil dap_http_header_parse_def line bindE_simps
      if_not_P [OF ne(1)] if_not_P [OF ne(2)] k option.case len s(1) prod.case Let_def s(2,3) t ht_find_fields [OF ok(1)]
    using ok(4,5) by (auto simp: apply_header_def Let_def ascii_def)
qed

section \<open>Request lines\<close>

definition token_ok :: "nat \<Rightarrow> byte list \<Rightarrow> bool" where
  "token_ok n s \<longleftrightarrow> length s \<le> n \<and> (\<forall>c \<in> set s. \<not> isspace c \<and> c \<noteq> 0)"

definition request_line :: "byte list \<Rightarrow> byte list \<Rightarrow> byte list option \<Rightarrow> byte list" where
  "request_line m path q = m @ 0x20 # path @ (case q of None \<Rightarrow> [] | Some q \<Rightarrow> 0x3f # q) @ ascii '' HTTP/1.1'' @ CRLF"

definition request_ok :: "byte list \<Rightarrow> byte list \<Rightarrow> byte list option \<Rightarrow> bool" where
  "request_ok m path q \<longleftrightarrow> m \<noteq> [] \<and> token_ok 31 m \<and> token_ok 1023 path \<and> 0x3f \<notin> set path \<and> path \<noteq> [] \<and> hd path = 0x2f \<and>
     (\<forall>s. q = Some s \<longrightarrow> token_ok 1023 s)"

lemma version_scan:
  "bindE (skip_while isspace (a @ ascii '' HTTP/1.1'' @ b) (length a) (Suc n)) (\<lambda>(s3, b5).
     bindE (chunkE (a @ ascii '' HTTP/1.1'' @ b) s3 7) (\<lambda>ver. Inr (x, if ver = ascii ''HTTP/1.'' then 0 else - EINVAL))) = Inr (x, 0)"
proof -
  let ?v = "ascii ''TTP/1.1'' @ b"
  have m: "a @ ascii '' HTTP/1.1'' @ b = a @ [0x20] @ 0x48 # ?v" by (simp add: ascii_def)
  have "skip_while isspace (a @ [0x20] @ 0x48 # ?v) (length a) (Suc n) = Inr (length a + length [0x20 :: byte], Suc n - length [0x20 :: byte])"
    by (rule skip_while_append) (simp_all add: isspace_def)
  then show ?thesis unfolding m by (simp add: chunkE_def chunk_def ascii_def)
qed

lemma start_line_printed:
  assumes ok: "request_ok m path q" and small: "n < 2 ^ 64" "length (request_line m path q) \<le> n"
  shows "s_http_start_line_parse ht (request_line m path q @ r) n =
    Inr (ht\<lparr>action := m, url_path := path, url_path_len := length path,
            in_query_string := (case q of None \<Rightarrow> in_query_string ht | Some s \<Rightarrow> s)\<rparr>, 0)"
proof -
  obtain p' where path: "path = 0x2f # p'" using ok by (cases path) (auto simp: request_ok_def)
  obtain m0 m' where m: "m = m0 # m'" using ok by (cases m) (auto simp: request_ok_def)
  define qt where "qt = (case q of None \<Rightarrow> [] | Some q \<Rightarrow> 0x3f # q)"
  define e where "e = ascii '' HTTP/1.1'' @ CRLF @ r"
  define mem where "mem = request_line m path q @ r"
  have mem: "mem = m @ 0x20 # path @ qt @ e" by (simp add: mem_def request_line_def qt_def e_def)
  have len: "length m + 1 + length path + length qt + 11 \<le> n"
    using small(2) by (simp add: request_line_def qt_def ascii_def)
  have sets: "\<forall>c \<in> set m. \<not> isspace c" "0 \<notin> set m" "length m \<le> 31" "\<forall>c \<in> set path. c \<noteq> 0x3f \<and> \<not> isspace c" "length path \<le> 1023"
    using ok by (auto simp: request_ok_def token_ok_def)
  obtain e' where e': "e = 0x20 # e'" by (simp add: e_def ascii_def)
  have 0: "\<not> (n = 2 \<and> take 2 mem = CRLF)" using len by auto
  have 1: "skip_while isspace mem 0 n = Inr (0, n)"
    using skip_while_append [of "[]" isspace m0 n "[]" "m' @ 0x20 # path @ qt @ e"] sets(1) by (simp add: mem m)
  have 2: "skip_while (\<lambda>c. \<not> isspace c) mem 0 n = Inr (length m, n - length m)"
    using skip_while_append [of m "\<lambda>c. \<not> isspace c" "0x20" n "[]" "path @ qt @ e"] sets(1) len by (simp add: mem)
  have 3: "skip_to_slash mem (length m) (n - length m) (length m - 0) = Inr (length m + 1, n - length m - 1)"
    using skip_to_slash_append [of "[0x20]" "n - length m" "length m" m "p' @ qt @ e"] small(1) len by (simp add: mem path m)
  have 4: "skip_while (\<lambda>c. c \<noteq> 0x3f \<and> \<not> isspace c) mem (length m + 1) (n - length m - 1) =
      Inr (length m + 1 + length path, n - length m - 1 - length path)"
  proof -
    obtain y t where y: "qt @ e = y # t" "\<not> (y \<noteq> 0x3f \<and> \<not> isspace y)" by (cases q) (auto simp: qt_def e')
    then show ?thesis
      using skip_while_append [of path "\<lambda>c. c \<noteq> 0x3f \<and> \<not> isspace c" y "n - length m - 1" "m @ [0x20]" t] sets(4) len by (simp add: mem)
  qed
  have c1: "chunk mem 0 (min (length m - 0) 31) = m" using sets(3) by (simp add: mem chunk_def min_def)
  have c2: "chunk mem (length m + 1) (length path) = path" by (simp add: mem chunk_def)
  have l2: "min (length m + 1 + length path - (length m + 1)) 1023 = length path" using sets(5) by simp
  let ?ht = "ht\<lparr>action := m, url_path := path, url_path_len := length path\<rparr>"
  define fin where "fin = (\<lambda>(cl2 :: http_client, e2, b4). bindE (skip_while isspace mem e2 b4) (\<lambda>(s3, b5). bindE (chunkE mem s3 7)
      (\<lambda>ver. Inr (cl2, if ver = ascii ''HTTP/1.'' then 0 else - EINVAL))))"
  have fin: "fin (x, length m + 1 + length path + length qt, Suc b) = (Inr (x, 0) :: (http_client \<times> int) res)" for x b
    using version_scan [of "m @ 0x20 # path @ qt" "CRLF @ r" b x] by (simp add: fin_def mem e_def add.assoc)
  have 5: "bindE (if mem ! (length m + 1 + length path) = 0x3f
               then bindE (skip_while (\<lambda>c. \<not> isspace c) mem (length m + 1 + length path + 1) (n - length m - 1 - length path)) (\<lambda>(e2, b4).
                 Inr (?ht\<lparr>in_query_string := buf_text (chunk mem (length m + 1 + length path + 1) (min (e2 - (length m + 1 + length path + 1)) 1023))\<rparr>, e2, b4))
               else Inr (?ht, length m + 1 + length path, n - length m - 1 - length path)) fin =
      Inr (?ht\<lparr>in_query_string := (case q of None \<Rightarrow> in_query_string ht | Some s \<Rightarrow> s)\<rparr>, 0)"
  proof (cases q)
    case None
    then have n: "mem ! (length m + 1 + length path) = 0x20" by (simp add: mem qt_def e' nth_append)
    have "n - length m - 1 - length path = Suc (n - length m - 2 - length path)" using len by simp
    then show ?thesis using fin [of ?ht] None n by (simp add: qt_def)
  next
    case (Some s)
    then have n: "mem ! (length m + 1 + length path) = 0x3f" by (simp add: mem qt_def nth_append)
    have s: "\<forall>c \<in> set s. \<not> isspace c" "0 \<notin> set s" "length s \<le> 1023" using ok Some by (auto simp: request_ok_def token_ok_def)
    define b where "b = n - length m - 1 - length path"
    have b: "length s < b" using len by (simp add: b_def qt_def Some)
    then obtain b' where b': "b - length s = Suc b'" by (metis Suc_diff_Suc)
    have 6: "skip_while (\<lambda>c. \<not> isspace c) mem (length m + 1 + length path + 1) b = Inr (length m + 1 + length path + length qt, b - length s)"
      using skip_while_append [of s "\<lambda>c. \<not> isspace c" "0x20" b "m @ 0x20 # path @ [0x3f]" e'] s(1) b(1)
      by (simp add: mem qt_def Some e')
    have 7: "chunk mem (length m + 1 + length path + 1) (min (length m + 1 + length path + length qt - (length m + 1 + length path + 1)) 1023) = s"
      using s(3) by (simp add: mem qt_def Some chunk_def min_def)
    show ?thesis
      unfolding if_P [OF n] b_def [symmetric] 6 bindE_simps prod.case 7 b' using fin s(2) by (simp add: Some buf_text_id)
  qed
  show ?thesis
    unfolding mem_def [symmetric] s_http_start_line_parse_def if_not_P [OF 0] 1 bindE_simps prod.case 2 3 4 Let_def c1 l2 c2
      buf_text_id [OF sets(2)] fin_def [symmetric] 5 by simp
qed

section \<open>A whole request\<close>

lemma CR_LF [simp]: "CR \<noteq> LF" by (simp add: CR_def LF_def)

lemma line_length_printed: "LF \<notin> set x \<Longrightarrow> line_length (x @ CRLF @ r) = Inr (Some (length x + 2))"
  using index_of_append [of LF "x @ [CR]" r] by (simp add: line_length_def CRLF_def CR_LF [symmetric] nth_append)

lemma shrink_in_line:
  assumes "buf_in (es c) = x @ r"
  shows "\<exists>b. shrink_in c (length x) = c\<lparr>es := (es c)\<lparr>buf_in := r\<rparr>, behind := b\<rparr>"
  using assms by (simp add: shrink_in_def Let_def dap_events_socket_shrink_buf_in_def) blast

lemma header_text_LF: "header_ok (nm, v) \<Longrightarrow> LF \<notin> set (nm @ 0x3a # 0x20 # v)"
  by (simp add: header_ok_def) (simp add: LF_def)

lemma read_header_printed:
  assumes "header_ok h" "buf_in (es c) = header_text h @ y # r"
  shows "\<exists>b. read_header http c = Inr (c\<lparr>cl := apply_header h (cl c), es := (es c)\<lparr>buf_in := y # r\<rparr>, behind := b\<rparr>)"
proof -
  obtain nm v where h: "h = (nm, v)" by force
  let ?x = "nm @ 0x3a # 0x20 # v"
  have t: "header_text (nm, v) = ?x @ CRLF" by (simp add: header_text_def)
  have l: "line_length (buf_in (es c)) = Inr (Some (length (header_text h)))"
    using line_length_printed [OF header_text_LF [of nm v], of "y # r"] assms by (simp add: h t)
  have p: "dap_http_header_parse (cl c) (buf_in (es c) @ behind c) (length (header_text h)) = Inr (apply_header h (cl c), 0)"
    using header_parse_printed [of nm v "cl c" y "r @ behind c"] assms by (simp add: h)
  obtain b where "shrink_in (c\<lparr>cl := apply_header h (cl c)\<rparr>) (length (header_text h)) =
      c\<lparr>cl := apply_header h (cl c), es := (es c)\<lparr>buf_in := y # r\<rparr>, behind := b\<rparr>"
    using shrink_in_line [of "c\<lparr>cl := apply_header h (cl c)\<rparr>" "header_text h" "y # r"] assms(2) by auto
  moreover have "\<not> length (buf_in (es c)) < 2" using assms(2) by (simp add: h t)
  ultimately show ?thesis by (auto simp: read_header_def l p Let_def)
qed

lemma apply_header_keeps [simp]:
  "state_read (apply_header h ht) = state_read ht" "state_write (apply_header h ht) = state_write ht" "proc (apply_header h ht) = proc ht"
  "action (apply_header h ht) = action ht" "url_path (apply_header h ht) = url_path ht"
  "in_query_string (apply_header h ht) = in_query_string ht" "reply_status_code (apply_header h ht) = reply_status_code ht"
  "out_headers (apply_header h ht) = out_headers ht" "out_content_ready (apply_header h ht) = out_content_ready ht"
  "in_headers (apply_header h ht) = in_headers ht @ [\<lparr>hname = fst h, hvalue = snd h\<rparr>]"
  by (simp_all add: apply_header_def Let_def)

definition apply_headers :: "(byte list \<times> byte list) list \<Rightarrow> http_client \<Rightarrow> http_client" where
  "apply_headers hs ht = foldl (\<lambda>ht h. apply_header h ht) ht hs"

lemma apply_headers_simps [simp]:
  "apply_headers [] ht = ht" "apply_headers (h # hs) ht = apply_headers hs (apply_header h ht)"
  by (simp_all add: apply_headers_def)

lemma apply_headers_keeps [simp]:
  "state_read (apply_headers hs ht) = state_read ht" "state_write (apply_headers hs ht) = state_write ht"
  "proc (apply_headers hs ht) = proc ht" "action (apply_headers hs ht) = action ht" "url_path (apply_headers hs ht) = url_path ht"
  "in_query_string (apply_headers hs ht) = in_query_string ht" "reply_status_code (apply_headers hs ht) = reply_status_code ht"
  "out_headers (apply_headers hs ht) = out_headers ht" "out_content_ready (apply_headers hs ht) = out_content_ready ht"
  "in_headers (apply_headers hs ht) = in_headers ht @ map (\<lambda>h. \<lparr>hname = fst h, hvalue = snd h\<rparr>) hs"
  by (induction hs arbitrary: ht) simp_all

text \<open>What follows when the headers are over.\<close>

definition after_headers :: "nat \<Rightarrow> 'a dap_http \<Rightarrow> nat \<Rightarrow> 'a http_conn \<Rightarrow> 'a http_conn res" where
  "after_headers k http n c =
     (let c1 = shrink_in c 2 in if buf_in (es c1) = [] then Inr c1 else read_loop k http c1 n)"

lemma read_header_end:
  assumes "buf_in (es c) = CRLF @ rest"
  shows "read_header http c = bindE (headers_over http c) (\<lambda>c. Inr (shrink_in c 2))"
proof -
  have "line_length (buf_in (es c)) = Inr (Some 2)" using line_length_printed [of "[]" rest] assms by simp
  moreover have "dap_http_header_parse (cl c) (buf_in (es c) @ behind c) 2 = Inr (cl c, 1)"
    using chunkE_prefix [of CRLF "rest @ behind c"] assms by (simp add: dap_http_header_parse_def)
  moreover have "\<not> length (buf_in (es c)) < 2" using assms by simp
  ultimately show ?thesis by (simp add: read_header_def)
qed

definition request_headers :: "(byte list \<times> byte list) list \<Rightarrow> byte list" where
  "request_headers hs = concat (map header_text hs) @ CRLF"

lemma request_headers_Cons: "\<exists>y r. request_headers hs @ rest = y # r"
  by (cases "request_headers hs") (simp_all add: request_headers_def CRLF_def)

lemma read_loop_headers:
  assumes "\<forall>h \<in> set hs. header_ok h" "state_read (cl c) = HTTP_HEADERS" "buf_in (es c) = request_headers hs @ rest"
  shows "\<exists>b. read_loop (length hs + Suc k) http c n =
    bindE (headers_over http (c\<lparr>cl := apply_headers hs (cl c), es := (es c)\<lparr>buf_in := CRLF @ rest\<rparr>, behind := b\<rparr>)) (after_headers k http n)"
  using assms
proof (induction hs arbitrary: c)
  case Nil
  then have "buf_in (es c) = CRLF @ rest" by (simp add: request_headers_def)
  then have "c\<lparr>cl := apply_headers [] (cl c), es := (es c)\<lparr>buf_in := CRLF @ rest\<rparr>, behind := behind c\<rparr> = c" by simp
  moreover have "read_loop (length [] + Suc k) http c n = bindE (headers_over http c) (after_headers k http n)"
    using read_header_end [of c rest http] Nil.prems(2) \<open>buf_in (es c) = CRLF @ rest\<close>
    by (cases "headers_over http c") (simp_all add: read_round_def after_headers_def Let_def)
  ultimately show ?case by metis
next
  case (Cons h hs)
  obtain y r where y: "request_headers hs @ rest = y # r" using request_headers_Cons by blast
  then have "buf_in (es c) = header_text h @ y # r" using Cons.prems(3) by (simp add: request_headers_def)
  then obtain b where b: "read_header http c = Inr (c\<lparr>cl := apply_header h (cl c), es := (es c)\<lparr>buf_in := y # r\<rparr>, behind := b\<rparr>)"
    using read_header_printed Cons.prems(1) by (metis list.set_intros(1))
  let ?c = "c\<lparr>cl := apply_header h (cl c), es := (es c)\<lparr>buf_in := y # r\<rparr>, behind := b\<rparr>"
  have "read_loop (length (h # hs) + Suc k) http c n = read_loop (length hs + Suc k) http ?c n"
    using Cons.prems(2) b by (simp add: read_round_def)
  moreover have "\<exists>b. read_loop (length hs + Suc k) http ?c n =
      bindE (headers_over http (?c\<lparr>cl := apply_headers hs (cl ?c), es := (es ?c)\<lparr>buf_in := CRLF @ rest\<rparr>, behind := b\<rparr>)) (after_headers k http n)"
    using Cons.prems y by (intro Cons.IH) simp_all
  ultimately show ?case by simp
qed

end
