(* ===== verification/HttpEnds.thy ===== *)
theory HttpEnds
  imports HttpProps
begin

text \<open>
  When the reading of a connection ends, and what its reply is: every round of the loop takes
  input, as long as the processors' callbacks do.
\<close>

section \<open>Rounds end\<close>

definition nd :: "'a res \<Rightarrow> bool" where "nd m \<longleftrightarrow> m \<noteq> Inl Diverges"

named_theorems ends

lemma nd_Inr [simp, ends]: "nd (Inr x)" by (simp add: nd_def)
lemma nd_Inl [simp]: "f \<noteq> Diverges \<Longrightarrow> nd (Inl f)" by (simp add: nd_def)

lemma nd_bindE [intro, ends]: "nd m \<Longrightarrow> (\<And>x. m = Inr x \<Longrightarrow> nd (f x)) \<Longrightarrow> nd (bindE m f)"
  by (cases m) (auto simp: nd_def)

lemma nd_skip_while [ends]: "nd (skip_while p mem i n)"
  by (induction p mem i n rule: skip_while.induct) (subst skip_while.simps, auto)

lemma nd_skip_to_slash [ends]: "nd (skip_to_slash mem i n l)"
  by (induction mem i n l rule: skip_to_slash.induct) (subst skip_to_slash.simps, auto)

lemma nd_chunkE [ends]: "nd (chunkE xs i n)" by (simp add: chunkE_def)

lemma nd_line_length [ends]: "nd (line_length b)" by (simp add: line_length_def split: option.split nat.split)

lemma nd_if [ends]: "nd a \<Longrightarrow> nd b \<Longrightarrow> nd (if c then a else b)" by simp

lemma nd_header_parse [ends]: "nd (dap_http_header_parse ht mem n)"
  unfolding dap_http_header_parse_def Let_def
  by (intro ends nd_bindE) (auto split: option.split ht_field.split intro!: ends nd_bindE)

lemma nd_start_line [ends]: "nd (s_http_start_line_parse ht mem n)"
  unfolding s_http_start_line_parse_def Let_def
  by (intro nd_if nd_Inr nd_bindE nd_skip_while nd_skip_to_slash nd_chunkE, (simp add: split_beta; intro ends)?)
    (auto intro!: ends split: prod.splits)

text \<open>A step that ends, and adds no input.\<close>

definition input :: "'a http_conn \<Rightarrow> nat" where "input c = length (buf_in (es c))"

definition calm :: "'a http_conn \<Rightarrow> 'a http_conn res \<Rightarrow> bool" where
  "calm c m \<longleftrightarrow> nd m \<and> (\<forall>c'. m = Inr c' \<longrightarrow> input c' \<le> input c)"

lemma calm_Inr [simp]: "calm c (Inr c') \<longleftrightarrow> input c' \<le> input c" by (simp add: calm_def)

lemma calm_bindE: "calm c m \<Longrightarrow> (\<And>c'. m = Inr c' \<Longrightarrow> calm c' (f c')) \<Longrightarrow> calm c (bindE m f)"
  by (cases m) (fastforce simp: calm_def nd_def)+

lemma calm_bindE_res: "nd m \<Longrightarrow> (\<And>x. m = Inr x \<Longrightarrow> calm c (f x)) \<Longrightarrow> calm c (bindE m f)"
  by (cases m) (auto simp: calm_def nd_def)

lemma calm_Inl: "calm c (Inl f) \<longleftrightarrow> f \<noteq> Diverges" by (simp add: calm_def nd_def)

lemma calm_less: "calm c m \<Longrightarrow> input c \<le> input d \<Longrightarrow> calm d m" by (auto simp: calm_def)

definition calm_callback :: "'a callback \<Rightarrow> bool" where
  "calm_callback cb \<longleftrightarrow> (\<forall>f c. cb = Some f \<longrightarrow> calm c (f c))"

text \<open>The data callback also takes something, as long as there is something left.\<close>

definition calm_http :: "'a dap_http \<Rightarrow> bool" where
  "calm_http http \<longleftrightarrow> (\<forall>u p. url_proc http u = Some p \<longrightarrow>
     calm_callback (h_new p) \<and> calm_callback (headers_read_callback p) \<and> calm_callback (headers_write_callback p) \<and>
     calm_callback (data_write_callback p) \<and>
     (\<forall>f c. access_callback p = Some f \<longrightarrow> calm c (bindE (f c) (\<lambda>(c, ok). Inr c))) \<and>
     (\<forall>f c n. data_read_callback p = Some f \<longrightarrow> calm c (bindE (f c n) (\<lambda>(c, k). Inr c)) \<and>
        (\<forall>c' k. f c n = Inr (c', k) \<longrightarrow> buf_in (es c') \<noteq> [] \<longrightarrow> 0 < k)))"

lemma calm_call: "calm_callback cb \<Longrightarrow> calm c (call cb c)"
  by (auto simp: call_def calm_callback_def split: option.split)

lemma input_simps [simp]:
  "input (c\<lparr>cl := h\<rparr>) = input c" "input (c\<lparr>behind := b\<rparr>) = input c" "input (c\<lparr>cache := k\<rparr>) = input c" "input (clear_in c) = 0"
  "input (s_report_error_and_restart c) = 0" "input (c\<lparr>es := e\<rparr>) = length (buf_in e)" "input (shrink_in c n) = input c - n"
  "input (close_out c) = input c" "input (dap_http_cache_delete c u) = input c"
  by (simp_all add: input_def clear_in_def s_report_error_and_restart_def dap_events_socket_set_writable_unsafe_def
      dap_events_socket_set_readable_unsafe_def shrink_in_def Let_def dap_events_socket_shrink_buf_in_def close_out_def
      dap_http_cache_delete_def min_def)

lemma socket_write_in [simp]: "buf_in (fst (dap_events_socket_write_unsafe e d)) = buf_in e"
  by (simp add: dap_events_socket_write_unsafe_def dap_events_socket_set_writable_unsafe_def Let_def)

lemma es_printf_in: "es_printf e t = Inr e' \<Longrightarrow> buf_in e' = buf_in e"
  by (auto simp: es_printf_def split: if_splits)

lemma nd_es_printf [ends]: "nd (es_printf e t)" by (simp add: es_printf_def)

lemma write_headers_in: "write_headers e hs = Inr e' \<Longrightarrow> buf_in e' = buf_in e"
  by (induction hs arbitrary: e) (auto simp: bindE_eq_Inr dest: es_printf_in)

lemma nd_write_headers [ends]: "nd (write_headers e hs)"
  by (induction hs arbitrary: e) (auto intro!: ends)

lemma nd_status_line [ends]: "nd (status_line ht)"
  unfolding status_line_def by (auto intro!: ends split: option.split)

lemma proc_of_calm: "calm_http http \<Longrightarrow> proc_of http c = Some p \<Longrightarrow> \<exists>u. url_proc http u = Some p"
  by (auto simp: proc_of_def split: option.splits)

lemma write_calm:
  assumes "calm_http http"
  shows "calm c (dap_http_client_write http c)"
proof -
  have cb: "calm_callback (headers_write_callback p)" "calm_callback (data_write_callback p)" if "proc_of http c = Some p" for c p
    using assms proc_of_calm [OF assms that] unfolding calm_http_def by blast+
  have data: "calm c (write_data http c)" for c
  proof -
    have "calm c (bindE (f c) (\<lambda>c. Inr (if signal_close (es c) then c\<lparr>cl := (cl c)\<lparr>state_write := HTTP_NONE\<rparr>\<rparr> else c)))"
      if "proc_of http c = Some p" "data_write_callback p = Some f" for p f
      using cb(2) [OF that(1)] that(2) by (intro calm_bindE) (auto simp: calm_callback_def)
    then show ?thesis
      by (auto simp: write_data_def Let_def calm_Inl split: option.split prod.splits dest!: arg_cong [of _ _ fst])
        (auto simp: input_def dest!: arg_cong [of _ _ buf_in])
  qed
  have hdrs: "calm c (write_hdrs http c)" for c
    unfolding write_hdrs_def by (intro calm_bindE_res ends) (auto simp: input_def dest: write_headers_in)
  have start: "calm c (write_start http c)" for c
    unfolding write_start_def
  proof (rule calm_bindE)
    show "calm c (case proc_of http c of None \<Rightarrow> Inr c
       | Some p \<Rightarrow>
           if out_headers (cl c) = [] \<and> headers_write_callback p \<noteq> None
           then bindE (call (headers_write_callback p) c) (\<lambda>c. Inr (c\<lparr>cl := dap_http_client_out_header_generate http (cl c)\<rparr>))
           else if out_headers (cl c) \<noteq> [] then Inr (c\<lparr>cl := (cl c)\<lparr>reply_status_code := 200\<rparr>\<rparr>)
           else Inr c)"
      using calm_call [OF cb(1)] by (auto split: option.split intro!: calm_bindE)
  next
    show "calm c' (bindE (status_line (cl c')) (\<lambda>l. bindE (es_printf (es c') l) (\<lambda>e.
       Inr (c'\<lparr>es := e, cl := (cl c')\<lparr>state_write := HTTP_HEADERS\<rparr>\<rparr>))))" for c' :: "'a http_conn"
      by (intro calm_bindE_res ends) (auto simp: input_def dest: es_printf_in)
  qed
  show ?thesis
    unfolding dap_http_client_write_def
    by (auto split: http_state.split intro!: calm_bindE [OF start] calm_bindE [OF hdrs] data hdrs)
qed

section \<open>The reading loop ends\<close>

lemma calm_restart: "calm c (bindE (f c) (\<lambda>(c, ok). Inr c)) \<Longrightarrow>
    calm c (bindE (f c) (\<lambda>(c, ok). Inr (if ok then c else s_report_error_and_restart c)))"
  by (cases "f c") (auto simp: calm_def nd_def)

lemma headers_over_calm:
  assumes "calm_http http"
  shows "calm c (headers_over http c)"
proof (cases "proc_of http c")
  case None
  then show ?thesis by (simp add: headers_over_def calm_Inl)
next
  case (Some p)
  obtain u where u: "url_proc http u = Some p" using proc_of_calm [OF assms Some] by blast
  have a: "calm c (case access_callback p of None \<Rightarrow> Inr c
      | Some f \<Rightarrow> bindE (f c) (\<lambda>(c, ok). Inr (if ok then c else s_report_error_and_restart c)))" for c
    using assms u by (auto simp: calm_http_def split: option.split intro: calm_restart)
  have h: "calm c (if cache_of c = None then call (headers_read_callback p) c else Inr c)" for c
  proof -
    have "calm_callback (headers_read_callback p)" using assms u unfolding calm_http_def by blast
    then show ?thesis using calm_call by auto
  qed
  have d: "calm c (if in_content_length (cl c) \<noteq> 0 then Inr (c\<lparr>cl := (cl c)\<lparr>state_read := HTTP_DATA\<rparr>\<rparr>)
      else (let c = c\<lparr>cl := (cl c)\<lparr>state_write := HTTP_START\<rparr>\<rparr> in if cache_of c \<noteq> None then dap_http_client_write http c else Inr c))" for c
    using write_calm [OF assms, of "c\<lparr>cl := (cl c)\<lparr>state_write := HTTP_START\<rparr>\<rparr>"] by (auto simp: Let_def intro: calm_less)
  show ?thesis unfolding headers_over_def Some option.case by (intro calm_bindE a h d)
qed

text \<open>A round that ends with less input than it began with, or with none.\<close>

definition eats :: "'a http_conn \<Rightarrow> 'a http_conn res \<Rightarrow> bool" where
  "eats c m \<longleftrightarrow> nd m \<and> (\<forall>c'. m = Inr c' \<longrightarrow> input c' < input c \<or> input c' = 0)"

lemma eats_Inr [simp]: "eats c (Inr c') \<longleftrightarrow> input c' < input c \<or> input c' = 0" by (simp add: eats_def)

lemma eats_bindE_res: "nd m \<Longrightarrow> (\<And>x. m = Inr x \<Longrightarrow> eats c (f x)) \<Longrightarrow> eats c (bindE m f)"
  by (cases m) (auto simp: eats_def nd_def)

lemma eats_bindE: "calm c m \<Longrightarrow> (\<And>c'. m = Inr c' \<Longrightarrow> eats c' (f c')) \<Longrightarrow> eats c (bindE m f)"
  by (cases m) (fastforce simp: calm_def eats_def nd_def)+

lemma line_length_pos: "line_length b = Inr (Some n) \<Longrightarrow> 0 < n"
  by (auto simp: line_length_def split: option.splits nat.splits if_splits)

lemma read_header_eats:
  assumes "calm_http http"
  shows "eats c (read_header http c)"
proof -
  have *: "eats c (bindE (if r = (1 :: int) then headers_over http (c\<lparr>cl := ht\<rparr>) else Inr (c\<lparr>cl := ht\<rparr>)) (\<lambda>c2. Inr (shrink_in c2 n)))"
    if "0 < n" for ht n r
  proof (rule eats_bindE)
    show "calm c (if r = 1 then headers_over http (c\<lparr>cl := ht\<rparr>) else Inr (c\<lparr>cl := ht\<rparr>))"
      using headers_over_calm [OF assms, of "c\<lparr>cl := ht\<rparr>"] by (auto intro: calm_less)
  qed (use that in auto)
  show ?thesis
  proof (cases "length (buf_in (es c)) < 2")
    case False
    have "eats c (case line of None \<Rightarrow> Inr (s_report_error_and_restart c) | Some l_len \<Rightarrow>
        bindE (dap_http_header_parse (cl c) (buf_in (es c) @ behind c) l_len) (\<lambda>(ht, l_ret).
        bindE (if l_ret = 1 then headers_over http (c\<lparr>cl := ht\<rparr>) else Inr (c\<lparr>cl := ht\<rparr>)) (\<lambda>c2. Inr (shrink_in c2 l_len))))"
      if "line_length (buf_in (es c)) = Inr line" for line
      using that line_length_pos * by (cases line) (auto intro!: eats_bindE_res [OF nd_header_parse])
    then show ?thesis using False unfolding read_header_def Let_def by (auto intro!: eats_bindE_res [OF nd_line_length])
  qed (simp add: read_header_def)
qed

lemma enter_proc_calm:
  assumes "calm_http http" "url_proc http u = Some p"
  shows "calm c (enter_proc http p u c)"
proof -
  have "calm_callback (h_new p)" using assms by (auto simp: calm_http_def)
  then show ?thesis by (auto simp: enter_proc_def calm_call split: option.split)
qed

lemma read_start_eats:
  assumes "calm_http http"
  shows "eats c (read_start http c)"
proof -
  have *: "eats c (bindE (enter_proc http p u c1) (read_header http))"
    if "url_proc http u = Some p" "input c1 \<le> input c" for p u c1
    using enter_proc_calm [OF assms that(1), of c1] that(2)
    by (intro eats_bindE read_header_eats [OF assms]) (rule calm_less)
  show ?thesis
    unfolding read_start_def Let_def
    by (auto intro!: eats_bindE_res ends * split: option.split prod.split)
qed

lemma read_data_eats:
  assumes "calm_http http"
  shows "nd (read_data http c n) \<and> (\<forall>c' k. read_data http c n = Inr (c', k) \<longrightarrow> input c' < input c \<or> input c' = 0)"
proof (cases "proc_of http c")
  case None
  then show ?thesis by (simp add: read_data_def)
next
  case (Some p)
  obtain u where u: "url_proc http u = Some p" using proc_of_calm [OF assms Some] by blast
  show ?thesis
  proof (cases "if cache_of c = None then data_read_callback p else None")
    case None
    have "calm (clear_in c) (dap_http_client_write http (clear_in c\<lparr>cl := (cl (clear_in c))\<lparr>state_write := HTTP_START\<rparr>\<rparr>))"
      using write_calm [OF assms] by (rule calm_less) simp
    then show ?thesis unfolding read_data_def Some None option.case Let_def
      by (auto simp: calm_def bindE_eq_Inr intro!: ends)
  next
    case (Some f)
    then have f: "data_read_callback p = Some f" by (auto split: if_splits)
    have g: "calm c (bindE (f c n) (\<lambda>(c, k). Inr c))" "\<forall>c' k. f c n = Inr (c', k) \<longrightarrow> buf_in (es c') \<noteq> [] \<longrightarrow> 0 < k"
      using assms u f unfolding calm_http_def by blast+
    have "nd (f c n)" using g(1) by (cases "f c n") (auto simp: calm_def nd_def)
    moreover have "input c' - k < input c \<or> input c' - k = 0" if "f c n = Inr (c', k)" for c' k
    proof -
      have "input c' \<le> input c" using g(1) that by simp
      moreover have "0 < k" if "input c' \<noteq> 0" using g(2) \<open>f c n = Inr (c', k)\<close> that by (auto simp: input_def)
      ultimately show ?thesis by (cases "input c' = 0") auto
    qed
    ultimately show ?thesis unfolding read_data_def \<open>proc_of http c = Some p\<close> Some option.case
      by (auto simp: bindE_eq_Inr intro!: ends)
  qed
qed

lemma read_round_eats:
  assumes "calm_http http"
  shows "nd (read_round http c n) \<and> (\<forall>c' k. read_round http c n = Inr (c', k) \<longrightarrow> input c' < input c \<or> input c' = 0)"
  using read_start_eats [OF assms, of c] read_header_eats [OF assms, of c] read_data_eats [OF assms, of c n]
  by (cases "state_read (cl c)") (auto simp: read_round_def eats_def bindE_eq_Inr intro!: ends)

text \<open>
  C21: Reading ends after at most as many rounds as there are bytes of input, and one: for every input, every state of
  the connection and every processors whose callbacks end and put nothing back into the input buffer, and whose data
  callback takes at least one byte while there is one.
\<close>

theorem http_read_terminates:
  assumes "calm_http http" "length (buf_in (es c)) < fuel"
  shows "dap_http_client_read fuel http c \<noteq> Inl Diverges"
proof -
  have "nd (read_loop fuel http c n)" if "input c < fuel" for fuel n c
    using that
  proof (induction fuel arbitrary: c n)
    case (Suc fuel)
    note r = read_round_eats [OF assms(1), of c n]
    have "nd (read_loop fuel http c' k)" if "read_round http c n = Inr (c', k)" "buf_in (es c') \<noteq> []" for c' k
      using r that Suc by (intro Suc.IH) (auto simp: input_def)
    then have "nd (if buf_in (es (fst x)) = [] then Inr (fst x) else read_loop fuel http (fst x) (snd x))"
      if "read_round http c n = Inr x" for x using that by (cases x) simp
    then show ?case using r by (auto simp: split_beta intro!: nd_bindE simp del: split_paired_All)
  qed simp
  then show ?thesis using assms(2) by (simp add: dap_http_client_read_def nd_def input_def)
qed

text \<open>Reading ends for a server without processors, and for one whose data callback takes everything.\<close>

definition eater :: "unit dap_http_url_proc" where
  "eater = \<lparr>h_new = None, h_delete = None, headers_read_callback = None, headers_write_callback = None,
     data_read_callback = Some (\<lambda>c n. Inr (c, length (buf_in (es c)))), data_write_callback = None, error_callback = None,
     access_callback = None\<rparr>"

definition demo_http :: "unit dap_http" where
  "demo_http = \<lparr>server_name = ascii ''demo'', url_proc = [ascii ''/data'' \<mapsto> eater], time_now = 0,
     time_to_str_rfc822 = (\<lambda>t. ascii ''Thu, 01 Jan 70 00:00:00 +0000'')\<rparr>"

definition demo_socket :: "byte list \<Rightarrow> dap_events_socket" where
  "demo_socket bytes = \<lparr>signal_close = False, ready_to_write = False, ready_to_read = True, buf_in = bytes, buf_out = [],
     buf_out_size_max = 1000\<rparr>"

definition demo_conn :: "byte list \<Rightarrow> unit http_conn" where
  "demo_conn bytes = dap_http_client_new (demo_socket bytes) [] (\<lambda>_. None) ()"

theorem http_read_terminates_witness:
  "dap_http_client_read 17 demo_http (demo_conn (replicate 16 0x41)) \<noteq> Inl Diverges"
proof (rule http_read_terminates)
  show "calm_http demo_http"
    by (auto simp: calm_http_def demo_http_def eater_def calm_callback_def split: if_splits)
qed (simp add: demo_conn_def demo_socket_def dap_http_client_new_def)

section \<open>Replies\<close>

lemma write_headers_ok:
  "length (buf_out e) + length (concat (map header_line hs)) < buf_out_size_max e \<Longrightarrow>
   write_headers e hs = Inr (e\<lparr>buf_out := buf_out e @ concat (map header_line hs)\<rparr>)"
  by (induction hs arbitrary: e) (simp_all add: es_printf_def)

lemma dec_digits_200: "dec_digits 200 = ascii ''200''"
  by (subst dec_digits.simps, subst dec_digits.simps, subst dec_digits.simps) (simp add: ascii_def)

lemma reason_200: "http_status_reason_phrase 200 = Some (ascii ''OK'')"
  by (simp add: http_status_reason_phrase_def http_reasons_def)

definition reply_head :: "'a dap_http \<Rightarrow> http_client \<Rightarrow> cstr" where
  "reply_head http ht = ascii ''HTTP/1.1 200 '' @ (if reply_reason_phrase ht = [] then ascii ''OK'' else reply_reason_phrase ht) @ CRLF @
     concat (map header_line (out_headers ht @ [\<lparr>hname = ascii ''Date'', hvalue = time_to_str_rfc822 http (time_now http)\<rparr>])) @ CRLF"

text \<open>
  When a processor's reply comes with its headers already made, as the simple processors make them, the head that
  is written has the status 200, whatever status the reply was given: then its headers in their order, the date and
  the empty line, and the data callback comes next.
\<close>

theorem http_reply_always_200:
  assumes "state_write (cl c) = HTTP_START" "proc_of http c = Some p" "out_headers (cl c) \<noteq> []"
    and "\<not> signal_close (es c)" "length (buf_out (es c)) + length (reply_head http (cl c)) < buf_out_size_max (es c)"
  shows "\<exists>c'. dap_http_client_write http c = write_data http c' \<and> buf_out (es c') = buf_out (es c) @ reply_head http (cl c) \<and>
    reply_status_code (cl c') = 200 \<and> out_headers (cl c') = [] \<and> state_write (cl c') = HTTP_DATA \<and> inner c' = inner c"
proof -
  let ?hs = "out_headers (cl c) @ [\<lparr>hname = ascii ''Date'', hvalue = time_to_str_rfc822 http (time_now http)\<rparr>]"
  let ?cl = "(cl c)\<lparr>reply_status_code := 200\<rparr>"
  define l where "l = ascii ''HTTP/1.1 200 '' @ (if reply_reason_phrase (cl c) = [] then ascii ''OK'' else reply_reason_phrase (cl c)) @ CRLF"
  have head: "reply_head http (cl c) = l @ concat (map header_line ?hs) @ CRLF" by (simp add: reply_head_def l_def)
  have st: "status_line ?cl = Inr l"
    by (simp add: status_line_def reason_200 dec_digits_200 l_def) (simp add: ascii_def)
  let ?e1 = "(es c)\<lparr>buf_out := buf_out (es c) @ l\<rparr>"
  have room: "length (buf_out (es c)) + length l + length (concat (map header_line ?hs)) + 2 < buf_out_size_max (es c)"
    using assms(5) unfolding head by simp
  then have pr: "es_printf (es c) l = Inr ?e1" by (simp add: es_printf_def)
  let ?c1 = "c\<lparr>es := ?e1, cl := ?cl\<lparr>state_write := HTTP_HEADERS\<rparr>\<rparr>"
  have 1: "write_start http c = Inr ?c1"
  proof -
    have "(c\<lparr>cl := ?cl\<rparr>)\<lparr>es := ?e1, cl := ?cl\<lparr>state_write := HTTP_HEADERS\<rparr>\<rparr> = ?c1" by (cases c) simp
    then show ?thesis using assms(2,3) st pr by (simp add: write_start_def)
  qed
  let ?e2 = "?e1\<lparr>buf_out := buf_out (es c) @ l @ concat (map header_line ?hs)\<rparr>"
  have wh: "write_headers ?e1 ?hs = Inr ?e2" using write_headers_ok [of ?e1 ?hs] room by simp
  have w: "buf_out (fst (dap_events_socket_write_unsafe ?e2 CRLF)) = buf_out (es c) @ reply_head http (cl c)"
    using room assms(4) unfolding head
    by (simp add: dap_events_socket_write_unsafe_def dap_events_socket_set_writable_unsafe_def Let_def CRLF_def)
  define c2 where "c2 = ?c1\<lparr>es := fst (dap_events_socket_write_unsafe ?e2 CRLF), cl := (cl ?c1)\<lparr>out_headers := [], state_write := HTTP_DATA\<rparr>\<rparr>"
  have "write_hdrs http ?c1 = Inr c2" using wh by (simp add: write_hdrs_def dap_http_header_add_def c2_def)
  then have "dap_http_client_write http c = write_data http c2" using 1 assms(1) by (simp add: dap_http_client_write_def)
  moreover have "buf_out (es c2) = buf_out (es c) @ reply_head http (cl c)" "reply_status_code (cl c2) = 200" "out_headers (cl c2) = []"
    "state_write (cl c2) = HTTP_DATA" "inner c2 = inner c" using w by (simp_all add: c2_def)
  ultimately show ?thesis by blast
qed

definition failed_reply :: "unit http_conn" where
  "failed_reply = (demo_conn [])\<lparr>cl := (cl (demo_conn []))\<lparr>state_write := HTTP_START, reply_status_code := 400, proc := Some (ascii ''/data''),
     out_headers := [\<lparr>hname = ascii ''Server-Name'', hvalue = ascii ''demo''\<rparr>]\<rparr>\<rparr>"

theorem http_reply_always_200_witness:
  "\<exists>c'. reply_status_code (cl failed_reply) = 400 \<and> dap_http_client_write demo_http failed_reply = write_data demo_http c' \<and>
    take 15 (buf_out (es c')) = ascii ''HTTP/1.1 200 OK''"
proof -
  have len: "length (reply_head demo_http (cl failed_reply)) < 1000"
    by (simp add: reply_head_def failed_reply_def demo_conn_def dap_http_client_new_def demo_http_def header_line_def buf_text_def ascii_def)
  have h: "take 15 (reply_head demo_http (cl failed_reply)) = ascii ''HTTP/1.1 200 OK''"
    by (simp add: reply_head_def failed_reply_def demo_conn_def dap_http_client_new_def ascii_def)
  have "\<exists>c'. dap_http_client_write demo_http failed_reply = write_data demo_http c' \<and>
      buf_out (es c') = buf_out (es failed_reply) @ reply_head demo_http (cl failed_reply) \<and>
      reply_status_code (cl c') = 200 \<and> out_headers (cl c') = [] \<and> state_write (cl c') = HTTP_DATA \<and> inner c' = inner failed_reply"
    using len by (intro http_reply_always_200 [of failed_reply demo_http eater])
      (simp_all add: failed_reply_def demo_conn_def dap_http_client_new_def demo_http_def proc_of_def demo_socket_def)
  then show ?thesis using h by (auto simp: failed_reply_def demo_conn_def dap_http_client_new_def demo_socket_def)
qed

end
