(* ===== verification/HttpClaims.thy ===== *)
theory HttpClaims
  imports HttpEnds
begin

text \<open>
  What the HTTP server makes of its input: a printed request is read as what was printed, the ways
  a line can lead its parser out of the memory, and when reading ends.
\<close>

definition request_text :: "byte list \<Rightarrow> byte list \<Rightarrow> byte list option \<Rightarrow> (byte list \<times> byte list) list \<Rightarrow> byte list" where
  "request_text m path q hs = request_line m path q @ request_headers hs"

text \<open>A path with its last component \<open>b\<close>, and the URL whose processor serves it.\<close>

definition served_by :: "byte list \<Rightarrow> byte list \<Rightarrow> cstr" where
  "served_by d b = (if d = [] then 0x2f # b else d)"

lemma scan_back_run:
  "\<forall>j. k < j \<and> j \<le> n \<longrightarrow> path ! j \<noteq> 0x2f \<Longrightarrow> k \<le> n \<Longrightarrow> k = 0 \<or> path ! k = 0x2f \<Longrightarrow> scan_back path n = k"
  by (induction n) (auto simp: le_Suc_eq)

lemma scan_back_path:
  assumes "0x2f \<notin> set b"
  shows "scan_back (d @ 0x2f # b) (length d + length b) = length d"
proof -
  have "(d @ 0x2f # b) ! j \<noteq> 0x2f" if "length d < j" "j \<le> length d + length b" for j
  proof -
    obtain i where i: "j = Suc (length d + i)" using less_imp_Suc_add [OF \<open>length d < j\<close>] by blast
    then have "(d @ 0x2f # b) ! j = b ! i" by (simp add: nth_append)
    moreover have "i < length b" using that(2) i by simp
    ultimately show ?thesis using assms nth_mem by metis
  qed
  then show ?thesis by (intro scan_back_run) auto
qed

lemma conn_update_commute: "c\<lparr>es := e, behind := b, cl := x\<rparr> = c\<lparr>cl := x, es := e, behind := b\<rparr>"
  by (cases c) simp

text \<open>
  C8: A request - method, path, arguments, headers, the empty line - is read in one go up to the end of its headers,
  whatever follows it: the processor of the path's directory is found, and it gets the connection with the method,
  the last component of the path, the arguments and all headers in their order, each applied to the client.
\<close>

theorem http_request_read:
  assumes "request_ok m (d @ 0x2f # b) q" "0x2f \<notin> set b" "\<forall>h \<in> set hs. header_ok h" "length (request_line m (d @ 0x2f # b) q) < 2 ^ 64"
    and "state_read (cl c) = HTTP_START" "buf_in (es c) = request_text m (d @ 0x2f # b) q hs @ rest"
    and "url_proc http (served_by d b) = Some p" "\<forall>c. call (h_new p) c = Inr c" "cache c (served_by d b) = None"
  shows "\<exists>mem. dap_http_client_read (length hs + Suc k) http c =
    bindE (headers_over http (c\<lparr>cl := apply_headers hs ((cl c)\<lparr>action := m, url_path := (if d = [] then 0x2f # b else b),
          url_path_len := length d + 1 + length b, in_query_string := (case q of None \<Rightarrow> in_query_string (cl c) | Some s \<Rightarrow> s),
          proc := Some (served_by d b), state_read := HTTP_HEADERS\<rparr>),
        es := (es c)\<lparr>buf_in := CRLF @ rest\<rparr>, behind := mem\<rparr>)) (after_headers k http 0)"
proof -
  let ?path = "d @ 0x2f # b" and ?line = "request_line m (d @ 0x2f # b) q"
  obtain y r where y: "request_headers hs @ rest = y # r" using request_headers_Cons by blast
  have buf: "buf_in (es c) = ?line @ y # r" using assms(6) y by (simp add: request_text_def)
  obtain x where x: "?line = x @ CRLF" "LF \<notin> set x"
  proof
    show "?line = (m @ 0x20 # ?path @ (case q of None \<Rightarrow> [] | Some q \<Rightarrow> 0x3f # q) @ ascii '' HTTP/1.1'') @ CRLF"
      by (simp add: request_line_def)
    have "LF \<notin> set s" if "token_ok n s" for n s using that by (auto simp: token_ok_def)
    then have "LF \<notin> set m" "LF \<notin> set ?path" "\<forall>s. q = Some s \<longrightarrow> LF \<notin> set s"
      using assms(1) unfolding request_ok_def by blast+
    then show "LF \<notin> set (m @ 0x20 # ?path @ (case q of None \<Rightarrow> [] | Some q \<Rightarrow> 0x3f # q) @ ascii '' HTTP/1.1'')"
      by (cases q) (auto simp: ascii_def LF_def)
  qed
  have ll: "line_length (buf_in (es c)) = Inr (Some (length ?line))"
    using line_length_printed [OF x(2)] x(1) buf by simp
  have long: "\<not> length (buf_in (es c)) < 8" unfolding buf by (simp add: request_line_def ascii_def)
  let ?ht = "(cl c)\<lparr>action := m, url_path := ?path, url_path_len := length ?path,
      in_query_string := (case q of None \<Rightarrow> in_query_string (cl c) | Some s \<Rightarrow> s)\<rparr>"
  have parse: "s_http_start_line_parse (cl c) (buf_in (es c) @ behind c) (length ?line) = Inr (?ht, 0)"
    using start_line_printed [OF assms(1,4), of "cl c" "(y # r) @ behind c"] buf by simp
  have tok: "0 \<notin> set ?path" using assms(1) by (auto simp: request_ok_def token_ok_def)
  have key: "proc_key ?ht = served_by d b"
  proof (cases "length ?path < 2")
    case True
    then show ?thesis using tok by (simp add: proc_key_def z_dirname_def path_len_def served_by_def buf_text_id)
  next
    case False
    then have "z_dirname ?path (length ?path) = length d"
      using scan_back_path [OF assms(2), of d] by (simp add: z_dirname_def path_len_def)
    then show ?thesis using tok by (simp add: proc_key_def served_by_def buf_text_id)
  qed
  have base: "base_path ?ht = (if d = [] then 0x2f # b else b)"
  proof (cases "length ?path < 2")
    case True
    then show ?thesis using tok by (simp add: base_path_def z_basename_def path_len_def buf_text_id)
  next
    case False
    then have "z_basename ?path (length ?path) = (if d = [] then 0 else length d + 1)"
      using scan_back_path [OF assms(2), of d] by (cases d) (simp_all add: z_basename_def path_len_def)
    then show ?thesis using tok by (simp add: base_path_def buf_text_id)
  qed
  obtain mem where sh: "shrink_in (c\<lparr>cl := ?ht\<rparr>) (length ?line) = c\<lparr>cl := ?ht, es := (es c)\<lparr>buf_in := y # r\<rparr>, behind := mem\<rparr>"
    using shrink_in_line [of "c\<lparr>cl := ?ht\<rparr>" ?line "y # r"] buf by auto
  define ht0 where "ht0 = (cl c)\<lparr>action := m, url_path := (if d = [] then 0x2f # b else b), url_path_len := length d + 1 + length b,
      in_query_string := (case q of None \<Rightarrow> in_query_string (cl c) | Some s \<Rightarrow> s),
      proc := Some (served_by d b), state_read := HTTP_HEADERS\<rparr>"
  have ht0: "?ht\<lparr>proc := Some (served_by d b), url_path := (if d = [] then 0x2f # b else b), state_read := HTTP_HEADERS\<rparr> = ht0"
    by (cases "cl c") (simp add: ht0_def)
  let ?c = "c\<lparr>cl := ht0, es := (es c)\<lparr>buf_in := y # r\<rparr>, behind := mem\<rparr>"
  have "read_start http c = read_header http ?c"
    unfolding read_start_def if_not_P [OF long] ll bindE_simps option.case parse prod.case Let_def sh key base assms(7)
    using assms(8,9) ht0 by (simp add: enter_proc_def conn_update_commute)
  moreover have hd: "state_read ht0 = HTTP_HEADERS" by (simp add: ht0_def)
  ultimately have "read_loop (length hs + Suc k) http c 0 = read_loop (length hs + Suc k) http ?c 0"
    using assms(5) by (simp add: read_round_def)
  moreover have "\<exists>mem. read_loop (length hs + Suc k) http ?c 0 =
      bindE (headers_over http (?c\<lparr>cl := apply_headers hs (cl ?c), es := (es ?c)\<lparr>buf_in := CRLF @ rest\<rparr>, behind := mem\<rparr>)) (after_headers k http 0)"
    by (rule read_loop_headers [OF assms(3)]) (simp_all add: y hd)
  ultimately show ?thesis unfolding ht0_def [symmetric] dap_http_client_read_def by (simp del: read_loop.simps add_Suc_right)
qed

definition demo_request :: "byte list" where
  "demo_request = request_text (ascii ''GET'') (ascii ''/data'' @ 0x2f # ascii ''x'') (Some (ascii ''a=1'')) [(ascii ''Host'', ascii ''h'')]"

theorem http_request_read_witness:
  "\<exists>c. dap_http_client_read 2 demo_http (demo_conn demo_request) = Inr c \<and> action (cl c) = ascii ''GET'' \<and> url_path (cl c) = ascii ''x'' \<and>
    in_query_string (cl c) = ascii ''a=1'' \<and> in_headers (cl c) = [\<lparr>hname = ascii ''Host'', hvalue = ascii ''h''\<rparr>] \<and>
    proc (cl c) = Some (ascii ''/data'') \<and> buf_in (es c) = []"
proof -
  let ?c = "demo_conn demo_request" and ?hs = "[(ascii ''Host'', ascii ''h'')]"
  have ok: "request_ok (ascii ''GET'') (ascii ''/data'' @ 0x2f # ascii ''x'') (Some (ascii ''a=1''))" "0x2f \<notin> set (ascii ''x'')"
    "\<forall>h \<in> set ?hs. header_ok h" "length (request_line (ascii ''GET'') (ascii ''/data'' @ 0x2f # ascii ''x'') (Some (ascii ''a=1''))) < 2 ^ 64"
    by (simp_all add: request_ok_def token_ok_def ascii_def isspace_def header_ok_def LF_def request_line_def)
  have c: "state_read (cl ?c) = HTTP_START" "buf_in (es ?c) = request_text (ascii ''GET'') (ascii ''/data'' @ 0x2f # ascii ''x'') (Some (ascii ''a=1'')) ?hs @ []"
    "url_proc demo_http (served_by (ascii ''/data'') (ascii ''x'')) = Some eater" "\<forall>c. call (h_new eater) c = Inr c" "cache ?c (served_by (ascii ''/data'') (ascii ''x'')) = None"
    by (simp_all add: demo_conn_def dap_http_client_new_def demo_socket_def demo_request_def demo_http_def served_by_def ascii_def eater_def call_def)
  obtain mem where "dap_http_client_read (length ?hs + Suc 0) demo_http ?c =
    bindE (headers_over demo_http (?c\<lparr>cl := apply_headers ?hs ((cl ?c)\<lparr>action := ascii ''GET'', url_path := (if ascii ''/data'' = [] then 0x2f # ascii ''x'' else ascii ''x''),
          url_path_len := length (ascii ''/data'') + 1 + length (ascii ''x''),
          in_query_string := (case Some (ascii ''a=1'') of None \<Rightarrow> in_query_string (cl ?c) | Some s \<Rightarrow> s),
          proc := Some (served_by (ascii ''/data'') (ascii ''x'')), state_read := HTTP_HEADERS\<rparr>),
        es := (es ?c)\<lparr>buf_in := CRLF @ []\<rparr>, behind := mem\<rparr>)) (after_headers 0 demo_http 0)"
    using http_request_read [OF ok c, of 0] by blast
  then show ?thesis
    by (simp add: headers_over_def proc_of_def cache_of_def served_by_def demo_http_def eater_def call_def after_headers_def shrink_in_def Let_def
        dap_events_socket_shrink_buf_in_def demo_conn_def dap_http_client_new_def apply_header_def ascii_def CRLF_def demo_socket_def numeral_2_eq_2)
qed

section \<open>Where a header line leads\<close>

lemma skip_while_off:
  assumes "\<And>j. i \<le> j \<Longrightarrow> j < length mem \<Longrightarrow> p (mem ! j)" "length mem - i \<le> n"
  shows "skip_while p mem i n = Inl OutOfBounds"
  using assms
proof (induction "length mem - i" arbitrary: i n)
  case 0
  then show ?case by (subst skip_while.simps) simp
next
  case (Suc k)
  then have "i < length mem" "p (mem ! i)" "n \<noteq> 0" by auto
  moreover have "skip_while p mem (i + 1) (n - 1) = Inl OutOfBounds"
    using Suc by (intro Suc.hyps(1)) auto
  ultimately show ?case by (subst skip_while.simps) simp
qed

text \<open>Blanks are passed over up to the end of the line, where the byte behind it is looked at.\<close>

lemma skip_blanks:
  assumes "i \<le> n" "n \<le> length mem"
  defines "z \<equiv> dropWhile isspace (drop i (take n mem))"
  shows "skip_while isspace mem i (n - i) = (if z = [] \<and> n = length mem then Inl OutOfBounds else Inr (n - length z, length z))"
proof -
  let ?l = "drop i (take n mem)" and ?w = "takeWhile isspace (drop i (take n mem))"
  have l: "?l = ?w @ z" by (simp add: z_def)
  then have len: "length ?w + length z = n - i" using assms(1,2) by (metis diff_right_commute length_append length_drop length_take min.absorb2)
  have nth: "mem ! (i + j) = ?l ! j" if "j < n - i" for j using that assms(1,2) by (simp add: add.commute)
  have w: "isspace (mem ! (i + j))" if "j < length ?w" for j
  proof -
    have "?l ! j = ?w ! j" using that l by (metis nth_append)
    then show ?thesis using nth [of j] that len set_takeWhileD nth_mem [OF that] by fastforce
  qed
  show ?thesis
  proof (cases "z = []")
    case True
    then have k: "length ?w = n - i" using len by simp
    show ?thesis
    proof (cases "n = length mem")
      case True
      have "isspace (mem ! j)" if "i \<le> j" "j < length mem" for j
        using w [of "j - i"] that k True by simp
      then have "skip_while isspace mem i (n - i) = Inl OutOfBounds" by (rule skip_while_off) (simp_all add: True)
      then show ?thesis using True \<open>z = []\<close> by simp
    next
      case False
      then have "skip_while isspace mem i (n - i) = Inr (i + (n - i), n - i - (n - i))"
        using assms(1,2) w k by (intro skip_while_run) auto
      then show ?thesis using False \<open>z = []\<close> assms(1) by simp
    qed
  next
    case False
    then have "\<not> isspace (hd z)" unfolding z_def by (rule hd_dropWhile)
    moreover have "?l ! length ?w = hd z" using l False by (metis hd_conv_nth nth_append_length hd_Cons_tl)
    moreover have "length ?w < n - i" using len False by (cases z) auto
    ultimately have e: "\<not> isspace (mem ! (i + length ?w))" "length ?w < n - i" using nth [of "length ?w"] by simp_all
    have "skip_while isspace mem i (n - i) = Inr (i + length ?w, n - i - length ?w)"
    proof (rule skip_while_run)
      show "i + length ?w < length mem" "length ?w \<le> n - i" using e(2) assms(1,2) by simp_all
    qed (use w e(1) in simp_all)
    then show ?thesis using False len assms(1) by auto
  qed
qed

lemma ht_find_bounded:
  "ht_find ht_fields nm = HTTP_FLD_K_CONTENT_TYPE \<longleftrightarrow> nm = ascii ''Content-Type''"
  "ht_find ht_fields nm = HTTP_FLD_K_COOKIE \<longleftrightarrow> nm = ascii ''Cookie''"
proof -
  show "ht_find ht_fields nm = HTTP_FLD_K_CONTENT_TYPE \<longleftrightarrow> nm = ascii ''Content-Type''"
    by (cases "nm = []") (simp add: ht_fields_def ascii_def, simp add: ht_find_fields ascii_def)
  show "ht_find ht_fields nm = HTTP_FLD_K_COOKIE \<longleftrightarrow> nm = ascii ''Cookie''"
    by (cases "nm = []") (simp add: ht_fields_def ascii_def, simp add: ht_find_fields ascii_def)
qed

text \<open>
  C39: Parsing a line of the input as a header leaves an array in exactly these cases: the value of a content type, without
  its blanks in front and its line end, has 256 bytes or more, that of a cookie 1024 or more, or there is
  nothing but blanks behind the colon and nothing behind the line in the memory of the buffer.
\<close>

theorem http_header_fault_iff:
  assumes "n \<le> length mem"
  shows "(\<exists>f. dap_http_header_parse ht mem n = Inl f) \<longleftrightarrow>
    (\<exists>k. index_of 0x3a (take n mem) = Some k \<and> 4 \<le> n \<and>
      (let nm = take k mem; z = dropWhile isspace (drop (k + 1) (take n mem)) in
       nm = ascii ''Content-Type'' \<and> 258 \<le> length z \<or> nm = ascii ''Cookie'' \<and> 1026 \<le> length z \<or> z = [] \<and> n = length mem))"
proof (cases "take n mem = CRLF \<or> n < 4 \<or> index_of 0x3a (take n mem) = None")
  case True
  then have "\<exists>x. dap_http_header_parse ht mem n = Inr x"
    using assms by (auto simp: dap_http_header_parse_def chunkE_def chunk_def)
  moreover have "\<not> 4 \<le> n" if "take n mem = CRLF" using that assms by (metis CRLF_simps(1) length_take min.absorb2 numeral_le_iff semiring_norm(69,71,72))
  ultimately show ?thesis using True by auto
next
  case False
  then obtain k where k: "index_of 0x3a (take n mem) = Some k" and f: "take n mem \<noteq> CRLF" "\<not> n < 4" by auto
  have kn: "k < n" using index_of_Some [OF k] assms by simp
  let ?z = "dropWhile isspace (drop (k + 1) (take n mem))"
  have c: "chunkE mem 0 n = Inr (take n mem)" using assms by (simp add: chunkE_def chunk_def)
  have s: "skip_while isspace mem (k + 1) (n - (k + 1)) = (if ?z = [] \<and> n = length mem then Inl OutOfBounds else Inr (n - length ?z, length ?z))"
    using kn assms by (intro skip_blanks) simp_all
  have t: "take k (take n mem) = take k mem" using kn by simp
  have vl: "(if 2 < length ?z then length ?z - 2 else 0) < 256 \<longleftrightarrow> \<not> 258 \<le> length ?z"
    "(if 2 < length ?z then length ?z - 2 else 0) < 1024 \<longleftrightarrow> \<not> 1026 \<le> length ?z" by auto
  show ?thesis
  proof (cases "?z = [] \<and> n = length mem")
    case True
    then show ?thesis unfolding dap_http_header_parse_def c bindE_simps if_not_P [OF f(1)] if_not_P [OF f(2)] k option.case s
      using f(2) by (auto simp: Let_def)
  next
    case False
    show ?thesis
      unfolding dap_http_header_parse_def c bindE_simps if_not_P [OF f(1)] if_not_P [OF f(2)] k option.case s if_not_P [OF False] prod.case Let_def t
      using False f(2) vl ht_find_bounded [of "take k mem"]
      by (cases "ht_find ht_fields (take k mem)") (auto split: if_splits)
  qed
qed

theorem http_header_fault_iff_witness:
  "\<forall>ht. \<exists>f. dap_http_header_parse ht (ascii ''Content-Type:'' @ replicate 256 0x61 @ CRLF @ [0]) 271 = Inl f"
proof
  fix ht
  let ?nm = "ascii ''Content-Type''" and ?v = "replicate 256 0x61 @ CRLF" let ?line = "?nm @ 0x3a # ?v"
  have mem: "ascii ''Content-Type:'' @ replicate 256 0x61 @ CRLF @ [0] = ?line @ [0]" by (simp add: ascii_def)
  have line: "length ?line = 271" by (simp add: ascii_def)
  then have t: "take 271 (?line @ [0]) = ?line" by (metis append_eq_conv_conj)
  have "index_of 0x3a ?line = Some 12" using index_of_append [of "0x3a" ?nm ?v] by (simp add: ascii_def)
  moreover have "take 12 (?line @ [0]) = ?nm" by (simp add: ascii_def)
  moreover have "length (dropWhile isspace (drop (12 + 1) ?line)) = 258"
  proof -
    have "drop (12 + 1) ?line = ?v" by (simp add: ascii_def)
    moreover have "?v = 0x61 # replicate 255 0x61 @ CRLF" using replicate_Suc [of 255 "0x61 :: byte"] by simp
    moreover have "\<not> isspace 0x61" by (simp add: isspace_def)
    then have "dropWhile isspace (0x61 # replicate 255 0x61 @ CRLF) = 0x61 # replicate 255 0x61 @ CRLF" by simp
    ultimately have "dropWhile isspace (drop (12 + 1) ?line) = 0x61 # replicate 255 0x61 @ CRLF" by metis
    then have "length (dropWhile isspace (drop (12 + 1) ?line)) = Suc (255 + 2)"
      by (simp only: list.size(4) length_append length_replicate CRLF_simps)
    then show ?thesis by simp
  qed
  ultimately show "\<exists>f. dap_http_header_parse ht (ascii ''Content-Type:'' @ replicate 256 0x61 @ CRLF @ [0]) 271 = Inl f"
    unfolding mem using http_header_fault_iff [of 271 "?line @ [0]" ht] line unfolding t by (auto simp: Let_def)
qed

section \<open>Where a start line leads\<close>

lemma skip_to_slash_off:
  assumes "0x2f \<notin> set mem" "l \<noteq> 0"
  shows "skip_to_slash mem i n l = Inl OutOfBounds"
  using assms(1)
proof (induction "length mem - i" arbitrary: i n)
  case 0
  then show ?case by (subst skip_to_slash.simps) simp
next
  case (Suc k)
  then have i: "i < length mem" by simp
  then have "mem ! i \<noteq> 0x2f" using Suc.prems nth_mem [OF i] by metis
  moreover have "skip_to_slash mem (i + 1) ((n + (2 ^ 64 - 1)) mod 2 ^ 64) l = Inl OutOfBounds"
    using Suc by (intro Suc.hyps(1)) auto
  ultimately show ?case using assms(2) i by (subst skip_to_slash.simps) simp
qed

lemma skip_while_Inr:
  "skip_while p mem i n = Inr (j, r) \<Longrightarrow> i \<le> j \<and> j < length mem \<and> r = n - (j - i) \<and> j - i \<le> n \<and>
     (\<forall>x. i \<le> x \<and> x < j \<longrightarrow> p (mem ! x)) \<and> (\<not> p (mem ! j) \<or> r = 0)"
proof (induction p mem i n rule: skip_while.induct)
  case (1 p mem i n)
  show ?case
  proof (cases "i < length mem \<and> p (mem ! i) \<and> n \<noteq> 0")
    case True
    then have s: "skip_while p mem (i + 1) (n - 1) = Inr (j, r)" using 1(2) by (subst (asm) skip_while.simps) simp
    have ih: "i + 1 \<le> j \<and> j < length mem \<and> r = n - 1 - (j - (i + 1)) \<and> j - (i + 1) \<le> n - 1 \<and>
        (\<forall>x. i + 1 \<le> x \<and> x < j \<longrightarrow> p (mem ! x)) \<and> (\<not> p (mem ! j) \<or> r = 0)"
      by (rule 1(1) [OF _ _ s]) (use True in simp_all)
    have "p (mem ! x)" if "i \<le> x" "x < j" for x using that ih True by (cases "x = i") simp_all
    then have all: "\<forall>x. i \<le> x \<and> x < j \<longrightarrow> p (mem ! x)" by blast
    note ij = conjunct1 [OF ih] and r = conjunct1 [OF conjunct2 [OF conjunct2 [OF ih]]]
      and jn = conjunct1 [OF conjunct2 [OF conjunct2 [OF conjunct2 [OF ih]]]]
      and ends = conjunct1 [OF conjunct2 [OF ih]] conjunct2 [OF conjunct2 [OF conjunct2 [OF conjunct2 [OF conjunct2 [OF ih]]]]]
    have "i \<le> j" "r = n - (j - i)" "j - i \<le> n" using ij r jn conjunct2 [OF conjunct2 [OF True]] by linarith+
    then show ?thesis using all ends by blast
  next
    case False
    then show ?thesis using 1(2) by (subst (asm) skip_while.simps) (auto split: if_splits)
  qed
qed

lemma skip_while_Inl: "skip_while p mem i n = Inl f \<Longrightarrow> f = OutOfBounds"
  by (induction p mem i n rule: skip_while.induct) (subst (asm) (2) skip_while.simps, auto split: if_splits)

text \<open>
  Two start lines lead the reader out of its buffer: input that starts with a line feed, before which it looks, and
  one without a slash in it or behind it in the memory, which it searches up to the end of it and on.
\<close>

theorem http_start_line_escapes:
  assumes "state_read (cl c) = HTTP_START" "8 \<le> length (buf_in (es c))"
    and "hd (buf_in (es c)) = LF \<or>
      0x2f \<notin> set (buf_in (es c) @ behind c) \<and> line_length (buf_in (es c)) = Inr (Some n) \<and> (\<exists>b \<in> set (take n (buf_in (es c))). \<not> isspace b)"
  shows "dap_http_client_read (Suc k) http c = Inl OutOfBounds"
proof -
  let ?buf = "buf_in (es c)" and ?mem = "buf_in (es c) @ behind c"
  have "read_start http c = Inl OutOfBounds"
  proof (cases "hd ?buf = LF")
    case True
    then obtain r where "?buf = LF # r" using assms(2) by (cases ?buf) auto
    then have "line_length ?buf = Inl OutOfBounds" by (simp add: line_length_def)
    then show ?thesis using assms(2) by (simp add: read_start_def)
  next
    case False
    then have a: "0x2f \<notin> set ?mem" "line_length ?buf = Inr (Some n)" "\<exists>b \<in> set (take n ?buf). \<not> isspace b" using assms(3) by auto
    have "s_http_start_line_parse (cl c) ?mem n = Inl OutOfBounds"
    proof -
      obtain j where j: "j < n" "j < length ?buf" "\<not> isspace (?mem ! j)"
        using a(3) by (auto simp: in_set_conv_nth nth_append)
      have nl: "\<not> (n = 2 \<and> take 2 ?mem = CRLF)"
      proof
        assume "n = 2 \<and> take 2 ?mem = CRLF"
        then have "set (take n ?buf) \<subseteq> {CR, LF}" using assms(2) by (metis CRLF_simps(2) append_take_drop_id set_append Un_upper1 take_append)
        then show False using a(3) by auto
      qed
      show ?thesis
      proof (cases "skip_while isspace ?mem 0 n")
        case (Inl f)
        then show ?thesis using skip_while_Inl [OF Inl] nl by (simp add: s_http_start_line_parse_def)
      next
        case (Inr x)
        then obtain s0 b0 where s0: "skip_while isspace ?mem 0 n = Inr (s0, b0)" by (cases x) auto
        have b0: "b0 \<noteq> 0 \<and> \<not> isspace (?mem ! s0)"
        proof -
          have "s0 \<le> j" using skip_while_Inr [OF s0] j(3) by (metis le_less_linear zero_le)
          then show ?thesis using skip_while_Inr [OF s0] j(1) by auto
        qed
        show ?thesis
        proof (cases "skip_while (\<lambda>c. \<not> isspace c) ?mem s0 b0")
          case (Inl f)
          then show ?thesis using skip_while_Inl [OF Inl] nl s0 by (simp add: s_http_start_line_parse_def)
        next
          case (Inr x)
          then obtain e0 b1 where e0: "skip_while (\<lambda>c. \<not> isspace c) ?mem s0 b0 = Inr (e0, b1)" by (cases x) auto
          have "e0 \<noteq> s0" using skip_while_Inr [OF e0] b0 by auto
          then have "e0 - s0 \<noteq> 0" using skip_while_Inr [OF e0] by simp
          then have "skip_to_slash ?mem e0 b1 (e0 - s0) = Inl OutOfBounds" using skip_to_slash_off [OF a(1)] by blast
          then show ?thesis using nl s0 e0 by (simp add: s_http_start_line_parse_def)
        qed
      qed
    qed
    then show ?thesis using assms(2) a(2) by (simp add: read_start_def)
  qed
  then show ?thesis using assms(1) by (simp add: dap_http_client_read_def read_round_def)
qed

theorem http_start_line_escapes_witness:
  "dap_http_client_read 1 demo_http (demo_conn (ascii ''GET index'' @ CRLF)) = Inl OutOfBounds"
proof -
  let ?b = "ascii ''GET index'' @ CRLF"
  have "line_length ?b = Inr (Some 11)" "0x2f \<notin> set ?b" "8 \<le> length ?b" "0x47 \<in> set (take 11 ?b)" "\<not> isspace 0x47" by code_simp+
  then show ?thesis
    using http_start_line_escapes [of "demo_conn ?b" 11 0 demo_http]
    by (auto simp: demo_conn_def dap_http_client_new_def demo_socket_def)
qed

end
