(* ===== verification/HttpSimple.thy ===== *)
theory HttpSimple
  imports HttpEnds
begin

text \<open>
  The simple processors of the HTTP server, \<open>dap_http_simple.c\<close>, with the user agents they check,
  \<open>http_client/dap_http_user_agent.c\<close>.  A simple processor collects the body of a request, hands it to a callback
  on another thread and sends the reply the callback has put together.
\<close>

section \<open>User agents\<close>

record dap_http_user_agent =
  ua_name :: cstr
  ua_comment :: "cstr option"
  major_version :: u32
  minor_version :: u32
  string_representation :: "cstr option"

text \<open>The \<open>%d\<close> conversion.\<close>

definition dec_signed :: "u32 \<Rightarrow> cstr" where
  "dec_signed w = (if sint w < 0 then ascii ''-'' @ dec_digits (nat (- sint w)) else dec_digits (nat (sint w)))"

definition dap_http_user_agent_to_string :: "dap_http_user_agent \<Rightarrow> cstr option" where
  "dap_http_user_agent_to_string a = string_representation a"

definition user_agent_text :: "dap_http_user_agent \<Rightarrow> cstr" where
  "user_agent_text a = ua_name a @ ascii ''/'' @ dec_signed (major_version a) @ ascii ''.'' @ dec_signed (minor_version a) @
     (case ua_comment a of None \<Rightarrow> [] | Some c \<Rightarrow> ascii '' '' @ c)"

definition dap_http_user_agent_new :: "cstr option \<Rightarrow> u16 \<Rightarrow> u16 \<Rightarrow> cstr option \<Rightarrow> dap_http_user_agent option" where
  "dap_http_user_agent_new a_name maj mnr comment =
     (case a_name of None \<Rightarrow> None
      | Some nm \<Rightarrow>
          (let a = \<lparr>ua_name = nm, ua_comment = comment, major_version = ucast maj, minor_version = ucast mnr,
                    string_representation = None\<rparr> in
           Some (a\<lparr>string_representation := Some (user_agent_text a)\<rparr>)))"

text \<open>Three rounds of \<open>strtok\<close>: at blanks, at slashes, at dots.\<close>

definition dap_http_user_agent_new_from_str :: "cstr \<Rightarrow> dap_http_user_agent option" where
  "dap_http_user_agent_new_from_str s =
     (case strtok_all 0x20 s of [] \<Rightarrow> None
      | version_line # rest \<Rightarrow> (case strtok_all 0x2f version_line of
          nm # version # _ \<Rightarrow> (case strtok_all 0x2e version of
              maj # mnr # _ \<Rightarrow> Some \<lparr>ua_name = nm, ua_comment = (case rest of [] \<Rightarrow> None | c # _ \<Rightarrow> Some c),
                major_version = word_of_int (atoi maj), minor_version = word_of_int (atoi mnr), string_representation = None\<rparr>
            | _ \<Rightarrow> None)
        | _ \<Rightarrow> None))"

definition dap_http_user_agent_add_comment :: "dap_http_user_agent \<Rightarrow> cstr option \<Rightarrow> dap_http_user_agent" where
  "dap_http_user_agent_add_comment a comment = a\<lparr>ua_comment := comment\<rparr>"

definition compare_versions :: "u32 \<Rightarrow> u32 \<Rightarrow> int" where
  "compare_versions a b = (if b < a then 1 else if a < b then -1 else 0)"

definition dap_http_user_agent_versions_compare :: "dap_http_user_agent \<Rightarrow> dap_http_user_agent \<Rightarrow> int" where
  "dap_http_user_agent_versions_compare a b =
     (if strcmp (ua_name a) (ua_name b) \<noteq> 0 then -3
      else let r = compare_versions (major_version a) (major_version b) in
           if r \<noteq> 0 then r else compare_versions (minor_version a) (minor_version b))"

text \<open>The list of supported agents, and whether others pass.\<close>

type_synonym agents = "dap_http_user_agent list \<times> bool"

fun find_agent :: "dap_http_user_agent \<Rightarrow> dap_http_user_agent list \<Rightarrow> bool \<Rightarrow> bool" where
  "find_agent a [] res = res"
| "find_agent a (e # rest) res =
     (if strcmp (ua_name a) (ua_name e) = 0 then 0 \<le> dap_http_user_agent_versions_compare a e else find_agent a rest res)"

definition s_is_user_agent_supported :: "agents \<Rightarrow> cstr \<Rightarrow> bool" where
  "s_is_user_agent_supported ag s =
     (case dap_http_user_agent_new_from_str s of None \<Rightarrow> snd ag | Some a \<Rightarrow> find_agent a (fst ag) (snd ag))"

text \<open>A string that cannot be taken apart empties the list.\<close>

fun dap_http_simple_set_supported_user_agents :: "agents \<Rightarrow> cstr list \<Rightarrow> agents \<times> int" where
  "dap_http_simple_set_supported_user_agents ag [] = (ag, 1)"
| "dap_http_simple_set_supported_user_agents ag (s # ss) =
     (case dap_http_user_agent_new_from_str s of None \<Rightarrow> (([], snd ag), 0)
      | Some a \<Rightarrow> dap_http_simple_set_supported_user_agents (fst ag @ [a], snd ag) ss)"

definition dap_http_simple_set_pass_unknown_user_agents :: "agents \<Rightarrow> bool \<Rightarrow> agents" where
  "dap_http_simple_set_pass_unknown_user_agents ag pass = (fst ag, pass)"

section \<open>Requests\<close>

text \<open>
  The bytes of the request and of the reply that are filled; \<open>queued\<close> counts how often the request was given to the other
  thread, and \<open>detached\<close> says that the socket no longer leads to the client.
\<close>

record dap_http_simple =
  request :: "byte list option"
  request_size :: nat
  request_size_max :: nat
  reply :: "byte list"
  reply_size_max :: nat
  reply_sent :: nat
  reply_mime :: cstr
  queued :: nat
  detached :: bool

type_synonym simple_conn = "dap_http_simple option http_conn"

text \<open>Memory of a size is granted or not.\<close>

definition simple_headers_read :: "(nat \<Rightarrow> bool) \<Rightarrow> nat \<Rightarrow> simple_conn \<Rightarrow> simple_conn res" where
  "simple_headers_read granted max_reply c =
     (let ht = (if dap_http_header_find (in_headers (cl c)) (ascii ''Origin'') \<noteq> None
                then dap_http_out_header_add (cl c) (ascii ''Access-Control-Allow-Origin'') (ascii ''*'') else cl c);
          s = \<lparr>request = None, request_size = 0, request_size_max = 0, reply = [], reply_size_max = max_reply, reply_sent = 0,
               reply_mime = [], queued = 0, detached = False\<rparr> in
      if in_content_length ht \<noteq> 0
      then let n = unat (in_content_length ht + 1) in
           Inr (c\<lparr>cl := ht, inner := Some (if granted n then s\<lparr>request := Some [], request_size_max := n\<rparr> else s)\<rparr>)
      else Inr (c\<lparr>cl := ht, es := dap_events_socket_set_readable_unsafe (es c) False, inner := Some (s\<lparr>queued := 1\<rparr>)\<rparr>))"

text \<open>
  All that is in the buffer counts as taken.  Without an object the connection is to be closed and its buffer
  pointer is set to NULL: nothing is counted as taken, and when bytes were counted in the round before, but not all, the shrinking of the
  buffer that follows moves memory at that address.
\<close>

definition simple_data_read :: "(nat \<Rightarrow> bool) \<Rightarrow> simple_conn \<Rightarrow> nat \<Rightarrow> (simple_conn \<times> nat) res" where
  "simple_data_read granted c n0 =
     (case inner c of
        None \<Rightarrow>
          if 0 < n0 \<and> n0 < length (buf_in (es c)) then Inl NullDeref
          else Inr (c\<lparr>es := (es c)\<lparr>signal_close := True\<rparr>\<rparr>, n0)
      | Some s \<Rightarrow>
          (let n = length (buf_in (es c)); content = unat (in_content_length (cl c));
               bytes_to_read = (if n + request_size s < content then n else (content + (2 ^ 64 - request_size s)) mod 2 ^ 64) in
           bindE (if bytes_to_read = 0 then Inr s
             else let s1 = (if request_size_max s < request_size s + bytes_to_read
                            then let m = request_size s + bytes_to_read + 1 in
                                 s\<lparr>request_size_max := m, request := (if granted m then Some (case request s of None \<Rightarrow> [] | Some r \<Rightarrow> r) else None)\<rparr>
                            else s) in
                  case request s1 of None \<Rightarrow> Inr s1
                  | Some r \<Rightarrow> if n < bytes_to_read then Inl OutOfBounds
                      else Inr (s1\<lparr>request := Some (r @ take bytes_to_read (buf_in (es c))), request_size := request_size s1 + bytes_to_read\<rparr>)) (\<lambda>s.
           Inr (if content \<le> request_size s
                then (c\<lparr>es := dap_events_socket_set_readable_unsafe (es c) False, inner := Some (s\<lparr>queued := queued s + 1, detached := True\<rparr>)\<rparr>, n)
                else (c\<lparr>inner := Some s\<rparr>, n)))))"

section \<open>Replies\<close>

definition dap_http_simple_reply :: "dap_http_simple \<Rightarrow> byte list \<Rightarrow> dap_http_simple \<times> nat" where
  "dap_http_simple_reply s data =
     (let n = (if reply_size_max s - length (reply s) < length data then reply_size_max s - length (reply s) else length data) in
      (s\<lparr>reply := reply s @ take n data\<rparr>, n))"

text \<open>What formatting gave, cut to the buffer; nothing when it failed or gave nothing.\<close>

definition dap_http_simple_reply_f :: "dap_http_simple \<Rightarrow> cstr \<Rightarrow> dap_http_simple \<times> nat" where
  "dap_http_simple_reply_f s text = (if text = [] then (s, 0) else dap_http_simple_reply s (take 4094 text))"

definition s_copy_reply_and_mime_to_response :: "http_client \<Rightarrow> dap_http_simple \<Rightarrow> http_client" where
  "s_copy_reply_and_mime_to_response ht s =
     (if reply s = [] then ht else ht\<lparr>out_content_length := length (reply s), out_content_type := reply_mime s\<rparr>)"

text \<open>\<open>json_error\<close> prints the object with the message.\<close>

definition s_write_response_bad_request :: "(cstr \<Rightarrow> cstr) \<Rightarrow> http_client \<Rightarrow> dap_http_simple \<Rightarrow> cstr \<Rightarrow> http_client \<times> dap_http_simple" where
  "s_write_response_bad_request json_error ht s msg =
     (let s1 = (fst (dap_http_simple_reply s (json_error msg)))\<lparr>reply_mime := ascii ''application/json''\<rparr> in
      (s_copy_reply_and_mime_to_response (ht\<lparr>reply_status_code := 400\<rparr>) s1, s1))"

text \<open>
  The request is handled on the other thread.  \<open>proc_callback\<close> may reply, and gives the code of the reply (0: an
  error).  Then the headers are made and the writing state is entered.
\<close>

definition s_proc_queue_callback ::
    "dap_http_simple option dap_http \<Rightarrow> (cstr \<Rightarrow> cstr) \<Rightarrow> agents \<Rightarrow> (dap_http_simple \<Rightarrow> dap_http_simple \<times> nat) \<Rightarrow> simple_conn \<Rightarrow> simple_conn res" where
  "s_proc_queue_callback http json_error ag proc_callback c =
     (case inner c of None \<Rightarrow> Inl NullDeref
      | Some s \<Rightarrow>
          (let done = (\<lambda>(ht, s). c\<lparr>cl := (dap_http_client_out_header_generate http ht)\<lparr>state_write := HTTP_START\<rparr>, inner := Some s\<rparr>);
               header = dap_http_header_find (in_headers (cl c)) (ascii ''User-Agent'') in
           if fst ag \<noteq> [] \<and> header = None \<and> \<not> snd ag
           then Inr (done (s_write_response_bad_request json_error (cl c) s (ascii ''Not found User-Agent HTTP header'')))
           else if fst ag \<noteq> [] \<and> (case header of None \<Rightarrow> False | Some i \<Rightarrow> \<not> s_is_user_agent_supported ag (buf_text (hvalue (in_headers (cl c) ! i))))
           then Inr (done (s_write_response_bad_request json_error (cl c) s (ascii ''User-Agent version not supported. Update your software'')))
           else let (s1, code) = proc_callback s in
                Inr (done (if code \<noteq> 0 then s_copy_reply_and_mime_to_response ((cl c)\<lparr>reply_status_code := code mod 2 ^ 16\<rparr>) s1
                           else (cl c)\<lparr>reply_status_code := 500\<rparr>, s1))))"

text \<open>The reply goes out piece by piece, then the connection is closed.\<close>

definition simple_data_write :: "simple_conn \<Rightarrow> simple_conn res" where
  "simple_data_write c =
     (case inner c of None \<Rightarrow> Inl NullDeref
      | Some s \<Rightarrow>
          if out_content_length (cl c) \<le> reply_sent s then Inr (c\<lparr>es := (es c)\<lparr>signal_close := True\<rparr>\<rparr>)
          else bindE (chunkE (reply s @ replicate (reply_size_max s - length (reply s)) 0) (reply_sent s) (out_content_length (cl c) - reply_sent s)) (\<lambda>data.
            let (e, n) = dap_events_socket_write_unsafe (es c) data in
            Inr (c\<lparr>es := e, inner := Some (s\<lparr>reply_sent := reply_sent s + n\<rparr>)\<rparr>)))"

definition dap_http_simple_make_cache_from_reply :: "dap_http_simple option dap_http \<Rightarrow> int \<Rightarrow> simple_conn \<Rightarrow> simple_conn res" where
  "dap_http_simple_make_cache_from_reply http expire c =
     (case inner c of None \<Rightarrow> Inl NullDeref
      | Some s \<Rightarrow>
          (let ht = dap_http_client_out_header_generate http ((s_copy_reply_and_mime_to_response (cl c) s)\<lparr>reply_status_code := 200\<rparr>);
               c1 = c\<lparr>cl := ht\<rparr> in
           case proc ht of None \<Rightarrow> Inl NullDeref
           | Some u \<Rightarrow> Inr (dap_http_cache_update c1 u (reply s) (out_headers ht) None 200 expire)))"

definition simple_delete :: "simple_conn \<Rightarrow> simple_conn res" where
  "simple_delete c = Inr (c\<lparr>inner := map_option (\<lambda>s. s\<lparr>reply := []\<rparr>) (inner c)\<rparr>)"

definition dap_http_simple_proc_add :: "(nat \<Rightarrow> bool) \<Rightarrow> dap_http_simple option dap_http \<Rightarrow> cstr \<Rightarrow> nat \<Rightarrow> dap_http_simple option dap_http" where
  "dap_http_simple_proc_add granted http a_url_path max_reply =
     dap_http_add_proc http a_url_path None (Some simple_delete) (Some (simple_headers_read granted max_reply)) None
       (Some (simple_data_read granted)) (Some simple_data_write) None"

end
