(* ===== verification/HttpSimpleClaims.thy ===== *)
theory HttpSimpleClaims
  imports HttpSimple
begin

text \<open>
  The simple processors of the HTTP server: the body of a request is put together from the reads, and
  the check of the user agent.
\<close>

section \<open>The body of a request\<close>

text \<open>A connection in the middle of the body of a request of a simple processor.\<close>

definition in_body :: "dap_http_simple option dap_http \<Rightarrow> simple_conn \<Rightarrow> byte list \<Rightarrow> bool" where
  "in_body http c got \<longleftrightarrow>
     (\<exists>p s. proc_of http c = Some p \<and> data_read_callback p = Some (simple_data_read (\<lambda>_. True)) \<and> cache_of c = None \<and>
        state_read (cl c) = HTTP_DATA \<and> buf_in (es c) = [] \<and> inner c = Some s \<and> request s = Some got \<and> request_size s = length got \<and>
        queued s = 0 \<and> length got < unat (in_content_length (cl c)))"

lemma recv_body_simps [simp]:
  "proc_of http (c\<lparr>es := e, behind := b\<rparr>) = proc_of http c" "cache_of (c\<lparr>es := e, behind := b\<rparr>) = cache_of c"
  by (simp_all add: proc_of_def cache_of_def split: option.split)

lemma shrink_all: "shrink_in c (length (buf_in (es c))) = c\<lparr>es := (es c)\<lparr>buf_in := []\<rparr>, behind := buf_in (es c) @ behind c\<rparr>"
  by (simp add: shrink_in_def dap_events_socket_shrink_buf_in_def)

lemma recv_body:
  assumes "in_body http c got"
  shows "\<exists>c' s'. http_recv 1 http c x = Inr c' \<and> inner c' = Some s' \<and> in_content_length (cl c') = in_content_length (cl c) \<and>
    buf_in (es c') = [] \<and> request s' = Some (take (unat (in_content_length (cl c))) (got @ x)) \<and>
    (if length (got @ x) < unat (in_content_length (cl c)) then in_body http c' (got @ x) \<and> queued s' = 0
     else queued s' = 1 \<and> detached s' \<and> \<not> ready_to_read (es c'))"
proof -
  obtain p s where b: "proc_of http c = Some p" "data_read_callback p = Some (simple_data_read (\<lambda>_. True))" "cache_of c = None"
    "state_read (cl c) = HTTP_DATA" "buf_in (es c) = []" "inner c = Some s" "request s = Some got" "request_size s = length got"
    "queued s = 0" "length got < unat (in_content_length (cl c))" using assms by (auto simp: in_body_def)
  define N where "N = unat (in_content_length (cl c))"
  let ?c = "c\<lparr>es := (es c)\<lparr>buf_in := buf_in (es c) @ x\<rparr>, behind := drop (length x) (behind c)\<rparr>"
  define k where "k = (if length x + length got < N then length x else N - length got)"
  have N: "N < 2 ^ 64" unfolding N_def using unsigned_less [of "in_content_length (cl c)"] by simp
  have btr: "(if length x + length got < N then length x else (N + (2 ^ 64 - length got)) mod 2 ^ 64) = k"
  proof (cases "length x + length got < N")
    case False
    have "N + (2 ^ 64 - length got) = (N - length got) + 2 ^ 64" using b(10) N N_def by simp
    then show ?thesis using False N by (simp only: k_def if_False mod_add_self2) simp
  qed (simp add: k_def)
  have kx: "k \<le> length x" unfolding k_def by (cases "length x + length got < N") auto
  have tk: "got @ take k x = take N (got @ x)" using b(10) N_def by (auto simp: k_def)
  have "\<exists>s1. (if k = 0 then Inr s
         else let s1 = (if request_size_max s < request_size s + k
              then let m = request_size s + k + 1 in
                   s\<lparr>request_size_max := m, request := (if True then Some (case request s of None \<Rightarrow> [] | Some r \<Rightarrow> r) else None)\<rparr>
              else s) in
              case request s1 of None \<Rightarrow> Inr s1
              | Some r \<Rightarrow> if length x < k then Inl OutOfBounds
                  else Inr (s1\<lparr>request := Some (r @ take k x), request_size := request_size s1 + k\<rparr>)) = Inr s1 \<and>
      request s1 = Some (got @ take k x) \<and> request_size s1 = length got + k \<and> queued s1 = 0"
    using b kx by (cases "k = 0"; cases "request_size_max s < request_size s + k") (simp_all add: Let_def)
  then obtain s1 where m: "(if k = 0 then Inr s
         else let s1 = (if request_size_max s < request_size s + k
              then let m = request_size s + k + 1 in
                   s\<lparr>request_size_max := m, request := (if True then Some (case request s of None \<Rightarrow> [] | Some r \<Rightarrow> r) else None)\<rparr>
              else s) in
              case request s1 of None \<Rightarrow> Inr s1
              | Some r \<Rightarrow> if length x < k then Inl OutOfBounds
                  else Inr (s1\<lparr>request := Some (r @ take k x), request_size := request_size s1 + k\<rparr>)) = Inr s1"
    and s1: "request s1 = Some (got @ take k x)" "request_size s1 = length got + k" "queued s1 = 0" by blast
  have sz: "length got + k = min N (length (got @ x))" using b(10) N_def by (auto simp: k_def)
  define c1 where "c1 = (if N \<le> length got + k
      then ?c\<lparr>es := dap_events_socket_set_readable_unsafe (es ?c) False, inner := Some (s1\<lparr>queued := queued s1 + 1, detached := True\<rparr>)\<rparr>
      else ?c\<lparr>inner := Some s1\<rparr>)"
  have sd: "simple_data_read (\<lambda>_. True) ?c 0 = Inr (c1, length x)"
  proof -
    have i: "inner ?c = Some s" "buf_in (es ?c) = x" "unat (in_content_length (cl ?c)) = N" using b(5,6) by (simp_all add: N_def)
    show ?thesis
      unfolding simple_data_read_def i option.case Let_def btr [folded b(8)] m [unfolded Let_def] bindE_simps
      by (simp add: c1_def s1(2))
  qed
  have buf: "buf_in (es c1) = x" using b(5) by (simp add: c1_def dap_events_socket_set_readable_unsafe_def)
  have fin: "http_recv 1 http c x = Inr (c1\<lparr>es := (es c1)\<lparr>buf_in := []\<rparr>, behind := x @ behind c1\<rparr>)"
    using b sd shrink_all [of c1] buf by (simp add: http_recv_def dap_http_client_read_def read_round_def read_data_def)
  show ?thesis
  proof (cases "N \<le> length got + k")
    case True
    then have "\<not> length (got @ x) < N" using sz by simp
    then show ?thesis using fin True s1 tk by (simp add: c1_def N_def [symmetric] dap_events_socket_set_readable_unsafe_def)
  next
    case False
    then have lt: "length (got @ x) < N" using sz by simp
    then have "take N (got @ x) = got @ x" "k = length x" by (simp_all add: k_def)
    then show ?thesis using fin False s1 lt b
      by (simp add: c1_def N_def [symmetric] in_body_def proc_of_def cache_of_def cong: option.case_cong)
  qed
qed

text \<open>
  C10: The body of a request reaches the handler whole, however it is cut into reads: as long as fewer bytes have come
  than the content length they are kept, and the read that completes it gives the request to the other thread once,
  with exactly the first so many bytes of the connection; the input buffer is empty after each read.
\<close>

theorem http_simple_body:
  assumes "in_body http c []" "length (concat (butlast xs)) < unat (in_content_length (cl c))" "xs \<noteq> []"
  shows "\<exists>c' s. http_recv_all 1 http c xs = Inr c' \<and> inner c' = Some s \<and> buf_in (es c') = [] \<and>
    request s = Some (take (unat (in_content_length (cl c))) (concat xs)) \<and>
    queued s = (if length (concat xs) < unat (in_content_length (cl c)) then 0 else 1)"
proof -
  have "\<exists>c' s. http_recv_all 1 http c xs = Inr c' \<and> inner c' = Some s \<and> buf_in (es c') = [] \<and>
      request s = Some (take (unat (in_content_length (cl c))) (got @ concat xs)) \<and>
      queued s = (if length (got @ concat xs) < unat (in_content_length (cl c)) then 0 else 1)"
    if "in_body http c got" "length (got @ concat (butlast xs)) < unat (in_content_length (cl c))" "xs \<noteq> []" for c got xs
    using that
  proof (induction xs arbitrary: c got)
    case (Cons x xs)
    obtain c1 s1 where 1: "http_recv 1 http c x = Inr c1" "inner c1 = Some s1" "in_content_length (cl c1) = in_content_length (cl c)"
      "buf_in (es c1) = []" "request s1 = Some (take (unat (in_content_length (cl c))) (got @ x))"
      "if length (got @ x) < unat (in_content_length (cl c)) then in_body http c1 (got @ x) \<and> queued s1 = 0
       else queued s1 = 1 \<and> detached s1 \<and> \<not> ready_to_read (es c1)" using recv_body [OF Cons.prems(1), of x] by blast
    show ?case
    proof (cases "xs = []")
      case True
      then show ?thesis using 1 by auto
    next
      case False
      then have "length (got @ x) < unat (in_content_length (cl c))" using Cons.prems(2) by simp
      then have "in_body http c1 (got @ x)" using 1(6) by simp
      then show ?thesis using Cons.IH [of c1 "got @ x"] Cons.prems(2) False 1(1,3) by simp
    qed
  qed simp
  then show ?thesis using assms by force
qed

definition body_http :: "dap_http_simple option dap_http" where
  "body_http = dap_http_simple_proc_add (\<lambda>_. True) (dap_http_new (ascii ''demo'') 0 (\<lambda>_. [])) (ascii ''/p'') 100"

definition body_conn :: simple_conn where
  "body_conn = (dap_http_client_new (demo_socket []) (replicate 64 0) (\<lambda>_. None)
       (Some \<lparr>request = Some [], request_size = 0, request_size_max = 6, reply = [], reply_size_max = 100, reply_sent = 0,
         reply_mime = [], queued = 0, detached = False\<rparr>))
     \<lparr>cl := (cl (dap_http_client_new (demo_socket []) [] (\<lambda>_. None) ()))\<lparr>state_read := HTTP_DATA, proc := Some (ascii ''/p''), in_content_length := 5\<rparr>\<rparr>"

theorem http_simple_body_witness:
  "\<exists>c s. http_recv_all 1 body_http body_conn [ascii ''he'', ascii ''ll'', ascii ''o!''] = Inr c \<and> inner c = Some s \<and>
    request s = Some (ascii ''hello'') \<and> queued s = 1"
proof -
  have "in_body body_http body_conn []"
    by (simp add: in_body_def body_http_def body_conn_def dap_http_simple_proc_add_def dap_http_add_proc_def dap_http_new_def
        dap_http_client_new_def proc_of_def cache_of_def demo_socket_def ascii_def)
  moreover have "unat (in_content_length (cl body_conn)) = 5" by (simp add: body_conn_def)
  ultimately show ?thesis
    using http_simple_body [of body_http body_conn "[ascii ''he'', ascii ''ll'', ascii ''o!'']"] by (auto simp: ascii_def)
qed

section \<open>User agents\<close>

lemma fields_no: "c \<notin> set s \<Longrightarrow> CString.fields c acc s = [acc @ s]"
  by (induction s arbitrary: acc) auto

lemma fields_split: "c \<notin> set x \<Longrightarrow> CString.fields c acc (x @ c # y) = (acc @ x) # CString.fields c [] y"
  by (induction x arbitrary: acc) auto

lemma strtok_first: "c \<notin> set x \<Longrightarrow> x \<noteq> [] \<Longrightarrow> strtok_all c (x @ c # y) = x # strtok_all c y"
  by (simp add: strtok_all_def fields_split)

lemma strtok_single: "c \<notin> set x \<Longrightarrow> x \<noteq> [] \<Longrightarrow> strtok_all c x = [x]"
  by (simp add: strtok_all_def fields_no)

lemma uint_digit: "m < 10 \<Longrightarrow> uint (0x30 + word_of_nat m :: byte) = 48 + int m"
proof -
  assume m: "m < 10"
  have "0x30 + word_of_nat m = (word_of_nat (48 + m) :: byte)" by simp
  moreover have "uint (word_of_nat (48 + m) :: byte) = int (48 + m)" by (subst unsigned_of_nat) (use m in \<open>simp add: take_bit_eq_mod\<close>)
  ultimately show ?thesis by simp
qed

lemma isdigit_digit: "m < 10 \<Longrightarrow> isdigit (0x30 + word_of_nat m)"
  using uint_digit [of m] by (simp add: isdigit_def word_le_def)

lemma dec_digits_set: "c \<in> set (dec_digits n) \<Longrightarrow> isdigit c"
proof (induction n rule: dec_digits.induct)
  case (1 n)
  show ?case
  proof (cases "n < 10")
    case True
    then have "dec_digits n = [0x30 + word_of_nat n]" by (subst dec_digits.simps) simp
    then show ?thesis using 1(2) True isdigit_digit by simp
  next
    case False
    then have "dec_digits n = dec_digits (n div 10) @ [0x30 + word_of_nat (n mod 10)]" by (subst dec_digits.simps) simp
    then show ?thesis using 1 False isdigit_digit [of "n mod 10"] by auto
  qed
qed

lemma dec_digits_ne [simp]: "dec_digits n \<noteq> []"
  by (subst dec_digits.simps) simp

lemma dec_value_snoc: "\<forall>c \<in> set s. isdigit c \<Longrightarrow> isdigit d \<Longrightarrow> dec_value v (s @ [d]) = 10 * dec_value v s + (uint d - 0x30)"
  by (induction s arbitrary: v) auto

lemma dec_value_digits: "dec_value 0 (dec_digits n) = int n"
proof (induction n rule: dec_digits.induct)
  case (1 n)
  show ?case
  proof (cases "n < 10")
    case True
    then show ?thesis by (subst dec_digits.simps) (simp add: isdigit_digit uint_digit)
  next
    case False
    have "dec_value 0 (dec_digits (n div 10) @ [0x30 + word_of_nat (n mod 10)]) = 10 * dec_value 0 (dec_digits (n div 10)) + int (n mod 10)"
      using dec_digits_set by (subst dec_value_snoc) (auto simp: isdigit_digit uint_digit)
    moreover have "10 * int (n div 10) + int (n mod 10) = int n" by presburger
    ultimately show ?thesis using 1 False by (subst dec_digits.simps) simp
  qed
qed

lemma digit_not: "isdigit c \<Longrightarrow> \<not> isspace c \<and> c \<noteq> 0x2d \<and> c \<noteq> 0x2b \<and> c \<noteq> 0x20 \<and> c \<noteq> 0x2f \<and> c \<noteq> 0x2e"
  by (auto simp: isdigit_def isspace_def word_le_def)

lemma atoi_dec_digits: "n < 2 ^ 63 \<Longrightarrow> atoi (dec_digits n) = int n"
proof -
  assume n: "n < 2 ^ 63"
  obtain c s where c: "dec_digits n = c # s" by (cases "dec_digits n") auto
  then have "\<not> isspace c \<and> c \<noteq> 0x2d \<and> c \<noteq> 0x2b" using dec_digits_set [of c n] digit_not by simp
  then show ?thesis using dec_value_digits [of n] n by (simp add: atoi_def signed_digits_def c)
qed

definition agent_name_ok :: "cstr \<Rightarrow> bool" where
  "agent_name_ok nm \<longleftrightarrow> nm \<noteq> [] \<and> cstr_ok nm \<and> 0x20 \<notin> set nm \<and> 0x2f \<notin> set nm"

lemma dec_signed_u16: "dec_signed (ucast (v :: u16)) = dec_digits (unat v)"
proof -
  have "uint v < 2 ^ 16" using uint_lt2p [of v] by simp
  moreover have "- (2 ^ 31) \<le> uint v" by (rule order_trans [of _ 0]) simp_all
  ultimately have "sint (ucast v :: u32) = uint v"
    by (simp add: sint_uint unsigned_ucast_eq signed_take_bit_int_eq_self take_bit_int_eq_self)
  then show ?thesis by (simp add: dec_signed_def)
qed

lemma agent_parse:
  assumes "agent_name_ok nm"
  shows "\<exists>cm. dap_http_user_agent_new_from_str (user_agent_text \<lparr>ua_name = nm, ua_comment = c, major_version = ucast j, minor_version = ucast (i :: u16),
      string_representation = r\<rparr>) = Some \<lparr>ua_name = nm, ua_comment = cm, major_version = ucast (j :: u16), minor_version = ucast i, string_representation = None\<rparr>"
proof -
  let ?j = "dec_digits (unat j)" and ?i = "dec_digits (unat i)"
  let ?v = "nm @ 0x2f # ?j @ 0x2e # ?i" and ?version = "?j @ 0x2e # ?i"
  have d: "d \<notin> set (dec_digits n)" if "\<not> isdigit d" for d n using dec_digits_set that by blast
  have nd: "\<not> isdigit 0x20" "\<not> isdigit 0x2f" "\<not> isdigit 0x2e" by (simp_all add: isdigit_def)
  have nm: "nm \<noteq> []" "0x20 \<notin> set nm" "0x2f \<notin> set nm" using assms by (simp_all add: agent_name_ok_def)
  have v: "0x20 \<notin> set ?v" "?v \<noteq> []" using nm d nd by auto
  have printed: "user_agent_text \<lparr>ua_name = nm, ua_comment = c, major_version = ucast j, minor_version = ucast i, string_representation = r\<rparr> =
      ?v @ (case c of None \<Rightarrow> [] | Some c \<Rightarrow> 0x20 # c)"
    by (simp add: user_agent_text_def dec_signed_u16 ascii_def split: option.split)
  obtain rest where rest: "strtok_all 0x20 (?v @ (case c of None \<Rightarrow> [] | Some c \<Rightarrow> 0x20 # c)) = ?v # rest"
    using strtok_first [OF v] strtok_single [OF v] by (cases c) auto
  have version: "strtok_all 0x2f ?v = [nm, ?version]"
    using strtok_first [OF nm(3,1), of ?version] strtok_single [of "0x2f" ?version] d nd by simp
  have parts: "strtok_all 0x2e ?version = [?j, ?i]"
    using strtok_first [of "0x2e" ?j ?i] strtok_single [of "0x2e" ?i] d nd by simp
  have digits: "atoi (dec_digits (unat w)) = int (unat w)" for w :: u16
  proof (rule atoi_dec_digits)
    have "unat w < 2 ^ LENGTH(16)" by (rule unsigned_less)
    then show "unat w < 2 ^ 63" by simp
  qed
  have val: "word_of_int (int (unat w)) = (ucast w :: u32)" for w :: u16 unfolding ucast_eq uint_nat by (rule refl)
  show ?thesis
    unfolding printed dap_http_user_agent_new_from_str_def rest list.case version parts digits val by simp
qed

text \<open>
  The check of a user agent compares versions: when the only supported agent is named by its printed form, a request
  of an agent printed the same way is accepted exactly when the names agree and its version is not below,
  the minor version counting only for equal major ones; another name passes only if unknown agents do.
\<close>

theorem http_user_agent_check:
  assumes "agent_name_ok n1" "agent_name_ok n2"
    and "dap_http_user_agent_new (Some n1) j1 i1 c1 = Some a" "dap_http_user_agent_new (Some n2) j2 i2 c2 = Some b"
  shows "\<exists>ag. dap_http_simple_set_supported_user_agents ([], pass) [the (dap_http_user_agent_to_string a)] = (ag, 1) \<and>
    s_is_user_agent_supported ag (the (dap_http_user_agent_to_string b)) =
      (if n1 = n2 then j1 < j2 \<or> j1 = j2 \<and> i1 \<le> i2 else pass)"
proof -
  let ?agent = "\<lambda>n c j i r. \<lparr>ua_name = n, ua_comment = c, major_version = ucast j, minor_version = ucast i, string_representation = r\<rparr> :: dap_http_user_agent"
  have ab: "dap_http_user_agent_to_string a = Some (user_agent_text (?agent n1 c1 j1 i1 None))"
    "dap_http_user_agent_to_string b = Some (user_agent_text (?agent n2 c2 j2 i2 None))"
    using assms(3,4) by (auto simp: dap_http_user_agent_new_def dap_http_user_agent_to_string_def Let_def)
  obtain m1 where p1: "dap_http_user_agent_new_from_str (user_agent_text (?agent n1 c1 j1 i1 None)) = Some (?agent n1 m1 j1 i1 None)"
    using agent_parse [OF assms(1)] by blast
  obtain m2 where p2: "dap_http_user_agent_new_from_str (user_agent_text (?agent n2 c2 j2 i2 None)) = Some (?agent n2 m2 j2 i2 None)"
    using agent_parse [OF assms(2)] by blast
  have less: "(ucast x :: u32) < ucast y \<longleftrightarrow> x < y" "(ucast x :: u32) = ucast y \<longleftrightarrow> x = y" for x y :: u16
    by (simp_all add: word_less_def word_uint_eq_iff unsigned_ucast_eq take_bit_int_eq_self uint_lt2p order.strict_trans2 [OF uint_lt2p])
  have eq: "strcmp n2 n1 = 0 \<longleftrightarrow> n2 = n1" using assms(1,2) strcmp_eq by (simp add: agent_name_ok_def)
  have eq': "strcmp n2 n2 = 0" using assms(2) strcmp_eq [of n2 n2] by (simp add: agent_name_ok_def)
  have "find_agent (?agent n2 m2 j2 i2 None) [?agent n1 m1 j1 i1 None] pass = (if n1 = n2 then j1 < j2 \<or> j1 = j2 \<and> i1 \<le> i2 else pass)"
    by (auto simp: eq eq' dap_http_user_agent_versions_compare_def compare_versions_def less Let_def)
  then show ?thesis by (simp add: ab p1 p2 s_is_user_agent_supported_def)
qed

theorem http_user_agent_check_witness:
  "\<exists>ag a b. dap_http_user_agent_new (Some (ascii ''Dap'')) 2 9 None = Some a \<and> dap_http_user_agent_new (Some (ascii ''Dap'')) 2 10 None = Some b \<and>
    dap_http_simple_set_supported_user_agents ([], False) [the (dap_http_user_agent_to_string a)] = (ag, 1) \<and>
    s_is_user_agent_supported ag (the (dap_http_user_agent_to_string b))"
proof -
  obtain a b where ab: "dap_http_user_agent_new (Some (ascii ''Dap'')) 2 9 None = Some a" "dap_http_user_agent_new (Some (ascii ''Dap'')) 2 10 None = Some b"
    by (simp add: dap_http_user_agent_new_def Let_def)
  have ok: "agent_name_ok (ascii ''Dap'')" by (simp add: agent_name_ok_def cstr_ok_def ascii_def)
  show ?thesis using http_user_agent_check [OF ok ok ab, of False] ab by auto
qed

end
