(* ===== verification/ProcQueue.thy ===== *)
theory ProcQueue
  imports Prelude
begin

text \<open>
  The work of a processing thread: the singly-linked lists of \<open>dap_list.h\<close>, the queue with its four priorities of
  \<open>io/dap_proc_queue.c\<close> and the scheduler of \<open>io/dap_proc_thread.c\<close>.  The lists share an explicit heap of elements,
  in which 0 is NULL.  An item (a callback with its argument) is abstract: \<open>run\<close> is the effect of
  its callback on what the callbacks share, with whether it is finished, and \<open>posts\<close> what it does to its own thread: the
  messages it sends to the queue and how often it signals the event.
\<close>

section \<open>Singly-linked lists\<close>

record 'i slist_elm =
  flink :: ptr
  elm_data :: 'i
  elm_datasz :: nat

record slist =
  slist_head :: ptr
  slist_tail :: ptr
  slist_nr :: int

record 'i slist_heap =
  elms :: "ptr \<Rightarrow> 'i slist_elm option"
  fresh_elm :: ptr

definition SLIST_INITALIZER :: slist where
  "SLIST_INITALIZER = \<lparr>slist_head = 0, slist_tail = 0, slist_nr = 0\<rparr>"

definition rd_elm :: "'i slist_heap \<Rightarrow> ptr \<Rightarrow> 'i slist_elm res" where
  "rd_elm h p = (case elms h p of Some e \<Rightarrow> Inr e | None \<Rightarrow> Inl (if p = 0 then NullDeref else BadFree))"

definition set_flink :: "ptr \<Rightarrow> ptr \<Rightarrow> 'i slist_heap \<Rightarrow> 'i slist_heap res" where
  "set_flink p q h = bindE (rd_elm h p) (\<lambda>e. Inr (h\<lparr>elms := (elms h)(p \<mapsto> e\<lparr>flink := q\<rparr>)\<rparr>))"

definition ENOENT :: int where "ENOENT = 2"
definition ENOMEM :: int where "ENOMEM = 12"

definition dap_slist_add2tail :: "bool \<Rightarrow> slist \<Rightarrow> 'i \<Rightarrow> nat \<Rightarrow> 'i slist_heap \<Rightarrow> (int \<times> slist \<times> 'i slist_heap) res" where
  "dap_slist_add2tail granted l dat sz h =
     (if \<not> granted then Inr (- ENOMEM, l, h)
      else let e = fresh_elm h;
               h1 = h\<lparr>elms := (elms h)(e \<mapsto> \<lparr>flink = 0, elm_data = dat, elm_datasz = sz\<rparr>), fresh_elm := e + 1\<rparr> in
        bindE (if slist_tail l \<noteq> 0 then set_flink (slist_tail l) e h1 else Inr h1) (\<lambda>h2.
        Inr (0, \<lparr>slist_head = (if slist_head l = 0 then e else slist_head l), slist_tail = e, slist_nr = slist_nr l + 1\<rparr>, h2)))"

text \<open>\<open>None\<close> is \<open>-ENOENT\<close>; otherwise the data and its size.\<close>

definition dap_slist_get4head :: "slist \<Rightarrow> 'i slist_heap \<Rightarrow> (('i \<times> nat) option \<times> slist \<times> 'i slist_heap) res" where
  "dap_slist_get4head l h =
     (if slist_head l = 0 then Inr (None, l, h)
      else bindE (rd_elm h (slist_head l)) (\<lambda>e.
        Inr (Some (elm_data e, elm_datasz e),
          l\<lparr>slist_head := flink e, slist_tail := (if flink e = 0 then 0 else slist_tail l), slist_nr := slist_nr l - 1\<rparr>,
          h\<lparr>elms := (elms h)(slist_head l := None)\<rparr>)))"

section \<open>The thread\<close>

definition DAP_PROC_PRI_MAX :: int where "DAP_PROC_PRI_MAX = 4"
definition DAP_PROC_PRI_NORMAL :: int where "DAP_PROC_PRI_NORMAL = 2"
definition DAP_PROC_PRI_HIGH :: int where "DAP_PROC_PRI_HIGH = 3"

record 'i dap_proc_queue_msg =
  callback :: "'i option"
  signal_kill :: bool
  pri :: int

text \<open>
  \<open>transit\<close> are the messages sent to the socket of the queue and not read yet, \<open>proc_event\<close> is the counter of the
  event, \<open>queue_close\<close> the closing flag of the socket, \<open>shared\<close> what the callbacks work on.
\<close>

record ('i, 's) proc_thread =
  pheap :: "'i slist_heap"
  plists :: "slist list"
  transit :: "'i dap_proc_queue_msg list"
  proc_event :: nat
  queue_close :: bool
  shared :: 's

text \<open>The clock gives the second of its n-th reading; \<open>granted n\<close> says whether memory is granted in round n.\<close>

record ('i, 's) proc_env =
  clock :: "nat \<Rightarrow> int"
  run :: "'i \<Rightarrow> 's \<Rightarrow> 's \<times> bool"
  posts :: "'i \<Rightarrow> 's \<Rightarrow> 'i dap_proc_queue_msg list \<times> nat"
  granted :: "nat \<Rightarrow> bool"

definition dap_proc_queue_create :: "'s \<Rightarrow> ('i, 's) proc_thread" where
  "dap_proc_queue_create s =
     \<lparr>pheap = \<lparr>elms = (\<lambda>_. None), fresh_elm = 1\<rparr>, plists = replicate (nat DAP_PROC_PRI_MAX) SLIST_INITALIZER, transit = [], proc_event = 0,
      queue_close = False, shared = s\<rparr>"

definition queue_ptr_send :: "'i dap_proc_queue_msg \<Rightarrow> ('i, 's) proc_thread \<Rightarrow> ('i, 's) proc_thread" where
  "queue_ptr_send m t = t\<lparr>transit := transit t @ [m]\<rparr>"

definition dap_proc_queue_delete :: "bool \<Rightarrow> ('i, 's) proc_thread \<Rightarrow> ('i, 's) proc_thread \<times> int" where
  "dap_proc_queue_delete mem t =
     (if \<not> mem then (t, - ENOMEM)
      else (queue_ptr_send \<lparr>callback = None, signal_kill = True, pri = DAP_PROC_PRI_HIGH\<rparr> t, 0))"

text \<open>Three ways to send an item; they differ in the socket that is written only.\<close>

definition msg_of :: "'i option \<Rightarrow> int \<Rightarrow> 'i dap_proc_queue_msg" where
  "msg_of cb a_pri = \<lparr>callback = cb, signal_kill = False, pri = (if \<not> a_pri < DAP_PROC_PRI_MAX then DAP_PROC_PRI_NORMAL else a_pri)\<rparr>"

definition dap_proc_queue_add_callback_ext :: "bool \<Rightarrow> 'i option \<Rightarrow> int \<Rightarrow> ('i, 's) proc_thread \<Rightarrow> ('i, 's) proc_thread \<times> int" where
  "dap_proc_queue_add_callback_ext mem cb a_pri t = (if \<not> mem then (t, - ENOMEM) else (queue_ptr_send (msg_of cb a_pri) t, 0))"

definition dap_proc_queue_add_callback_inter_ext :: "bool \<Rightarrow> 'i option \<Rightarrow> int \<Rightarrow> ('i, 's) proc_thread \<Rightarrow> ('i, 's) proc_thread \<times> int" where
  "dap_proc_queue_add_callback_inter_ext mem cb a_pri t = (if \<not> mem then (t, - ENOMEM) else (queue_ptr_send (msg_of cb a_pri) t, 0))"

definition dap_proc_thread_add_callback_mt :: "bool \<Rightarrow> 'i option \<Rightarrow> int \<Rightarrow> ('i, 's) proc_thread \<Rightarrow> ('i, 's) proc_thread \<times> int" where
  "dap_proc_thread_add_callback_mt mem cb a_pri t = (if \<not> mem then (t, - ENOMEM) else (queue_ptr_send (msg_of cb a_pri) t, 0))"

definition dap_proc_queue_add_callback :: "bool \<Rightarrow> 'i option \<Rightarrow> ('i, 's) proc_thread \<Rightarrow> ('i, 's) proc_thread \<times> int" where
  "dap_proc_queue_add_callback mem cb t = dap_proc_queue_add_callback_ext mem cb DAP_PROC_PRI_NORMAL t"

definition dap_proc_queue_add_callback_inter :: "bool \<Rightarrow> 'i option \<Rightarrow> ('i, 's) proc_thread \<Rightarrow> ('i, 's) proc_thread \<times> int" where
  "dap_proc_queue_add_callback_inter mem cb t = dap_proc_queue_add_callback_inter_ext mem cb DAP_PROC_PRI_NORMAL t"

text \<open>An event is a counter (\<open>eventfd\<close>): a signal adds to it, reading it gives the value and resets it.\<close>

definition dap_events_socket_event_signal :: "nat \<Rightarrow> ('i, 's) proc_thread \<Rightarrow> ('i, 's) proc_thread" where
  "dap_events_socket_event_signal v t = t\<lparr>proc_event := proc_event t + v\<rparr>"

text \<open>A message arrives: memory for an item and for an element of a list is needed.\<close>

definition clamp_pri :: "int \<Rightarrow> int" where
  "clamp_pri p = max (min p (DAP_PROC_PRI_MAX - 1)) 0"

definition s_queue_esocket_callback :: "bool \<Rightarrow> bool \<Rightarrow> 'i dap_proc_queue_msg \<Rightarrow> ('i, 's) proc_thread \<Rightarrow> ('i, 's) proc_thread res" where
  "s_queue_esocket_callback item_mem elm_mem m t =
     (let closed = (\<lambda>t. if signal_kill m then t\<lparr>queue_close := True\<rparr> else t) in
      case callback m of None \<Rightarrow> Inr (closed t)
      | Some it \<Rightarrow>
          if \<not> item_mem then Inr (closed t)
          else let p = nat (clamp_pri (pri m)) in
            bindE (dap_slist_add2tail elm_mem (plists t ! p) it 1 (pheap t)) (\<lambda>(rc, l, h).
            Inr (closed (dap_events_socket_event_signal 1 (t\<lparr>pheap := h, plists := (plists t)[p := l]\<rparr>)))))"

section \<open>The scheduler\<close>

text \<open>
  One pass over the priorities, from the highest down to 1: \<open>n\<close> counts the readings of the clock, \<open>it\<close> the rounds,
  \<open>cnt\<close> the items that were run.  An item that is not finished goes to the end of its list and is taken again.
\<close>

fun prio_loop :: "nat \<Rightarrow> ('i, 's) proc_env \<Rightarrow> int \<Rightarrow> nat \<Rightarrow> nat \<Rightarrow> nat \<Rightarrow> nat \<Rightarrow> ('i, 's) proc_thread \<Rightarrow> (('i, 's) proc_thread \<times> nat \<times> nat \<times> nat) res" where
  "prio_loop 0 env start cur n it cnt t = Inl Diverges"
| "prio_loop (Suc k) env start cur n it cnt t =
     (if cur = 0 then Inr (t, n, it, cnt)
      else if slist_nr (plists t ! cur) = 0 then prio_loop k env start (cur - 1) n (it + 1) cnt t
      else if start < clock env n then Inr (t, n + 1, it, cnt)
      else bindE (dap_slist_get4head (plists t ! cur) (pheap t)) (\<lambda>(item, l, h).
        let t1 = t\<lparr>pheap := h, plists := (plists t)[cur := l]\<rparr> in
        case item of None \<Rightarrow> prio_loop k env start cur (n + 1) (it + 1) cnt t1
        | Some (x, sz) \<Rightarrow>
            (let (s, finished) = run env x (shared t1); (ms, v) = posts env x (shared t1);
                 t2 = t1\<lparr>shared := s, transit := transit t1 @ ms, proc_event := proc_event t1 + v\<rparr> in
             if finished then prio_loop k env start cur (n + 1) (it + 1) (cnt + 1) t2
             else bindE (dap_slist_add2tail (granted env it) (plists t2 ! cur) x sz (pheap t2)) (\<lambda>(rc, l, h).
               prio_loop k env start cur (n + 1) (it + 1) (cnt + 1) (t2\<lparr>pheap := h, plists := (plists t2)[cur := l]\<rparr>)))))"

fun pass_loop :: "nat \<Rightarrow> nat \<Rightarrow> ('i, 's) proc_env \<Rightarrow> int \<Rightarrow> nat \<Rightarrow> nat \<Rightarrow> ('i, 's) proc_thread \<Rightarrow> (('i, 's) proc_thread \<times> nat \<times> nat) res" where
  "pass_loop 0 k env start n it t = Inl Diverges"
| "pass_loop (Suc j) k env start n it t =
     bindE (prio_loop k env start (nat (DAP_PROC_PRI_MAX - 1)) n it 0 t) (\<lambda>(t, n, it, cnt).
     if cnt \<noteq> 0 then pass_loop j k env start n it t else Inr (t, n, it))"

text \<open>After the passes the event is armed if entries are left at the priorities 1 to 3.\<close>

definition entries_left :: "('i, 's) proc_thread \<Rightarrow> int" where
  "entries_left t = (\<Sum>p\<leftarrow>[3, 2, 1]. slist_nr (plists t ! p))"

definition s_proc_event_callback :: "nat \<Rightarrow> ('i, 's) proc_env \<Rightarrow> ('i, 's) proc_thread \<Rightarrow> ('i, 's) proc_thread res" where
  "s_proc_event_callback fuel env t =
     bindE (pass_loop fuel fuel env (clock env 0) 1 0 t) (\<lambda>(t, n, it).
     Inr (if entries_left t \<noteq> 0 then dap_events_socket_event_signal 1 t else t))"

definition dap_events_socket_event_proc_input_unsafe :: "nat \<Rightarrow> ('i, 's) proc_env \<Rightarrow> ('i, 's) proc_thread \<Rightarrow> ('i, 's) proc_thread res" where
  "dap_events_socket_event_proc_input_unsafe fuel env t =
     (if proc_event t = 0 then Inr t else s_proc_event_callback fuel env (t\<lparr>proc_event := 0\<rparr>))"

text \<open>The thread for new work is the first with the smallest load; \<open>None\<close> is the wrong number.\<close>

definition dap_proc_thread_get :: "nat \<Rightarrow> nat \<Rightarrow> nat option" where
  "dap_proc_thread_get s_threads_count a_cpu_id = (if a_cpu_id < s_threads_count then Some a_cpu_id else None)"

fun get_auto_loop :: "nat \<Rightarrow> u32 list \<Rightarrow> nat \<Rightarrow> u32 \<Rightarrow> nat" where
  "get_auto_loop i [] id_min size_min = id_min"
| "get_auto_loop i (q # qs) id_min size_min =
     (if q < size_min then get_auto_loop (i + 1) qs i q else get_auto_loop (i + 1) qs id_min size_min)"

definition dap_proc_thread_get_auto :: "u32 list \<Rightarrow> nat" where
  "dap_proc_thread_get_auto sizes = get_auto_loop 0 sizes 0 (- 1)"

end
