(* ===== verification/ProcQueueProps.thy ===== *)
theory ProcQueueProps
  imports ProcQueue "HOL-Library.Multiset"
begin

text \<open>
  What the lists, the queue and the scheduler do to the sequences of items they stand for.
\<close>

section \<open>Lists\<close>

fun path :: "(ptr \<Rightarrow> 'i slist_elm option) \<Rightarrow> ptr \<Rightarrow> ptr list \<Rightarrow> 'i list \<Rightarrow> bool" where
  "path m p [] xs \<longleftrightarrow> p = 0 \<and> xs = []"
| "path m p (a # as) xs \<longleftrightarrow> p = a \<and> a \<noteq> 0 \<and> (\<exists>e ys. m a = Some e \<and> xs = elm_data e # ys \<and> path m (flink e) as ys)"

lemma path_length: "path m p as xs \<Longrightarrow> length xs = length as"
  by (induction as arbitrary: p xs) auto

lemma path_cong: "(\<And>a. a \<in> set as \<Longrightarrow> m a = m' a) \<Longrightarrow> path m p as xs \<longleftrightarrow> path m' p as xs"
  by (induction as arbitrary: p xs) auto

lemma path_last: "path m p as xs \<Longrightarrow> as \<noteq> [] \<Longrightarrow> last as \<noteq> 0 \<and> (\<exists>e. m (last as) = Some e)"
proof (induction as arbitrary: p xs)
  case (Cons a as)
  then obtain e ys where "m a = Some e" "path m (flink e) as ys" "a \<noteq> 0" by auto
  with Cons.IH [of "flink e" ys] show ?case by auto
qed simp

lemma path_snoc:
  assumes "path m p as xs" "as \<noteq> []" "distinct as" "b \<notin> set as" "b \<noteq> 0" "m (last as) = Some e"
  shows "path (m(b \<mapsto> \<lparr>flink = 0, elm_data = x, elm_datasz = sz\<rparr>, last as \<mapsto> e\<lparr>flink := b\<rparr>)) p (as @ [b]) (xs @ [x])"
  using assms
proof (induction as arbitrary: p xs)
  case (Cons a as)
  show ?case
  proof (cases "as = []")
    case True
    then show ?thesis using Cons.prems by auto
  next
    case False
    from Cons.prems(1) obtain e0 ys where *: "p = a" "a \<noteq> 0" "m a = Some e0" "xs = elm_data e0 # ys" "path m (flink e0) as ys" by auto
    have "last as \<noteq> a" using False Cons.prems(3) by auto
    with Cons.IH [OF *(5) False] Cons.prems False * show ?thesis by auto
  qed
qed simp

definition slist_at :: "'i slist_heap \<Rightarrow> slist \<Rightarrow> ptr list \<Rightarrow> 'i list \<Rightarrow> bool" where
  "slist_at h l as xs \<longleftrightarrow> path (elms h) (slist_head l) as xs \<and> distinct as \<and> slist_tail l = (if as = [] then 0 else last as) \<and>
     slist_nr l = int (length xs) \<and> (\<forall>a \<in> set as. a < fresh_elm h)"

lemma slist_at_frame:
  "slist_at h l as xs \<Longrightarrow> (\<And>a. a \<in> set as \<Longrightarrow> elms h' a = elms h a) \<Longrightarrow> fresh_elm h \<le> fresh_elm h' \<Longrightarrow> slist_at h' l as xs"
  using path_cong [of as "elms h'" "elms h"] by (fastforce simp: slist_at_def)

lemma add2tail_at:
  assumes "slist_at h l as xs" "0 < fresh_elm h"
  shows "\<exists>l' h'. dap_slist_add2tail True l x sz h = Inr (0, l', h') \<and> slist_at h' l' (as @ [fresh_elm h]) (xs @ [x]) \<and>
    fresh_elm h' = fresh_elm h + 1 \<and> (\<forall>b. b \<notin> set as \<and> b \<noteq> fresh_elm h \<longrightarrow> elms h' b = elms h b)"
proof (cases "as = []")
  case True
  then show ?thesis using assms by (simp add: slist_at_def dap_slist_add2tail_def Let_def)
next
  case False
  have p: "path (elms h) (slist_head l) as xs" "distinct as" "slist_tail l = last as" "\<forall>a \<in> set as. a < fresh_elm h"
    using assms(1) False by (simp_all add: slist_at_def)
  obtain e where e: "last as \<noteq> 0" "elms h (last as) = Some e" using path_last [OF p(1) False] by auto
  have new: "fresh_elm h \<notin> set as" "fresh_elm h \<noteq> 0" using p(4) assms(2) by auto
  have ne: "fresh_elm h \<noteq> last as" using new(1) last_in_set [OF False] by auto
  have hd: "slist_head l \<noteq> 0" using p(1) False by (cases as) auto
  show ?thesis
    using path_snoc [OF p(1) False p(2) new e(2)] assms(1) p new ne hd e False
    by (auto simp: slist_at_def dap_slist_add2tail_def set_flink_def rd_elm_def Let_def)
qed

lemma get4head_at:
  assumes "slist_at h l (a # as) (x # xs)"
  shows "\<exists>sz l' h'. dap_slist_get4head l h = Inr (Some (x, sz), l', h') \<and> slist_at h' l' as xs \<and>
    fresh_elm h' = fresh_elm h \<and> (\<forall>b. b \<noteq> a \<longrightarrow> elms h' b = elms h b)"
proof -
  obtain e where e: "slist_head l = a" "a \<noteq> 0" "elms h a = Some e" "x = elm_data e" "path (elms h) (flink e) as xs" "a \<notin> set as"
    using assms by (auto simp: slist_at_def)
  have z: "flink e = 0 \<longleftrightarrow> as = []" using e(5) by (cases as) auto
  have "path ((elms h)(a := None)) (flink e) as xs"
  proof (subst path_cong)
    show "((elms h)(a := None)) b = elms h b" if "b \<in> set as" for b using that e(6) by auto
  qed (rule e(5))
  then show ?thesis using assms e z by (auto simp: slist_at_def dap_slist_get4head_def rd_elm_def)
qed

lemma slist_at_Cons: "slist_at h l as (x # xs) \<Longrightarrow> \<exists>a bs. as = a # bs"
  by (cases as) (auto simp: slist_at_def)

section \<open>Queues\<close>

text \<open>The lists of the four priorities share no element.\<close>

definition queue_at :: "('i, 's) proc_thread \<Rightarrow> 'i list list \<Rightarrow> bool" where
  "queue_at t qs \<longleftrightarrow> length (plists t) = 4 \<and> length qs = 4 \<and> 0 < fresh_elm (pheap t) \<and>
     (\<exists>A. (\<forall>p < 4. slist_at (pheap t) (plists t ! p) (A p) (qs ! p)) \<and> (\<forall>p < 4. \<forall>q < 4. p \<noteq> q \<longrightarrow> set (A p) \<inter> set (A q) = {}))"

lemma queue_at_nr: "queue_at t qs \<Longrightarrow> p < 4 \<Longrightarrow> slist_nr (plists t ! p) = int (length (qs ! p))"
  unfolding queue_at_def slist_at_def by blast

lemma queue_at_update [simp]:
  "queue_at (t\<lparr>transit := m\<rparr>) qs = queue_at t qs" "queue_at (t\<lparr>proc_event := v\<rparr>) qs = queue_at t qs"
  "queue_at (t\<lparr>queue_close := b\<rparr>) qs = queue_at t qs" "queue_at (t\<lparr>shared := s\<rparr>) qs = queue_at t qs"
  by (simp_all add: queue_at_def)

lemma queue_at_create: "queue_at (dap_proc_queue_create s) (replicate 4 [])"
  unfolding queue_at_def
  by (auto simp: dap_proc_queue_create_def slist_at_def SLIST_INITALIZER_def DAP_PROC_PRI_MAX_def intro!: exI [of _ "\<lambda>_. []"])

lemma queue_push:
  assumes "queue_at t qs" "p < 4"
  shows "\<exists>l h. dap_slist_add2tail True (plists t ! p) x sz (pheap t) = Inr (0, l, h) \<and>
    queue_at (t\<lparr>pheap := h, plists := (plists t)[p := l]\<rparr>) (qs[p := qs ! p @ [x]])"
proof -
  from assms obtain A where A: "length (plists t) = 4" "length qs = 4" "0 < fresh_elm (pheap t)"
    "\<forall>p < 4. slist_at (pheap t) (plists t ! p) (A p) (qs ! p)" "\<forall>p < 4. \<forall>q < 4. p \<noteq> q \<longrightarrow> set (A p) \<inter> set (A q) = {}"
    by (auto simp: queue_at_def)
  let ?e = "fresh_elm (pheap t)"
  obtain l h where lh: "dap_slist_add2tail True (plists t ! p) x sz (pheap t) = Inr (0, l, h)" "slist_at h l (A p @ [?e]) (qs ! p @ [x])"
    "fresh_elm h = ?e + 1" "\<forall>b. b \<notin> set (A p) \<and> b \<noteq> ?e \<longrightarrow> elms h b = elms (pheap t) b"
    using add2tail_at [of "pheap t" "plists t ! p" "A p" "qs ! p" x sz] A(3,4) assms(2) by blast
  have new: "?e \<notin> set (A q)" if "q < 4" for q using A(4) that by (auto simp: slist_at_def)
  have other: "slist_at h (plists t ! q) (A q) (qs ! q)" if "q < 4" "q \<noteq> p" for q
  proof (rule slist_at_frame)
    show "slist_at (pheap t) (plists t ! q) (A q) (qs ! q)" using A(4) that by blast
    show "elms h a = elms (pheap t) a" if "a \<in> set (A q)" for a
      using that lh(4) new [OF \<open>q < 4\<close>] A(5) \<open>q < 4\<close> \<open>q \<noteq> p\<close> assms(2) by blast
  qed (simp add: lh(3))
  have "queue_at (t\<lparr>pheap := h, plists := (plists t)[p := l]\<rparr>) (qs[p := qs ! p @ [x]])"
    unfolding queue_at_def
    by (intro conjI exI [of _ "A(p := A p @ [?e])"])
      (use A lh other new assms(2) in \<open>auto simp: nth_list_update\<close>)
  with lh(1) show ?thesis by blast
qed

lemma queue_pop:
  assumes "queue_at t qs" "p < 4" "qs ! p = x # xs"
  shows "\<exists>sz l h. dap_slist_get4head (plists t ! p) (pheap t) = Inr (Some (x, sz), l, h) \<and>
    queue_at (t\<lparr>pheap := h, plists := (plists t)[p := l]\<rparr>) (qs[p := xs])"
proof -
  from assms obtain A where A: "length (plists t) = 4" "length qs = 4" "0 < fresh_elm (pheap t)"
    "\<forall>p < 4. slist_at (pheap t) (plists t ! p) (A p) (qs ! p)" "\<forall>p < 4. \<forall>q < 4. p \<noteq> q \<longrightarrow> set (A p) \<inter> set (A q) = {}"
    by (auto simp: queue_at_def)
  obtain a as where a: "A p = a # as" using A(4) assms(2,3) slist_at_Cons by metis
  obtain sz l h where lh: "dap_slist_get4head (plists t ! p) (pheap t) = Inr (Some (x, sz), l, h)" "slist_at h l as xs"
    "fresh_elm h = fresh_elm (pheap t)" "\<forall>b. b \<noteq> a \<longrightarrow> elms h b = elms (pheap t) b"
    using get4head_at [of "pheap t" "plists t ! p" a as x xs] A(4) assms(2,3) a by metis
  have other: "slist_at h (plists t ! q) (A q) (qs ! q)" if "q < 4" "q \<noteq> p" for q
  proof (rule slist_at_frame)
    show "slist_at (pheap t) (plists t ! q) (A q) (qs ! q)" using A(4) that by blast
    show "elms h b = elms (pheap t) b" if "b \<in> set (A q)" for b
    proof -
      have "a \<notin> set (A q)" using A(5) \<open>q < 4\<close> \<open>q \<noteq> p\<close> assms(2) a by auto
      then have "b \<noteq> a" using that by blast
      then show ?thesis using lh(4) by blast
    qed
  qed (simp add: lh(3))
  have dis: "set as \<inter> set (A q) = {}" "set (A q) \<inter> set as = {}" if "q < 4" "q \<noteq> p" for q
    using A(5) assms(2) that a by fastforce+
  have "queue_at (t\<lparr>pheap := h, plists := (plists t)[p := l]\<rparr>) (qs[p := xs])"
    unfolding queue_at_def
    by (intro conjI exI [of _ "A(p := as)"]) (use A lh other dis assms(2) in \<open>auto simp: nth_list_update\<close>)
  with lh(1) show ?thesis by blast
qed

section \<open>Scheduling\<close>

text \<open>
  What a scheduler may do: run the callback of the first entry of the highest priority that has one, and put the
  entry behind the others when it is not finished.  An entry is dropped only when memory is refused.
  The log has the entries that were run with what became of them and with what their callbacks sent and signalled.
\<close>

datatype outcome = Finished | Again | Dropped

type_synonym 'i served = "'i \<times> outcome \<times> 'i dap_proc_queue_msg list \<times> nat"

definition served_as :: "'i served \<Rightarrow> outcome" where "served_as e = fst (snd e)"
definition sent_by :: "'i served list \<Rightarrow> 'i dap_proc_queue_msg list" where "sent_by log = concat (map (\<lambda>(x, r, ms, v). ms) log)"
definition signals_of :: "'i served list \<Rightarrow> nat" where "signals_of log = sum_list (map (\<lambda>(x, r, ms, v). v) log)"

lemma log_simps [simp]:
  "served_as (x, r, ms, v) = r" "sent_by [] = []" "signals_of [] = 0"
  "sent_by ((x, r, ms, v) # log) = ms @ sent_by log" "signals_of ((x, r, ms, v) # log) = v + signals_of log"
  "sent_by (log1 @ log2) = sent_by log1 @ sent_by log2" "signals_of (log1 @ log2) = signals_of log1 + signals_of log2"
  by (simp_all add: served_as_def sent_by_def signals_of_def)

definition outcome_ok :: "('i, 's) proc_env \<Rightarrow> bool \<Rightarrow> outcome \<Rightarrow> bool" where
  "outcome_ok env fin r = (case r of Finished \<Rightarrow> fin | Again \<Rightarrow> \<not> fin | Dropped \<Rightarrow> \<not> fin \<and> (\<exists>m. \<not> granted env m))"

inductive serves :: "('i, 's) proc_env \<Rightarrow> 'i list list \<Rightarrow> 's \<Rightarrow> 'i served list \<Rightarrow> 'i list list \<Rightarrow> 's \<Rightarrow> bool"
  for env :: "('i, 's) proc_env" where
  none: "serves env qs s [] qs s"
| serve: "p \<in> {1, 2, 3} \<Longrightarrow> \<forall>q. p < q \<and> q < 4 \<longrightarrow> qs ! q = [] \<Longrightarrow> qs ! p = x # xs \<Longrightarrow> run env x s = (s1, fin) \<Longrightarrow> posts env x s = (ms, v) \<Longrightarrow> outcome_ok env fin r \<Longrightarrow>
    serves env (qs[p := (if r = Again then xs @ [x] else xs)]) s1 log qs2 s2 \<Longrightarrow> serves env qs s ((x, r, ms, v) # log) qs2 s2"

inductive_cases serves_ConsE: "serves env qs s (e # log) qs' s'"
inductive_simps serves_Nil: "serves env qs s [] qs' s'"

lemma serves_append:
  "serves env qs s log qs1 s1 \<Longrightarrow> serves env qs1 s1 log' qs2 s2 \<Longrightarrow> serves env qs s (log @ log') qs2 s2"
  by (induction rule: serves.induct) (auto intro: serves.intros)

text \<open>Served entries stay or are finished or dropped; those of priority 0 are never served.\<close>

lemma mset_concat_update:
  "p < length qs \<Longrightarrow> mset (concat (qs[p := ys])) + mset (qs ! p) = mset (concat qs) + mset ys"
proof -
  assume p: "p < length qs"
  have "mset (concat qs) = mset (concat (take p qs @ qs ! p # drop (Suc p) qs))" using id_take_nth_drop [OF p] by simp
  then show ?thesis using p by (simp add: upd_conv_take_nth_drop ac_simps)
qed

lemma serves_keeps:
  "serves env qs s log qs' s' \<Longrightarrow> length qs = 4 \<Longrightarrow>
    length qs' = 4 \<and> qs' ! 0 = qs ! 0 \<and> mset (concat qs) = mset (concat qs') + mset (map fst (filter (\<lambda>e. served_as e \<noteq> Again) log))"
proof (induction rule: serves.induct)
  case (serve p qs x xs s s1 fin ms v r log qs2 s2)
  let ?ys = "if r = Again then xs @ [x] else xs"
  from serve have "mset (concat (qs[p := ?ys])) + mset (x # xs) = mset (concat qs) + mset ?ys"
    using mset_concat_update [of p qs ?ys] by auto
  with serve show ?case by (auto simp: nth_list_update split: if_splits)
qed simp

lemma serves_log:
  "serves env qs s log qs' s' \<Longrightarrow> e \<in> set log \<Longrightarrow> served_as e = Dropped \<Longrightarrow> \<exists>m. \<not> granted env m"
  by (induction rule: serves.induct) (auto simp: outcome_ok_def)

definition idle :: "'i list list \<Rightarrow> bool" where
  "idle qs \<longleftrightarrow> qs ! 1 = [] \<and> qs ! 2 = [] \<and> qs ! 3 = []"

text \<open>A pass over the priorities: it gives up for lack of fuel only while the clock stands still.\<close>

definition same_rest :: "'i served list \<Rightarrow> ('i, 's) proc_thread \<Rightarrow> ('i, 's) proc_thread \<Rightarrow> bool" where
  "same_rest log t t' \<longleftrightarrow> transit t' = transit t @ sent_by log \<and> proc_event t' = proc_event t + signals_of log \<and>
     queue_close t' = queue_close t"

lemma round_run:
  assumes "queue_at t qs" "cur < 4" "qs ! cur = x # xs"
  shows "\<exists>s1 fin ms v r t3. run env x (shared t) = (s1, fin) \<and> posts env x (shared t) = (ms, v) \<and> outcome_ok env fin r \<and> queue_at t3 (qs[cur := (if r = Again then xs @ [x] else xs)]) \<and>
    shared t3 = s1 \<and> same_rest [(x, r, ms, v)] t t3 \<and> (\<forall>start k n cnt. cur \<noteq> 0 \<longrightarrow> \<not> start < clock env n \<longrightarrow>
      prio_loop (Suc k) env start cur n it cnt t = prio_loop k env start cur (n + 1) (it + 1) (cnt + 1) t3)"
proof -
  have nr: "slist_nr (plists t ! cur) \<noteq> 0" using queue_at_nr [OF assms(1,2)] assms(3) by simp
  obtain sz l h where pop: "dap_slist_get4head (plists t ! cur) (pheap t) = Inr (Some (x, sz), l, h)"
    "queue_at (t\<lparr>pheap := h, plists := (plists t)[cur := l]\<rparr>) (qs[cur := xs])" using queue_pop [OF assms] by blast
  obtain s1 fin ms v where r: "run env x (shared t) = (s1, fin)" "posts env x (shared t) = (ms, v)" by fastforce
  let ?t2 = "t\<lparr>pheap := h, plists := (plists t)[cur := l], shared := s1, transit := transit t @ ms, proc_event := proc_event t + v\<rparr>"
  have q2: "queue_at ?t2 (qs[cur := xs])" using pop(2) by (simp add: queue_at_def)
  have len: "cur < length (plists t)" "cur < length qs" using assms(1,2) by (simp_all add: queue_at_def)
  consider (fin) "fin" | (again) "\<not> fin" "granted env it" | (drop) "\<not> fin" "\<not> granted env it" by blast
  then show ?thesis
  proof cases
    case fin
    then show ?thesis using r q2 nr pop(1)
      by (intro exI [of _ s1] exI [of _ fin] exI [of _ ms] exI [of _ v] exI [of _ Finished] exI [of _ ?t2]) (auto simp: outcome_ok_def same_rest_def)
  next
    case again
    obtain l' h' where push: "dap_slist_add2tail True (plists ?t2 ! cur) x sz (pheap ?t2) = Inr (0, l', h')"
      "queue_at (?t2\<lparr>pheap := h', plists := (plists ?t2)[cur := l']\<rparr>) ((qs[cur := xs])[cur := (qs[cur := xs]) ! cur @ [x]])"
      using queue_push [OF q2 assms(2), of x sz] by blast
    then show ?thesis using r nr pop(1) again len
      by (intro exI [of _ s1] exI [of _ fin] exI [of _ ms] exI [of _ v] exI [of _ Again] exI [of _ "?t2\<lparr>pheap := h', plists := (plists ?t2)[cur := l']\<rparr>"])
        (auto simp: outcome_ok_def same_rest_def)
  next
    case drop
    have "?t2\<lparr>pheap := h, plists := (plists ?t2)[cur := plists ?t2 ! cur]\<rparr> = ?t2" using len by simp
    then show ?thesis using r q2 nr pop(1) drop
      by (intro exI [of _ s1] exI [of _ fin] exI [of _ ms] exI [of _ v] exI [of _ Dropped] exI [of _ ?t2])
        (auto simp: outcome_ok_def same_rest_def dap_slist_add2tail_def)
  qed
qed

lemma prio_loop_run:
  assumes "queue_at t qs" "cur < 4" "\<forall>q. cur < q \<and> q < 4 \<longrightarrow> qs ! q = []"
  shows "prio_loop k env start cur n it cnt t = Inl Diverges \<and> (\<forall>N. (\<forall>m \<ge> N. start < clock env m) \<longrightarrow> k < (N - n) + cur + 2) \<or>
    (\<exists>t' n' it' log qs'. prio_loop k env start cur n it cnt t = Inr (t', n', it', cnt + length log) \<and> queue_at t' qs' \<and>
      serves env qs (shared t) log qs' (shared t') \<and> same_rest log t t' \<and> n + length log \<le> n' \<and> (log \<noteq> [] \<longrightarrow> \<not> start < clock env n) \<and>
      (idle qs' \<or> start < clock env (n + length log)))"
  using assms
proof (induction k arbitrary: t qs cur n it cnt)
  case (Suc k)
  let ?ok = "\<lambda>t qs cur n it cnt. \<exists>t' n' it' log qs'. prio_loop k env start cur n it cnt t = Inr (t', n', it', cnt + length log) \<and> queue_at t' qs' \<and>
      serves env qs (shared t) log qs' (shared t') \<and> same_rest log t t' \<and> n + length log \<le> n' \<and> (log \<noteq> [] \<longrightarrow> \<not> start < clock env n) \<and>
      (idle qs' \<or> start < clock env (n + length log))"
  consider (zero) "cur = 0" | (empty) "cur \<noteq> 0" "qs ! cur = []" | (late) "cur \<noteq> 0" "qs ! cur \<noteq> []" "start < clock env n"
    | (work) x xs where "cur \<noteq> 0" "qs ! cur = x # xs" "\<not> start < clock env n" by (cases "qs ! cur") auto
  then show ?case
  proof cases
    case zero
    have "idle qs" unfolding idle_def using Suc.prems(3) zero by simp
    then show ?thesis using Suc.prems(1) zero
      by (intro disjI2 exI [of _ t] exI [of _ n] exI [of _ it] exI [of _ "[]"] exI [of _ qs]) (simp add: serves.none same_rest_def)
  next
    case empty
    have step: "prio_loop (Suc k) env start cur n it cnt t = prio_loop k env start (cur - 1) n (it + 1) cnt t"
      using empty queue_at_nr [OF Suc.prems(1,2)] by simp
    have "\<forall>q. cur - 1 < q \<and> q < 4 \<longrightarrow> qs ! q = []" using Suc.prems(3) empty by (metis Suc_pred' linorder_neqE_nat not_less_eq gr0I)
    moreover have "k < a + (cur - 1) + 2 \<longleftrightarrow> Suc k < a + cur + 2" for a using empty(1) by linarith
    ultimately show ?thesis using Suc.IH [OF Suc.prems(1), of "cur - 1" n "it + 1" cnt] Suc.prems(2) unfolding step
      by simp
  next
    case late
    have "slist_nr (plists t ! cur) \<noteq> 0" using late queue_at_nr [OF Suc.prems(1,2)] by simp
    then show ?thesis using Suc.prems(1) late
      by (intro disjI2 exI [of _ t] exI [of _ "n + 1"] exI [of _ it] exI [of _ "[]"] exI [of _ qs]) (auto simp: serves.none same_rest_def)
  next
    case work
    obtain s1 fin ms v r t3 where rnd: "run env x (shared t) = (s1, fin)" "outcome_ok env fin r"
      "queue_at t3 (qs[cur := (if r = Again then xs @ [x] else xs)])" "shared t3 = s1" "same_rest [(x, r, ms, v)] t t3"
      "\<forall>start k n cnt. cur \<noteq> 0 \<longrightarrow> \<not> start < clock env n \<longrightarrow>
        prio_loop (Suc k) env start cur n it cnt t = prio_loop k env start cur (n + 1) (it + 1) (cnt + 1) t3" "posts env x (shared t) = (ms, v)"
      using round_run [OF Suc.prems(1,2) work(2), of env it] by blast
    have step: "prio_loop (Suc k) env start cur n it cnt t = prio_loop k env start cur (n + 1) (it + 1) (cnt + 1) t3"
      using rnd(6) work(1,3) by blast
    let ?qs = "qs[cur := (if r = Again then xs @ [x] else xs)]"
    have hi: "\<forall>q. cur < q \<and> q < 4 \<longrightarrow> ?qs ! q = []" using Suc.prems(3) by simp
    from Suc.IH [OF rnd(3) Suc.prems(2) hi, of "n + 1" "it + 1" "cnt + 1"] show ?thesis
    proof (elim disjE)
      assume div: "prio_loop k env start cur (n + 1) (it + 1) (cnt + 1) t3 = Inl Diverges \<and>
        (\<forall>N. (\<forall>m \<ge> N. start < clock env m) \<longrightarrow> k < (N - (n + 1)) + cur + 2)"
      have "Suc k < (N - n) + cur + 2" if "\<forall>m \<ge> N. start < clock env m" for N
      proof -
        have "n < N" using that work(3) by (meson not_le)
        moreover have "k < (N - (n + 1)) + cur + 2" using div that by blast
        ultimately show ?thesis by linarith
      qed
      then show ?thesis using div step by simp
    next
      assume "?ok t3 ?qs cur (n + 1) (it + 1) (cnt + 1)"
      then obtain t' n' it' log qs' where *: "prio_loop k env start cur (n + 1) (it + 1) (cnt + 1) t3 = Inr (t', n', it', cnt + 1 + length log)"
        "queue_at t' qs'" "serves env ?qs (shared t3) log qs' (shared t')" "same_rest log t3 t'" "n + 1 + length log \<le> n'"
        "idle qs' \<or> start < clock env (n + 1 + length log)" by blast
      have "serves env qs (shared t) ((x, r, ms, v) # log) qs' (shared t')"
        using serves.serve [of cur qs x xs env "shared t" s1 fin ms v r log qs' "shared t'"] Suc.prems(2,3) work(1,2) rnd(1,2,4,7) *(3)
        by (auto simp: numeral_eq_Suc less_Suc_eq)
      then show ?thesis using * step rnd(5) work(3)
        by (intro disjI2 exI [of _ t'] exI [of _ n'] exI [of _ it'] exI [of _ "(x, r, ms, v) # log"] exI [of _ qs']) (auto simp: same_rest_def)
    qed
  qed
qed simp

lemma serves_idle: "serves env qs s log qs' s' \<Longrightarrow> idle qs \<Longrightarrow> log = [] \<and> qs' = qs \<and> s' = s"
  by (cases rule: serves.cases) (auto simp: idle_def)

lemma pass_loop_run:
  assumes "queue_at t qs"
  shows "pass_loop j k env start n it t = Inl Diverges \<and> (\<forall>N. (\<forall>m \<ge> N. start < clock env m) \<longrightarrow> j < (N - n) + 2 \<or> k < (N - n) + 5) \<or>
    (\<exists>t' n' it' log qs'. pass_loop j k env start n it t = Inr (t', n', it') \<and> queue_at t' qs' \<and> serves env qs (shared t) log qs' (shared t') \<and>
      same_rest log t t' \<and> (idle qs' \<or> (\<exists>m. n \<le> m \<and> m \<le> n + length log \<and> start < clock env m)))"
  using assms
proof (induction j arbitrary: t qs n it)
  case (Suc j)
  let ?p = "prio_loop k env start 3 n it 0 t"
  have three: "nat (DAP_PROC_PRI_MAX - 1) = 3" by (simp add: DAP_PROC_PRI_MAX_def)
  have none: "(3::nat) < 4 \<and> (\<forall>q::nat. 3 < q \<and> q < 4 \<longrightarrow> qs ! q = [])" by auto
  from prio_loop_run [OF Suc.prems none [THEN conjunct1] none [THEN conjunct2], of k env start n it 0] consider
    (div) "?p = Inl Diverges" "\<forall>N. (\<forall>m \<ge> N. start < clock env m) \<longrightarrow> k < (N - n) + 5"
  | (ok) t' n' it' log qs' where "?p = Inr (t', n', it', length log)" "queue_at t' qs'" "serves env qs (shared t) log qs' (shared t')" "same_rest log t t'"
      "n + length log \<le> n'" "log \<noteq> [] \<longrightarrow> \<not> start < clock env n" "idle qs' \<or> start < clock env (n + length log)"
    by (simp add: numeral_eq_Suc) blast
  then show ?case
  proof cases
    case div
    then show ?thesis by (simp add: three)
  next
    case ok
    show ?thesis
    proof (cases "log = []")
      case True
      then show ?thesis using ok by (intro disjI2) (force simp: three)
    next
      case False
      then have step: "pass_loop (Suc j) k env start n it t = pass_loop j k env start n' it' t'" using ok(1) by (simp add: three)
      have nlate: "\<not> start < clock env n" using ok(6) False by blast
      from Suc.IH [OF ok(2), of n' it'] consider
        (div2) "pass_loop j k env start n' it' t' = Inl Diverges"
          "\<forall>N. (\<forall>m \<ge> N. start < clock env m) \<longrightarrow> j < (N - n') + 2 \<or> k < (N - n') + 5"
      | (ok2) t2 n2 it2 log2 qs2 where "pass_loop j k env start n' it' t' = Inr (t2, n2, it2)" "queue_at t2 qs2"
          "serves env qs' (shared t') log2 qs2 (shared t2)" "same_rest log2 t' t2"
        by blast
      then show ?thesis
      proof cases
        case div2
        have "Suc j < (N - n) + 2 \<or> k < (N - n) + 5" if "\<forall>m \<ge> N. start < clock env m" for N
        proof -
          have "n < N" using that nlate by (meson not_le)
          moreover have "n < n'" using ok(5) False by (cases log) auto
          ultimately show ?thesis using div2(2) that by fastforce
        qed
        then show ?thesis using div2(1) step by simp
      next
        case ok2
        have "idle qs2 \<or> (\<exists>m. n \<le> m \<and> m \<le> n + length (log @ log2) \<and> start < clock env m)"
          using ok(7) serves_idle [OF ok2(3)] by (metis le_add1 length_append nat_add_left_cancel_le)
        then show ?thesis using ok2 step ok(4) serves_append [OF ok(3) ok2(3)]
          by (intro disjI2 exI [of _ t2] exI [of _ n2] exI [of _ it2] exI [of _ "log @ log2"] exI [of _ qs2]) (auto simp: same_rest_def)
      qed
    qed
  qed
qed simp

lemma entries_left_idle: "queue_at t qs \<Longrightarrow> entries_left t = 0 \<longleftrightarrow> idle qs"
  using queue_at_nr [of t qs 1] queue_at_nr [of t qs 2] queue_at_nr [of t qs 3] by (simp add: entries_left_def idle_def flip: length_0_conv of_nat_add of_nat_eq_0_iff) presburger

text \<open>The callback of the event.\<close>

lemma event_callback_run:
  assumes "queue_at t qs"
  shows "s_proc_event_callback fuel env t = Inl Diverges \<and> (\<forall>N. (\<forall>m \<ge> N. clock env 0 < clock env m) \<longrightarrow> fuel < N + 5) \<or>
    (\<exists>t' log qs'. s_proc_event_callback fuel env t = Inr t' \<and> queue_at t' qs' \<and> serves env qs (shared t) log qs' (shared t') \<and>
      transit t' = transit t @ sent_by log \<and> queue_close t' = queue_close t \<and>
      proc_event t' = proc_event t + signals_of log + (if idle qs' then 0 else 1) \<and>
      (idle qs' \<or> (\<exists>m. 1 \<le> m \<and> m \<le> 1 + length log \<and> clock env 0 < clock env m)))"
proof -
  from pass_loop_run [OF assms, of fuel fuel env "clock env 0" 1 0] consider
    (div) "pass_loop fuel fuel env (clock env 0) 1 0 t = Inl Diverges"
      "\<forall>N. (\<forall>m \<ge> N. clock env 0 < clock env m) \<longrightarrow> fuel < (N - 1) + 2 \<or> fuel < (N - 1) + 5"
  | (ok) t' n' it' log qs' where "pass_loop fuel fuel env (clock env 0) 1 0 t = Inr (t', n', it')" "queue_at t' qs'"
      "serves env qs (shared t) log qs' (shared t')" "same_rest log t t'" "idle qs' \<or> (\<exists>m. 1 \<le> m \<and> m \<le> 1 + length log \<and> clock env 0 < clock env m)"
    by blast
  then show ?thesis
  proof cases
    case div
    then show ?thesis by (fastforce simp: s_proc_event_callback_def)
  next
    case ok
    let ?t = "if entries_left t' \<noteq> 0 then dap_events_socket_event_signal 1 t' else t'"
    have "s_proc_event_callback fuel env t = Inr ?t" using ok(1) by (simp add: s_proc_event_callback_def)
    moreover have "queue_at ?t qs'" "shared ?t = shared t'" using ok(2) by (auto simp: dap_events_socket_event_signal_def)
    ultimately show ?thesis using ok(3-5) entries_left_idle [OF ok(2)]
      by (intro disjI2 exI [of _ ?t] exI [of _ log] exI [of _ qs']) (auto simp: same_rest_def dap_events_socket_event_signal_def)
  qed
qed

text \<open>The order in which entries are served when every callback finishes.\<close>

definition order :: "'i list list \<Rightarrow> 'i list" where
  "order qs = qs ! 3 @ qs ! 2 @ qs ! 1"

text \<open>Running items one after the other: the effect on what they share, what they send and how often they signal.\<close>

fun run_all :: "('i, 's) proc_env \<Rightarrow> 'i list \<Rightarrow> 's \<Rightarrow> 's \<times> 'i dap_proc_queue_msg list \<times> nat" where
  "run_all env [] s = (s, [], 0)"
| "run_all env (x # xs) s =
     (let (ms, v) = posts env x s; (s', ms', v') = run_all env xs (fst (run env x s)) in (s', ms @ ms', v + v'))"

lemma serves_order:
  "serves env qs s log qs' s' \<Longrightarrow> length qs = 4 \<Longrightarrow> \<forall>x s. snd (run env x s) \<Longrightarrow>
    map fst log @ order qs' = order qs \<and> (s', sent_by log, signals_of log) = run_all env (map fst log) s"
proof (induction rule: serves.induct)
  case (serve p qs x xs s s1 fin ms v r log qs2 s2)
  have fin: "fin" using serve.hyps(4) serve.prems(2) by (metis snd_conv)
  then have r: "r \<noteq> Again" using serve.hyps(6) by (auto simp: outcome_ok_def split: outcome.splits)
  have s1: "s1 = fst (run env x s)" using serve.hyps(4) by simp
  have "order qs = x # order (qs[p := xs])"
    using serve.hyps(1,2,3) serve.prems(1) by (auto simp: order_def nth_list_update)
  moreover have "(s2, sent_by log, signals_of log) = run_all env (map fst log) s1" using serve.IH serve.prems r by simp
  ultimately show ?case using serve.IH serve.prems r by (simp add: s1 serve.hyps(5) split: prod.split) (metis prod.inject)
qed simp

text \<open>A message arrives.\<close>

lemma clamp_pri_less: "nat (clamp_pri p) < 4"
  by (simp add: clamp_pri_def DAP_PROC_PRI_MAX_def)

definition arrived :: "bool \<Rightarrow> bool \<Rightarrow> 'i dap_proc_queue_msg \<Rightarrow> 'i list list \<Rightarrow> 'i list list" where
  "arrived im em m qs = (case callback m of None \<Rightarrow> qs
     | Some x \<Rightarrow> if im \<and> em then let p = nat (clamp_pri (pri m)) in qs[p := qs ! p @ [x]] else qs)"

lemma esocket_callback_run:
  assumes "queue_at t qs"
  shows "\<exists>t'. s_queue_esocket_callback im em m t = Inr t' \<and> queue_at t' (arrived im em m qs) \<and> shared t' = shared t \<and> transit t' = transit t \<and>
    proc_event t' = proc_event t + (if callback m \<noteq> None \<and> im then 1 else 0)"
proof (cases "callback m = None \<or> \<not> im")
  case True
  then show ?thesis using assms
    by (intro exI [of _ "if signal_kill m then t\<lparr>queue_close := True\<rparr> else t"])
      (auto simp: s_queue_esocket_callback_def arrived_def Let_def split: option.split)
next
  case False
  then obtain x where x: "callback m = Some x" "im" by auto
  let ?p = "nat (clamp_pri (pri m))"
  show ?thesis
  proof (cases em)
    case True
    obtain l h where "dap_slist_add2tail True (plists t ! ?p) x 1 (pheap t) = Inr (0, l, h)"
      "queue_at (t\<lparr>pheap := h, plists := (plists t)[?p := l]\<rparr>) (qs[?p := qs ! ?p @ [x]])"
      using queue_push [OF assms clamp_pri_less, of "pri m" x 1] by auto
    then show ?thesis using x True
      by (fastforce simp: s_queue_esocket_callback_def arrived_def Let_def dap_events_socket_event_signal_def)
  next
    case False
    have "t\<lparr>pheap := pheap t, plists := (plists t)[?p := plists t ! ?p]\<rparr> = t" by simp
    then show ?thesis using x False assms
      by (intro exI [of _ "let t = dap_events_socket_event_signal 1 t in if signal_kill m then t\<lparr>queue_close := True\<rparr> else t"])
        (auto simp: s_queue_esocket_callback_def arrived_def Let_def dap_events_socket_event_signal_def dap_slist_add2tail_def)
  qed
qed

end
