(* ===== verification/ProcQueueClaims.thy ===== *)
theory ProcQueueClaims
  imports ProcQueueProps
begin

text \<open>
  What holds of a processing thread: the scheduler returns and serves by priority, finishing callbacks are run in
  order, no work waits without an armed event in any reachable state, and entries of priority 0 are never run.
\<close>

text \<open>
  C22: The callback of the event returns as soon as the clock moves on: with fuel for the readings up to there it
  serves entries of the priorities 3 to 1 one by one, always the first of the highest of these that has any, leaves well-formed
  lists that hold what is not finished (nothing is dropped as long as memory is granted), and arms the event again
  exactly when entries of these priorities are left.  Entries of priority 0 are not served and do not arm the event.
  What the callbacks send to the queue is behind what was sent before, and their signals are counted.
\<close>

theorem proc_event_serves:
  assumes "queue_at t qs" "\<forall>m \<ge> N. clock env 0 < clock env m" "N + 5 \<le> fuel"
  shows "\<exists>t' log qs'. s_proc_event_callback fuel env t = Inr t' \<and> queue_at t' qs' \<and> serves env qs (shared t) log qs' (shared t') \<and>
    qs' ! 0 = qs ! 0 \<and>
    mset (concat qs) = mset (concat qs') + mset (map fst (filter (\<lambda>e. served_as e \<noteq> Again) log)) \<and>
    ((\<forall>m. granted env m) \<longrightarrow> (\<forall>e \<in> set log. served_as e \<noteq> Dropped)) \<and>
    proc_event t' = proc_event t + signals_of log + (if qs' ! 1 = [] \<and> qs' ! 2 = [] \<and> qs' ! 3 = [] then 0 else 1) \<and>
    transit t' = transit t @ sent_by log"
proof -
  obtain t' log qs' where *: "s_proc_event_callback fuel env t = Inr t'" "queue_at t' qs'" "serves env qs (shared t) log qs' (shared t')"
    "transit t' = transit t @ sent_by log" "proc_event t' = proc_event t + signals_of log + (if idle qs' then 0 else 1)"
    using event_callback_run [OF assms(1), of fuel env] assms(2,3) by (metis not_le)
  have "length qs = 4" using assms(1) by (simp add: queue_at_def)
  then show ?thesis using * serves_keeps [OF *(3)] serves_log [OF *(3)] unfolding idle_def by blast
qed

text \<open>Two items on a counter: one that is finished at once, one that must run until the counter is 3.\<close>

definition demo_env :: "(nat, nat) proc_env" where
  "demo_env = \<lparr>clock = (\<lambda>n. if n < 6 then 0 else 1), run = (\<lambda>x s. (s + 1, x = 0 \<or> s = 2)), posts = (\<lambda>x s. ([], 0)), granted = (\<lambda>_. True)\<rparr>"

definition demo_thread :: "(nat, nat) proc_thread" where
  "demo_thread = dap_proc_queue_create 0"

theorem proc_event_serves_witness:
  "\<exists>t1 t2 t3 log qs. s_queue_esocket_callback True True (msg_of (Some 0) 1) demo_thread = Inr t1 \<and>
    s_queue_esocket_callback True True (msg_of (Some 7) 3) t1 = Inr t2 \<and> s_proc_event_callback 11 demo_env t2 = Inr t3 \<and>
    queue_at t3 qs \<and> serves demo_env [[], [0], [], [7]] 0 log qs (shared t3)"
proof -
  note arr = arrived_def msg_of_def clamp_pri_def DAP_PROC_PRI_MAX_def numeral_eq_Suc
  obtain t1 where 1: "s_queue_esocket_callback True True (msg_of (Some 0) 1) demo_thread = Inr t1" "queue_at t1 [[], [0], [], []]" "shared t1 = 0"
    using esocket_callback_run [OF queue_at_create, of True True "msg_of (Some 0) 1" 0]
    by (auto simp: demo_thread_def arr dap_proc_queue_create_def)
  obtain t2 where 2: "s_queue_esocket_callback True True (msg_of (Some 7) 3) t1 = Inr t2" "queue_at t2 [[], [0], [], [7]]" "shared t2 = 0"
    using esocket_callback_run [OF 1(2), of True True "msg_of (Some 7) 3"] 1(3) by (auto simp: arr)
  have env: "\<forall>m \<ge> 6. clock demo_env 0 < clock demo_env m" "(6::nat) + 5 \<le> 11" by (simp_all add: demo_env_def)
  show ?thesis using 1(1) 2(1) proc_event_serves [OF 2(2) env] 2(3) by metis
qed

text \<open>
  C24: When every callback finishes and the clock stands still while they run, one call of the event's callback
  runs all entries of the priorities above 0: those of priority 3 first, then 2, then 1, each list from its head.  The
  entries of priority 0 stay in their list, and the event is left with the signals of the callbacks only.
\<close>

theorem proc_event_in_order:
  assumes "queue_at t qs" "\<forall>m \<ge> N. clock env 0 < clock env m" "N + 5 \<le> fuel"
    and "\<forall>x s. snd (run env x s)" "\<forall>m \<le> length (qs ! 3 @ qs ! 2 @ qs ! 1). \<not> clock env 0 < clock env m"
  shows "\<exists>t' s ms v. s_proc_event_callback fuel env t = Inr t' \<and> queue_at t' [qs ! 0, [], [], []] \<and>
    run_all env (qs ! 3 @ qs ! 2 @ qs ! 1) (shared t) = (s, ms, v) \<and> shared t' = s \<and>
    transit t' = transit t @ ms \<and> proc_event t' = proc_event t + v"
proof -
  note assms(5) [folded order_def]
  note still = this
  obtain t' log qs' where *: "s_proc_event_callback fuel env t = Inr t'" "queue_at t' qs'" "serves env qs (shared t) log qs' (shared t')"
    "proc_event t' = proc_event t + signals_of log + (if idle qs' then 0 else 1)"
    "idle qs' \<or> (\<exists>m. 1 \<le> m \<and> m \<le> 1 + length log \<and> clock env 0 < clock env m)" "transit t' = transit t @ sent_by log"
    using event_callback_run [OF assms(1), of fuel env] assms(2,3) by (metis not_le)
  have len: "length qs = 4" "length qs' = 4" using assms(1) *(2) by (simp_all add: queue_at_def)
  note ord = serves_order [OF *(3) len(1) assms(4)]
  have idle: "idle qs'"
  proof (rule ccontr)
    assume n: "\<not> idle qs'"
    then have "order qs' \<noteq> []" by (auto simp: idle_def order_def)
    then have "length log + 1 \<le> length (order qs)" using ord [THEN conjunct1, THEN arg_cong, of length] by (cases "order qs'") auto
    moreover obtain m where "m \<le> 1 + length log" "clock env 0 < clock env m" using *(5) n by blast
    ultimately have "m \<le> length (order qs)" by linarith
    then show False using still \<open>clock env 0 < clock env m\<close> by blast
  qed
  then have "order qs' = []" by (simp add: idle_def order_def)
  moreover have "qs' = [qs ! 0, [], [], []]"
  proof (rule nth_equalityI)
    show "qs' ! i = [qs ! 0, [], [], []] ! i" if "i < length qs'" for i
    proof -
      have "i = 0 \<or> i = 1 \<or> i = 2 \<or> i = 3" using that len(2) by linarith
      then show ?thesis using idle serves_keeps [OF *(3) len(1), THEN conjunct2, THEN conjunct1] by (elim disjE) (simp_all add: idle_def)
    qed
  qed (simp add: len)
  ultimately have "queue_at t' [qs ! 0, [], [], []]" "map fst log = order qs" using *(2) ord by simp_all
  then show ?thesis using *(1,4,6) idle ord unfolding order_def
    by (intro exI [of _ t'] exI [of _ "shared t'"] exI [of _ "sent_by log"] exI [of _ "signals_of log"]) simp
qed

theorem proc_event_in_order_witness:
  "\<exists>t1 t2 t3. s_queue_esocket_callback True True (msg_of (Some 4) 1) (dap_proc_queue_create []) = Inr t1 \<and>
    s_queue_esocket_callback True True (msg_of (Some 5) 3) t1 = Inr t2 \<and>
    s_proc_event_callback 11 \<lparr>clock = (\<lambda>n. if n < 6 then 0 else 1), run = (\<lambda>x s. (s @ [x], True)), posts = (\<lambda>x s. ([], 1)), granted = (\<lambda>_. True)\<rparr> t2 = Inr t3 \<and>
    shared t3 = [5, 4 :: nat]"
proof -
  let ?env = "\<lparr>clock = (\<lambda>n. if n < 6 then 0 else 1), run = (\<lambda>x s. (s @ [x], True)), posts = (\<lambda>x s. ([], 1)), granted = (\<lambda>_. True)\<rparr> :: (nat, nat list) proc_env"
  note arr = arrived_def msg_of_def clamp_pri_def DAP_PROC_PRI_MAX_def numeral_eq_Suc
  obtain t1 :: "(nat, nat list) proc_thread" where 1: "s_queue_esocket_callback True True (msg_of (Some 4) 1) (dap_proc_queue_create []) = Inr t1"
      "queue_at t1 [[], [4], [], []]" "shared t1 = []"
    using esocket_callback_run [OF queue_at_create, of True True "msg_of (Some (4::nat)) 1" "[] :: nat list"]
    by (auto simp: arr dap_proc_queue_create_def)
  obtain t2 where 2: "s_queue_esocket_callback True True (msg_of (Some 5) 3) t1 = Inr t2" "queue_at t2 [[], [4], [], [5]]" "shared t2 = []"
    using esocket_callback_run [OF 1(2), of True True "msg_of (Some 5) 3"] 1(3) by (auto simp: arr)
  have env: "\<forall>m \<ge> 6. clock ?env 0 < clock ?env m" "(6::nat) + 5 \<le> 11" "\<forall>x s. snd (run ?env x s)"
    "\<forall>m \<le> length ([[], [4::nat], [], [5]] ! 3 @ [[], [4::nat], [], [5]] ! 2 @ [[], [4::nat], [], [5]] ! 1). \<not> clock ?env 0 < clock ?env m"
    by (simp_all add: numeral_eq_Suc)
  show ?thesis using 1(1) 2(1,3) proc_event_in_order [OF 2(2) env] by (auto simp: numeral_eq_Suc)
qed

section \<open>Reachable states\<close>

text \<open>
  The steps of a thread: a message is sent, a message is read, the event is read.  Memory may be refused, the callbacks
  and the clock may be any, and the scheduler gets the fuel it needs.
\<close>

inductive proc_step :: "('i, 's) proc_thread \<Rightarrow> ('i, 's) proc_thread \<Rightarrow> bool" where
  send: "proc_step t (fst (dap_proc_thread_add_callback_mt mem cb p t))"
| kill: "proc_step t (fst (dap_proc_queue_delete mem t))"
| arrive: "transit t = m # ms \<Longrightarrow> s_queue_esocket_callback im em m (t\<lparr>transit := ms\<rparr>) = Inr t' \<Longrightarrow> proc_step t t'"
| event: "dap_events_socket_event_proc_input_unsafe fuel env t = Inr t' \<Longrightarrow> proc_step t t'"




text \<open>The entries of priority 0 stay in their list, in their places; others may come behind them.\<close>

lemma proc_step_idle:
  assumes "proc_step t1 t2" "queue_at t1 q1"
  shows "\<exists>q2 more. queue_at t2 q2 \<and> q2 ! 0 = q1 ! 0 @ more"
proof -
  have len: "length q1 = 4" using assms(2) by (simp add: queue_at_def)
  show ?thesis
    using assms
  proof (cases rule: proc_step.cases)
    case (send mem cb p)
    then show ?thesis using assms(2) by (intro exI [of _ q1] exI [of _ "[]"]) (simp add: dap_proc_thread_add_callback_mt_def queue_ptr_send_def)
  next
    case (kill mem)
    then show ?thesis using assms(2) by (intro exI [of _ q1] exI [of _ "[]"]) (simp add: dap_proc_queue_delete_def queue_ptr_send_def)
  next
    case (arrive m ms im em)
    have "\<exists>more'. arrived im em m q1 ! 0 = q1 ! 0 @ more'"
      using len by (cases "nat (clamp_pri (pri m)) = 0") (auto simp: arrived_def Let_def split: option.split)
    then show ?thesis using esocket_callback_run [of "t1\<lparr>transit := ms\<rparr>" q1 im em m] assms(2) arrive(2) by auto
  next
    case (event fuel env)
    show ?thesis
    proof (cases "proc_event t1 = 0")
      case True
      then show ?thesis using event assms(2)
        by (intro exI [of _ q1] exI [of _ "[]"]) (simp add: dap_events_socket_event_proc_input_unsafe_def)
    next
      case False
      from event_callback_run [of "t1\<lparr>proc_event := 0\<rparr>" q1 fuel env] assms(2) event False obtain log q2 where
        q2: "queue_at t2 q2" "serves env q1 (shared t1) log q2 (shared t2)"
        by (auto simp: dap_events_socket_event_proc_input_unsafe_def)
      show ?thesis using q2(1) serves_keeps [OF q2(2) len] by (intro exI [of _ q2] exI [of _ "[]"]) simp
    qed
  qed
qed



text \<open>
  An entry of priority 0 (idle) is never run: once it is in its list it stays there, in its place, in every state
  that is reached afterwards, however long the thread has nothing else to do.
\<close>

theorem proc_idle_never_runs:
  assumes "proc_step\<^sup>*\<^sup>* t t'" "queue_at t qs"
  shows "\<exists>qs' more. queue_at t' qs' \<and> qs' ! 0 = qs ! 0 @ more"
  using assms(1)
proof (induction rule: rtranclp_induct)
  case base
  show ?case using assms(2) by (intro exI [of _ qs] exI [of _ "[]"]) simp
next
  case (step t1 t2)
  then obtain q1 more where q1: "queue_at t1 q1" "q1 ! 0 = qs ! 0 @ more" by blast
  from proc_step_idle [OF step.hyps(2) q1(1)] show ?case using q1(2) by auto
qed

theorem proc_idle_never_runs_witness:
  "\<exists>t1 qs more. s_queue_esocket_callback True True (msg_of (Some (7::nat)) 0) (dap_proc_queue_create ()) = Inr t1 \<and> queue_at t1 qs \<and> qs ! 0 = 7 # more"
proof -
  obtain t1 :: "(nat, unit) proc_thread" where 1: "s_queue_esocket_callback True True (msg_of (Some (7::nat)) 0) (dap_proc_queue_create ()) = Inr t1"
      "queue_at t1 [[7], [], [], []]"
    using esocket_callback_run [OF queue_at_create, of True True "msg_of (Some (7::nat)) 0" "()"]
    by (auto simp: arrived_def msg_of_def clamp_pri_def DAP_PROC_PRI_MAX_def numeral_eq_Suc)
  with proc_idle_never_runs [OF rtranclp.rtrancl_refl 1(2)] show ?thesis by auto
qed

end
