(* ===== verification/Base58.thy ===== *)
theory Base58
  imports Codec CString
begin

text \<open>
  Base 58 (\<open>crypto/src/dap_enc_base58.c\<close>) and the hexadecimal texts it is converted from and to
  (\<open>dap_bin2hex\<close>, \<open>dap_hex2bin\<close> of \<open>core/src/dap_common.c\<close>, the macro \<open>dap_htoa64\<close> with its table).
  Buffers are lists; a store before the start of one is a fault.
\<close>

unbundle bit_operations_syntax

section \<open>Hexadecimal\<close>

definition htoa_lut256 :: "u16 list" where
  "htoa_lut256 =
    [0x3030, 0x3130, 0x3230, 0x3330, 0x3430, 0x3530, 0x3630, 0x3730, 0x3830, 0x3930, 0x4130, 0x4230, 0x4330, 0x4430, 0x4530, 0x4630,
     0x3031, 0x3131, 0x3231, 0x3331, 0x3431, 0x3531, 0x3631, 0x3731, 0x3831, 0x3931, 0x4131, 0x4231, 0x4331, 0x4431, 0x4531, 0x4631,
     0x3032, 0x3132, 0x3232, 0x3332, 0x3432, 0x3532, 0x3632, 0x3732, 0x3832, 0x3932, 0x4132, 0x4232, 0x4332, 0x4432, 0x4532, 0x4632,
     0x3033, 0x3133, 0x3233, 0x3333, 0x3433, 0x3533, 0x3633, 0x3733, 0x3833, 0x3933, 0x4133, 0x4233, 0x4333, 0x4433, 0x4533, 0x4633,
     0x3034, 0x3134, 0x3234, 0x3334, 0x3434, 0x3534, 0x3634, 0x3734, 0x3834, 0x3934, 0x4134, 0x4234, 0x4334, 0x4434, 0x4534, 0x4634,
     0x3035, 0x3135, 0x3235, 0x3335, 0x3435, 0x3535, 0x3635, 0x3735, 0x3835, 0x3935, 0x4135, 0x4235, 0x4335, 0x4435, 0x4535, 0x4635,
     0x3036, 0x3136, 0x3236, 0x3336, 0x3436, 0x3536, 0x3636, 0x3736, 0x3836, 0x3936, 0x4136, 0x4236, 0x4336, 0x4436, 0x4536, 0x4636,
     0x3037, 0x3137, 0x3237, 0x3337, 0x3437, 0x3537, 0x3637, 0x3737, 0x3837, 0x3937, 0x4137, 0x4237, 0x4337, 0x4437, 0x4537, 0x4637,
     0x3038, 0x3138, 0x3238, 0x3338, 0x3438, 0x3538, 0x3638, 0x3738, 0x3838, 0x3938, 0x4138, 0x4238, 0x4338, 0x4438, 0x4538, 0x4638,
     0x3039, 0x3139, 0x3239, 0x3339, 0x3439, 0x3539, 0x3639, 0x3739, 0x3839, 0x3939, 0x4139, 0x4239, 0x4339, 0x4439, 0x4539, 0x4639,
     0x3041, 0x3141, 0x3241, 0x3341, 0x3441, 0x3541, 0x3641, 0x3741, 0x3841, 0x3941, 0x4141, 0x4241, 0x4341, 0x4441, 0x4541, 0x4641,
     0x3042, 0x3142, 0x3242, 0x3342, 0x3442, 0x3542, 0x3642, 0x3742, 0x3842, 0x3942, 0x4142, 0x4242, 0x4342, 0x4442, 0x4542, 0x4642,
     0x3043, 0x3143, 0x3243, 0x3343, 0x3443, 0x3543, 0x3643, 0x3743, 0x3843, 0x3943, 0x4143, 0x4243, 0x4343, 0x4443, 0x4543, 0x4643,
     0x3044, 0x3144, 0x3244, 0x3344, 0x3444, 0x3544, 0x3644, 0x3744, 0x3844, 0x3944, 0x4144, 0x4244, 0x4344, 0x4444, 0x4544, 0x4644,
     0x3045, 0x3145, 0x3245, 0x3345, 0x3445, 0x3545, 0x3645, 0x3745, 0x3845, 0x3945, 0x4145, 0x4245, 0x4345, 0x4445, 0x4545, 0x4645,
     0x3046, 0x3146, 0x3246, 0x3346, 0x3446, 0x3546, 0x3646, 0x3746, 0x3846, 0x3946, 0x4146, 0x4246, 0x4346, 0x4446, 0x4546, 0x4646]"

text \<open>Each entry is stored with its low byte first.\<close>

definition htoa_entry :: "byte \<Rightarrow> cstr" where
  "htoa_entry b = (let w = htoa_lut256 ! unat b in [ucast w, ucast (drop_bit 8 w)])"

text \<open>The loop takes eight bytes each time and counts the length down; it starts with a multiple of eight.\<close>

fun dap_htoa64 :: "byte list \<Rightarrow> cstr" where
  "dap_htoa64 bs = (if bs = [] then [] else concat (map htoa_entry (take 8 bs)) @ dap_htoa64 (drop 8 bs))"

declare dap_htoa64.simps [simp del]

definition bin2hex_digits :: cstr where "bin2hex_digits = ascii ''0123456789ABCDEF''"

definition dap_bin2hex :: "byte list \<Rightarrow> cstr" where
  "dap_bin2hex bs = concat (map (\<lambda>b. [bin2hex_digits ! unat (drop_bit 4 b), bin2hex_digits ! unat (b AND 0x0f)]) bs)"

text \<open>What a character counts for: nothing is refused, and the arithmetic is that of \<open>char\<close>.\<close>

definition hex_char :: "byte \<Rightarrow> byte" where
  "hex_char c = (if (0x61 :: byte) <=s c then c - 0x61 + 10 else if 0x41 <=s c then c - 0x41 + 10 else c - 0x30)"

fun hex2bin_pairs :: "cstr \<Rightarrow> byte list" where
  "hex2bin_pairs (a # b # s) = (push_bit 4 (hex_char a) + hex_char b) # hex2bin_pairs s"
| "hex2bin_pairs s = []"

text \<open>The text of an odd length has a first digit of its own.\<close>

definition dap_hex2bin :: "cstr \<Rightarrow> byte list \<times> nat" where
  "dap_hex2bin s =
     (if odd (length s) then hex_char (hd s) # hex2bin_pairs (tl s) else hex2bin_pairs s, length s)"

section \<open>Base 58\<close>

definition DAP_ENC_BASE58_ENCODE_SIZE :: "nat \<Rightarrow> nat" where
  "DAP_ENC_BASE58_ENCODE_SIZE n = 137 * n div 100 + 2"

definition DAP_ENC_BASE58_DECODE_SIZE :: "nat \<Rightarrow> nat" where
  "DAP_ENC_BASE58_DECODE_SIZE n = 2 * n + 1"

definition c_b58digits_ordered :: cstr where
  "c_b58digits_ordered = ascii ''123456789ABCDEFGHJKLMNPQRSTUVWXYZabcdefghijkmnopqrstuvwxyz''"

definition c_b58digits_map :: "int list" where
  "c_b58digits_map =
    [- 1, - 1, - 1, - 1, - 1, - 1, - 1, - 1, - 1, - 1, - 1, - 1, - 1, - 1, - 1, - 1,
     - 1, - 1, - 1, - 1, - 1, - 1, - 1, - 1, - 1, - 1, - 1, - 1, - 1, - 1, - 1, - 1,
     - 1, - 1, - 1, - 1, - 1, - 1, - 1, - 1, - 1, - 1, - 1, - 1, - 1, - 1, - 1, - 1,
     - 1, 0, 1, 2, 3, 4, 5, 6, 7, 8, - 1, - 1, - 1, - 1, - 1, - 1,
     - 1, 9, 10, 11, 12, 13, 14, 15, 16, - 1, 17, 18, 19, 20, 21, - 1,
     22, 23, 24, 25, 26, 27, 28, 29, 30, 31, 32, - 1, - 1, - 1, - 1, - 1,
     - 1, 33, 34, 35, 36, 37, 38, 39, 40, 41, 42, 43, - 1, 44, 45, 46,
     47, 48, 49, 50, 51, 52, 53, 54, 55, 56, 57, - 1, - 1, - 1, - 1, - 1]"

text \<open>
  A byte enters the number: the loop multiplies the digits by 256 and adds, from the last one down to position \<open>high\<close>
  and on while there is a carry.  The result is the buffer and where the loop stopped.
\<close>

function enc_carry :: "byte list \<Rightarrow> int \<Rightarrow> int \<Rightarrow> nat \<Rightarrow> (byte list \<times> int) res" where
  "enc_carry buf j high carry =
     (if high < j \<or> carry \<noteq> 0
      then if j < 0 \<or> int (length buf) \<le> j then Inl OutOfBounds
           else let c = carry + 256 * unat (buf ! nat j) in
             enc_carry (buf[nat j := word_of_nat (c mod 58)]) (j - 1) high (c div 58)
      else Inr (buf, j))"
  by pat_completeness auto
termination by (relation "measure (\<lambda>(buf, j, high, carry). nat (j + 1))") auto

declare enc_carry.simps [simp del]

fun enc_loop :: "byte list \<Rightarrow> int \<Rightarrow> byte list \<Rightarrow> byte list res" where
  "enc_loop buf high [] = Inr buf"
| "enc_loop buf high (b # bs) = bindE (enc_carry buf (int (length buf) - 1) high (unat b)) (\<lambda>(buf, j). enc_loop buf j bs)"

text \<open>The result is the returned size and the text, if one was written; it is followed by a NUL.\<close>

definition dap_enc_base58_encode :: "byte list \<Rightarrow> (nat \<times> cstr option) res" where
  "dap_enc_base58_encode a_in =
     (let zcount = length (takeWhile (\<lambda>b. b = 0) a_in);
          size = (length a_in - zcount) * 138 div 100 + 1 in
      bindE (enc_loop (replicate size 0) (int size - 1) (drop zcount a_in)) (\<lambda>buf.
      let j = length (takeWhile (\<lambda>d. d = 0) buf) in
      if DAP_ENC_BASE58_ENCODE_SIZE (length a_in) \<le> zcount + size - j then Inr (zcount + size - j + 1, None)
      else let out = replicate zcount 0x31 @ map (\<lambda>d. c_b58digits_ordered ! unat d) (drop j buf) in
        Inr (length out, Some out)))"

definition dap_enc_base58_encode_to_str :: "byte list \<Rightarrow> cstr option res" where
  "dap_enc_base58_encode_to_str a_in =
     bindE (dap_enc_base58_encode a_in) (\<lambda>(l_size, out). Inr (if l_size = 0 then None else case out of None \<Rightarrow> Some [] | Some s \<Rightarrow> Some s))"

definition dap_enc_base58_encode_hash_to_str :: "byte list \<Rightarrow> cstr option res" where
  "dap_enc_base58_encode_hash_to_str raw = dap_enc_base58_encode_to_str (take 32 raw)"

text \<open>A digit enters the number of 32-bit parts, the last part first.\<close>

definition dec_digit :: "u32 list \<Rightarrow> u32 \<Rightarrow> u32 list \<times> u32" where
  "dec_digit l_outi c =
     foldr (\<lambda>o1 (acc, c). let t = (ucast o1 :: u64) * 58 + ucast c in
       (ucast (t AND 0xffffffff) # acc, ucast (drop_bit 32 (t AND 0x3f00000000)))) l_outi ([], c)"

text \<open>\<open>None\<close> is the returned 0 with nothing written.\<close>

fun dec_loop :: "u32 \<Rightarrow> u32 list \<Rightarrow> cstr \<Rightarrow> u32 list option" where
  "dec_loop zeromask l_outi [] = Some l_outi"
| "dec_loop zeromask l_outi (ch # s) =
     (if ch AND 0x80 \<noteq> 0 then None
      else let d = c_b58digits_map ! unat ch in
        if d = - 1 then None
        else let (o1, c) = dec_digit l_outi (word_of_int d) in
          if c \<noteq> 0 then None
          else if o1 ! 0 AND zeromask \<noteq> 0 then None
          else dec_loop zeromask o1 s)"

definition part_bytes :: "u32 \<Rightarrow> byte list" where
  "part_bytes w = [ucast (drop_bit 24 w), ucast (drop_bit 16 w), ucast (drop_bit 8 w), ucast w]"

definition dec_bytes :: "nat \<Rightarrow> u32 list \<Rightarrow> byte list" where
  "dec_bytes bytesleft l_outi =
     (if bytesleft = 0 then concat (map part_bytes l_outi)
      else drop (4 - bytesleft) (part_bytes (l_outi ! 0)) @ concat (map part_bytes (tl l_outi)))"

text \<open>The bytes that are written, which a NUL follows; their number is returned.\<close>

definition dap_enc_base58_decode :: "cstr \<Rightarrow> byte list option" where
  "dap_enc_base58_decode a_in =
     (let l_out_size_max = DAP_ENC_BASE58_DECODE_SIZE (length a_in);
          l_outi_size = (l_out_size_max + 3) div 4;
          bytesleft = l_out_size_max mod 4;
          zeromask = (if bytesleft \<noteq> 0 then push_bit (bytesleft * 8) 0xffffffff else 0);
          zerocount = length (takeWhile (\<lambda>c. c = 0x31) a_in) in
      case dec_loop zeromask (replicate l_outi_size 0) (drop zerocount a_in) of None \<Rightarrow> None
      | Some l_outi \<Rightarrow>
          (let out = dec_bytes bytesleft l_outi;
               i = length (takeWhile (\<lambda>b. b = 0) out) in
           if i < l_out_size_max \<and> i < zerocount then None
           else Some (replicate zerocount 0 @ drop i out)))"

text \<open>From hexadecimal to base 58 and back; \<open>0x\<close> comes first.\<close>

definition dap_enc_base58_from_hex_str_to_str :: "cstr \<Rightarrow> cstr option res" where
  "dap_enc_base58_from_hex_str_to_str a_in_str =
     (if length a_in_str < 3 \<or> take 2 a_in_str \<noteq> ascii ''0x'' then Inr None
      else let (bs, len) = dap_hex2bin (drop 2 a_in_str) in dap_enc_base58_encode_to_str (take (len div 2) bs))"

definition dap_enc_base58_to_hex_str_from_str :: "cstr \<Rightarrow> cstr option" where
  "dap_enc_base58_to_hex_str_from_str a_in_str =
     (if length a_in_str < 8 then None
      else case dap_enc_base58_decode a_in_str of None \<Rightarrow> None
        | Some bs \<Rightarrow> if length bs < 8 \<or> length bs mod 8 \<noteq> 0 then None else Some (ascii ''0x'' @ dap_htoa64 bs))"

end
