(* ===== verification/Base58Claims.thy ===== *)
theory Base58Claims
  imports Base58
begin

text \<open>
  Both directions of base 58 against the numbers their buffers stand for, and what follows: every byte string is encoded
  within the buffer and decoded to itself.
\<close>

section \<open>Numbers as lists of digits\<close>

text \<open>The digits come least significant first; a list is multiplied by \<open>f\<close> with a carry.\<close>

fun leval :: "nat \<Rightarrow> nat list \<Rightarrow> nat" where
  "leval b [] = 0"
| "leval b (d # ds) = d + b * leval b ds"

fun mulc :: "nat \<Rightarrow> nat \<Rightarrow> nat list \<Rightarrow> nat \<Rightarrow> nat list" where
  "mulc f b [] c = []"
| "mulc f b (d # ds) c = ((c + f * d) mod b) # mulc f b ds ((c + f * d) div b)"

fun cout :: "nat \<Rightarrow> nat \<Rightarrow> nat list \<Rightarrow> nat \<Rightarrow> nat" where
  "cout f b [] c = c"
| "cout f b (d # ds) c = cout f b ds ((c + f * d) div b)"

lemma length_mulc [simp]: "length (mulc f b ds c) = length ds"
  by (induction ds arbitrary: c) auto

lemma mulc_less: "0 < b \<Longrightarrow> d \<in> set (mulc f b ds c) \<Longrightarrow> d < b"
  by (induction ds arbitrary: c) auto

lemma mulc_zeros: "\<forall>d \<in> set ds. d = 0 \<Longrightarrow> mulc f b ds 0 = ds"
  by (induction ds) auto

lemma mulc_append:
  "mulc f b (ds @ es) c = mulc f b ds c @ mulc f b es (cout f b ds c)" "cout f b (ds @ es) c = cout f b es (cout f b ds c)"
  by (induction ds arbitrary: c) auto

lemma leval_mulc: "leval b (mulc f b ds c) + b ^ length ds * cout f b ds c = f * leval b ds + c"
proof (induction ds arbitrary: c)
  case (Cons d ds)
  have "leval b (mulc f b (d # ds) c) + b ^ length (d # ds) * cout f b (d # ds) c =
      (c + f * d) mod b + b * (leval b (mulc f b ds ((c + f * d) div b)) + b ^ length ds * cout f b ds ((c + f * d) div b))"
    by (simp add: algebra_simps)
  also have "\<dots> = (c + f * d) mod b + b * ((c + f * d) div b) + b * (f * leval b ds)"
    unfolding Cons.IH by (simp add: algebra_simps)
  also have "\<dots> = f * leval b (d # ds) + c" by (simp add: algebra_simps)
  finally show ?case .
qed simp

lemma leval_mulc_fits:
  assumes "f * leval b ds + c < b ^ length ds"
  shows "cout f b ds c = 0 \<and> leval b (mulc f b ds c) = f * leval b ds + c"
proof -
  have "cout f b ds c = 0"
  proof (rule ccontr)
    assume "cout f b ds c \<noteq> 0"
    then have "b ^ length ds \<le> b ^ length ds * cout f b ds c" by simp
    then show False using leval_mulc [of b f ds c] assms by linarith
  qed
  then show ?thesis using leval_mulc [of b f ds c] by simp
qed

lemma leval_append: "leval b (xs @ ys) = leval b xs + b ^ length xs * leval b ys"
  by (induction xs) (simp_all add: algebra_simps)

lemma leval_zeros: "leval b ds = 0 \<longleftrightarrow> (\<forall>d \<in> set ds. d = 0)" if "0 < b"
  using that by (induction ds) auto

lemma leval_less: "\<forall>d \<in> set ds. d < b \<Longrightarrow> leval b ds < b ^ length ds"
proof (induction ds)
  case (Cons d ds)
  then have "leval b ds + 1 \<le> b ^ length ds" by (simp add: Suc_le_eq)
  then have "b * (leval b ds + 1) \<le> b * b ^ length ds" by (rule mult_le_mono2)
  moreover have "d < b" using Cons.prems by simp
  ultimately show ?case by (simp add: algebra_simps)
qed simp

lemma leval_ge: "0 < b \<Longrightarrow> ds \<noteq> [] \<Longrightarrow> last ds \<noteq> 0 \<Longrightarrow> b ^ (length ds - 1) \<le> leval b ds"
proof (induction ds)
  case (Cons d ds)
  show ?case
  proof (cases "ds = []")
    case False
    then have "b ^ (length ds - 1) \<le> leval b ds" using Cons by simp
    then have "b * b ^ (length ds - 1) \<le> b * leval b ds" by (rule mult_le_mono2)
    then have "b ^ Suc (length ds - 1) \<le> d + b * leval b ds" unfolding power_Suc by (rule trans_le_add2)
    then show ?thesis using False by (simp del: power_Suc)
  qed (use Cons in simp)
qed simp

text \<open>Without leading zeros the digits are determined by the number.\<close>

definition canonical :: "nat list \<Rightarrow> bool" where
  "canonical ds \<longleftrightarrow> ds = [] \<or> last ds \<noteq> 0"

lemma leval_inj:
  assumes "\<forall>d \<in> set xs. d < b" "\<forall>d \<in> set ys. d < b" "canonical xs" "canonical ys" "leval b xs = leval b ys"
  shows "xs = ys"
  using assms
proof (induction xs arbitrary: ys)
  case Nil
  show ?case
  proof (cases ys)
    case (Cons y zs)
    then have b: "0 < b" using Nil.prems(2) by auto
    have "b ^ (length ys - 1) \<le> leval b ys" using Nil.prems(4) Cons b by (intro leval_ge) (auto simp: canonical_def)
    then show ?thesis using Nil.prems(5) b by simp
  qed simp
next
  case (Cons x xs)
  have b: "0 < b" using Cons.prems(1) by auto
  show ?case
  proof (cases ys)
    case Nil
    have "b ^ (length (x # xs) - 1) \<le> leval b (x # xs)" using Cons.prems(3) b by (intro leval_ge) (auto simp: canonical_def)
    then show ?thesis using Cons.prems(5) Nil b by simp
  next
    case (Cons y zs)
    have xy: "x < b" "y < b" using Cons.prems(1,2) Cons by auto
    have eq: "x + b * leval b xs = y + b * leval b zs" using Cons.prems(5) Cons by simp
    then have "(x + b * leval b xs) mod b = (y + b * leval b zs) mod b" by (rule arg_cong)
    then have "x = y" using xy by simp
    moreover have "leval b xs = leval b zs" using eq \<open>x = y\<close> b by simp
    moreover have "canonical xs" "canonical zs" using Cons.prems(3,4) Cons by (auto simp: canonical_def split: if_splits)
    ultimately show ?thesis using Cons.IH [of zs] Cons.prems(1,2) Cons by simp
  qed
qed

lemma leval_rev_snoc: "leval b (rev ds @ [d]) = leval b (rev ds) + b ^ length ds * d"
  by (simp add: leval_append)

section \<open>Encoding\<close>

definition digits_of :: "byte list \<Rightarrow> nat list" where
  "digits_of buf = map unat (rev buf)"

lemma digits_of_simps [simp]:
  "digits_of [] = []" "digits_of (xs @ ys) = digits_of ys @ digits_of xs" "length (digits_of xs) = length xs" "digits_of (x # xs) = digits_of xs @ [unat x]"
  by (simp_all add: digits_of_def)

text \<open>
  The inner loop on the positions \<open>0\<close> to \<open>k - 1\<close>, where what is in front of \<open>high\<close> is still zero: all
  of them are multiplied, though the loop stops early.
\<close>

lemma enc_carry_ok:
  assumes "\<forall>d \<in> set ds. unat d < 58" "cout 256 58 (digits_of ds) c = 0" "\<forall>i < length ds. int i \<le> high \<longrightarrow> ds ! i = 0" "- 1 \<le> high"
  shows "\<exists>ds' j. enc_carry (ds @ rest) (int (length ds) - 1) high c = Inr (ds' @ rest, j) \<and> length ds' = length ds \<and>
    digits_of ds' = mulc 256 58 (digits_of ds) c \<and> - 1 \<le> j \<and> j < int (length ds) \<and> (\<forall>i < length ds. int i \<le> j \<longrightarrow> ds' ! i = 0)"
  using assms
proof (induction ds arbitrary: c rest rule: rev_induct)
  case Nil
  then show ?case by (intro exI [of _ "[]"] exI [of _ "- 1"]) (simp add: enc_carry.simps)
next
  case (snoc d ds)
  let ?j = "int (length ds)"
  show ?case
  proof (cases "high < ?j \<or> c \<noteq> 0")
    case False
    then have "\<forall>i < length (ds @ [d]). (ds @ [d]) ! i = 0" using snoc.prems(3) by auto
    then have z: "\<forall>x \<in> set (ds @ [d]). x = 0" by (metis in_set_conv_nth)
    then have "mulc 256 58 (digits_of (ds @ [d])) 0 = digits_of (ds @ [d])" by (intro mulc_zeros) (auto simp: digits_of_def)
    moreover have "\<forall>i < length (ds @ [d]). (ds @ [d]) ! i = 0" using z by (metis nth_mem)
    ultimately show ?thesis using False
      by (intro exI [of _ "ds @ [d]"] exI [of _ ?j]) (simp add: enc_carry.simps)
  next
    case True
    let ?c = "c + 256 * unat d"
    let ?d = "word_of_nat (?c mod 58) :: byte"
    have step: "enc_carry ((ds @ [d]) @ rest) (int (length (ds @ [d])) - 1) high c = enc_carry (ds @ ?d # rest) (int (length ds) - 1) high (?c div 58)"
      by (subst enc_carry.simps) (use True in \<open>simp add: nth_append list_update_append Let_def\<close>)
    have "cout 256 58 (digits_of ds) (?c div 58) = 0" using snoc.prems(2) by simp
    moreover have "\<forall>i < length ds. int i \<le> high \<longrightarrow> ds ! i = 0"
    proof (intro allI impI)
      fix i assume "i < length ds" "int i \<le> high"
      then show "ds ! i = 0" using snoc.prems(3) [rule_format, of i] by (simp add: nth_append)
    qed
    ultimately obtain ds' j where IH: "enc_carry (ds @ ?d # rest) (int (length ds) - 1) high (?c div 58) = Inr (ds' @ ?d # rest, j)"
      "length ds' = length ds" "digits_of ds' = mulc 256 58 (digits_of ds) (?c div 58)" "- 1 \<le> j" "j < int (length ds)" "\<forall>i < length ds. int i \<le> j \<longrightarrow> ds' ! i = 0"
      using snoc.IH [of "?c div 58" "?d # rest"] snoc.prems(1,4) by auto
    have "unat ?d = ?c mod 58" by (simp add: unat_of_nat)
    then show ?thesis using IH step
      by (intro exI [of _ "ds' @ [?d]"] exI [of _ j]) (auto simp: nth_append)
  qed
qed

definition number :: "nat \<Rightarrow> nat \<Rightarrow> nat list \<Rightarrow> nat" where
  "number b a ds = foldl (\<lambda>a d. a * b + d) a ds"

lemma number_simps [simp]: "number b a [] = a" "number b a (d # ds) = number b (a * b + d) ds" "number b a (xs @ ys) = number b (number b a xs) ys"
  by (simp_all add: number_def)

lemma number_ge: "0 < b \<Longrightarrow> a \<le> number b a ds"
proof (induction ds arbitrary: a)
  case (Cons d ds)
  have "a \<le> a * b + d" using Cons.prems by (metis Suc_leI le_add1 mult_le_mono2 mult.right_neutral One_nat_def le_trans)
  then show ?case using Cons by (metis le_trans number_simps(2))
qed simp

lemma number_leval: "number b a ds = leval b (rev ds) + b ^ length ds * a"
  by (induction ds arbitrary: a) (simp_all add: leval_append algebra_simps)

lemma enc_loop_ok:
  assumes "\<forall>d \<in> set ds. unat d < 58" "\<forall>i < length ds. int i \<le> high \<longrightarrow> ds ! i = 0" "- 1 \<le> high"
    and "number 256 (leval 58 (digits_of ds)) (map unat bs) < 58 ^ length ds"
  shows "\<exists>ds'. enc_loop ds high bs = Inr ds' \<and> length ds' = length ds \<and> (\<forall>d \<in> set ds'. unat d < 58) \<and>
    leval 58 (digits_of ds') = number 256 (leval 58 (digits_of ds)) (map unat bs)"
  using assms
proof (induction bs arbitrary: ds high)
  case (Cons b bs)
  have "256 * leval 58 (digits_of ds) + unat b \<le> number 256 (leval 58 (digits_of ds)) (map unat (b # bs))"
    using number_ge [of 256 "leval 58 (digits_of ds) * 256 + unat b" "map unat bs"] by (simp add: mult.commute)
  then have fits: "256 * leval 58 (digits_of ds) + unat b < 58 ^ length (digits_of ds)" using Cons.prems(4) by simp
  note m = leval_mulc_fits [OF fits]
  obtain ds' j where step: "enc_carry (ds @ []) (int (length ds) - 1) high (unat b) = Inr (ds' @ [], j)" "length ds' = length ds"
    "digits_of ds' = mulc 256 58 (digits_of ds) (unat b)" "- 1 \<le> j" "\<forall>i < length ds. int i \<le> j \<longrightarrow> ds' ! i = 0"
    using enc_carry_ok [OF Cons.prems(1) m [THEN conjunct1] Cons.prems(2,3), of "[]"] by blast
  have "unat d < 58" if "d \<in> set ds'" for d
  proof -
    have "unat d \<in> set (digits_of ds')" using that by (simp add: digits_of_def)
    then show ?thesis unfolding step(3) by (rule mulc_less [rotated]) simp
  qed
  moreover have v: "leval 58 (digits_of ds') = leval 58 (digits_of ds) * 256 + unat b" using m step(3) by simp
  ultimately show ?case using Cons.IH [of ds' j] step Cons.prems(4) by auto
qed auto

lemma byte_less: "unat (b :: byte) < 256"
  using unsigned_less [of b] by simp

text \<open>A byte string of \<open>m\<close> bytes needs at most \<open>137 m / 100 + 1\<close> digits.\<close>

lemma log_256_58: "256 ^ m < (58 :: nat) ^ (137 * m div 100 + 1)"
proof -
  let ?k = "137 * m div 100 + 1"
  have "137 * m < 100 * ?k" by simp
  then have "(58 :: nat) ^ (137 * m) < 58 ^ (100 * ?k)" by (simp add: power_strict_increasing_iff)
  moreover have "(256 ^ m) ^ 100 = ((256 :: nat) ^ 100) ^ m" by (simp only: power_mult [symmetric] mult.commute)
  moreover have "((256 :: nat) ^ 100) ^ m \<le> (58 ^ 137) ^ m" by (rule power_mono) simp_all
  moreover have "((58 :: nat) ^ 137) ^ m = 58 ^ (137 * m)" by (simp only: power_mult [symmetric])
  moreover have "(58 :: nat) ^ (100 * ?k) = (58 ^ ?k) ^ 100" by (simp only: power_mult [symmetric] mult.commute)
  ultimately have "((256 :: nat) ^ m) ^ 100 < (58 ^ ?k) ^ 100" by linarith
  then show ?thesis by (rule power_less_imp_less_base) simp
qed

definition b58_char :: "nat \<Rightarrow> byte" where
  "b58_char d = c_b58digits_ordered ! d"

lemma takeWhile_split: "takeWhile P xs @ drop (length (takeWhile P xs)) xs = xs"
  by (metis dropWhile_eq_drop takeWhile_dropWhile_id)

text \<open>Leading zeros are dropped without a change of the value.\<close>

definition strip :: "byte list \<Rightarrow> byte list" where
  "strip xs = drop (length (takeWhile (\<lambda>d. d = 0) xs)) xs"

lemma strip_value: "0 < b \<Longrightarrow> number b 0 (map unat (strip xs)) = leval b (digits_of xs)"
proof -
  assume b: "0 < b"
  let ?z = "takeWhile (\<lambda>d. d = 0) xs"
  have "leval b (digits_of xs) = leval b (digits_of (?z @ strip xs))" by (simp only: takeWhile_split strip_def)
  also have "\<dots> = leval b (rev (map unat (strip xs))) + b ^ length (strip xs) * leval b (digits_of ?z)"
    by (simp add: leval_append digits_of_def rev_map)
  also have "leval b (digits_of ?z) = 0"
    using b by (subst leval_zeros) (auto simp: digits_of_def dest: set_takeWhileD)
  finally show ?thesis by (simp add: number_leval)
qed

lemma strip_hd: "strip xs = [] \<or> hd (strip xs) \<noteq> 0"
proof (cases "strip xs")
  case (Cons y ys)
  then have "dropWhile (\<lambda>d. d = 0) xs = y # ys" by (simp add: dropWhile_eq_drop strip_def)
  then show ?thesis using Cons by (simp add: dropWhile_eq_Cons_conv)
qed simp

lemma strip_length: "length (takeWhile (\<lambda>d. d = 0) xs) + length (strip xs) = length xs"
  using length_takeWhile_le [of "\<lambda>d. d = 0" xs] by (simp add: strip_def)

text \<open>The text of a byte string: a 1 for each zero byte in front, then the digits of the rest.\<close>

lemma encode_text:
  assumes z_def: "z = length (takeWhile (\<lambda>b. b = 0) bs)"
  shows "\<exists>ds. dap_enc_base58_encode bs = Inr (z + length ds, Some (replicate z 0x31 @ map b58_char ds)) \<and> (\<forall>d \<in> set ds. d < 58) \<and>
    (ds = [] \<or> hd ds \<noteq> 0) \<and> number 58 0 ds = number 256 0 (map unat (drop z bs)) \<and> z + length ds + 2 \<le> DAP_ENC_BASE58_ENCODE_SIZE (length bs) + 1"
proof -
  let ?m = "length bs - z" and ?bs = "drop z bs"
  let ?size = "?m * 138 div 100 + 1"
  have z: "z \<le> length bs" unfolding z_def by (rule length_takeWhile_le)
  have v: "number 256 0 (map unat ?bs) < 256 ^ ?m"
    using leval_less [of "rev (map unat ?bs)" 256] byte_less by (simp add: number_leval)
  have "137 * ?m div 100 + 1 \<le> ?size" by (simp add: div_le_mono mult.commute)
  then have "(58 :: nat) ^ (137 * ?m div 100 + 1) \<le> 58 ^ ?size" by (rule power_increasing) simp
  with v log_256_58 [of ?m] have fits: "number 256 0 (map unat ?bs) < 58 ^ ?size" by linarith
  obtain size where size: "size = ?size" by simp
  have fits': "number 256 0 (map unat ?bs) < 58 ^ size" unfolding size by (rule fits)
  let ?zero = "replicate size (0 :: byte)"
  have z0: "leval 58 (digits_of ?zero) = 0" by (subst leval_zeros) (auto simp: digits_of_def)
  have "\<exists>buf. enc_loop ?zero (int size - 1) ?bs = Inr buf \<and> length buf = length ?zero \<and> (\<forall>d \<in> set buf. unat d < 58) \<and>
    leval 58 (digits_of buf) = number 256 (leval 58 (digits_of ?zero)) (map unat ?bs)"
    by (rule enc_loop_ok) (use fits' z0 in \<open>simp_all\<close>)
  then obtain buf where buf: "enc_loop ?zero (int size - 1) ?bs = Inr buf" "length buf = size" "\<forall>d \<in> set buf. unat d < 58"
    "leval 58 (digits_of buf) = number 256 0 (map unat ?bs)" using z0 by auto
  let ?j = "length (takeWhile (\<lambda>d. d = 0) buf)"
  let ?ds = "map unat (strip buf)"
  have num: "number 58 0 ?ds = number 256 0 (map unat ?bs)" using strip_value [of 58 buf] buf(4) by simp
  have hd: "?ds = [] \<or> hd ?ds \<noteq> 0" using strip_hd [of buf] by (cases "strip buf") (simp_all add: unat_eq_0)
  have len: "length ?ds \<le> 137 * ?m div 100 + 1"
  proof (cases "?ds = []")
    case False
    have "(58 :: nat) ^ (length ?ds - 1) \<le> leval 58 (rev ?ds)"
      using leval_ge [of 58 "rev ?ds"] hd False by (simp add: last_rev)
    also have "\<dots> = number 256 0 (map unat ?bs)" using num by (simp add: number_leval)
    also have "\<dots> < 58 ^ (137 * ?m div 100 + 1)" using v log_256_58 [of ?m] by linarith
    finally have "length ?ds - 1 < 137 * ?m div 100 + 1" by (rule power_less_imp_less_exp [rotated]) simp
    then show ?thesis by simp
  qed simp
  have room: "z + length ?ds + 1 \<le> DAP_ENC_BASE58_ENCODE_SIZE (length bs)"
  proof -
    have "z + 137 * ?m div 100 = (100 * z + 137 * ?m) div 100" by simp
    also have "\<dots> \<le> 137 * length bs div 100" by (rule div_le_mono) (use z in simp)
    finally show ?thesis using len by (simp add: DAP_ENC_BASE58_ENCODE_SIZE_def)
  qed
  have "z + size - ?j = z + length ?ds" using buf(2) strip_length [of buf] by simp
  then have "dap_enc_base58_encode bs = Inr (z + length ?ds, Some (replicate z 0x31 @ map b58_char ?ds))"
    using buf(1) room unfolding dap_enc_base58_encode_def z_def [symmetric] Let_def size [symmetric] by (simp add: b58_char_def o_def strip_def)
  moreover have "\<forall>d \<in> set ?ds. d < 58" using buf(3) set_drop_subset [of ?j buf] by (auto simp: strip_def)
  ultimately show ?thesis using hd num room by (intro exI [of _ ?ds]) (simp add: hd_map)
qed

section \<open>Decoding\<close>

definition parts_of :: "u32 list \<Rightarrow> nat list" where
  "parts_of l = map unat (rev l)"

lemma parts_of_simps [simp]: "parts_of [] = []" "parts_of (x # xs) = parts_of xs @ [unat x]" "length (parts_of l) = length l"
  by (simp_all add: parts_of_def)

lemma part_step:
  fixes a c :: u32
  assumes "unat c < 64" and t_def: "t = (ucast a :: u64) * 58 + ucast c"
  shows "unat (ucast (t AND 0xffffffff) :: u32) = (unat c + 58 * unat a) mod 2 ^ 32"
    "unat (ucast (drop_bit 32 (t AND 0x3f00000000)) :: u32) = (unat c + 58 * unat a) div 2 ^ 32"
    "(unat c + 58 * unat a) div 2 ^ 32 < 64"
proof -
  have a: "unat a < 2 ^ 32" using unsigned_less [of a] by simp
  have c: "unat c < 2 ^ 32" using unsigned_less [of c] by simp
  have up: "unat (ucast a :: u64) = unat a" "unat (ucast c :: u64) = unat c"
    using a c by (simp_all add: unsigned_ucast_eq take_bit_nat_eq_self)
  have t: "unat t = unat c + 58 * unat a"
    using a assms(1) unfolding t_def by (simp add: unat_word_ariths up)
  show lt: "(unat c + 58 * unat a) div 2 ^ 32 < 64" using a assms(1) by (simp add: div_less_iff_less_mult)
  have "(0xffffffff :: u64) = mask 32" by (simp add: mask_eq_exp_minus_1)
  then have "t AND 0xffffffff = take_bit 32 t" by (simp only: take_bit_eq_mask)
  moreover have "unat (ucast (take_bit 32 t) :: u32) = take_bit 32 (unat t)"
    by (simp only: unsigned_ucast_eq unsigned_take_bit_eq take_bit_take_bit) simp
  ultimately show "unat (ucast (t AND 0xffffffff) :: u32) = (unat c + 58 * unat a) mod 2 ^ 32"
    by (simp only: t take_bit_eq_mod)
  have "drop_bit 32 (t AND 0x3f00000000) = drop_bit 32 t AND drop_bit 32 0x3f00000000" by (rule drop_bit_and)
  also have "drop_bit 32 (0x3f00000000 :: u64) = mask 6" by (simp add: mask_eq_exp_minus_1)
  finally have "drop_bit 32 (t AND 0x3f00000000) = take_bit 6 (drop_bit 32 t)" by (simp add: take_bit_eq_mask)
  moreover have d: "unat (drop_bit 32 t) = (unat c + 58 * unat a) div 2 ^ 32" unfolding unat_drop_bit_eq t by (rule drop_bit_eq_div)
  ultimately have "unat (drop_bit 32 (t AND 0x3f00000000)) = (unat c + 58 * unat a) div 2 ^ 32"
    using lt by (simp add: unsigned_take_bit_eq take_bit_nat_eq_self)
  then show "unat (ucast (drop_bit 32 (t AND 0x3f00000000)) :: u32) = (unat c + 58 * unat a) div 2 ^ 32"
    using lt by (simp add: unsigned_ucast_eq take_bit_nat_eq_self)
qed

lemma dec_digit_ok:
  assumes "unat c < 64"
  shows "parts_of (fst (dec_digit l c)) = mulc 58 (2 ^ 32) (parts_of l) (unat c) \<and>
    unat (snd (dec_digit l c)) = cout 58 (2 ^ 32) (parts_of l) (unat c) \<and> unat (snd (dec_digit l c)) < 64 \<and> length (fst (dec_digit l c)) = length l"
proof (induction l)
  case Nil
  then show ?case using assms by (simp add: dec_digit_def)
next
  case (Cons a l)
  obtain acc c1 where 1: "dec_digit l c = (acc, c1)" by fastforce
  let ?t = "(ucast a :: u64) * 58 + ucast c1"
  have 2: "dec_digit (a # l) c = (ucast (?t AND 0xffffffff) # acc, ucast (drop_bit 32 (?t AND 0x3f00000000)))"
    using 1 by (simp add: dec_digit_def Let_def)
  have "unat c1 < 64" using Cons.IH 1 by simp
  note part_step [OF this refl, of a]
  then show ?case using Cons.IH unfolding 1 2 by (simp add: mulc_append)
qed

text \<open>The mask says nothing while the first part has as many bits as the mask leaves.\<close>

lemma and_mask_zero: "unat (w :: u32) < 2 ^ k \<Longrightarrow> w AND push_bit k 0xffffffff = 0"
proof -
  assume "unat w < 2 ^ k"
  then have w: "take_bit k w = w" by (metis unsigned_take_bit_eq take_bit_nat_eq_self unsigned_word_eqI)
  have "\<not> (bit w n \<and> bit (push_bit k (0xffffffff :: u32)) n)" for n
    using bit_take_bit_iff [of k w n] w by (auto simp: bit_push_bit_iff)
  then show ?thesis by (intro bit_eqI) (auto simp: bit_and_iff)
qed

lemma parts_first:
  assumes "l \<noteq> []" "leval B (parts_of l) < B ^ (length l - 1) * x"
  shows "unat (l ! 0) < x"
proof -
  obtain a l' where l: "l = a # l'" using assms(1) by (cases l) auto
  have "leval B (parts_of l) = leval B (parts_of l') + B ^ length l' * unat a" by (simp add: l leval_append)
  moreover have "leval B (parts_of l) < B ^ length l' * x" using assms(2) l by simp
  ultimately have "B ^ length l' * unat a < B ^ length l' * x" by linarith
  then have "\<not> x \<le> unat a" by (meson mult_le_mono2 not_le)
  then show ?thesis using l by simp
qed

lemma c_b58digits_ordered_bytes:
  "c_b58digits_ordered = [0x31, 0x32, 0x33, 0x34, 0x35, 0x36, 0x37, 0x38, 0x39, 0x41, 0x42, 0x43, 0x44, 0x45, 0x46, 0x47, 0x48, 0x4a, 0x4b, 0x4c,
    0x4d, 0x4e, 0x50, 0x51, 0x52, 0x53, 0x54, 0x55, 0x56, 0x57, 0x58, 0x59, 0x5a, 0x61, 0x62, 0x63, 0x64, 0x65, 0x66, 0x67, 0x68, 0x69, 0x6a,
    0x6b, 0x6d, 0x6e, 0x6f, 0x70, 0x71, 0x72, 0x73, 0x74, 0x75, 0x76, 0x77, 0x78, 0x79, 0x7a]"
  by (simp add: c_b58digits_ordered_def ascii_def)

lemma b58_tables:
  assumes "d < 58"
  shows "b58_char d AND 0x80 = 0" "c_b58digits_map ! unat (b58_char d) = int d" "b58_char d = 0x31 \<longleftrightarrow> d = 0"
proof -
  have "list_all2 (\<lambda>d c. c AND 0x80 = 0 \<and> c_b58digits_map ! unat c = d \<and> (c = 0x31 \<longleftrightarrow> d = 0)) (map int [0..<58]) c_b58digits_ordered"
    unfolding c_b58digits_ordered_bytes c_b58digits_map_def by (simp add: upt_rec)
  then have "(\<lambda>d c. c AND 0x80 = 0 \<and> c_b58digits_map ! unat c = d \<and> (c = 0x31 \<longleftrightarrow> d = 0)) (map int [0..<58] ! d) (c_b58digits_ordered ! d)"
    by (rule list_all2_nthD) (use assms in simp)
  then show "b58_char d AND 0x80 = 0" "c_b58digits_map ! unat (b58_char d) = int d" "b58_char d = 0x31 \<longleftrightarrow> d = 0"
    using assms by (simp_all add: b58_char_def)
qed

lemma dec_loop_ok:
  assumes "\<forall>d \<in> set ds. d < 58" "l \<noteq> []" "x \<le> 2 ^ 32" "\<forall>w. unat w < x \<longrightarrow> w AND zm = 0"
    and "number 58 (leval (2 ^ 32) (parts_of l)) ds < (2 ^ 32) ^ (length l - 1) * x"
  shows "\<exists>l'. dec_loop zm l (map b58_char ds) = Some l' \<and> length l' = length l \<and>
    leval (2 ^ 32) (parts_of l') = number 58 (leval (2 ^ 32) (parts_of l)) ds"
  using assms
proof (induction ds arbitrary: l)
  case (Cons d ds)
  let ?v = "leval (2 ^ 32) (parts_of l)"
  have d: "d < 58" using Cons.prems(1) by simp
  have c: "unat (word_of_int (int d) :: u32) = d" using d by (simp add: unat_of_nat)
  have "58 * ?v + d \<le> number 58 ?v (d # ds)" using number_ge [of 58 "?v * 58 + d" ds] by (simp add: mult.commute)
  then have lt: "58 * ?v + d < (2 ^ 32) ^ (length l - 1) * x" using Cons.prems(5) by linarith
  also have "\<dots> \<le> (2 ^ 32) ^ (length l - 1) * 2 ^ 32" by (rule mult_le_mono2) (rule Cons.prems(3))
  also have "\<dots> = (2 ^ 32) ^ length (parts_of l)" using Cons.prems(2) by (cases l) simp_all
  finally have fits: "58 * ?v + d < (2 ^ 32) ^ length (parts_of l)" .
  note m = leval_mulc_fits [OF fits]
  obtain l1 c1 where l1: "dec_digit l (word_of_int (int d)) = (l1, c1)" by fastforce
  have "unat (word_of_int (int d) :: u32) < 64" using c d by simp
  note dd = dec_digit_ok [OF this, of l, unfolded l1 c]
  have v1: "leval (2 ^ 32) (parts_of l1) = ?v * 58 + d" using dd m by (simp add: mult.commute)
  have c1: "c1 = 0" using dd m by (simp add: unsigned_eq_0_iff)
  have ne: "l1 \<noteq> []" "length l1 = length l" using dd Cons.prems(2) by auto
  have "unat (l1 ! 0) < x" by (rule parts_first [OF ne(1), where B = "2 ^ 32"]) (use lt v1 ne(2) in \<open>simp add: mult.commute\<close>)
  then have z: "l1 ! 0 AND zm = 0" using Cons.prems(4) by blast
  have "\<exists>l'. dec_loop zm l1 (map b58_char ds) = Some l' \<and> length l' = length l1 \<and>
    leval (2 ^ 32) (parts_of l') = number 58 (leval (2 ^ 32) (parts_of l1)) ds"
    by (rule Cons.IH) (use Cons.prems ne v1 in \<open>simp_all\<close>)
  moreover have "dec_loop zm l (map b58_char (d # ds)) = dec_loop zm l1 (map b58_char ds)"
    using b58_tables [OF d] l1 c1 z by (simp add: Let_def)
  ultimately show ?case using v1 ne by simp
qed simp

text \<open>The bytes of the parts.\<close>

lemma part_bytes_digits:
  "map unat (rev (part_bytes w)) = [unat w mod 256, unat w div 256 mod 256, unat w div 65536 mod 256, unat w div 16777216 mod 256]"
proof -
  have "unat (ucast v :: byte) = unat v mod 256" for v :: u32 by (simp add: unsigned_ucast_eq take_bit_eq_mod)
  then have d: "unat (ucast (drop_bit k w) :: byte) = unat w div 2 ^ k mod 256" for k
    unfolding drop_bit_eq_div [of k "unat w", symmetric] unat_drop_bit_eq [symmetric] .
  show ?thesis unfolding part_bytes_def using d [of 0] by (simp add: d del: drop_bit_eq_div)
qed

lemma part_bytes_value: "leval 256 (map unat (rev (part_bytes w))) = unat w"
proof -
  let ?a = "unat w div 256" and ?b = "unat w div 65536" and ?c = "unat w div 16777216"
  have "unat w < 2 ^ 32" using unsigned_less [of w] by simp
  then have "?c mod 256 = ?c" by simp
  moreover have "?b = ?a div 256" "?c = ?b div 256" by (simp_all add: div_mult2_eq [symmetric])
  ultimately have "unat w mod 256 + 256 * ?a = unat w" "?a mod 256 + 256 * ?b = ?a" "?b mod 256 + 256 * ?c = ?b" "?c mod 256 = ?c"
    by simp_all
  moreover have "x + 256 * (y + 256 * (u + 256 * (v + 256 * 0))) = n" if "x + 256 * a = n" "y + 256 * b = a" "u + 256 * c = b" "v = c" for x y u v n a b c :: nat
    using that by simp
  ultimately show ?thesis unfolding part_bytes_digits leval.simps by blast
qed

lemma concat_part_bytes:
  "leval 256 (digits_of (concat (map part_bytes l))) = leval (2 ^ 32) (parts_of l) \<and> length (concat (map part_bytes l)) = 4 * length l"
proof (induction l)
  case (Cons a l)
  have "(256 :: nat) ^ (4 * length l) = (2 ^ 32) ^ length l" by (simp add: power_mult)
  moreover have "leval 256 (digits_of (part_bytes a)) = unat a" using part_bytes_value by (simp add: digits_of_def)
  ultimately show ?case using Cons by (simp add: leval_append part_bytes_def [THEN arg_cong, of length])
qed simp

lemma dec_bytes_value:
  assumes "l \<noteq> []" "r = 1 \<or> r = 3" "unat (l ! 0) < 256 ^ r"
  shows "leval 256 (digits_of (dec_bytes r l)) = leval (2 ^ 32) (parts_of l) \<and> length (dec_bytes r l) = r + 4 * (length l - 1)"
proof -
  obtain a l' where l: "l = a # l'" using assms(1) by (cases l) auto
  let ?p = "drop (4 - r) (part_bytes a)"
  have p: "map unat (rev ?p) = take r (map unat (rev (part_bytes a)))" using assms(2) by (auto simp: part_bytes_def)
  have tk: "leval 256 (take r xs) = n" if "leval 256 xs = n" "n < 256 ^ r" "length (take r xs) = r" for xs n
  proof -
    have n: "n = leval 256 (take r xs) + 256 ^ r * leval 256 (drop r xs)"
      using leval_append [of 256 "take r xs" "drop r xs"] that(1,3) by simp
    then have "leval 256 (drop r xs) = 0" using that(2) by (cases "leval 256 (drop r xs)") simp_all
    then show ?thesis using n by simp
  qed
  have "length (take r (map unat (rev (part_bytes a)))) = r" using assms(2) by (auto simp: part_bytes_def)
  then have "leval 256 (digits_of ?p) = unat a"
    unfolding digits_of_def p by (intro tk part_bytes_value) (use assms(3) l in simp)
  moreover have "(256 :: nat) ^ (4 * length l') = (2 ^ 32) ^ length l'" by (simp add: power_mult)
  ultimately show ?thesis using concat_part_bytes [of l'] assms(2) l
    by (auto simp: dec_bytes_def leval_append part_bytes_def [THEN arg_cong, of length])
qed

text \<open>What a text of digits decodes to: a zero byte for each 1 in front, then the bytes of the number.\<close>

lemma digits_at_least:
  assumes "bs = [] \<or> hd bs \<noteq> 0" "number 256 0 (map unat bs) = number 58 0 ds" "\<forall>d \<in> set ds. d < 58"
  shows "length (bs :: byte list) \<le> length ds"
proof (cases "bs = []")
  case False
  have "(256 :: nat) ^ (length bs - 1) \<le> leval 256 (rev (map unat bs))"
    using leval_ge [of 256 "rev (map unat bs)"] assms(1) False by (simp add: last_rev hd_map unat_eq_0)
  also have "\<dots> = number 58 0 ds" using assms(2) by (simp add: number_leval)
  also have "\<dots> < 58 ^ length ds" using leval_less [of "rev ds" 58] assms(3) by (simp add: number_leval)
  also have "\<dots> \<le> 256 ^ length ds" by (rule power_mono) simp_all
  finally have "length bs - 1 < length ds" by (rule power_less_imp_less_exp [rotated]) simp
  then show ?thesis by simp
qed simp

lemma takeWhile_replicate: "P c \<Longrightarrow> xs = [] \<or> \<not> P (hd xs) \<Longrightarrow> takeWhile P (replicate n c @ xs) = replicate n c"
  by (induction n) (cases xs; simp)+

lemma decode_digits:
  assumes "\<forall>d \<in> set ds. d < 58" "ds = [] \<or> hd ds \<noteq> 0"
  shows "\<exists>bs. dap_enc_base58_decode (replicate z 0x31 @ map b58_char ds) = Some (replicate z 0 @ bs) \<and>
    (bs = [] \<or> hd bs \<noteq> 0) \<and> number 256 0 (map unat bs) = number 58 0 ds"
proof -
  let ?s = "replicate z 0x31 @ map b58_char ds"
  let ?n = "2 * length ?s + 1"
  let ?k = "(?n + 3) div 4" and ?r = "?n mod 4"
  have r: "?r = 1 \<or> ?r = 3" "?r + 4 * (?k - 1) = ?n" "0 < ?k" by presburger+
  have front: "takeWhile (\<lambda>c. c = 0x31) ?s = replicate z 0x31"
  proof (rule takeWhile_replicate)
    show "map b58_char ds = [] \<or> hd (map b58_char ds) \<noteq> 0x31"
      using assms b58_tables(3) [of "hd ds"] by (cases ds) simp_all
  qed simp
  let ?zm = "push_bit (?r * 8) 0xffffffff :: u32"
  have "(256 :: nat) ^ k = 2 ^ (k * 8)" for k
  proof -
    have "(256 :: nat) = 2 ^ 8" by simp
    then show ?thesis by (simp only: power_mult [symmetric] mult.commute)
  qed
  then have zm: "\<forall>w. unat w < 256 ^ ?r \<longrightarrow> w AND ?zm = 0" using and_mask_zero by presburger
  have small: "(256 :: nat) ^ ?r \<le> 2 ^ 32" using r(1) by (elim disjE) simp_all
  let ?z = "replicate ?k (0 :: u32)"
  have z0: "leval (2 ^ 32) (parts_of ?z) = 0" by (subst leval_zeros) (auto simp: parts_of_def)
  have "number 58 0 ds < 58 ^ length ds" using leval_less [of "rev ds" 58] assms(1) by (simp add: number_leval)
  also have "\<dots> \<le> 256 ^ length ds" by (rule power_mono) simp_all
  also have "\<dots> \<le> 256 ^ ?n" by (rule power_increasing) simp_all
  also have "(256 :: nat) ^ ?n = 256 ^ (?r + 4 * (?k - 1))" using r(2) by simp
  also have "\<dots> = (2 ^ 32) ^ (length ?z - 1) * 256 ^ ?r" by (simp add: power_add power_mult mult.commute)
  finally have fits: "number 58 (leval (2 ^ 32) (parts_of ?z)) ds < (2 ^ 32) ^ (length ?z - 1) * 256 ^ ?r" by (simp only: z0)
  have "?z \<noteq> []" using r(3) by simp
  from dec_loop_ok [OF assms(1) this small zm fits] obtain l where
    l: "dec_loop ?zm ?z (map b58_char ds) = Some l" "length l = ?k" "leval (2 ^ 32) (parts_of l) = number 58 0 ds" using z0 by auto
  have ne: "l \<noteq> []" using l(2) r(3) by auto
  have "unat (l ! 0) < 256 ^ ?r" by (rule parts_first [OF ne, where B = "2 ^ 32"]) (use fits l z0 in simp)
  note out = dec_bytes_value [OF ne r(1) this]
  let ?out = "dec_bytes ?r l"
  have len: "length ?out = ?n" using out r(2) l(2) by simp
  have v: "number 256 0 (map unat (strip ?out)) = number 58 0 ds" using strip_value [of 256 ?out] out l(3) by simp
  have "length (strip ?out) \<le> length ds" by (rule digits_at_least [OF strip_hd v assms(1)])
  then have "\<not> length (takeWhile (\<lambda>b. b = 0) ?out) < z" using strip_length [of ?out] len by simp
  then have "dap_enc_base58_decode ?s = Some (replicate z 0 @ strip ?out)"
  proof -
    have "?r \<noteq> 0" using r(1) by auto
    moreover have "length (takeWhile (\<lambda>c. c = 0x31) ?s) = z" "drop z ?s = map b58_char ds" by (simp_all only: front) simp_all
    ultimately show ?thesis using \<open>\<not> length (takeWhile (\<lambda>b. b = 0) ?out) < z\<close>
      unfolding dap_enc_base58_decode_def DAP_ENC_BASE58_DECODE_SIZE_def Let_def strip_def by (simp only: if_True if_False l(1) option.case simp_thms)
  qed
  then show ?thesis using v strip_hd [of ?out] by blast
qed

section \<open>Round trips\<close>

lemma unat_map_inj: "map unat xs = map unat ys \<longleftrightarrow> xs = ys" for xs ys :: "byte list"
proof -
  have "inj (unat :: byte \<Rightarrow> nat)" by (rule injI) (rule unsigned_word_eqI)
  then show ?thesis by (rule inj_map_eq_map)
qed

lemma number_inj:
  assumes "\<forall>d \<in> set xs. d < b" "\<forall>d \<in> set ys. d < b" "xs = [] \<or> hd xs \<noteq> 0" "ys = [] \<or> hd ys \<noteq> 0" "number b 0 xs = number b 0 ys"
  shows "xs = ys"
proof -
  have "rev xs = rev ys"
    by (rule leval_inj [of _ b]) (use assms in \<open>auto simp: canonical_def last_rev number_leval\<close>)
  then show ?thesis by simp
qed

lemma bytes_inj:
  fixes xs ys :: "byte list"
  assumes "xs = [] \<or> hd xs \<noteq> 0" "ys = [] \<or> hd ys \<noteq> 0" "number 256 0 (map unat xs) = number 256 0 (map unat ys)"
  shows "xs = ys"
proof -
  have "map unat zs = [] \<or> hd (map unat zs) \<noteq> 0" if "zs = [] \<or> hd zs \<noteq> 0" for zs :: "byte list"
    using that by (cases zs) (simp_all add: unat_eq_0)
  then have "map unat xs = map unat ys"
    by (intro number_inj [OF _ _ _ _ assms(3)]) (use assms(1,2) byte_less in auto)
  then show ?thesis by (simp add: unat_map_inj)
qed

text \<open>The zero bytes in front and the rest.\<close>

lemma zeros_split: "replicate (length (takeWhile (\<lambda>b. b = 0) bs)) 0 @ strip bs = bs" for bs :: "byte list"
proof -
  have "takeWhile (\<lambda>b. b = 0) bs = replicate (length (takeWhile (\<lambda>b. b = 0) bs)) 0"
    by (intro replicate_eqI refl) (auto dest: set_takeWhileD)
  then show ?thesis using takeWhile_split [of "\<lambda>b. b = 0" bs] by (simp add: strip_def)
qed

lemma encode_decode:
  "\<exists>s. dap_enc_base58_encode bs = Inr (length s, Some s) \<and> length bs \<le> length s \<and> length s + 1 \<le> DAP_ENC_BASE58_ENCODE_SIZE (length bs) \<and>
    dap_enc_base58_decode s = Some bs"
proof -
  define z where "z = length (takeWhile (\<lambda>b. b = 0) bs)"
  obtain ds where ds: "dap_enc_base58_encode bs = Inr (z + length ds, Some (replicate z 0x31 @ map b58_char ds))" "\<forall>d \<in> set ds. d < 58"
    "ds = [] \<or> hd ds \<noteq> 0" "number 58 0 ds = number 256 0 (map unat (drop z bs))" "z + length ds + 2 \<le> DAP_ENC_BASE58_ENCODE_SIZE (length bs) + 1"
    using encode_text [OF z_def] by blast
  obtain o1 where o1: "dap_enc_base58_decode (replicate z 0x31 @ map b58_char ds) = Some (replicate z 0 @ o1)" "o1 = [] \<or> hd o1 \<noteq> 0"
    "number 256 0 (map unat o1) = number 58 0 ds" using decode_digits [OF ds(2,3), of z] by blast
  have rest: "drop z bs = strip bs" by (simp add: z_def strip_def)
  have "o1 = strip bs" by (rule bytes_inj [OF o1(2) strip_hd]) (use o1(3) ds(4) rest in simp)
  then have "dap_enc_base58_decode (replicate z 0x31 @ map b58_char ds) = Some bs"
    using o1(1) zeros_split [of bs] by (simp add: z_def)
  moreover have "length (strip bs) \<le> length ds" by (rule digits_at_least [OF strip_hd _ ds(2)]) (use ds(4) rest in simp)
  then have "length bs \<le> z + length ds" using strip_length [of bs] by (simp add: z_def)
  ultimately show ?thesis using ds(1,5) by (intro exI [of _ "replicate z 0x31 @ map b58_char ds"]) simp
qed

text \<open>The text of a byte string, and the contract of an encoding.\<close>

definition b58_of :: "byte list \<Rightarrow> cstr" where
  "b58_of bs = (case dap_enc_base58_encode bs of Inr (_, Some s) \<Rightarrow> s | _ \<Rightarrow> [])"

interpretation b58: codec b58_of dap_enc_base58_decode "\<lambda>_. True"
proof
  show "dap_enc_base58_decode (b58_of bs) = Some bs" for bs using encode_decode [of bs] by (auto simp: b58_of_def)
qed

lemma b58_text:
  assumes "set s \<subseteq> set c_b58digits_ordered"
  shows "\<exists>z ds. s = replicate z 0x31 @ map b58_char ds \<and> (\<forall>d \<in> set ds. d < 58) \<and> (ds = [] \<or> hd ds \<noteq> 0)"
  using assms
proof (induction s)
  case (Cons c s)
  then obtain z ds where IH: "s = replicate z 0x31 @ map b58_char ds" "\<forall>d \<in> set ds. d < 58" "ds = [] \<or> hd ds \<noteq> 0" by auto
  have "length c_b58digits_ordered = 58" by (simp add: c_b58digits_ordered_bytes)
  then obtain d where d: "d < 58" "c = b58_char d" using Cons.prems by (auto simp: in_set_conv_nth b58_char_def)
  show ?case
  proof (cases "d = 0")
    case True
    then have "c = 0x31" using b58_tables(3) [OF d(1)] d(2) by simp
    then show ?thesis using IH by (intro exI [of _ "Suc z"] exI [of _ ds]) simp
  next
    case False
    have one: "b58_char 0 = 0x31" using b58_tables(3) [of 0] by simp
    then have "s = map b58_char (replicate z 0 @ ds)" using IH(1) by simp
    then show ?thesis using IH(2) d False by (intro exI [of _ 0] exI [of _ "d # replicate z 0 @ ds"]) auto
  qed
qed (intro exI [of _ 0] exI [of _ "[]"], simp)

lemma c_b58digits_map_inv:
  assumes "n < 128" "c_b58digits_map ! n \<noteq> - 1"
  shows "word_of_nat n \<in> set c_b58digits_ordered"
proof -
  have "list_all2 (\<lambda>n d. d = - 1 \<or> c_b58digits_ordered ! nat d = word_of_nat n \<and> d < 58) [0..<128] c_b58digits_map"
    unfolding c_b58digits_ordered_bytes c_b58digits_map_def by (simp add: upt_rec)
  then have "c_b58digits_map ! n = - 1 \<or> c_b58digits_ordered ! nat (c_b58digits_map ! n) = word_of_nat ([0..<128] ! n) \<and> c_b58digits_map ! n < 58"
    by (rule list_all2_nthD) (use assms(1) in simp)
  moreover have "length c_b58digits_ordered = 58" by (simp add: c_b58digits_ordered_bytes)
  ultimately show ?thesis using assms nth_mem [of "nat (c_b58digits_map ! n)" c_b58digits_ordered] by auto
qed

lemma dec_loop_refuses:
  "\<exists>c \<in> set s. c \<notin> set c_b58digits_ordered \<Longrightarrow> dec_loop zm l s = None"
proof (induction s arbitrary: l)
  case (Cons c s)
  show ?case
  proof (cases "c AND 0x80 = 0 \<and> c_b58digits_map ! unat c \<noteq> - 1")
    case True
    have "\<not> bit c 7"
    proof
      assume "bit c 7"
      then have "bit (c AND 0x80) 7" by (simp add: bit_and_iff bit_numeral_simps(2))
      then show False using True by simp
    qed
    then have "take_bit 7 c = c"
      by (intro bit_eqI) (auto simp: bit_take_bit_iff less_Suc_eq numeral_eq_Suc)
    then have "unat c = take_bit 7 (unat c)" by (metis unsigned_take_bit_eq)
    moreover have "take_bit 7 (unat c) < 128" using take_bit_nat_less_exp [of 7 "unat c"] by simp
    ultimately have "unat c < 128" by linarith
    then have "c \<in> set c_b58digits_ordered" using c_b58digits_map_inv [of "unat c"] True by simp
    then show ?thesis using Cons by (simp add: Let_def split: prod.split)
  next
    case False
    then show ?thesis by (auto simp: Let_def)
  qed
qed simp

text \<open>
  A text is decoded exactly when all its characters are of the alphabet, and then encoding what it
  was decoded to gives the text back: texts over the alphabet and byte strings are in bijection.
\<close>

theorem base58_texts:
  "if set s \<subseteq> set c_b58digits_ordered
   then \<exists>bs. dap_enc_base58_decode s = Some bs \<and> dap_enc_base58_encode bs = Inr (length s, Some s)
   else dap_enc_base58_decode s = None"
proof (cases "set s \<subseteq> set c_b58digits_ordered")
  case True
  obtain z ds where s: "s = replicate z 0x31 @ map b58_char ds" "\<forall>d \<in> set ds. d < 58" "ds = [] \<or> hd ds \<noteq> 0" using b58_text [OF True] by blast
  obtain bs where bs: "dap_enc_base58_decode s = Some (replicate z 0 @ bs)" "bs = [] \<or> hd bs \<noteq> 0" "number 256 0 (map unat bs) = number 58 0 ds"
    using decode_digits [OF s(2,3), of z] s(1) by blast
  have z: "z = length (takeWhile (\<lambda>b. b = 0) (replicate z 0 @ bs))"
    using takeWhile_replicate [of "\<lambda>b. b = 0" 0 bs z] bs(2) by simp
  obtain es where es: "dap_enc_base58_encode (replicate z 0 @ bs) = Inr (z + length es, Some (replicate z 0x31 @ map b58_char es))"
    "\<forall>d \<in> set es. d < 58" "es = [] \<or> hd es \<noteq> 0" "number 58 0 es = number 256 0 (map unat (drop z (replicate z 0 @ bs)))"
    using encode_text [OF z] by blast
  have "es = ds" by (rule number_inj [OF es(2) s(2) es(3) s(3)]) (use es(4) bs(3) in simp)
  then show ?thesis using True bs(1) es(1) s(1) by simp
next
  case False
  then obtain c where c: "c \<in> set s" "c \<notin> set c_b58digits_ordered" by blast
  have "0x31 \<in> set c_b58digits_ordered" by (simp add: c_b58digits_ordered_bytes)
  then have "c \<in> set (drop (length (takeWhile (\<lambda>c. c = 0x31) s)) s)"
    using c takeWhile_split [of "\<lambda>c. c = 0x31" s] set_takeWhileD [of c "\<lambda>c. c = 0x31" s] by (metis Un_iff set_append)
  then have "dec_loop zm l (drop (length (takeWhile (\<lambda>c. c = 0x31) s)) s) = None" for zm l using c(2) by (intro dec_loop_refuses) blast
  then show ?thesis using False by (simp add: dap_enc_base58_decode_def Let_def)
qed

text \<open>
  C25: Every byte string is encoded without leaving a buffer: the text has the returned length, fits with its NUL into the
  size the macro gives - so the refusal of a too small buffer is never taken - and decodes to the same bytes.
\<close>

theorem base58_roundtrip:
  "dap_enc_base58_encode bs = Inr (length (b58_of bs), Some (b58_of bs)) \<and> length (b58_of bs) + 1 \<le> DAP_ENC_BASE58_ENCODE_SIZE (length bs) \<and>
    dap_enc_base58_decode (b58_of bs) = Some bs"
  using encode_decode [of bs] by (auto simp: b58_of_def)

section \<open>Hexadecimal texts\<close>

lemma htoa_lut256_entry:
  "list_all2 (\<lambda>n w. word_of_nat n = push_bit 4 (hex_char (ucast w)) + hex_char (ucast (drop_bit 8 w))) [0..<256] htoa_lut256"
  unfolding htoa_lut256_def hex_char_def by (simp add: upt_rec)

lemma htoa_entry_pair: "htoa_entry b = [c, d] \<Longrightarrow> push_bit 4 (hex_char c) + hex_char d = b"
proof -
  assume e: "htoa_entry b = [c, d]"
  have "unat b < length htoa_lut256" using byte_less [of b] list_all2_lengthD [OF htoa_lut256_entry] by simp
  from list_all2_nthD2 [OF htoa_lut256_entry this] byte_less [of b] e show ?thesis by (simp add: htoa_entry_def Let_def)
qed

lemma hex2bin_pairs_htoa: "hex2bin_pairs (concat (map htoa_entry bs) @ s) = bs @ hex2bin_pairs s"
proof (induction bs)
  case (Cons b bs)
  obtain c d where e: "htoa_entry b = [c, d]" by (simp add: htoa_entry_def Let_def)
  then show ?case using Cons.IH htoa_entry_pair [OF e] by simp
qed simp

lemma dap_htoa64_concat: "dap_htoa64 bs = concat (map htoa_entry bs)"
proof (induction bs rule: dap_htoa64.induct)
  case (1 bs)
  show ?case
  proof (cases "bs = []")
    case False
    have "concat (map htoa_entry bs) = concat (map htoa_entry (take 8 bs @ drop 8 bs))" by simp
    then show ?thesis using 1 False by (subst dap_htoa64.simps) (simp flip: map_append concat_append)
  qed (simp add: dap_htoa64.simps)
qed

text \<open>
  Base 58 and hexadecimal convert into each other: for a byte string whose length is a positive multiple of eight, the
  text in base 58 gives its hexadecimal text, and that gives the text in base 58 again.
\<close>

theorem base58_hex_roundtrip:
  assumes "length bs mod 8 = 0" "bs \<noteq> []"
  shows "dap_enc_base58_to_hex_str_from_str (b58_of bs) = Some (ascii ''0x'' @ dap_htoa64 bs) \<and>
    dap_enc_base58_from_hex_str_to_str (ascii ''0x'' @ dap_htoa64 bs) = Inr (Some (b58_of bs))"
proof -
  let ?h = "dap_htoa64 bs"
  have n: "8 \<le> length bs" using assms by (cases "length bs < 8") auto
  obtain s where s: "dap_enc_base58_encode bs = Inr (length s, Some s)" "length bs \<le> length s" "dap_enc_base58_decode s = Some bs"
    using encode_decode [of bs] by blast
  have s': "b58_of bs = s" using s(1) by (simp add: b58_of_def)
  have len: "length ?h = 2 * length bs" by (simp add: dap_htoa64_concat length_concat htoa_entry_def Let_def o_def sum_list_triv mult.commute)
  have "hex2bin_pairs ?h = bs" using hex2bin_pairs_htoa [of bs "[]"] by (simp add: dap_htoa64_concat)
  then have "dap_hex2bin ?h = (bs, 2 * length bs)" by (simp add: dap_hex2bin_def len)
  moreover have "length (ascii ''0x'') = 2" by (simp add: ascii_def)
  ultimately have "dap_enc_base58_from_hex_str_to_str (ascii ''0x'' @ ?h) = dap_enc_base58_encode_to_str bs"
    using assms(2) n len by (simp add: dap_enc_base58_from_hex_str_to_str_def)
  moreover have "length s \<noteq> 0" using n s(2) by linarith
  ultimately show ?thesis using s n assms(1) by (simp add: s' dap_enc_base58_encode_to_str_def dap_enc_base58_to_hex_str_from_str_def)
qed

theorem base58_hex_roundtrip_witness:
  "dap_enc_base58_to_hex_str_from_str (b58_of (replicate 8 0xa5)) = Some (ascii ''0x'' @ dap_htoa64 (replicate 8 0xa5))"
  by (rule base58_hex_roundtrip [THEN conjunct1]) simp_all

end
