(* ===== verification/KeySer.thy ===== *)
theory KeySer
  imports Bytes
begin

text \<open>
  The binary formats of keys and signatures: \<open>crypto/src/dap_enc_dilithium.c\<close>, \<open>dap_enc_tesla.c\<close> and
  \<open>dap_enc_bliss.c\<close> with the parameter tables they size their fields by.  A buffer to read is the
  list of the bytes from its pointer to the end of the block it lies in, with the length that is
  passed beside it; NULL is \<open>None\<close>.  Machine-dependent sizes are those of a 64-bit build, enums have four
  bytes.  A key structure that owns a block has the bytes of the block.  A field that is never written
  is \<open>None\<close>.  Allocations succeed.
\<close>

section \<open>Fields of a buffer\<close>

definition le32 :: "u32 \<Rightarrow> byte list" where "le32 w = le_bytes 4 (unat w)"
definition le64 :: "u64 \<Rightarrow> byte list" where "le64 w = le_bytes 8 (unat w)"

definition rd32 :: "byte list \<Rightarrow> nat \<Rightarrow> u32 res" where
  "rd32 m i = bindE (chunkE m i 4) (\<lambda>bs. Inr (word_of_nat (le_val bs)))"

definition rd64 :: "byte list \<Rightarrow> nat \<Rightarrow> u64 res" where
  "rd64 m i = bindE (chunkE m i 8) (\<lambda>bs. Inr (word_of_nat (le_val bs)))"

text \<open>\<open>memcpy\<close> of fields one after the other, from an offset on.\<close>

fun put_fields :: "byte list \<Rightarrow> nat \<Rightarrow> byte list list \<Rightarrow> byte list res" where
  "put_fields buf i [] = Inr buf"
| "put_fields buf i (f # fs) = bindE (blitE buf i f) (\<lambda>buf'. put_fields buf' (i + length f) fs)"

definition new_buf :: "nat \<Rightarrow> byte list" where "new_buf n = replicate n 0"

text \<open>Arrays of 32-bit cells.\<close>

definition cellsE :: "u32 list \<Rightarrow> nat \<Rightarrow> byte list res" where
  "cellsE xs n = bindE (chunkE xs 0 n) (\<lambda>ys. Inr (cells32 ys))"

definition rd_cells :: "byte list \<Rightarrow> nat \<Rightarrow> nat \<Rightarrow> u32 list res" where
  "rd_cells m i n = bindE (chunkE m i (4 * n)) (\<lambda>bs. Inr (map (u32_at bs) [0..<n]))"

section \<open>Parameter tables\<close>

record dilithium_param =
  dil_kind :: u32
  dil_K :: u32
  dil_L :: u32
  dil_ETA :: u32
  dil_SETABITS :: u32
  dil_BETA :: u32
  dil_OMEGA :: u32
  dil_POL_SIZE_PACKED :: u32
  dil_POLT1_SIZE_PACKED :: u32
  dil_POLT0_SIZE_PACKED :: u32
  dil_POLETA_SIZE_PACKED :: u32
  dil_POLZ_SIZE_PACKED :: u32
  dil_POLW1_SIZE_PACKED :: u32
  dil_POLVECK_SIZE_PACKED :: u32
  dil_POLVECL_SIZE_PACKED :: u32
  dil_PUBLICKEYBYTES :: u32
  dil_SECRETKEYBYTES :: u32
  dil_BYTES :: u32

definition dilithium_params :: "dilithium_param list" where
  "dilithium_params = [
     \<lparr>dil_kind = 0, dil_K = 3, dil_L = 2, dil_ETA = 7, dil_SETABITS = 4, dil_BETA = 375, dil_OMEGA = 64,
      dil_POL_SIZE_PACKED = 736, dil_POLT1_SIZE_PACKED = 288, dil_POLT0_SIZE_PACKED = 448,
      dil_POLETA_SIZE_PACKED = 128, dil_POLZ_SIZE_PACKED = 640, dil_POLW1_SIZE_PACKED = 128,
      dil_POLVECK_SIZE_PACKED = 2208, dil_POLVECL_SIZE_PACKED = 1472,
      dil_PUBLICKEYBYTES = 896, dil_SECRETKEYBYTES = 2096, dil_BYTES = 1387\<rparr>,
     \<lparr>dil_kind = 1, dil_K = 4, dil_L = 3, dil_ETA = 6, dil_SETABITS = 4, dil_BETA = 325, dil_OMEGA = 80,
      dil_POL_SIZE_PACKED = 736, dil_POLT1_SIZE_PACKED = 288, dil_POLT0_SIZE_PACKED = 448,
      dil_POLETA_SIZE_PACKED = 128, dil_POLZ_SIZE_PACKED = 640, dil_POLW1_SIZE_PACKED = 128,
      dil_POLVECK_SIZE_PACKED = 2944, dil_POLVECL_SIZE_PACKED = 2208,
      dil_PUBLICKEYBYTES = 1184, dil_SECRETKEYBYTES = 2800, dil_BYTES = 2044\<rparr>,
     \<lparr>dil_kind = 2, dil_K = 5, dil_L = 4, dil_ETA = 5, dil_SETABITS = 4, dil_BETA = 275, dil_OMEGA = 96,
      dil_POL_SIZE_PACKED = 736, dil_POLT1_SIZE_PACKED = 288, dil_POLT0_SIZE_PACKED = 448,
      dil_POLETA_SIZE_PACKED = 128, dil_POLZ_SIZE_PACKED = 640, dil_POLW1_SIZE_PACKED = 128,
      dil_POLVECK_SIZE_PACKED = 3680, dil_POLVECL_SIZE_PACKED = 2944,
      dil_PUBLICKEYBYTES = 1472, dil_SECRETKEYBYTES = 3504, dil_BYTES = 2701\<rparr>,
     \<lparr>dil_kind = 3, dil_K = 6, dil_L = 5, dil_ETA = 3, dil_SETABITS = 3, dil_BETA = 175, dil_OMEGA = 120,
      dil_POL_SIZE_PACKED = 736, dil_POLT1_SIZE_PACKED = 288, dil_POLT0_SIZE_PACKED = 448,
      dil_POLETA_SIZE_PACKED = 96, dil_POLZ_SIZE_PACKED = 640, dil_POLW1_SIZE_PACKED = 128,
      dil_POLVECK_SIZE_PACKED = 4416, dil_POLVECL_SIZE_PACKED = 3680,
      dil_PUBLICKEYBYTES = 1760, dil_SECRETKEYBYTES = 3856, dil_BYTES = 3366\<rparr>]"

definition dilithium_params_init :: "u32 \<Rightarrow> dilithium_param option" where
  "dilithium_params_init kind = (if kind \<le> 3 then Some (dilithium_params ! unat kind) else None)"

text \<open>The fields of type \<open>float\<close> (the Gaussian widths) are left out: nothing here reads them.\<close>

record tesla_param =
  tes_kind :: u32
  tes_N :: u32
  tes_N_LOG :: u32
  tes_Q :: u32
  tes_Q_LOG :: u32
  tes_QINV :: u32
  tes_BARR_MULT :: u32
  tes_BARR_DIV :: u32
  tes_B :: u32
  tes_B_BITS :: u32
  tes_K :: u32
  tes_W :: u32
  tes_D :: u32
  tes_GEN_A :: u32
  tes_KEYGEN_BOUND_E :: u32
  tes_REJECTION :: u32
  tes_KEYGEN_BOUND_S :: u32
  tes_U :: u32
  tes_R2_INVN :: u32
  tes_BYTES :: u32
  tes_SECRETKEYBYTES :: u32
  tes_PUBLICKEYBYTES :: u32

definition tesla_params :: "tesla_param list" where
  "tesla_params = [
     \<lparr>tes_kind = 0, tes_N = 512, tes_N_LOG = 9, tes_Q = 4205569, tes_Q_LOG = 23, tes_QINV = 3098553343,
      tes_BARR_MULT = 1021, tes_BARR_DIV = 32, tes_B = 1048575, tes_B_BITS = 20, tes_K = 1, tes_W = 30, tes_D = 21,
      tes_GEN_A = 19, tes_KEYGEN_BOUND_E = 1586, tes_REJECTION = 1586, tes_KEYGEN_BOUND_S = 1586, tes_U = 1586,
      tes_R2_INVN = 113307, tes_BYTES = 1376, tes_SECRETKEYBYTES = 2112, tes_PUBLICKEYBYTES = 1504\<rparr>,
     \<lparr>tes_kind = 1, tes_N = 1024, tes_N_LOG = 10, tes_Q = 4206593, tes_Q_LOG = 23, tes_QINV = 4148178943,
      tes_BARR_MULT = 1021, tes_BARR_DIV = 32, tes_B = 1048575, tes_B_BITS = 20, tes_K = 1, tes_W = 48, tes_D = 21,
      tes_GEN_A = 38, tes_KEYGEN_BOUND_E = 910, tes_REJECTION = 910, tes_KEYGEN_BOUND_S = 910, tes_U = 910,
      tes_R2_INVN = 1217638, tes_BYTES = 2720, tes_SECRETKEYBYTES = 4160, tes_PUBLICKEYBYTES = 2976\<rparr>,
     \<lparr>tes_kind = 2, tes_N = 1024, tes_N_LOG = 10, tes_Q = 8404993, tes_Q_LOG = 24, tes_QINV = 4034936831,
      tes_BARR_MULT = 511, tes_BARR_DIV = 32, tes_B = 2097151, tes_B_BITS = 21, tes_K = 1, tes_W = 48, tes_D = 22,
      tes_GEN_A = 38, tes_KEYGEN_BOUND_E = 1147, tes_REJECTION = 1147, tes_KEYGEN_BOUND_S = 1233, tes_U = 1233,
      tes_R2_INVN = 237839, tes_BYTES = 2848, tes_SECRETKEYBYTES = 4160, tes_PUBLICKEYBYTES = 3104\<rparr>,
     \<lparr>tes_kind = 3, tes_N = 1024, tes_N_LOG = 10, tes_Q = 485978113, tes_Q_LOG = 29, tes_QINV = 3421990911,
      tes_BARR_MULT = 1, tes_BARR_DIV = 29, tes_B = 2097151, tes_B_BITS = 21, tes_K = 4, tes_W = 25, tes_D = 22,
      tes_GEN_A = 108, tes_KEYGEN_BOUND_E = 554, tes_REJECTION = 554, tes_KEYGEN_BOUND_S = 554, tes_U = 554,
      tes_R2_INVN = 472064468, tes_BYTES = 2848, tes_SECRETKEYBYTES = 5184, tes_PUBLICKEYBYTES = 14880\<rparr>,
     \<lparr>tes_kind = 4, tes_N = 2048, tes_N_LOG = 11, tes_Q = 1129725953, tes_Q_LOG = 31, tes_QINV = 861290495,
      tes_BARR_MULT = 15, tes_BARR_DIV = 34, tes_B = 8388607, tes_B_BITS = 23, tes_K = 5, tes_W = 40, tes_D = 24,
      tes_GEN_A = 180, tes_KEYGEN_BOUND_E = 901, tes_REJECTION = 901, tes_KEYGEN_BOUND_S = 901, tes_U = 901,
      tes_R2_INVN = 851423148, tes_BYTES = 6176, tes_SECRETKEYBYTES = 12352, tes_PUBLICKEYBYTES = 39712\<rparr>]"

definition tesla_params_init :: "u32 \<Rightarrow> tesla_param option" where
  "tesla_params_init kind = (if kind \<le> 4 then Some (tesla_params ! unat kind) else None)"

text \<open>The \<open>double\<close> field and the two tables of roots of unity are left out: nothing here reads them.\<close>

record bliss_param =
  bli_kind :: u32
  bli_q :: u32
  bli_n :: u32
  bli_d :: u32
  bli_mod_p :: u32
  bli_q2 :: u32
  bli_q_inv :: u32
  bli_q2_inv :: u32
  bli_one_q2 :: u32
  bli_kappa :: u32
  bli_b_inf :: u32
  bli_b_l2 :: u32
  bli_nz1 :: u32
  bli_nz2 :: u32
  bli_sigma :: u32
  bli_M :: u32
  bli_ell :: u32
  bli_precision :: u32

definition bliss_b_params :: "bliss_param list" where
  "bliss_b_params = [
     \<lparr>bli_kind = 0, bli_q = 7681, bli_n = 256, bli_d = 5, bli_mod_p = 480, bli_q2 = 15362, bli_q_inv = 559167,
      bli_q2_inv = 279583, bli_one_q2 = 3841, bli_kappa = 12, bli_b_inf = 530, bli_b_l2 = 2492 * 2492,
      bli_nz1 = 141, bli_nz2 = 39, bli_sigma = 100, bli_M = 17928, bli_ell = 19, bli_precision = 64\<rparr>,
     \<lparr>bli_kind = 1, bli_q = 12289, bli_n = 512, bli_d = 10, bli_mod_p = 24, bli_q2 = 24578, bli_q_inv = 349496,
      bli_q2_inv = 174748, bli_one_q2 = 6145, bli_kappa = 23, bli_b_inf = 2100, bli_b_l2 = 12872 * 12872,
      bli_nz1 = 154, bli_nz2 = 0, bli_sigma = 215, bli_M = 17825, bli_ell = 21, bli_precision = 64\<rparr>,
     \<lparr>bli_kind = 2, bli_q = 12289, bli_n = 512, bli_d = 10, bli_mod_p = 24, bli_q2 = 24578, bli_q_inv = 349496,
      bli_q2_inv = 174748, bli_one_q2 = 6145, bli_kappa = 23, bli_b_inf = 1563, bli_b_l2 = 11074 * 11074,
      bli_nz1 = 154, bli_nz2 = 0, bli_sigma = 107, bli_M = 17825, bli_ell = 19, bli_precision = 64\<rparr>,
     \<lparr>bli_kind = 3, bli_q = 12289, bli_n = 512, bli_d = 9, bli_mod_p = 48, bli_q2 = 24578, bli_q_inv = 349496,
      bli_q2_inv = 174748, bli_one_q2 = 6145, bli_kappa = 30, bli_b_inf = 1760, bli_b_l2 = 10206 * 10206,
      bli_nz1 = 216, bli_nz2 = 16, bli_sigma = 250, bli_M = 42270, bli_ell = 21, bli_precision = 64\<rparr>,
     \<lparr>bli_kind = 4, bli_q = 12289, bli_n = 512, bli_d = 8, bli_mod_p = 96, bli_q2 = 24578, bli_q_inv = 349496,
      bli_q2_inv = 174748, bli_one_q2 = 6145, bli_kappa = 39, bli_b_inf = 1613, bli_b_l2 = 9901 * 9901,
      bli_nz1 = 231, bli_nz2 = 31, bli_sigma = 271, bli_M = 69576, bli_ell = 22, bli_precision = 64\<rparr>]"

definition bliss_params_init :: "u32 \<Rightarrow> bliss_param option" where
  "bliss_params_init kind = (if kind \<le> 4 then Some (bliss_b_params ! unat kind) else None)"

section \<open>Dilithium\<close>

record dilithium_key =
  dk_kind :: "u32 option"
  dk_data :: "byte list"

record dilithium_signature =
  ds_kind :: "u32 option"
  ds_data :: "byte list"
  ds_len :: u64

definition initE :: "'a option \<Rightarrow> 'a res" where
  "initE x = (case x of None \<Rightarrow> Inl Uninit | Some v \<Rightarrow> Inr v)"

definition dap_enc_dilithium_calc_signagture_size :: "dilithium_signature \<Rightarrow> u64" where
  "dap_enc_dilithium_calc_signagture_size s = 8 * 2 + 4 + ds_len s"

definition dap_enc_dilithium_write_signature :: "dilithium_signature option \<Rightarrow> byte list option res" where
  "dap_enc_dilithium_write_signature a_sign = (case a_sign of None \<Rightarrow> Inr None
   | Some s \<Rightarrow>
       let buflen = dap_enc_dilithium_calc_signagture_size s in
       bindE (initE (ds_kind s)) (\<lambda>kind.
       bindE (chunkE (ds_data s) 0 (unat (ds_len s))) (\<lambda>data.
       bindE (put_fields (new_buf (unat buflen)) 0 [le64 buflen, le32 kind, le64 (ds_len s), data]) (\<lambda>buf.
       bindE (guardE (8 + 4 + 8 + ds_len s = buflen) Aborted) (\<lambda>_. Inr (Some buf))))))"

definition dap_enc_dilithium_read_signature_old :: "byte list option \<Rightarrow> u64 \<Rightarrow> dilithium_signature option res" where
  "dap_enc_dilithium_read_signature_old a_buf a_buflen = (case a_buf of None \<Rightarrow> Inr None
   | Some m \<Rightarrow>
       if a_buflen < 4 + 4 then Inr None
       else bindE (rd32 m 0) (\<lambda>internal. bindE (rd32 m 4) (\<lambda>kind.
         if internal \<noteq> ucast a_buflen then Inr None
         else if dilithium_params_init kind = None then Inr None
         else bindE (rd64 m 8) (\<lambda>sig_len.
           if 0xffffffffffffffff - 8 < sig_len then Inr None
           else if a_buflen < 8 + sig_len then Inr None
           else bindE (chunkE m 16 (unat sig_len)) (\<lambda>data.
             Inr (Some \<lparr>ds_kind = None, ds_data = data, ds_len = sig_len\<rparr>))))))"

definition dap_enc_dilithium_read_signature_old2 :: "byte list option \<Rightarrow> u64 \<Rightarrow> dilithium_signature option res" where
  "dap_enc_dilithium_read_signature_old2 a_buf a_buflen = (case a_buf of None \<Rightarrow> Inr None
   | Some m \<Rightarrow>
       if a_buflen < 4 + 8 then Inr None
       else bindE (rd32 m 0) (\<lambda>internal. bindE (rd64 m 4) (\<lambda>kind.
         if internal \<noteq> ucast a_buflen then Inr None
         else if dilithium_params_init (ucast kind) = None then Inr None
         else bindE (rd64 m 12) (\<lambda>sig_len.
           if 0xffffffffffffffff - 12 < sig_len then Inr None
           else if a_buflen < 12 + sig_len then Inr None
           else bindE (chunkE m 20 (unat sig_len)) (\<lambda>data.
             Inr (Some \<lparr>ds_kind = Some (ucast kind), ds_data = data, ds_len = sig_len\<rparr>))))))"

text \<open>The length field of an old format has 32 bits: the other half of the 64 that are read is the kind.\<close>

definition low32 :: "u64 \<Rightarrow> u64" where "low32 x = drop_bit 32 (push_bit 32 x)"

definition dap_enc_dilithium_read_signature :: "byte list option \<Rightarrow> u64 \<Rightarrow> dilithium_signature option res" where
  "dap_enc_dilithium_read_signature a_buf a_buflen = (case a_buf of None \<Rightarrow> Inr None
   | Some m \<Rightarrow>
       if a_buflen < 8 * 2 + 4 then Inr None
       else bindE (rd64 m 0) (\<lambda>buflen.
         if buflen \<noteq> a_buflen \<and> low32 buflen \<noteq> a_buflen then Inr None
         else let at = (if buflen \<noteq> a_buflen then 4 else 8 :: nat) in
           bindE (rd32 m at) (\<lambda>kind.
           if dilithium_params_init kind = None then Inr None
           else bindE (rd64 m (at + 4)) (\<lambda>sig_len.
             let shift = word_of_nat (at + 4 + 8) :: u64 in
             if 0xffffffffffffffff - shift < sig_len then Inr None
             else if sig_len + shift + 8 = a_buflen then dap_enc_dilithium_read_signature_old a_buf a_buflen
             else if sig_len + shift + 4 = a_buflen then dap_enc_dilithium_read_signature_old2 a_buf a_buflen
             else if a_buflen < shift + sig_len then Inr None
             else bindE (chunkE m (at + 4 + 8) (unat sig_len)) (\<lambda>data.
               Inr (Some \<lparr>ds_kind = Some kind, ds_data = data, ds_len = sig_len\<rparr>))))))"

definition dilithium_write_key :: "(dilithium_param \<Rightarrow> u32) \<Rightarrow> dilithium_key \<Rightarrow> byte list option res" where
  "dilithium_write_key bytes k =
     bindE (initE (dk_kind k)) (\<lambda>kind.
     case dilithium_params_init kind of None \<Rightarrow> Inr None
     | Some p \<Rightarrow>
         let buflen = 8 + 4 + unat (bytes p) in
         bindE (chunkE (dk_data k) 0 (unat (bytes p))) (\<lambda>data.
         bindE (put_fields (new_buf buflen) 0 [le64 (word_of_nat buflen), le32 kind, data]) (\<lambda>buf.
         Inr (Some buf))))"

definition dap_enc_dilithium_write_private_key :: "dilithium_key \<Rightarrow> byte list option res" where
  "dap_enc_dilithium_write_private_key = dilithium_write_key dil_SECRETKEYBYTES"

definition dap_enc_dilithium_write_public_key :: "dilithium_key \<Rightarrow> byte list option res" where
  "dap_enc_dilithium_write_public_key = dilithium_write_key dil_PUBLICKEYBYTES"

text \<open>
  The old reader stores the kind four elements, 16 bytes, behind the field it means: past the end of
  the structure.
\<close>

definition dap_enc_dilithium_read_private_key_old :: "byte list option \<Rightarrow> u64 \<Rightarrow> dilithium_key option res" where
  "dap_enc_dilithium_read_private_key_old a_buf a_buflen = (case a_buf of None \<Rightarrow> Inr None
   | Some m \<Rightarrow>
       if a_buflen < 4 + 4 then Inr None
       else bindE (rd32 m 0) (\<lambda>buflen. bindE (rd32 m 4) (\<lambda>kind.
         if buflen \<noteq> ucast a_buflen then Inr None
         else case dilithium_params_init kind of None \<Rightarrow> Inr None
         | Some p \<Rightarrow>
             if a_buflen < 4 + 4 + ucast (dil_SECRETKEYBYTES p) then Inr None
             else Inl OutOfBounds)))"

definition dap_enc_dilithium_read_private_key :: "byte list option \<Rightarrow> u64 \<Rightarrow> dilithium_key option res" where
  "dap_enc_dilithium_read_private_key a_buf a_buflen = (case a_buf of None \<Rightarrow> Inr None
   | Some m \<Rightarrow>
       if a_buflen + 8 = 8 + 4 then dap_enc_dilithium_read_private_key_old a_buf a_buflen
       else if a_buflen < 8 + 4 then Inr None
       else bindE (rd64 m 0) (\<lambda>buflen.
         if buflen \<noteq> a_buflen then Inr None
         else bindE (rd32 m 8) (\<lambda>kind.
           case dilithium_params_init kind of None \<Rightarrow> Inr None
           | Some p \<Rightarrow>
               if a_buflen < 8 + 4 + ucast (dil_SECRETKEYBYTES p) then Inr None
               else bindE (chunkE m 12 (unat (dil_SECRETKEYBYTES p))) (\<lambda>data.
                 Inr (Some \<lparr>dk_kind = Some kind, dk_data = data\<rparr>)))))"

definition dap_enc_dilithium_read_public_key_old :: "byte list option \<Rightarrow> u64 \<Rightarrow> dilithium_key option res" where
  "dap_enc_dilithium_read_public_key_old a_buf a_buflen = (case a_buf of None \<Rightarrow> Inr None
   | Some m \<Rightarrow>
       if a_buflen < 4 + 4 then Inr None
       else bindE (rd32 m 0) (\<lambda>buflen. bindE (rd32 m 4) (\<lambda>kind.
         if buflen \<noteq> ucast a_buflen then Inr None
         else case dilithium_params_init kind of None \<Rightarrow> Inr None
         | Some p \<Rightarrow>
             if a_buflen < 4 + 4 + ucast (dil_PUBLICKEYBYTES p) then Inr None
             else bindE (chunkE m 8 (unat (dil_PUBLICKEYBYTES p))) (\<lambda>data.
               Inr (Some \<lparr>dk_kind = Some kind, dk_data = data\<rparr>)))))"

definition dap_enc_dilithium_read_public_key_old2 :: "byte list option \<Rightarrow> u64 \<Rightarrow> dilithium_key option res" where
  "dap_enc_dilithium_read_public_key_old2 a_buf a_buflen = (case a_buf of None \<Rightarrow> Inr None
   | Some m \<Rightarrow>
       if a_buflen < 4 + 4 then Inr None
       else bindE (rd32 m 0) (\<lambda>buflen. bindE (rd64 m 8) (\<lambda>kind.
         if buflen \<noteq> ucast a_buflen then Inr None
         else case dilithium_params_init (ucast kind) of None \<Rightarrow> Inr None
         | Some p \<Rightarrow>
             if a_buflen < 4 + 8 + ucast (dil_PUBLICKEYBYTES p) then Inr None
             else bindE (chunkE m 12 (unat (dil_PUBLICKEYBYTES p))) (\<lambda>data.
               Inr (Some \<lparr>dk_kind = Some (ucast kind), dk_data = data\<rparr>)))))"

definition dap_enc_dilithium_read_public_key :: "byte list option \<Rightarrow> u64 \<Rightarrow> dilithium_key option res" where
  "dap_enc_dilithium_read_public_key a_buf a_buflen = (case a_buf of None \<Rightarrow> Inr None
   | Some m \<Rightarrow>
       if a_buflen < 8 + 4 then Inr None
       else bindE (rd64 m 0) (\<lambda>buflen.
         if buflen \<noteq> a_buflen \<and> low32 buflen \<noteq> a_buflen then Inr None
         else bindE (rd32 m (if buflen \<noteq> a_buflen then 4 else 8)) (\<lambda>kind.
           case dilithium_params_init kind of None \<Rightarrow> Inr None
           | Some p \<Rightarrow>
               let full = 8 + 4 + ucast (dil_PUBLICKEYBYTES p) in
               if a_buflen + 8 = full then dap_enc_dilithium_read_public_key_old a_buf a_buflen
               else if a_buflen + 4 = full then dap_enc_dilithium_read_public_key_old2 a_buf a_buflen
               else if a_buflen < full then Inr None
               else bindE (chunkE m 12 (unat (dil_PUBLICKEYBYTES p))) (\<lambda>data.
                 Inr (Some \<lparr>dk_kind = Some kind, dk_data = data\<rparr>)))))"

section \<open>TESLA\<close>

record tesla_key =
  tk_kind :: u32
  tk_data :: "byte list"

record tesla_signature =
  ts_kind :: u32
  ts_data :: "byte list"
  ts_len :: u64

definition sizeof_tesla_signature :: u64 where "sizeof_tesla_signature = 24"

definition dap_enc_tesla_calc_signature_serialized_size :: "tesla_signature \<Rightarrow> u64" where
  "dap_enc_tesla_calc_signature_serialized_size s = 8 + 4 + ts_len s + 8"

definition dap_enc_tesla_write_signature :: "tesla_signature option \<Rightarrow> u64 \<Rightarrow> byte list option res" where
  "dap_enc_tesla_write_signature a_sign a_sign_out = (case a_sign of None \<Rightarrow> Inr None
   | Some s \<Rightarrow>
       if a_sign_out \<noteq> sizeof_tesla_signature then Inr None
       else let buflen = dap_enc_tesla_calc_signature_serialized_size s in
         bindE (chunkE (ts_data s) 0 (unat (ts_len s))) (\<lambda>data.
         bindE (put_fields (new_buf (unat buflen)) 0 [le64 buflen, le32 (ts_kind s), le64 (ts_len s), data]) (\<lambda>buf.
         Inr (Some buf))))"

definition dap_enc_tesla_read_signature :: "byte list option \<Rightarrow> u64 \<Rightarrow> tesla_signature option res" where
  "dap_enc_tesla_read_signature a_buf a_buflen = (case a_buf of None \<Rightarrow> Inr None
   | Some m \<Rightarrow>
       if a_buflen < 8 + 4 then Inr None
       else bindE (rd64 m 0) (\<lambda>buflen. bindE (rd32 m 8) (\<lambda>kind.
         if buflen \<noteq> a_buflen then Inr None
         else if tesla_params_init kind = None then Inr None
         else bindE (rd64 m 12) (\<lambda>sig_len. bindE (chunkE m 20 (unat sig_len)) (\<lambda>data.
           Inr (Some \<lparr>ts_kind = kind, ts_data = data, ts_len = sig_len\<rparr>))))))"

definition tesla_write_key :: "(tesla_param \<Rightarrow> u32) \<Rightarrow> tesla_key \<Rightarrow> byte list option res" where
  "tesla_write_key bytes k = (case tesla_params_init (tk_kind k) of None \<Rightarrow> Inr None
   | Some p \<Rightarrow>
       let buflen = 8 + 4 + unat (bytes p) in
       bindE (chunkE (tk_data k) 0 (unat (bytes p))) (\<lambda>data.
       bindE (put_fields (new_buf buflen) 0 [le64 (word_of_nat buflen), le32 (tk_kind k), data]) (\<lambda>buf.
       Inr (Some buf))))"

definition dap_enc_tesla_write_private_key :: "tesla_key \<Rightarrow> byte list option res" where
  "dap_enc_tesla_write_private_key = tesla_write_key tes_SECRETKEYBYTES"

definition dap_enc_tesla_write_public_key :: "tesla_key \<Rightarrow> byte list option res" where
  "dap_enc_tesla_write_public_key = tesla_write_key tes_PUBLICKEYBYTES"

definition tesla_read_key :: "(tesla_param \<Rightarrow> u32) \<Rightarrow> byte list option \<Rightarrow> u64 \<Rightarrow> tesla_key option res" where
  "tesla_read_key bytes a_buf a_buflen = (case a_buf of None \<Rightarrow> Inr None
   | Some m \<Rightarrow>
       if a_buflen < 8 + 4 then Inr None
       else bindE (rd64 m 0) (\<lambda>buflen. bindE (rd32 m 8) (\<lambda>kind.
         if buflen \<noteq> a_buflen then Inr None
         else case tesla_params_init kind of None \<Rightarrow> Inr None
         | Some p \<Rightarrow> bindE (chunkE m 12 (unat (bytes p))) (\<lambda>data.
             Inr (Some \<lparr>tk_kind = kind, tk_data = data\<rparr>)))))"

definition dap_enc_tesla_read_private_key :: "byte list option \<Rightarrow> u64 \<Rightarrow> tesla_key option res" where
  "dap_enc_tesla_read_private_key = tesla_read_key tes_SECRETKEYBYTES"

definition dap_enc_tesla_read_public_key :: "byte list option \<Rightarrow> u64 \<Rightarrow> tesla_key option res" where
  "dap_enc_tesla_read_public_key = tesla_read_key tes_PUBLICKEYBYTES"

section \<open>BLISS\<close>

record bliss_private_key =
  bpr_kind :: u32
  bpr_s1 :: "u32 list"
  bpr_s2 :: "u32 list"
  bpr_a :: "u32 list"

record bliss_public_key =
  bpu_kind :: u32
  bpu_a :: "u32 list"

record bliss_signature =
  bs_kind :: u32
  bs_z1 :: "u32 list"
  bs_z2 :: "u32 list"
  bs_c :: "u32 list"

definition dap_enc_sig_bliss_write_signature :: "bliss_signature \<Rightarrow> byte list option res" where
  "dap_enc_sig_bliss_write_signature s = (case bliss_params_init (bs_kind s) of None \<Rightarrow> Inr None
   | Some p \<Rightarrow>
       let n = unat (bli_n p); kappa = unat (bli_kappa p); buflen = 8 + 4 + n * 2 * 4 + kappa * 4 in
       bindE (cellsE (bs_z1 s) n) (\<lambda>z1. bindE (cellsE (bs_z2 s) n) (\<lambda>z2. bindE (cellsE (bs_c s) kappa) (\<lambda>c.
       bindE (put_fields (new_buf buflen) 0 [le64 (word_of_nat buflen), le32 (bs_kind s), z1, z2, c]) (\<lambda>buf.
       Inr (Some buf))))))"

definition dap_enc_sig_bliss_read_signature :: "byte list option \<Rightarrow> u64 \<Rightarrow> bliss_signature option res" where
  "dap_enc_sig_bliss_read_signature a_buf a_buflen = (case a_buf of None \<Rightarrow> Inr None
   | Some m \<Rightarrow>
       if a_buflen < 8 + 4 then Inr None
       else bindE (rd64 m 0) (\<lambda>buflen. bindE (rd32 m 8) (\<lambda>kind.
         if buflen \<noteq> a_buflen then Inr None
         else case bliss_params_init kind of None \<Rightarrow> Inr None
         | Some p \<Rightarrow>
             let n = unat (bli_n p); kappa = unat (bli_kappa p) in
             bindE (rd_cells m 12 n) (\<lambda>z1. bindE (rd_cells m (12 + 4 * n) n) (\<lambda>z2.
             bindE (rd_cells m (12 + 4 * n + 4 * n) kappa) (\<lambda>c.
               Inr (Some \<lparr>bs_kind = kind, bs_z1 = z1, bs_z2 = z2, bs_c = c\<rparr>)))))))"

definition dap_enc_sig_bliss_write_private_key :: "bliss_private_key \<Rightarrow> byte list option res" where
  "dap_enc_sig_bliss_write_private_key k = (case bliss_params_init (bpr_kind k) of None \<Rightarrow> Inr None
   | Some p \<Rightarrow>
       let n = unat (bli_n p); buflen = 8 + 4 + 3 * n * 4 in
       bindE (cellsE (bpr_s1 k) n) (\<lambda>s1. bindE (cellsE (bpr_s2 k) n) (\<lambda>s2. bindE (cellsE (bpr_a k) n) (\<lambda>a.
       bindE (put_fields (new_buf buflen) 0 [le64 (word_of_nat buflen), le32 (bpr_kind k), s1, s2, a]) (\<lambda>buf.
       Inr (Some buf))))))"

definition dap_enc_sig_bliss_write_public_key :: "bliss_public_key \<Rightarrow> byte list option res" where
  "dap_enc_sig_bliss_write_public_key k = (case bliss_params_init (bpu_kind k) of None \<Rightarrow> Inr None
   | Some p \<Rightarrow>
       let n = unat (bli_n p); buflen = 8 + 4 + n * 4 in
       bindE (cellsE (bpu_a k) n) (\<lambda>a.
       bindE (put_fields (new_buf buflen) 0 [le64 (word_of_nat buflen), le32 (bpu_kind k), a]) (\<lambda>buf.
       Inr (Some buf))))"

definition dap_enc_sig_bliss_read_private_key :: "byte list option \<Rightarrow> u64 \<Rightarrow> bliss_private_key option res" where
  "dap_enc_sig_bliss_read_private_key a_buf a_buflen = (case a_buf of None \<Rightarrow> Inr None
   | Some m \<Rightarrow>
       if a_buflen < 8 + 4 then Inr None
       else bindE (rd64 m 0) (\<lambda>buflen. bindE (rd32 m 8) (\<lambda>kind.
         if buflen \<noteq> a_buflen then Inr None
         else case bliss_params_init kind of None \<Rightarrow> Inr None
         | Some p \<Rightarrow>
             let n = unat (bli_n p) in
             bindE (rd_cells m 12 n) (\<lambda>s1. bindE (rd_cells m (12 + 4 * n) n) (\<lambda>s2.
             bindE (rd_cells m (12 + 4 * n + 4 * n) n) (\<lambda>a.
               Inr (Some \<lparr>bpr_kind = kind, bpr_s1 = s1, bpr_s2 = s2, bpr_a = a\<rparr>)))))))"

definition dap_enc_sig_bliss_read_public_key :: "byte list option \<Rightarrow> u64 \<Rightarrow> bliss_public_key option res" where
  "dap_enc_sig_bliss_read_public_key a_buf a_buflen = (case a_buf of None \<Rightarrow> Inr None
   | Some m \<Rightarrow>
       if a_buflen < 8 + 4 then Inr None
       else bindE (rd64 m 0) (\<lambda>buflen. bindE (rd32 m 8) (\<lambda>kind.
         if buflen \<noteq> a_buflen then Inr None
         else case bliss_params_init kind of None \<Rightarrow> Inr None
         | Some p \<Rightarrow> bindE (rd_cells m 12 (unat (bli_n p))) (\<lambda>a.
             Inr (Some \<lparr>bpu_kind = kind, bpu_a = a\<rparr>)))))"

end
