(* ===== verification/Sign.thy ===== *)
theory Sign
  imports KeySer
begin

text \<open>
  Keys and signatures: the dispatch on the key type of \<open>crypto/src/dap_enc_key.c\<close>, the wrappers of the
  signature schemes (\<open>dap_enc_dilithium.c\<close>, \<open>dap_enc_tesla.c\<close>, \<open>dap_enc_bliss.c\<close>) and the signed
  objects of \<open>dap_sign.c\<close>.  What signs, verifies and hashes (the arithmetic of the schemes, SHA-3) is
  the record \<open>crypto_api\<close> of functions: each stands for one run, with the random bytes it draws.
  The four signature types are the keys met here; a key that is passed on is never NULL.
\<close>

section \<open>Keys\<close>

text \<open>
  What a pointer to key data leads to: plain bytes, the structure of a scheme, or a block that was
  released.  NULL is \<open>None\<close>.
\<close>

datatype key_data =
    Raw "byte list"
  | DilKey dilithium_key
  | TesKey tesla_key
  | BliPriv bliss_private_key
  | BliPub bliss_public_key
  | Freed

record dap_enc_key =
  key_type :: int
  priv_key_data :: "key_data option"
  priv_key_data_size :: u64
  pub_key_data :: "key_data option"
  pub_key_data_size :: u64
  last_used_timestamp :: u64
  inheritor :: "byte list option"
  inheritor_size :: u64

definition KEY_INVALID :: int where "KEY_INVALID = -1"
definition SIG_PICNIC :: int where "SIG_PICNIC = 19"
definition SIG_BLISS :: int where "SIG_BLISS = 20"
definition SIG_TESLA :: int where "SIG_TESLA = 21"
definition SIG_DILITHIUM :: int where "SIG_DILITHIUM = 22"

named_theorems key_types
declare KEY_INVALID_def [key_types] SIG_PICNIC_def [key_types] SIG_BLISS_def [key_types] SIG_TESLA_def [key_types]
  SIG_DILITHIUM_def [key_types]

text \<open>The unserialised signatures.\<close>

datatype sig_data =
    RawSig "byte list"
  | DilSig dilithium_signature
  | TesSig tesla_signature
  | BliSig bliss_signature

record crypto_api =
  sha3_256 :: "byte list \<Rightarrow> byte list"
  dilithium_crypto_sign :: "byte list \<Rightarrow> dilithium_key \<Rightarrow> int \<times> dilithium_signature"
  dilithium_sign_open :: "byte list \<Rightarrow> dilithium_signature \<Rightarrow> dilithium_key \<Rightarrow> int"
  tesla_crypto_sign :: "byte list \<Rightarrow> tesla_key \<Rightarrow> int \<times> tesla_signature"
  tesla_sign_open :: "tesla_signature \<Rightarrow> byte list \<Rightarrow> tesla_key \<Rightarrow> int"
  bliss_b_sign :: "bliss_private_key \<Rightarrow> byte list \<Rightarrow> int \<times> bliss_signature"
  bliss_verify :: "bliss_signature \<Rightarrow> bliss_public_key \<Rightarrow> byte list \<Rightarrow> int"
  picnic_get_sign :: "dap_enc_key \<Rightarrow> byte list \<Rightarrow> u64 \<Rightarrow> byte list"
  picnic_verify_sign :: "dap_enc_key \<Rightarrow> byte list \<Rightarrow> byte list \<Rightarrow> int"
  picnic_signature_size :: "byte list \<Rightarrow> u64"
  picnic_update :: "dap_enc_key \<Rightarrow> dap_enc_key"
  other_key_new :: "int \<Rightarrow> dap_enc_key"

text \<open>Dereferencing key data as the structure of a scheme.\<close>

definition as_key :: "(key_data \<Rightarrow> 'a option) \<Rightarrow> key_data option \<Rightarrow> 'a res" where
  "as_key f d = (case d of None \<Rightarrow> Inl NullDeref | Some Freed \<Rightarrow> Inl BadFree
   | Some x \<Rightarrow> (case f x of None \<Rightarrow> Inl BadCast | Some v \<Rightarrow> Inr v))"

definition dil_of :: "key_data \<Rightarrow> dilithium_key option" where
  "dil_of d = (case d of DilKey k \<Rightarrow> Some k | _ \<Rightarrow> None)"
definition tes_of :: "key_data \<Rightarrow> tesla_key option" where
  "tes_of d = (case d of TesKey k \<Rightarrow> Some k | _ \<Rightarrow> None)"
definition bpr_of :: "key_data \<Rightarrow> bliss_private_key option" where
  "bpr_of d = (case d of BliPriv k \<Rightarrow> Some k | _ \<Rightarrow> None)"
definition bpu_of :: "key_data \<Rightarrow> bliss_public_key option" where
  "bpu_of d = (case d of BliPub k \<Rightarrow> Some k | _ \<Rightarrow> None)"
definition raw_of :: "key_data \<Rightarrow> byte list option" where
  "raw_of d = (case d of Raw bs \<Rightarrow> Some bs | _ \<Rightarrow> None)"

named_theorems key_casts
declare dil_of_def [key_casts] tes_of_def [key_casts] bpr_of_def [key_casts] bpu_of_def [key_casts] raw_of_def [key_casts]

text \<open>\<open>memcpy\<close> of plain key data; none of no bytes touches no memory.\<close>

definition raw_bytes :: "key_data option \<Rightarrow> u64 \<Rightarrow> byte list res" where
  "raw_bytes d n = (if n = 0 then Inr [] else bindE (as_key raw_of d) (\<lambda>bs. chunkE bs 0 (unat n)))"

definition dap_enc_key_serealize_priv_key :: "dap_enc_key \<Rightarrow> byte list option res" where
  "dap_enc_key_serealize_priv_key k =
     (if key_type k = SIG_BLISS then bindE (as_key bpr_of (priv_key_data k)) dap_enc_sig_bliss_write_private_key
      else if key_type k = SIG_TESLA then bindE (as_key tes_of (priv_key_data k)) dap_enc_tesla_write_private_key
      else if key_type k = SIG_DILITHIUM then bindE (as_key dil_of (priv_key_data k)) dap_enc_dilithium_write_private_key
      else bindE (raw_bytes (priv_key_data k) (priv_key_data_size k)) (\<lambda>bs. Inr (Some bs)))"

definition dap_enc_key_serealize_pub_key :: "dap_enc_key \<Rightarrow> byte list option res" where
  "dap_enc_key_serealize_pub_key k =
     (if pub_key_data k = None then Inr None
      else if key_type k = SIG_BLISS then bindE (as_key bpu_of (pub_key_data k)) dap_enc_sig_bliss_write_public_key
      else if key_type k = SIG_TESLA then bindE (as_key tes_of (pub_key_data k)) dap_enc_tesla_write_public_key
      else if key_type k = SIG_DILITHIUM then bindE (as_key dil_of (pub_key_data k)) dap_enc_dilithium_write_public_key
      else bindE (raw_bytes (pub_key_data k) (pub_key_data_size k)) (\<lambda>bs. Inr (Some bs)))"

text \<open>
  What a structure that was read becomes in the key, with the size of the structure; nothing read
  leaves NULL, size 0 and the result -1.
\<close>

definition set_priv :: "dap_enc_key \<Rightarrow> u64 \<Rightarrow> key_data option \<Rightarrow> dap_enc_key \<times> int" where
  "set_priv k n d = (case d of None \<Rightarrow> (k\<lparr>priv_key_data := None, priv_key_data_size := 0\<rparr>, -1)
   | Some x \<Rightarrow> (k\<lparr>priv_key_data := Some x, priv_key_data_size := n\<rparr>, 0))"

definition set_pub :: "dap_enc_key \<Rightarrow> u64 \<Rightarrow> key_data option \<Rightarrow> dap_enc_key \<times> int" where
  "set_pub k n d = (case d of None \<Rightarrow> (k\<lparr>pub_key_data := None, pub_key_data_size := 0\<rparr>, -1)
   | Some x \<Rightarrow> (k\<lparr>pub_key_data := Some x, pub_key_data_size := n\<rparr>, 0))"

definition read_raw :: "byte list option \<Rightarrow> u64 \<Rightarrow> byte list res" where
  "read_raw a_buf n = (case a_buf of None \<Rightarrow> Inl NullDeref | Some m \<Rightarrow> chunkE m 0 (unat n))"

text \<open>
  A private BLISS key that is replaced takes the public one with it: \<open>DAP_DELETE\<close> of \<open>pub_key_data\<close>,
  which keeps its value.  What is replaced is released; releasing a block again is a fault.
\<close>

definition dap_enc_key_deserealize_priv_key ::
    "crypto_api \<Rightarrow> dap_enc_key \<Rightarrow> byte list option \<Rightarrow> u64 \<Rightarrow> (dap_enc_key \<times> int) res" where
  "dap_enc_key_deserealize_priv_key C k a_buf a_buflen =
     (if a_buf = None then Inr (k, -1)
      else if key_type k = SIG_BLISS then
        if priv_key_data k \<noteq> None \<and> pub_key_data k = Some Freed then Inl BadFree
        else let k' = (if priv_key_data k \<noteq> None \<and> pub_key_data k \<noteq> None then k\<lparr>pub_key_data := Some Freed\<rparr> else k) in
        bindE (dap_enc_sig_bliss_read_private_key a_buf a_buflen) (\<lambda>r. Inr (set_priv k' 32 (map_option BliPriv r)))
      else if key_type k = SIG_TESLA then
        bindE (dap_enc_tesla_read_private_key a_buf a_buflen) (\<lambda>r. Inr (set_priv k 16 (map_option TesKey r)))
      else if key_type k = SIG_DILITHIUM then
        bindE (dap_enc_dilithium_read_private_key a_buf a_buflen) (\<lambda>r. Inr (set_priv k 16 (map_option DilKey r)))
      else bindE (read_raw a_buf a_buflen) (\<lambda>bs.
        let k' = k\<lparr>priv_key_data := Some (Raw bs), priv_key_data_size := a_buflen\<rparr> in
        Inr (if key_type k = SIG_PICNIC then picnic_update C k' else k', 0)))"

definition deserealize_pub ::
    "(byte list option \<Rightarrow> u64 \<Rightarrow> dilithium_key option res) \<Rightarrow> crypto_api \<Rightarrow> dap_enc_key \<Rightarrow> byte list option \<Rightarrow> u64 \<Rightarrow>
     (dap_enc_key \<times> int) res" where
  "deserealize_pub read_dilithium C k a_buf a_buflen =
     (if a_buf = None then Inr (k, -1)
      else if pub_key_data k = Some Freed then Inl BadFree
      else if key_type k = SIG_BLISS then
        bindE (dap_enc_sig_bliss_read_public_key a_buf a_buflen) (\<lambda>r. Inr (set_pub k 16 (map_option BliPub r)))
      else if key_type k = SIG_TESLA then
        bindE (dap_enc_tesla_read_public_key a_buf a_buflen) (\<lambda>r. Inr (set_pub k 16 (map_option TesKey r)))
      else if key_type k = SIG_DILITHIUM then
        bindE (read_dilithium a_buf a_buflen) (\<lambda>r. Inr (set_pub k 16 (map_option DilKey r)))
      else bindE (read_raw a_buf a_buflen) (\<lambda>bs.
        let k' = k\<lparr>pub_key_data := Some (Raw bs), pub_key_data_size := a_buflen\<rparr> in
        Inr (if key_type k = SIG_PICNIC then picnic_update C k' else k', 0)))"

definition dap_enc_key_deserealize_pub_key_old ::
    "crypto_api \<Rightarrow> dap_enc_key \<Rightarrow> byte list option \<Rightarrow> u64 \<Rightarrow> (dap_enc_key \<times> int) res" where
  "dap_enc_key_deserealize_pub_key_old = deserealize_pub dap_enc_dilithium_read_public_key_old"

definition dap_enc_key_deserealize_pub_key ::
    "crypto_api \<Rightarrow> dap_enc_key \<Rightarrow> byte list option \<Rightarrow> u64 \<Rightarrow> (dap_enc_key \<times> int) res" where
  "dap_enc_key_deserealize_pub_key = deserealize_pub dap_enc_dilithium_read_public_key"

definition no_key :: "int \<Rightarrow> dap_enc_key" where
  "no_key t = \<lparr>key_type = t, priv_key_data = None, priv_key_data_size = 0, pub_key_data = None, pub_key_data_size = 0,
     last_used_timestamp = 0, inheritor = None, inheritor_size = 0\<rparr>"

lemma no_key_pub [simp]: "pub_key_data (no_key t) = None"
  by (simp add: no_key_def)

text \<open>The table of callbacks has 24 entries; the enum is compared as \<open>size_t\<close>, so -1 is out of range.\<close>

definition dap_enc_key_new :: "crypto_api \<Rightarrow> int \<Rightarrow> dap_enc_key option" where
  "dap_enc_key_new C t =
     (if 0 \<le> t \<and> t < 24 then
        Some (if t = SIG_PICNIC then (no_key t)\<lparr>inheritor := Some [0, 0, 0, 0], inheritor_size := 4\<rparr>
              else if t = SIG_BLISS \<or> t = SIG_TESLA \<or> t = SIG_DILITHIUM then no_key t
              else (other_key_new C t)\<lparr>key_type := t\<rparr>)
      else None)"

definition dap_enc_key_update :: "crypto_api \<Rightarrow> dap_enc_key \<Rightarrow> dap_enc_key" where
  "dap_enc_key_update C k = (if key_type k = SIG_PICNIC then picnic_update C k else k)"

text \<open>The size passed in is written back as the size that was written, or kept when nothing was.\<close>

definition as_sig :: "(sig_data \<Rightarrow> 'a option) \<Rightarrow> sig_data \<Rightarrow> 'a res" where
  "as_sig f s = (case f s of None \<Rightarrow> Inl BadCast | Some v \<Rightarrow> Inr v)"

definition dil_sig_of :: "sig_data \<Rightarrow> dilithium_signature option" where
  "dil_sig_of s = (case s of DilSig x \<Rightarrow> Some x | _ \<Rightarrow> None)"
definition tes_sig_of :: "sig_data \<Rightarrow> tesla_signature option" where
  "tes_sig_of s = (case s of TesSig x \<Rightarrow> Some x | _ \<Rightarrow> None)"
definition bli_sig_of :: "sig_data \<Rightarrow> bliss_signature option" where
  "bli_sig_of s = (case s of BliSig x \<Rightarrow> Some x | _ \<Rightarrow> None)"
definition raw_sig_of :: "sig_data \<Rightarrow> byte list option" where
  "raw_sig_of s = (case s of RawSig x \<Rightarrow> Some x | _ \<Rightarrow> None)"

declare dil_sig_of_def [key_casts] tes_sig_of_def [key_casts] bli_sig_of_def [key_casts] raw_sig_of_def [key_casts]

definition dap_enc_key_serealize_sign :: "int \<Rightarrow> sig_data \<Rightarrow> u64 \<Rightarrow> byte list option res" where
  "dap_enc_key_serealize_sign t s len =
     (if t = SIG_BLISS then bindE (as_sig bli_sig_of s) dap_enc_sig_bliss_write_signature
      else if t = SIG_TESLA then bindE (as_sig tes_sig_of s) (\<lambda>x. dap_enc_tesla_write_signature (Some x) len)
      else if t = SIG_DILITHIUM then bindE (as_sig dil_sig_of s) (\<lambda>x. dap_enc_dilithium_write_signature (Some x))
      else bindE (as_sig raw_sig_of s) (\<lambda>x. bindE (chunkE x 0 (unat len)) (\<lambda>bs. Inr (Some bs))))"

definition sizeof_dilithium_signature :: u64 where "sizeof_dilithium_signature = 24"
definition sizeof_bliss_signature :: u64 where "sizeof_bliss_signature = 32"

text \<open>The signature read and the length left in \<open>a_sign_len\<close>.\<close>

definition dap_enc_key_deserealize_sign :: "int \<Rightarrow> byte list option \<Rightarrow> u64 \<Rightarrow> (sig_data option \<times> u64) res" where
  "dap_enc_key_deserealize_sign t a_sign len =
     (if t = SIG_BLISS then
        bindE (dap_enc_sig_bliss_read_signature a_sign len) (\<lambda>r. Inr (map_option BliSig r, sizeof_bliss_signature))
      else if t = SIG_TESLA then
        bindE (dap_enc_tesla_read_signature a_sign len) (\<lambda>r. Inr (map_option TesSig r, sizeof_tesla_signature))
      else if t = SIG_DILITHIUM then
        bindE (dap_enc_dilithium_read_signature a_sign len) (\<lambda>r. Inr (map_option DilSig r, sizeof_dilithium_signature))
      else bindE (read_raw a_sign len) (\<lambda>bs. Inr (Some (RawSig bs), len)))"

section \<open>Signing and verifying with a scheme\<close>

text \<open>
  \<open>dap_enc_sig_X_get_sign\<close>: the result and the structure afterwards.  The structures handed in are
  zeroed.
\<close>

definition dap_enc_sig_dilithium_get_sign ::
    "crypto_api \<Rightarrow> dap_enc_key \<Rightarrow> byte list \<Rightarrow> u64 \<Rightarrow> (u64 \<times> dilithium_signature) res" where
  "dap_enc_sig_dilithium_get_sign C k msg osize =
     (if osize < sizeof_dilithium_signature then Inr (0, \<lparr>ds_kind = Some 0, ds_data = [], ds_len = 0\<rparr>)
      else bindE (as_key dil_of (priv_key_data k)) (\<lambda>pk.
        case dilithium_crypto_sign C msg pk of (r, s) \<Rightarrow> Inr (if r = 0 then osize else 0, s)))"

definition dap_enc_sig_dilithium_verify_sign ::
    "crypto_api \<Rightarrow> dap_enc_key \<Rightarrow> byte list \<Rightarrow> sig_data \<Rightarrow> u64 \<Rightarrow> int res" where
  "dap_enc_sig_dilithium_verify_sign C k msg s osize =
     (if osize < sizeof_dilithium_signature then Inr 0
      else bindE (as_sig dil_sig_of s) (\<lambda>x. bindE (as_key dil_of (pub_key_data k)) (\<lambda>pk.
        bindE (initE (dk_kind pk)) (\<lambda>pkind. bindE (initE (ds_kind x)) (\<lambda>skind.
        let r = (if pkind \<noteq> skind then -1 else dilithium_sign_open C msg x pk) in
        Inr (if r < 0 then r else 0))))))"

definition dap_enc_sig_tesla_get_sign ::
    "crypto_api \<Rightarrow> dap_enc_key \<Rightarrow> byte list \<Rightarrow> u64 \<Rightarrow> (u64 \<times> tesla_signature) res" where
  "dap_enc_sig_tesla_get_sign C k msg osize =
     (if osize < sizeof_tesla_signature then Inr (0, \<lparr>ts_kind = 0, ts_data = [], ts_len = 0\<rparr>)
      else bindE (as_key tes_of (priv_key_data k)) (\<lambda>pk.
        case tesla_crypto_sign C msg pk of (r, s) \<Rightarrow> Inr (if r = 0 then osize else 0, s)))"

definition dap_enc_sig_tesla_verify_sign ::
    "crypto_api \<Rightarrow> dap_enc_key \<Rightarrow> byte list \<Rightarrow> sig_data \<Rightarrow> u64 \<Rightarrow> int res" where
  "dap_enc_sig_tesla_verify_sign C k msg s osize =
     (if osize < sizeof_tesla_signature then Inr (-6)
      else bindE (as_sig tes_sig_of s) (\<lambda>x. bindE (as_key tes_of (pub_key_data k)) (\<lambda>pk.
        if tk_kind pk \<noteq> ts_kind x then Inl Aborted else Inr (tesla_sign_open C x msg pk))))"

definition dap_enc_sig_bliss_get_sign ::
    "crypto_api \<Rightarrow> dap_enc_key \<Rightarrow> byte list \<Rightarrow> u64 \<Rightarrow> (int \<times> bliss_signature) res" where
  "dap_enc_sig_bliss_get_sign C k msg osize =
     (if osize < sizeof_bliss_signature then Inr (0, \<lparr>bs_kind = 0, bs_z1 = [], bs_z2 = [], bs_c = []\<rparr>)
      else bindE (as_key bpr_of (priv_key_data k)) (\<lambda>pk. Inr (bliss_b_sign C pk msg)))"

definition dap_enc_sig_bliss_verify_sign ::
    "crypto_api \<Rightarrow> dap_enc_key \<Rightarrow> byte list \<Rightarrow> sig_data \<Rightarrow> u64 \<Rightarrow> int res" where
  "dap_enc_sig_bliss_verify_sign C k msg s osize =
     (if osize < sizeof_bliss_signature then Inr (-1)
      else bindE (as_sig bli_sig_of s) (\<lambda>x. bindE (as_key bpu_of (pub_key_data k)) (\<lambda>pk.
        if bpu_kind pk \<noteq> bs_kind x then Inl Aborted else Inr (bliss_verify C x pk msg))))"

section \<open>Signed objects\<close>

definition SIG_TYPE_NULL :: u32 where "SIG_TYPE_NULL = 0"
definition SIG_TYPE_BLISS :: u32 where "SIG_TYPE_BLISS = 1"
definition SIG_TYPE_TESLA :: u32 where "SIG_TYPE_TESLA = 3"
definition SIG_TYPE_PICNIC :: u32 where "SIG_TYPE_PICNIC = 0x0101"
definition SIG_TYPE_DILITHIUM :: u32 where "SIG_TYPE_DILITHIUM = 0x0102"
definition SIG_TYPE_MULTI_CHAINED :: u32 where "SIG_TYPE_MULTI_CHAINED = 0x0f00"
definition SIG_TYPE_MULTI_COMBINED :: u32 where "SIG_TYPE_MULTI_COMBINED = 0x0f01"

declare SIG_TYPE_NULL_def [key_types] SIG_TYPE_BLISS_def [key_types] SIG_TYPE_TESLA_def [key_types]
  SIG_TYPE_PICNIC_def [key_types] SIG_TYPE_DILITHIUM_def [key_types] SIG_TYPE_MULTI_CHAINED_def [key_types]
  SIG_TYPE_MULTI_COMBINED_def [key_types]

definition HASH_TYPE_NONE :: byte where "HASH_TYPE_NONE = 0"
definition HASH_TYPE_SHA3 :: byte where "HASH_TYPE_SHA3 = 1"

text \<open>\<open>pkey_n_sign\<close> is what the block holds behind the header.\<close>

record dap_sign =
  sgn_type :: u32
  hash_type :: byte
  sign_size :: u32
  sign_pkey_size :: u32
  pkey_n_sign :: "byte list"

definition dap_sign_type_from_key_type :: "int \<Rightarrow> u32" where
  "dap_sign_type_from_key_type t =
     (if t = SIG_BLISS then SIG_TYPE_BLISS else if t = SIG_PICNIC then SIG_TYPE_PICNIC
      else if t = SIG_TESLA then SIG_TYPE_TESLA else if t = SIG_DILITHIUM then SIG_TYPE_DILITHIUM else 0)"

definition dap_sign_type_to_key_type :: "u32 \<Rightarrow> int" where
  "dap_sign_type_to_key_type t =
     (if t = SIG_TYPE_BLISS then SIG_BLISS else if t = SIG_TYPE_TESLA then SIG_TESLA
      else if t = SIG_TYPE_PICNIC then SIG_PICNIC else if t = SIG_TYPE_DILITHIUM then SIG_DILITHIUM else KEY_INVALID)"

definition dap_sign_create_output_unserialized_calc_size :: "crypto_api \<Rightarrow> dap_enc_key option \<Rightarrow> u64 res" where
  "dap_sign_create_output_unserialized_calc_size C a_key = (case a_key of None \<Rightarrow> Inr 0
   | Some k \<Rightarrow>
       if key_type k = SIG_BLISS then Inr sizeof_bliss_signature
       else if key_type k = SIG_PICNIC then
         (case inheritor k of None \<Rightarrow> Inl NullDeref | Some p \<Rightarrow> Inr (picnic_signature_size C p))
       else if key_type k = SIG_TESLA then Inr sizeof_tesla_signature
       else if key_type k = SIG_DILITHIUM then Inr sizeof_dilithium_signature
       else Inr 0)"

text \<open>
  The result and the signature in the output buffer.  What the callback of a scheme returns is not
  looked at, and it cannot change \<open>a_output_size\<close>, which it is passed by value.
\<close>

definition dap_sign_create_output :: "crypto_api \<Rightarrow> dap_enc_key \<Rightarrow> byte list \<Rightarrow> u64 \<Rightarrow> (int \<times> sig_data option) res" where
  "dap_sign_create_output C k msg osize =
     (if priv_key_data k = None \<or> priv_key_data_size k = 0 then Inr (-1, None)
      else if key_type k = SIG_TESLA then
        bindE (dap_enc_sig_tesla_get_sign C k msg osize) (\<lambda>(_, s). Inr (if 0 < osize then 0 else -1, Some (TesSig s)))
      else if key_type k = SIG_PICNIC then
        Inr (if 0 < osize then 0 else -1, Some (RawSig (picnic_get_sign C k msg osize)))
      else if key_type k = SIG_DILITHIUM then
        bindE (dap_enc_sig_dilithium_get_sign C k msg osize) (\<lambda>(_, s). Inr (if 0 < osize then 0 else -1, Some (DilSig s)))
      else if key_type k = SIG_BLISS then
        bindE (dap_enc_sig_bliss_get_sign C k msg osize) (\<lambda>(r, s). Inr (if r = 0 then 0 else -1, Some (BliSig s)))
      else Inr (-1, None))"

text \<open>\<open>dap_hash_fast\<close>, inline in \<open>dap_hash.h\<close>: \<open>None\<close> is \<open>false\<close>, with the output left alone.\<close>

definition dap_hash_fast :: "crypto_api \<Rightarrow> byte list option \<Rightarrow> byte list option" where
  "dap_hash_fast C d = (case d of None \<Rightarrow> None | Some bs \<Rightarrow> if bs = [] then None else Some (sha3_256 C bs))"

text \<open>
  The hash of the data for the default hash type: a hash that is not computed leaves a local
  variable uninitialised, which is then signed.
\<close>

definition dap_sign_create :: "crypto_api \<Rightarrow> byte \<Rightarrow> dap_enc_key option \<Rightarrow> byte list option \<Rightarrow> dap_sign option res" where
  "dap_sign_create C hash_default a_key a_data =
     bindE (dap_sign_create_output_unserialized_calc_size C a_key) (\<lambda>osize.
     if osize = 0 then Inr None
     else case a_key of None \<Rightarrow> Inr None
     | Some k \<Rightarrow>
         bindE (dap_enc_key_serealize_pub_key k) (\<lambda>pub. case pub of None \<Rightarrow> Inr None
         | Some l_pub_key \<Rightarrow>
             bindE (if hash_default = HASH_TYPE_NONE then (case a_data of None \<Rightarrow> Inl NullDeref | Some d \<Rightarrow> Inr d)
                    else initE (if hash_default = HASH_TYPE_SHA3 then dap_hash_fast C a_data else None)) (\<lambda>msg.
             bindE (dap_sign_create_output C k msg osize) (\<lambda>(r, s).
             if r \<noteq> 0 then Inr None
             else case s of None \<Rightarrow> Inr None
             | Some x \<Rightarrow> bindE (dap_enc_key_serealize_sign (key_type k) x osize) (\<lambda>ser. case ser of None \<Rightarrow> Inr None
                 | Some l_sign_ser \<Rightarrow>
                     Inr (Some \<lparr>sgn_type = dap_sign_type_from_key_type (key_type k), hash_type = hash_default,
                       sign_size = word_of_nat (length l_sign_ser), sign_pkey_size = word_of_nat (length l_pub_key),
                       pkey_n_sign = l_pub_key @ l_sign_ser\<rparr>))))))"

text \<open>
  The other constructor leaves the hash type 0.
\<close>

definition dap_sign_pack :: "dap_enc_key \<Rightarrow> byte list \<Rightarrow> byte list \<Rightarrow> dap_sign" where
  "dap_sign_pack k a_sign_ser a_pkey =
     \<lparr>sgn_type = dap_sign_type_from_key_type (key_type k), hash_type = 0, sign_size = word_of_nat (length a_sign_ser),
      sign_pkey_size = word_of_nat (length a_pkey), pkey_n_sign = a_pkey @ a_sign_ser\<rparr>"

text \<open>The signature and the public key in place: the memory from the pointer on, and the size.\<close>

definition dap_sign_get_sign :: "dap_sign \<Rightarrow> byte list \<times> u64" where
  "dap_sign_get_sign s = (drop (unat (sign_pkey_size s)) (pkey_n_sign s), ucast (sign_size s))"

definition dap_sign_get_pkey :: "dap_sign \<Rightarrow> byte list \<times> u64" where
  "dap_sign_get_pkey s = (pkey_n_sign s, ucast (sign_pkey_size s))"

definition dap_sign_get_pkey_hash :: "crypto_api \<Rightarrow> dap_sign option \<Rightarrow> byte list option res" where
  "dap_sign_get_pkey_hash C a_sign = (case a_sign of None \<Rightarrow> Inr None
   | Some s \<Rightarrow> if sign_pkey_size s = 0 then Inr None
       else bindE (chunkE (pkey_n_sign s) 0 (unat (sign_pkey_size s))) (\<lambda>bs. Inr (dap_hash_fast C (Some bs))))"

definition dap_sign_match_pkey_signs :: "dap_sign \<Rightarrow> dap_sign \<Rightarrow> bool res" where
  "dap_sign_match_pkey_signs s1 s2 =
     (if sign_pkey_size s1 = sign_pkey_size s2 then
        bindE (chunkE (pkey_n_sign s1) 0 (unat (sign_pkey_size s1))) (\<lambda>p1.
        bindE (chunkE (pkey_n_sign s2) 0 (unat (sign_pkey_size s2))) (\<lambda>p2. Inr (p1 = p2)))
      else Inr False)"

definition sizeof_dap_sign :: nat where "sizeof_dap_sign = 14"

text \<open>The sum of the two sizes is taken in 32 bits before the size of the header is added in 64.\<close>

definition dap_sign_verify_size :: "dap_sign \<Rightarrow> u64 \<Rightarrow> bool" where
  "dap_sign_verify_size s max_size =
     (if sign_size s = 0 \<or> sign_pkey_size s = 0 \<or> sgn_type s = SIG_TYPE_NULL then False
      else if ucast (sign_pkey_size s) > max_size \<or> ucast (sign_size s) > max_size then False
      else if ucast (sign_pkey_size s + sign_size s) + word_of_nat sizeof_dap_sign > max_size then False
      else True)"

definition dap_sign_get_size :: "dap_sign option \<Rightarrow> u64" where
  "dap_sign_get_size a_sign = (case a_sign of None \<Rightarrow> 0
   | Some s \<Rightarrow> if sgn_type s = SIG_TYPE_NULL then 0
       else word_of_nat sizeof_dap_sign + ucast (sign_size s) + ucast (sign_pkey_size s))"

definition dap_sign_to_enc_key :: "crypto_api \<Rightarrow> dap_sign \<Rightarrow> dap_enc_key option res" where
  "dap_sign_to_enc_key C s =
     (let t = dap_sign_type_to_key_type (sgn_type s) in
      if t = KEY_INVALID then Inr None
      else case dap_enc_key_new C t of None \<Rightarrow> Inr None
      | Some k \<Rightarrow> bindE (dap_enc_key_deserealize_pub_key C k (Some (fst (dap_sign_get_pkey s))) (snd (dap_sign_get_pkey s)))
          (\<lambda>(k', _). Inr (Some k')))"

text \<open>The default hash type decides how to hash; the type in the header only whether to.\<close>

definition dap_sign_verify :: "crypto_api \<Rightarrow> byte \<Rightarrow> dap_sign option \<Rightarrow> byte list option \<Rightarrow> int res" where
  "dap_sign_verify C hash_default a_sign a_data = (case (a_sign, a_data) of
     (Some s, Some d) \<Rightarrow>
       bindE (dap_sign_to_enc_key C s) (\<lambda>key. case key of None \<Rightarrow> Inr (-3)
       | Some k \<Rightarrow>
           bindE (dap_enc_key_deserealize_sign (key_type k) (Some (fst (dap_sign_get_sign s))) (ucast (sign_size s))) (\<lambda>(sd, osize).
           case sd of None \<Rightarrow> Inr (-5)
           | Some x \<Rightarrow>
               if hash_type s \<noteq> HASH_TYPE_NONE \<and> hash_default \<noteq> HASH_TYPE_SHA3 then Inr (-5)
               else bindE (if hash_type s = HASH_TYPE_NONE then Inr d else initE (dap_hash_fast C (Some d))) (\<lambda>msg.
                 if key_type k = SIG_TESLA then
                   bindE (dap_enc_sig_tesla_verify_sign C k msg x osize) (\<lambda>r. Inr (if r < 0 then 0 else 1))
                 else if key_type k = SIG_PICNIC then
                   bindE (as_sig raw_sig_of x) (\<lambda>bs. Inr (if picnic_verify_sign C k msg bs < 0 then 0 else 1))
                 else if key_type k = SIG_DILITHIUM then
                   bindE (dap_enc_sig_dilithium_verify_sign C k msg x osize) (\<lambda>r. Inr (if r < 0 then 0 else 1))
                 else if key_type k = SIG_BLISS then
                   bindE (dap_enc_sig_bliss_verify_sign C k msg x osize) (\<lambda>r. Inr (if r \<noteq> 0 then 0 else 1))
                 else Inr (-6))))
   | _ \<Rightarrow> Inr (-2))"

end
