(* ===== verification/MultiSign.thy ===== *)
theory MultiSign
  imports Sign
begin

text \<open>
  Chained multi-signatures (\<open>dap_sign.c\<close>): several keys sign in turn, the first one a hash of the data
  and of who signs, every other one the signature before it.  The object, its serialisation, its
  creation and its verification.
\<close>

text \<open>A pointer of the object: never written, NULL, or to a block.\<close>

datatype 'a pointer = Unset | Null | Block 'a

definition derefE :: "'a pointer \<Rightarrow> 'a res" where
  "derefE p = (case p of Unset \<Rightarrow> Inl Uninit | Null \<Rightarrow> Inl NullDeref | Block x \<Rightarrow> Inr x)"

record multi_sign_key =
  mk_num :: byte
  mk_type :: u32

record multi_sign_meta =
  mm_pkey_size :: u32
  mm_sign_size :: u32

record dap_multi_sign =
  ms_type :: u32
  ms_total_count :: byte
  ms_sign_count :: byte
  ms_key_seq :: "multi_sign_key list pointer"
  ms_meta :: "multi_sign_meta list pointer"
  ms_key_hashes :: "byte list pointer"
  ms_pub_keys :: "byte list pointer"
  ms_sign_data :: "byte list pointer"

definition HASH_SIZE :: nat where "HASH_SIZE = 32"

text \<open>The first entries of an array, all of which are read.\<close>

definition firstE :: "nat \<Rightarrow> 'a list pointer \<Rightarrow> 'a list res" where
  "firstE n p = (if n = 0 then Inr [] else bindE (derefE p) (\<lambda>xs. chunkE xs 0 n))"

definition dap_multi_sign_calc_size :: "dap_multi_sign option \<Rightarrow> u64 res" where
  "dap_multi_sign_calc_size a_sign = (case a_sign of None \<Rightarrow> Inr 0
   | Some s \<Rightarrow> bindE (firstE (unat (ms_sign_count s)) (ms_meta s)) (\<lambda>metas.
       Inr (4 + 2 * 1 + word_of_nat (unat (ms_sign_count s) * (5 + 8)) + word_of_nat (unat (ms_total_count s) * HASH_SIZE) +
            sum_list (map (\<lambda>m. ucast (mm_pkey_size m)) metas) + sum_list (map (\<lambda>m. ucast (mm_sign_size m)) metas))))"

text \<open>The pieces of a block, one after the other, at an offset of 32 bits.\<close>

fun piecesE :: "byte list pointer \<Rightarrow> u32 \<Rightarrow> u32 list \<Rightarrow> byte list list res" where
  "piecesE p shift [] = Inr []"
| "piecesE p shift (n # ns) =
     bindE (if n = 0 then Inr [] else bindE (derefE p) (\<lambda>bs. chunkE bs (unat shift) (unat n))) (\<lambda>x.
     bindE (piecesE p (shift + n) ns) (\<lambda>xs. Inr (x # xs)))"

definition key_bytes :: "multi_sign_key \<Rightarrow> byte list" where
  "key_bytes k = mk_num k # le32 (mk_type k)"

definition meta_bytes :: "multi_sign_meta \<Rightarrow> byte list" where
  "meta_bytes m = le32 (mm_pkey_size m) @ le32 (mm_sign_size m)"

definition dap_multi_sign_serialize :: "dap_multi_sign \<Rightarrow> byte list option res" where
  "dap_multi_sign_serialize s =
     (if ms_type s \<noteq> SIG_TYPE_MULTI_CHAINED then Inr None
      else bindE (dap_multi_sign_calc_size (Some s)) (\<lambda>n.
        let out_len = n + 8; count = unat (ms_sign_count s) in
        bindE (firstE count (ms_key_seq s)) (\<lambda>seq. bindE (firstE count (ms_meta s)) (\<lambda>metas.
        bindE (firstE (unat (ms_total_count s) * HASH_SIZE) (ms_key_hashes s)) (\<lambda>hashes.
        bindE (piecesE (ms_pub_keys s) 0 (map mm_pkey_size metas)) (\<lambda>pubs.
        bindE (piecesE (ms_sign_data s) 0 (map mm_sign_size metas)) (\<lambda>signs.
        bindE (put_fields (new_buf (unat out_len)) 0
          ([le64 out_len, le32 (ms_type s), [ms_total_count s], [ms_sign_count s]] @ map key_bytes seq @
           map meta_bytes metas @ [hashes] @ pubs @ signs)) (\<lambda>buf. Inr (Some buf)))))))))"

text \<open>
  Reading: the loops take what the counts and sizes in the data say; only the length in front is
  compared with the length of the data.  A pointer is written only when its count or size is not 0.
\<close>

fun rd_keys :: "byte list \<Rightarrow> nat \<Rightarrow> nat \<Rightarrow> multi_sign_key list res" where
  "rd_keys m i 0 = Inr []"
| "rd_keys m i (Suc n) = bindE (chunkE m i 1) (\<lambda>b. bindE (rd32 m (i + 1)) (\<lambda>t.
     bindE (rd_keys m (i + 5) n) (\<lambda>ks. Inr (\<lparr>mk_num = hd b, mk_type = t\<rparr> # ks))))"

fun rd_metas :: "byte list \<Rightarrow> nat \<Rightarrow> nat \<Rightarrow> multi_sign_meta list res" where
  "rd_metas m i 0 = Inr []"
| "rd_metas m i (Suc n) = bindE (rd32 m i) (\<lambda>p. bindE (rd32 m (i + 4)) (\<lambda>s.
     bindE (rd_metas m (i + 8) n) (\<lambda>ks. Inr (\<lparr>mm_pkey_size = p, mm_sign_size = s\<rparr> # ks))))"

text \<open>The copies into a block of a size: from the data at a position, to an offset of 32 bits.\<close>

fun rd_pieces :: "byte list \<Rightarrow> nat \<Rightarrow> byte list \<Rightarrow> u32 \<Rightarrow> u32 list \<Rightarrow> (nat \<times> byte list) res" where
  "rd_pieces m i blk shift [] = Inr (i, blk)"
| "rd_pieces m i blk shift (n # ns) = bindE (chunkE m i (unat n)) (\<lambda>x. bindE (blitE blk (unat shift) x) (\<lambda>blk'.
     rd_pieces m (i + unat n) blk' (shift + n) ns))"

definition rd_block :: "byte list \<Rightarrow> nat \<Rightarrow> u32 list \<Rightarrow> (nat \<times> byte list pointer) res" where
  "rd_block m i ns = (let n = sum_list (map unat ns) in
     if n = 0 then Inr (i, Unset)
     else bindE (rd_pieces m i (new_buf n) 0 ns) (\<lambda>(j, blk). Inr (j, Block blk)))"

definition dap_multi_sign_deserialize :: "u32 \<Rightarrow> byte list \<Rightarrow> u64 \<Rightarrow> dap_multi_sign option res" where
  "dap_multi_sign_deserialize a_type m a_sign_len =
     (if a_type \<noteq> SIG_TYPE_MULTI_CHAINED then Inr None
      else bindE (rd64 m 0) (\<lambda>l_sign_len.
        if l_sign_len \<noteq> a_sign_len then Inr None
        else bindE (rd32 m 8) (\<lambda>t. bindE (chunkE m 12 1) (\<lambda>tc. bindE (chunkE m 13 1) (\<lambda>sc.
          let total = unat (hd tc); count = unat (hd sc) in
          bindE (rd_keys m 14 count) (\<lambda>seq. let i = 14 + 5 * count in
          bindE (rd_metas m i count) (\<lambda>metas. let i = i + 8 * count in
          bindE (chunkE m i (total * HASH_SIZE)) (\<lambda>hashes. let i = i + total * HASH_SIZE in
          bindE (rd_block m i (map mm_pkey_size metas)) (\<lambda>(i, pubs).
          bindE (rd_block m i (map mm_sign_size metas)) (\<lambda>(i, signs).
          Inr (Some \<lparr>ms_type = t, ms_total_count = hd tc, ms_sign_count = hd sc,
            ms_key_seq = (if count = 0 then Unset else Block seq), ms_meta = (if count = 0 then Unset else Block metas),
            ms_key_hashes = (if total = 0 then Unset else Block hashes), ms_pub_keys = pubs, ms_sign_data = signs\<rparr>)))))))))))"

section \<open>Creation and verification\<close>

record multi_sign_params =
  mp_type :: u32
  mp_total_count :: byte
  mp_sign_count :: byte
  mp_key_seq :: "byte list"
  mp_keys :: "dap_enc_key list"

text \<open>The variadic arguments: the keys, then the numbers from 1 of those that sign.\<close>

definition dap_multi_sign_params_make :: "u32 \<Rightarrow> byte \<Rightarrow> byte \<Rightarrow> dap_enc_key list \<Rightarrow> int list \<Rightarrow> multi_sign_params" where
  "dap_multi_sign_params_make a_type a_total_count a_sign_count a_keys a_nums =
     \<lparr>mp_type = a_type, mp_total_count = a_total_count, mp_sign_count = a_sign_count,
      mp_key_seq = map (\<lambda>n. word_of_int (n - 1)) (take (unat a_sign_count) a_nums), mp_keys = take (unat a_total_count) a_keys\<rparr>"

definition dap_multi_sign_hash_data :: "crypto_api \<Rightarrow> dap_multi_sign \<Rightarrow> byte list option \<Rightarrow> byte list option res" where
  "dap_multi_sign_hash_data C s a_data = (case dap_hash_fast C a_data of None \<Rightarrow> Inr None
   | Some h1 \<Rightarrow>
       bindE (firstE (unat (ms_sign_count s)) (ms_key_seq s)) (\<lambda>seq.
       case dap_hash_fast C (Some (le32 (ms_type s) @ [ms_total_count s, ms_sign_count s] @ concat (map key_bytes seq))) of
         None \<Rightarrow> Inr None
       | Some h2 \<Rightarrow>
           bindE (derefE (ms_key_hashes s)) (\<lambda>hs. bindE (chunkE hs 0 (unat (ms_total_count s) * HASH_SIZE)) (\<lambda>hashes.
           case dap_hash_fast C (Some hashes) of None \<Rightarrow> Inr None
           | Some h3 \<Rightarrow> Inr (dap_hash_fast C (Some (h1 @ h2 @ h3)))))))"

text \<open>
  The hashes of the keys are taken over the memory of the structures: \<open>mem_image\<close> gives the bytes that a
  pointer to key data leads to, which for the structures of the schemes include the address of the block.
\<close>

fun key_hashes :: "crypto_api \<Rightarrow> (key_data \<Rightarrow> byte list) \<Rightarrow> dap_enc_key list \<Rightarrow> byte list option" where
  "key_hashes C mem_image [] = Some []"
| "key_hashes C mem_image (k # ks) =
     (case dap_hash_fast C (if pub_key_data_size k = 0 then None else map_option (\<lambda>d. mem_image d) (pub_key_data k)) of
        None \<Rightarrow> None
      | Some h \<Rightarrow> (case key_hashes C mem_image ks of None \<Rightarrow> None | Some hs \<Rightarrow> Some (h @ hs)))"

definition nthE :: "'a list \<Rightarrow> nat \<Rightarrow> 'a res" where
  "nthE xs i = (if i < length xs then Inr (xs ! i) else Inl OutOfBounds)"

fun seq_types :: "dap_enc_key list \<Rightarrow> byte list \<Rightarrow> multi_sign_key list res" where
  "seq_types ks [] = Inr []"
| "seq_types ks (n # ns) = bindE (nthE ks (unat n)) (\<lambda>k. bindE (seq_types ks ns) (\<lambda>rest.
     Inr (\<lparr>mk_num = n, mk_type = dap_sign_type_from_key_type (key_type k)\<rparr> # rest)))"

text \<open>
  The signing loop.  \<open>prev\<close> is the signature of the step before (none in the first step, which signs the hash
  of the data); the blocks of public keys and signatures grow at the end.
\<close>

fun sign_steps :: "crypto_api \<Rightarrow> byte \<Rightarrow> dap_enc_key list \<Rightarrow> byte list option \<Rightarrow> multi_sign_key list \<Rightarrow>
    multi_sign_meta list \<times> byte list \<times> byte list \<Rightarrow> (multi_sign_meta list \<times> byte list \<times> byte list) option res" where
  "sign_steps C hd_type ks h [] acc = Inr (Some acc)"
| "sign_steps C hd_type ks h (q # qs) (metas, pubs, signs) = (case h of None \<Rightarrow> Inr None
   | Some l_data_hash \<Rightarrow>
       bindE (nthE ks (unat (mk_num q))) (\<lambda>k.
       bindE (dap_sign_create C hd_type (Some k) (Some l_data_hash)) (\<lambda>step. case step of None \<Rightarrow> Inr None
       | Some s \<Rightarrow>
           bindE (chunkE (fst (dap_sign_get_pkey s)) 0 (unat (sign_pkey_size s))) (\<lambda>l_pkey.
           bindE (chunkE (fst (dap_sign_get_sign s)) 0 (unat (sign_size s))) (\<lambda>l_sign_step.
           sign_steps C hd_type ks (dap_hash_fast C (Some l_sign_step)) qs
             (metas @ [\<lparr>mm_pkey_size = sign_pkey_size s, mm_sign_size = sign_size s\<rparr>], pubs @ l_pkey, signs @ l_sign_step))))))"

definition dap_multi_sign_create ::
    "crypto_api \<Rightarrow> (key_data \<Rightarrow> byte list) \<Rightarrow> byte \<Rightarrow> multi_sign_params \<Rightarrow> byte list option \<Rightarrow> dap_multi_sign option res" where
  "dap_multi_sign_create C mem_image hd_type P a_data =
     (if mp_type P \<noteq> SIG_TYPE_MULTI_CHAINED then Inr None
      else if mp_total_count P = 0 then Inr None
      else bindE (chunkE (mp_keys P) 0 (unat (mp_total_count P))) (\<lambda>ks.
        case key_hashes C mem_image ks of None \<Rightarrow> Inr None
        | Some hs \<Rightarrow>
            bindE (chunkE (mp_key_seq P) 0 (unat (mp_sign_count P))) (\<lambda>nums. bindE (seq_types ks nums) (\<lambda>seq.
            let s = \<lparr>ms_type = mp_type P, ms_total_count = mp_total_count P, ms_sign_count = mp_sign_count P,
                     ms_key_seq = Block seq, ms_meta = Block [], ms_key_hashes = Block hs, ms_pub_keys = Null, ms_sign_data = Null\<rparr> in
            if nums = [] then Inr (Some s)
            else bindE (dap_multi_sign_hash_data C s a_data) (\<lambda>h.
              bindE (sign_steps C hd_type ks h seq ([], [], [])) (\<lambda>r. case r of None \<Rightarrow> Inr None
              | Some (metas, pubs, signs) \<Rightarrow>
                  Inr (Some (s\<lparr>ms_meta := Block metas, ms_pub_keys := Block pubs, ms_sign_data := Block signs\<rparr>))))))))"

text \<open>
  The checking loop, from the last signature to the first.  \<open>pk\<close> and \<open>sg\<close> are the offsets of the step
  in the two blocks.  The header made for a step is zeroed and its hash type is not set.
\<close>

fun verify_steps :: "crypto_api \<Rightarrow> byte \<Rightarrow> dap_multi_sign \<Rightarrow> byte list option \<Rightarrow> nat \<Rightarrow> u32 \<Rightarrow> u32 \<Rightarrow> int \<Rightarrow> int res" where
  "verify_steps C hd_type s a_data 0 pk sg verified = Inr verified"
| "verify_steps C hd_type s a_data (Suc i) pk sg verified =
     bindE (derefE (ms_meta s)) (\<lambda>metas. bindE (derefE (ms_key_seq s)) (\<lambda>seq.
     bindE (derefE (ms_pub_keys s)) (\<lambda>pubs. bindE (derefE (ms_sign_data s)) (\<lambda>signs.
     bindE (nthE metas i) (\<lambda>m. bindE (nthE seq i) (\<lambda>q.
     bindE (chunkE pubs (unat pk) (unat (mm_pkey_size m))) (\<lambda>l_pkey.
     bindE (chunkE signs (unat sg) (unat (mm_sign_size m))) (\<lambda>l_sign.
     let step = \<lparr>sgn_type = mk_type q, hash_type = 0, sign_size = mm_sign_size m, sign_pkey_size = mm_pkey_size m,
                 pkey_n_sign = l_pkey @ l_sign\<rparr> in
     bindE (if i = 0 then Inr (pk, sg, 0) else bindE (nthE metas (i - 1)) (\<lambda>m'.
              Inr (pk - mm_pkey_size m', sg - mm_sign_size m', mm_sign_size m'))) (\<lambda>(pk', sg', prev).
     bindE (if i = 0 then dap_multi_sign_hash_data C s a_data
            else bindE (chunkE signs (unat sg') (unat prev)) (\<lambda>bs. Inr (dap_hash_fast C (Some bs)))) (\<lambda>h.
     case h of None \<Rightarrow> Inr (-1)
     | Some l_data_hash \<Rightarrow>
         bindE (dap_sign_verify C hd_type (Some step) (Some l_data_hash)) (\<lambda>v.
         if v \<noteq> 1 then Inr v else verify_steps C hd_type s a_data i pk' sg' v)))))))))))"

definition dap_multi_sign_verify :: "crypto_api \<Rightarrow> byte \<Rightarrow> dap_multi_sign option \<Rightarrow> byte list option \<Rightarrow> int res" where
  "dap_multi_sign_verify C hd_type a_sign a_data = (case (a_sign, a_data) of
     (Some s, Some d) \<Rightarrow>
       if ms_type s \<noteq> SIG_TYPE_MULTI_CHAINED then Inr (-1)
       else if ms_pub_keys s = Unset \<or> ms_sign_data s = Unset \<or> ms_key_hashes s = Unset \<or> ms_meta s = Unset \<or> ms_key_seq s = Unset
       then Inl Uninit
       else if ms_pub_keys s = Null \<or> ms_sign_data s = Null \<or> ms_key_hashes s = Null \<or> ms_meta s = Null \<or> ms_key_seq s = Null
       then Inr (-1)
       else bindE (derefE (ms_meta s)) (\<lambda>metas. bindE (chunkE metas 0 (unat (ms_sign_count s) - 1)) (\<lambda>before.
         verify_steps C hd_type s (Some d) (unat (ms_sign_count s)) (sum_list (map mm_pkey_size before))
           (sum_list (map mm_sign_size before)) 0))
   | _ \<Rightarrow> Inr (-1))"

end
