(* ===== verification/KeySerProps.thy ===== *)
theory KeySerProps
  imports KeySer Codec
begin

text \<open>
  The formats of keys and signatures against one interface (locale \<open>key_format\<close>): what is written is
  read back, also when other data follow it.  Then what the readers make of foreign data.
\<close>

section \<open>Fields\<close>

lemma length_le32 [simp]: "length (le32 w) = 4" by (simp add: le32_def)
lemma length_le64 [simp]: "length (le64 w) = 8" by (simp add: le64_def)
lemma length_new_buf [simp]: "length (new_buf n) = n" by (simp add: new_buf_def)

lemma le_val_le32: "word_of_nat (le_val (le32 w)) = w"
  using unat_u32_less [of w] by (simp add: le32_def le_val_le_bytes)

lemma unat_u64_less: "unat (w :: u64) < 2 ^ 64"
  using unsigned_less [of w] by simp

lemma le_val_le64: "word_of_nat (le_val (le64 w)) = w"
  using unat_u64_less [of w] by (simp add: le64_def le_val_le_bytes)

lemma chunkE_at: "length pre = i \<Longrightarrow> length d = n \<Longrightarrow> chunkE (pre @ d @ z) i n = Inr d"
  by (simp add: chunkE_def chunk_def)

lemma rd32_at: "length pre = i \<Longrightarrow> rd32 (pre @ le32 w @ z) i = Inr w"
  unfolding rd32_def by (simp add: chunkE_at le_val_le32 del: chunkE_Inr)

lemma rd64_at: "length pre = i \<Longrightarrow> rd64 (pre @ le64 w @ z) i = Inr w"
  unfolding rd64_def by (simp add: chunkE_at le_val_le64 del: chunkE_Inr)

text \<open>The first fields of the formats: the length, the kind, and for a signature its length.\<close>

lemma header_fields:
  "rd64 (le64 a @ z) 0 = Inr a"
  "rd32 (le64 a @ le32 k @ z) 8 = Inr k"
  "rd64 (le64 a @ le32 k @ le64 n @ z) 12 = Inr n"
  "length d = i \<Longrightarrow> chunkE (le64 a @ le32 k @ d @ z) 12 i = Inr d"
  "length d = i \<Longrightarrow> chunkE (le64 a @ le32 k @ le64 n @ d @ z) 20 i = Inr d"
  using rd64_at [of "[]" 0 a z] rd32_at [of "le64 a" 8 k z] rd64_at [of "le64 a @ le32 k" 12 n z]
    chunkE_at [of "le64 a @ le32 k" 12 d i z] chunkE_at [of "le64 a @ le32 k @ le64 n" 20 d i z]
  by simp_all

lemma put_fields_concat:
  "i + length (concat fs) = length buf \<Longrightarrow> put_fields buf i fs = Inr (take i buf @ concat fs)"
proof (induction fs arbitrary: buf i)
  case (Cons f fs)
  have 1: "i + length f \<le> length buf" using Cons.prems by simp
  have "put_fields (blit buf i f) (i + length f) fs = Inr (take (i + length f) (blit buf i f) @ concat fs)"
    using Cons.prems by (intro Cons.IH) simp
  moreover have "take (i + length f) (blit buf i f) = take i buf @ f"
    using 1 by (simp add: blit_def)
  ultimately show ?case using 1 by simp
qed simp

lemma put_fields_new: "length (concat fs) = n \<Longrightarrow> put_fields (new_buf n) 0 fs = Inr (concat fs)"
  using put_fields_concat [of 0 fs "new_buf n"] by simp

lemma cells32_Cons: "cells32 (x # xs) = le32 x @ cells32 xs"
  by (simp add: cells32_def le32_def)

lemma u32_at_cells32: "i < length xs \<Longrightarrow> u32_at (cells32 xs) i = xs ! i"
proof (induction xs arbitrary: i)
  case (Cons x xs)
  show ?case
  proof (cases i)
    case 0
    have "chunk (le32 x @ cells32 xs) 0 4 = le_bytes 4 (unat x)" by (simp add: chunk_def le32_def)
    then show ?thesis using 0 u32_at_le_bytes [of "le32 x @ cells32 xs" 0 x] by (simp add: cells32_Cons)
  next
    case (Suc j)
    have "chunk (le32 x @ cells32 xs) (4 * Suc j) 4 = chunk (cells32 xs) (4 * j) 4"
      by (simp add: chunk_def)
    then show ?thesis using Suc Cons by (simp add: cells32_Cons u32_at_def)
  qed
qed simp

lemma cellsE_all [simp]: "length xs = n \<Longrightarrow> cellsE xs n = Inr (cells32 xs)"
  by (simp add: cellsE_def)

lemma rd_cells_at:
  assumes "length pre = i" "length xs = n"
  shows "rd_cells (pre @ cells32 xs @ z) i n = Inr xs"
proof -
  have "map (u32_at (cells32 xs)) [0..<n] = xs"
    using assms(2) by (intro nth_equalityI) (simp_all add: u32_at_cells32)
  then show ?thesis
    using assms chunkE_at [of pre i "cells32 xs" "4 * n" z] by (simp add: rd_cells_def del: chunkE_Inr)
qed

section \<open>The tables\<close>

lemma dilithium_sizes:
  assumes "dilithium_params_init kind = Some p"
  shows "unat (dil_SECRETKEYBYTES p) \<le> 3856" "unat (dil_PUBLICKEYBYTES p) \<le> 1760" "896 \<le> unat (dil_PUBLICKEYBYTES p)"
proof -
  have k: "kind \<le> 3" "p = dilithium_params ! unat kind"
    using assms by (simp_all add: dilithium_params_init_def split: if_splits)
  have "unat kind < length dilithium_params" using k(1) by (simp add: dilithium_params_def word_le_nat_alt)
  then have "p \<in> set dilithium_params" using k(2) by simp
  then show "unat (dil_SECRETKEYBYTES p) \<le> 3856" "unat (dil_PUBLICKEYBYTES p) \<le> 1760" "896 \<le> unat (dil_PUBLICKEYBYTES p)"
    by (auto simp: dilithium_params_def)
qed

lemma tesla_sizes:
  assumes "tesla_params_init kind = Some p"
  shows "unat (tes_SECRETKEYBYTES p) \<le> 12352" "unat (tes_PUBLICKEYBYTES p) \<le> 39712"
proof -
  have k: "kind \<le> 4" "p = tesla_params ! unat kind"
    using assms by (simp_all add: tesla_params_init_def split: if_splits)
  have "unat kind < length tesla_params" using k(1) by (simp add: tesla_params_def word_le_nat_alt)
  then have "p \<in> set tesla_params" using k(2) by simp
  then show "unat (tes_SECRETKEYBYTES p) \<le> 12352" "unat (tes_PUBLICKEYBYTES p) \<le> 39712"
    by (auto simp: tesla_params_def)
qed

lemma bliss_sizes:
  assumes "bliss_params_init kind = Some p"
  shows "unat (bli_n p) \<le> 512" "unat (bli_kappa p) \<le> 39"
proof -
  have k: "kind \<le> 4" "p = bliss_b_params ! unat kind"
    using assms by (simp_all add: bliss_params_init_def split: if_splits)
  have "unat kind < length bliss_b_params" using k(1) by (simp add: bliss_b_params_def word_le_nat_alt)
  then have "p \<in> set bliss_b_params" using k(2) by simp
  then show "unat (bli_n p) \<le> 512" "unat (bli_kappa p) \<le> 39"
    by (auto simp: bliss_b_params_def)
qed

section \<open>The interface\<close>

text \<open>
  A format writes a value into a block of less than 2^32 bytes and reads it back from the start of any
  memory that holds the block.
\<close>

locale key_format =
  fixes wr :: "'v \<Rightarrow> byte list option res"
    and rd :: "byte list option \<Rightarrow> u64 \<Rightarrow> 'v option res"
    and valid :: "'v \<Rightarrow> bool"
  assumes wr_rd: "valid v \<Longrightarrow> \<exists>bs. wr v = Inr (Some bs) \<and> bs \<noteq> [] \<and> length bs < 2 ^ 32 \<and>
      (\<forall>z. rd (Some (bs @ z)) (word_of_nat (length bs)) = Inr (Some v))"
begin

definition text_of :: "'v \<Rightarrow> byte list" where
  "text_of v = (case wr v of Inr (Some bs) \<Rightarrow> bs | _ \<Rightarrow> [])"

definition value_of :: "byte list \<Rightarrow> 'v option" where
  "value_of bs = (case rd (Some bs) (word_of_nat (length bs)) of Inr v \<Rightarrow> v | Inl _ \<Rightarrow> None)"

lemma wr_text: "valid v \<Longrightarrow> wr v = Inr (Some (text_of v))"
  using wr_rd [of v] by (auto simp: text_of_def)

lemma text_size: "valid v \<Longrightarrow> text_of v \<noteq> [] \<and> length (text_of v) < 2 ^ 32"
  using wr_rd [of v] by (auto simp: text_of_def)

lemma rd_text: "valid v \<Longrightarrow> rd (Some (text_of v @ z)) (word_of_nat (length (text_of v))) = Inr (Some v)"
  using wr_rd [of v] by (auto simp: text_of_def)

sublocale codec text_of value_of valid
  by unfold_locales (use rd_text [where z = "[]"] in \<open>simp add: value_of_def\<close>)

end

section \<open>The formats\<close>

definition dilithium_signature_ok :: "dilithium_signature \<Rightarrow> bool" where
  "dilithium_signature_ok s \<longleftrightarrow> (\<exists>k. ds_kind s = Some k \<and> k \<le> 3) \<and> length (ds_data s) = unat (ds_len s) \<and>
     length (ds_data s) + 20 < 2 ^ 32"

definition dilithium_key_ok :: "(dilithium_param \<Rightarrow> u32) \<Rightarrow> dilithium_key \<Rightarrow> bool" where
  "dilithium_key_ok bytes v \<longleftrightarrow> (\<exists>k p. dk_kind v = Some k \<and> dilithium_params_init k = Some p \<and>
     length (dk_data v) = unat (bytes p))"

definition tesla_signature_ok :: "tesla_signature \<Rightarrow> bool" where
  "tesla_signature_ok s \<longleftrightarrow> ts_kind s \<le> 4 \<and> length (ts_data s) = unat (ts_len s) \<and> length (ts_data s) + 20 < 2 ^ 32"

definition tesla_key_ok :: "(tesla_param \<Rightarrow> u32) \<Rightarrow> tesla_key \<Rightarrow> bool" where
  "tesla_key_ok bytes v \<longleftrightarrow> (\<exists>p. tesla_params_init (tk_kind v) = Some p \<and> length (tk_data v) = unat (bytes p))"

definition bliss_signature_ok :: "bliss_signature \<Rightarrow> bool" where
  "bliss_signature_ok s \<longleftrightarrow> (\<exists>p. bliss_params_init (bs_kind s) = Some p \<and> length (bs_z1 s) = unat (bli_n p) \<and>
     length (bs_z2 s) = unat (bli_n p) \<and> length (bs_c s) = unat (bli_kappa p))"

definition bliss_private_key_ok :: "bliss_private_key \<Rightarrow> bool" where
  "bliss_private_key_ok v \<longleftrightarrow> (\<exists>p. bliss_params_init (bpr_kind v) = Some p \<and> length (bpr_s1 v) = unat (bli_n p) \<and>
     length (bpr_s2 v) = unat (bli_n p) \<and> length (bpr_a v) = unat (bli_n p))"

definition bliss_public_key_ok :: "bliss_public_key \<Rightarrow> bool" where
  "bliss_public_key_ok v \<longleftrightarrow> (\<exists>p. bliss_params_init (bpu_kind v) = Some p \<and> length (bpu_a v) = unat (bli_n p))"

lemma unat_of_small: "n < 2 ^ 64 \<Longrightarrow> unat (word_of_nat n :: u64) = n"
  by (simp add: unat_of_nat take_bit_nat_eq_self_iff)

lemma less_of_small: "m < 2 ^ 64 \<Longrightarrow> n < 2 ^ 64 \<Longrightarrow> (word_of_nat m :: u64) < word_of_nat n \<longleftrightarrow> m < n"
  by (simp add: word_less_nat_alt unat_of_small)

lemma add_nonzero_neq: "(c :: u64) \<noteq> 0 \<Longrightarrow> a + c \<noteq> a"
  by simp

lemma dilithium_signature_format:
  assumes "dilithium_signature_ok v"
  defines "n \<equiv> 20 + length (ds_data v)"
  defines "bs \<equiv> le64 (word_of_nat n) @ le32 (the (ds_kind v)) @ le64 (ds_len v) @ ds_data v"
  shows "dap_enc_dilithium_write_signature (Some v) = Inr (Some bs)"
    "dap_enc_dilithium_read_signature (Some (bs @ z)) (word_of_nat (length bs)) = Inr (Some v)"
proof -
  obtain k where k: "ds_kind v = Some k" "k \<le> 3" and d: "length (ds_data v) = unat (ds_len v)" "length (ds_data v) + 20 < 2 ^ 32"
    using assms by (auto simp: dilithium_signature_ok_def)
  have w: "(word_of_nat n :: u64) = 20 + ds_len v" using d by (simp add: n_def)
  have un: "unat (20 + ds_len v) = n"
    using d(2) unat_of_small [of n] unfolding w [symmetric] by (simp add: n_def)
  have cs: "dap_enc_dilithium_calc_signagture_size v = 20 + ds_len v"
    by (simp add: dap_enc_dilithium_calc_signagture_size_def)
  have "put_fields (new_buf n) 0 [le64 (20 + ds_len v), le32 k, le64 (ds_len v), ds_data v] =
      Inr (concat [le64 (20 + ds_len v), le32 k, le64 (ds_len v), ds_data v])"
    by (rule put_fields_new) (simp add: n_def)
  then show "dap_enc_dilithium_write_signature (Some v) = Inr (Some bs)"
    using k(1) d by (simp add: dap_enc_dilithium_write_signature_def initE_def cs un bs_def w Let_def)
  have bs: "bs @ z = le64 (word_of_nat n) @ le32 k @ le64 (ds_len v) @ ds_data v @ z"
    using k(1) by (simp add: bs_def)
  have lb: "length bs = n" by (simp add: bs_def n_def)
  have p: "dilithium_params_init k \<noteq> None" using k(2) by (simp add: dilithium_params_init_def)
  have ge: "\<not> (word_of_nat n :: u64) < 20"
    using d(2) less_of_small [of n 20] by (simp add: n_def)
  have big: "\<not> (0xffffffffffffffff - 20 :: u64) < ds_len v"
    using d by (simp add: word_less_nat_alt)
  have ne: "ds_len v + 20 + 8 \<noteq> word_of_nat n" "ds_len v + 20 + 4 \<noteq> word_of_nat n"
    unfolding w using add_nonzero_neq [of 8 "20 + ds_len v"] add_nonzero_neq [of 4 "20 + ds_len v"]
    by (simp_all only: add.commute [of "ds_len v"]) simp_all
  have le: "\<not> (word_of_nat n :: u64) < 20 + ds_len v" by (simp add: w)
  show "dap_enc_dilithium_read_signature (Some (bs @ z)) (word_of_nat (length bs)) = Inr (Some v)"
    using ge p big ne le k(1) d(1) unfolding lb bs
    by (simp add: dap_enc_dilithium_read_signature_def header_fields Let_def del: chunkE_Inr)
qed

lemma tesla_signature_format:
  assumes "tesla_signature_ok v"
  defines "n \<equiv> 20 + length (ts_data v)"
  defines "bs \<equiv> le64 (word_of_nat n) @ le32 (ts_kind v) @ le64 (ts_len v) @ ts_data v"
  shows "dap_enc_tesla_write_signature (Some v) sizeof_tesla_signature = Inr (Some bs)"
    "dap_enc_tesla_read_signature (Some (bs @ z)) (word_of_nat (length bs)) = Inr (Some v)"
proof -
  have d: "length (ts_data v) = unat (ts_len v)" "length (ts_data v) + 20 < 2 ^ 32" "ts_kind v \<le> 4"
    using assms by (auto simp: tesla_signature_ok_def)
  have w: "(word_of_nat n :: u64) = 20 + ts_len v" using d by (simp add: n_def)
  have un: "unat (20 + ts_len v) = n"
    using d(2) unat_of_small [of n] unfolding w [symmetric] by (simp add: n_def)
  have cs: "dap_enc_tesla_calc_signature_serialized_size v = 20 + ts_len v"
    by (simp add: dap_enc_tesla_calc_signature_serialized_size_def add.commute)
  have "put_fields (new_buf n) 0 [le64 (20 + ts_len v), le32 (ts_kind v), le64 (ts_len v), ts_data v] =
      Inr (concat [le64 (20 + ts_len v), le32 (ts_kind v), le64 (ts_len v), ts_data v])"
    by (rule put_fields_new) (simp add: n_def)
  then show "dap_enc_tesla_write_signature (Some v) sizeof_tesla_signature = Inr (Some bs)"
    using d by (simp add: dap_enc_tesla_write_signature_def cs un bs_def w Let_def)
  have bs: "bs @ z = le64 (word_of_nat n) @ le32 (ts_kind v) @ le64 (ts_len v) @ ts_data v @ z"
    by (simp add: bs_def)
  have lb: "length bs = n" by (simp add: bs_def n_def)
  have ge: "\<not> (word_of_nat n :: u64) < 12"
    using d(2) less_of_small [of n 12] by (simp add: n_def)
  show "dap_enc_tesla_read_signature (Some (bs @ z)) (word_of_nat (length bs)) = Inr (Some v)"
    using ge d unfolding lb bs
    by (simp add: dap_enc_tesla_read_signature_def tesla_params_init_def header_fields del: chunkE_Inr)
qed

text \<open>The keys of Dilithium and TESLA: a length, a kind and a block whose size the kind gives.\<close>

lemma le64_ne [simp]: "le64 w \<noteq> []"
  by (metis length_le64 list.size(3) zero_neq_numeral)

lemma ucast_size: "(ucast (w :: u32) :: u64) = word_of_nat (unat w)"
  by simp

lemma key_size:
  assumes "unat w \<le> (39712 :: nat)"
  obtains N :: u64 where "N = word_of_nat (12 + unat (w :: u32))" "\<not> N < 12" "N + 8 \<noteq> 12" "12 + ucast w = N" "N + 8 \<noteq> N" "N + 4 \<noteq> N"
proof (rule that [OF refl])
  have u: "unat (word_of_nat (12 + unat w) :: u64) = 12 + unat w" using assms by (intro unat_of_small) simp
  show "\<not> (word_of_nat (12 + unat w) :: u64) < 12" unfolding word_less_nat_alt u by simp
  have v: "unat ((word_of_nat (12 + unat w) :: u64) + 8) = 12 + unat w + 8"
    using assms u by (subst unat_add_64) simp_all
  show "(word_of_nat (12 + unat w) :: u64) + 8 \<noteq> 12"
  proof
    assume e: "(word_of_nat (12 + unat w) :: u64) + 8 = 12"
    show False using v unfolding e by simp
  qed
  show "12 + ucast w = (word_of_nat (12 + unat w) :: u64)" by simp
  show "(word_of_nat (12 + unat w) :: u64) + 8 \<noteq> word_of_nat (12 + unat w)"
    "(word_of_nat (12 + unat w) :: u64) + 4 \<noteq> word_of_nat (12 + unat w)"
    by (rule add_nonzero_neq; simp)+
qed

lemma key_text:
  assumes "length d = n"
  shows "put_fields (new_buf (8 + 4 + n)) 0 [le64 N, le32 k, d] = Inr (le64 N @ le32 k @ d)"
  using assms put_fields_new [of "[le64 N, le32 k, d]" "12 + n"] by simp

lemma dilithium_private_key_format:
  assumes "dilithium_key_ok dil_SECRETKEYBYTES v"
  shows "\<exists>bs. dap_enc_dilithium_write_private_key v = Inr (Some bs) \<and> bs \<noteq> [] \<and> length bs < 2 ^ 32 \<and>
    (\<forall>z. dap_enc_dilithium_read_private_key (Some (bs @ z)) (word_of_nat (length bs)) = Inr (Some v))"
proof -
  obtain k p where k: "dk_kind v = Some k" "dilithium_params_init k = Some p" "length (dk_data v) = unat (dil_SECRETKEYBYTES p)"
    using assms by (auto simp: dilithium_key_ok_def)
  have le: "unat (dil_SECRETKEYBYTES p) \<le> 39712" using dilithium_sizes(1) [OF k(2)] by simp
  obtain N :: u64 where N: "N = word_of_nat (12 + unat (dil_SECRETKEYBYTES p))" "\<not> N < 12" "N + 8 \<noteq> 12"
      "12 + ucast (dil_SECRETKEYBYTES p) = N" "N + 8 \<noteq> N" "N + 4 \<noteq> N"
    by (rule key_size [OF le])
  let ?bs = "le64 N @ le32 k @ dk_data v"
  have lb: "word_of_nat (length ?bs) = N" "length ?bs < 2 ^ 32" using k(3) N(1) le by simp_all
  have "dap_enc_dilithium_read_private_key (Some (?bs @ z)) N = Inr (Some v)" for z
    unfolding dap_enc_dilithium_read_private_key_def append_assoc
    using N(2-6) k by (simp add: header_fields Let_def del: chunkE_Inr)
  moreover have "dap_enc_dilithium_write_private_key v = Inr (Some ?bs)"
    using k key_text [OF k(3), of N k]
    by (simp add: dap_enc_dilithium_write_private_key_def dilithium_write_key_def initE_def N(1) Let_def)
  ultimately show ?thesis using lb by (intro exI [of _ ?bs]) simp
qed

lemma dilithium_public_key_format:
  assumes "dilithium_key_ok dil_PUBLICKEYBYTES v"
  shows "\<exists>bs. dap_enc_dilithium_write_public_key v = Inr (Some bs) \<and> bs \<noteq> [] \<and> length bs < 2 ^ 32 \<and>
    (\<forall>z. dap_enc_dilithium_read_public_key (Some (bs @ z)) (word_of_nat (length bs)) = Inr (Some v))"
proof -
  obtain k p where k: "dk_kind v = Some k" "dilithium_params_init k = Some p" "length (dk_data v) = unat (dil_PUBLICKEYBYTES p)"
    using assms by (auto simp: dilithium_key_ok_def)
  have le: "unat (dil_PUBLICKEYBYTES p) \<le> 39712" using dilithium_sizes(2) [OF k(2)] by simp
  obtain N :: u64 where N: "N = word_of_nat (12 + unat (dil_PUBLICKEYBYTES p))" "\<not> N < 12" "N + 8 \<noteq> 12"
      "12 + ucast (dil_PUBLICKEYBYTES p) = N" "N + 8 \<noteq> N" "N + 4 \<noteq> N"
    by (rule key_size [OF le])
  let ?bs = "le64 N @ le32 k @ dk_data v"
  have lb: "word_of_nat (length ?bs) = N" "length ?bs < 2 ^ 32" using k(3) N(1) le by simp_all
  have "dap_enc_dilithium_read_public_key (Some (?bs @ z)) N = Inr (Some v)" for z
    unfolding dap_enc_dilithium_read_public_key_def append_assoc
    using N(2-6) k by (simp add: header_fields Let_def del: chunkE_Inr)
  moreover have "dap_enc_dilithium_write_public_key v = Inr (Some ?bs)"
    using k key_text [OF k(3), of N k]
    by (simp add: dap_enc_dilithium_write_public_key_def dilithium_write_key_def initE_def N(1) Let_def)
  ultimately show ?thesis using lb by (intro exI [of _ ?bs]) simp
qed

lemma tesla_key_format:
  assumes "tesla_key_ok bytes v" "\<And>k p. tesla_params_init k = Some p \<Longrightarrow> unat (bytes p) \<le> 39712"
  shows "\<exists>bs. tesla_write_key bytes v = Inr (Some bs) \<and> bs \<noteq> [] \<and> length bs < 2 ^ 32 \<and>
    (\<forall>z. tesla_read_key bytes (Some (bs @ z)) (word_of_nat (length bs)) = Inr (Some v))"
proof -
  obtain p where k: "tesla_params_init (tk_kind v) = Some p" "length (tk_data v) = unat (bytes p)"
    using assms by (auto simp: tesla_key_ok_def)
  have le: "unat (bytes p) \<le> 39712" using assms(2) k(1) by blast
  obtain N :: u64 where N: "N = word_of_nat (12 + unat (bytes p))" "\<not> N < 12" "N + 8 \<noteq> 12"
      "12 + ucast (bytes p) = N" "N + 8 \<noteq> N" "N + 4 \<noteq> N"
    by (rule key_size [OF le])
  let ?bs = "le64 N @ le32 (tk_kind v) @ tk_data v"
  have lb: "word_of_nat (length ?bs) = N" "length ?bs < 2 ^ 32" using k(2) N(1) le by simp_all
  have "tesla_read_key bytes (Some (?bs @ z)) N = Inr (Some v)" for z
    unfolding tesla_read_key_def append_assoc
    using N(2) k by (simp add: header_fields del: chunkE_Inr)
  moreover have "tesla_write_key bytes v = Inr (Some ?bs)"
    using k key_text [OF k(2), of N "tk_kind v"] by (simp add: tesla_write_key_def N(1) Let_def)
  ultimately show ?thesis using lb by (intro exI [of _ ?bs]) simp
qed

lemma length_cells: "length (cells32 xs) = 4 * length xs"
  by simp

text \<open>The formats of BLISS: arrays of cells behind the length and the kind.\<close>

lemma rd_cells_header:
  "length xs = n \<Longrightarrow> rd_cells (le64 N @ le32 k @ cells32 xs @ z) 12 n = Inr xs"
  "length xs = n \<Longrightarrow> length ys = m \<Longrightarrow> rd_cells (le64 N @ le32 k @ cells32 xs @ cells32 ys @ z) (12 + 4 * n) m = Inr ys"
  "length xs = n \<Longrightarrow> length ys = m \<Longrightarrow> length ws = l \<Longrightarrow>
    rd_cells (le64 N @ le32 k @ cells32 xs @ cells32 ys @ cells32 ws @ z) (12 + 4 * n + 4 * m) l = Inr ws"
  using rd_cells_at [of "le64 N @ le32 k" 12 xs n z] rd_cells_at [of "le64 N @ le32 k @ cells32 xs" "12 + 4 * n" ys m z]
    rd_cells_at [of "le64 N @ le32 k @ cells32 xs @ cells32 ys" "12 + 4 * n + 4 * m" ws l z]
  by simp_all

lemma rd_cells_third:
  assumes "length xs = n" "length ys = n" "length ws = l"
  shows "rd_cells (le64 N @ le32 k @ cells32 xs @ cells32 ys @ cells32 ws @ z) (8 * n + 12) l = Inr ws"
  using rd_cells_header(3) [OF assms, of N k z] by (simp add: algebra_simps)

lemma bliss_len:
  assumes "n \<le> 2 ^ 20"
  obtains N :: u64 where "N = word_of_nat (8 + 4 + n)" "\<not> N < 12"
proof (rule that [OF refl])
  have u: "unat (word_of_nat (8 + 4 + n) :: u64) = 12 + n" using assms by (subst unat_of_small) simp_all
  show "\<not> (word_of_nat (8 + 4 + n) :: u64) < 12" unfolding word_less_nat_alt u by simp
qed

lemma key_fields:
  assumes "length (concat ds) = n"
  shows "put_fields (new_buf (8 + 4 + n)) 0 (le64 N # le32 k # ds) = Inr (le64 N @ le32 k @ concat ds)"
  using assms put_fields_new [of "le64 N # le32 k # ds" "8 + 4 + n"] by (simp del: put_fields.simps)

lemma bliss_signature_format:
  assumes "bliss_signature_ok v"
  shows "\<exists>bs. dap_enc_sig_bliss_write_signature v = Inr (Some bs) \<and> bs \<noteq> [] \<and> length bs < 2 ^ 32 \<and>
    (\<forall>z. dap_enc_sig_bliss_read_signature (Some (bs @ z)) (word_of_nat (length bs)) = Inr (Some v))"
proof -
  obtain p where p: "bliss_params_init (bs_kind v) = Some p" and l: "length (bs_z1 v) = unat (bli_n p)"
      "length (bs_z2 v) = unat (bli_n p)" "length (bs_c v) = unat (bli_kappa p)"
    using assms by (auto simp: bliss_signature_ok_def)
  obtain n kp where nk: "n = unat (bli_n p)" "kp = unat (bli_kappa p)" "n \<le> 512" "kp \<le> 39"
    using bliss_sizes [OF p] by blast
  obtain N :: u64 where N: "N = word_of_nat (8 + 4 + (n * 2 * 4 + kp * 4))" "\<not> N < 12"
    using bliss_len [of "n * 2 * 4 + kp * 4"] nk by auto
  let ?d = "cells32 (bs_z1 v) @ cells32 (bs_z2 v) @ cells32 (bs_c v)"
  let ?bs = "le64 N @ le32 (bs_kind v) @ ?d"
  have lb: "length ?bs = 8 + 4 + (n * 2 * 4 + kp * 4)" using l nk by simp
  have small: "length ?bs < 2 ^ 32" unfolding lb using nk by simp
  have "put_fields (new_buf (8 + 4 + (n * 2 * 4 + kp * 4))) 0
      [le64 N, le32 (bs_kind v), cells32 (bs_z1 v), cells32 (bs_z2 v), cells32 (bs_c v)] = Inr ?bs"
    using l nk key_fields [of "[cells32 (bs_z1 v), cells32 (bs_z2 v), cells32 (bs_c v)]" "n * 2 * 4 + kp * 4" N "bs_kind v"]
    by (simp del: put_fields.simps)
  then have "dap_enc_sig_bliss_write_signature v = Inr (Some ?bs)"
    using p l by (simp add: dap_enc_sig_bliss_write_signature_def Let_def N(1) nk(1,2) add.assoc del: put_fields.simps)
  moreover have "dap_enc_sig_bliss_read_signature (Some (?bs @ z)) N = Inr (Some v)" for z
    unfolding dap_enc_sig_bliss_read_signature_def append_assoc
    using N(2) p l by (simp add: header_fields(1,2) rd_cells_header rd_cells_third Let_def)
  moreover have "word_of_nat (length ?bs) = N" unfolding lb by (rule N(1) [symmetric])
  ultimately show ?thesis using small by (intro exI [of _ ?bs]) simp
qed

lemma bliss_private_key_format:
  assumes "bliss_private_key_ok v"
  shows "\<exists>bs. dap_enc_sig_bliss_write_private_key v = Inr (Some bs) \<and> bs \<noteq> [] \<and> length bs < 2 ^ 32 \<and>
    (\<forall>z. dap_enc_sig_bliss_read_private_key (Some (bs @ z)) (word_of_nat (length bs)) = Inr (Some v))"
proof -
  obtain p where p: "bliss_params_init (bpr_kind v) = Some p" and l: "length (bpr_s1 v) = unat (bli_n p)"
      "length (bpr_s2 v) = unat (bli_n p)" "length (bpr_a v) = unat (bli_n p)"
    using assms by (auto simp: bliss_private_key_ok_def)
  obtain n where n: "n = unat (bli_n p)" "n \<le> 512" using bliss_sizes [OF p] by blast
  obtain N :: u64 where N: "N = word_of_nat (8 + 4 + 3 * n * 4)" "\<not> N < 12"
    using bliss_len [of "3 * n * 4"] n by auto
  let ?ds = "[cells32 (bpr_s1 v), cells32 (bpr_s2 v), cells32 (bpr_a v)]"
  let ?bs = "le64 N @ le32 (bpr_kind v) @ concat ?ds"
  have lb: "length ?bs = 8 + 4 + 3 * n * 4" using l n by simp
  have small: "length ?bs < 2 ^ 32" unfolding lb using n by simp
  have "put_fields (new_buf (8 + 4 + 3 * n * 4)) 0 (le64 N # le32 (bpr_kind v) # ?ds) = Inr ?bs"
    using l n by (intro key_fields) simp
  then have "dap_enc_sig_bliss_write_private_key v = Inr (Some ?bs)"
    using p l by (simp add: dap_enc_sig_bliss_write_private_key_def Let_def N(1) n(1) del: put_fields.simps)
  moreover have "dap_enc_sig_bliss_read_private_key (Some (?bs @ z)) N = Inr (Some v)" for z
    unfolding dap_enc_sig_bliss_read_private_key_def append_assoc
    using N(2) p l by (simp add: header_fields(1,2) rd_cells_header rd_cells_third Let_def)
  moreover have "word_of_nat (length ?bs) = N" unfolding lb by (rule N(1) [symmetric])
  ultimately show ?thesis using small by (intro exI [of _ ?bs]) simp
qed

lemma bliss_public_key_format:
  assumes "bliss_public_key_ok v"
  shows "\<exists>bs. dap_enc_sig_bliss_write_public_key v = Inr (Some bs) \<and> bs \<noteq> [] \<and> length bs < 2 ^ 32 \<and>
    (\<forall>z. dap_enc_sig_bliss_read_public_key (Some (bs @ z)) (word_of_nat (length bs)) = Inr (Some v))"
proof -
  obtain p where p: "bliss_params_init (bpu_kind v) = Some p" and l: "length (bpu_a v) = unat (bli_n p)"
    using assms by (auto simp: bliss_public_key_ok_def)
  obtain n where n: "n = unat (bli_n p)" "n \<le> 512" using bliss_sizes [OF p] by blast
  obtain N :: u64 where N: "N = word_of_nat (8 + 4 + n * 4)" "\<not> N < 12"
    using bliss_len [of "n * 4"] n by auto
  let ?bs = "le64 N @ le32 (bpu_kind v) @ concat [cells32 (bpu_a v)]"
  have lb: "length ?bs = 8 + 4 + n * 4" using l n by simp
  have small: "length ?bs < 2 ^ 32" unfolding lb using n by simp
  have "put_fields (new_buf (8 + 4 + n * 4)) 0 (le64 N # le32 (bpu_kind v) # [cells32 (bpu_a v)]) = Inr ?bs"
    using l n by (intro key_fields) simp
  then have "dap_enc_sig_bliss_write_public_key v = Inr (Some ?bs)"
    using p l by (simp add: dap_enc_sig_bliss_write_public_key_def Let_def N(1) n(1) del: put_fields.simps)
  moreover have "dap_enc_sig_bliss_read_public_key (Some (?bs @ z)) N = Inr (Some v)" for z
    unfolding dap_enc_sig_bliss_read_public_key_def append_assoc
    using N(2) p l rd_cells_at [of "le64 N @ le32 (bpu_kind v)" 12 "bpu_a v" "unat (bli_n p)" z]
    by (simp add: header_fields(1,2) Let_def)
  moreover have "word_of_nat (length ?bs) = N" unfolding lb by (rule N(1) [symmetric])
  ultimately show ?thesis using small by (intro exI [of _ ?bs]) simp
qed

text \<open>Every format is one of the interface.\<close>

interpretation dil_sig: key_format "\<lambda>v. dap_enc_dilithium_write_signature (Some v)" dap_enc_dilithium_read_signature
  dilithium_signature_ok
proof (unfold_locales, goal_cases)
  case (1 v)
  note f = dilithium_signature_format [OF 1]
  have "length (ds_data v) + 20 < 2 ^ 32" using 1 by (simp add: dilithium_signature_ok_def)
  then show ?case unfolding f(1) using f(2) by (intro exI conjI refl allI) (auto simp del: of_nat_add)
qed

interpretation tes_sig: key_format "\<lambda>v. dap_enc_tesla_write_signature (Some v) sizeof_tesla_signature"
  dap_enc_tesla_read_signature tesla_signature_ok
proof (unfold_locales, goal_cases)
  case (1 v)
  note f = tesla_signature_format [OF 1]
  have "length (ts_data v) + 20 < 2 ^ 32" using 1 by (simp add: tesla_signature_ok_def)
  then show ?case unfolding f(1) using f(2) by (intro exI conjI refl allI) (auto simp del: of_nat_add)
qed

interpretation bli_sig: key_format dap_enc_sig_bliss_write_signature dap_enc_sig_bliss_read_signature bliss_signature_ok
  by unfold_locales (rule bliss_signature_format)

interpretation dil_priv: key_format dap_enc_dilithium_write_private_key dap_enc_dilithium_read_private_key
  "dilithium_key_ok dil_SECRETKEYBYTES"
  by unfold_locales (rule dilithium_private_key_format)

interpretation dil_pub: key_format dap_enc_dilithium_write_public_key dap_enc_dilithium_read_public_key
  "dilithium_key_ok dil_PUBLICKEYBYTES"
  by unfold_locales (rule dilithium_public_key_format)

interpretation tes_priv: key_format dap_enc_tesla_write_private_key dap_enc_tesla_read_private_key "tesla_key_ok tes_SECRETKEYBYTES"
  unfolding dap_enc_tesla_write_private_key_def dap_enc_tesla_read_private_key_def
  by unfold_locales (rule tesla_key_format, assumption, drule tesla_sizes(1), simp)

interpretation tes_pub: key_format dap_enc_tesla_write_public_key dap_enc_tesla_read_public_key "tesla_key_ok tes_PUBLICKEYBYTES"
  unfolding dap_enc_tesla_write_public_key_def dap_enc_tesla_read_public_key_def
  by unfold_locales (rule tesla_key_format, assumption, drule tesla_sizes(2), simp)

interpretation bli_priv: key_format dap_enc_sig_bliss_write_private_key dap_enc_sig_bliss_read_private_key bliss_private_key_ok
  by unfold_locales (rule bliss_private_key_format)

interpretation bli_pub: key_format dap_enc_sig_bliss_write_public_key dap_enc_sig_bliss_read_public_key bliss_public_key_ok
  by unfold_locales (rule bliss_public_key_format)

end
