(* ===== verification/SignProps.thy ===== *)
theory SignProps
  imports Sign KeySerProps
begin

text \<open>
  Signing and verifying: what a key pair signs is verified with the public key that is sent along, for
  all four types of key.
\<close>

section \<open>Key pairs\<close>

text \<open>
  What the schemes promise of a pair of keys: the signatures made with the private key fit their format
  and are accepted for the message they were made of.  \<open>accepts C k M M'\<close> says whether the signature
  of \<open>M\<close> is accepted for \<open>M'\<close>.
\<close>

definition dil_pair :: "crypto_api \<Rightarrow> dap_enc_key \<Rightarrow> dilithium_key \<Rightarrow> dilithium_key \<Rightarrow> bool" where
  "dil_pair C k pk sk \<longleftrightarrow> key_type k = SIG_DILITHIUM \<and> pub_key_data k = Some (DilKey pk) \<and> priv_key_data k = Some (DilKey sk) \<and>
     dilithium_key_ok dil_PUBLICKEYBYTES pk \<and>
     (\<forall>M. \<exists>s. dilithium_crypto_sign C M sk = (0, s) \<and> dilithium_signature_ok s \<and> ds_kind s = dk_kind pk \<and>
        0 \<le> dilithium_sign_open C M s pk)"

definition tes_pair :: "crypto_api \<Rightarrow> dap_enc_key \<Rightarrow> tesla_key \<Rightarrow> tesla_key \<Rightarrow> bool" where
  "tes_pair C k pk sk \<longleftrightarrow> key_type k = SIG_TESLA \<and> pub_key_data k = Some (TesKey pk) \<and> priv_key_data k = Some (TesKey sk) \<and>
     tesla_key_ok tes_PUBLICKEYBYTES pk \<and>
     (\<forall>M. \<exists>s. tesla_crypto_sign C M sk = (0, s) \<and> tesla_signature_ok s \<and> ts_kind s = tk_kind pk \<and>
        0 \<le> tesla_sign_open C s M pk)"

definition bli_pair :: "crypto_api \<Rightarrow> dap_enc_key \<Rightarrow> bliss_public_key \<Rightarrow> bliss_private_key \<Rightarrow> bool" where
  "bli_pair C k pk sk \<longleftrightarrow> key_type k = SIG_BLISS \<and> pub_key_data k = Some (BliPub pk) \<and> priv_key_data k = Some (BliPriv sk) \<and>
     bliss_public_key_ok pk \<and>
     (\<forall>M. \<exists>s. bliss_b_sign C sk M = (0, s) \<and> bliss_signature_ok s \<and> bs_kind s = bpu_kind pk \<and> bliss_verify C s pk M = 0)"

text \<open>The key a verifier makes of the public bytes of a Picnic key.\<close>

definition picnic_key :: "crypto_api \<Rightarrow> byte list \<Rightarrow> dap_enc_key" where
  "picnic_key C pk = picnic_update C ((no_key SIG_PICNIC)\<lparr>inheritor := Some [0, 0, 0, 0], inheritor_size := 4,
     pub_key_data := Some (Raw pk), pub_key_data_size := word_of_nat (length pk)\<rparr>)"

definition pic_pair :: "crypto_api \<Rightarrow> dap_enc_key \<Rightarrow> byte list \<Rightarrow> byte list \<Rightarrow> bool" where
  "pic_pair C k pk p \<longleftrightarrow> key_type k = SIG_PICNIC \<and> pub_key_data k = Some (Raw pk) \<and> priv_key_data k \<noteq> None \<and>
     pub_key_data_size k = word_of_nat (length pk) \<and> pk \<noteq> [] \<and> length pk < 2 ^ 32 \<and> inheritor k = Some p \<and>
     0 < picnic_signature_size C p \<and> unat (picnic_signature_size C p) < 2 ^ 32 \<and> key_type (picnic_key C pk) = SIG_PICNIC \<and>
     (\<forall>M. length (picnic_get_sign C k M (picnic_signature_size C p)) = unat (picnic_signature_size C p) \<and>
        0 \<le> picnic_verify_sign C (picnic_key C pk) M (picnic_get_sign C k M (picnic_signature_size C p)))"

definition key_pair_ok :: "crypto_api \<Rightarrow> dap_enc_key \<Rightarrow> bool" where
  "key_pair_ok C k \<longleftrightarrow> priv_key_data_size k \<noteq> 0 \<and>
     ((\<exists>pk sk. dil_pair C k pk sk) \<or> (\<exists>pk sk. tes_pair C k pk sk) \<or> (\<exists>pk sk. bli_pair C k pk sk) \<or> (\<exists>pk p. pic_pair C k pk p))"

definition accepts :: "crypto_api \<Rightarrow> dap_enc_key \<Rightarrow> byte list \<Rightarrow> byte list \<Rightarrow> bool" where
  "accepts C k M M' \<longleftrightarrow> (case (pub_key_data k, priv_key_data k) of
     (Some (DilKey pk), Some (DilKey sk)) \<Rightarrow> 0 \<le> dilithium_sign_open C M' (snd (dilithium_crypto_sign C M sk)) pk
   | (Some (TesKey pk), Some (TesKey sk)) \<Rightarrow> 0 \<le> tesla_sign_open C (snd (tesla_crypto_sign C M sk)) M' pk
   | (Some (BliPub pk), Some (BliPriv sk)) \<Rightarrow> bliss_verify C (snd (bliss_b_sign C sk M)) pk M' = 0
   | (Some (Raw pk), Some _) \<Rightarrow>
       0 \<le> picnic_verify_sign C (picnic_key C pk) M' (picnic_get_sign C k M (picnic_signature_size C (the (inheritor k))))
   | _ \<Rightarrow> False)"

lemma accepts_own: "key_pair_ok C k \<Longrightarrow> accepts C k M M"
  unfolding key_pair_ok_def dil_pair_def tes_pair_def bli_pair_def pic_pair_def accepts_def
  by (elim conjE disjE exE) (auto split: prod.splits, (metis snd_conv)+)

text \<open>What is signed: the data or their hash.\<close>

definition signed_bytes :: "crypto_api \<Rightarrow> byte \<Rightarrow> byte list \<Rightarrow> byte list" where
  "signed_bytes C t d = (if t = HASH_TYPE_NONE then d else sha3_256 C d)"

section \<open>One signature\<close>

lemma of_small:
  assumes "n < 2 ^ 32"
  shows "unat (word_of_nat n :: u32) = n" "(ucast (word_of_nat n :: u32) :: u64) = word_of_nat n"
proof -
  show u: "unat (word_of_nat n :: u32) = n"
    using assms by (simp add: unat_of_nat take_bit_nat_eq_self_iff)
  then show "(ucast (word_of_nat n :: u32) :: u64) = word_of_nat n"
    using ucast_size [of "word_of_nat n"] by metis
qed

text \<open>
  The object made of a public key text and a signature text, and the two pointers into it.
\<close>

definition signed_object :: "dap_enc_key \<Rightarrow> byte \<Rightarrow> byte list \<Rightarrow> byte list \<Rightarrow> dap_sign" where
  "signed_object k t P S = \<lparr>sgn_type = dap_sign_type_from_key_type (key_type k), hash_type = t,
     sign_size = word_of_nat (length S), sign_pkey_size = word_of_nat (length P), pkey_n_sign = P @ S\<rparr>"

lemma signed_object_parts:
  assumes "length P < 2 ^ 32" "length S < 2 ^ 32"
  shows "dap_sign_get_sign (signed_object k t P S) = (S, word_of_nat (length S))"
    "dap_sign_get_pkey (signed_object k t P S) = (P @ S, word_of_nat (length P))"
    "sign_size (signed_object k t P S) = word_of_nat (length S)"
    "sgn_type (signed_object k t P S) = dap_sign_type_from_key_type (key_type k)"
    "hash_type (signed_object k t P S) = t"
  using of_small [OF assms(1)] of_small [OF assms(2)]
  by (simp_all add: signed_object_def dap_sign_get_sign_def dap_sign_get_pkey_def)

definition hash_known :: "byte \<Rightarrow> bool" where
  "hash_known t \<longleftrightarrow> t = HASH_TYPE_NONE \<or> t = HASH_TYPE_SHA3"

lemma create_message:
  assumes "hash_known hd_type" "d \<noteq> []"
  shows "(if hd_type = HASH_TYPE_NONE then (case Some d of None \<Rightarrow> Inl NullDeref | Some d \<Rightarrow> Inr d)
     else initE (if hd_type = HASH_TYPE_SHA3 then dap_hash_fast C (Some d) else None)) = Inr (signed_bytes C hd_type d)"
  using assms by (auto simp: hash_known_def signed_bytes_def dap_hash_fast_def initE_def HASH_TYPE_NONE_def HASH_TYPE_SHA3_def)

lemma verify_message:
  assumes "d \<noteq> []"
  shows "(if t = HASH_TYPE_NONE then Inr d else initE (dap_hash_fast C (Some d))) = Inr (signed_bytes C t d)"
  using assms by (auto simp: signed_bytes_def dap_hash_fast_def initE_def)

text \<open>
  For a key pair: signing makes an object of two texts; what verifying the object says of any other
  data, whatever hash type its header has.
\<close>

definition signs_as :: "crypto_api \<Rightarrow> byte \<Rightarrow> dap_enc_key \<Rightarrow> byte list \<Rightarrow> byte list \<Rightarrow> byte list \<Rightarrow> bool" where
  "signs_as C hd_type k d P S \<longleftrightarrow>
     dap_sign_create C hd_type (Some k) (Some d) = Inr (Some (signed_object k hd_type P S)) \<and>
     P \<noteq> [] \<and> S \<noteq> [] \<and> length P < 2 ^ 32 \<and> length S < 2 ^ 32 \<and>
     (\<forall>t d'. d' \<noteq> [] \<longrightarrow> hd_type = HASH_TYPE_SHA3 \<or> t = HASH_TYPE_NONE \<longrightarrow>
        dap_sign_verify C hd_type (Some (signed_object k t P S)) (Some d') =
          Inr (if accepts C k (signed_bytes C hd_type d) (signed_bytes C t d') then 1 else 0))"

lemma key_type_eqs [simp]:
  "dap_sign_type_to_key_type (dap_sign_type_from_key_type SIG_DILITHIUM) = SIG_DILITHIUM"
  "dap_sign_type_to_key_type (dap_sign_type_from_key_type SIG_TESLA) = SIG_TESLA"
  "dap_sign_type_to_key_type (dap_sign_type_from_key_type SIG_BLISS) = SIG_BLISS"
  "dap_sign_type_to_key_type (dap_sign_type_from_key_type SIG_PICNIC) = SIG_PICNIC"
  by (simp_all add: dap_sign_type_to_key_type_def dap_sign_type_from_key_type_def key_types)

lemma key_types_differ [simp]:
  "SIG_DILITHIUM \<noteq> SIG_BLISS" "SIG_DILITHIUM \<noteq> SIG_TESLA" "SIG_DILITHIUM \<noteq> SIG_PICNIC" "SIG_DILITHIUM \<noteq> KEY_INVALID"
  "SIG_TESLA \<noteq> SIG_BLISS" "SIG_TESLA \<noteq> SIG_DILITHIUM" "SIG_TESLA \<noteq> SIG_PICNIC" "SIG_TESLA \<noteq> KEY_INVALID"
  "SIG_BLISS \<noteq> SIG_TESLA" "SIG_BLISS \<noteq> SIG_DILITHIUM" "SIG_BLISS \<noteq> SIG_PICNIC" "SIG_BLISS \<noteq> KEY_INVALID"
  "SIG_PICNIC \<noteq> SIG_BLISS" "SIG_PICNIC \<noteq> SIG_TESLA" "SIG_PICNIC \<noteq> SIG_DILITHIUM" "SIG_PICNIC \<noteq> KEY_INVALID"
  by (simp_all add: key_types)

lemma key_new [simp]:
  "dap_enc_key_new C SIG_DILITHIUM = Some (no_key SIG_DILITHIUM)"
  "dap_enc_key_new C SIG_TESLA = Some (no_key SIG_TESLA)"
  "dap_enc_key_new C SIG_BLISS = Some (no_key SIG_BLISS)"
  "dap_enc_key_new C SIG_PICNIC = Some ((no_key SIG_PICNIC)\<lparr>inheritor := Some [0, 0, 0, 0], inheritor_size := 4\<rparr>)"
  by (simp_all add: dap_enc_key_new_def key_types)

lemma key_type_no_key [simp]: "key_type (no_key t) = t"
  by (simp add: no_key_def)

lemma scheme_sizes:
  "sizeof_dilithium_signature \<noteq> 0" "sizeof_tesla_signature \<noteq> 0" "sizeof_bliss_signature \<noteq> 0"
  "0 < sizeof_dilithium_signature" "0 < sizeof_tesla_signature"
  by (simp_all add: sizeof_dilithium_signature_def sizeof_tesla_signature_def sizeof_bliss_signature_def)

text \<open>The steps of signing and verifying that do not depend on the scheme.\<close>

lemma create_object:
  assumes h: "hash_known hd_type" "d \<noteq> []"
    and "dap_sign_create_output_unserialized_calc_size C (Some k) = Inr n" "n \<noteq> 0"
    and "dap_enc_key_serealize_pub_key k = Inr (Some P)"
    and "dap_sign_create_output C k (signed_bytes C hd_type d) n = Inr (0, Some x)"
    and "dap_enc_key_serealize_sign (key_type k) x n = Inr (Some S)"
  shows "dap_sign_create C hd_type (Some k) (Some d) = Inr (Some (signed_object k hd_type P S))"
  unfolding dap_sign_create_def create_message [OF h] using assms by (simp add: signed_object_def)

lemma verify_object:
  assumes len: "length P < 2 ^ 32" "length S < 2 ^ 32" and d: "d \<noteq> []"
    and t: "hd_type = HASH_TYPE_SHA3 \<or> t = HASH_TYPE_NONE"
    and key: "dap_sign_type_to_key_type (dap_sign_type_from_key_type (key_type k)) = key_type k" "key_type k \<noteq> KEY_INVALID"
      "dap_enc_key_new C (key_type k) = Some k0"
      "dap_enc_key_deserealize_pub_key C k0 (Some (P @ S)) (word_of_nat (length P)) = Inr (k1, r1)"
    and sig: "dap_enc_key_deserealize_sign (key_type k1) (Some S) (word_of_nat (length S)) = Inr (Some x, n)"
  shows "dap_sign_verify C hd_type (Some (signed_object k t P S)) (Some d) =
     (let M = signed_bytes C t d in
      if key_type k1 = SIG_TESLA then
        bindE (dap_enc_sig_tesla_verify_sign C k1 M x n) (\<lambda>r. Inr (if r < 0 then 0 else 1))
      else if key_type k1 = SIG_PICNIC then
        bindE (as_sig raw_sig_of x) (\<lambda>bs. Inr (if picnic_verify_sign C k1 M bs < 0 then 0 else 1))
      else if key_type k1 = SIG_DILITHIUM then
        bindE (dap_enc_sig_dilithium_verify_sign C k1 M x n) (\<lambda>r. Inr (if r < 0 then 0 else 1))
      else if key_type k1 = SIG_BLISS then
        bindE (dap_enc_sig_bliss_verify_sign C k1 M x n) (\<lambda>r. Inr (if r \<noteq> 0 then 0 else 1))
      else Inr (-6))"
proof -
  have "dap_sign_to_enc_key C (signed_object k t P S) = Inr (Some k1)"
    using key by (simp add: dap_sign_to_enc_key_def signed_object_parts [OF len])
  then show ?thesis
    using t sig of_small(2) [OF len(2)]
    unfolding dap_sign_verify_def
    by (simp add: verify_message d signed_object_parts [OF len]) (auto simp: verify_message d)
qed

lemma signs_dil:
  assumes h: "hash_known hd_type" "d \<noteq> []" and ps: "priv_key_data_size k \<noteq> 0" and p: "dil_pair C k pk sk"
  shows "\<exists>P S. signs_as C hd_type k d P S"
proof -
  have k: "key_type k = SIG_DILITHIUM" "pub_key_data k = Some (DilKey pk)" "priv_key_data k = Some (DilKey sk)"
      "dilithium_key_ok dil_PUBLICKEYBYTES pk" using p by (simp_all add: dil_pair_def)
  obtain M where M: "M = signed_bytes C hd_type d" by blast
  obtain s where s: "dilithium_crypto_sign C M sk = (0, s)" "dilithium_signature_ok s" "ds_kind s = dk_kind pk"
    using p by (auto simp: dil_pair_def)
  obtain kind where kind: "dk_kind pk = Some kind" using k(4) by (auto simp: dilithium_key_ok_def)
  let ?P = "dil_pub.text_of pk" and ?S = "dil_sig.text_of s"
  note P = dil_pub.text_size [OF k(4)] and S = dil_sig.text_size [OF s(2)]
  let ?k1 = "(no_key SIG_DILITHIUM)\<lparr>pub_key_data := Some (DilKey pk), pub_key_data_size := 16\<rparr>"
  have "dap_sign_create C hd_type (Some k) (Some d) = Inr (Some (signed_object k hd_type ?P ?S))"
    using h k ps s dil_pub.wr_text [OF k(4)] dil_sig.wr_text [OF s(2)] scheme_sizes
    by (intro create_object [where n = sizeof_dilithium_signature and x = "DilSig s"])
      (simp_all add: dap_sign_create_output_unserialized_calc_size_def M [symmetric] dap_enc_key_serealize_pub_key_def
        dap_sign_create_output_def dap_enc_sig_dilithium_get_sign_def dap_enc_key_serealize_sign_def as_key_def as_sig_def key_casts)
  moreover have "dap_sign_verify C hd_type (Some (signed_object k t ?P ?S)) (Some d') =
      Inr (if accepts C k M (signed_bytes C t d') then 1 else 0)"
    if d': "d' \<noteq> []" and t: "hd_type = HASH_TYPE_SHA3 \<or> t = HASH_TYPE_NONE" for t d'
  proof -
    have "dap_sign_verify C hd_type (Some (signed_object k t ?P ?S)) (Some d') =
       bindE (dap_enc_sig_dilithium_verify_sign C ?k1 (signed_bytes C t d') (DilSig s) sizeof_dilithium_signature)
         (\<lambda>r. Inr (if r < 0 then 0 else 1))"
      using k P S d' t dil_pub.rd_text [OF k(4)] dil_sig.rd_text [OF s(2), of "[]"]
      by (subst verify_object [where ?k0.0 = "no_key SIG_DILITHIUM" and ?k1.0 = ?k1 and ?r1.0 = 0 and x = "DilSig s"])
        (simp_all add: dap_enc_key_deserealize_pub_key_def deserealize_pub_def set_pub_def dap_enc_key_deserealize_sign_def)
    then show ?thesis
      using k s kind by (simp add: dap_enc_sig_dilithium_verify_sign_def as_key_def as_sig_def key_casts initE_def accepts_def Let_def)
  qed
  ultimately show ?thesis using P S unfolding signs_as_def M by blast
qed

lemma signs_tes:
  assumes h: "hash_known hd_type" "d \<noteq> []" and ps: "priv_key_data_size k \<noteq> 0" and p: "tes_pair C k pk sk"
  shows "\<exists>P S. signs_as C hd_type k d P S"
proof -
  have k: "key_type k = SIG_TESLA" "pub_key_data k = Some (TesKey pk)" "priv_key_data k = Some (TesKey sk)"
      "tesla_key_ok tes_PUBLICKEYBYTES pk" using p by (simp_all add: tes_pair_def)
  obtain M where M: "M = signed_bytes C hd_type d" by blast
  obtain s where s: "tesla_crypto_sign C M sk = (0, s)" "tesla_signature_ok s" "ts_kind s = tk_kind pk"
    using p by (auto simp: tes_pair_def)
  let ?P = "tes_pub.text_of pk" and ?S = "tes_sig.text_of s"
  note P = tes_pub.text_size [OF k(4)] and S = tes_sig.text_size [OF s(2)]
  let ?k1 = "(no_key SIG_TESLA)\<lparr>pub_key_data := Some (TesKey pk), pub_key_data_size := 16\<rparr>"
  have "dap_sign_create C hd_type (Some k) (Some d) = Inr (Some (signed_object k hd_type ?P ?S))"
    using h k ps s tes_pub.wr_text [OF k(4)] tes_sig.wr_text [OF s(2)] scheme_sizes
    by (intro create_object [where n = sizeof_tesla_signature and x = "TesSig s"])
      (simp_all add: dap_sign_create_output_unserialized_calc_size_def M [symmetric] dap_enc_key_serealize_pub_key_def
        dap_sign_create_output_def dap_enc_sig_tesla_get_sign_def dap_enc_key_serealize_sign_def as_key_def as_sig_def key_casts)
  moreover have "dap_sign_verify C hd_type (Some (signed_object k t ?P ?S)) (Some d') =
      Inr (if accepts C k M (signed_bytes C t d') then 1 else 0)"
    if d': "d' \<noteq> []" and t: "hd_type = HASH_TYPE_SHA3 \<or> t = HASH_TYPE_NONE" for t d'
  proof -
    have "dap_sign_verify C hd_type (Some (signed_object k t ?P ?S)) (Some d') =
       bindE (dap_enc_sig_tesla_verify_sign C ?k1 (signed_bytes C t d') (TesSig s) sizeof_tesla_signature)
         (\<lambda>r. Inr (if r < 0 then 0 else 1))"
      using k P S d' t tes_pub.rd_text [OF k(4)] tes_sig.rd_text [OF s(2), of "[]"]
      by (subst verify_object [where ?k0.0 = "no_key SIG_TESLA" and ?k1.0 = ?k1 and ?r1.0 = 0 and x = "TesSig s"])
        (simp_all add: dap_enc_key_deserealize_pub_key_def deserealize_pub_def set_pub_def dap_enc_key_deserealize_sign_def)
    then show ?thesis
      using k s by (simp add: dap_enc_sig_tesla_verify_sign_def as_key_def as_sig_def key_casts accepts_def)
  qed
  ultimately show ?thesis using P S unfolding signs_as_def M by blast
qed

lemma signs_bli:
  assumes h: "hash_known hd_type" "d \<noteq> []" and ps: "priv_key_data_size k \<noteq> 0" and p: "bli_pair C k pk sk"
  shows "\<exists>P S. signs_as C hd_type k d P S"
proof -
  have k: "key_type k = SIG_BLISS" "pub_key_data k = Some (BliPub pk)" "priv_key_data k = Some (BliPriv sk)"
      "bliss_public_key_ok pk" using p by (simp_all add: bli_pair_def)
  obtain M where M: "M = signed_bytes C hd_type d" by blast
  obtain s where s: "bliss_b_sign C sk M = (0, s)" "bliss_signature_ok s" "bs_kind s = bpu_kind pk"
    using p by (auto simp: bli_pair_def)
  let ?P = "bli_pub.text_of pk" and ?S = "bli_sig.text_of s"
  note P = bli_pub.text_size [OF k(4)] and S = bli_sig.text_size [OF s(2)]
  let ?k1 = "(no_key SIG_BLISS)\<lparr>pub_key_data := Some (BliPub pk), pub_key_data_size := 16\<rparr>"
  have "dap_sign_create C hd_type (Some k) (Some d) = Inr (Some (signed_object k hd_type ?P ?S))"
    using h k ps s bli_pub.wr_text [OF k(4)] bli_sig.wr_text [OF s(2)] scheme_sizes
    by (intro create_object [where n = sizeof_bliss_signature and x = "BliSig s"])
      (simp_all add: dap_sign_create_output_unserialized_calc_size_def M [symmetric] dap_enc_key_serealize_pub_key_def
        dap_sign_create_output_def dap_enc_sig_bliss_get_sign_def dap_enc_key_serealize_sign_def as_key_def as_sig_def key_casts)
  moreover have "dap_sign_verify C hd_type (Some (signed_object k t ?P ?S)) (Some d') =
      Inr (if accepts C k M (signed_bytes C t d') then 1 else 0)"
    if d': "d' \<noteq> []" and t: "hd_type = HASH_TYPE_SHA3 \<or> t = HASH_TYPE_NONE" for t d'
  proof -
    have "dap_sign_verify C hd_type (Some (signed_object k t ?P ?S)) (Some d') =
       bindE (dap_enc_sig_bliss_verify_sign C ?k1 (signed_bytes C t d') (BliSig s) sizeof_bliss_signature)
         (\<lambda>r. Inr (if r \<noteq> 0 then 0 else 1))"
      using k P S d' t bli_pub.rd_text [OF k(4)] bli_sig.rd_text [OF s(2), of "[]"]
      by (subst verify_object [where ?k0.0 = "no_key SIG_BLISS" and ?k1.0 = ?k1 and ?r1.0 = 0 and x = "BliSig s"])
        (simp_all add: dap_enc_key_deserealize_pub_key_def deserealize_pub_def set_pub_def dap_enc_key_deserealize_sign_def)
    then show ?thesis
      using k s by (simp add: dap_enc_sig_bliss_verify_sign_def as_key_def as_sig_def key_casts accepts_def)
  qed
  ultimately show ?thesis using P S unfolding signs_as_def M by blast
qed

lemma signs_pic:
  assumes h: "hash_known hd_type" "d \<noteq> []" and ps: "priv_key_data_size k \<noteq> 0" and p: "pic_pair C k pk par"
  shows "\<exists>P S. signs_as C hd_type k d P S"
proof -
  obtain n where n: "n = picnic_signature_size C par" by blast
  have k: "key_type k = SIG_PICNIC" "pub_key_data k = Some (Raw pk)" "priv_key_data k \<noteq> None"
      "pub_key_data_size k = word_of_nat (length pk)" "pk \<noteq> []" "length pk < 2 ^ 32" "inheritor k = Some par"
      "0 < n" "unat n < 2 ^ 32" "key_type (picnic_key C pk) = SIG_PICNIC"
    using p by (simp_all add: pic_pair_def n)
  obtain M where M: "M = signed_bytes C hd_type d" by blast
  obtain S where S: "S = picnic_get_sign C k M n" by blast
  have lS: "length S = unat n" using p by (simp add: pic_pair_def S n)
  have S': "S \<noteq> []" "length S < 2 ^ 32" using lS k(8,9) by (auto simp: word_less_nat_alt)
  have un: "unat (word_of_nat (length pk) :: u64) = length pk" using k(6) by (intro unat_of_small) simp
  have n0: "n \<noteq> 0" using k(8) by auto
  have nz: "(word_of_nat (length pk) :: u64) \<noteq> 0" using un k(5) by (metis length_0_conv unat_0)
  have "dap_sign_create C hd_type (Some k) (Some d) = Inr (Some (signed_object k hd_type pk S))"
    using h k n0 ps lS un nz S
    by (intro create_object [where n = n and x = "RawSig S"])
      (simp_all add: dap_sign_create_output_unserialized_calc_size_def M [symmetric] dap_enc_key_serealize_pub_key_def n [symmetric]
        dap_sign_create_output_def dap_enc_key_serealize_sign_def raw_bytes_def as_key_def as_sig_def key_casts)
  moreover have "dap_sign_verify C hd_type (Some (signed_object k t pk S)) (Some d') =
      Inr (if accepts C k M (signed_bytes C t d') then 1 else 0)"
    if d': "d' \<noteq> []" and t: "hd_type = HASH_TYPE_SHA3 \<or> t = HASH_TYPE_NONE" for t d'
  proof -
    have wn: "word_of_nat (length S) = n" by (simp add: lS)
    have "dap_sign_verify C hd_type (Some (signed_object k t pk S)) (Some d') =
       bindE (as_sig raw_sig_of (RawSig S)) (\<lambda>bs. Inr (if picnic_verify_sign C (picnic_key C pk) (signed_bytes C t d') bs < 0 then 0 else 1))"
      using k S' d' t un lS wn
      by (subst verify_object [where ?k0.0 = "(no_key SIG_PICNIC)\<lparr>inheritor := Some [0, 0, 0, 0], inheritor_size := 4\<rparr>"
            and ?k1.0 = "picnic_key C pk" and ?r1.0 = 0 and x = "RawSig S"])
        (simp_all add: dap_enc_key_deserealize_pub_key_def deserealize_pub_def dap_enc_key_deserealize_sign_def read_raw_def
          picnic_key_def chunk_def)
    then show ?thesis
      using k S by (auto simp: as_sig_def key_casts accepts_def n)
  qed
  ultimately show ?thesis using k(5,6) S' unfolding signs_as_def M by blast
qed

lemma signs_pair:
  assumes "key_pair_ok C k" "hash_known hd_type" "d \<noteq> []"
  shows "\<exists>P S. signs_as C hd_type k d P S"
proof -
  note h = assms(2,3)
  have ps: "priv_key_data_size k \<noteq> 0" using assms(1) by (simp add: key_pair_ok_def)
  consider pk sk where "dil_pair C k pk sk" | pk sk where "tes_pair C k pk sk" | pk sk where "bli_pair C k pk sk"
    | pk p where "pic_pair C k pk p"
    using assms(1) by (auto simp: key_pair_ok_def)
  then show ?thesis
    using signs_dil [OF h ps] signs_tes [OF h ps] signs_bli [OF h ps] signs_pic [OF h ps] by cases assumption+
qed

lemma sha3_or_none: "hash_known t \<Longrightarrow> t = HASH_TYPE_SHA3 \<or> t = HASH_TYPE_NONE"
  by (auto simp: hash_known_def)

end
