(* ===== verification/MultiSignProps.thy ===== *)
theory MultiSignProps
  imports MultiSign SignProps
begin

text \<open>
  Multi-signatures: the steps of the signing loop as a chain of single signatures, and the checking loop
  over such a chain.
\<close>

section \<open>The chain the signing loop makes\<close>

text \<open>A step: the bytes signed, the text of the public key, the text of the signature.\<close>

type_synonym step = "byte list \<times> byte list \<times> byte list"

definition st_pub :: "step \<Rightarrow> byte list" where "st_pub x = fst (snd x)"
definition st_sig :: "step \<Rightarrow> byte list" where "st_sig x = snd (snd x)"

lemma st_simps [simp]: "st_pub (h, P, S) = P" "st_sig (h, P, S) = S"
  by (simp_all add: st_pub_def st_sig_def)

definition st_meta :: "step \<Rightarrow> multi_sign_meta" where
  "st_meta x = \<lparr>mm_pkey_size = word_of_nat (length (st_pub x)), mm_sign_size = word_of_nat (length (st_sig x))\<rparr>"

definition signer :: "dap_enc_key list \<Rightarrow> multi_sign_key \<Rightarrow> dap_enc_key" where
  "signer ks q = ks ! unat (mk_num q)"

fun chain_ok :: "crypto_api \<Rightarrow> byte \<Rightarrow> dap_enc_key list \<Rightarrow> byte list \<Rightarrow> multi_sign_key list \<Rightarrow> step list \<Rightarrow> bool" where
  "chain_ok C hd_type ks h [] L \<longleftrightarrow> L = []"
| "chain_ok C hd_type ks h (q # qs) [] \<longleftrightarrow> False"
| "chain_ok C hd_type ks h (q # qs) (x # L) \<longleftrightarrow> fst x = h \<and> h \<noteq> [] \<and>
     mk_type q = dap_sign_type_from_key_type (key_type (signer ks q)) \<and>
     signs_as C hd_type (signer ks q) h (st_pub x) (st_sig x) \<and> chain_ok C hd_type ks (sha3_256 C (st_sig x)) qs L"

lemma chain_length: "chain_ok C hd_type ks h qs L \<Longrightarrow> length L = length qs"
  by (induction C hd_type ks h qs L rule: chain_ok.induct) auto

lemma chain_nth:
  "chain_ok C hd_type ks h qs L \<Longrightarrow> i < length qs \<Longrightarrow>
     signs_as C hd_type (signer ks (qs ! i)) (fst (L ! i)) (st_pub (L ! i)) (st_sig (L ! i)) \<and>
     mk_type (qs ! i) = dap_sign_type_from_key_type (key_type (signer ks (qs ! i))) \<and> fst (L ! i) \<noteq> [] \<and>
     fst (L ! i) = (if i = 0 then h else sha3_256 C (st_sig (L ! (i - 1))))"
proof (induction C hd_type ks h qs L arbitrary: i rule: chain_ok.induct)
  case (3 C hd_type ks h q qs x L)
  show ?case
  proof (cases i)
    case 0
    then show ?thesis using 3 by simp
  next
    case (Suc j)
    then have j: "j < length qs" using 3 by simp
    have "chain_ok C hd_type ks (sha3_256 C (st_sig x)) qs L" using 3(2) by simp
    from 3(1) [OF this j] show ?thesis using Suc by (cases j) auto
  qed
qed simp_all

lemma sign_step:
  assumes "signs_as C hd_type k h P S"
  shows "chunkE (fst (dap_sign_get_pkey (signed_object k hd_type P S))) 0 (unat (sign_pkey_size (signed_object k hd_type P S))) = Inr P"
    "chunkE (fst (dap_sign_get_sign (signed_object k hd_type P S))) 0 (unat (sign_size (signed_object k hd_type P S))) = Inr S"
    "sign_pkey_size (signed_object k hd_type P S) = word_of_nat (length P)"
    "sign_size (signed_object k hd_type P S) = word_of_nat (length S)"
proof -
  have l: "length P < 2 ^ 32" "length S < 2 ^ 32" using assms by (simp_all add: signs_as_def)
  show "sign_pkey_size (signed_object k hd_type P S) = word_of_nat (length P)"
    "sign_size (signed_object k hd_type P S) = word_of_nat (length S)" by (simp_all add: signed_object_def)
  then show "chunkE (fst (dap_sign_get_pkey (signed_object k hd_type P S))) 0 (unat (sign_pkey_size (signed_object k hd_type P S))) = Inr P"
    "chunkE (fst (dap_sign_get_sign (signed_object k hd_type P S))) 0 (unat (sign_size (signed_object k hd_type P S))) = Inr S"
    using of_small(1) [OF l(1)] of_small(1) [OF l(2)] by (simp_all add: signed_object_parts [OF l] chunk_def)
qed

lemma sign_steps_chain:
  assumes "hash_known hd_type" "\<And>x. sha3_256 C x \<noteq> []" "\<And>k. k \<in> set ks \<Longrightarrow> key_pair_ok C k"
    and "h \<noteq> []" "\<And>q. q \<in> set qs \<Longrightarrow> unat (mk_num q) < length ks \<and> mk_type q = dap_sign_type_from_key_type (key_type (signer ks q))"
  shows "\<exists>L. chain_ok C hd_type ks h qs L \<and> sign_steps C hd_type ks (Some h) qs (metas, pubs, signs) =
    Inr (Some (metas @ map st_meta L, pubs @ concat (map st_pub L), signs @ concat (map st_sig L)))"
  using assms(4,5)
proof (induction qs arbitrary: h metas pubs signs)
  case (Cons q qs)
  have n: "unat (mk_num q) < length ks" using Cons.prems(2) [of q] by simp
  have "key_pair_ok C (signer ks q)" using n assms(3) by (simp add: signer_def)
  from signs_pair [OF this assms(1) Cons.prems(1)] obtain P S where s: "signs_as C hd_type (signer ks q) h P S" by blast
  have S: "S \<noteq> []" using s by (simp add: signs_as_def)
  from Cons.IH [of "sha3_256 C S" "metas @ [st_meta (h, P, S)]" "pubs @ P" "signs @ S"] assms(2) Cons.prems(2) obtain L where
    L: "chain_ok C hd_type ks (sha3_256 C S) qs L"
      "sign_steps C hd_type ks (Some (sha3_256 C S)) qs (metas @ [st_meta (h, P, S)], pubs @ P, signs @ S) =
       Inr (Some ((metas @ [st_meta (h, P, S)]) @ map st_meta L, (pubs @ P) @ concat (map st_pub L), (signs @ S) @ concat (map st_sig L)))"
    by auto
  have cr: "dap_sign_create C hd_type (Some (ks ! unat (mk_num q))) (Some h) = Inr (Some (signed_object (signer ks q) hd_type P S))"
    using s by (simp add: signs_as_def signer_def)
  have "sign_steps C hd_type ks (Some h) (q # qs) (metas, pubs, signs) =
      sign_steps C hd_type ks (Some (sha3_256 C S)) qs (metas @ [st_meta (h, P, S)], pubs @ P, signs @ S)"
    using n cr sign_step [OF s] S
    by (simp add: nthE_def dap_hash_fast_def st_meta_def del: chunkE_Inr)
  moreover have "chain_ok C hd_type ks h (q # qs) ((h, P, S) # L)"
    using L(1) s Cons.prems by simp
  ultimately show ?case using L(2) by (intro exI [of _ "(h, P, S) # L"]) simp
qed simp

section \<open>The checking loop\<close>

definition offs :: "byte list list \<Rightarrow> nat \<Rightarrow> nat" where
  "offs xs j = sum_list (map length (take j xs))"

lemma offs_Suc: "j < length xs \<Longrightarrow> offs xs (Suc j) = offs xs j + length (xs ! j)"
  by (simp add: offs_def take_Suc_conv_app_nth)

lemma offs_le: "offs xs j \<le> length (concat xs)"
proof -
  have "length (concat xs) = sum_list (map length (take j xs @ drop j xs))" by (simp add: length_concat)
  then show ?thesis unfolding offs_def map_append by simp
qed

lemma chunk_offs:
  assumes "j < length xs"
  shows "chunkE (concat xs) (offs xs j) (length (xs ! j)) = Inr (xs ! j)"
proof -
  have "concat xs = concat (take j xs) @ xs ! j @ concat (drop (Suc j) xs)"
    using assms by (metis append_Cons append_Nil append_assoc concat.simps(2) concat_append id_take_nth_drop)
  moreover have "length (concat (take j xs)) = offs xs j" by (simp add: offs_def length_concat)
  ultimately show ?thesis by (metis chunkE_at)
qed

text \<open>What decides over a step of a chain: the header of a step has no hash type.\<close>

definition step_accepted :: "crypto_api \<Rightarrow> byte \<Rightarrow> dap_enc_key list \<Rightarrow> multi_sign_key list \<Rightarrow> step list \<Rightarrow> nat \<Rightarrow> bool" where
  "step_accepted C hd_type ks qs L i \<longleftrightarrow> accepts C (signer ks (qs ! i)) (signed_bytes C hd_type (fst (L ! i))) (fst (L ! i))"

lemma signs_as_verify:
  "signs_as C hd_type k d P S \<Longrightarrow> d' \<noteq> [] \<Longrightarrow> hd_type = HASH_TYPE_SHA3 \<or> t = HASH_TYPE_NONE \<Longrightarrow>
     dap_sign_verify C hd_type (Some (signed_object k t P S)) (Some d') =
       Inr (if accepts C k (signed_bytes C hd_type d) (signed_bytes C t d') then 1 else 0)"
  by (simp only: signs_as_def) blast

lemma verify_step:
  assumes "ms_meta s = Block metas" "ms_key_seq s = Block qs" "ms_pub_keys s = Block pubs" "ms_sign_data s = Block signs"
    and "i < length metas" "i < length qs"
    and "chunkE pubs (unat pk) (unat (mm_pkey_size (metas ! i))) = Inr p"
    and "chunkE signs (unat sg) (unat (mm_sign_size (metas ! i))) = Inr g"
    and "dap_sign_verify C hd_type (Some \<lparr>sgn_type = mk_type (qs ! i), hash_type = 0, sign_size = mm_sign_size (metas ! i),
           sign_pkey_size = mm_pkey_size (metas ! i), pkey_n_sign = p @ g\<rparr>) (Some h) = Inr v1"
  shows "i = 0 \<Longrightarrow> dap_multi_sign_hash_data C s a_data = Inr (Some h) \<Longrightarrow>
      verify_steps C hd_type s a_data (Suc i) pk sg v = Inr v1"
    and "i = Suc j \<Longrightarrow> chunkE signs (unat (sg - mm_sign_size (metas ! j))) (unat (mm_sign_size (metas ! j))) = Inr g' \<Longrightarrow>
      dap_hash_fast C (Some g') = Some h \<Longrightarrow>
      verify_steps C hd_type s a_data (Suc i) pk sg v =
        (if v1 \<noteq> 1 then Inr v1
         else verify_steps C hd_type s a_data i (pk - mm_pkey_size (metas ! j)) (sg - mm_sign_size (metas ! j)) v1)"
  using assms by (simp_all add: derefE_def nthE_def Let_def verify_steps.simps(2) del: chunkE_Inr)

lemma verify_steps_chain:
  assumes ch: "chain_ok C hd_type ks h qs L" and hd: "hash_known hd_type"
    and s: "ms_meta s = Block (map st_meta L)" "ms_key_seq s = Block qs" "ms_pub_keys s = Block (concat (map st_pub L))"
      "ms_sign_data s = Block (concat (map st_sig L))"
    and hash: "dap_multi_sign_hash_data C s (Some d) = Inr (Some h)"
    and small: "length (concat (map st_pub L)) < 2 ^ 32" "length (concat (map st_sig L)) < 2 ^ 32"
  shows "i \<le> length L \<Longrightarrow> 0 < i \<Longrightarrow>
    verify_steps C hd_type s (Some d) i (word_of_nat (offs (map st_pub L) (i - 1))) (word_of_nat (offs (map st_sig L) (i - 1))) v =
      Inr (if \<forall>j < i. step_accepted C hd_type ks qs L j then 1 else 0)"
proof (induction i arbitrary: v)
  case (Suc i)
  have i: "i < length L" "i < length qs" using Suc.prems chain_length [OF ch] by simp_all
  note st = chain_nth [OF ch i(2)]
  let ?x = "L ! i" and ?q = "qs ! i"
  have sa: "signs_as C hd_type (signer ks ?q) (fst ?x) (st_pub ?x) (st_sig ?x)" using st by blast
  have l: "length (st_pub ?x) < 2 ^ 32" "length (st_sig ?x) < 2 ^ 32" using sa by (simp_all add: signs_as_def)
  have o: "unat (word_of_nat (offs (map st_pub L) i) :: u32) = offs (map st_pub L) i"
    "unat (word_of_nat (offs (map st_sig L) i) :: u32) = offs (map st_sig L) i"
    using offs_le [of "map st_pub L" i] offs_le [of "map st_sig L" i] small by (auto intro!: of_small(1))
  have c: "chunkE (concat (map st_pub L)) (offs (map st_pub L) i) (length (st_pub ?x)) = Inr (st_pub ?x)"
    "chunkE (concat (map st_sig L)) (offs (map st_sig L) i) (length (st_sig ?x)) = Inr (st_sig ?x)"
    using chunk_offs [of i "map st_pub L"] chunk_offs [of i "map st_sig L"] i by simp_all
  have m: "mm_pkey_size (st_meta ?x) = word_of_nat (length (st_pub ?x))" "mm_sign_size (st_meta ?x) = word_of_nat (length (st_sig ?x))"
    by (simp_all add: st_meta_def)
  have obj: "\<lparr>sgn_type = mk_type ?q, hash_type = 0, sign_size = word_of_nat (length (st_sig ?x)),
      sign_pkey_size = word_of_nat (length (st_pub ?x)), pkey_n_sign = st_pub ?x @ st_sig ?x\<rparr> = signed_object (signer ks ?q) 0 (st_pub ?x) (st_sig ?x)"
    using st by (simp add: signed_object_def)
  have none: "signed_bytes C 0 (fst ?x) = fst ?x" by (simp add: signed_bytes_def HASH_TYPE_NONE_def)
  have v1: "dap_sign_verify C hd_type (Some (signed_object (signer ks ?q) 0 (st_pub ?x) (st_sig ?x))) (Some (fst ?x)) =
      Inr (if step_accepted C hd_type ks qs L i then 1 else 0)"
  proof -
    have ne: "fst ?x \<noteq> []" using st by blast
    have "dap_sign_verify C hd_type (Some (signed_object (signer ks ?q) 0 (st_pub ?x) (st_sig ?x))) (Some (fst ?x)) =
        Inr (if accepts C (signer ks ?q) (signed_bytes C hd_type (fst ?x)) (signed_bytes C 0 (fst ?x)) then 1 else 0)"
      by (rule signs_as_verify [OF sa ne]) (simp add: HASH_TYPE_NONE_def)
    then show ?thesis unfolding none step_accepted_def .
  qed
  have i': "i < length (map st_meta L)" "i < length qs" using i by simp_all
  have me: "map st_meta L ! i = st_meta ?x" using i by simp
  have pg: "chunkE (concat (map st_pub L)) (unat (word_of_nat (offs (map st_pub L) i) :: u32)) (unat (mm_pkey_size (map st_meta L ! i))) = Inr (st_pub ?x)"
    "chunkE (concat (map st_sig L)) (unat (word_of_nat (offs (map st_sig L) i) :: u32)) (unat (mm_sign_size (map st_meta L ! i))) = Inr (st_sig ?x)"
    unfolding me m o of_small(1) [OF l(1)] of_small(1) [OF l(2)] by (rule c)+
  have v1': "dap_sign_verify C hd_type (Some \<lparr>sgn_type = mk_type ?q, hash_type = 0, sign_size = mm_sign_size (map st_meta L ! i),
      sign_pkey_size = mm_pkey_size (map st_meta L ! i), pkey_n_sign = st_pub ?x @ st_sig ?x\<rparr>) (Some (fst ?x)) =
      Inr (if step_accepted C hd_type ks qs L i then 1 else 0)"
    unfolding me m obj by (rule v1)
  show ?case
  proof (cases i)
    case 0
    then have "fst ?x = h" using st by simp
    then have "verify_steps C hd_type s (Some d) (Suc i) (word_of_nat (offs (map st_pub L) i)) (word_of_nat (offs (map st_sig L) i)) v =
        Inr (if step_accepted C hd_type ks qs L i then 1 else 0)"
      using verify_step(1) [OF s(1,2,3,4) i' pg v1' 0] hash by simp
    then show ?thesis using 0 by simp
  next
    case (Suc j)
    let ?y = "L ! j"
    have j: "j < length L" "j < length qs" using i Suc by simp_all
    have "signs_as C hd_type (signer ks (qs ! j)) (fst ?y) (st_pub ?y) (st_sig ?y)" using chain_nth [OF ch j(2)] by blast
    then have ly: "length (st_pub ?y) < 2 ^ 32" "length (st_sig ?y) < 2 ^ 32" "st_sig ?y \<noteq> []" by (simp_all add: signs_as_def)
    have p: "(word_of_nat (offs (map st_pub L) i) :: u32) - word_of_nat (length (st_pub ?y)) = word_of_nat (offs (map st_pub L) j)"
      "(word_of_nat (offs (map st_sig L) i) :: u32) - word_of_nat (length (st_sig ?y)) = word_of_nat (offs (map st_sig L) j)"
      using j Suc by (simp_all add: offs_Suc)
    have oj: "unat (word_of_nat (offs (map st_sig L) j) :: u32) = offs (map st_sig L) j"
      using offs_le [of "map st_sig L" j] small by (auto intro!: of_small(1))
    have cj: "chunkE (concat (map st_sig L)) (offs (map st_sig L) j) (length (st_sig ?y)) = Inr (st_sig ?y)"
      using chunk_offs [of j "map st_sig L"] j by simp
    have hh: "dap_hash_fast C (Some (st_sig ?y)) = Some (fst ?x)" using st Suc ly by (simp add: dap_hash_fast_def)
    have IH: "verify_steps C hd_type s (Some d) i (word_of_nat (offs (map st_pub L) j)) (word_of_nat (offs (map st_sig L) j)) w =
        Inr (if \<forall>j < i. step_accepted C hd_type ks qs L j then 1 else 0)" for w
      using Suc.IH [of w] Suc i by simp
    have ms: "mm_sign_size (map st_meta L ! j) = word_of_nat (length (st_sig ?y))"
      "mm_pkey_size (map st_meta L ! j) = word_of_nat (length (st_pub ?y))" using j by (simp_all add: st_meta_def)
    have cj': "chunkE (concat (map st_sig L)) (unat (word_of_nat (offs (map st_sig L) i) - mm_sign_size (map st_meta L ! j)))
        (unat (mm_sign_size (map st_meta L ! j))) = Inr (st_sig ?y)"
      unfolding ms p(2) oj of_small(1) [OF ly(2)] by (rule cj)
    have "verify_steps C hd_type s (Some d) (Suc i) (word_of_nat (offs (map st_pub L) i)) (word_of_nat (offs (map st_sig L) i)) v =
        (if step_accepted C hd_type ks qs L i then
           verify_steps C hd_type s (Some d) i (word_of_nat (offs (map st_pub L) j)) (word_of_nat (offs (map st_sig L) j)) 1 else Inr 0)"
      using verify_step(2) [OF s(1,2,3,4) i' pg v1' Suc cj' hh] unfolding ms p by simp
    then show ?thesis unfolding IH by (auto simp: less_Suc_eq)
  qed
qed simp

section \<open>The serialised object\<close>

lemma piecesE_concat:
  assumes "length (D @ concat Ps) < 2 ^ 32"
  shows "piecesE (Block (D @ concat Ps)) (word_of_nat (length D)) (map (\<lambda>p. word_of_nat (length p)) Ps) = Inr Ps"
  using assms
proof (induction Ps arbitrary: D)
  case (Cons P Ps)
  have lP: "unat (word_of_nat (length P) :: u32) = length P" "unat (word_of_nat (length D) :: u32) = length D"
    using Cons.prems by (auto intro!: of_small(1))
  have z: "(word_of_nat (length P) :: u32) = 0 \<longleftrightarrow> P = []"
  proof
    assume "(word_of_nat (length P) :: u32) = 0"
    with lP(1) show "P = []" by simp
  qed simp
  have s: "(word_of_nat (length D) :: u32) + word_of_nat (length P) = word_of_nat (length (D @ P))" by simp
  have IH: "piecesE (Block (D @ concat (P # Ps))) (word_of_nat (length (D @ P))) (map (\<lambda>p. word_of_nat (length p)) Ps) = Inr Ps"
    using Cons.IH [of "D @ P"] Cons.prems by simp
  have c: "chunkE (D @ concat (P # Ps)) (length D) (length P) = Inr P"
    using chunkE_at [of D "length D" P "length P" "concat Ps"] by simp
  show ?case
    unfolding list.map piecesE.simps s IH lP derefE_def pointer.case bindE_simps c by (simp add: z)
qed simp

lemma rd_pieces_concat:
  assumes "length (D @ concat Ps) < 2 ^ 32" "length A = i"
  shows "rd_pieces (A @ concat Ps @ z) i (D @ new_buf (length (concat Ps))) (word_of_nat (length D))
     (map (\<lambda>p. word_of_nat (length p)) Ps) = Inr (i + length (concat Ps), D @ concat Ps)"
  using assms
proof (induction Ps arbitrary: D A i)
  case Nil
  then show ?case by (simp add: new_buf_def)
next
  case (Cons P Ps)
  have lP: "unat (word_of_nat (length P) :: u32) = length P" "unat (word_of_nat (length D) :: u32) = length D"
    using Cons.prems by (auto intro!: of_small(1))
  have s: "(word_of_nat (length D) :: u32) + word_of_nat (length P) = word_of_nat (length (D @ P))" by simp
  have c: "chunkE (A @ concat (P # Ps) @ z) i (length P) = Inr P"
    using chunkE_at [of A i P "length P" "concat Ps @ z"] Cons.prems by simp
  have b: "blitE (D @ new_buf (length (concat (P # Ps)))) (length D) P = Inr ((D @ P) @ new_buf (length (concat Ps)))"
    by (simp add: blitE_def blit_def new_buf_def)
  have IH: "rd_pieces (A @ concat (P # Ps) @ z) (i + length P) ((D @ P) @ new_buf (length (concat Ps)))
      (word_of_nat (length (D @ P))) (map (\<lambda>p. word_of_nat (length p)) Ps) = Inr (i + length P + length (concat Ps), (D @ P) @ concat Ps)"
    using Cons.IH [of "D @ P" "A @ P" "i + length P"] Cons.prems by simp
  show ?case
    unfolding list.map rd_pieces.simps lP c b bindE_simps s IH by simp
qed

lemma rd_block_concat:
  assumes "length (concat Ps) < 2 ^ 32" "length A = i" "concat Ps \<noteq> []" "\<And>P. P \<in> set Ps \<Longrightarrow> length P < 2 ^ 32"
  shows "rd_block (A @ concat Ps @ z) i (map (\<lambda>p. word_of_nat (length p)) Ps) = Inr (i + length (concat Ps), Block (concat Ps))"
proof -
  have e: "map unat (map (\<lambda>p. word_of_nat (length p) :: u32) Ps) = map length Ps"
    by (simp add: of_small(1) [OF assms(4)])
  have n: "sum_list (map unat (map (\<lambda>p. word_of_nat (length p) :: u32) Ps)) = length (concat Ps)"
    unfolding e by (simp add: length_concat)
  show ?thesis
    unfolding rd_block_def n Let_def using rd_pieces_concat [of "[]" Ps A i z] assms by simp
qed

lemma rd_keys_concat:
  "length A = i \<Longrightarrow> length ks = n \<Longrightarrow> rd_keys (A @ concat (map key_bytes ks) @ z) i n = Inr ks"
proof (induction ks arbitrary: A i n)
  case (Cons k ks)
  then obtain n' where n: "n = Suc n'" by (cases n) auto
  have 1: "chunkE (A @ concat (map key_bytes (k # ks)) @ z) i 1 = Inr [mk_num k]"
    using chunkE_at [of A i "[mk_num k]" 1 "le32 (mk_type k) @ concat (map key_bytes ks) @ z"] Cons.prems by (simp add: key_bytes_def)
  have 2: "rd32 (A @ concat (map key_bytes (k # ks)) @ z) (i + 1) = Inr (mk_type k)"
    using rd32_at [of "A @ [mk_num k]" "i + 1" "mk_type k" "concat (map key_bytes ks) @ z"] Cons.prems by (simp add: key_bytes_def)
  have 3: "rd_keys (A @ concat (map key_bytes (k # ks)) @ z) (i + 5) n' = Inr ks"
    using Cons.IH [of "A @ key_bytes k" "i + 5" n'] Cons.prems n by (simp add: key_bytes_def [of k])
  show ?case unfolding n rd_keys.simps 1 2 3 by simp
qed simp

lemma rd_metas_concat:
  "length A = i \<Longrightarrow> length ms = n \<Longrightarrow> rd_metas (A @ concat (map meta_bytes ms) @ z) i n = Inr ms"
proof (induction ms arbitrary: A i n)
  case (Cons k ms)
  then obtain n' where n: "n = Suc n'" by (cases n) auto
  have 1: "rd32 (A @ concat (map meta_bytes (k # ms)) @ z) i = Inr (mm_pkey_size k)"
    using rd32_at [of A i "mm_pkey_size k" "le32 (mm_sign_size k) @ concat (map meta_bytes ms) @ z"] Cons.prems
    by (simp add: meta_bytes_def)
  have 2: "rd32 (A @ concat (map meta_bytes (k # ms)) @ z) (i + 4) = Inr (mm_sign_size k)"
    using rd32_at [of "A @ le32 (mm_pkey_size k)" "i + 4" "mm_sign_size k" "concat (map meta_bytes ms) @ z"] Cons.prems
    by (simp add: meta_bytes_def)
  have 3: "rd_metas (A @ concat (map meta_bytes (k # ms)) @ z) (i + 8) n' = Inr ms"
    using Cons.IH [of "A @ meta_bytes k" "i + 8" n'] Cons.prems n by (simp add: meta_bytes_def [of k])
  show ?case unfolding n rd_metas.simps 1 2 3 by simp
qed simp

lemma length_key_bytes: "length (concat (map key_bytes ks)) = 5 * length ks"
  by (induction ks) (simp_all add: key_bytes_def)

lemma length_meta_bytes: "length (concat (map meta_bytes ms)) = 8 * length ms"
  by (induction ms) (simp_all add: meta_bytes_def)

text \<open>An object whose blocks are what its counts and sizes say, with at least one signature.\<close>

definition multi_sign_parts :: "dap_multi_sign \<Rightarrow> multi_sign_key list \<Rightarrow> multi_sign_meta list \<Rightarrow> byte list \<Rightarrow> byte list list \<Rightarrow> byte list list \<Rightarrow> bool" where
  "multi_sign_parts s seq metas hs Ps Ss \<longleftrightarrow>
     ms_type s = SIG_TYPE_MULTI_CHAINED \<and> ms_key_seq s = Block seq \<and> ms_meta s = Block metas \<and> ms_key_hashes s = Block hs \<and>
     ms_pub_keys s = Block (concat Ps) \<and> ms_sign_data s = Block (concat Ss) \<and> seq \<noteq> [] \<and> hs \<noteq> [] \<and> concat Ps \<noteq> [] \<and> concat Ss \<noteq> [] \<and>
     length seq = unat (ms_sign_count s) \<and> length metas = unat (ms_sign_count s) \<and> length hs = unat (ms_total_count s) * HASH_SIZE \<and>
     map mm_pkey_size metas = map (\<lambda>p. word_of_nat (length p)) Ps \<and> map mm_sign_size metas = map (\<lambda>p. word_of_nat (length p)) Ss \<and>
     14 + 13 * length seq + length hs + length (concat Ps) + length (concat Ss) < 2 ^ 32"

definition multi_sign_ok :: "dap_multi_sign \<Rightarrow> bool" where
  "multi_sign_ok s \<longleftrightarrow> (\<exists>seq metas hs Ps Ss. multi_sign_parts s seq metas hs Ps Ss)"

lemma sum_of_sizes:
  assumes "length (concat Ps) < 2 ^ 32"
  shows "sum_list (map (\<lambda>n. ucast (n :: u32) :: u64) (map (\<lambda>p. word_of_nat (length p)) Ps)) = word_of_nat (length (concat Ps))"
  using assms
proof (induction Ps)
  case (Cons P Ps)
  have "(ucast (word_of_nat (length P) :: u32) :: u64) = word_of_nat (length P)"
    using Cons.prems by (intro of_small(2)) simp
  then show ?case using Cons by simp
qed simp

lemma multi_sign_format:
  assumes "multi_sign_parts s seq metas hs Ps Ss"
  shows "\<exists>bs. dap_multi_sign_serialize s = Inr (Some bs) \<and> bs \<noteq> [] \<and> length bs < 2 ^ 32 \<and>
    (\<forall>z. dap_multi_sign_deserialize SIG_TYPE_MULTI_CHAINED (bs @ z) (word_of_nat (length bs)) = Inr (Some s))"
proof -
  note p = assms [unfolded multi_sign_parts_def]
  have q: "ms_type s = SIG_TYPE_MULTI_CHAINED" "ms_key_seq s = Block seq" "ms_meta s = Block metas" "ms_key_hashes s = Block hs"
    "ms_pub_keys s = Block (concat Ps)" "ms_sign_data s = Block (concat Ss)" using p by blast+
  have ne: "seq \<noteq> []" "hs \<noteq> []" "concat Ps \<noteq> []" "concat Ss \<noteq> []" using p by blast+
  have ln: "length seq = unat (ms_sign_count s)" "length metas = unat (ms_sign_count s)"
    "length hs = unat (ms_total_count s) * HASH_SIZE" using p by blast+
  have sz: "map mm_pkey_size metas = map (\<lambda>p. word_of_nat (length p)) Ps"
    "map mm_sign_size metas = map (\<lambda>p. word_of_nat (length p)) Ss" using p by blast+
  let ?n = "14 + 13 * length seq + length hs + length (concat Ps) + length (concat Ss)"
  obtain count total where ct: "count = unat (ms_sign_count s)" "total = unat (ms_total_count s)" by blast
  obtain N :: u64 where N: "N = word_of_nat ?n" by blast
  have unN: "unat N = ?n" unfolding N
  proof (rule unat_of_small)
    have "?n < 2 ^ 32" using p by blast
    then show "?n < 2 ^ 64" by (rule less_trans) simp
  qed
  have cl: "length seq = count" "length metas = count" "length hs = total * HASH_SIZE" "count \<noteq> 0" "total \<noteq> 0"
    using ln ne(1,2) ct length_greater_0_conv [of seq] length_greater_0_conv [of hs] by (simp_all del: length_greater_0_conv)
  have sm: "length (concat Ps) < 2 ^ 32" "length (concat Ss) < 2 ^ 32" using p by simp_all
  have smP: "length P < 2 ^ 32" if "P \<in> set Ps" for P
    using that sm(1) member_le_sum_list [of "length P" "map length Ps"] by (simp add: length_concat)
  have smS: "length P < 2 ^ 32" if "P \<in> set Ss" for P
    using that sm(2) member_le_sum_list [of "length P" "map length Ss"] by (simp add: length_concat)
  have fm: "firstE count (Block metas) = Inr metas" "firstE count (Block seq) = Inr seq" "firstE (total * HASH_SIZE) (Block hs) = Inr hs"
    using cl by (simp_all add: firstE_def derefE_def HASH_SIZE_def)
  have calc: "dap_multi_sign_calc_size (Some s) = Inr (N - 8)"
  proof -
    have "sum_list (map (\<lambda>m. ucast (mm_pkey_size m) :: u64) metas) = word_of_nat (length (concat Ps))"
      "sum_list (map (\<lambda>m. ucast (mm_sign_size m) :: u64) metas) = word_of_nat (length (concat Ss))"
      using sum_of_sizes [OF sm(1)] sum_of_sizes [OF sm(2)] unfolding sz [symmetric] map_map comp_def by blast+
    then show ?thesis
      using q(3) fm(1) cl ct unfolding dap_multi_sign_calc_size_def N by (simp add: algebra_simps)
  qed
  let ?body = "concat (map key_bytes seq) @ concat (map meta_bytes metas) @ hs @ concat Ps @ concat Ss"
  let ?bs = "le64 N @ le32 (ms_type s) @ [ms_total_count s] @ [ms_sign_count s] @ ?body"
  have lb: "length ?bs = ?n" using cl by (simp add: length_key_bytes length_meta_bytes)
  have pcs: "piecesE (Block (concat Ps)) 0 (map mm_pkey_size metas) = Inr Ps" "piecesE (Block (concat Ss)) 0 (map mm_sign_size metas) = Inr Ss"
    unfolding sz using piecesE_concat [of "[]" Ps] piecesE_concat [of "[]" Ss] sm by simp_all
  have "put_fields (new_buf ?n) 0 ([le64 N, le32 (ms_type s), [ms_total_count s], [ms_sign_count s]] @ map key_bytes seq @
      map meta_bytes metas @ [hs] @ Ps @ Ss) = Inr ?bs"
    using lb by (subst put_fields_new) simp_all
  then have ser: "dap_multi_sign_serialize s = Inr (Some ?bs)"
    unfolding dap_multi_sign_serialize_def Let_def calc q ct [symmetric] fm bindE_simps pcs diff_add_cancel unN
    by (simp del: put_fields.simps)
  have "dap_multi_sign_deserialize SIG_TYPE_MULTI_CHAINED (?bs @ z) N = Inr (Some s)" for z
  proof -
    let ?m = "?bs @ z"
    have r: "rd64 ?m 0 = Inr N" "rd32 ?m 8 = Inr (ms_type s)" "chunkE ?m 12 1 = Inr [ms_total_count s]" "chunkE ?m 13 1 = Inr [ms_sign_count s]"
      using header_fields(1) [of N "le32 (ms_type s) @ [ms_total_count s] @ [ms_sign_count s] @ ?body @ z"]
        header_fields(2) [of N "ms_type s" "[ms_total_count s] @ [ms_sign_count s] @ ?body @ z"]
        chunkE_at [of "le64 N @ le32 (ms_type s)" 12 "[ms_total_count s]" 1 "[ms_sign_count s] @ ?body @ z"]
        chunkE_at [of "le64 N @ le32 (ms_type s) @ [ms_total_count s]" 13 "[ms_sign_count s]" 1 "?body @ z"]
      by simp_all
    let ?h = "le64 N @ le32 (ms_type s) @ [ms_total_count s] @ [ms_sign_count s]"
    have k: "rd_keys ?m 14 count = Inr seq"
      using rd_keys_concat [of ?h 14 seq count "concat (map meta_bytes metas) @ hs @ concat Ps @ concat Ss @ z"] cl by simp
    have mt: "rd_metas ?m (14 + 5 * count) count = Inr metas"
      using rd_metas_concat [of "?h @ concat (map key_bytes seq)" "14 + 5 * count" metas count "hs @ concat Ps @ concat Ss @ z"] cl
      by (simp add: length_key_bytes)
    have hsh: "chunkE ?m (14 + 5 * count + 8 * count) (total * HASH_SIZE) = Inr hs"
      using chunkE_at [of "?h @ concat (map key_bytes seq) @ concat (map meta_bytes metas)" "14 + 5 * count + 8 * count" hs
          "total * HASH_SIZE" "concat Ps @ concat Ss @ z"] cl
      by (simp add: length_key_bytes length_meta_bytes)
    let ?j = "14 + 5 * count + 8 * count + total * HASH_SIZE"
    have b1: "rd_block ?m ?j (map mm_pkey_size metas) = Inr (?j + length (concat Ps), Block (concat Ps))"
      using rd_block_concat [of Ps "?h @ concat (map key_bytes seq) @ concat (map meta_bytes metas) @ hs" ?j "concat Ss @ z"] cl sm smP ne unfolding sz
      by (simp add: length_key_bytes length_meta_bytes)
    have b2: "rd_block ?m (?j + length (concat Ps)) (map mm_sign_size metas) = Inr (?j + length (concat Ps) + length (concat Ss), Block (concat Ss))"
      using rd_block_concat [of Ss "?h @ concat (map key_bytes seq) @ concat (map meta_bytes metas) @ hs @ concat Ps" "?j + length (concat Ps)" z] cl sm smS ne unfolding sz
      by (simp add: length_key_bytes length_meta_bytes)
    have "s = \<lparr>ms_type = ms_type s, ms_total_count = ms_total_count s, ms_sign_count = ms_sign_count s,
        ms_key_seq = Block seq, ms_meta = Block metas, ms_key_hashes = Block hs, ms_pub_keys = Block (concat Ps), ms_sign_data = Block (concat Ss)\<rparr>"
      using q by (cases s) simp
    then show ?thesis
      unfolding dap_multi_sign_deserialize_def Let_def r bindE_simps list.sel ct [symmetric] k mt hsh b1 b2 prod.case
      using cl(4,5) by simp
  qed
  moreover have "word_of_nat (length ?bs) = N" unfolding lb by (rule N [symmetric])
  moreover have "length ?bs < 2 ^ 32" unfolding lb using p by blast
  ultimately show ?thesis using ser by (intro exI [of _ ?bs] conjI) (simp_all only: le64_ne append_is_Nil_conv simp_thms not_False_eq_True)
qed

interpretation multi: key_format dap_multi_sign_serialize
  "\<lambda>b n. case b of None \<Rightarrow> Inl NullDeref | Some m \<Rightarrow> dap_multi_sign_deserialize SIG_TYPE_MULTI_CHAINED m n" multi_sign_ok
  by unfold_locales (use multi_sign_format in \<open>auto simp: multi_sign_ok_def\<close>)

end
