(* ===== verification/SignClaims.thy ===== *)
theory SignClaims
  imports MultiSignProps
begin

text \<open>
  What the signatures guarantee: a key pair's signature verifies, alone and in a chain, also after the
  chain was written and read; and what goes wrong: keys that cannot be read, keys too short for
  their kind, chains made under the default hash type.
\<close>

section \<open>Creating a chain\<close>

definition params_ok :: "crypto_api \<Rightarrow> (key_data \<Rightarrow> byte list) \<Rightarrow> multi_sign_params \<Rightarrow> bool" where
  "params_ok C mem_image P \<longleftrightarrow> mp_type P = SIG_TYPE_MULTI_CHAINED \<and> mp_total_count P \<noteq> 0 \<and> mp_sign_count P \<noteq> 0 \<and>
     length (mp_keys P) = unat (mp_total_count P) \<and> length (mp_key_seq P) = unat (mp_sign_count P) \<and>
     (\<forall>n \<in> set (mp_key_seq P). unat n < length (mp_keys P)) \<and>
     (\<forall>k \<in> set (mp_keys P). key_pair_ok C k \<and> pub_key_data_size k \<noteq> 0 \<and> (\<forall>x. pub_key_data k = Some x \<longrightarrow> mem_image x \<noteq> []))"

lemma pair_has_pub: "key_pair_ok C k \<Longrightarrow> \<exists>x. pub_key_data k = Some x"
  by (auto simp: key_pair_ok_def dil_pair_def tes_pair_def bli_pair_def pic_pair_def)

lemma key_hashes_ok:
  assumes "\<And>x. length (sha3_256 C x) = HASH_SIZE"
    and "\<forall>k \<in> set ks. key_pair_ok C k \<and> pub_key_data_size k \<noteq> 0 \<and> (\<forall>x. pub_key_data k = Some x \<longrightarrow> mem_image x \<noteq> [])"
  shows "\<exists>hs. key_hashes C mem_image ks = Some hs \<and> length hs = length ks * HASH_SIZE"
  using assms(2)
proof (induction ks)
  case (Cons k ks)
  then obtain hs x where hs: "key_hashes C mem_image ks = Some hs" "length hs = length ks * HASH_SIZE" "pub_key_data k = Some x" "mem_image x \<noteq> []"
    using pair_has_pub [of C k] by auto
  then show ?case using Cons.prems assms(1) by (simp add: dap_hash_fast_def)
qed simp

lemma seq_types_ok:
  "\<forall>n \<in> set nums. unat n < length ks \<Longrightarrow> \<exists>seq. seq_types ks nums = Inr seq \<and> length seq = length nums \<and>
     (\<forall>q \<in> set seq. unat (mk_num q) < length ks \<and> mk_type q = dap_sign_type_from_key_type (key_type (signer ks q)))"
proof (induction nums)
  case (Cons n nums)
  then obtain seq where "seq_types ks nums = Inr seq" "length seq = length nums"
    "\<forall>q \<in> set seq. unat (mk_num q) < length ks \<and> mk_type q = dap_sign_type_from_key_type (key_type (signer ks q))" by auto
  then show ?case using Cons.prems by (simp add: nthE_def signer_def)
qed simp

lemma create_chain:
  assumes "params_ok C mem_image P" "hash_known hd_type" "\<And>x. length (sha3_256 C x) = HASH_SIZE" "d \<noteq> []"
  shows "\<exists>s seq L h hs. dap_multi_sign_create C mem_image hd_type P (Some d) = Inr (Some s) \<and>
    chain_ok C hd_type (mp_keys P) h seq L \<and> seq \<noteq> [] \<and> length seq = unat (ms_sign_count s) \<and>
    dap_multi_sign_hash_data C s (Some d) = Inr (Some h) \<and> length hs = unat (ms_total_count s) * HASH_SIZE \<and> hs \<noteq> [] \<and>
    (\<forall>q \<in> set seq. unat (mk_num q) < length (mp_keys P)) \<and>
    s = \<lparr>ms_type = SIG_TYPE_MULTI_CHAINED, ms_total_count = mp_total_count P, ms_sign_count = mp_sign_count P,
      ms_key_seq = Block seq, ms_meta = Block (map st_meta L), ms_key_hashes = Block hs,
      ms_pub_keys = Block (concat (map st_pub L)), ms_sign_data = Block (concat (map st_sig L))\<rparr>"
proof -
  note p = assms(1) [unfolded params_ok_def]
  have ne: "sha3_256 C x \<noteq> []" for x using assms(3) [of x] by (auto simp: HASH_SIZE_def)
  obtain hs where hs: "key_hashes C mem_image (mp_keys P) = Some hs" "length hs = length (mp_keys P) * HASH_SIZE"
    using key_hashes_ok [OF assms(3), of "mp_keys P" mem_image] p by blast
  obtain seq where seq: "seq_types (mp_keys P) (mp_key_seq P) = Inr seq" "length seq = length (mp_key_seq P)"
      "\<forall>q \<in> set seq. unat (mk_num q) < length (mp_keys P) \<and> mk_type q = dap_sign_type_from_key_type (key_type (signer (mp_keys P) q))"
    using seq_types_ok [of "mp_key_seq P" "mp_keys P"] p by blast
  have cnt: "unat (mp_sign_count P) \<noteq> 0" "unat (mp_total_count P) \<noteq> 0" using p unat_eq_zero [of "mp_sign_count P"] unat_eq_zero [of "mp_total_count P"] by blast+
  have sl: "length seq = unat (mp_sign_count P)" "seq \<noteq> []" using seq(2) p cnt by auto
  have hl: "length hs = unat (mp_total_count P) * HASH_SIZE" "hs \<noteq> []" using hs(2) p cnt by (auto simp: HASH_SIZE_def)
  let ?s = "\<lambda>metas pubs signs. \<lparr>ms_type = SIG_TYPE_MULTI_CHAINED, ms_total_count = mp_total_count P, ms_sign_count = mp_sign_count P,
      ms_key_seq = Block seq, ms_meta = metas, ms_key_hashes = Block hs, ms_pub_keys = pubs, ms_sign_data = signs\<rparr>"
  obtain h where h: "\<And>m a b. dap_multi_sign_hash_data C (?s m a b) (Some d) = Inr (Some h)" "h \<noteq> []"
  proof (rule that)
    let ?h = "sha3_256 C (sha3_256 C d @ sha3_256 C (le32 SIG_TYPE_MULTI_CHAINED @ [mp_total_count P, mp_sign_count P] @
        concat (map key_bytes seq)) @ sha3_256 C hs)"
    show "dap_multi_sign_hash_data C (?s m a b) (Some d) = Inr (Some ?h)" for m a b
      using assms(4) hl sl cnt ne by (simp add: dap_multi_sign_hash_data_def dap_hash_fast_def firstE_def derefE_def)
    show "?h \<noteq> []" by (rule ne)
  qed
  obtain L where L: "chain_ok C hd_type (mp_keys P) h seq L"
      "sign_steps C hd_type (mp_keys P) (Some h) seq ([], [], []) = Inr (Some (map st_meta L, concat (map st_pub L), concat (map st_sig L)))"
    using sign_steps_chain [of hd_type C "mp_keys P" h seq "[]" "[]" "[]"] assms(2) ne p h(2) seq(3) by auto
  have nn: "mp_key_seq P \<noteq> []" using p cnt by auto
  have "dap_multi_sign_create C mem_image hd_type P (Some d) =
      Inr (Some (?s (Block (map st_meta L)) (Block (concat (map st_pub L))) (Block (concat (map st_sig L)))))"
    using p hs(1) seq(1) nn h(1) L(2) by (simp add: dap_multi_sign_create_def Let_def)
  then show ?thesis using L(1) sl hl h(1) seq(3) by (intro exI conjI) (assumption | simp | blast)+
qed

section \<open>Properties\<close>

text \<open>
  C11: what a key pair of any of the four signature types signs is an object that verifies, with the public
  key it carries, for the signed data, and for other data exactly when the scheme takes the signature of
  the one message for the other.
\<close>

theorem sign_then_verify:
  assumes "key_pair_ok C k" "hash_known hd_type" "d \<noteq> []"
  shows "\<exists>s. dap_sign_create C hd_type (Some k) (Some d) = Inr (Some s) \<and>
    dap_sign_verify C hd_type (Some s) (Some d) = Inr 1 \<and>
    (\<forall>d'. d' = [] \<or> dap_sign_verify C hd_type (Some s) (Some d') =
       Inr (if accepts C k (signed_bytes C hd_type d) (signed_bytes C hd_type d') then 1 else 0))"
proof -
  obtain P S where s: "signs_as C hd_type k d P S" using signs_pair [OF assms] by blast
  have v: "dap_sign_verify C hd_type (Some (signed_object k hd_type P S)) (Some d') =
      Inr (if accepts C k (signed_bytes C hd_type d) (signed_bytes C hd_type d') then 1 else 0)" if "d' \<noteq> []" for d'
    using signs_as_verify [OF s that] sha3_or_none [OF assms(2)] by blast
  have "dap_sign_create C hd_type (Some k) (Some d) = Inr (Some (signed_object k hd_type P S))"
    using s by (simp only: signs_as_def)
  moreover have "dap_sign_verify C hd_type (Some (signed_object k hd_type P S)) (Some d) = Inr 1"
    using v [OF assms(3)] accepts_own [OF assms(1)] by simp
  ultimately show ?thesis using v by blast
qed

text \<open>A scheme to evaluate with: a signature is the start of the message.\<close>

definition toy_api :: crypto_api where
  "toy_api = \<lparr>sha3_256 = (\<lambda>bs. case bs of [] \<Rightarrow> replicate 32 7 | b # _ \<Rightarrow> if b = 7 then replicate 32 8 else replicate 32 7),
     dilithium_crypto_sign = (\<lambda>M sk. (0, \<lparr>ds_kind = Some 0, ds_data = take 40 M, ds_len = of_nat (length (take 40 M))\<rparr>)),
     dilithium_sign_open = (\<lambda>M s pk. if ds_data s = take 40 M then 0 else -5),
     tesla_crypto_sign = (\<lambda>M sk. (0, \<lparr>ts_kind = 0, ts_data = [], ts_len = 0\<rparr>)), tesla_sign_open = (\<lambda>s M pk. 0),
     bliss_b_sign = (\<lambda>sk M. (0, \<lparr>bs_kind = 0, bs_z1 = [], bs_z2 = [], bs_c = []\<rparr>)), bliss_verify = (\<lambda>s pk M. 0),
     picnic_get_sign = (\<lambda>k M n. take 4 (M @ [0, 0, 0, 0])),
     picnic_verify_sign = (\<lambda>k M s. if s = take 4 (M @ [0, 0, 0, 0]) then 0 else -1), picnic_signature_size = (\<lambda>p. 4),
     picnic_update = (\<lambda>k. k), other_key_new = no_key\<rparr>"

definition toy_key :: dap_enc_key where
  "toy_key = \<lparr>key_type = SIG_DILITHIUM, priv_key_data = Some (DilKey \<lparr>dk_kind = Some 0, dk_data = replicate 2096 1\<rparr>),
     priv_key_data_size = 16, pub_key_data = Some (DilKey \<lparr>dk_kind = Some 0, dk_data = replicate 896 2\<rparr>), pub_key_data_size = 16,
     last_used_timestamp = 5, inheritor = None, inheritor_size = 0\<rparr>"

lemma toy_params: "dilithium_params_init 0 = Some (dilithium_params ! 0)"
  by (simp add: dilithium_params_init_def)

lemma toy_key_sizes: "unat (dil_PUBLICKEYBYTES (dilithium_params ! 0)) = 896" "unat (dil_SECRETKEYBYTES (dilithium_params ! 0)) = 2096"
  by (simp_all add: dilithium_params_def)

lemma toy_pair: "key_pair_ok toy_api toy_key"
proof -
  have "dilithium_key_ok dil_PUBLICKEYBYTES \<lparr>dk_kind = Some 0, dk_data = replicate 896 2\<rparr>"
    unfolding dilithium_key_ok_def using toy_params toy_key_sizes by (intro exI conjI) (rule refl | simp)+
  moreover have "\<exists>s. dilithium_crypto_sign toy_api M sk = (0, s) \<and> dilithium_signature_ok s \<and> ds_kind s = Some 0 \<and>
      0 \<le> dilithium_sign_open toy_api M s pk" for M sk pk
    by (simp add: toy_api_def dilithium_signature_ok_def unat_of_nat take_bit_nat_eq_self_iff min_def)
  ultimately have "dil_pair toy_api toy_key \<lparr>dk_kind = Some 0, dk_data = replicate 896 2\<rparr> \<lparr>dk_kind = Some 0, dk_data = replicate 2096 1\<rparr>"
    by (simp add: dil_pair_def toy_key_def)
  then show ?thesis unfolding key_pair_ok_def by (auto simp: toy_key_def)
qed

theorem sign_then_verify_witness:
  "\<exists>s. dap_sign_create toy_api HASH_TYPE_SHA3 (Some toy_key) (Some [1, 2, 3]) = Inr (Some s) \<and>
     dap_sign_verify toy_api HASH_TYPE_SHA3 (Some s) (Some [1, 2, 3]) = Inr 1"
  using sign_then_verify [OF toy_pair, of HASH_TYPE_SHA3 "[1, 2, 3]"] by (auto simp: hash_known_def)

text \<open>The two blocks of an object leave room for its other fields in 32 bits.\<close>

definition blocks_fit :: "dap_multi_sign \<Rightarrow> bool" where
  "blocks_fit s \<longleftrightarrow> (case (ms_pub_keys s, ms_sign_data s) of
     (Block p, Block g) \<Rightarrow> length p + length g + 12000 < 2 ^ 32 | _ \<Rightarrow> False)"

lemma chain_texts:
  assumes "chain_ok C hd_type ks h seq L" "seq \<noteq> []"
  shows "concat (map st_pub L) \<noteq> []" "concat (map st_sig L) \<noteq> []"
  using assms by (cases seq; cases L; simp add: signs_as_def)+

lemma sum_of_lengths: "sum_list (map (\<lambda>x. word_of_nat (f x) :: u32) xs) = word_of_nat (sum_list (map f xs))"
  by (induction xs) simp_all

lemma created_verify:
  assumes "params_ok C mem_image P" "hash_known hd_type" "\<And>x. length (sha3_256 C x) = HASH_SIZE" "d \<noteq> []"
  shows "\<exists>s seq L. dap_multi_sign_create C mem_image hd_type P (Some d) = Inr (Some s) \<and> seq \<noteq> [] \<and>
    (\<forall>q \<in> set seq. key_pair_ok C (signer (mp_keys P) q) \<and> signer (mp_keys P) q \<in> set (mp_keys P)) \<and> (\<exists>h. chain_ok C hd_type (mp_keys P) h seq L) \<and>
    (blocks_fit s \<longrightarrow> multi_sign_ok s \<and> dap_multi_sign_verify C hd_type (Some s) (Some d) =
       Inr (if \<forall>j < length L. step_accepted C hd_type (mp_keys P) seq L j then 1 else 0))"
proof -
  from create_chain [OF assms] obtain s seq L h hs where s: "dap_multi_sign_create C mem_image hd_type P (Some d) = Inr (Some s)"
    and ch: "chain_ok C hd_type (mp_keys P) h seq L" and sq: "seq \<noteq> []" "length seq = unat (ms_sign_count s)"
    and h: "dap_multi_sign_hash_data C s (Some d) = Inr (Some h)" and hs: "length hs = unat (ms_total_count s) * HASH_SIZE" "hs \<noteq> []"
    and nums: "\<forall>q \<in> set seq. unat (mk_num q) < length (mp_keys P)" and eq: "s = \<lparr>ms_type = SIG_TYPE_MULTI_CHAINED, ms_total_count = mp_total_count P, ms_sign_count = mp_sign_count P,
      ms_key_seq = Block seq, ms_meta = Block (map st_meta L), ms_key_hashes = Block hs,
      ms_pub_keys = Block (concat (map st_pub L)), ms_sign_data = Block (concat (map st_sig L))\<rparr>" by blast
  have f: "ms_type s = SIG_TYPE_MULTI_CHAINED" "ms_key_seq s = Block seq" "ms_meta s = Block (map st_meta L)" "ms_key_hashes s = Block hs"
    "ms_pub_keys s = Block (concat (map st_pub L))" "ms_sign_data s = Block (concat (map st_sig L))" by (simp_all add: eq)
  have lL: "length L = unat (ms_sign_count s)" by (rule trans [OF chain_length [OF ch] sq(2)])
  have L0: "0 < length L" unfolding chain_length [OF ch] using sq(1) by simp
  have "multi_sign_ok s \<and> dap_multi_sign_verify C hd_type (Some s) (Some d) =
      Inr (if \<forall>j < length L. step_accepted C hd_type (mp_keys P) seq L j then 1 else 0)" if fit: "blocks_fit s"
  proof
    have sm: "length (concat (map st_pub L)) + length (concat (map st_sig L)) + 12000 < 2 ^ 32"
      using fit unfolding blocks_fit_def f by simp
    have small: "length (concat (map st_pub L)) < 2 ^ 32" "length (concat (map st_sig L)) < 2 ^ 32" using sm by linarith+
    have cnt: "length seq \<le> 255" "length hs \<le> 255 * 32"
      using unat_byte_less [of "ms_sign_count s"] unat_byte_less [of "ms_total_count s"] sq(2) hs(1) by (simp_all add: HASH_SIZE_def)
    have "multi_sign_parts s seq (map st_meta L) hs (map st_pub L) (map st_sig L)"
      unfolding multi_sign_parts_def f using sq hs chain_texts [OF ch sq(1)] lL sm cnt
      by (intro conjI) (simp_all add: st_meta_def comp_def)
    then show "multi_sign_ok s" unfolding multi_sign_ok_def by blast
    have b: "chunkE (map st_meta L) 0 (length L - 1) = Inr (take (length L - 1) (map st_meta L))" by (simp add: chunk_def)
    have sums: "sum_list (map mm_pkey_size (take n (map st_meta L))) = word_of_nat (offs (map st_pub L) n)"
      "sum_list (map mm_sign_size (take n (map st_meta L))) = word_of_nat (offs (map st_sig L) n)" for n
      by (simp_all add: offs_def take_map st_meta_def comp_def sum_of_lengths)
    have "dap_multi_sign_verify C hd_type (Some s) (Some d) =
        verify_steps C hd_type s (Some d) (length L) (word_of_nat (offs (map st_pub L) (length L - 1)))
          (word_of_nat (offs (map st_sig L) (length L - 1))) 0"
      unfolding dap_multi_sign_verify_def prod.case option.case f derefE_def pointer.case bindE_simps lL [symmetric] b sums by simp
    also have "\<dots> = Inr (if \<forall>j < length L. step_accepted C hd_type (mp_keys P) seq L j then 1 else 0)"
      by (rule verify_steps_chain [OF ch assms(2) f(3,2,5,6) h small order_refl L0])
    finally show "dap_multi_sign_verify C hd_type (Some s) (Some d) =
        Inr (if \<forall>j < length L. step_accepted C hd_type (mp_keys P) seq L j then 1 else 0)" .
  qed
  moreover have "\<forall>q \<in> set seq. key_pair_ok C (signer (mp_keys P) q) \<and> signer (mp_keys P) q \<in> set (mp_keys P)"
    using nums assms(1) by (auto simp: params_ok_def signer_def)
  ultimately show ?thesis using s sq(1) ch by blast
qed


text \<open>
  C12: when what is signed is not hashed, a chain of key pairs makes an object that verifies for its
  data, and the object is read back from what it is written as, whatever follows the text.
\<close>

theorem multi_sign_verifies:
  assumes "params_ok C mem_image P" "\<And>x. length (sha3_256 C x) = HASH_SIZE" "d \<noteq> []"
  shows "\<exists>s. dap_multi_sign_create C mem_image HASH_TYPE_NONE P (Some d) = Inr (Some s) \<and>
    (blocks_fit s \<longrightarrow> dap_multi_sign_verify C HASH_TYPE_NONE (Some s) (Some d) = Inr 1 \<and>
      (\<exists>bs. dap_multi_sign_serialize s = Inr (Some bs) \<and>
        (\<forall>z. dap_multi_sign_deserialize SIG_TYPE_MULTI_CHAINED (bs @ z) (word_of_nat (length bs)) = Inr (Some s))))"
proof -
  have hk: "hash_known HASH_TYPE_NONE" by (simp add: hash_known_def)
  from created_verify [OF assms(1) hk assms(2,3)] obtain s seq L h where
    s: "dap_multi_sign_create C mem_image HASH_TYPE_NONE P (Some d) = Inr (Some s)" "chain_ok C HASH_TYPE_NONE (mp_keys P) h seq L"
    and k: "\<forall>q \<in> set seq. key_pair_ok C (signer (mp_keys P) q)"
    and v: "blocks_fit s \<longrightarrow> multi_sign_ok s \<and> dap_multi_sign_verify C HASH_TYPE_NONE (Some s) (Some d) =
       Inr (if \<forall>j < length L. step_accepted C HASH_TYPE_NONE (mp_keys P) seq L j then 1 else 0)" by blast
  have "step_accepted C HASH_TYPE_NONE (mp_keys P) seq L j" if "j < length L" for j
    using k that chain_length [OF s(2)] by (simp add: step_accepted_def signed_bytes_def accepts_own)
  then have v: "blocks_fit s \<Longrightarrow> multi_sign_ok s \<and> dap_multi_sign_verify C HASH_TYPE_NONE (Some s) (Some d) = Inr 1"
    using v by simp
  have "\<exists>bs. dap_multi_sign_serialize s = Inr (Some bs) \<and>
      (\<forall>z. dap_multi_sign_deserialize SIG_TYPE_MULTI_CHAINED (bs @ z) (word_of_nat (length bs)) = Inr (Some s))" if "blocks_fit s"
    using v [OF that] multi_sign_format [of s] unfolding multi_sign_ok_def by blast
  then show ?thesis using s(1) v by blast
qed

text \<open>A Picnic key for the toy scheme, whose signatures are four bytes.\<close>

definition toy_picnic :: dap_enc_key where
  "toy_picnic = \<lparr>key_type = SIG_PICNIC, priv_key_data = Some (Raw [3]), priv_key_data_size = 1,
     pub_key_data = Some (Raw [9]), pub_key_data_size = 1, last_used_timestamp = 5, inheritor = Some [0, 0, 0, 0], inheritor_size = 4\<rparr>"

definition toy_params_chain :: multi_sign_params where
  "toy_params_chain = dap_multi_sign_params_make SIG_TYPE_MULTI_CHAINED 2 2 [toy_picnic, toy_picnic] [2, 1]"

lemma toy_hash: "length (sha3_256 toy_api x) = HASH_SIZE"
  by (simp add: toy_api_def HASH_SIZE_def split: list.split)

lemma toy_picnic_pair: "key_pair_ok toy_api toy_picnic"
proof -
  have "length (take 4 (M @ [0, 0, 0, 0 :: byte])) = 4" for M by simp
  then have "pic_pair toy_api toy_picnic [9] [0, 0, 0, 0]"
    by (simp add: pic_pair_def toy_picnic_def toy_api_def picnic_key_def no_key_def del: length_take take_append)
  then show ?thesis unfolding key_pair_ok_def by (auto simp: toy_picnic_def)
qed

lemma toy_params_ok: "params_ok toy_api (\<lambda>_. [1]) toy_params_chain"
  using toy_picnic_pair by (simp add: params_ok_def toy_params_chain_def dap_multi_sign_params_make_def toy_picnic_def)

lemma four_times: "replicate 4 x = [x, x, x, x]"
  by (simp add: eval_nat_numeral)

definition toy_sizes :: "byte \<Rightarrow> bool" where
  "toy_sizes t = (case dap_multi_sign_create toy_api (\<lambda>_. [1]) t toy_params_chain (Some [5]) of Inr (Some s) \<Rightarrow>
     (case (ms_pub_keys s, ms_sign_data s) of (Block p, Block g) \<Rightarrow> length p < 9 \<and> length g < 9 | _ \<Rightarrow> False) | _ \<Rightarrow> False)"

lemma toy_sizes: "toy_sizes HASH_TYPE_NONE" "toy_sizes HASH_TYPE_SHA3"
  by code_simp+

lemma toy_fits:
  "toy_sizes t \<Longrightarrow> dap_multi_sign_create toy_api (\<lambda>_. [1]) t toy_params_chain (Some [5]) = Inr (Some s) \<Longrightarrow> blocks_fit s"
  by (simp add: toy_sizes_def blocks_fit_def split: pointer.splits)

theorem multi_sign_verifies_witness:
  "\<exists>s bs. dap_multi_sign_create toy_api (\<lambda>_. [1]) HASH_TYPE_NONE toy_params_chain (Some [5]) = Inr (Some s) \<and>
     dap_multi_sign_verify toy_api HASH_TYPE_NONE (Some s) (Some [5]) = Inr 1 \<and>
     dap_multi_sign_serialize s = Inr (Some bs) \<and>
     dap_multi_sign_deserialize SIG_TYPE_MULTI_CHAINED (bs @ [1]) (word_of_nat (length bs)) = Inr (Some s)"
  using multi_sign_verifies [OF toy_params_ok toy_hash, of "[5]"] toy_fits [OF toy_sizes(1)] by blast

text \<open>
  C14: under the default hash type a chain is signed over hashes of hashes and checked over the hashes
  themselves, because the headers made for checking keep the hash type 0.  Where no key takes a
  signature of the hash of a hash for one of the hash, every chain that is made fails to verify.  The test
  \<open>test/crypto/dap_enc_sign_multi_test.c\<close> makes such a chain, with the hash type as it is initialised, and asserts
  that it verifies.
\<close>

theorem multi_sign_default_hash_fails:
  assumes "params_ok C mem_image P" "\<And>x. length (sha3_256 C x) = HASH_SIZE" "d \<noteq> []"
    and "\<And>k h. k \<in> set (mp_keys P) \<Longrightarrow> \<not> accepts C k (sha3_256 C h) h"
  shows "\<exists>s. dap_multi_sign_create C mem_image HASH_TYPE_SHA3 P (Some d) = Inr (Some s) \<and>
    (blocks_fit s \<longrightarrow> dap_multi_sign_verify C HASH_TYPE_SHA3 (Some s) (Some d) = Inr 0)"
proof -
  have hk: "hash_known HASH_TYPE_SHA3" by (simp add: hash_known_def)
  from created_verify [OF assms(1) hk assms(2,3)] obtain s seq L h where
    s: "dap_multi_sign_create C mem_image HASH_TYPE_SHA3 P (Some d) = Inr (Some s)" "chain_ok C HASH_TYPE_SHA3 (mp_keys P) h seq L"
      "seq \<noteq> []"
    and k: "\<forall>q \<in> set seq. signer (mp_keys P) q \<in> set (mp_keys P)"
    and v: "blocks_fit s \<longrightarrow> multi_sign_ok s \<and> dap_multi_sign_verify C HASH_TYPE_SHA3 (Some s) (Some d) =
       Inr (if \<forall>j < length L. step_accepted C HASH_TYPE_SHA3 (mp_keys P) seq L j then 1 else 0)" by blast
  have "\<not> step_accepted C HASH_TYPE_SHA3 (mp_keys P) seq L 0"
    using k s(3) assms(4) by (simp add: step_accepted_def signed_bytes_def HASH_TYPE_NONE_def HASH_TYPE_SHA3_def)
  moreover have "0 < length L" using chain_length [OF s(2)] s(3) by simp
  ultimately show ?thesis using s(1) v by (intro exI [of _ s]) auto
qed

theorem multi_sign_default_hash_fails_witness:
  "\<exists>s. dap_multi_sign_create toy_api (\<lambda>_. [1]) HASH_TYPE_SHA3 toy_params_chain (Some [5]) = Inr (Some s) \<and>
     dap_multi_sign_verify toy_api HASH_TYPE_SHA3 (Some s) (Some [5]) = Inr 0"
proof -
  have no: "\<not> accepts toy_api k (sha3_256 toy_api h) h" if "k \<in> set (mp_keys toy_params_chain)" for k h
  proof -
    have "k = toy_picnic" using that by (auto simp: toy_params_chain_def dap_multi_sign_params_make_def)
    then show ?thesis by (cases h) (simp_all add: accepts_def toy_picnic_def toy_api_def four_times)
  qed
  show ?thesis
    using multi_sign_default_hash_fails [OF toy_params_ok toy_hash, of "[5]"] no toy_fits [OF toy_sizes(2)] by blast
qed


section \<open>What malformed objects do\<close>

lemma le_val_append: "le_val (xs @ ys) = le_val xs + 256 ^ length xs * le_val ys"
  by (induction xs) (simp_all add: algebra_simps)

lemma low32_unat: "unat (low32 x) = unat x mod 2 ^ 32"
proof -
  have "low32 x = take_bit 32 x"
    by (rule bit_word_eqI) (auto simp: low32_def bit_simps)
  then show ?thesis by (simp only: unsigned_take_bit_eq) (simp only: take_bit_eq_mod)
qed

lemma le_val_le32': "le_val (le32 w) = unat w"
  using unat_u32_less [of w] by (simp add: le32_def le_val_le_bytes)

text \<open>The 64 bits in front of an old text are its length and its kind.\<close>

lemma old_header:
  fixes kind :: u32
  assumes "N < 2 ^ 32" "0 < kind"
  obtains x where "\<And>z. rd64 (le32 (word_of_nat N) @ le32 kind @ z) 0 = Inr x" "x \<noteq> word_of_nat N" "low32 x = word_of_nat N"
proof -
  obtain K where K: "K = unat kind" "0 < K" "K < 2 ^ 32"
    using assms(2) unat_u32_less [of kind] by (simp add: word_less_nat_alt)
  have N: "unat (word_of_nat N :: u32) = N" "unat (word_of_nat N :: u64) = N"
    using of_small(1) [OF assms(1)] assms(1) by (auto intro: unat_of_small)
  let ?x = "word_of_nat (N + 2 ^ 32 * K) :: u64"
  have b: "N + 2 ^ 32 * K < 2 ^ 64" using assms(1) K(3) by simp
  have r: "rd64 (le32 (word_of_nat N) @ le32 kind @ z) 0 = Inr ?x" for z
    using chunkE_at [of "[]" 0 "le32 (word_of_nat N) @ le32 kind" 8 z]
    by (simp add: rd64_def le_val_append le_val_le32' N K(1) del: chunkE_Inr)
  have u: "unat ?x = N + 2 ^ 32 * K" by (rule unat_of_small [OF b])
  have ne: "?x \<noteq> word_of_nat N"
  proof
    assume "?x = word_of_nat N"
    then have "N + 2 ^ 32 * K = N" using u N(2) by metis
    then show False using K(2) by simp
  qed
  have "unat (low32 ?x) = unat (word_of_nat N :: u64)" unfolding low32_unat u N(2) using assms(1) by simp
  then have "low32 ?x = word_of_nat N" by (rule word_unat_eq_iff [THEN iffD2])
  from that [OF r ne this] show thesis .
qed

lemma old_signature_read:
  fixes kind :: u32
  assumes "0 < kind" "kind \<le> 3" "length data + 24 < 2 ^ 32" "length pad = 8"
  defines "S \<equiv> le32 (word_of_nat (24 + length data)) @ le32 kind @ le64 (word_of_nat (length data)) @ data @ pad"
  shows "dap_enc_dilithium_read_signature (Some S) (word_of_nat (length S)) =
    Inr (Some \<lparr>ds_kind = None, ds_data = data, ds_len = word_of_nat (length data)\<rparr>)"
proof -
  obtain N where N: "N = 24 + length data" by blast
  have sm: "N < 2 ^ 32" "N < 2 ^ 64" using assms(3) by (simp_all add: N)
  obtain x where x: "\<And>z. rd64 (le32 (word_of_nat N) @ le32 kind @ z) 0 = Inr x" "x \<noteq> word_of_nat N" "low32 x = word_of_nat N"
    using old_header [OF sm(1) assms(1)] by blast
  have S: "S = le32 (word_of_nat N) @ le32 kind @ le64 (word_of_nat (length data)) @ data @ pad" by (simp add: S_def N)
  have lS: "length S = N" using assms(4) by (simp add: S N)
  have r: "rd64 S 0 = Inr x" "rd32 S 0 = Inr (word_of_nat N)" "rd32 S 4 = Inr kind" "rd64 S 8 = Inr (word_of_nat (length data))"
    "chunkE S 16 (length data) = Inr data"
    unfolding S using x(1) rd32_at [of "[]" 0] rd32_at [of "le32 (word_of_nat N)" 4]
      rd64_at [of "le32 (word_of_nat N) @ le32 kind" 8] chunkE_at [of "le32 (word_of_nat N) @ le32 kind @ le64 (word_of_nat (length data))" 16 data "length data" pad]
    by (simp_all del: chunkE_Inr)
  have p: "dilithium_params_init kind \<noteq> None" using assms(2) by (simp add: dilithium_params_init_def)
  have un: "unat (word_of_nat N :: u64) = N" "unat (word_of_nat (length data) :: u64) = length data"
    using unat_of_small [OF sm(2)] unat_of_small [of "length data"] sm(2) unfolding N by linarith+
  have uc: "ucast (word_of_nat N :: u64) = (word_of_nat N :: u32)"
    using of_nat_unat [of "word_of_nat N :: u64", where 'a = "32 word"] unfolding un(1) by (rule sym)
  have cmp: "\<not> (word_of_nat N :: u64) < 20" "\<not> (word_of_nat N :: u64) < 8"
    using less_of_small [of N 20] less_of_small [of N 8] sm(2) by (simp_all add: N)
  have big: "\<not> (0xffffffffffffffff - 16 :: u64) < word_of_nat (length data)" "\<not> (0xffffffffffffffff - 8 :: u64) < word_of_nat (length data)"
    using assms(3) by (simp_all add: word_less_nat_alt un(2))
  have eq: "(word_of_nat (length data) :: u64) + 16 + 8 = word_of_nat N" by (simp add: N)
  have le: "\<not> (word_of_nat N :: u64) < 8 + word_of_nat (length data)"
    using less_of_small [of N "8 + length data"] sm(2) by (simp add: N)
  have "dap_enc_dilithium_read_signature_old (Some S) (word_of_nat N) =
      Inr (Some \<lparr>ds_kind = None, ds_data = data, ds_len = word_of_nat (length data)\<rparr>)"
    using cmp(2) p big(2) le r(5) unfolding dap_enc_dilithium_read_signature_old_def option.case r bindE_simps uc un(2)
    by (simp del: chunkE_Inr)
  then show ?thesis
    using cmp(1) p big(1) x(2,3) eq unfolding lS dap_enc_dilithium_read_signature_def option.case r bindE_simps Let_def
    by (simp add: r)
qed

text \<open>An object with a type and two texts is as long as its sizes say.\<close>

lemma own_size:
  assumes "P \<noteq> []" "S \<noteq> []" "length P + length S + 14 < 2 ^ 32" "dap_sign_type_from_key_type (key_type k) \<noteq> SIG_TYPE_NULL"
  shows "dap_sign_verify_size (signed_object k t P S) (word_of_nat (14 + length P + length S))"
proof -
  have l: "length P < 2 ^ 32" "length S < 2 ^ 32" "length P + length S < 2 ^ 32" using assms(3) by linarith+
  have c: "(ucast (word_of_nat (length P) :: u32) :: u64) = word_of_nat (length P)" "(ucast (word_of_nat (length S) :: u32) :: u64) = word_of_nat (length S)"
    "(ucast ((word_of_nat (length P) :: u32) + word_of_nat (length S)) :: u64) = word_of_nat (length P + length S)"
    using of_small(2) [OF l(1)] of_small(2) [OF l(2)] of_small(2) [OF l(3)] by simp_all
  have nz: "(word_of_nat (length P) :: u32) \<noteq> 0" "(word_of_nat (length S) :: u32) \<noteq> 0"
    using of_small(1) [OF l(1)] of_small(1) [OF l(2)] assms(1,2) by (metis length_0_conv unat_0)+
  let ?m = "14 + length P + length S"
  have m: "?m < 2 ^ 64" "length P + length S + 14 < 2 ^ 64" "length P < 2 ^ 64" "length S < 2 ^ 64"
    using assms(3) by simp_all
  have cmp: "\<not> (word_of_nat ?m :: u64) < word_of_nat (length P)" "\<not> (word_of_nat ?m :: u64) < word_of_nat (length S)"
    "\<not> (word_of_nat ?m :: u64) < word_of_nat (length P + length S + 14)"
    unfolding less_of_small [OF m(1) m(3)] less_of_small [OF m(1) m(4)] less_of_small [OF m(1) m(2)] by linarith+
  show ?thesis
    unfolding dap_sign_verify_size_def signed_object_def dap_sign.select_convs c sizeof_dap_sign_def of_nat_add [symmetric]
    using nz assms(4) cmp c(3) by simp
qed

lemma verify_dilithium:
  assumes len: "length P < 2 ^ 32" "length S < 2 ^ 32" and d: "d \<noteq> []" and t: "hd_type = HASH_TYPE_SHA3 \<or> t = HASH_TYPE_NONE"
    and P: "dap_enc_dilithium_read_public_key (Some (P @ S)) (word_of_nat (length P)) = Inr r"
    and S: "dap_enc_dilithium_read_signature (Some S) (word_of_nat (length S)) = Inr (Some x)"
  shows "dap_sign_verify C hd_type (Some (signed_object (no_key SIG_DILITHIUM) t P S)) (Some d) =
    bindE (dap_enc_sig_dilithium_verify_sign C (fst (set_pub (no_key SIG_DILITHIUM) 16 (map_option DilKey r))) (signed_bytes C t d)
      (DilSig x) sizeof_dilithium_signature) (\<lambda>r. Inr (if r < 0 then 0 else 1))"
proof -
  obtain k1 r1 where k1: "set_pub (no_key SIG_DILITHIUM) 16 (map_option DilKey r) = (k1, r1)" by fastforce
  have kt: "key_type k1 = SIG_DILITHIUM" using k1 by (auto simp: set_pub_def no_key_def split: option.splits)
  have "dap_enc_key_deserealize_pub_key C (no_key SIG_DILITHIUM) (Some (P @ S)) (word_of_nat (length P)) = Inr (k1, r1)"
    using P k1 by (simp add: dap_enc_key_deserealize_pub_key_def deserealize_pub_def)
  moreover have "dap_enc_key_deserealize_sign (key_type k1) (Some S) (word_of_nat (length S)) = Inr (Some (DilSig x), sizeof_dilithium_signature)"
    using S by (simp add: dap_enc_key_deserealize_sign_def kt)
  ultimately show ?thesis
    using verify_object [OF len d t, of "no_key SIG_DILITHIUM" C "no_key SIG_DILITHIUM" k1 r1] kt k1 by simp
qed

text \<open>
  C16: a signature in the old text, with the length of 32 bits and eight more bytes behind the data, is
  read into a structure whose kind is never set, and verifying it goes by that kind: an object anyone
  can send makes the verifier read memory that was not initialised.
\<close>

theorem sign_verify_old_signature:
  fixes kind :: u32
  assumes "dilithium_key_ok dil_PUBLICKEYBYTES pk" "dap_enc_dilithium_write_public_key pk = Inr (Some P)"
    and "0 < kind" "kind \<le> 3" "length data + 24 < 2 ^ 32" "length pad = 8"
    and "S = le32 (word_of_nat (24 + length data)) @ le32 kind @ le64 (word_of_nat (length data)) @ data @ pad"
    and "d \<noteq> []" "hd_type = HASH_TYPE_SHA3 \<or> t = HASH_TYPE_NONE"
  shows "dap_sign_verify C hd_type (Some (signed_object (no_key SIG_DILITHIUM) t P S)) (Some d) = Inl Uninit"
proof -
  have P: "P = dil_pub.text_of pk" using dil_pub.wr_text [OF assms(1)] assms(2) by simp
  have lP: "length P < 2 ^ 32" using dil_pub.text_size [OF assms(1)] by (simp add: P)
  have lS: "length S < 2 ^ 32" using assms(5,6) by (simp add: assms(7))
  note S = old_signature_read [OF assms(3-6), folded assms(7)]
  obtain k where "dk_kind pk = Some k" using assms(1) by (auto simp: dilithium_key_ok_def)
  then show ?thesis
    using verify_dilithium [OF lP lS assms(8,9) dil_pub.rd_text [OF assms(1), folded P] S]
    by (simp add: set_pub_def dap_enc_sig_dilithium_verify_sign_def as_key_def as_sig_def key_casts initE_def)
qed

theorem sign_verify_old_signature_witness:
  "\<exists>P. dap_sign_verify toy_api HASH_TYPE_SHA3 (Some (signed_object (no_key SIG_DILITHIUM) HASH_TYPE_SHA3 P
      (le32 26 @ le32 1 @ le64 2 @ [8, 9] @ replicate 8 0))) (Some [1]) = Inl Uninit"
proof -
  have "dilithium_key_ok dil_PUBLICKEYBYTES \<lparr>dk_kind = Some 0, dk_data = replicate 896 2\<rparr>"
    unfolding dilithium_key_ok_def using toy_params toy_key_sizes by (intro exI conjI) (rule refl | simp)+
  from sign_verify_old_signature [OF this dil_pub.wr_text [OF this], where kind = 1 and data = "[8, 9]" and pad = "replicate 8 0"
      and d = "[1]" and hd_type = HASH_TYPE_SHA3]
  show ?thesis by auto
qed

text \<open>
  C17: what the reader of a public key returns is not looked at.  An object with a public key of fewer
  than 12 bytes and a well-formed Dilithium signature passes the check of its sizes, and
  verifying it dereferences NULL, for any data.
\<close>

theorem sign_verify_short_key:
  assumes "P \<noteq> []" "length P < 12" "dilithium_signature_ok sg" "dap_enc_dilithium_write_signature (Some sg) = Inr (Some S)"
    and "length P + length S + 14 < 2 ^ 32" "d \<noteq> []" "hd_type = HASH_TYPE_SHA3 \<or> t = HASH_TYPE_NONE"
  shows "dap_sign_verify_size (signed_object (no_key SIG_DILITHIUM) t P S) (word_of_nat (14 + length P + length S)) \<and>
    dap_sign_verify C hd_type (Some (signed_object (no_key SIG_DILITHIUM) t P S)) (Some d) = Inl NullDeref"
proof
  have S: "S = dil_sig.text_of sg" using dil_sig.wr_text [OF assms(3)] assms(4) by simp
  have ne: "S \<noteq> []" using dil_sig.text_size [OF assms(3)] by (simp add: S)
  have l: "length P < 2 ^ 32" "length S < 2 ^ 32" using assms(5) by linarith+
  show "dap_sign_verify_size (signed_object (no_key SIG_DILITHIUM) t P S) (word_of_nat (14 + length P + length S))"
    by (rule own_size [OF assms(1) ne assms(5)]) (simp add: dap_sign_type_from_key_type_def key_types)
  have "(word_of_nat (length P) :: u64) < 12"
    using less_of_small [of "length P" 12] assms(2) by simp
  then have P: "dap_enc_dilithium_read_public_key (Some (P @ S)) (word_of_nat (length P)) = Inr None"
    by (simp add: dap_enc_dilithium_read_public_key_def)
  have S': "dap_enc_dilithium_read_signature (Some S) (word_of_nat (length S)) = Inr (Some sg)"
    using dil_sig.rd_text [OF assms(3), of "[]"] by (simp add: S)
  show "dap_sign_verify C hd_type (Some (signed_object (no_key SIG_DILITHIUM) t P S)) (Some d) = Inl NullDeref"
    using verify_dilithium [OF l(1,2) assms(6,7) P S']
    by (simp add: set_pub_def no_key_def dap_enc_sig_dilithium_verify_sign_def as_key_def as_sig_def key_casts)
qed

theorem sign_verify_short_key_witness:
  "\<exists>S. dap_sign_verify toy_api HASH_TYPE_SHA3 (Some (signed_object (no_key SIG_DILITHIUM) HASH_TYPE_SHA3 [0] S)) (Some [1]) = Inl NullDeref"
proof -
  have ok: "dilithium_signature_ok \<lparr>ds_kind = Some 0, ds_data = [1], ds_len = 1\<rparr>"
    by (simp add: dilithium_signature_ok_def)
  have w: "dap_enc_dilithium_write_signature (Some \<lparr>ds_kind = Some 0, ds_data = [1], ds_len = 1\<rparr>) =
      Inr (Some (le64 21 @ le32 0 @ le64 1 @ [1]))"
    using dilithium_signature_format(1) [OF ok] by simp
  from sign_verify_short_key [OF _ _ ok w, of "[0]" "[1]" HASH_TYPE_SHA3 HASH_TYPE_SHA3 toy_api]
  show ?thesis by auto
qed

text \<open>What a reader may return for a text: nothing, or a key with all the bytes of its kind.\<close>

definition key_or_none :: "(dilithium_param \<Rightarrow> u32) \<Rightarrow> byte list \<Rightarrow> dilithium_key option res \<Rightarrow> bool" where
  "key_or_none bytes m r \<longleftrightarrow> (\<exists>x. r = Inr x \<and> (\<forall>k. x = Some k \<longrightarrow> dilithium_key_ok bytes k \<and>
     (\<exists>i. i + length (dk_data k) \<le> length m \<and> dk_data k = take (length (dk_data k)) (drop i m))))"

lemma key_or_none_None [simp]: "key_or_none bytes m (Inr None)"
  by (simp add: key_or_none_def)

lemma key_or_none_chunk:
  assumes "dilithium_params_init kind = Some p" "i + unat (bytes p) \<le> length m"
  shows "key_or_none bytes m (bindE (chunkE m i (unat (bytes p))) (\<lambda>data. Inr (Some \<lparr>dk_kind = Some kind, dk_data = data\<rparr>)))"
  using assms by (auto simp: key_or_none_def dilithium_key_ok_def chunk_def)

lemma not_less_add:
  assumes "\<not> n < a + ucast (w :: u32)" "unat a + unat w < 2 ^ 64"
  shows "unat (a :: u64) + unat w \<le> unat n"
proof -
  have "a + ucast w = word_of_nat (unat a + unat w)" unfolding ucast_size of_nat_add by simp
  then have "unat (a + ucast w) = unat a + unat w" using unat_of_small [OF assms(2)] by metis
  then show ?thesis using assms(1) unfolding word_less_nat_alt not_less by simp
qed

lemma old_reader:
  assumes "length m = unat n"
  shows "key_or_none dil_PUBLICKEYBYTES m (dap_enc_dilithium_read_public_key_old (Some m) n)"
proof (cases "n < 8")
  case False
  then have "8 \<le> length m" using assms by (simp add: word_less_nat_alt)
  then obtain a kind where r: "rd32 m 0 = Inr a" "rd32 m 4 = Inr kind" by (simp add: rd32_def)
  show ?thesis
  proof (cases "a \<noteq> ucast n \<or> dilithium_params_init kind = None \<or> n < 4 + 4 + ucast (dil_PUBLICKEYBYTES (the (dilithium_params_init kind)))")
    case True
    then show ?thesis
      using False unfolding dap_enc_dilithium_read_public_key_old_def option.case r bindE_simps by (auto split: option.split)
  next
    case ok: False
    then obtain p where p: "dilithium_params_init kind = Some p" "\<not> n < 8 + ucast (dil_PUBLICKEYBYTES p)" by auto
    have "8 + unat (dil_PUBLICKEYBYTES p) \<le> length m"
      using not_less_add [OF p(2)] dilithium_sizes(2) [OF p(1)] assms by simp
    from key_or_none_chunk [where bytes = dil_PUBLICKEYBYTES, OF p(1) this]
    show ?thesis using False ok p unfolding dap_enc_dilithium_read_public_key_old_def option.case r bindE_simps by simp
  qed
qed (simp add: dap_enc_dilithium_read_public_key_old_def)

lemma old2_reader:
  assumes "length m = unat n" "16 \<le> length m"
  shows "key_or_none dil_PUBLICKEYBYTES m (dap_enc_dilithium_read_public_key_old2 (Some m) n)"
proof -
  obtain a kind where r: "rd32 m 0 = Inr a" "rd64 m 8 = Inr kind" using assms(2) by (simp add: rd32_def rd64_def)
  have n: "\<not> n < 4 + 4" using assms by (simp add: word_less_nat_alt)
  let ?k = "ucast kind :: u32"
  show ?thesis
  proof (cases "a \<noteq> ucast n \<or> dilithium_params_init ?k = None \<or> n < 4 + 8 + ucast (dil_PUBLICKEYBYTES (the (dilithium_params_init ?k)))")
    case True
    then show ?thesis
      using n unfolding dap_enc_dilithium_read_public_key_old2_def option.case r bindE_simps by (auto split: option.split)
  next
    case ok: False
    then obtain p where p: "dilithium_params_init ?k = Some p" "\<not> n < 12 + ucast (dil_PUBLICKEYBYTES p)" by auto
    have "12 + unat (dil_PUBLICKEYBYTES p) \<le> length m"
      using not_less_add [OF p(2)] dilithium_sizes(2) [OF p(1)] assms by simp
    from key_or_none_chunk [where bytes = dil_PUBLICKEYBYTES, OF p(1) this]
    show ?thesis using n ok p unfolding dap_enc_dilithium_read_public_key_old2_def option.case r bindE_simps by simp
  qed
qed

text \<open>
  C15: reading a Dilithium public or private key never faults, whatever the text of the given length has; a key
  that comes back has a kind of the table, and all the bytes of that kind, taken in place from the text.
\<close>

theorem dilithium_keys_read_safe:
  assumes "length m = unat n"
  shows "key_or_none dil_PUBLICKEYBYTES m (dap_enc_dilithium_read_public_key (Some m) n) \<and>
    key_or_none dil_SECRETKEYBYTES m (dap_enc_dilithium_read_private_key (Some m) n)"
proof (cases "n < 12")
  case True
  have "dap_enc_dilithium_read_private_key_old (Some m) 4 = Inr None" by (simp add: dap_enc_dilithium_read_private_key_old_def)
  moreover have "n = 4" if "n + 8 = 8 + 4" using that by (metis add.commute add_left_cancel)
  ultimately show ?thesis
    using True by (auto simp: dap_enc_dilithium_read_public_key_def dap_enc_dilithium_read_private_key_def)
next
  case False
  then have ge: "12 \<le> length m" using assms by (simp add: word_less_nat_alt)
  obtain len k4 k8 where r: "rd64 m 0 = Inr len" "rd32 m 4 = Inr k4" "rd32 m 8 = Inr k8" using ge by (simp add: rd32_def rd64_def)
  obtain kind where kind: "rd32 m (if len \<noteq> n then 4 else 8) = Inr kind" using r by (cases "len \<noteq> n") simp_all
  have pub: "key_or_none dil_PUBLICKEYBYTES m (dap_enc_dilithium_read_public_key (Some m) n)"
  proof (cases "dilithium_params_init kind")
    case None
    then show ?thesis unfolding dap_enc_dilithium_read_public_key_def option.case r bindE_simps kind using False by simp
  next
    case (Some p)
    obtain full where full: "full = 8 + 4 + (ucast (dil_PUBLICKEYBYTES p) :: u64)" by blast
    have z: "key_or_none dil_PUBLICKEYBYTES m (bindE (chunkE m 12 (unat (dil_PUBLICKEYBYTES p))) (\<lambda>data. Inr (Some \<lparr>dk_kind = Some kind, dk_data = data\<rparr>)))"
      if "\<not> n < full"
      using not_less_add [of n 12 "dil_PUBLICKEYBYTES p"] that dilithium_sizes(2) [OF Some] assms
      by (intro key_or_none_chunk [OF Some]) (simp add: full)
    have s16: "16 \<le> length m" if "n + 4 = full"
    proof -
      have "n = word_of_nat (8 + unat (dil_PUBLICKEYBYTES p))" using that unfolding full ucast_size by (simp add: algebra_simps)
      then show ?thesis
        using assms dilithium_sizes(2,3) [OF Some] unat_of_small [of "8 + unat (dil_PUBLICKEYBYTES p)"] by simp
    qed
    show ?thesis
      unfolding dap_enc_dilithium_read_public_key_def option.case r bindE_simps kind Let_def Some full [symmetric]
      using False old_reader [OF assms] old2_reader [OF assms s16] z by simp
  qed
  have "key_or_none dil_SECRETKEYBYTES m (dap_enc_dilithium_read_private_key (Some m) n)"
  proof (cases "dilithium_params_init k8")
    case None
    then show ?thesis
      unfolding dap_enc_dilithium_read_private_key_def option.case r bindE_simps using False by (auto simp: add.commute [of 8])
  next
    case (Some p)
    have n4: "n + 8 \<noteq> 8 + 4"
    proof
      assume "n + 8 = 8 + 4"
      then have "n = 4" by (metis add.commute add_left_cancel)
      with False show False by simp
    qed
    show ?thesis
      unfolding dap_enc_dilithium_read_private_key_def option.case r bindE_simps Some
      using n4 False not_less_add [of n 12 "dil_SECRETKEYBYTES p"] dilithium_sizes(1) [OF Some] assms key_or_none_chunk [OF Some, of 12 dil_SECRETKEYBYTES m]
      by simp
  qed
  with pub show ?thesis ..
qed

theorem dilithium_keys_read_safe_witness:
  "key_or_none dil_PUBLICKEYBYTES (le64 904 @ le32 1 @ replicate 892 5)
     (dap_enc_dilithium_read_public_key (Some (le64 904 @ le32 1 @ replicate 892 5)) 904)"
  using dilithium_keys_read_safe [of "le64 904 @ le32 1 @ replicate 892 5" 904] by simp

text \<open>
  A text of a larger kind that lacks its last eight bytes is taken for the oldest format: it is read as a
  key of the smallest kind, from the four bytes of the kind on.
\<close>

lemma le_bytes_split: "le_bytes (j + k) v = le_bytes j v @ le_bytes k (v div 256 ^ j)"
  by (induction j arbitrary: v) (simp_all add: div_mult2_eq)

lemma le64_split: "n < 2 ^ 32 \<Longrightarrow> le64 (word_of_nat n) = le32 (word_of_nat n) @ le32 0"
  using le_bytes_split [of 4 4 n] unat_of_small [of n] of_small(1) [of n] by (simp add: le64_def le32_def)

lemma dilithium_truncated_key:
  assumes "0 < kind" "dilithium_params_init kind = Some p" "length data + 8 = unat (dil_PUBLICKEYBYTES p)"
  shows "dap_enc_dilithium_read_public_key (Some (le64 (word_of_nat (12 + length data)) @ le32 kind @ data)) (word_of_nat (12 + length data)) =
    Inr (Some \<lparr>dk_kind = Some 0, dk_data = take 896 (le32 kind @ data)\<rparr>)"
proof -
  obtain N where N: "N = 12 + length data" by blast
  have big: "1184 \<le> unat (dil_PUBLICKEYBYTES p)"
  proof -
    have k: "kind \<le> 3" "p = dilithium_params ! unat kind" using assms(2) by (simp_all add: dilithium_params_init_def split: if_splits)
    then have "unat kind \<in> {1, 2, 3}" using assms(1) by (auto simp: word_less_nat_alt word_le_nat_alt)
    then show ?thesis using k(2) by (auto simp: dilithium_params_def)
  qed
  have b: "N \<le> 1764" "1188 \<le> N" using dilithium_sizes(2) [OF assms(2)] assms(3) big by (simp_all add: N)
  let ?m = "le64 (word_of_nat N) @ le32 kind @ data"
  have sp: "?m = le32 (word_of_nat N) @ le32 0 @ le32 kind @ data" using le64_split [of N] b(1) by simp
  have r: "rd64 ?m 0 = Inr (word_of_nat N)" "rd32 ?m 8 = Inr kind" "rd32 ?m 0 = Inr (word_of_nat N)" "rd32 ?m 4 = Inr 0"
    using rd64_at [of "[]" 0] rd32_at [of "le64 (word_of_nat N)" 8] rd32_at [of "[]" 0 "word_of_nat N" "le32 0 @ le32 kind @ data"]
      rd32_at [of "le32 (word_of_nat N)" 4 0 "le32 kind @ data"] unfolding sp [symmetric] by simp_all
  have cmp: "\<not> (word_of_nat N :: u64) < 8 + 4" "\<not> (word_of_nat N :: u64) < 4 + 4" "\<not> (word_of_nat N :: u64) < 4 + 4 + 896"
    using less_of_small [of N 12] less_of_small [of N 8] less_of_small [of N 904] b by simp_all
  have full: "(word_of_nat N :: u64) + 8 = 8 + 4 + ucast (dil_PUBLICKEYBYTES p)"
    unfolding ucast_size assms(3) [symmetric] N by simp
  have zero: "dilithium_params_init 0 = Some (dilithium_params ! 0)" "dil_PUBLICKEYBYTES (dilithium_params ! 0) = 896"
    by (simp_all add: dilithium_params_init_def dilithium_params_def)
  have uc: "ucast (word_of_nat N :: u64) = (word_of_nat N :: u32)"
    using of_nat_unat [of "word_of_nat N :: u64", where 'a = "32 word"] b(1) unat_of_small [of N] by simp
  have ch: "chunkE ?m 8 896 = Inr (take 896 (le32 kind @ data))" using b by (simp add: chunk_def N)
  have old: "dap_enc_dilithium_read_public_key_old (Some ?m) (word_of_nat N) = Inr (Some \<lparr>dk_kind = Some 0, dk_data = take 896 (le32 kind @ data)\<rparr>)"
    unfolding dap_enc_dilithium_read_public_key_old_def option.case r bindE_simps uc zero
    using cmp(2,3) ch zero(2) by (simp del: chunkE_Inr)
  show ?thesis
    unfolding N [symmetric] dap_enc_dilithium_read_public_key_def option.case r bindE_simps Let_def
      if_not_P [OF cmp(1)] simp_thms if_False r(2) assms(2) if_P [OF full] by (simp only: old)
qed

text \<open>
  C18: the readers of TESLA keys do not compare the length of the text with the size of the kind.  An object
  whose public key is the header alone, with a signature shorter than a key, passes the check of its sizes,
  and verifying it reads past its end.
\<close>

theorem sign_verify_tesla_overread:
  assumes "kind \<le> 4" "P = le64 12 @ le32 kind" "S \<noteq> []" "length S < 1504"
  shows "dap_sign_verify_size (signed_object (no_key SIG_TESLA) t P S) (word_of_nat (14 + length P + length S)) \<and>
    dap_sign_verify C hd_type (Some (signed_object (no_key SIG_TESLA) t P S)) (Some d) = Inl OutOfBounds"
proof
  have P: "P \<noteq> []" "length P = 12" by (simp_all add: assms(2))
  show "dap_sign_verify_size (signed_object (no_key SIG_TESLA) t P S) (word_of_nat (14 + length P + length S))"
    using assms(4) P by (intro own_size [OF P(1) assms(3)]) (simp_all add: dap_sign_type_from_key_type_def key_types)
  obtain p where p: "tesla_params_init kind = Some p" using assms(1) by (simp add: tesla_params_init_def)
  have big: "1504 \<le> unat (tes_PUBLICKEYBYTES p)"
  proof -
    have "unat kind < length tesla_params" using assms(1) by (simp add: tesla_params_def word_le_nat_alt)
    then have "p \<in> set tesla_params" using p assms(1) by (auto simp: tesla_params_init_def)
    then show ?thesis by (auto simp: tesla_params_def)
  qed
  have r: "rd64 (P @ S) 0 = Inr 12" "rd32 (P @ S) 8 = Inr kind"
    using rd64_at [of "[]" 0 12] rd32_at [of "le64 12" 8 kind S] by (simp_all add: assms(2))
  have rd: "dap_enc_tesla_read_public_key (Some (P @ S)) (word_of_nat (length P)) = Inl OutOfBounds"
    using big assms(4) P(2) unfolding dap_enc_tesla_read_public_key_def tesla_read_key_def option.case r bindE_simps
    by (simp add: p chunkE_def)
  have l: "length P < 2 ^ 32" "length S < 2 ^ 32" using P(2) assms(4) by simp_all
  show "dap_sign_verify C hd_type (Some (signed_object (no_key SIG_TESLA) t P S)) (Some d) = Inl OutOfBounds"
    using rd unfolding dap_sign_verify_def dap_sign_to_enc_key_def Let_def option.case prod.case signed_object_parts [OF l] fst_conv snd_conv
    by (simp add: dap_enc_key_deserealize_pub_key_def deserealize_pub_def)
qed

theorem sign_verify_tesla_overread_witness:
  "dap_sign_verify toy_api HASH_TYPE_SHA3 (Some (signed_object (no_key SIG_TESLA) HASH_TYPE_SHA3 (le64 12 @ le32 2) [7])) (Some [1]) = Inl OutOfBounds"
  using sign_verify_tesla_overread [of 2 "le64 12 @ le32 2" "[7]" HASH_TYPE_SHA3 toy_api HASH_TYPE_SHA3 "[1]"] by simp

text \<open>Loading the private key of a BLISS pair anew, then the public one, releases the old public key twice.\<close>

lemma bliss_reload_double_free:
  assumes "key_type k = SIG_BLISS" "priv_key_data k \<noteq> None" "pub_key_data k = Some (BliPub pk)" "bliss_private_key_ok v"
  shows "\<exists>k'. dap_enc_key_deserealize_priv_key C k (Some (bli_priv.text_of v)) (word_of_nat (length (bli_priv.text_of v))) = Inr (k', 0) \<and>
    dap_enc_key_deserealize_pub_key C k' (Some m) n = Inl BadFree"
  using assms bli_priv.rd_text [OF assms(4), of "[]"]
  by (simp add: dap_enc_key_deserealize_priv_key_def dap_enc_key_deserealize_pub_key_def deserealize_pub_def set_priv_def)

end
