(* ===== verification/SignList.thy ===== *)
theory SignList
  imports SignProps
begin

text \<open>
  Signed objects in a row (\<open>dap_sign_get_unique_signs\<close> of \<open>dap_sign.c\<close>) and the checks \<open>dap_sign.h\<close> makes of
  an object that was received (\<open>dap_sign_verify_all\<close>).
\<close>

section \<open>The code\<close>

definition dap_sign_verify_data :: "crypto_api \<Rightarrow> byte \<Rightarrow> dap_sign option \<Rightarrow> byte list option \<Rightarrow> bool res" where
  "dap_sign_verify_data C hash_default a_sign a_data = bindE (dap_sign_verify C hash_default a_sign a_data) (\<lambda>r. Inr (r = 1))"

definition dap_sign_verify_all :: "crypto_api \<Rightarrow> byte \<Rightarrow> dap_sign \<Rightarrow> u64 \<Rightarrow> byte list option \<Rightarrow> int res" where
  "dap_sign_verify_all C hash_default s size_max a_data =
     (if size_max < word_of_nat sizeof_dap_sign then Inr (-3)
      else if \<not> dap_sign_verify_size s size_max then Inr (-2)
      else bindE (dap_sign_verify_data C hash_default (Some s) a_data) (\<lambda>ok. Inr (if ok then 0 else -1)))"

text \<open>
  The size of the object at a position of the memory: the type first, the sizes only when there is one.
\<close>

definition sign_size_at :: "byte list \<Rightarrow> nat \<Rightarrow> nat res" where
  "sign_size_at m i = bindE (rd32 m i) (\<lambda>t. if t = SIG_TYPE_NULL then Inr 0
     else bindE (rd32 m (i + 6)) (\<lambda>s. bindE (rd32 m (i + 10)) (\<lambda>p. Inr (sizeof_dap_sign + unat s + unat p))))"

text \<open>Compared with each object kept before over the length of the public key of the new one.\<close>

fun duplicate_of :: "byte list \<Rightarrow> nat \<Rightarrow> nat \<Rightarrow> nat list \<Rightarrow> bool res" where
  "duplicate_of m i n [] = Inr False"
| "duplicate_of m i n (j # js) = bindE (chunkE m (j + sizeof_dap_sign) n) (\<lambda>a. bindE (chunkE m (i + sizeof_dap_sign) n) (\<lambda>b.
     if a = b then Inr True else duplicate_of m i n js))"

function unique_loop :: "byte list \<Rightarrow> nat \<Rightarrow> nat \<Rightarrow> nat list \<Rightarrow> nat list res" where
  "unique_loop m a_data_size i kept =
     (if a_data_size \<le> i then Inr kept
      else case sign_size_at m i of Inl e \<Rightarrow> Inl e
      | Inr sz \<Rightarrow>
          if sz = 0 \<or> a_data_size - i < sz then Inr kept
          else bindE (if kept = [] then Inr False
                 else bindE (rd32 m (i + 10)) (\<lambda>n. duplicate_of m i (unat n) kept)) (\<lambda>dup.
            unique_loop m a_data_size (i + sz) (if dup then kept else kept @ [i])))"
  by pat_completeness auto
termination by (relation "measure (\<lambda>(m, n, i, kept). n - i)") auto

declare unique_loop.simps [simp del]

text \<open>The result is the list of pointers, here of offsets; the memory is that from the start of the data on.\<close>

definition dap_sign_get_unique_signs :: "byte list \<Rightarrow> nat \<Rightarrow> nat list res" where
  "dap_sign_get_unique_signs m a_data_size = unique_loop m a_data_size 0 []"

section \<open>Objects in a row\<close>

definition sign_bytes :: "dap_sign \<Rightarrow> byte list" where
  "sign_bytes s = le32 (sgn_type s) @ [hash_type s, 0] @ le32 (sign_size s) @ le32 (sign_pkey_size s) @ pkey_n_sign s"

definition sign_whole :: "dap_sign \<Rightarrow> bool" where
  "sign_whole s \<longleftrightarrow> sgn_type s \<noteq> SIG_TYPE_NULL \<and> length (pkey_n_sign s) = unat (sign_pkey_size s) + unat (sign_size s)"

definition pkey_of :: "dap_sign \<Rightarrow> byte list" where
  "pkey_of s = take (unat (sign_pkey_size s)) (pkey_n_sign s)"

definition row :: "dap_sign list \<Rightarrow> byte list" where
  "row ss = concat (map sign_bytes ss)"

lemma row_simps [simp]: "row [] = []" "row (s # ss) = sign_bytes s @ row ss" "row (ss @ ts) = row ss @ row ts"
  by (simp_all add: row_def)

lemma length_sign_bytes: "sign_whole s \<Longrightarrow> length (sign_bytes s) = sizeof_dap_sign + unat (sign_size s) + unat (sign_pkey_size s)"
  by (simp add: sign_bytes_def sign_whole_def sizeof_dap_sign_def)

lemma sign_size_at_row:
  assumes "length A = i" "sign_whole s"
  shows "sign_size_at (A @ sign_bytes s @ z) i = Inr (length (sign_bytes s))" "rd32 (A @ sign_bytes s @ z) (i + 10) = Inr (sign_pkey_size s)"
proof -
  have r: "rd32 (A @ sign_bytes s @ z) i = Inr (sgn_type s)" "rd32 (A @ sign_bytes s @ z) (i + 6) = Inr (sign_size s)"
    "rd32 (A @ sign_bytes s @ z) (i + 10) = Inr (sign_pkey_size s)"
    using assms(1) rd32_at [of A i] rd32_at [of "A @ le32 (sgn_type s) @ [hash_type s, 0]" "i + 6"]
      rd32_at [of "A @ le32 (sgn_type s) @ [hash_type s, 0] @ le32 (sign_size s)" "i + 10"]
    by (simp_all add: sign_bytes_def)
  then show "rd32 (A @ sign_bytes s @ z) (i + 10) = Inr (sign_pkey_size s)" by blast
  show "sign_size_at (A @ sign_bytes s @ z) i = Inr (length (sign_bytes s))"
    using r assms(2) by (simp add: sign_size_at_def length_sign_bytes) (simp add: sign_whole_def)
qed

lemma pkey_at:
  assumes "length A = i" "sign_whole s" "sign_pkey_size s = ps"
  shows "chunkE (A @ sign_bytes s @ z) (i + sizeof_dap_sign) (unat ps) = Inr (pkey_of s)"
proof -
  let ?h = "A @ le32 (sgn_type s) @ [hash_type s, 0] @ le32 (sign_size s) @ le32 (sign_pkey_size s)"
  have e: "A @ sign_bytes s @ z = ?h @ pkey_of s @ drop (unat ps) (pkey_n_sign s) @ z"
    using assms(3) by (simp add: sign_bytes_def pkey_of_def)
  show ?thesis unfolding e
    using assms by (intro chunkE_at) (simp_all add: sizeof_dap_sign_def sign_whole_def pkey_of_def)
qed

text \<open>Where each object of a row starts, and the first object of each public key.\<close>

definition starts :: "dap_sign list \<Rightarrow> nat \<Rightarrow> nat" where
  "starts ss j = length (row (take j ss))"

definition firsts :: "dap_sign list \<Rightarrow> nat list" where
  "firsts ss = filter (\<lambda>j. pkey_of (ss ! j) \<notin> pkey_of ` set (take j ss)) [0..<length ss]"

lemma row_at: "j < length ss \<Longrightarrow> row ss @ z = row (take j ss) @ sign_bytes (ss ! j) @ row (drop (Suc j) ss) @ z"
  by (metis append.assoc id_take_nth_drop row_simps(2,3))

lemma row_pkey:
  assumes "j < length ss" "\<And>s. s \<in> set ss \<Longrightarrow> sign_whole s \<and> sign_pkey_size s = ps"
  shows "chunkE (row ss @ z) (starts ss j + sizeof_dap_sign) (unat ps) = Inr (pkey_of (ss ! j))"
proof -
  have "sign_whole (ss ! j)" "sign_pkey_size (ss ! j) = ps" using assms by simp_all
  from pkey_at [OF refl this] show ?thesis unfolding row_at [OF assms(1)] starts_def .
qed

lemma duplicate_row:
  assumes "\<And>s. s \<in> set ss \<Longrightarrow> sign_whole s \<and> sign_pkey_size s = ps" "i < length ss" "\<And>j. j \<in> set js \<Longrightarrow> j < length ss"
  shows "duplicate_of (row ss @ z) (starts ss i) (unat ps) (map (starts ss) js) = Inr (pkey_of (ss ! i) \<in> (\<lambda>j. pkey_of (ss ! j)) ` set js)"
  using assms(3)
proof (induction js)
  case (Cons j js)
  then show ?case
    using row_pkey [OF _ assms(1), where j = i] row_pkey [OF _ assms(1), where j = j] assms(2) by (auto simp del: chunkE_Inr)
qed simp

lemma firsts_snoc: "firsts (ss @ [s]) = firsts ss @ (if pkey_of s \<in> pkey_of ` set ss then [] else [length ss])"
proof -
  have "filter (\<lambda>j. pkey_of ((ss @ [s]) ! j) \<notin> pkey_of ` set (take j (ss @ [s]))) [0..<length ss] = firsts ss"
    unfolding firsts_def by (intro filter_cong) (simp_all add: nth_append)
  then show ?thesis by (simp add: firsts_def nth_append)
qed

lemma firsts_less: "j \<in> set (firsts ss) \<Longrightarrow> j < length ss"
  by (simp add: firsts_def)

lemma firsts_pkeys: "(\<lambda>j. pkey_of (ss ! j)) ` set (firsts ss) = pkey_of ` set ss"
proof (induction ss rule: rev_induct)
  case (snoc s ss)
  have "(\<lambda>j. pkey_of ((ss @ [s]) ! j)) ` set (firsts ss) = (\<lambda>j. pkey_of (ss ! j)) ` set (firsts ss)"
    using firsts_less by (intro image_cong) (auto simp: nth_append)
  then show ?case using snoc by (auto simp: firsts_snoc)
qed (simp add: firsts_def)

lemma unique_loop_row:
  assumes "\<And>s. s \<in> set (pre @ rest) \<Longrightarrow> sign_whole s \<and> sign_pkey_size s = ps"
  shows "unique_loop (row (pre @ rest) @ z) (length (row (pre @ rest)) + length t) (length (row pre)) (map (starts (pre @ rest)) (firsts pre)) =
    unique_loop (row (pre @ rest) @ z) (length (row (pre @ rest)) + length t) (length (row (pre @ rest))) (map (starts (pre @ rest)) (firsts (pre @ rest)))"
  using assms
proof (induction rest arbitrary: pre)
  case (Cons s rest)
  let ?ss = "pre @ s # rest" and ?i = "length (row pre)"
  let ?m = "row ?ss @ z" and ?n = "length (row ?ss) + length t"
  have s: "sign_whole s" "sign_pkey_size s = ps" using Cons.prems by simp_all
  have sz: "sign_size_at ?m ?i = Inr (length (sign_bytes s))" "rd32 ?m (?i + 10) = Inr ps"
    using sign_size_at_row [of "row pre" ?i s "row rest @ z"] s by simp_all
  have pos: "0 < length (sign_bytes s)" using length_sign_bytes [OF s(1)] by (simp add: sizeof_dap_sign_def)
  have st: "starts ?ss (length pre) = ?i" by (simp add: starts_def)
  have keys: "(\<lambda>j. pkey_of (?ss ! j)) ` set (firsts pre) = pkey_of ` set pre"
    unfolding firsts_pkeys [symmetric] using firsts_less [of _ pre] by (intro image_cong) (auto simp: nth_append)
  have dup: "duplicate_of ?m ?i (unat ps) (map (starts ?ss) (firsts pre)) = Inr (pkey_of s \<in> pkey_of ` set pre)"
  proof -
    have lt: "j < length ?ss" if "j \<in> set (firsts pre)" for j using firsts_less [OF that] by simp
    have "?ss ! length pre = s" by simp
    with duplicate_row [of ?ss ps "length pre" "firsts pre" z] Cons.prems lt st keys show ?thesis by simp
  qed
  have nil: "firsts pre = [] \<longleftrightarrow> set pre = {}" using firsts_pkeys [of pre] by auto
  have step: "unique_loop ?m ?n ?i (map (starts ?ss) (firsts pre)) =
      unique_loop ?m ?n (?i + length (sign_bytes s)) (map (starts ?ss) (firsts pre @ (if pkey_of s \<in> pkey_of ` set pre then [] else [length pre])))"
    using sz pos dup nil by (subst unique_loop.simps) (auto simp: st starts_def)
  have "unique_loop ?m ?n (length (row (pre @ [s]))) (map (starts ?ss) (firsts (pre @ [s]))) =
      unique_loop ?m ?n (length (row ?ss)) (map (starts ?ss) (firsts ?ss))"
    using Cons.IH [of "pre @ [s]"] Cons.prems by simp
  then show ?case unfolding step firsts_snoc by simp
qed simp

text \<open>
  C26: of signed objects in a row with public keys of one size, the first of each public key is
  found, in order; the end of the data, or an object without a type behind them, ends the search.
\<close>

theorem unique_signs_firsts:
  assumes "\<And>s. s \<in> set ss \<Longrightarrow> sign_whole s \<and> sign_pkey_size s = ps" "t = [] \<or> take 4 t = le32 SIG_TYPE_NULL"
  shows "dap_sign_get_unique_signs (row ss @ t) (length (row ss @ t)) = Inr (map (starts ss) (firsts ss))"
proof -
  have f: "firsts [] = []" by (simp add: firsts_def)
  have "dap_sign_get_unique_signs (row ss @ t) (length (row ss @ t)) =
      unique_loop (row ss @ t) (length (row ss) + length t) (length (row ss)) (map (starts ss) (firsts ss))"
    using unique_loop_row [of "[]" ss ps t t] assms(1) by (simp add: dap_sign_get_unique_signs_def f)
  moreover have "sign_size_at (row ss @ t) (length (row ss)) = Inr 0" if "t \<noteq> []"
  proof -
    have "t = le32 SIG_TYPE_NULL @ drop 4 t" using assms(2) that by (metis append_take_drop_id)
    then have "rd32 (row ss @ t) (length (row ss)) = Inr SIG_TYPE_NULL" using rd32_at [OF refl] by metis
    then show ?thesis by (simp add: sign_size_at_def)
  qed
  ultimately show ?thesis by (subst (asm) unique_loop.simps) (cases "t = []"; simp)
qed

text \<open>
  Behind the last object, a rest that is too short for a type is read as a header: the search leaves the data.
\<close>

theorem unique_signs_tail_fault:
  assumes "\<And>s. s \<in> set ss \<Longrightarrow> sign_whole s \<and> sign_pkey_size s = ps" "t \<noteq> []" "length t < 4"
  shows "dap_sign_get_unique_signs (row ss @ t) (length (row ss @ t)) = Inl OutOfBounds"
proof -
  have f: "firsts [] = []" by (simp add: firsts_def)
  have "dap_sign_get_unique_signs (row ss @ t) (length (row ss @ t)) =
      unique_loop (row ss @ t) (length (row ss) + length t) (length (row ss)) (map (starts ss) (firsts ss))"
    using unique_loop_row [of "[]" ss ps t t] assms(1) by (simp add: dap_sign_get_unique_signs_def f)
  moreover have "sign_size_at (row ss @ t) (length (row ss)) = Inl OutOfBounds"
    using assms(3) by (simp add: sign_size_at_def rd32_def chunkE_def)
  ultimately show ?thesis using assms(2) by (subst (asm) unique_loop.simps) simp
qed

text \<open>Objects to evaluate with.\<close>

definition toy_signed :: "byte \<Rightarrow> byte \<Rightarrow> dap_sign" where
  "toy_signed p g = \<lparr>sgn_type = SIG_TYPE_PICNIC, hash_type = 1, sign_size = 1, sign_pkey_size = 1, pkey_n_sign = [p, g]\<rparr>"

lemma toy_signed_whole: "sign_whole (toy_signed p g) \<and> sign_pkey_size (toy_signed p g) = 1"
  by (simp add: sign_whole_def toy_signed_def key_types)

theorem unique_signs_firsts_witness:
  "dap_sign_get_unique_signs (row [toy_signed 5 1, toy_signed 6 2, toy_signed 5 3, toy_signed 7 4])
     (length (row [toy_signed 5 1, toy_signed 6 2, toy_signed 5 3, toy_signed 7 4])) = Inr [0, 16, 48]"
proof -
  let ?ss = "[toy_signed 5 1, toy_signed 6 2, toy_signed 5 3, toy_signed 7 4]"
  have "map (starts ?ss) (firsts ?ss) = [0, 16, 48]" by code_simp
  with unique_signs_firsts [of ?ss 1 "[]"] toy_signed_whole show ?thesis by auto
qed

theorem unique_signs_tail_fault_witness:
  "dap_sign_get_unique_signs (row [toy_signed 5 1] @ [9]) (length (row [toy_signed 5 1] @ [9])) = Inl OutOfBounds"
  using unique_signs_tail_fault [of "[toy_signed 5 1]" 1 "[9]"] toy_signed_whole by auto

end
