(* ===== verification/Cert.thy ===== *)
theory Cert
  imports SignList BinTree
begin

text \<open>
  Certificates (\<open>crypto/src/dap_cert.c\<close>, \<open>dap_cert_file.c\<close>): a key with a name and a search tree of
  metadata, its text in a file, and what is asked of it.  The items of metadata are numbered blocks, item \<open>p\<close> being
  the one the pointer \<open>p + 1\<close> of the tree leads to.  The table of certificates by name and the folders are left out.
\<close>

section \<open>Metadata\<close>

text \<open>The value of an item is followed in its block by the key and the NUL behind it.\<close>

record cert_meta =
  cm_key :: cstr
  cm_length :: u32
  cm_type :: u32
  cm_value :: "byte list"

definition meta_mem :: "cert_meta \<Rightarrow> byte list" where
  "meta_mem m = cm_value m @ cm_key m @ [0]"

definition META_STRING :: u32 where "META_STRING = 0"
definition META_BOOL :: u32 where "META_BOOL = 1"
definition META_INT :: u32 where "META_INT = 2"
definition META_DATETIME :: u32 where "META_DATETIME = 3"
definition META_DATETIME_PERIOD :: u32 where "META_DATETIME_PERIOD = 4"
definition META_SIGN :: u32 where "META_SIGN = 5"
definition META_CUSTOM :: u32 where "META_CUSTOM = 6"

named_theorems meta_types
declare META_STRING_def [meta_types] META_BOOL_def [meta_types] META_INT_def [meta_types] META_DATETIME_def [meta_types]
  META_DATETIME_PERIOD_def [meta_types] META_SIGN_def [meta_types] META_CUSTOM_def [meta_types]

definition is_bytes :: "u32 \<Rightarrow> bool" where
  "is_bytes t \<longleftrightarrow> t = META_STRING \<or> t = META_SIGN \<or> t = META_CUSTOM"

definition DAP_CERT_ITEM_NAME_MAX :: nat where "DAP_CERT_ITEM_NAME_MAX = 40"

record dap_cert =
  cert_key :: dap_enc_key
  cert_name :: "byte list"
  cert_metadata :: dap_binary_tree
  cert_area :: "cert_meta list"

definition dap_cert_new_meta :: "cstr option \<Rightarrow> u32 \<Rightarrow> byte list option \<Rightarrow> u64 \<Rightarrow> cert_meta option res" where
  "dap_cert_new_meta a_key a_type a_value n = (case a_key of None \<Rightarrow> Inr None
   | Some k \<Rightarrow>
       if META_CUSTOM < a_type \<or> a_value = None \<and> n \<noteq> 0 then Inr None
       else bindE (case a_value of None \<Rightarrow> Inr [] | Some v \<Rightarrow> chunkE v 0 (unat n)) (\<lambda>v.
         Inr (Some \<lparr>cm_key = k, cm_length = ucast n, cm_type = a_type, cm_value = v\<rparr>)))"

text \<open>An item that was not made is dereferenced.\<close>

definition put_meta :: "dap_cert \<Rightarrow> cert_meta option \<Rightarrow> dap_cert res" where
  "put_meta c r = (case r of None \<Rightarrow> Inl NullDeref
   | Some m \<Rightarrow> Inr (c\<lparr>cert_metadata := dap_binary_tree_insert (cert_metadata c) (cm_key m) (Suc (length (cert_area c))),
       cert_area := cert_area c @ [m]\<rparr>))"

definition dap_cert_add_meta :: "dap_cert \<Rightarrow> cstr option \<Rightarrow> u32 \<Rightarrow> byte list option \<Rightarrow> u64 \<Rightarrow> dap_cert res" where
  "dap_cert_add_meta c a_key a_type a_value n = bindE (dap_cert_new_meta a_key a_type a_value n) (put_meta c)"

text \<open>The local variable a scalar is put in: of the size of the value, or of 8 bytes.\<close>

definition scalar_mem :: "u64 \<Rightarrow> u64 \<Rightarrow> byte list" where
  "scalar_mem v n = le_bytes (if n = 1 then 1 else if n = 2 then 2 else if n = 4 then 4 else 8) (unat v)"

definition dap_cert_add_meta_scalar :: "dap_cert \<Rightarrow> cstr option \<Rightarrow> u32 \<Rightarrow> u64 \<Rightarrow> u64 \<Rightarrow> dap_cert res" where
  "dap_cert_add_meta_scalar c a_key a_type a_value n =
     (if is_bytes a_type then Inr c else dap_cert_add_meta c a_key a_type (Some (scalar_mem a_value n)) n)"

definition metaE :: "dap_cert \<Rightarrow> ptr \<Rightarrow> cert_meta res" where
  "metaE c p = (if 0 < p \<and> p \<le> length (cert_area c) then Inr (cert_area c ! (p - 1)) else Inl OutOfBounds)"

definition dap_cert_get_meta :: "dap_cert \<Rightarrow> cstr \<Rightarrow> cert_meta option res" where
  "dap_cert_get_meta c f = (let p = dap_binary_tree_search (cert_metadata c) f in
     if p = 0 then Inr None else bindE (metaE c p) (\<lambda>m. Inr (Some m)))"

text \<open>The item of a type, where there is one.\<close>

definition get_typed :: "dap_cert \<Rightarrow> cstr \<Rightarrow> u32 \<Rightarrow> 'a \<Rightarrow> (cert_meta \<Rightarrow> 'a res) \<Rightarrow> 'a res" where
  "get_typed c f t none get = bindE (dap_cert_get_meta c f) (\<lambda>r. case r of None \<Rightarrow> Inr none
     | Some m \<Rightarrow> if cm_type m \<noteq> t then Inr none else get m)"

definition dap_cert_get_meta_string :: "dap_cert \<Rightarrow> cstr \<Rightarrow> cstr option res" where
  "dap_cert_get_meta_string c f = get_typed c f META_STRING None (\<lambda>m.
     Inr (Some (buf_text (take (unat (cm_length m)) (meta_mem m)))))"

text \<open>The -1 that stands for a missing field is \<open>true\<close> in a \<open>bool\<close>.\<close>

definition dap_cert_get_meta_bool :: "dap_cert \<Rightarrow> cstr \<Rightarrow> bool res" where
  "dap_cert_get_meta_bool c f = get_typed c f META_BOOL True (\<lambda>m. bindE (chunkE (meta_mem m) 0 1) (\<lambda>b. Inr (b \<noteq> [0])))"

definition dap_cert_get_meta_int :: "dap_cert \<Rightarrow> cstr \<Rightarrow> int res" where
  "dap_cert_get_meta_int c f = get_typed c f META_INT (-1) (\<lambda>m. bindE (rd32 (meta_mem m) 0) (\<lambda>w. Inr (sint w)))"

definition dap_cert_get_meta_time :: "dap_cert \<Rightarrow> cstr \<Rightarrow> int res" where
  "dap_cert_get_meta_time c f = get_typed c f META_DATETIME (-1) (\<lambda>m. bindE (rd64 (meta_mem m) 0) (\<lambda>w. Inr (sint w)))"

definition dap_cert_get_meta_period :: "dap_cert \<Rightarrow> cstr \<Rightarrow> int res" where
  "dap_cert_get_meta_period c f = get_typed c f META_DATETIME_PERIOD (-1) (\<lambda>m. bindE (rd64 (meta_mem m) 0) (\<lambda>w. Inr (sint w)))"

text \<open>A pointer into the block; the size of the object in it is computed for the log.\<close>

definition dap_cert_get_meta_sign :: "dap_cert \<Rightarrow> cstr \<Rightarrow> byte list option res" where
  "dap_cert_get_meta_sign c f = get_typed c f META_SIGN None (\<lambda>m. bindE (sign_size_at (meta_mem m) 0) (\<lambda>_. Inr (Some (meta_mem m))))"

definition dap_cert_get_meta_custom :: "dap_cert \<Rightarrow> cstr \<Rightarrow> (byte list \<times> u32) option res" where
  "dap_cert_get_meta_custom c f = get_typed c f META_CUSTOM None (\<lambda>m. Inr (Some (meta_mem m, cm_length m)))"

section \<open>The text of the metadata\<close>

text \<open>
  A scalar of a length that is not 1, 2, 4 or 8 is written with 8 bytes, into a block that has room for its length.
\<close>

definition meta_payload :: "cert_meta \<Rightarrow> byte list res" where
  "meta_payload m =
     (if is_bytes (cm_type m) then chunkE (meta_mem m) 0 (unat (cm_length m))
      else if cm_length m \<in> {1, 2, 4} then chunkE (meta_mem m) 0 (unat (cm_length m))
      else bindE (chunkE (meta_mem m) 0 8) (\<lambda>v. if cm_length m < 8 then Inl OutOfBounds else Inr v))"

definition meta_text :: "cert_meta \<Rightarrow> byte list res" where
  "meta_text m = bindE (meta_payload m) (\<lambda>v. Inr (cm_key m @ [0] @ le32 (cm_length m) @ [ucast (cm_type m)] @ v))"

fun meta_texts :: "dap_cert \<Rightarrow> ptr list \<Rightarrow> byte list res" where
  "meta_texts c [] = Inr []"
| "meta_texts c (p # ps) = bindE (metaE c p) (\<lambda>m. bindE (meta_text m) (\<lambda>t. bindE (meta_texts c ps) (\<lambda>ts. Inr (t @ ts))))"

definition s_key_inheritor :: cstr where "s_key_inheritor = ascii ''Inheritor''"

definition dap_cert_serialize_meta :: "dap_cert \<Rightarrow> (dap_cert \<times> byte list option) res" where
  "dap_cert_serialize_meta c =
     bindE (if inheritor_size (cert_key c) \<noteq> 0
            then dap_cert_add_meta c (Some s_key_inheritor) META_CUSTOM (inheritor (cert_key c)) (inheritor_size (cert_key c))
            else Inr c) (\<lambda>c.
     let ps = dap_binary_tree_inorder_list (cert_metadata c) in
     if ps = [] then Inr (c, None) else bindE (meta_texts c ps) (\<lambda>t. Inr (c, Some t)))"

text \<open>
  The indices in the order they are stored in.  With the left index above the right one it does not
  return; no call has that.
\<close>

function s_balance_the_tree :: "nat \<Rightarrow> nat \<Rightarrow> nat list res" where
  "s_balance_the_tree l r =
     (if l = r then Inr [l]
      else if r < l then Inl Diverges
      else let i = (l + r) div 2 + 1 in
        bindE (s_balance_the_tree l (i - 1)) (\<lambda>xs.
        bindE (if i < r then s_balance_the_tree (i + 1) r else Inr []) (\<lambda>ys. Inr (i # xs @ ys))))"
  by pat_completeness auto
termination by (relation "measure (\<lambda>(l, r). r - l)") auto

declare s_balance_the_tree.simps [simp del]

text \<open>The string at a position of a memory.\<close>

definition strE :: "byte list \<Rightarrow> nat \<Rightarrow> cstr res" where
  "strE m i = (if 0 \<in> set (drop i m) then Inr (buf_text (drop i m)) else Inl OutOfBounds)"

text \<open>
  One item: its key, the size of its value (one byte of the four is read), its type and the memory of the
  value (one byte of a scalar is read).
\<close>

definition read_value :: "byte list \<Rightarrow> nat \<Rightarrow> u32 \<Rightarrow> nat \<Rightarrow> byte list res" where
  "read_value m i t n =
     (if is_bytes t \<or> n = 1 then Inr (drop i m)
      else bindE (chunkE m i 1) (\<lambda>b. Inr (b @ replicate (if n = 2 then 1 else if n = 4 then 3 else 7) 0)))"

definition read_item :: "byte list \<Rightarrow> nat \<Rightarrow> (cert_meta option \<times> nat) res" where
  "read_item m i =
     bindE (strE m i) (\<lambda>k. let i = i + length k + 1 in
     bindE (chunkE m i 1) (\<lambda>l_value_size. let i = i + 4; n = unat (hd l_value_size) in
     bindE (chunkE m i 1) (\<lambda>l_meta_type. let i = i + 1; t = ucast (hd l_meta_type) in
     bindE (read_value m i t n) (\<lambda>l_value.
     bindE (dap_cert_new_meta (Some k) t (Some l_value) (word_of_nat n)) (\<lambda>l_new_meta. Inr (l_new_meta, i + n))))))"

lemma read_item_grows: "read_item m i = Inr (x, j) \<Longrightarrow> i < j"
  by (auto simp: read_item_def Let_def res_simps)

function read_items :: "byte list \<Rightarrow> nat \<Rightarrow> nat \<Rightarrow> cert_meta option list res" where
  "read_items m a_size i =
     (if a_size \<le> i then Inr []
      else case read_item m i of Inl e \<Rightarrow> Inl e
      | Inr (x, j) \<Rightarrow> bindE (read_items m a_size j) (\<lambda>xs. Inr (x # xs)))"
  by pat_completeness auto
termination
proof (relation "measure (\<lambda>(m, n, i). n - i)", goal_cases)
  case (2 m a_size i xj x j)
  then show ?case using read_item_grows [of m i x j] by simp
qed simp

declare read_items.simps [simp del]

text \<open>The items are stored in the tree in the order of the balanced indices; the tree starts anew.\<close>

fun store_items :: "cert_meta option list \<Rightarrow> nat \<Rightarrow> nat list \<Rightarrow> dap_binary_tree \<Rightarrow> dap_binary_tree res" where
  "store_items xs base [] t = Inr t"
| "store_items xs base (i # js) t =
     (if length xs \<le> i then Inl OutOfBounds
      else case xs ! i of None \<Rightarrow> Inl NullDeref
      | Some m \<Rightarrow> store_items xs base js (dap_binary_tree_insert t (cm_key m) (Suc (base + i))))"

definition dap_cert_deserialize_meta :: "dap_cert \<Rightarrow> byte list \<Rightarrow> nat \<Rightarrow> dap_cert res" where
  "dap_cert_deserialize_meta c m a_size =
     bindE (read_items m a_size 0) (\<lambda>xs.
     if xs = [] then Inr c
     else bindE (s_balance_the_tree 0 (length xs - 1)) (\<lambda>order.
       bindE (store_items xs (length (cert_area c)) order Nil_tree) (\<lambda>t.
       Inr (c\<lparr>cert_metadata := t, cert_area := cert_area c @ map the xs\<rparr>))))"

section \<open>Files\<close>

definition dap_cert_FILE_HDR_SIGN :: u64 where "dap_cert_FILE_HDR_SIGN = 0x0F300C4711E29380"
definition dap_cert_FILE_VERSION :: u32 where "dap_cert_FILE_VERSION = 1"
definition dap_cert_FILE_TYPE_PRIVATE :: byte where "dap_cert_FILE_TYPE_PRIVATE = 0"
definition dap_cert_FILE_TYPE_PUBLIC :: byte where "dap_cert_FILE_TYPE_PUBLIC = 0xf0"

definition sizeof_cert_hdr :: nat where "sizeof_cert_hdr = 49"

text \<open>
  The certificate afterwards and the bytes of the block that the size handed out counts, or NULL.  A text that could
  not be made leaves the size the variable had before, and the block is that much longer than what is written.  The
  offset, 32 bits wide in the code, is a number here.
\<close>

definition dap_cert_mem_save :: "dap_cert \<Rightarrow> (dap_cert \<times> byte list option) res" where
  "dap_cert_mem_save c = (let k = cert_key c in
     bindE (if pub_key_data_size k \<noteq> 0 then dap_enc_key_serealize_pub_key k else Inr None) (\<lambda>l_pub.
     bindE (if priv_key_data k \<noteq> None then dap_enc_key_serealize_priv_key k else Inr None) (\<lambda>l_priv.
     bindE (dap_cert_serialize_meta c) (\<lambda>(c', l_meta).
     case l_pub of None \<Rightarrow> Inr (c', None)
     | Some pub \<Rightarrow>
         let priv = (case l_priv of None \<Rightarrow> [] | Some b \<Rightarrow> b);
             priv_size = (case l_priv of None \<Rightarrow> priv_key_data_size k | Some b \<Rightarrow> word_of_nat (length b));
             meta_size = (case l_meta of None \<Rightarrow> inheritor_size k | Some b \<Rightarrow> word_of_nat (length b));
             typ = (if l_priv = None then dap_cert_FILE_TYPE_PUBLIC else dap_cert_FILE_TYPE_PRIVATE) in
         bindE (chunkE (cert_name c') 0 DAP_CERT_ITEM_NAME_MAX) (\<lambda>name.
         bindE (if meta_size = 0 then Inr [] else case l_meta of None \<Rightarrow> Inl NullDeref | Some b \<Rightarrow> Inr b) (\<lambda>meta.
         bindE (put_fields (new_buf (sizeof_cert_hdr + DAP_CERT_ITEM_NAME_MAX + unat priv_size + length pub + unat meta_size)) 0
           [le64 dap_cert_FILE_HDR_SIGN, le32 dap_cert_FILE_VERSION, [typ], le32 (dap_sign_type_from_key_type (key_type k)),
            le64 (word_of_nat (length pub)), le64 priv_size, le64 meta_size, le64 (last_used_timestamp k),
            name, pub, priv, meta]) (\<lambda>buf.
         Inr (c', Some (take (sizeof_cert_hdr + DAP_CERT_ITEM_NAME_MAX + length pub + length priv + length meta) buf)))))))))"

text \<open>
  \<open>dap_cert_new\<close>: the name is cut to 39 characters.
\<close>

definition dap_cert_new :: "cstr \<Rightarrow> dap_cert" where
  "dap_cert_new a_name = \<lparr>cert_key = no_key KEY_INVALID,
     cert_name = (let t = take (DAP_CERT_ITEM_NAME_MAX - 1) a_name in t @ replicate (DAP_CERT_ITEM_NAME_MAX - length t) 0),
     cert_metadata = Nil_tree, cert_area = []\<rparr>"

text \<open>
  The sizes in the header are compared with the size of the data without the 40 bytes of the name.  The name is read
  as a string of a local array.  What the readers of the keys return is not looked at.
\<close>

definition dap_cert_mem_load :: "crypto_api \<Rightarrow> byte list \<Rightarrow> u64 \<Rightarrow> dap_cert option res" where
  "dap_cert_mem_load C m a_data_size =
     bindE (chunkE m 0 sizeof_cert_hdr) (\<lambda>h.
     bindE (rd64 h 0) (\<lambda>sign. bindE (rd32 h 8) (\<lambda>version. bindE (rd32 h 13) (\<lambda>sign_type.
     bindE (rd64 h 17) (\<lambda>data_size. bindE (rd64 h 25) (\<lambda>data_pvt_size. bindE (rd64 h 33) (\<lambda>metadata_size.
     bindE (rd64 h 41) (\<lambda>ts_last_used.
     if sign \<noteq> dap_cert_FILE_HDR_SIGN then Inr None
     else if sint version < 1 then Inr None
     else if a_data_size < word_of_nat sizeof_cert_hdr + data_size + data_pvt_size + metadata_size then Inr None
     else bindE (chunkE m sizeof_cert_hdr DAP_CERT_ITEM_NAME_MAX) (\<lambda>l_name. bindE (strE l_name 0) (\<lambda>name.
       let c = dap_cert_new name; off = word_of_nat (sizeof_cert_hdr + DAP_CERT_ITEM_NAME_MAX) :: u32 in
       case dap_enc_key_new C (dap_sign_type_to_key_type sign_type) of None \<Rightarrow> Inr None
       | Some k \<Rightarrow>
           bindE (if 0 < data_size then dap_enc_key_deserealize_pub_key C (k\<lparr>last_used_timestamp := ts_last_used\<rparr>) (Some (drop (unat off) m)) data_size
                  else Inr (k\<lparr>last_used_timestamp := ts_last_used\<rparr>, 0)) (\<lambda>(k, _).
           let off = (if 0 < data_size then off + ucast data_size else off) in
           bindE (if 0 < data_pvt_size then dap_enc_key_deserealize_priv_key C k (Some (drop (unat off) m)) data_pvt_size
                  else Inr (k, 0)) (\<lambda>(k, _).
           let off = (if 0 < data_pvt_size then off + ucast data_pvt_size else off) in
           bindE (if 0 < metadata_size then dap_cert_deserialize_meta (c\<lparr>cert_key := k\<rparr>) (drop (unat off) m) (unat metadata_size)
                  else Inr (c\<lparr>cert_key := k\<rparr>)) (\<lambda>c.
           Inr (Some (c\<lparr>cert_key := dap_enc_key_update C (cert_key c)\<rparr>)))))))))))))))"

section \<open>Signing with a certificate\<close>

definition dap_cert_sign :: "crypto_api \<Rightarrow> byte \<Rightarrow> dap_cert \<Rightarrow> byte list option \<Rightarrow> dap_sign option res" where
  "dap_cert_sign C hash_default c a_data = dap_sign_create C hash_default (Some (cert_key c)) a_data"

definition dap_cert_sign_output_size :: "crypto_api \<Rightarrow> dap_cert \<Rightarrow> u64 res" where
  "dap_cert_sign_output_size C c = dap_sign_create_output_unserialized_calc_size C (Some (cert_key c))"

fun memcmp :: "byte list \<Rightarrow> byte list \<Rightarrow> int" where
  "memcmp (a # as) (b # bs) = (if a = b then memcmp as bs else uint a - uint b)"
| "memcmp _ _ = 0"

text \<open>A public key that cannot be written has the size 0.\<close>

definition dap_cert_compare_with_sign :: "dap_cert option \<Rightarrow> dap_sign option \<Rightarrow> int res" where
  "dap_cert_compare_with_sign a_cert a_sign = (case (a_cert, a_sign) of
     (Some c, Some s) \<Rightarrow>
       if dap_sign_type_from_key_type (key_type (cert_key c)) = sgn_type s then
         bindE (dap_enc_key_serealize_pub_key (cert_key c)) (\<lambda>r. let l_pub_key = (case r of None \<Rightarrow> [] | Some b \<Rightarrow> b) in
           if (word_of_nat (length l_pub_key) :: u64) = ucast (sign_pkey_size s) then
             bindE (chunkE (pkey_n_sign s) 0 (unat (sign_pkey_size s))) (\<lambda>p. Inr (memcmp l_pub_key p))
           else Inr (-2))
       else Inr (-3)
   | _ \<Rightarrow> Inr (-4))"

end
