(* ===== verification/CertProps.thy ===== *)
theory CertProps
  imports Cert
begin

text \<open>
  Metadata of certificates: as a map from keys to items, their text and its reading, and the tree that is made of
  what was read.
\<close>

section \<open>The metadata as a map\<close>

definition item_at :: "dap_cert \<Rightarrow> ptr \<Rightarrow> cert_meta" where
  "item_at c p = cert_area c ! (p - 1)"

text \<open>The tree is a search tree whose data lead to items of the same key.\<close>

definition cert_ok :: "dap_cert \<Rightarrow> bool" where
  "cert_ok c \<longleftrightarrow> bst (cert_metadata c) \<and>
     (\<forall>(k, p) \<in> set (elements (cert_metadata c)). 0 < p \<and> p \<le> length (cert_area c) \<and> cm_key (item_at c p) = k)"

definition cert_map :: "dap_cert \<Rightarrow> cstr \<Rightarrow> cert_meta option" where
  "cert_map c f = map_option (item_at c) (tree_map (cert_metadata c) f)"

lemma cert_new_ok: "cert_ok (dap_cert_new n)" "cert_map (dap_cert_new n) f = None"
  by (simp_all add: cert_ok_def cert_map_def dap_cert_new_def)

lemma get_meta_map:
  assumes "cert_ok c" "cstr_ok f"
  shows "dap_cert_get_meta c f = Inr (cert_map c f)"
proof (cases "tree_map (cert_metadata c) f")
  case None
  then show ?thesis
    using assms search_spec [of "cert_metadata c" f] by (simp add: dap_cert_get_meta_def cert_map_def cert_ok_def)
next
  case (Some p)
  then have "(f, p) \<in> set (elements (cert_metadata c))" unfolding tree_map_def by (rule map_of_SomeD)
  then have "0 < p" "p \<le> length (cert_area c)" using assms(1) by (auto simp: cert_ok_def)
  then show ?thesis
    using Some assms search_spec [of "cert_metadata c" f]
    by (simp add: dap_cert_get_meta_def cert_map_def cert_ok_def metaE_def item_at_def Let_def)
qed

lemma elements_of_map: "bst t \<Longrightarrow> (k, p) \<in> set (elements t) \<longleftrightarrow> tree_map t k = Some p"
proof -
  assume "bst t"
  then have "distinct (map fst (elements t))" using bst_sorted strict_sorted_iff by blast
  then show ?thesis unfolding tree_map_def by (auto intro: map_of_is_SomeI dest: map_of_SomeD)
qed

lemma put_meta_map:
  assumes "cert_ok c" "cstr_ok (cm_key m)"
  shows "\<exists>c'. put_meta c (Some m) = Inr c' \<and> cert_ok c' \<and> cert_map c' = (cert_map c)(cm_key m \<mapsto> m) \<and>
    cert_key c' = cert_key c \<and> cert_name c' = cert_name c"
proof -
  let ?p = "Suc (length (cert_area c))"
  let ?t = "dap_binary_tree_insert (cert_metadata c) (cm_key m) ?p"
  let ?c = "c\<lparr>cert_metadata := ?t, cert_area := cert_area c @ [m]\<rparr>"
  have b: "bst (cert_metadata c)" using assms(1) by (simp add: cert_ok_def)
  have t: "bst ?t" "tree_map ?t = (tree_map (cert_metadata c))(cm_key m \<mapsto> ?p)"
    using bt.ins_law [OF b assms(2)] by blast+
  have old: "0 < p \<and> p \<le> length (cert_area c) \<and> cm_key (item_at c p) = k" if "tree_map (cert_metadata c) k = Some p" for k p
    using assms(1) that elements_of_map [OF b, of k p] by (auto simp: cert_ok_def)
  have same: "item_at ?c p = item_at c p" if "0 < p" "p \<le> length (cert_area c)" for p
    using that by (simp add: item_at_def nth_append)
  have new: "item_at ?c ?p = m" by (simp add: item_at_def)
  have "0 < p \<and> p \<le> length (cert_area ?c) \<and> cm_key (item_at ?c p) = k" if "(k, p) \<in> set (elements ?t)" for k p
  proof (cases "k = cm_key m")
    case True
    then show ?thesis using that elements_of_map [OF t(1), of k p] t(2) new by simp
  next
    case False
    then have "tree_map (cert_metadata c) k = Some p" using that elements_of_map [OF t(1), of k p] t(2) by simp
    from old [OF this] show ?thesis using same by simp
  qed
  then have "cert_ok ?c" using t(1) by (auto simp: cert_ok_def)
  moreover have "cert_map ?c = (cert_map c)(cm_key m \<mapsto> m)"
  proof
    fix f
    show "cert_map ?c f = ((cert_map c)(cm_key m \<mapsto> m)) f"
      using t new same by (cases "tree_map (cert_metadata c) f") (auto simp: cert_map_def dest: old)
  qed
  ultimately show ?thesis by (simp add: put_meta_def)
qed

text \<open>An item as it is added: the length fits 32 bits and the value has as many bytes.\<close>

lemma add_meta_map:
  assumes "cert_ok c" "cstr_ok k" "t \<le> META_CUSTOM" "unat n \<le> length v"
  shows "\<exists>c'. dap_cert_add_meta c (Some k) t (Some v) n = Inr c' \<and> cert_ok c' \<and>
    cert_map c' = (cert_map c)(k \<mapsto> \<lparr>cm_key = k, cm_length = ucast n, cm_type = t, cm_value = take (unat n) v\<rparr>) \<and>
    cert_key c' = cert_key c \<and> cert_name c' = cert_name c"
  using assms put_meta_map [OF assms(1), of "\<lparr>cm_key = k, cm_length = ucast n, cm_type = t, cm_value = take (unat n) v\<rparr>"]
  by (simp add: dap_cert_add_meta_def dap_cert_new_meta_def chunk_def not_less [symmetric])

section \<open>The balanced order\<close>

fun tree_height :: "dap_binary_tree \<Rightarrow> nat" where
  "tree_height Nil_tree = 0"
| "tree_height (Elm k d l r) = Suc (max (tree_height l) (tree_height r))"

definition ins_all :: "(nat \<Rightarrow> cstr) \<Rightarrow> nat \<Rightarrow> nat list \<Rightarrow> dap_binary_tree \<Rightarrow> dap_binary_tree" where
  "ins_all key base js t = foldl (\<lambda>t i. dap_binary_tree_insert t (key i) (Suc (base + i))) t js"

lemma ins_all_simps [simp]:
  "ins_all key base [] t = t"
  "ins_all key base (i # js) t = ins_all key base js (dap_binary_tree_insert t (key i) (Suc (base + i)))"
  "ins_all key base (xs @ ys) t = ins_all key base ys (ins_all key base xs t)"
  by (simp_all add: ins_all_def)

lemma store_ins_all:
  assumes "\<And>i. i \<in> set js \<Longrightarrow> i < length xs \<and> xs ! i = Some (g i)"
  shows "store_items xs base js t = Inr (ins_all (\<lambda>i. cm_key (g i)) base js t)"
  using assms by (induction js arbitrary: t) (auto simp: not_le)

lemma ins_all_left:
  assumes "cstr_ok k" "\<And>i. i \<in> set js \<Longrightarrow> cstr_ok (key i) \<and> key i < k"
  shows "ins_all key base js (Elm k d l r) = Elm k d (ins_all key base js l) r"
  using assms(2)
proof (induction js arbitrary: l)
  case (Cons i js)
  then have "KEY_LS (key i) k" using key_cmp [of "key i" k] assms(1) by simp
  then show ?case using Cons by (simp add: dap_binary_tree_insert_def)
qed simp

lemma ins_all_right:
  assumes "cstr_ok k" "\<And>i. i \<in> set js \<Longrightarrow> cstr_ok (key i) \<and> k < key i"
  shows "ins_all key base js (Elm k d l r) = Elm k d l (ins_all key base js r)"
  using assms(2)
proof (induction js arbitrary: r)
  case (Cons i js)
  have i: "cstr_ok (key i)" "k < key i" using Cons.prems [of i] by simp_all
  have "KEY_GT (key i) k" "\<not> KEY_LS (key i) k" using key_cmp [OF i(1) assms(1)] i(2) by auto
  then show ?case using Cons by (simp add: dap_binary_tree_insert_def)
qed simp

text \<open>
  The order keeps every index once; sorted keys stored in it give a tree that has them in order, of a height that is
  at most one more than the logarithm needs.
\<close>

definition balanced :: "nat \<Rightarrow> nat \<Rightarrow> nat list \<Rightarrow> bool" where
  "balanced l r js \<longleftrightarrow> distinct js \<and> set js = {l..r} \<and>
     (\<forall>key base. (\<forall>i \<in> {l..r}. cstr_ok (key i)) \<longrightarrow> (\<forall>i j. l \<le> i \<longrightarrow> i < j \<longrightarrow> j \<le> r \<longrightarrow> key i < key j) \<longrightarrow>
        elements (ins_all key base js Nil_tree) = map (\<lambda>i. (key i, Suc (base + i))) [l..<Suc r] \<and>
        (\<forall>k. r - l < 2 ^ k \<longrightarrow> tree_height (ins_all key base js Nil_tree) \<le> Suc k))"

lemma balancedD:
  assumes "balanced l r js" "\<And>i. l \<le> i \<Longrightarrow> i \<le> r \<Longrightarrow> cstr_ok (key i)"
    and "\<And>i j. l \<le> i \<Longrightarrow> i < j \<Longrightarrow> j \<le> r \<Longrightarrow> key i < key j"
  shows "elements (ins_all key base js Nil_tree) = map (\<lambda>i. (key i, Suc (base + i))) [l..<Suc r]"
    "r - l < 2 ^ k \<Longrightarrow> tree_height (ins_all key base js Nil_tree) \<le> Suc k"
  using assms unfolding balanced_def by auto

lemma balanced_one: "balanced l l [l]"
  by (simp add: balanced_def dap_binary_tree_insert_def)

lemma balanced_node:
  assumes "l < i" "i \<le> r" "balanced l (i - 1) xs" "i < r \<Longrightarrow> balanced (i + 1) r ys" "i = r \<Longrightarrow> ys = []"
    and mid: "i = (l + r) div 2 + 1"
  shows "balanced l r (i # xs @ ys)"
proof -
  have ys: "distinct ys" "set ys = {i + 1..r}" using assms(2,4,5) by (cases "i = r"; simp add: balanced_def)+
  have xs: "distinct xs" "set xs = {l..i - 1}" using assms(3) by (simp_all add: balanced_def)
  have sets: "distinct (i # xs @ ys)" "set (i # xs @ ys) = {l..r}" using xs ys assms(1,2) by auto
  have tree: "elements (ins_all key base (i # xs @ ys) Nil_tree) = map (\<lambda>i. (key i, Suc (base + i))) [l..<Suc r] \<and>
      (\<forall>k. r - l < 2 ^ k \<longrightarrow> tree_height (ins_all key base (i # xs @ ys) Nil_tree) \<le> Suc k)"
    if ok: "\<forall>i \<in> {l..r}. cstr_ok (key i)" and less: "\<forall>i j. l \<le> i \<longrightarrow> i < j \<longrightarrow> j \<le> r \<longrightarrow> key i < key j" for key base
  proof -
    let ?L = "ins_all key base xs Nil_tree" and ?R = "ins_all key base ys Nil_tree"
    have ki: "cstr_ok (key i)" using ok assms(1,2) by simp
    have "ins_all key base (i # xs @ ys) Nil_tree = ins_all key base ys (ins_all key base xs (Elm (key i) (Suc (base + i)) Nil_tree Nil_tree))"
      by (simp add: dap_binary_tree_insert_def)
    also have "ins_all key base xs (Elm (key i) (Suc (base + i)) Nil_tree Nil_tree) = Elm (key i) (Suc (base + i)) ?L Nil_tree"
      using ok less xs(2) assms(1,2) by (intro ins_all_left [OF ki]) auto
    also have "ins_all key base ys \<dots> = Elm (key i) (Suc (base + i)) ?L ?R"
      using ok less ys(2) assms(1,2) by (intro ins_all_right [OF ki]) auto
    finally have eq: "ins_all key base (i # xs @ ys) Nil_tree = Elm (key i) (Suc (base + i)) ?L ?R" .
    have eL: "elements ?L = map (\<lambda>i. (key i, Suc (base + i))) [l..<i]" "\<And>k. i - 1 - l < 2 ^ k \<Longrightarrow> tree_height ?L \<le> Suc k"
      using balancedD [OF assms(3), where key = key and base = base] ok less assms(1,2) by simp_all
    have eR: "elements ?R = map (\<lambda>i. (key i, Suc (base + i))) [i + 1..<Suc r]" "\<And>k. r - (i + 1) < 2 ^ k \<Longrightarrow> tree_height ?R \<le> Suc k"
      using balancedD [OF assms(4), where key = key and base = base] assms(5) ok less assms(1,2) by (cases "i = r"; simp)+
    have up: "[l..<Suc r] = [l..<i] @ i # [i + 1..<Suc r]" using assms(1,2) upt_add_eq_append [of l i "Suc r - i"] by (simp add: upt_conv_Cons)
    have "tree_height (Elm (key i) (Suc (base + i)) ?L ?R) \<le> Suc k" if k: "r - l < 2 ^ k" for k
    proof (cases k)
      case 0
      then show ?thesis using k assms(1,2) by simp
    next
      case (Suc k')
      then have "i - 1 - l < 2 ^ k'" "r - (i + 1) < 2 ^ k'" using k assms(1,2) unfolding mid by auto
      then show ?thesis using eL(2) eR(2) Suc by simp
    qed
    then show ?thesis unfolding eq using eL(1) eR(1) up by simp
  qed
  show ?thesis unfolding balanced_def using sets tree by blast
qed

lemma balance_order:
  "l \<le> r \<Longrightarrow> \<exists>js. s_balance_the_tree l r = Inr js \<and> balanced l r js"
proof (induction l r rule: s_balance_the_tree.induct)
  case (1 l r)
  show ?case
  proof (cases "l = r")
    case True
    then show ?thesis using balanced_one by (simp add: s_balance_the_tree.simps)
  next
    case False
    then have lt: "l < r" "\<not> r < l" using 1 by simp_all
    obtain i where i: "i = (l + r) div 2 + 1" by blast
    have b: "l \<le> i - 1" "i \<le> r" "l < i" using lt unfolding i by auto
    obtain xs where xs: "s_balance_the_tree l (i - 1) = Inr xs" "balanced l (i - 1) xs"
      using "1.IH"(1) [OF False lt(2) i b(1)] by blast
    obtain ys where ys: "(if i < r then s_balance_the_tree (i + 1) r else Inr []) = Inr ys"
      "i < r \<Longrightarrow> balanced (i + 1) r ys" "i = r \<Longrightarrow> ys = []"
    proof (cases "i < r")
      case True
      then show ?thesis using "1.IH"(2) [OF False lt(2) i True] that by auto
    qed (use that in auto)
    have "s_balance_the_tree l r = Inr (i # xs @ ys)"
      unfolding s_balance_the_tree.simps [of l r] Let_def i [symmetric] xs(1) ys(1) bindE_simps using lt by simp
    then show ?thesis using balanced_node [OF b(3,2) xs(2) ys(2,3) i] by blast
  qed
qed

section \<open>Items and their text\<close>

definition meta_ok :: "cert_meta \<Rightarrow> bool" where
  "meta_ok m \<longleftrightarrow> cstr_ok (cm_key m) \<and> length (cm_value m) = unat (cm_length m) \<and> unat (cm_length m) < 256 \<and>
     cm_type m \<le> META_CUSTOM \<and> (is_bytes (cm_type m) \<or> cm_length m \<in> {1, 2, 4, 8})"

definition item_text :: "cert_meta \<Rightarrow> byte list" where
  "item_text m = cm_key m @ [0] @ le32 (cm_length m) @ [ucast (cm_type m)] @ cm_value m"

text \<open>What is read back of an item: of a scalar only the lowest byte.\<close>

definition narrow :: "cert_meta \<Rightarrow> cert_meta" where
  "narrow m = (if is_bytes (cm_type m) \<or> cm_length m = 1 then m
     else m\<lparr>cm_value := take 1 (cm_value m) @ replicate (unat (cm_length m) - 1) 0\<rparr>)"

lemma cm_key_narrow [simp]: "cm_key (narrow m) = cm_key m"
  by (simp add: narrow_def)

lemma chunk_prefix: "length v = n \<Longrightarrow> chunkE (v @ w) 0 n = Inr v"
  using chunkE_at [of "[]" 0 v n w] by simp

lemma meta_text_ok:
  assumes "meta_ok m"
  shows "meta_text m = Inr (item_text m)"
proof -
  have "meta_payload m = Inr (cm_value m)"
  proof (cases "is_bytes (cm_type m) \<or> cm_length m \<in> {1, 2, 4}")
    case True
    then show ?thesis using assms chunk_prefix [of "cm_value m" "unat (cm_length m)" "cm_key m @ [0]"]
      by (auto simp: meta_payload_def meta_mem_def meta_ok_def simp del: chunkE_Inr)
  next
    case False
    then have "cm_length m = 8" using assms by (auto simp: meta_ok_def)
    then show ?thesis using assms False chunk_prefix [of "cm_value m" 8 "cm_key m @ [0]"]
      by (auto simp: meta_payload_def meta_mem_def meta_ok_def simp del: chunkE_Inr)
  qed
  then show ?thesis by (simp add: meta_text_def item_text_def)
qed

lemma strE_at:
  assumes "length A = i" "cstr_ok k"
  shows "strE (A @ k @ 0 # z) i = Inr k"
proof -
  have "takeWhile (\<lambda>c. c \<noteq> 0) (k @ 0 # z) = k" using assms(2) by (subst takeWhile_append2) (auto simp: cstr_ok_def)
  then show ?thesis using assms(1) by (simp add: strE_def buf_text_def)
qed

lemma hd_le32: "unat w < 256 \<Longrightarrow> \<exists>b x. le32 w = b # x \<and> unat b = unat w \<and> length x = 3"
proof -
  assume w: "unat w < 256"
  have four: "(4 :: nat) = Suc 3" by simp
  have "le32 w = word_of_nat (unat w) # le_bytes 3 (unat w div 256)"
    unfolding le32_def four le_bytes.simps using w by simp
  then show ?thesis using unat_byte [OF w] by simp
qed

lemma type_byte: "t \<le> META_CUSTOM \<Longrightarrow> (ucast (ucast t :: byte) :: u32) = t"
  by (rule word_unat_eq_iff [THEN iffD2]) (simp add: META_CUSTOM_def word_le_nat_alt unsigned_ucast_eq unsigned_take_bit_eq take_bit_nat_eq_self_iff)

lemma read_item_at:
  assumes "length A = i" "meta_ok m"
  shows "read_item (A @ item_text m @ z) i = Inr (Some (narrow m), i + length (item_text m))"
proof -
  note o = assms(2) [unfolded meta_ok_def]
  obtain b x where b: "le32 (cm_length m) = b # x" "unat b = unat (cm_length m)" "length x = 3" using hd_le32 o by blast
  let ?m = "A @ item_text m @ z"
  let ?k = "length (cm_key m)"
  have 1: "strE ?m i = Inr (cm_key m)"
    using strE_at [OF assms(1), of "cm_key m"] o by (simp add: item_text_def)
  have 2: "chunkE ?m (i + ?k + 1) 1 = Inr [b]"
    using chunkE_at [of "A @ cm_key m @ [0]" "i + ?k + 1" "[b]" 1] assms(1) b(1) by (simp add: item_text_def)
  have 3: "chunkE ?m (i + ?k + 1 + 4) 1 = Inr [ucast (cm_type m)]"
    using chunkE_at [of "A @ cm_key m @ [0] @ b # x" "i + ?k + 1 + 4" "[ucast (cm_type m)]" 1] assms(1) b by (simp add: item_text_def)
  have d: "drop (i + ?k + 1 + 4 + 1) ?m = cm_value m @ z" using assms(1) by (simp add: item_text_def)
  have t: "(ucast (ucast (cm_type m) :: byte) :: u32) = cm_type m" "\<not> META_CUSTOM < cm_type m" using type_byte o by auto
  have n: "unat (word_of_nat (unat (cm_length m)) :: u64) = unat (cm_length m)" "(ucast (word_of_nat (unat (cm_length m)) :: u64) :: u32) = cm_length m"
    using o unat_of_small [of "unat (cm_length m)"] by (simp_all add: word_unat_eq_iff unsigned_ucast_eq unsigned_take_bit_eq take_bit_nat_eq_self_iff)
  have new: "dap_cert_new_meta (Some (cm_key m)) (cm_type m) (Some v) (word_of_nat (unat (cm_length m))) = Inr (Some (narrow m))"
    if "take (unat (cm_length m)) v = cm_value (narrow m)" "unat (cm_length m) \<le> length v" for v
    using that t(2) n by (simp add: dap_cert_new_meta_def chunk_def) (simp add: narrow_def)
  have L: "length (item_text m) = ?k + 1 + 4 + 1 + unat (cm_length m)" using o by (simp add: item_text_def)
  have val: "\<exists>v. read_value ?m (i + ?k + 1 + 4 + 1) (cm_type m) (unat (cm_length m)) = Inr v \<and>
      take (unat (cm_length m)) v = cm_value (narrow m) \<and> unat (cm_length m) \<le> length v"
  proof (cases "is_bytes (cm_type m) \<or> cm_length m = 1")
    case True
    then show ?thesis using o unfolding read_value_def d by (auto simp: narrow_def)
  next
    case False
    then have l: "cm_length m \<in> {2, 4, 8}" using o by auto
    then obtain c v where v: "cm_value m = c # v" using o by (cases "cm_value m") auto
    have "chunkE ?m (i + ?k + 1 + 4 + 1) 1 = Inr [c]"
      using chunkE_at [of "A @ cm_key m @ [0] @ le32 (cm_length m) @ [ucast (cm_type m)]" "i + ?k + 1 + 4 + 1" "[c]" 1] assms(1) v
      by (simp add: item_text_def)
    then show ?thesis using False l v unfolding read_value_def by (auto simp: narrow_def)
  qed
  then obtain v where v: "read_value ?m (i + ?k + 1 + 4 + 1) (cm_type m) (unat (cm_length m)) = Inr v"
      "take (unat (cm_length m)) v = cm_value (narrow m)" "unat (cm_length m) \<le> length v" by blast
  show ?thesis
    unfolding read_item_def Let_def 1 bindE_simps 2 3 list.sel b(2) t(1) v(1) new [OF v(2,3)] L by simp
qed

lemma read_items_at:
  assumes "\<And>m. m \<in> set ms \<Longrightarrow> meta_ok m"
  shows "read_items (A @ concat (map item_text ms) @ z) (length A + length (concat (map item_text ms))) (length A) = Inr (map (Some \<circ> narrow) ms)"
  using assms
proof (induction ms arbitrary: A)
  case (Cons m ms)
  have pos: "0 < length (item_text m)" by (simp add: item_text_def)
  have r: "read_item (A @ concat (map item_text (m # ms)) @ z) (length A) = Inr (Some (narrow m), length (A @ item_text m))"
    using read_item_at [of A "length A" m "concat (map item_text ms) @ z"] Cons.prems by simp
  have IH: "read_items (A @ concat (map item_text (m # ms)) @ z) (length A + length (concat (map item_text (m # ms)))) (length (A @ item_text m)) =
      Inr (map (Some \<circ> narrow) ms)"
    using Cons.IH [of "A @ item_text m"] Cons.prems by (simp add: add.assoc)
  show ?case
    unfolding read_items.simps [of _ _ "length A"] r sum.case prod.case IH bindE_simps using pos by simp
qed (simp add: read_items.simps)

section \<open>The metadata of a certificate\<close>

definition cert_items :: "dap_cert \<Rightarrow> cert_meta list" where
  "cert_items c = map (\<lambda>(k, p). item_at c p) (elements (cert_metadata c))"

lemma cert_items_map: "elements (cert_metadata c) = map (\<lambda>i. (k i, p i)) xs \<Longrightarrow> cert_items c = map (\<lambda>i. item_at c (p i)) xs"
  by (simp add: cert_items_def)

lemma map_option_of: "map_option h (map_of (map (\<lambda>x. (k x, q x)) xs) f) = map_of (map (\<lambda>x. (k x, h (q x))) xs) f"
  by (induction xs) auto

lemma cert_map_items:
  assumes "cert_ok c"
  shows "cert_map c f = map_of (map (\<lambda>m. (cm_key m, m)) (cert_items c)) f"
proof -
  have "map (\<lambda>(k, p). (k, item_at c p)) (elements (cert_metadata c)) = map (\<lambda>m. (cm_key m, m)) (cert_items c)"
    using assms by (auto simp: cert_items_def cert_ok_def)
  moreover have "cert_map c f = map_of (map (\<lambda>(k, p). (k, item_at c p)) (elements (cert_metadata c))) f"
    using map_option_of [of "item_at c" fst snd "elements (cert_metadata c)" f] by (simp add: cert_map_def tree_map_def case_prod_unfold)
  ultimately show ?thesis by simp
qed

lemma cert_items_sorted:
  assumes "cert_ok c"
  shows "sorted_wrt (<) (map cm_key (cert_items c))"
proof -
  have "map cm_key (cert_items c) = map fst (elements (cert_metadata c))"
    using assms by (auto simp: cert_items_def cert_ok_def)
  then show ?thesis using assms bst_sorted by (simp add: cert_ok_def)
qed

lemma meta_texts_ok:
  assumes "cert_ok c" "\<And>m. m \<in> set (cert_items c) \<Longrightarrow> meta_ok m"
  shows "meta_texts c (dap_binary_tree_inorder_list (cert_metadata c)) = Inr (concat (map item_text (cert_items c)))"
proof -
  have "meta_texts c (map snd es) = Inr (concat (map item_text (map (\<lambda>(k, p). item_at c p) es)))"
    if "set es \<subseteq> set (elements (cert_metadata c))" for es
    using that
  proof (induction es)
    case (Cons e es)
    obtain k p where e: "e = (k, p)" by fastforce
    have "metaE c p = Inr (item_at c p)" using Cons.prems assms(1) e by (auto simp: cert_ok_def metaE_def item_at_def)
    moreover have "meta_text (item_at c p) = Inr (item_text (item_at c p))"
      using Cons.prems assms(2) [of "item_at c p"] e by (intro meta_text_ok) (force simp: cert_items_def)
    ultimately show ?case using Cons e by simp
  qed simp
  from this [of "elements (cert_metadata c)"] show ?thesis
    by (cases "cert_metadata c = Nil_tree") (simp_all add: dap_binary_tree_inorder_list_def construct_spec cert_items_def)
qed

lemma serialize_meta_ok:
  assumes "cert_ok c" "\<And>m. m \<in> set (cert_items c) \<Longrightarrow> meta_ok m" "inheritor_size (cert_key c) = 0"
  shows "dap_cert_serialize_meta c = Inr (c, if cert_items c = [] then None else Some (concat (map item_text (cert_items c))))"
proof -
  have "dap_binary_tree_inorder_list (cert_metadata c) = [] \<longleftrightarrow> cert_items c = []"
    by (cases "cert_metadata c = Nil_tree") (simp_all add: dap_binary_tree_inorder_list_def construct_spec cert_items_def)
  then show ?thesis
    using assms(3) meta_texts_ok [OF assms(1,2)] by (simp add: dap_cert_serialize_meta_def Let_def)
qed

lemma bst_ins_all: "bst t \<Longrightarrow> (\<And>i. i \<in> set js \<Longrightarrow> cstr_ok (key i)) \<Longrightarrow> bst (ins_all key base js t)"
  by (induction js arbitrary: t) (simp_all add: dap_binary_tree_insert_def bst_insert)

text \<open>Sorted items make a balanced tree of what is read of them.\<close>

lemma deserialize_meta_ok:
  assumes "sorted_wrt (<) (map cm_key ms)" "\<And>m. m \<in> set ms \<Longrightarrow> meta_ok m" "ms \<noteq> []"
  shows "\<exists>c'. dap_cert_deserialize_meta c (concat (map item_text ms) @ z) (length (concat (map item_text ms))) = Inr c' \<and>
    cert_ok c' \<and> cert_items c' = map narrow ms \<and> cert_key c' = cert_key c \<and> cert_name c' = cert_name c \<and>
    (\<forall>k. length ms \<le> 2 ^ k \<longrightarrow> tree_height (cert_metadata c') \<le> Suc k)"
proof -
  let ?xs = "map (Some \<circ> narrow) ms" and ?n = "length ms - 1" and ?base = "length (cert_area c)" and ?key = "\<lambda>i. cm_key (ms ! i)"
  have r: "read_items (concat (map item_text ms) @ z) (length (concat (map item_text ms))) 0 = Inr ?xs"
    using read_items_at [of ms "[]" z] assms(2) by simp
  obtain js where js: "s_balance_the_tree 0 ?n = Inr js" "balanced 0 ?n js" using balance_order [of 0 ?n] by blast
  have sj: "set js = {0..?n}" using js(2) by (simp add: balanced_def)
  have inl: "i < length ms" if "i \<le> ?n" for i using that assms(3) by (cases ms) auto
  let ?t = "ins_all ?key ?base js Nil_tree"
  have st: "store_items ?xs ?base js Nil_tree = Inr ?t"
  proof -
    have "i < length ?xs \<and> ?xs ! i = Some (narrow (ms ! i))" if "i \<in> set js" for i using that sj inl by simp
    from store_ins_all [of js ?xs "\<lambda>i. narrow (ms ! i)" ?base Nil_tree, OF this] show ?thesis by simp
  qed
  have ok: "cstr_ok (?key i)" if "i \<le> ?n" for i using assms(2) [of "ms ! i"] inl [OF that] by (simp add: meta_ok_def)
  have less: "?key i < ?key j" if "i < j" "j \<le> ?n" for i j
    using sorted_wrt_nth_less [OF assms(1), of i j] that inl [of j] by simp
  have e: "elements ?t = map (\<lambda>i. (?key i, Suc (?base + i))) [0..<length ms]"
    using balancedD(1) [OF js(2), of ?key ?base] ok less assms(3) by simp
  have h: "tree_height ?t \<le> Suc k" if "length ms \<le> 2 ^ k" for k
  proof (rule balancedD(2) [OF js(2)])
    show "?n - 0 < 2 ^ k" using that assms(3) by (cases ms) simp_all
  qed (use ok less in simp_all)
  let ?c = "c\<lparr>cert_metadata := ?t, cert_area := cert_area c @ map narrow ms\<rparr>"
  have d: "dap_cert_deserialize_meta c (concat (map item_text ms) @ z) (length (concat (map item_text ms))) = Inr ?c"
    unfolding dap_cert_deserialize_meta_def r bindE_simps using js(1) st assms(3) by (simp add: comp_def)
  have it: "item_at ?c (Suc (?base + i)) = narrow (ms ! i)" if "i < length ms" for i
    using that by (simp add: item_at_def nth_append)
  have "bst ?t" using bst_ins_all [of Nil_tree js ?key ?base] sj ok by simp
  moreover have "\<exists>i < length ms. kp = (?key i, Suc (?base + i))" if "kp \<in> set (elements ?t)" for kp
    using that unfolding e by auto
  ultimately have "cert_ok ?c"
    using it unfolding cert_ok_def by fastforce
  moreover have "cert_items ?c = map (\<lambda>i. item_at ?c (Suc (?base + i))) [0..<length ms]"
    by (rule cert_items_map [where k = ?key]) (simp add: e)
  moreover have "map (\<lambda>i. item_at ?c (Suc (?base + i))) [0..<length ms] = map narrow ms"
    by (rule nth_equalityI) (simp_all add: it)
  ultimately have "cert_ok ?c" "cert_items ?c = map narrow ms" by simp_all
  then show ?thesis using d h by (intro exI [of _ ?c]) simp
qed

end
