(* ===== verification/CertClaims.thy ===== *)
theory CertClaims
  imports CertProps SignClaims
begin

text \<open>
  What certificates keep through a file, what is lost there, and that a certificate knows its own signatures.
\<close>

section \<open>Keys through a file\<close>

text \<open>
  A key whose parts are read back from their texts: \<open>P\<close> is the text of the public part, \<open>S\<close> of the private one, empty where
  there is none.
\<close>

definition key_kept :: "crypto_api \<Rightarrow> dap_enc_key \<Rightarrow> byte list \<Rightarrow> byte list \<Rightarrow> bool" where
  "key_kept C k P S \<longleftrightarrow> inheritor_size k = 0 \<and> pub_key_data_size k \<noteq> 0 \<and> (S = [] \<longleftrightarrow> priv_key_data k = None) \<and>
     (priv_key_data k = None \<longrightarrow> priv_key_data_size k = 0) \<and> P \<noteq> [] \<and>
     dap_enc_key_serealize_pub_key k = Inr (Some P) \<and> (S \<noteq> [] \<longrightarrow> dap_enc_key_serealize_priv_key k = Inr (Some S)) \<and>
     (\<exists>k0 k1. dap_enc_key_new C (dap_sign_type_to_key_type (dap_sign_type_from_key_type (key_type k))) = Some k0 \<and>
        (\<forall>z. \<exists>r. dap_enc_key_deserealize_pub_key C (k0\<lparr>last_used_timestamp := last_used_timestamp k\<rparr>) (Some (P @ z)) (word_of_nat (length P)) = Inr (k1, r)) \<and>
        (\<forall>z. \<exists>r. (if S = [] then Inr (k1, 0)
          else dap_enc_key_deserealize_priv_key C k1 (Some (S @ z)) (word_of_nat (length S))) = Inr (k, r))) \<and>
     dap_enc_key_update C k = k"

text \<open>The keys of three types, with or without the private part.\<close>

definition stored_pub :: "dap_enc_key \<Rightarrow> bool" where
  "stored_pub k \<longleftrightarrow> inheritor k = None \<and> inheritor_size k = 0 \<and> pub_key_data_size k = 16 \<and>
     ((\<exists>pk. key_type k = SIG_DILITHIUM \<and> pub_key_data k = Some (DilKey pk) \<and> dilithium_key_ok dil_PUBLICKEYBYTES pk) \<or>
      (\<exists>pk. key_type k = SIG_TESLA \<and> pub_key_data k = Some (TesKey pk) \<and> tesla_key_ok tes_PUBLICKEYBYTES pk) \<or>
      (\<exists>pk. key_type k = SIG_BLISS \<and> pub_key_data k = Some (BliPub pk) \<and> bliss_public_key_ok pk))"

definition stored_key :: "dap_enc_key \<Rightarrow> bool" where
  "stored_key k \<longleftrightarrow> stored_pub k \<and> (case priv_key_data k of
       None \<Rightarrow> priv_key_data_size k = 0
     | Some (DilKey sk) \<Rightarrow> key_type k = SIG_DILITHIUM \<and> priv_key_data_size k = 16 \<and> dilithium_key_ok dil_SECRETKEYBYTES sk
     | Some (TesKey sk) \<Rightarrow> key_type k = SIG_TESLA \<and> priv_key_data_size k = 16 \<and> tesla_key_ok tes_SECRETKEYBYTES sk
     | Some (BliPriv sk) \<Rightarrow> key_type k = SIG_BLISS \<and> priv_key_data_size k = 32 \<and> bliss_private_key_ok sk
     | Some _ \<Rightarrow> False)"

definition pub_only :: "dap_enc_key \<Rightarrow> dap_enc_key" where
  "pub_only k = k\<lparr>priv_key_data := None, priv_key_data_size := 0\<rparr>"

lemma stored_pub_text:
  assumes "stored_pub k"
  shows "\<exists>P. P \<noteq> [] \<and> dap_enc_key_serealize_pub_key k = Inr (Some P) \<and>
    (\<forall>z. dap_enc_key_deserealize_pub_key C ((no_key (key_type k))\<lparr>last_used_timestamp := last_used_timestamp k\<rparr>)
      (Some (P @ z)) (word_of_nat (length P)) = Inr (pub_only k, 0))"
proof -
  note k = assms [unfolded stored_pub_def]
  have eq: "pub_only k = \<lparr>key_type = key_type k, priv_key_data = None, priv_key_data_size = 0, pub_key_data = pub_key_data k,
      pub_key_data_size = 16, last_used_timestamp = last_used_timestamp k, inheritor = None, inheritor_size = 0\<rparr>"
    using k by (cases k) (simp add: pub_only_def)
  from k consider pk where "key_type k = SIG_DILITHIUM" "pub_key_data k = Some (DilKey pk)" "dilithium_key_ok dil_PUBLICKEYBYTES pk"
    | pk where "key_type k = SIG_TESLA" "pub_key_data k = Some (TesKey pk)" "tesla_key_ok tes_PUBLICKEYBYTES pk"
    | pk where "key_type k = SIG_BLISS" "pub_key_data k = Some (BliPub pk)" "bliss_public_key_ok pk" by blast
  then show ?thesis
  proof cases
    case 1
    then show ?thesis
      using dil_pub.text_size [OF 1(3)] dil_pub.wr_text [OF 1(3)] dil_pub.rd_text [OF 1(3)]
      by (intro exI [of _ "dil_pub.text_of pk"]) (simp add: eq dap_enc_key_serealize_pub_key_def as_key_def key_casts
        dap_enc_key_deserealize_pub_key_def deserealize_pub_def set_pub_def no_key_def)
  next
    case 2
    then show ?thesis
      using tes_pub.text_size [OF 2(3)] tes_pub.wr_text [OF 2(3)] tes_pub.rd_text [OF 2(3)]
      by (intro exI [of _ "tes_pub.text_of pk"]) (simp add: eq dap_enc_key_serealize_pub_key_def as_key_def key_casts
        dap_enc_key_deserealize_pub_key_def deserealize_pub_def set_pub_def no_key_def)
  next
    case 3
    then show ?thesis
      using bli_pub.text_size [OF 3(3)] bli_pub.wr_text [OF 3(3)] bli_pub.rd_text [OF 3(3)]
      by (intro exI [of _ "bli_pub.text_of pk"]) (simp add: eq dap_enc_key_serealize_pub_key_def as_key_def key_casts
        dap_enc_key_deserealize_pub_key_def deserealize_pub_def set_pub_def no_key_def)
  qed
qed

lemma stored_priv_text:
  assumes "stored_key k" "priv_key_data k \<noteq> None"
  shows "\<exists>S. S \<noteq> [] \<and> dap_enc_key_serealize_priv_key k = Inr (Some S) \<and>
    (\<forall>z. dap_enc_key_deserealize_priv_key C (pub_only k) (Some (S @ z)) (word_of_nat (length S)) = Inr (k, 0))"
proof -
  have eq: "k\<lparr>priv_key_data := priv_key_data k, priv_key_data_size := priv_key_data_size k\<rparr> = k" by simp
  obtain d where d: "priv_key_data k = Some d" using assms(2) by blast
  note k = assms(1) [unfolded stored_key_def d option.case]
  show ?thesis
  proof (cases d)
    case (DilKey sk)
    then have o: "key_type k = SIG_DILITHIUM" "priv_key_data_size k = 16" "dilithium_key_ok dil_SECRETKEYBYTES sk" using k by simp_all
    show ?thesis
      using o dil_priv.text_size [OF o(3)] dil_priv.wr_text [OF o(3)] dil_priv.rd_text [OF o(3)] eq DilKey d
      by (intro exI [of _ "dil_priv.text_of sk"]) (simp add: pub_only_def dap_enc_key_serealize_priv_key_def as_key_def key_casts
        dap_enc_key_deserealize_priv_key_def set_priv_def)
  next
    case (TesKey sk)
    then have o: "key_type k = SIG_TESLA" "priv_key_data_size k = 16" "tesla_key_ok tes_SECRETKEYBYTES sk" using k by simp_all
    show ?thesis
      using o tes_priv.text_size [OF o(3)] tes_priv.wr_text [OF o(3)] tes_priv.rd_text [OF o(3)] eq TesKey d
      by (intro exI [of _ "tes_priv.text_of sk"]) (simp add: pub_only_def dap_enc_key_serealize_priv_key_def as_key_def key_casts
        dap_enc_key_deserealize_priv_key_def set_priv_def)
  next
    case (BliPriv sk)
    then have o: "key_type k = SIG_BLISS" "priv_key_data_size k = 32" "bliss_private_key_ok sk" using k by simp_all
    show ?thesis
      using o bli_priv.text_size [OF o(3)] bli_priv.wr_text [OF o(3)] bli_priv.rd_text [OF o(3)] eq BliPriv d
      by (intro exI [of _ "bli_priv.text_of sk"]) (simp add: pub_only_def dap_enc_key_serealize_priv_key_def as_key_def key_casts
        dap_enc_key_deserealize_priv_key_def set_priv_def Let_def)
  qed (use k in simp_all)
qed

lemma stored_key_kept:
  assumes "stored_key k"
  shows "\<exists>P S. key_kept C k P S"
proof -
  have pub: "stored_pub k" using assms by (simp add: stored_key_def)
  obtain P where P: "P \<noteq> []" "dap_enc_key_serealize_pub_key k = Inr (Some P)"
    "\<And>z. dap_enc_key_deserealize_pub_key C ((no_key (key_type k))\<lparr>last_used_timestamp := last_used_timestamp k\<rparr>)
      (Some (P @ z)) (word_of_nat (length P)) = Inr (pub_only k, 0)" using stored_pub_text [OF pub] by blast
  have ty: "dap_enc_key_new C (dap_sign_type_to_key_type (dap_sign_type_from_key_type (key_type k))) = Some (no_key (key_type k))"
    "key_type k \<noteq> SIG_PICNIC" using pub by (auto simp: stored_pub_def)
  have basics: "inheritor_size k = 0" "pub_key_data_size k \<noteq> 0" "dap_enc_key_update C k = k"
    using pub ty(2) by (simp_all add: stored_pub_def dap_enc_key_update_def)
  show ?thesis
  proof (cases "priv_key_data k")
    case None
    then have ps: "priv_key_data_size k = 0" using assms by (simp add: stored_key_def)
    have "pub_only k = k" using None ps by (cases k) (simp add: pub_only_def)
    then show ?thesis using P ty(1) basics None ps unfolding key_kept_def by (intro exI [of _ P] exI [of _ "[]"]) simp
  next
    case (Some d)
    then obtain S where "S \<noteq> []" "dap_enc_key_serealize_priv_key k = Inr (Some S)"
      "\<And>z. dap_enc_key_deserealize_priv_key C (pub_only k) (Some (S @ z)) (word_of_nat (length S)) = Inr (k, 0)"
      using stored_priv_text [OF assms] by blast
    then show ?thesis using P ty(1) basics Some unfolding key_kept_def by (intro exI [of _ P] exI [of _ S]) simp
  qed
qed

section \<open>The file\<close>

definition text_len :: "byte list option res \<Rightarrow> nat" where
  "text_len r = (case r of Inr (Some b) \<Rightarrow> length b | _ \<Rightarrow> 0)"

definition meta_bytes_of :: "dap_cert \<Rightarrow> byte list" where
  "meta_bytes_of c = concat (map item_text (cert_items c))"

definition file_size :: "dap_cert \<Rightarrow> nat" where
  "file_size c = 89 + text_len (dap_enc_key_serealize_pub_key (cert_key c)) +
     (if priv_key_data (cert_key c) = None then 0 else text_len (dap_enc_key_serealize_priv_key (cert_key c))) + length (meta_bytes_of c)"

definition file_hdr :: "dap_cert \<Rightarrow> byte list \<Rightarrow> byte list \<Rightarrow> byte list" where
  "file_hdr c P S = le64 dap_cert_FILE_HDR_SIGN @ le32 dap_cert_FILE_VERSION @
     [if priv_key_data (cert_key c) = None then dap_cert_FILE_TYPE_PUBLIC else dap_cert_FILE_TYPE_PRIVATE] @
     le32 (dap_sign_type_from_key_type (key_type (cert_key c))) @ le64 (word_of_nat (length P)) @ le64 (word_of_nat (length S)) @
     le64 (word_of_nat (length (meta_bytes_of c))) @ le64 (last_used_timestamp (cert_key c))"

lemma length_file_hdr: "length (file_hdr c P S) = sizeof_cert_hdr"
  by (simp add: file_hdr_def sizeof_cert_hdr_def)

text \<open>A certificate as it can be saved whole.\<close>

definition cert_whole :: "dap_cert \<Rightarrow> bool" where
  "cert_whole c \<longleftrightarrow> cert_ok c \<and> (\<forall>m \<in> set (cert_items c). meta_ok m) \<and> stored_key (cert_key c) \<and>
     length (cert_name c) = DAP_CERT_ITEM_NAME_MAX \<and> 0 \<in> set (cert_name c) \<and> file_size c < 2 ^ 32"

lemma word_zero:
  assumes "n < 2 ^ 64"
  shows "(word_of_nat n :: u64) = 0 \<longleftrightarrow> n = 0"
proof
  assume "(word_of_nat n :: u64) = 0"
  then show "n = 0" using unat_of_small [OF assms] by simp
qed simp

lemma items_nil: "cert_items c = [] \<longleftrightarrow> meta_bytes_of c = []"
  by (auto simp: meta_bytes_of_def item_text_def)

lemma saved:
  assumes "cert_whole c" "key_kept C (cert_key c) P S"
  shows "dap_cert_mem_save c = Inr (c, Some (file_hdr c P S @ cert_name c @ P @ S @ meta_bytes_of c))"
    "89 + length P + length S + length (meta_bytes_of c) < 2 ^ 32"
proof -
  note w = assms(1) [unfolded cert_whole_def] and k = assms(2) [unfolded key_kept_def]
  let ?M = "meta_bytes_of c"
  show sz: "89 + length P + length S + length ?M < 2 ^ 32"
  proof -
    have "text_len (dap_enc_key_serealize_pub_key (cert_key c)) = length P" using k by (simp add: text_len_def)
    moreover have "(if priv_key_data (cert_key c) = None then 0 else text_len (dap_enc_key_serealize_priv_key (cert_key c))) = length S"
      using k by (auto simp: text_len_def)
    ultimately show ?thesis using w unfolding file_size_def by linarith
  qed
  have meta: "dap_cert_serialize_meta c = Inr (c, if ?M = [] then None else Some ?M)"
    using serialize_meta_ok [of c] w k items_nil [of c] by (simp add: meta_bytes_of_def)
  have un: "unat (word_of_nat (length S) :: u64) = length S" "unat (word_of_nat (length ?M) :: u64) = length ?M"
    using sz by (simp_all add: unat_of_small)
  have name: "chunkE (cert_name c) 0 DAP_CERT_ITEM_NAME_MAX = Inr (cert_name c)" using w by (simp add: chunk_def)
  have zero: "(word_of_nat (length ?M) :: u64) = 0 \<longleftrightarrow> ?M = []"
    using sz word_zero [of "length ?M"] by simp
  obtain st :: u32 where st: "st = dap_sign_type_from_key_type (key_type (cert_key c))" by blast
  have priv: "(if priv_key_data (cert_key c) \<noteq> None then dap_enc_key_serealize_priv_key (cert_key c) else Inr None) =
      Inr (if S = [] then None else Some S)" using k by simp
  have pub: "(if pub_key_data_size (cert_key c) \<noteq> 0 then dap_enc_key_serealize_pub_key (cert_key c) else Inr None) = Inr (Some P)" using k by simp
  have put: "put_fields (new_buf (sizeof_cert_hdr + DAP_CERT_ITEM_NAME_MAX + length S + length P + length ?M)) 0
      [le64 dap_cert_FILE_HDR_SIGN, le32 dap_cert_FILE_VERSION, [ty], le32 st, le64 a, le64 b, le64 d, le64 ts, cert_name c, P, S, ?M] =
      Inr (concat [le64 dap_cert_FILE_HDR_SIGN, le32 dap_cert_FILE_VERSION, [ty], le32 st, le64 a, le64 b, le64 d, le64 ts, cert_name c, P, S, ?M])" for ty a b d ts
    using w by (intro put_fields_new) (simp add: sizeof_cert_hdr_def)
  have ps: "(case if S = [] then None else Some S of None \<Rightarrow> priv_key_data_size (cert_key c) | Some b \<Rightarrow> word_of_nat (length b)) = word_of_nat (length S)"
    "(case if S = [] then None else Some S of None \<Rightarrow> [] | Some b \<Rightarrow> b) = S" "(if S = [] then None else Some S) = None \<longleftrightarrow> priv_key_data (cert_key c) = None"
    using k by (auto split: if_splits)
  have ms: "(case if ?M = [] then None else Some ?M of None \<Rightarrow> inheritor_size (cert_key c) | Some b \<Rightarrow> word_of_nat (length b)) = (word_of_nat (length ?M) :: u64)"
    "(if (word_of_nat (length ?M) :: u64) = 0 then Inr [] else case if ?M = [] then None else Some ?M of None \<Rightarrow> Inl NullDeref | Some b \<Rightarrow> Inr b) = (Inr ?M :: byte list res)"
    using k zero by simp_all
  have whole: "take (sizeof_cert_hdr + DAP_CERT_ITEM_NAME_MAX + length P + length S + length (if ?M = [] then [] else ?M))
      (file_hdr c P S @ cert_name c @ P @ S @ ?M) = file_hdr c P S @ cert_name c @ P @ S @ ?M"
    using w length_file_hdr [of c P S] by (intro take_all) auto
  show "dap_cert_mem_save c = Inr (c, Some (file_hdr c P S @ cert_name c @ P @ S @ ?M))"
    unfolding dap_cert_mem_save_def Let_def pub priv meta bindE_simps prod.case option.case ps ms name un st [symmetric] put
    using whole by (simp add: file_hdr_def st)
qed

lemma hdr_fields:
  assumes "H = file_hdr c P S"
  shows "rd64 H 0 = Inr dap_cert_FILE_HDR_SIGN" "rd32 H 8 = Inr dap_cert_FILE_VERSION"
    "rd32 H 13 = Inr (dap_sign_type_from_key_type (key_type (cert_key c)))" "rd64 H 17 = Inr (word_of_nat (length P))"
    "rd64 H 25 = Inr (word_of_nat (length S))" "rd64 H 33 = Inr (word_of_nat (length (meta_bytes_of c)))"
    "rd64 H 41 = Inr (last_used_timestamp (cert_key c))"
proof -
  obtain t :: byte where t: "t = (if priv_key_data (cert_key c) = None then dap_cert_FILE_TYPE_PUBLIC else dap_cert_FILE_TYPE_PRIVATE)" by blast
  let ?a = "le64 dap_cert_FILE_HDR_SIGN" and ?b = "le32 dap_cert_FILE_VERSION @ [t]"
    and ?d = "le32 (dap_sign_type_from_key_type (key_type (cert_key c)))"
    and ?e = "le64 (word_of_nat (length P))" and ?f = "le64 (word_of_nat (length S))" and ?g = "le64 (word_of_nat (length (meta_bytes_of c)))"
  have H: "H = ?a @ ?b @ ?d @ ?e @ ?f @ ?g @ le64 (last_used_timestamp (cert_key c)) @ []" by (simp add: assms file_hdr_def t)
  show "rd64 H 0 = Inr dap_cert_FILE_HDR_SIGN" using rd64_at [of "[]" 0] unfolding H by simp
  show "rd32 H 8 = Inr dap_cert_FILE_VERSION" using rd32_at [of ?a 8] unfolding H by simp
  show "rd32 H 13 = Inr (dap_sign_type_from_key_type (key_type (cert_key c)))" using rd32_at [of "?a @ ?b" 13] unfolding H by simp
  show "rd64 H 17 = Inr (word_of_nat (length P))" using rd64_at [of "?a @ ?b @ ?d" 17] unfolding H by simp
  show "rd64 H 25 = Inr (word_of_nat (length S))" using rd64_at [of "?a @ ?b @ ?d @ ?e" 25] unfolding H by simp
  show "rd64 H 33 = Inr (word_of_nat (length (meta_bytes_of c)))" using rd64_at [of "?a @ ?b @ ?d @ ?e @ ?f" 33] unfolding H by simp
  show "rd64 H 41 = Inr (last_used_timestamp (cert_key c))" using rd64_at [of "?a @ ?b @ ?d @ ?e @ ?f @ ?g" 41 _ "[]"] unfolding H by simp
qed

lemma new_name: "length n = DAP_CERT_ITEM_NAME_MAX \<Longrightarrow> 0 \<in> set n \<Longrightarrow> buf_text (cert_name (dap_cert_new (buf_text n))) = buf_text n"
proof -
  assume n: "length n = DAP_CERT_ITEM_NAME_MAX" "0 \<in> set n"
  let ?t = "buf_text n"
  have z: "0 \<notin> set ?t" unfolding buf_text_def by (metis (mono_tags, lifting) set_takeWhileD)
  have "?t \<noteq> n" using z n(2) by auto
  moreover have "length ?t \<le> length n" unfolding buf_text_def by (rule length_takeWhile_le)
  moreover have "?t = n" if "length ?t = length n" using that unfolding buf_text_def by (metis takeWhile_eq_take take_all order_refl)
  ultimately have "length ?t < length n" using order.not_eq_order_implies_strict by blast
  then have l: "length ?t < 40" using n(1) by (simp add: DAP_CERT_ITEM_NAME_MAX_def)
  have "cert_name (dap_cert_new ?t) = ?t @ 0 # replicate (39 - length ?t) 0"
    using l by (simp add: dap_cert_new_def DAP_CERT_ITEM_NAME_MAX_def Let_def Suc_diff_le flip: replicate_Suc)
  moreover have "takeWhile (\<lambda>c. c \<noteq> 0) (?t @ 0 # replicate (39 - length ?t) 0) = ?t" using z by (subst takeWhile_append2) auto
  ultimately show ?thesis by (simp add: buf_text_def [of "_ @ _"])
qed

lemma cert_ok_key: "cert_ok (c\<lparr>cert_key := k\<rparr>) = cert_ok c"
  by (simp add: cert_ok_def item_at_def)

lemma cert_items_key: "cert_items (c\<lparr>cert_key := k\<rparr>) = cert_items c"
  by (simp add: cert_items_def item_at_def)

lemma cert_items_new: "cert_items (dap_cert_new n) = []"
  by (simp add: cert_items_def dap_cert_new_def)

lemma loaded:
  assumes "cert_whole c" "key_kept C (cert_key c) P S"
    and "bs = file_hdr c P S @ cert_name c @ P @ S @ meta_bytes_of c"
  shows "\<exists>c'. dap_cert_mem_load C (bs @ z) (word_of_nat (length bs)) = Inr (Some c') \<and> cert_key c' = cert_key c \<and>
    buf_text (cert_name c') = buf_text (cert_name c) \<and> cert_ok c' \<and> cert_items c' = map narrow (cert_items c) \<and>
    (\<forall>n. length (cert_items c) \<le> 2 ^ n \<longrightarrow> tree_height (cert_metadata c') \<le> Suc n)"
proof -
  note w = assms(1) [unfolded cert_whole_def] and k = assms(2) [unfolded key_kept_def]
  note sz = saved(2) [OF assms(1,2)]
  let ?M = "meta_bytes_of c" and ?H = "file_hdr c P S"
  obtain k0 k1 where k0: "dap_enc_key_new C (dap_sign_type_to_key_type (dap_sign_type_from_key_type (key_type (cert_key c)))) = Some k0"
    and k1: "\<And>z. \<exists>r. dap_enc_key_deserealize_pub_key C (k0\<lparr>last_used_timestamp := last_used_timestamp (cert_key c)\<rparr>) (Some (P @ z)) (word_of_nat (length P)) = Inr (k1, r)"
    and k2: "\<And>z. \<exists>r. (if S = [] then Inr (k1, 0) else dap_enc_key_deserealize_priv_key C k1 (Some (S @ z)) (word_of_nat (length S))) = Inr (cert_key c, r)"
    and up: "dap_enc_key_update C (cert_key c) = cert_key c" using k by blast
  have lb: "length bs = 89 + length P + length S + length ?M"
    using w by (simp add: assms(3) length_file_hdr sizeof_cert_hdr_def DAP_CERT_ITEM_NAME_MAX_def)
  have h: "chunkE (bs @ z) 0 sizeof_cert_hdr = Inr ?H"
    using chunk_prefix [OF length_file_hdr] by (simp add: assms(3))
  have nm: "chunkE (bs @ z) sizeof_cert_hdr DAP_CERT_ITEM_NAME_MAX = Inr (cert_name c)"
    using chunkE_at [OF length_file_hdr, of "cert_name c" DAP_CERT_ITEM_NAME_MAX c P S "P @ S @ ?M @ z"] w by (simp add: assms(3))
  have st: "strE (cert_name c) 0 = Inr (buf_text (cert_name c))" using w by (simp add: strE_def)
  have v: "\<not> sint dap_cert_FILE_VERSION < 1" by (simp add: dap_cert_FILE_VERSION_def)
  have enough: "\<not> (word_of_nat (length bs) :: u64) < word_of_nat sizeof_cert_hdr + word_of_nat (length P) + word_of_nat (length S) + word_of_nat (length ?M)"
  proof -
    have "(word_of_nat sizeof_cert_hdr + word_of_nat (length P) + word_of_nat (length S) + word_of_nat (length ?M) :: u64) =
        word_of_nat (49 + length P + length S + length ?M)" by (simp add: sizeof_cert_hdr_def)
    then show ?thesis using sz less_of_small [of "length bs" "49 + length P + length S + length ?M"] lb by simp
  qed
  have pos: "(0 < (word_of_nat n :: u64)) \<longleftrightarrow> 0 < n" if "n < 2 ^ 32" for n
    using less_of_small [of 0 n] that by simp
  have posn: "(0 < (word_of_nat (length P) :: u64)) \<longleftrightarrow> True" "(0 < (word_of_nat (length S) :: u64)) \<longleftrightarrow> S \<noteq> []" "(0 < (word_of_nat (length ?M) :: u64)) \<longleftrightarrow> ?M \<noteq> []"
    using pos [of "length P"] pos [of "length S"] pos [of "length ?M"] sz k by simp_all
  have d0: "drop (unat (word_of_nat (sizeof_cert_hdr + DAP_CERT_ITEM_NAME_MAX) :: u32)) (bs @ z) = P @ S @ ?M @ z"
    using w length_file_hdr [of c P S] by (simp add: assms(3) sizeof_cert_hdr_def DAP_CERT_ITEM_NAME_MAX_def)
  have u32: "unat (word_of_nat n :: u32) = n" if "n < 2 ^ 32" for n using that by (rule of_small(1))
  have uc: "ucast (word_of_nat n :: u64) = (word_of_nat n :: u32)" if "n < 2 ^ 32" for n
  proof -
    have u: "unat (word_of_nat n :: u64) = n" using that by (intro unat_of_small) simp
    show ?thesis using of_nat_unat [of "word_of_nat n :: u64", where 'a = "32 word"] unfolding u by (rule sym)
  qed
  have lens: "length P < 2 ^ 32" "length S < 2 ^ 32" "89 + length P < 2 ^ 32" "89 + length P + length S < 2 ^ 32" using sz by linarith+
  obtain o1 :: u32 where o1: "o1 = word_of_nat (89 + length P)" by blast
  obtain o2 :: u32 where o2: "o2 = word_of_nat (89 + length P + length S)" by blast
  have off1: "(word_of_nat (sizeof_cert_hdr + DAP_CERT_ITEM_NAME_MAX) :: u32) + ucast (word_of_nat (length P) :: u64) = o1"
    unfolding uc [OF lens(1)] o1 by (simp add: sizeof_cert_hdr_def DAP_CERT_ITEM_NAME_MAX_def)
  have off2: "(if S \<noteq> [] then o1 + ucast (word_of_nat (length S) :: u64) else o1) = o2"
    unfolding uc [OF lens(2)] o1 o2 by simp
  have d1: "drop (unat o1) (bs @ z) = S @ ?M @ z" "drop (unat o2) (bs @ z) = ?M @ z"
    unfolding o1 o2 u32 [OF lens(3)] u32 [OF lens(4)]
    using w length_file_hdr [of c P S] by (simp_all add: assms(3) sizeof_cert_hdr_def DAP_CERT_ITEM_NAME_MAX_def)
  obtain r1 where r1: "dap_enc_key_deserealize_pub_key C (k0\<lparr>last_used_timestamp := last_used_timestamp (cert_key c)\<rparr>)
      (Some (P @ S @ ?M @ z)) (word_of_nat (length P)) = Inr (k1, r1)" using k1 by blast
  obtain r2 where r2: "(if S \<noteq> [] then dap_enc_key_deserealize_priv_key C k1 (Some (S @ ?M @ z)) (word_of_nat (length S)) else Inr (k1, 0)) = Inr (cert_key c, r2)"
    using k2 [of "?M @ z"] by (cases "S = []") auto
  let ?c0 = "(dap_cert_new (buf_text (cert_name c)))\<lparr>cert_key := cert_key c\<rparr>"
  have um: "unat (word_of_nat (length ?M) :: u64) = length ?M" using sz by (intro unat_of_small) simp
  have "\<exists>c'. (if ?M \<noteq> [] then dap_cert_deserialize_meta ?c0 (?M @ z) (length ?M) else Inr ?c0) = Inr c' \<and>
      cert_key c' = cert_key c \<and> cert_name c' = cert_name ?c0 \<and> cert_ok c' \<and> cert_items c' = map narrow (cert_items c) \<and>
      (\<forall>n. length (cert_items c) \<le> 2 ^ n \<longrightarrow> tree_height (cert_metadata c') \<le> Suc n)"
  proof (cases "?M = []")
    case True
    then have "cert_items c = []" by (simp add: items_nil)
    then show ?thesis using True cert_new_ok(1) by (simp add: cert_ok_key cert_items_key cert_items_new) (simp add: dap_cert_new_def)
  next
    case False
    then have "cert_items c \<noteq> []" by (simp add: items_nil)
    then show ?thesis
      using deserialize_meta_ok [OF cert_items_sorted [of c], of ?c0 z] w False by (auto simp: meta_bytes_of_def)
  qed
  then obtain c' where c': "(if ?M \<noteq> [] then dap_cert_deserialize_meta ?c0 (?M @ z) (length ?M) else Inr ?c0) = Inr c'"
      "cert_key c' = cert_key c" "cert_name c' = cert_name ?c0" "cert_ok c'" "cert_items c' = map narrow (cert_items c)"
      "\<forall>n. length (cert_items c) \<le> 2 ^ n \<longrightarrow> tree_height (cert_metadata c') \<le> Suc n" by blast
  have load: "dap_cert_mem_load C (bs @ z) (word_of_nat (length bs)) = Inr (Some (c'\<lparr>cert_key := dap_enc_key_update C (cert_key c')\<rparr>))"
    unfolding dap_cert_mem_load_def Let_def h bindE_simps hdr_fields [OF refl] simp_thms if_False if_not_P [OF v] if_not_P [OF enough]
      nm st k0 option.case posn if_True d0 r1 prod.case off1 d1 r2 off2 um c'(1) by simp
  have "c'\<lparr>cert_key := dap_enc_key_update C (cert_key c')\<rparr> = c'" by (simp add: c'(2) up)
  then show ?thesis using load c' new_name [of "cert_name c"] w by simp
qed


lemma narrow_map:
  assumes "cert_ok c" "cert_ok c'" "cert_items c' = map narrow (cert_items c)"
  shows "cert_map c' f = map_option narrow (cert_map c f)"
  unfolding cert_map_items [OF assms(1)] cert_map_items [OF assms(2)] assms(3)
  using map_option_of [of narrow cm_key id "cert_items c" f] by (simp add: comp_def)

section \<open>Properties\<close>

text \<open>
  C13: a certificate is saved and loaded back, whatever follows the text, when (\<open>cert_whole\<close>) its key is a Dilithium,
  TESLA or BLISS key without an inheritor, whose parts have the sizes of their kind, its name ends inside its 40 bytes,
  every item of its metadata has one of the types of the code and a value of fewer than 256 bytes, a scalar of 1, 2, 4 or
  8, and the text stays below 4 GB.  What is loaded has the same key and name; its metadata are a search tree of a height
  that is at most one more than the logarithm of their number, and which has for every name the item the saved one has,
  of a scalar longer than a byte the lowest byte.
\<close>

theorem cert_save_load:
  assumes "cert_whole c"
  shows "\<exists>bs. dap_cert_mem_save c = Inr (c, Some bs) \<and>
    (\<forall>z. \<exists>c'. dap_cert_mem_load C (bs @ z) (word_of_nat (length bs)) = Inr (Some c') \<and> cert_key c' = cert_key c \<and>
      buf_text (cert_name c') = buf_text (cert_name c) \<and>
      (\<forall>n. dap_binary_tree_count (cert_metadata c) \<le> 2 ^ n \<longrightarrow> tree_height (cert_metadata c') \<le> Suc n) \<and>
      (\<forall>f. cstr_ok f \<longrightarrow> (\<exists>r. dap_cert_get_meta c f = Inr r \<and> dap_cert_get_meta c' f = Inr (map_option narrow r))))"
proof -
  have ok: "cert_ok c" "stored_key (cert_key c)" using assms by (simp_all add: cert_whole_def)
  obtain P S where k: "key_kept C (cert_key c) P S" using stored_key_kept [OF ok(2)] by blast
  have n: "dap_binary_tree_count (cert_metadata c) = length (cert_items c)"
    by (simp add: dap_binary_tree_count_def count_spec cert_items_def)
  have "\<exists>c'. dap_cert_mem_load C ((file_hdr c P S @ cert_name c @ P @ S @ meta_bytes_of c) @ z)
        (word_of_nat (length (file_hdr c P S @ cert_name c @ P @ S @ meta_bytes_of c))) = Inr (Some c') \<and> cert_key c' = cert_key c \<and>
      buf_text (cert_name c') = buf_text (cert_name c) \<and>
      (\<forall>n. dap_binary_tree_count (cert_metadata c) \<le> 2 ^ n \<longrightarrow> tree_height (cert_metadata c') \<le> Suc n) \<and>
      (\<forall>f. cstr_ok f \<longrightarrow> (\<exists>r. dap_cert_get_meta c f = Inr r \<and> dap_cert_get_meta c' f = Inr (map_option narrow r)))" for z
  proof -
    obtain c' where l: "dap_cert_mem_load C ((file_hdr c P S @ cert_name c @ P @ S @ meta_bytes_of c) @ z)
        (word_of_nat (length (file_hdr c P S @ cert_name c @ P @ S @ meta_bytes_of c))) = Inr (Some c')" "cert_key c' = cert_key c"
      "buf_text (cert_name c') = buf_text (cert_name c)" "cert_ok c'" "cert_items c' = map narrow (cert_items c)"
      "\<forall>n. length (cert_items c) \<le> 2 ^ n \<longrightarrow> tree_height (cert_metadata c') \<le> Suc n"
      using loaded [OF assms k refl, of z] by blast
    have "dap_cert_get_meta c' f = Inr (map_option narrow (cert_map c f))" if "cstr_ok f" for f
      using get_meta_map [OF l(4) that] narrow_map [OF ok(1) l(4,5)] by simp
    then show ?thesis using l n get_meta_map [OF ok(1)] by (intro exI [of _ c']) simp
  qed
  then show ?thesis using saved(1) [OF assms k] by blast
qed

text \<open>A certificate to evaluate with.\<close>

definition toy_pub :: dilithium_key where
  "toy_pub = \<lparr>dk_kind = Some 0, dk_data = replicate 896 2\<rparr>"

definition toy_cert :: "cert_meta list \<Rightarrow> dap_cert" where
  "toy_cert ms = \<lparr>cert_key = \<lparr>key_type = SIG_DILITHIUM, priv_key_data = None, priv_key_data_size = 0, pub_key_data = Some (DilKey toy_pub),
       pub_key_data_size = 16, last_used_timestamp = 5, inheritor = None, inheritor_size = 0\<rparr>,
     cert_name = [110, 111, 100, 101] @ replicate 36 0,
     cert_metadata = (case ms of [] \<Rightarrow> Nil_tree | m # _ \<Rightarrow> Elm (cm_key m) 1 Nil_tree Nil_tree), cert_area = take 1 ms\<rparr>"

definition int_item :: cert_meta where
  "int_item = \<lparr>cm_key = [110], cm_length = 4, cm_type = META_INT, cm_value = [44, 1, 0, 0]\<rparr>"

lemma toy_pub_key: "dilithium_key_ok dil_PUBLICKEYBYTES toy_pub"
  "dap_enc_dilithium_write_public_key toy_pub = Inr (Some (le64 908 @ le32 0 @ replicate 896 2))"
proof -
  have p: "dilithium_params_init 0 = Some (dilithium_params ! 0)" "unat (dil_PUBLICKEYBYTES (dilithium_params ! 0)) = 896"
    by (simp_all add: dilithium_params_init_def dilithium_params_def)
  show "dilithium_key_ok dil_PUBLICKEYBYTES toy_pub"
    unfolding dilithium_key_ok_def toy_pub_def using p by (intro exI conjI) (rule refl | simp)+
  show "dap_enc_dilithium_write_public_key toy_pub = Inr (Some (le64 908 @ le32 0 @ replicate 896 2))"
    using p key_text [of "replicate 896 2" 896 908 0]
    by (simp add: dap_enc_dilithium_write_public_key_def dilithium_write_key_def toy_pub_def initE_def Let_def)
qed

lemma toy_cert_whole: "cert_whole (toy_cert [int_item])"
proof -
  let ?c = "toy_cert [int_item]"
  have items: "cert_items ?c = [int_item]" by (simp add: cert_items_def toy_cert_def item_at_def)
  have "cert_ok ?c" by (simp add: cert_ok_def toy_cert_def item_at_def int_item_def cstr_ok_def)
  moreover have "meta_ok int_item" by (simp add: meta_ok_def int_item_def meta_types cstr_ok_def)
  moreover have "stored_key (cert_key ?c)"
    using toy_pub_key(1) by (auto simp: stored_key_def stored_pub_def toy_cert_def)
  moreover have "file_size ?c < 2 ^ 32"
    using toy_pub_key(2) items
    by (simp add: file_size_def meta_bytes_of_def toy_cert_def text_len_def dap_enc_key_serealize_pub_key_def as_key_def key_casts
      item_text_def int_item_def)
  ultimately show ?thesis using items by (simp add: cert_whole_def) (simp add: toy_cert_def DAP_CERT_ITEM_NAME_MAX_def)
qed

theorem cert_save_load_witness:
  "\<exists>bs c'. dap_cert_mem_save (toy_cert [int_item]) = Inr (toy_cert [int_item], Some bs) \<and>
     dap_cert_mem_load toy_api bs (word_of_nat (length bs)) = Inr (Some c') \<and> tree_height (cert_metadata c') \<le> 1 \<and>
     dap_cert_get_meta c' [110] = Inr (Some (narrow int_item))"
proof -
  have n: "dap_binary_tree_count (cert_metadata (toy_cert [int_item])) \<le> 2 ^ 0"
    by (simp add: toy_cert_def dap_binary_tree_count_def)
  have g: "dap_cert_get_meta (toy_cert [int_item]) [110] = Inr (Some int_item)"
    by (simp add: toy_cert_def int_item_def dap_cert_get_meta_def dap_binary_tree_search_def KEY_EQ_def metaE_def)
  from cert_save_load [OF toy_cert_whole, of toy_api] obtain bs where bs: "dap_cert_mem_save (toy_cert [int_item]) = Inr (toy_cert [int_item], Some bs)"
    and l: "\<And>z. \<exists>c'. dap_cert_mem_load toy_api (bs @ z) (word_of_nat (length bs)) = Inr (Some c') \<and> cert_key c' = cert_key (toy_cert [int_item]) \<and>
      buf_text (cert_name c') = buf_text (cert_name (toy_cert [int_item])) \<and>
      (\<forall>n. dap_binary_tree_count (cert_metadata (toy_cert [int_item])) \<le> 2 ^ n \<longrightarrow> tree_height (cert_metadata c') \<le> Suc n) \<and>
      (\<forall>f. cstr_ok f \<longrightarrow> (\<exists>r. dap_cert_get_meta (toy_cert [int_item]) f = Inr r \<and> dap_cert_get_meta c' f = Inr (map_option narrow r)))"
    by blast
  from l [of "[]"] obtain c' where c': "dap_cert_mem_load toy_api bs (word_of_nat (length bs)) = Inr (Some c')"
      "\<forall>n. dap_binary_tree_count (cert_metadata (toy_cert [int_item])) \<le> 2 ^ n \<longrightarrow> tree_height (cert_metadata c') \<le> Suc n"
      "\<forall>f. cstr_ok f \<longrightarrow> (\<exists>r. dap_cert_get_meta (toy_cert [int_item]) f = Inr r \<and> dap_cert_get_meta c' f = Inr (map_option narrow r))" by auto
  have "cstr_ok [110]" by (simp add: cstr_ok_def)
  with c'(3) g have "dap_cert_get_meta c' [110] = Inr (Some (narrow int_item))" by (auto simp del: map_option_eq_Some)
  moreover have "tree_height (cert_metadata c') \<le> 1" using c'(2) [THEN spec, of 0] n by simp
  ultimately show ?thesis using bs c'(1) by blast
qed

text \<open>
  C20: an integer that is added to the metadata is read as its value; after the certificate was saved and loaded only
  the lowest byte of it is left.
\<close>

theorem cert_int_low_byte:
  assumes "cert_ok c" "cstr_ok f" "dap_cert_add_meta_scalar c (Some f) META_INT v 4 = Inr c1" "cert_whole c1"
  shows "dap_cert_get_meta_int c1 f = Inr (sint (ucast v :: u32)) \<and>
    (\<exists>bs c2. dap_cert_mem_save c1 = Inr (c1, Some bs) \<and> dap_cert_mem_load C bs (word_of_nat (length bs)) = Inr (Some c2) \<and>
      dap_cert_get_meta_int c2 f = Inr (uint v mod 256))"
proof -
  let ?m = "\<lparr>cm_key = f, cm_length = 4, cm_type = META_INT, cm_value = le_bytes 4 (unat v)\<rparr>"
  have "\<exists>c'. dap_cert_add_meta c (Some f) META_INT (Some (scalar_mem v 4)) 4 = Inr c' \<and> cert_ok c' \<and> cert_map c' = (cert_map c)(f \<mapsto> ?m)"
    using add_meta_map [OF assms(1,2), of META_INT 4 "scalar_mem v 4"] by (simp add: scalar_mem_def meta_types) blast
  then have c1: "cert_ok c1" "cert_map c1 f = Some ?m"
    using assms(3) by (auto simp: dap_cert_add_meta_scalar_def is_bytes_def meta_types)
  have ok: "stored_key (cert_key c1)" using assms(4) by (simp add: cert_whole_def)
  obtain P S where k: "key_kept C (cert_key c1) P S" using stored_key_kept [OF ok] by blast
  let ?bs = "file_hdr c1 P S @ cert_name c1 @ P @ S @ meta_bytes_of c1"
  obtain c2 where c2: "dap_cert_mem_load C ?bs (word_of_nat (length ?bs)) = Inr (Some c2)" "cert_ok c2"
      "cert_items c2 = map narrow (cert_items c1)"
    using loaded [OF assms(4) k refl, of "[]"] unfolding append_Nil2 by blast
  have m2: "cert_map c2 f = Some (narrow ?m)" using narrow_map [OF c1(1) c2(2,3)] c1(2) by simp
  have int: "dap_cert_get_meta_int c' f = Inr (sint (word_of_nat (le_val x) :: u32))"
    if "cert_ok c'" "cert_map c' f = Some m" "cm_type m = META_INT" "cm_value m = x" "length x = 4" for c' m x
  proof -
    have "rd32 (meta_mem m) 0 = Inr (word_of_nat (le_val x))"
      using chunk_prefix [OF that(5)] that(4) by (simp add: rd32_def meta_mem_def)
    then show ?thesis using get_meta_map [OF that(1) assms(2)] that(2,3) by (simp add: dap_cert_get_meta_int_def get_typed_def)
  qed
  have v1: "word_of_nat (le_val (le_bytes 4 (unat v))) = (ucast v :: u32)"
  proof -
    have p: "(256 :: nat) ^ 4 = 2 ^ 32" by simp
    have "(word_of_nat (unat v mod 2 ^ 32) :: u32) = word_of_nat (unat v)"
      by (rule word_of_nat_eq_iff [THEN iffD2]) (simp add: take_bit_eq_mod)
    then show ?thesis unfolding le_val_le_bytes p using of_nat_unat [of v, where 'a = "32 word"] by (rule trans)
  qed
  let ?b = "word_of_nat (unat v mod 256) :: byte"
  have val: "cm_value (narrow ?m) = [?b, 0, 0, 0]"
  proof -
    have "le_bytes (Suc 3) (unat v) = ?b # le_bytes 3 (unat v div 256)" by (simp only: le_bytes.simps)
    then have "take 1 (le_bytes 4 (unat v)) = [?b]" by simp
    moreover have "replicate 3 0 = [0, 0, 0 :: byte]" by (simp add: eval_nat_numeral)
    ultimately show ?thesis by (simp add: narrow_def is_bytes_def meta_types)
  qed
  have v2: "sint (word_of_nat (le_val [?b, 0, 0, 0]) :: u32) = uint v mod 256"
  proof -
    have b: "unat ?b = unat v mod 256" by (rule unat_byte) simp
    have "sint (word_of_nat (unat v mod 256) :: u32) = int (unat v mod 256)"
      by (simp add: signed_of_nat signed_take_bit_int_eq_self_iff)
    also have "\<dots> = uint v mod 256" by (simp add: zmod_int)
    finally show ?thesis by (simp only: le_val.simps b) simp
  qed
  have "dap_cert_get_meta_int c1 f = Inr (sint (ucast v :: u32))"
    using int [OF c1(1) c1(2), of "le_bytes 4 (unat v)"] v1 by simp
  moreover have "dap_cert_get_meta_int c2 f = Inr (uint v mod 256)"
    using int [OF c2(2) m2 _ val] v2 by (simp add: narrow_def)
  ultimately show ?thesis using saved(1) [OF assms(4) k] c2(1) by blast
qed

theorem cert_int_low_byte_witness:
  "dap_cert_get_meta_int (toy_cert [int_item]) [110] = Inr 300 \<and>
    (\<exists>bs c2. dap_cert_mem_load toy_api bs (word_of_nat (length bs)) = Inr (Some c2) \<and> dap_cert_get_meta_int c2 [110] = Inr 44)"
proof -
  have ok: "cert_ok (toy_cert [])" "cstr_ok [110]" by (simp_all add: cert_ok_def toy_cert_def cstr_ok_def)
  have sm: "scalar_mem 300 4 = [44, 1, 0, 0]" by code_simp
  have "dap_cert_new_meta (Some [110]) META_INT (Some [44, 1, 0, 0]) 4 = Inr (Some int_item)"
    by (simp add: dap_cert_new_meta_def meta_types int_item_def chunk_def)
  then have add: "dap_cert_add_meta_scalar (toy_cert []) (Some [110]) META_INT 300 4 = Inr (toy_cert [int_item])"
    by (simp add: dap_cert_add_meta_scalar_def dap_cert_add_meta_def put_meta_def is_bytes_def meta_types sm)
      (simp add: toy_cert_def int_item_def dap_binary_tree_insert_def)
  have "sint (ucast (300 :: u64) :: u32) = 300" "uint (300 :: u64) mod 256 = 44" by simp_all
  with cert_int_low_byte [OF ok add toy_cert_whole, of toy_api] show ?thesis by metis
qed

section \<open>Signatures of a certificate\<close>

lemma memcmp_eq: "length a = length b \<Longrightarrow> memcmp a b = 0 \<longleftrightarrow> a = b"
  by (induction a b rule: memcmp.induct) (auto simp: word_uint_eq_iff)

lemma pair_pub_text:
  assumes "key_pair_ok C k"
  shows "\<exists>P. dap_enc_key_serealize_pub_key k = Inr (Some P) \<and> P \<noteq> [] \<and> length P < 2 ^ 32"
proof -
  consider pk sk where "dil_pair C k pk sk" | pk sk where "tes_pair C k pk sk" | pk sk where "bli_pair C k pk sk"
    | pk p where "pic_pair C k pk p"
    using assms by (auto simp: key_pair_ok_def)
  then show ?thesis
  proof cases
    case 1
    then have k: "key_type k = SIG_DILITHIUM" "pub_key_data k = Some (DilKey pk)" "dilithium_key_ok dil_PUBLICKEYBYTES pk" by (simp_all add: dil_pair_def)
    show ?thesis using k dil_pub.wr_text [OF k(3)] dil_pub.text_size [OF k(3)]
      by (simp add: dap_enc_key_serealize_pub_key_def as_key_def key_casts)
  next
    case 2
    then have k: "key_type k = SIG_TESLA" "pub_key_data k = Some (TesKey pk)" "tesla_key_ok tes_PUBLICKEYBYTES pk" by (simp_all add: tes_pair_def)
    show ?thesis using k tes_pub.wr_text [OF k(3)] tes_pub.text_size [OF k(3)]
      by (simp add: dap_enc_key_serealize_pub_key_def as_key_def key_casts)
  next
    case 3
    then have k: "key_type k = SIG_BLISS" "pub_key_data k = Some (BliPub pk)" "bliss_public_key_ok pk" by (simp_all add: bli_pair_def)
    show ?thesis using k bli_pub.wr_text [OF k(3)] bli_pub.text_size [OF k(3)]
      by (simp add: dap_enc_key_serealize_pub_key_def as_key_def key_casts)
  next
    case 4
    then have k: "key_type k = SIG_PICNIC" "pub_key_data k = Some (Raw pk)" "pub_key_data_size k = word_of_nat (length pk)"
        "pk \<noteq> []" "length pk < 2 ^ 32" by (simp_all add: pic_pair_def)
    have "unat (word_of_nat (length pk) :: u64) = length pk" using k(5) by (intro unat_of_small) simp
    moreover have "(word_of_nat (length pk) :: u64) \<noteq> 0" using word_zero [of "length pk"] k(4,5) by simp
    ultimately show ?thesis using k by (simp add: dap_enc_key_serealize_pub_key_def raw_bytes_def as_key_def key_casts chunk_def)
  qed
qed

lemma create_parts:
  assumes "dap_sign_create C hd_type (Some k) d = Inr (Some s)" "dap_enc_key_serealize_pub_key k = Inr (Some P)"
  shows "\<exists>S. pkey_n_sign s = P @ S \<and> sign_pkey_size s = word_of_nat (length P) \<and> sgn_type s = dap_sign_type_from_key_type (key_type k)"
  using assms by (auto simp: dap_sign_create_def bindE_eq_Inr split: if_splits option.splits prod.splits)

text \<open>
  C19: what a certificate signs compares as equal with the certificate; any whole signed object compares as equal exactly when
  it has the same type and the same public key.
\<close>

theorem cert_compares_signatures:
  assumes "key_pair_ok C (cert_key c)" "hash_known hd_type" "d \<noteq> []"
  shows "\<exists>s. dap_cert_sign C hd_type c (Some d) = Inr (Some s) \<and> dap_cert_compare_with_sign (Some c) (Some s) = Inr 0 \<and>
    (\<forall>s'. sign_whole s' \<longrightarrow> (dap_cert_compare_with_sign (Some c) (Some s') = Inr 0 \<longleftrightarrow>
       sgn_type s' = sgn_type s \<and> pkey_of s' = pkey_of s))"
proof -
  obtain P0 S0 where "signs_as C hd_type (cert_key c) d P0 S0" using signs_pair [OF assms] by blast
  then obtain s where s: "dap_sign_create C hd_type (Some (cert_key c)) (Some d) = Inr (Some s)" by (simp add: signs_as_def)
  obtain P where P: "dap_enc_key_serealize_pub_key (cert_key c) = Inr (Some P)" "P \<noteq> []" "length P < 2 ^ 32"
    using pair_pub_text [OF assms(1)] by blast
  obtain S where S: "pkey_n_sign s = P @ S" "sign_pkey_size s = word_of_nat (length P)"
      "sgn_type s = dap_sign_type_from_key_type (key_type (cert_key c))" using create_parts [OF s P(1)] by blast
  note u = of_small [OF P(3)]
  have own: "pkey_of s = P" using S u by (simp add: pkey_of_def)
  have cmp: "dap_cert_compare_with_sign (Some c) (Some s') = Inr 0 \<longleftrightarrow> sgn_type s' = sgn_type s \<and> pkey_of s' = P"
    if w: "unat (sign_pkey_size s') \<le> length (pkey_n_sign s')" for s'
  proof -
    let ?w = "sign_pkey_size s'"
    have p64: "length P < 2 ^ 64" "unat ?w < 2 ^ 64" using P(3) unat_u32_less [of ?w] by simp_all
    have sz: "(word_of_nat (length P) :: u64) = ucast ?w \<longleftrightarrow> length P = unat ?w"
      unfolding ucast_size using unat_of_small [OF p64(1)] unat_of_small [OF p64(2)] by metis
    have l: "length (pkey_of s') = unat ?w" using w by (simp add: pkey_of_def)
    have ch: "chunkE (pkey_n_sign s') 0 (unat ?w) = Inr (pkey_of s')" using w by (simp add: chunk_def pkey_of_def)
    have "dap_cert_compare_with_sign (Some c) (Some s') = (if sgn_type s = sgn_type s'
        then if length P = unat ?w then Inr (memcmp P (pkey_of s')) else Inr (-2) else Inr (-3))"
      unfolding dap_cert_compare_with_sign_def prod.case option.case P(1) bindE_simps Let_def sz ch S(3) by (rule refl)
    then show ?thesis using memcmp_eq [of P "pkey_of s'"] l by (auto split: if_splits)
  qed
  have "sign_whole s' \<Longrightarrow> unat (sign_pkey_size s') \<le> length (pkey_n_sign s')" for s' by (simp add: sign_whole_def)
  moreover have "unat (sign_pkey_size s) \<le> length (pkey_n_sign s)" using S u by simp
  ultimately show ?thesis using s cmp own by (intro exI [of _ s]) (simp add: dap_cert_sign_def)
qed

theorem cert_compares_signatures_witness:
  "\<exists>s. dap_cert_sign toy_api HASH_TYPE_SHA3 ((toy_cert [])\<lparr>cert_key := toy_picnic\<rparr>) (Some [1]) = Inr (Some s) \<and>
     dap_cert_compare_with_sign (Some ((toy_cert [])\<lparr>cert_key := toy_picnic\<rparr>)) (Some s) = Inr 0"
  using cert_compares_signatures [of toy_api "(toy_cert [])\<lparr>cert_key := toy_picnic\<rparr>" HASH_TYPE_SHA3 "[1]"] toy_picnic_pair
  by (auto simp: hash_known_def)

end
